(* ===== verification/Prelude.thy ===== *)
theory Prelude
  imports Main
begin

text \<open>
  The vocabulary the component theories share: the two collections of rewrite rules that carry
  the component proofs, Go results as sums, and the generic facts on sums, maps and lists that
  more than one component uses.

  \<^item> \<open>i64_simps\<close> collects the facts that turn Go's wrapping 64-bit arithmetic into plain integer
    arithmetic where the operands are in range (theory GoInt).
  \<^item> \<open>go_defs\<close> collects the definitions of straight-line source functions, which proofs unfold.
\<close>

named_theorems i64_simps
named_theorems go_defs

section \<open>Results\<close>

text \<open>
  A Go function with results \<open>(T, error)\<close> is modelled with a result \<open>'e + 'a\<close>: \<open>Inl e\<close> is
  the return with a non-nil error, \<open>Inr x\<close> the return with a nil error and value \<open>x\<close>.
\<close>

fun is_ok :: "'e + 'a \<Rightarrow> bool" where
  "is_ok (Inl _) = False"
| "is_ok (Inr _) = True"

lemma is_ok_iff: "is_ok r \<longleftrightarrow> (\<exists>x. r = Inr x)"
  by (cases r) auto

lemma not_is_ok_iff: "\<not> is_ok r \<longleftrightarrow> (\<exists>e. r = Inl e)"
  by (cases r) auto

section \<open>Maps and lists\<close>

lemma map_of_zip_map_fst:
  "map_of (map (\<lambda>x. (f x, g x)) xs) k = None \<longleftrightarrow> k \<notin> f ` set xs"
  by (induction xs) auto

text \<open>Splitting at the last occurrence of a separator is unique.\<close>

lemma split_first_sep:
  "xs @ c # ys = xs' @ c # ys' \<Longrightarrow> c \<notin> set xs \<Longrightarrow> c \<notin> set xs' \<Longrightarrow> xs = xs' \<and> ys = ys'"
proof (induction xs arbitrary: xs')
  case Nil
  then show ?case by (cases xs') auto
next
  case (Cons x xs)
  then show ?case by (cases xs') auto
qed

lemma append_sep_inj:
  assumes "xs @ c # ys = xs' @ c # ys'" and "c \<notin> set ys" and "c \<notin> set ys'"
  shows "xs = xs' \<and> ys = ys'"
proof -
  from assms(1) have "rev (xs @ c # ys) = rev (xs' @ c # ys')" by simp
  then have "rev ys @ c # rev xs = rev ys' @ c # rev xs'" by simp
  then have "rev ys = rev ys' \<and> rev xs = rev xs'"
    by (rule split_first_sep) (use assms(2,3) in simp_all)
  then show ?thesis by simp
qed

lemma find_SomeD: "List.find P xs = Some x \<Longrightarrow> x \<in> set xs \<and> P x"
  by (auto simp: find_Some_iff)

end
