(* ===== verification/GoInt.thy ===== *)
theory GoInt
  imports Prelude
begin

text \<open>
  Go's \<open>int64\<close> and \<open>uint64\<close> arithmetic. An \<open>int64\<close> is an integer in
  \<open>[MinInt64, MaxInt64]\<close>; every arithmetic operation is the integer operation followed by
  \<open>wrap64\<close>, the reduction to two's complement. The \<open>i64_simps\<close> rules remove the
  reduction where the result is in range.
\<close>

type_synonym i64 = int

abbreviation MaxInt64 :: int where "MaxInt64 \<equiv> 9223372036854775807"
abbreviation MinInt64 :: int where "MinInt64 \<equiv> -9223372036854775808"
abbreviation two64 :: int where "two64 \<equiv> 18446744073709551616"

definition in_i64 :: "int \<Rightarrow> bool" where
  "in_i64 x \<longleftrightarrow> MinInt64 \<le> x \<and> x \<le> MaxInt64"

definition wrap64 :: "int \<Rightarrow> int" where
  "wrap64 x = (x + 9223372036854775808) mod two64 - 9223372036854775808"

definition add64 :: "int \<Rightarrow> int \<Rightarrow> int" where "add64 a b = wrap64 (a + b)"
definition sub64 :: "int \<Rightarrow> int \<Rightarrow> int" where "sub64 a b = wrap64 (a - b)"
definition mul64 :: "int \<Rightarrow> int \<Rightarrow> int" where "mul64 a b = wrap64 (a * b)"
definition neg64 :: "int \<Rightarrow> int" where "neg64 a = wrap64 (- a)"

text \<open>Go's integer division truncates towards zero; the divisors of the model are positive constants.\<close>

definition quot64 :: "int \<Rightarrow> int \<Rightarrow> int" where
  "quot64 a b = wrap64 (sgn a * sgn b * (\<bar>a\<bar> div \<bar>b\<bar>))"

text \<open>The remainder has the sign of the dividend.\<close>

definition rem64 :: "int \<Rightarrow> int \<Rightarrow> int" where
  "rem64 a b = sgn a * (\<bar>a\<bar> mod \<bar>b\<bar>)"

text \<open>The conversion \<open>uint64(x)\<close>, and back.\<close>

definition u64 :: "int \<Rightarrow> int" where "u64 x = x mod two64"

lemma wrap64_id [i64_simps]: "in_i64 x \<Longrightarrow> wrap64 x = x"
  by (simp add: wrap64_def in_i64_def)

lemma in_i64_wrap64 [simp]: "in_i64 (wrap64 x)"
proof -
  have "0 \<le> (x + 9223372036854775808) mod two64" "(x + 9223372036854775808) mod two64 < two64"
    by simp_all
  then show ?thesis by (simp add: wrap64_def in_i64_def)
qed

lemma add64_id [i64_simps]: "in_i64 (a + b) \<Longrightarrow> add64 a b = a + b"
  by (simp add: add64_def wrap64_id)

lemma sub64_id [i64_simps]: "in_i64 (a - b) \<Longrightarrow> sub64 a b = a - b"
  by (simp add: sub64_def wrap64_id)

lemma mul64_id [i64_simps]: "in_i64 (a * b) \<Longrightarrow> mul64 a b = a * b"
  by (simp add: mul64_def wrap64_id)

lemma neg64_id [i64_simps]: "in_i64 (- a) \<Longrightarrow> neg64 a = - a"
  by (simp add: neg64_def wrap64_id)

lemma quot64_nonneg [i64_simps]: "0 \<le> a \<Longrightarrow> a \<le> MaxInt64 \<Longrightarrow> 0 < b \<Longrightarrow> quot64 a b = a div b"
proof -
  assume a: "0 \<le> a" "a \<le> MaxInt64" and b: "0 < b"
  have "a div b \<le> a"
  proof -
    have "a div b \<le> a div 1" using a b zdiv_mono2 [of a 1 b] by simp
    then show ?thesis by simp
  qed
  moreover have "0 \<le> a div b" using a b by (simp add: pos_imp_zdiv_nonneg_iff)
  ultimately have "in_i64 (a div b)" using a by (simp add: in_i64_def)
  moreover have "sgn a * sgn b * (\<bar>a\<bar> div \<bar>b\<bar>) = a div b"
    using a b by (cases "a = 0") auto
  ultimately show ?thesis by (simp add: quot64_def wrap64_id)
qed

lemma rem64_nonneg [i64_simps]: "0 \<le> a \<Longrightarrow> 0 < b \<Longrightarrow> rem64 a b = a mod b"
  by (cases "a = 0") (simp_all add: rem64_def)

lemma u64_id [i64_simps]: "0 \<le> x \<Longrightarrow> x \<le> MaxInt64 \<Longrightarrow> u64 x = x"
  by (simp add: u64_def)

lemma in_i64_arith [simp]: "in_i64 (add64 a b)" "in_i64 (sub64 a b)" "in_i64 (mul64 a b)" "in_i64 (neg64 a)"
  by (simp_all add: add64_def sub64_def mul64_def neg64_def)

text \<open>
  \<open>bits.Mul64\<close> and \<open>bits.Div64\<close> of the standard library: the 128-bit product as high and low
  word, and the quotient of a 128-bit dividend, which panics when the divisor is zero or not
  above the high word (here \<open>None\<close>).
\<close>

definition Mul64 :: "int \<Rightarrow> int \<Rightarrow> int \<times> int" where
  "Mul64 x y = (let p = x * y in (p div two64, p mod two64))"

definition Div64 :: "int \<Rightarrow> int \<Rightarrow> int \<Rightarrow> (int \<times> int) option" where
  "Div64 hi lo y =
     (if y = 0 \<or> y \<le> hi then None
      else (let p = hi * two64 + lo in Some (p div y, p mod y)))"

lemma Div64_Mul64:
  assumes "Mul64 x y = (hi, lo)" and "hi < c" and "0 \<le> x" and "0 \<le> y"
  shows "Div64 hi lo c = Some (x * y div c, x * y mod c)"
proof -
  have hi: "hi = x * y div two64" and lo: "lo = x * y mod two64"
    using assms(1) by (simp_all add: Mul64_def Let_def)
  have "0 \<le> hi" using assms(3,4) hi by (simp add: pos_imp_zdiv_nonneg_iff)
  moreover have "hi * two64 + lo = x * y"
    unfolding hi lo by (rule div_mult_mod_eq)
  ultimately show ?thesis using assms(2) by (simp add: Div64_def Let_def)
qed

text \<open>Clamping to an interval, the reference the saturating operations are compared with.\<close>

definition clamp :: "int \<Rightarrow> int \<Rightarrow> int \<Rightarrow> int" where
  "clamp lo hi x = max lo (min hi x)"

end
