(* ===== verification/GoString.thy ===== *)
theory GoString
  imports GoInt
begin

text \<open>
  The parts of Go's \<open>strings\<close> and \<open>strconv\<close> packages the source uses. A Go string is a byte
  sequence, here a \<open>char list\<close>; the functions that look at white space are those of ASCII text.
\<close>

section \<open>Printing and parsing decimal integers\<close>

fun show_nat :: "nat \<Rightarrow> string" where
  "show_nat n =
     (if n < 10 then [char_of (48 + n)] else show_nat (n div 10) @ [char_of (48 + n mod 10)])"

declare show_nat.simps [simp del]

text \<open>\<open>strconv.FormatInt(i, 10)\<close>, also the rendering of an integer by \<open>encoding/json\<close> and \<open>%d\<close>.\<close>

definition show_int :: "int \<Rightarrow> string" where
  "show_int i = (if i < 0 then CHR ''-'' # show_nat (nat (- i)) else show_nat (nat i))"

definition is_digit :: "char \<Rightarrow> bool" where
  "is_digit c \<longleftrightarrow> 48 \<le> (of_char c :: nat) \<and> (of_char c :: nat) \<le> 57"

fun digits_val :: "nat \<Rightarrow> string \<Rightarrow> nat option" where
  "digits_val acc [] = Some acc"
| "digits_val acc (c # cs) =
     (if is_digit c then digits_val (10 * acc + (of_char c - 48)) cs else None)"

text \<open>
  \<open>strconv.ParseInt(s, 10, 64)\<close>: an optional sign, at least one digit, nothing else, and a value
  in the range of \<open>int64\<close>; \<open>None\<close> is a non-nil error.
\<close>

definition parse_digits :: "string \<Rightarrow> nat option" where
  "parse_digits cs = (if cs = [] then None else digits_val 0 cs)"

definition ParseInt :: "string \<Rightarrow> int option" where
  "ParseInt s =
     (case s of
        [] \<Rightarrow> None
      | c # cs \<Rightarrow>
          if c = CHR ''-'' then
            (case parse_digits cs of None \<Rightarrow> None
             | Some n \<Rightarrow> if int n > 9223372036854775808 then None else Some (- int n))
          else if c = CHR ''+'' then
            (case parse_digits cs of None \<Rightarrow> None
             | Some n \<Rightarrow> if int n > MaxInt64 then None else Some (int n))
          else
            (case parse_digits s of None \<Rightarrow> None
             | Some n \<Rightarrow> if int n > MaxInt64 then None else Some (int n)))"

lemma of_char_digit: "d < 10 \<Longrightarrow> of_char (char_of (48 + d) :: char) = (48 + d :: nat)"
  by simp

lemma is_digit_char_of: "d < 10 \<Longrightarrow> is_digit (char_of (48 + d :: nat))"
  by (simp add: is_digit_def)

lemma show_nat_digits: "\<forall>c \<in> set (show_nat n). is_digit c"
proof (induction n rule: show_nat.induct)
  case (1 n)
  then show ?case by (subst show_nat.simps) (auto simp: is_digit_char_of)
qed

lemma show_nat_nonempty [simp]: "show_nat n \<noteq> []"
  by (subst show_nat.simps) simp

lemma digits_val_append:
  "digits_val acc (xs @ ys) = (case digits_val acc xs of None \<Rightarrow> None | Some v \<Rightarrow> digits_val v ys)"
  by (induction xs arbitrary: acc) auto

lemma digits_val_show_nat: "digits_val 0 (show_nat n) = Some n"
proof (induction n rule: show_nat.induct)
  case (1 n)
  show ?case
  proof (cases "n < 10")
    case True
    then show ?thesis
      by (subst show_nat.simps) (simp add: is_digit_char_of)
  next
    case False
    with "1" have "digits_val 0 (show_nat (n div 10)) = Some (n div 10)" by simp
    with False show ?thesis
      by (subst show_nat.simps) (simp add: digits_val_append is_digit_char_of)
  qed
qed

lemma parse_digits_show_nat [simp]: "parse_digits (show_nat n) = Some n"
  by (simp add: parse_digits_def digits_val_show_nat)

lemma show_nat_head:
  "show_nat n = c # cs \<Longrightarrow> c \<noteq> CHR ''-'' \<and> c \<noteq> CHR ''+''"
  using show_nat_digits [of n] by (auto simp: is_digit_def)

text \<open>Parsing what was printed gives the number back, for every \<open>int64\<close>.\<close>

lemma ParseInt_show_nat: "int n \<le> MaxInt64 \<Longrightarrow> ParseInt (show_nat n) = Some (int n)"
proof -
  assume n: "int n \<le> MaxInt64"
  obtain c cs where "show_nat n = c # cs" by (cases "show_nat n") auto
  with show_nat_head [OF this] n parse_digits_show_nat [of n] show ?thesis
    by (simp add: ParseInt_def)
qed

lemma ParseInt_show_int: "in_i64 i \<Longrightarrow> ParseInt (show_int i) = Some i"
proof (cases "i < 0")
  case True
  moreover assume "in_i64 i"
  ultimately show ?thesis
    by (simp add: ParseInt_def show_int_def in_i64_def)
next
  case False
  moreover assume "in_i64 i"
  ultimately show ?thesis
    using ParseInt_show_nat [of "nat i"] by (simp add: show_int_def in_i64_def)
qed

lemma show_int_chars: "c \<in> set (show_int i) \<Longrightarrow> is_digit c \<or> c = CHR ''-''"
  using show_nat_digits by (auto simp: show_int_def split: if_splits)

lemma ParseInt_in_i64: "ParseInt s = Some i \<Longrightarrow> in_i64 i"
  by (auto simp: ParseInt_def in_i64_def split: list.splits if_splits option.splits)

text \<open>The same printing without a range: an optional minus sign and digits.\<close>

definition digits_signed :: "string \<Rightarrow> int option" where
  "digits_signed s =
     (case s of
        [] \<Rightarrow> None
      | c # cs \<Rightarrow> if c = CHR ''-'' then map_option (\<lambda>n. - int n) (parse_digits cs)
                  else map_option int (parse_digits s))"

lemma digits_signed_show_int: "digits_signed (show_int i) = Some i"
proof (cases "i < 0")
  case True
  then show ?thesis by (simp add: digits_signed_def show_int_def)
next
  case False
  obtain c cs where "show_nat (nat i) = c # cs" by (cases "show_nat (nat i)") auto
  with False show_nat_head [OF this] parse_digits_show_nat [of "nat i"] show ?thesis
    by (simp add: digits_signed_def show_int_def)
qed

section \<open>Splitting, trimming, joining\<close>

text \<open>\<open>strings.Split(s, sep)\<close> for a separator of one byte: one piece more than separators.\<close>

fun Split :: "string \<Rightarrow> char \<Rightarrow> string list" where
  "Split [] sep = [[]]"
| "Split (c # cs) sep =
     (if c = sep then [] # Split cs sep
      else (case Split cs sep of [] \<Rightarrow> [[c]] | p # ps \<Rightarrow> (c # p) # ps))"

definition HasPrefix :: "string \<Rightarrow> string \<Rightarrow> bool" where
  "HasPrefix s prefix \<longleftrightarrow> take (length prefix) s = prefix"

definition HasSuffix :: "string \<Rightarrow> string \<Rightarrow> bool" where
  "HasSuffix s suffix \<longleftrightarrow> length suffix \<le> length s \<and> drop (length s - length suffix) s = suffix"

definition is_space :: "char \<Rightarrow> bool" where
  "is_space c \<longleftrightarrow> c \<in> {CHR 0x09, CHR 0x0A, CHR 0x0B, CHR 0x0C, CHR 0x0D, CHR '' ''}"

definition TrimSpace :: "string \<Rightarrow> string" where
  "TrimSpace s = rev (dropWhile is_space (rev (dropWhile is_space s)))"

text \<open>\<open>strings.LastIndex(s, sep)\<close> for a separator of one byte: \<open>-1\<close> when it does not occur.\<close>

definition LastIndex :: "string \<Rightarrow> char \<Rightarrow> int" where
  "LastIndex s sep =
     (let t = takeWhile (\<lambda>c. c \<noteq> sep) (rev s)
      in if length t = length s then -1 else int (length s - length t) - 1)"

fun join :: "char \<Rightarrow> string list \<Rightarrow> string" where
  "join sep [] = []"
| "join sep [p] = p"
| "join sep (p # q # ps) = p @ sep # join sep (q # ps)"

lemma Split_nonempty [simp]: "Split s sep \<noteq> []"
  by (cases s) (auto split: list.splits)

lemma Split_no_sep: "sep \<notin> set s \<Longrightarrow> Split s sep = [s]"
  by (induction s) auto

lemma Split_append_sep: "sep \<notin> set p \<Longrightarrow> Split (p @ sep # s) sep = p # Split s sep"
  by (induction p) auto

text \<open>Splitting a joined list of separator-free pieces gives the pieces.\<close>

lemma Split_join: "ps \<noteq> [] \<Longrightarrow> \<forall>p \<in> set ps. sep \<notin> set p \<Longrightarrow> Split (join sep ps) sep = ps"
  by (induction ps rule: join.induct) (auto simp: Split_no_sep Split_append_sep)

lemma dropWhile_none: "\<forall>c \<in> set s. \<not> P c \<Longrightarrow> dropWhile P s = s"
  by (cases s) auto

lemma TrimSpace_id: "\<forall>c \<in> set s. \<not> is_space c \<Longrightarrow> TrimSpace s = s"
  using dropWhile_none [of s is_space] dropWhile_none [of "rev s" is_space]
  by (simp add: TrimSpace_def)

lemma LastIndex_split:
  assumes "sep \<notin> set ys"
  shows "LastIndex (xs @ sep # ys) sep = int (length xs)"
proof -
  have "takeWhile (\<lambda>c. c \<noteq> sep) (rev (xs @ sep # ys)) = rev ys"
    using assms by (subst rev_append, simp) (subst takeWhile_tail, auto)
  then show ?thesis by (simp add: LastIndex_def)
qed

lemma digit_not_space: "is_digit c \<Longrightarrow> \<not> is_space c"
  by (auto simp: is_digit_def is_space_def)

end
