(* ===== verification/OlricStore.thy ===== *)
theory OlricStore
  imports GoString
begin

text \<open>
  The bucket store of the gateway's rate limiter (\<open>ratelimit/olric_store.go\<close>): the stored state,
  the \<open>OlricStore\<close> interface, its implementation over an Olric distributed map, and the in-process
  store of the package's tests (\<open>fake_store_test.go\<close>).

  An operation of an interface value takes the state \<open>'s\<close> of the world behind the interface and
  returns its result with the new state. What other processes do to the store between two calls is
  part of that state: a call is one atomic step. The Olric map itself is not part of the repository,
  so it is a parameter (a \<open>DMap\<close> record), and what the code relies on of it is the locale
  \<open>olric_dmap\<close>.
\<close>

section \<open>The stored state and the interface\<close>

record bucketState =
  Value :: i64
  LastRefill :: i64

datatype store_error =
    ErrGet string
  | ErrGetDecode string
  | ErrGetUnmarshal
  | ErrCas string
  | ErrDelete string
  | ErrFake string

record 's OlricStore =
  GetBucket :: "string \<Rightarrow> 's \<Rightarrow> (store_error + bucketState option) \<times> 's"
  CompareAndSetBucket ::
    "string \<Rightarrow> bucketState option \<Rightarrow> bucketState \<Rightarrow> i64 \<Rightarrow> 's \<Rightarrow> (store_error + bool) \<times> 's"
  DeleteKeys :: "string list \<Rightarrow> 's \<Rightarrow> (store_error + unit) \<times> 's"

text \<open>
  The contract the interface's comment states: a read returns the current state of the key, a swap
  succeeds only if the stored state still is the expected one (\<open>None\<close>: the key is absent) and then
  stores the new state, and a refused swap changes nothing. A call that fails may still have stored
  its value, as a request that timed out may.
\<close>

locale olric_store =
  fixes st :: "'s OlricStore"
    and view :: "'s \<Rightarrow> string \<Rightarrow> bucketState option"
  assumes get_view: "GetBucket st k s = (Inr b, s') \<Longrightarrow> b = view s k"
    and get_frame: "GetBucket st k s = (r, s') \<Longrightarrow> view s' = view s"
    and cas_swapped: "CompareAndSetBucket st k e n ttl s = (Inr True, s') \<Longrightarrow>
          view s k = e \<and> view s' = (view s)(k := Some n)"
    and cas_refused: "CompareAndSetBucket st k e n ttl s = (Inr False, s') \<Longrightarrow> view s' = view s"
    and cas_failed: "CompareAndSetBucket st k e n ttl s = (Inl x, s') \<Longrightarrow>
          view s' = view s \<or> (view s k = e \<and> view s' = (view s)(k := Some n))"
    and delete_view: "DeleteKeys st ks s = (Inr u, s') \<Longrightarrow>
          view s' = (\<lambda>k. if k \<in> set ks then None else view s k)"
begin

text \<open>Whatever a swap returns, no other key changes.\<close>

lemma cas_other_key:
  assumes "CompareAndSetBucket st k e n ttl s = (r, s')" and "k' \<noteq> k"
  shows "view s' k' = view s k'"
proof (cases r)
  case (Inl x)
  with assms show ?thesis using cas_failed [of k e n ttl s x s'] by auto
next
  case (Inr b)
  with assms show ?thesis
    using cas_swapped [of k e n ttl s s'] cas_refused [of k e n ttl s s'] by (cases b) auto
qed

end

section \<open>The implementation over an Olric map\<close>

datatype dmap_error = ErrKeyNotFound | DMapError string

text \<open>
  The operations the code calls on an \<open>olric.DMap\<close>: \<open>Get\<close> returns a response whose \<open>Byte()\<close> is
  the stored byte string or a decode error; \<open>CompareAndSwap\<close> takes the expected bytes, or
  nil.
\<close>

record 's DMap =
  dm_Get :: "string \<Rightarrow> 's \<Rightarrow> (dmap_error + (string + string)) \<times> 's"
  dm_CompareAndSwap :: "string \<Rightarrow> string option \<Rightarrow> string \<Rightarrow> i64 \<Rightarrow> 's \<Rightarrow> (string + bool) \<times> 's"
  dm_Delete :: "string list \<Rightarrow> 's \<Rightarrow> (string + int) \<times> 's"

text \<open>
  \<open>json.Marshal\<close> of a bucket: the two fields under their tags, in declaration order. The decoder
  \<open>json.Unmarshal\<close> is an argument of the store.
\<close>

definition marshal_bucket :: "bucketState \<Rightarrow> string" where
  "marshal_bucket b =
     CHR ''{'' # CHR 0x22 # ''v'' @ CHR 0x22 # CHR '':'' # show_int (Value b)
       @ CHR '','' # CHR 0x22 # ''t'' @ CHR 0x22 # CHR '':'' # show_int (LastRefill b) @ ''}''"

definition olric_GetBucket ::
    "'s DMap \<Rightarrow> (string \<Rightarrow> bucketState option) \<Rightarrow> string \<Rightarrow> 's \<Rightarrow> (store_error + bucketState option) \<times> 's"
  where
  "olric_GetBucket dmap unmarshal key s =
     (case dm_Get dmap key s of
        (Inl ErrKeyNotFound, s') \<Rightarrow> (Inr None, s')
      | (Inl (DMapError e), s') \<Rightarrow> (Inl (ErrGet e), s')
      | (Inr (Inl e), s') \<Rightarrow> (Inl (ErrGetDecode e), s')
      | (Inr (Inr decoded), s') \<Rightarrow>
          (case unmarshal decoded of
             None \<Rightarrow> (Inl ErrGetUnmarshal, s')
           | Some b \<Rightarrow> (Inr (Some b), s')))"

definition olric_CompareAndSetBucket ::
    "'s DMap \<Rightarrow> string \<Rightarrow> bucketState option \<Rightarrow> bucketState \<Rightarrow> i64 \<Rightarrow> 's \<Rightarrow> (store_error + bool) \<times> 's"
  where
  "olric_CompareAndSetBucket dmap key expected newState ttl s =
     (case dm_CompareAndSwap dmap key (map_option marshal_bucket expected) (marshal_bucket newState) ttl s of
        (Inl e, s') \<Rightarrow> (Inl (ErrCas e), s')
      | (Inr swapped, s') \<Rightarrow> (Inr swapped, s'))"

definition olric_Delete :: "'s DMap \<Rightarrow> string list \<Rightarrow> 's \<Rightarrow> (store_error + unit) \<times> 's" where
  "olric_Delete dmap keys s =
     (if keys = [] then (Inr (), s)
      else (case dm_Delete dmap keys s of
              (Inl e, s') \<Rightarrow> (Inl (ErrDelete e), s')
            | (Inr _, s') \<Rightarrow> (Inr (), s')))"

definition NewOlricStore :: "'s DMap \<Rightarrow> (string \<Rightarrow> bucketState option) \<Rightarrow> 's OlricStore" where
  "NewOlricStore dmap unmarshal =
     \<lparr>GetBucket = olric_GetBucket dmap unmarshal,
      CompareAndSetBucket = olric_CompareAndSetBucket dmap,
      DeleteKeys = olric_Delete dmap\<rparr>"

text \<open>
  What the store relies on of the map and the decoder: reads and swaps of a key are atomic steps
  on the bytes the key holds, and decoding what was encoded gives it back.
\<close>

locale olric_dmap =
  fixes dmap :: "'s DMap"
    and unmarshal :: "string \<Rightarrow> bucketState option"
    and raw :: "'s \<Rightarrow> string \<Rightarrow> string option"
  assumes unmarshal_marshal: "unmarshal (marshal_bucket b) = Some b"
    and raw_get_found: "dm_Get dmap k s = (Inr (Inr bs), s') \<Longrightarrow> raw s k = Some bs"
    and raw_get_absent: "dm_Get dmap k s = (Inl ErrKeyNotFound, s') \<Longrightarrow> raw s k = None"
    and raw_get_frame: "dm_Get dmap k s = (r, s') \<Longrightarrow> raw s' = raw s"
    and raw_cas_swapped: "dm_CompareAndSwap dmap k e n ttl s = (Inr True, s') \<Longrightarrow>
          raw s k = e \<and> raw s' = (raw s)(k := Some n)"
    and raw_cas_refused: "dm_CompareAndSwap dmap k e n ttl s = (Inr False, s') \<Longrightarrow> raw s' = raw s"
    and raw_cas_failed: "dm_CompareAndSwap dmap k e n ttl s = (Inl x, s') \<Longrightarrow>
          raw s' = raw s \<or> (raw s k = e \<and> raw s' = (raw s)(k := Some n))"
    and raw_delete: "dm_Delete dmap ks s = (Inr c, s') \<Longrightarrow>
          raw s' = (\<lambda>k. if k \<in> set ks then None else raw s k)"
begin

text \<open>The buckets behind the bytes.\<close>

definition bucket_view :: "'s \<Rightarrow> string \<Rightarrow> bucketState option" where
  "bucket_view s k = (case raw s k of None \<Rightarrow> None | Some bs \<Rightarrow> unmarshal bs)"

lemma raw_expected: "raw s k = map_option marshal_bucket e \<Longrightarrow> bucket_view s k = e"
  by (cases e) (simp_all add: bucket_view_def unmarshal_marshal)

lemma bucket_view_upd:
  "raw s' = (raw s)(k := Some (marshal_bucket b)) \<Longrightarrow> bucket_view s' = (bucket_view s)(k := Some b)"
  by (rule ext) (simp add: bucket_view_def unmarshal_marshal)

lemma bucket_view_same: "raw s' = raw s \<Longrightarrow> bucket_view s' = bucket_view s"
  by (rule ext) (simp add: bucket_view_def)

lemma bucket_view_delete:
  "raw s' = (\<lambda>k. if k \<in> A then None else raw s k) \<Longrightarrow>
   bucket_view s' = (\<lambda>k. if k \<in> A then None else bucket_view s k)"
  by (rule ext) (simp add: bucket_view_def)

end

text \<open>An Olric map that keeps its contract makes the store keep the interface's.\<close>

sublocale olric_dmap \<subseteq> os: olric_store "NewOlricStore dmap unmarshal" bucket_view
proof (unfold_locales, goal_cases)
  case (1 k s b s')
  then show ?case
    using raw_get_found [of k s] raw_get_absent [of k s]
    by (auto simp: NewOlricStore_def olric_GetBucket_def bucket_view_def
        split: prod.splits sum.splits dmap_error.splits option.splits)
next
  case (2 k s r s')
  then show ?case
    using raw_get_frame [of k s]
    by (auto simp: NewOlricStore_def olric_GetBucket_def intro!: bucket_view_same
        split: prod.splits sum.splits dmap_error.splits option.splits)
next
  case (3 k e n ttl s s')
  then show ?case
    using raw_cas_swapped [of k "map_option marshal_bucket e" "marshal_bucket n" ttl s s']
    by (auto simp: NewOlricStore_def olric_CompareAndSetBucket_def
        intro: raw_expected bucket_view_upd split: prod.splits sum.splits)
next
  case (4 k e n ttl s s')
  then show ?case
    using raw_cas_refused [of k "map_option marshal_bucket e" "marshal_bucket n" ttl s s']
    by (auto simp: NewOlricStore_def olric_CompareAndSetBucket_def
        intro: bucket_view_same split: prod.splits sum.splits)
next
  case (5 k e n ttl s x s')
  then show ?case
    using raw_cas_failed [of k "map_option marshal_bucket e" "marshal_bucket n" ttl s _ s']
    by (auto simp: NewOlricStore_def olric_CompareAndSetBucket_def
        dest: raw_expected bucket_view_upd bucket_view_same split: prod.splits sum.splits)
next
  case (6 ks s u s')
  show ?case
  proof (cases "ks = []")
    case True
    with 6 show ?thesis by (simp add: NewOlricStore_def olric_Delete_def)
  next
    case False
    with 6 obtain c where "dm_Delete dmap ks s = (Inr c, s')"
      by (auto simp: NewOlricStore_def olric_Delete_def split: prod.splits sum.splits)
    then show ?thesis by (intro bucket_view_delete raw_delete)
  qed
qed

section \<open>The in-process store of the tests\<close>

text \<open>
  \<open>fakeStore\<close> simulates the partition owner with a process-wide mutex, so each method is one
  atomic step. Its failure switches and \<open>forcedMismatches\<close> drive the limiter's error and retry
  paths.
\<close>

record fakeStore =
  buckets :: "string \<Rightarrow> bucketState"
  exists :: "string \<Rightarrow> bool"
  failGet :: bool
  failCAS :: bool
  forcedMismatches :: int
  getCalls :: int
  casCalls :: int
  casSwaps :: int
  lastTTL :: "string \<Rightarrow> i64"

definition newFakeStore :: fakeStore where
  "newFakeStore =
     \<lparr>buckets = (\<lambda>_. \<lparr>Value = 0, LastRefill = 0\<rparr>), exists = (\<lambda>_. False), failGet = False,
      failCAS = False, forcedMismatches = 0, getCalls = 0, casCalls = 0, casSwaps = 0,
      lastTTL = (\<lambda>_. 0)\<rparr>"

definition fake_GetBucket :: "string \<Rightarrow> fakeStore \<Rightarrow> (store_error + bucketState option) \<times> fakeStore" where
  "fake_GetBucket key f =
     (let f = f\<lparr>getCalls := getCalls f + 1\<rparr> in
      if failGet f then (Inl (ErrFake ''fake get error''), f)
      else if \<not> exists f key then (Inr None, f)
      else (Inr (Some (buckets f key)), f))"

definition fake_CompareAndSetBucket ::
    "string \<Rightarrow> bucketState option \<Rightarrow> bucketState \<Rightarrow> i64 \<Rightarrow> fakeStore \<Rightarrow> (store_error + bool) \<times> fakeStore"
  where
  "fake_CompareAndSetBucket key expected state ttl f =
     (let f = f\<lparr>casCalls := casCalls f + 1, lastTTL := (lastTTL f)(key := ttl)\<rparr> in
      if failCAS f then (Inl (ErrFake ''fake cas error''), f)
      else if forcedMismatches f > 0 then
        (Inr False, f\<lparr>forcedMismatches := forcedMismatches f - 1\<rparr>)
      else if (case expected of
                 None \<Rightarrow> exists f key
               | Some e \<Rightarrow> \<not> exists f key \<or> e \<noteq> buckets f key) then (Inr False, f)
      else (Inr True, f\<lparr>buckets := (buckets f)(key := state), exists := (exists f)(key := True),
                         casSwaps := casSwaps f + 1\<rparr>))"

definition fake_Delete :: "string list \<Rightarrow> fakeStore \<Rightarrow> (store_error + unit) \<times> fakeStore" where
  "fake_Delete keys f =
     (Inr (), f\<lparr>buckets := (\<lambda>k. if k \<in> set keys then \<lparr>Value = 0, LastRefill = 0\<rparr> else buckets f k),
               exists := (\<lambda>k. if k \<in> set keys then False else exists f k)\<rparr>)"

definition fake_store :: "fakeStore OlricStore" where
  "fake_store = \<lparr>GetBucket = fake_GetBucket, CompareAndSetBucket = fake_CompareAndSetBucket,
                 DeleteKeys = fake_Delete\<rparr>"

definition fake_view :: "fakeStore \<Rightarrow> string \<Rightarrow> bucketState option" where
  "fake_view f k = (if exists f k then Some (buckets f k) else None)"

lemmas fake_defs = fake_store_def fake_GetBucket_def fake_CompareAndSetBucket_def fake_Delete_def
  fake_view_def Let_def

interpretation fs: olric_store fake_store fake_view
  by unfold_locales (auto simp: fake_defs fun_eq_iff split: if_splits option.splits)

section \<open>An in-memory Olric map\<close>

text \<open>
  A map of byte strings with atomic operations, and a decoder of what \<open>marshal_bucket\<close> writes:
  the contract \<open>olric_dmap\<close> can be met, and the store over it runs.
\<close>

definition mem_dmap :: "(string \<Rightarrow> string option) DMap" where
  "mem_dmap =
     \<lparr>dm_Get = (\<lambda>k m. ((case m k of None \<Rightarrow> Inl ErrKeyNotFound | Some bs \<Rightarrow> Inr (Inr bs)), m)),
      dm_CompareAndSwap = (\<lambda>k e n ttl m.
         if m k = e then (Inr True, m(k := Some n)) else (Inr False, m)),
      dm_Delete = (\<lambda>ks m. (Inr (int (length ks)), (\<lambda>k. if k \<in> set ks then None else m k)))\<rparr>"

definition unmarshal_written :: "string \<Rightarrow> bucketState option" where
  "unmarshal_written bs =
     (let v = takeWhile (\<lambda>c. c \<noteq> CHR '','') (drop 5 bs);
          t = takeWhile (\<lambda>c. c \<noteq> CHR ''}'') (drop 5 (drop (length v) (drop 5 bs)))
      in case (digits_signed v, digits_signed t) of
           (Some i, Some j) \<Rightarrow> Some \<lparr>Value = i, LastRefill = j\<rparr>
         | _ \<Rightarrow> None)"

lemma takeWhile_show_int:
  "\<not> is_digit c \<Longrightarrow> c \<noteq> CHR ''-'' \<Longrightarrow> takeWhile (\<lambda>x. x \<noteq> c) (show_int i @ c # r) = show_int i"
proof -
  assume c: "\<not> is_digit c" "c \<noteq> CHR ''-''"
  have "\<forall>x \<in> set (show_int i). x \<noteq> c" using show_int_chars [of _ i] c by blast
  then show ?thesis by (subst takeWhile_append2) auto
qed

lemma unmarshal_written_marshal: "unmarshal_written (marshal_bucket b) = Some b"
proof -
  have v: "takeWhile (\<lambda>c. c \<noteq> CHR '','') (drop 5 (marshal_bucket b)) = show_int (Value b)"
    by (simp add: marshal_bucket_def takeWhile_show_int is_digit_def)
  have t: "takeWhile (\<lambda>c. c \<noteq> CHR ''}'') (drop 5 (drop (length (show_int (Value b))) (drop 5 (marshal_bucket b))))
      = show_int (LastRefill b)"
    by (simp add: marshal_bucket_def takeWhile_show_int is_digit_def del: drop_drop)
  show ?thesis
    unfolding unmarshal_written_def v Let_def t by (simp add: digits_signed_show_int)
qed

interpretation md: olric_dmap mem_dmap unmarshal_written "\<lambda>m. m"
  by unfold_locales
    (auto simp: mem_dmap_def unmarshal_written_marshal split: option.splits if_splits)

text \<open>The store over the in-memory map keeps the interface's contract.\<close>

lemmas mem_store = md.os.olric_store_axioms

end
