(* ===== verification/RateLimit.thy ===== *)
theory RateLimit
  imports OlricStore
begin

text \<open>
  The gateway's rate limiter (\<open>ratelimit/ratelimit.go\<close>): the saturating 64-bit arithmetic, the
  continuous-refill bucket transition, the compare-and-swap retry loop, \<open>CheckLimit\<close> and
  \<open>Reset\<close>, and the constructor with its options.

  A context is modelled by what the limiter asks of it, \<open>ctx.Err()\<close> in the current state of the
  world; the clock, the random source and \<open>time.Sleep\<close> may change that state, which is where
  other clients of the store run.
\<close>

section \<open>Data\<close>

datatype limiterMode = limiterModeTestOnly | limiterModeConsumeIfAllowed | limiterModeMustConsume

record RateLimit =
  Limit :: i64
  Period :: i64
  AllowDebt :: bool

record RateLimitResult =
  CurrentValue :: i64
  Requested :: i64
  ResultRateLimit :: RateLimit
  reverted :: bool

record RateLimitEvent =
  EventKey :: string
  EventResult :: RateLimitResult
  EventRequestID :: string
  EventMustConsume :: bool

datatype rl_error =
    GetBucketErr store_error
  | CasBucketErr store_error
  | CtxErr string
  | ErrCASExhausted int
  | DeleteErr store_error
  | StoreRequired
  | Panic

type_synonym 's ctx = "'s \<Rightarrow> string option"

record 's Synchronizer =
  SendEvent :: "RateLimitEvent \<Rightarrow> 's \<Rightarrow> (string + unit) \<times> 's"

record 's RateLimiter =
  CheckLimit :: "'s ctx \<Rightarrow> string \<Rightarrow> RateLimit \<Rightarrow> i64 \<Rightarrow> bool \<Rightarrow> string \<Rightarrow> bool \<Rightarrow> 's
                  \<Rightarrow> (rl_error + RateLimitResult) \<times> 's"
  ResetKeys :: "'s ctx \<Rightarrow> string list \<Rightarrow> 's \<Rightarrow> (rl_error + unit) \<times> 's"

text \<open>
  The limiter's fields. \<open>randInt64N n\<close> is \<open>rand.Int64N(n)\<close> of the process's random source;
  \<open>sleep\<close> is \<open>None\<close> for a nil function.
\<close>

record 's rateLimiter =
  store :: "'s OlricStore"
  failOpen :: bool
  synchronizer :: "'s Synchronizer"
  casMaxAttempts :: int
  casInitialWait :: i64
  casMaxWait :: i64
  nowMs :: "'s \<Rightarrow> i64 \<times> 's"
  sleep :: "(i64 \<Rightarrow> 's \<Rightarrow> 's) option"
  randInt64N :: "i64 \<Rightarrow> 's \<Rightarrow> i64 \<times> 's"

section \<open>Saturating arithmetic\<close>

definition saturatingSub :: "i64 \<Rightarrow> i64 \<Rightarrow> i64" where
  "saturatingSub a b =
     (if b < 0 \<and> a > add64 MaxInt64 b then MaxInt64
      else if b > 0 \<and> a < add64 MinInt64 b then MinInt64
      else sub64 a b)"

definition saturatingConsume :: "i64 \<Rightarrow> i64 \<Rightarrow> i64 \<Rightarrow> i64 \<Rightarrow> i64" where
  "saturatingConsume current requested floor rate =
     (if requested \<ge> 0 then
        (if requested > saturatingSub current floor then floor else sub64 current requested)
      else if requested = MinInt64 then rate
      else (let refund = neg64 requested in
            if refund > saturatingSub rate current then rate else add64 current refund))"

text \<open>The result is \<open>None\<close> where \<open>bits.Div64\<close> would panic.\<close>

definition mulDivInt64 :: "i64 \<Rightarrow> i64 \<Rightarrow> i64 \<Rightarrow> i64 option" where
  "mulDivInt64 a b c =
     (case Mul64 (u64 a) (u64 b) of
        (hi, lo) \<Rightarrow>
          if hi \<ge> u64 c then Some MaxInt64
          else (case Div64 hi lo (u64 c) of
                  None \<Rightarrow> None
                | Some (q, _) \<Rightarrow> if q > MaxInt64 then Some MaxInt64 else Some q))"

section \<open>The bucket transition\<close>

text \<open>
  The value the caller observes: the stored value (a full bucket when the key is absent) plus the
  refill of the elapsed time, capped at the rate.
\<close>

definition observedValue :: "i64 \<Rightarrow> i64 \<Rightarrow> bucketState option \<Rightarrow> i64 \<Rightarrow> i64 option" where
  "observedValue rate periodMs state now =
     (let value = (case state of None \<Rightarrow> rate | Some b \<Rightarrow> Value b);
          lastRefill = (case state of None \<Rightarrow> now | Some b \<Rightarrow> LastRefill b);
          elapsed0 = sub64 now lastRefill;
          elapsed = (if elapsed0 < 0 then 0 else elapsed0)
      in case (if periodMs > 0 then mulDivInt64 elapsed rate periodMs else Some 0) of
           None \<Rightarrow> None
         | Some refill \<Rightarrow>
             if (periodMs > 0 \<and> elapsed \<ge> mul64 2 periodMs) \<or> refill > saturatingSub rate value
             then Some rate else Some (add64 value refill))"

text \<open>
  The decision on an observed bucket: the observed value, and the state to publish where the mode
  and the value call for a write. \<open>None\<close> is a panic.
\<close>

definition bucketStep ::
    "limiterMode \<Rightarrow> bool \<Rightarrow> i64 \<Rightarrow> i64 \<Rightarrow> i64 \<Rightarrow> bucketState option \<Rightarrow> i64
       \<Rightarrow> (i64 \<times> bucketState option) option" where
  "bucketStep mode allowDebt rate periodMs tokensRequested state now =
     (case observedValue rate periodMs state now of
        None \<Rightarrow> None
      | Some currentValue \<Rightarrow>
          (let allowed = (currentValue \<ge> tokensRequested);
               shouldWrite = (mode = limiterModeMustConsume \<or>
                              (mode = limiterModeConsumeIfAllowed \<and> allowed));
               floor = (if allowDebt \<and> mode = limiterModeMustConsume then neg64 rate else 0);
               newValue = saturatingConsume currentValue tokensRequested floor rate
           in if \<not> shouldWrite then Some (currentValue, None)
              else Some (currentValue, Some \<lparr>Value = newValue, LastRefill = now\<rparr>)))"

definition limiterModeOf :: "bool \<Rightarrow> bool \<Rightarrow> limiterMode" where
  "limiterModeOf testOnly mustConsume =
     (if testOnly then limiterModeTestOnly
      else if mustConsume then limiterModeMustConsume
      else limiterModeConsumeIfAllowed)"

definition bucketTTL :: "i64 \<Rightarrow> bool \<Rightarrow> i64" where
  "bucketTTL period allowDebt = (if allowDebt then mul64 2 period else period)"

text \<open>
  One run of the closure \<open>leakyBucket\<close> hands to the retry loop: read, decide, publish. The
  clock is read between the store's read and its swap, as the source does.
\<close>

definition leakyAttempt ::
    "'s rateLimiter \<Rightarrow> string \<Rightarrow> i64 \<Rightarrow> i64 \<Rightarrow> i64 \<Rightarrow> limiterMode \<Rightarrow> bool \<Rightarrow> 's
       \<Rightarrow> (rl_error + i64 \<times> bool) \<times> 's" where
  "leakyAttempt rl key rate period tokensRequested mode allowDebt s =
     (case GetBucket (store rl) key s of
        (Inl e, s1) \<Rightarrow> (Inl (GetBucketErr e), s1)
      | (Inr state, s1) \<Rightarrow>
          (case nowMs rl s1 of
             (now, s2) \<Rightarrow>
               (case bucketStep mode allowDebt rate (quot64 period 1000000) tokensRequested state now of
                  None \<Rightarrow> (Inl Panic, s2)
                | Some (currentValue, None) \<Rightarrow> (Inr (currentValue, True), s2)
                | Some (currentValue, Some newState) \<Rightarrow>
                    (case CompareAndSetBucket (store rl) key state newState
                            (bucketTTL period allowDebt) s2 of
                       (Inl e, s3) \<Rightarrow> (Inl (CasBucketErr e), s3)
                     | (Inr swapped, s3) \<Rightarrow> (Inr (currentValue, swapped), s3)))))"

section \<open>The retry loop\<close>

definition jitter :: "'s rateLimiter \<Rightarrow> i64 \<Rightarrow> 's \<Rightarrow> i64 \<times> 's" where
  "jitter rl d s =
     (if d \<le> 0 then (0, s)
      else (let half = quot64 d 2 in
            if half \<le> 0 then (d, s)
            else (case randInt64N rl (add64 half 1) s of (r, s') \<Rightarrow> (add64 half r, s'))))"

definition backoffSleep :: "'s rateLimiter \<Rightarrow> i64 \<Rightarrow> 's \<Rightarrow> 's" where
  "backoffSleep rl backoff s =
     (case sleep rl of
        None \<Rightarrow> s
      | Some slp \<Rightarrow> if backoff > 0 then (case jitter rl backoff s of (d, s') \<Rightarrow> slp d s') else s)"

definition nextBackoff :: "'s rateLimiter \<Rightarrow> i64 \<Rightarrow> i64" where
  "nextBackoff rl backoff =
     (if backoff > 0 \<and> backoff < casMaxWait rl then
        (let b = mul64 backoff 2 in if b > casMaxWait rl then casMaxWait rl else b)
      else backoff)"

fun casLoop ::
    "'s rateLimiter \<Rightarrow> 's ctx \<Rightarrow> ('s \<Rightarrow> (rl_error + i64 \<times> bool) \<times> 's) \<Rightarrow> nat \<Rightarrow> i64 \<Rightarrow> 's
       \<Rightarrow> (rl_error + i64) \<times> 's" where
  "casLoop rl ctx attempt 0 backoff s = (Inl (ErrCASExhausted (casMaxAttempts rl)), s)"
| "casLoop rl ctx attempt (Suc n) backoff s =
     (case ctx s of
        Some e \<Rightarrow> (Inl (CtxErr e), s)
      | None \<Rightarrow>
          (case attempt s of
             (Inl e, s1) \<Rightarrow> (Inl e, s1)
           | (Inr (result, done), s1) \<Rightarrow>
               if done then (Inr result, s1)
               else casLoop rl ctx attempt n (nextBackoff rl backoff) (backoffSleep rl backoff s1)))"

text \<open>The loop runs \<open>casMaxAttempts\<close> times at most; the remaining attempts are its counter.\<close>

definition casRetry ::
    "'s rateLimiter \<Rightarrow> 's ctx \<Rightarrow> ('s \<Rightarrow> (rl_error + i64 \<times> bool) \<times> 's) \<Rightarrow> 's
       \<Rightarrow> (rl_error + i64) \<times> 's" where
  "casRetry rl ctx attempt s = casLoop rl ctx attempt (nat (casMaxAttempts rl)) (casInitialWait rl) s"

definition leakyBucket ::
    "'s rateLimiter \<Rightarrow> 's ctx \<Rightarrow> string \<Rightarrow> i64 \<Rightarrow> i64 \<Rightarrow> i64 \<Rightarrow> bool \<Rightarrow> bool \<Rightarrow> bool \<Rightarrow> 's
       \<Rightarrow> (rl_error + i64) \<times> 's" where
  "leakyBucket rl ctx key rate period tokensRequested testOnly mustConsume allowDebt s =
     casRetry rl ctx
       (leakyAttempt rl key rate period tokensRequested (limiterModeOf testOnly mustConsume) allowDebt) s"

section \<open>Results\<close>

definition Allowed :: "RateLimitResult \<Rightarrow> bool" where
  "Allowed rlr \<longleftrightarrow> Requested rlr \<le> CurrentValue rlr"

definition Revert :: "RateLimitResult \<Rightarrow> RateLimitResult" where
  "Revert rlr = rlr\<lparr>reverted := True\<rparr>"

definition RemainingValue :: "RateLimitResult \<Rightarrow> i64" where
  "RemainingValue rlr =
     (if reverted rlr then CurrentValue rlr
      else max (saturatingConsume (CurrentValue rlr) (Requested rlr) 0 (Limit (ResultRateLimit rlr))) 0)"

definition LimitValue :: "RateLimitResult \<Rightarrow> i64" where
  "LimitValue rlr = Limit (ResultRateLimit rlr)"

definition shouldSynchronizeRateLimitEvent :: "bool \<Rightarrow> bool \<Rightarrow> RateLimitResult option \<Rightarrow> bool" where
  "shouldSynchronizeRateLimitEvent testOnly mustConsume result =
     (case result of
        None \<Rightarrow> False
      | Some r \<Rightarrow> if testOnly then False else mustConsume \<or> Allowed r)"

section \<open>CheckLimit and Reset\<close>

definition checkLimit ::
    "'s rateLimiter \<Rightarrow> 's ctx \<Rightarrow> string \<Rightarrow> RateLimit \<Rightarrow> i64 \<Rightarrow> bool \<Rightarrow> string \<Rightarrow> bool \<Rightarrow> bool \<Rightarrow> 's
       \<Rightarrow> (rl_error + RateLimitResult) \<times> 's" where
  "checkLimit rl ctx key l tokensRequested testOnly requestID mustConsume synchronize s =
     (case leakyBucket rl ctx key (Limit l) (Period l) tokensRequested testOnly mustConsume (AllowDebt l) s of
        (Inl e, s1) \<Rightarrow>
          if failOpen rl then
            (Inr \<lparr>CurrentValue = MaxInt64, Requested = tokensRequested, ResultRateLimit = l,
                  reverted = False\<rparr>, s1)
          else (Inl e, s1)
      | (Inr currentValue, s1) \<Rightarrow>
          (let rlr = \<lparr>CurrentValue = currentValue, Requested = tokensRequested, ResultRateLimit = l,
                      reverted = False\<rparr>
           in if synchronize \<and> shouldSynchronizeRateLimitEvent testOnly mustConsume (Some rlr) then
                (case SendEvent (synchronizer rl)
                        \<lparr>EventKey = key, EventResult = rlr, EventRequestID = requestID,
                         EventMustConsume = mustConsume\<rparr> s1 of
                   (_, s2) \<Rightarrow> (Inr rlr, s2))
              else (Inr rlr, s1)))"

definition CheckLimitOf ::
    "'s rateLimiter \<Rightarrow> 's ctx \<Rightarrow> string \<Rightarrow> RateLimit \<Rightarrow> i64 \<Rightarrow> bool \<Rightarrow> string \<Rightarrow> bool \<Rightarrow> 's
       \<Rightarrow> (rl_error + RateLimitResult) \<times> 's" where
  "CheckLimitOf rl ctx key l tokensRequested testOnly requestID mustConsume s =
     checkLimit rl ctx key l tokensRequested testOnly requestID mustConsume True s"

definition ResetOf :: "'s rateLimiter \<Rightarrow> 's ctx \<Rightarrow> string list \<Rightarrow> 's \<Rightarrow> (rl_error + unit) \<times> 's" where
  "ResetOf rl ctx keys s =
     (case DeleteKeys (store rl) keys s of (Inl e, s1) \<Rightarrow> (Inl (DeleteErr e), s1) | (Inr u, s1) \<Rightarrow> (Inr u, s1))"

definition rateLimiterIface :: "'s rateLimiter \<Rightarrow> 's RateLimiter" where
  "rateLimiterIface rl = \<lparr>CheckLimit = CheckLimitOf rl, ResetKeys = ResetOf rl\<rparr>"

section \<open>Construction\<close>

definition nopSynchronizer :: "'s Synchronizer" where
  "nopSynchronizer = \<lparr>SendEvent = (\<lambda>_ s. (Inr (), s))\<rparr>"

type_synonym 's RateLimiterOption = "'s rateLimiter \<Rightarrow> 's rateLimiter"

definition WithFailOpen :: "bool \<Rightarrow> 's RateLimiterOption" where
  "WithFailOpen b r = r\<lparr>failOpen := b\<rparr>"

definition WithSynchronizer :: "'s Synchronizer \<Rightarrow> 's RateLimiterOption" where
  "WithSynchronizer x r = r\<lparr>synchronizer := x\<rparr>"

definition withCASRetry :: "int \<Rightarrow> i64 \<Rightarrow> i64 \<Rightarrow> 's RateLimiterOption" where
  "withCASRetry maxAttempts initialWait maxWait r =
     (let r = (if maxAttempts > 0 then r\<lparr>casMaxAttempts := maxAttempts\<rparr> else r);
          r = (if initialWait > 0 then r\<lparr>casInitialWait := initialWait\<rparr> else r)
      in if maxWait > 0 then r\<lparr>casMaxWait := maxWait\<rparr> else r)"

definition withClock :: "('s \<Rightarrow> i64 \<times> 's) \<Rightarrow> 's RateLimiterOption" where
  "withClock clock r = r\<lparr>nowMs := clock\<rparr>"

definition withSleep :: "(i64 \<Rightarrow> 's \<Rightarrow> 's) option \<Rightarrow> 's RateLimiterOption" where
  "withSleep slp r = r\<lparr>sleep := slp\<rparr>"

definition defaultCASMaxAttempts :: int where "defaultCASMaxAttempts = 16"
definition defaultCASInitialBackoff :: i64 where "defaultCASInitialBackoff = 50000"
definition defaultCASMaxBackoff :: i64 where "defaultCASMaxBackoff = 5000000"

text \<open>The wall clock, \<open>time.Sleep\<close> and the random source are arguments of the constructor.\<close>

definition NewRateLimiter ::
    "('s \<Rightarrow> i64 \<times> 's) \<Rightarrow> (i64 \<Rightarrow> 's \<Rightarrow> 's) \<Rightarrow> (i64 \<Rightarrow> 's \<Rightarrow> i64 \<times> 's) \<Rightarrow> 's OlricStore option
       \<Rightarrow> 's RateLimiterOption list \<Rightarrow> rl_error + 's rateLimiter" where
  "NewRateLimiter timeNowMs timeSleep randN st opts =
     (case st of
        None \<Rightarrow> Inl StoreRequired
      | Some st \<Rightarrow>
          Inr (fold (\<lambda>opt rl. opt rl) opts
                \<lparr>store = st, failOpen = False, synchronizer = nopSynchronizer,
                 casMaxAttempts = defaultCASMaxAttempts, casInitialWait = defaultCASInitialBackoff,
                 casMaxWait = defaultCASMaxBackoff, nowMs = timeNowMs, sleep = Some timeSleep,
                 randInt64N = randN\<rparr>))"

section \<open>Arithmetic\<close>

lemma clamp_bounds: "lo \<le> hi \<Longrightarrow> lo \<le> clamp lo hi x \<and> clamp lo hi x \<le> hi"
  by (auto simp: clamp_def)

lemma saturatingSub_eq:
  assumes "in_i64 a" and "in_i64 b"
  shows "saturatingSub a b = clamp MinInt64 MaxInt64 (a - b)"
proof (cases "b < 0")
  case True
  then have "add64 MaxInt64 b = MaxInt64 + b"
    using assms by (intro add64_id) (simp add: in_i64_def)
  with True assms show ?thesis
    by (auto simp: saturatingSub_def clamp_def in_i64_def i64_simps min_def max_def)
next
  case False
  then have "add64 MinInt64 b = MinInt64 + b"
    using assms by (intro add64_id) (simp add: in_i64_def)
  with False assms show ?thesis
    by (auto simp: saturatingSub_def clamp_def in_i64_def i64_simps min_def max_def)
qed

text \<open>A difference of two values within the rate's range, as the callers form it.\<close>

lemma in_i64_abs: "\<bar>a\<bar> \<le> r \<Longrightarrow> r \<le> MaxInt64 \<Longrightarrow> in_i64 a"
  by (auto simp: in_i64_def)

lemma saturatingSub_abs:
  "\<bar>a\<bar> \<le> r \<Longrightarrow> \<bar>b\<bar> \<le> r \<Longrightarrow> r \<le> MaxInt64 \<Longrightarrow> saturatingSub a b = max MinInt64 (min MaxInt64 (a - b))"
  by (simp add: saturatingSub_eq in_i64_abs clamp_def)

lemma saturatingConsume_charge:
  assumes "\<bar>current\<bar> \<le> rate" and "\<bar>floor\<bar> \<le> rate" and "rate \<le> MaxInt64"
    and "0 \<le> requested" and "requested \<le> MaxInt64"
  shows "saturatingConsume current requested floor rate = max floor (current - requested)"
proof (cases "requested > saturatingSub current floor")
  case True
  then have "current - requested \<le> floor"
    using assms by (simp add: saturatingSub_abs [of _ rate] min_def max_def split: if_splits)
  with True assms(4) show ?thesis by (simp add: saturatingConsume_def)
next
  case False
  then have "current - requested \<ge> floor"
    using assms by (simp add: saturatingSub_abs [of _ rate] min_def max_def split: if_splits)
  moreover from this assms have "sub64 current requested = current - requested"
    by (intro sub64_id) (auto simp: in_i64_def)
  ultimately show ?thesis using False assms(4) by (simp add: saturatingConsume_def)
qed

lemma saturatingConsume_refund:
  assumes "\<bar>current\<bar> \<le> rate" and "0 \<le> rate" and "rate \<le> MaxInt64"
    and "requested < 0" and "MinInt64 < requested"
  shows "saturatingConsume current requested floor rate = min rate (current - requested)"
proof -
  have ne: "requested \<noteq> MinInt64" using assms(5) by simp
  have n: "neg64 requested = - requested" using assms by (intro neg64_id) (auto simp: in_i64_def)
  show ?thesis
  proof (cases "- requested > saturatingSub rate current")
    case True
    then have "current - requested \<ge> rate"
      using assms by (simp add: saturatingSub_abs [of _ rate] min_def max_def split: if_splits)
    with True ne n assms(4) show ?thesis by (simp add: saturatingConsume_def)
  next
    case le: False
    then have "current - requested \<le> rate"
      using assms by (simp add: saturatingSub_abs [of _ rate] min_def max_def split: if_splits)
    moreover from this assms have "add64 current (- requested) = current - requested"
      by (subst add64_id) (auto simp: in_i64_def)
    ultimately show ?thesis using le ne n assms(4) by (simp add: saturatingConsume_def)
  qed
qed

lemmas saturatingConsume_cases = saturatingConsume_charge saturatingConsume_refund

lemma mulDivInt64_eq:
  assumes "0 \<le> a" "a \<le> MaxInt64" "0 \<le> b" "b \<le> MaxInt64" "0 < c" "c \<le> MaxInt64"
  shows "mulDivInt64 a b c = Some (min MaxInt64 (a * b div c))"
proof -
  obtain hi lo where m: "Mul64 a b = (hi, lo)" by (cases "Mul64 a b")
  have u: "u64 a = a" "u64 b = b" "u64 c = c" using assms by (simp_all add: u64_id)
  have hi: "hi = a * b div two64" using m by (simp add: Mul64_def Let_def)
  show ?thesis
  proof (cases "c \<le> hi")
    case True
    have "c * two64 \<le> hi * two64" using True by simp
    also have "\<dots> \<le> a * b" using hi div_mult_mod_eq [of "a * b" two64] pos_mod_sign [of two64 "a * b"] by linarith
    finally have "c * two64 \<le> a * b" .
    then have "two64 \<le> a * b div c"
      using zdiv_mono1 [of "c * two64" "a * b" c] assms(5) by simp
    with True show ?thesis by (simp add: mulDivInt64_def u m)
  next
    case False
    then have "Div64 hi lo c = Some (a * b div c, a * b mod c)"
      using assms m by (intro Div64_Mul64) auto
    with False show ?thesis by (auto simp: mulDivInt64_def u m)
  qed
qed

text \<open>Where the divisor is any \<open>int64\<close>, the guard still keeps \<open>bits.Div64\<close> from panicking.\<close>

lemma mulDivInt64_no_panic: "mulDivInt64 a b c \<noteq> None"
proof -
  obtain hi lo where m: "Mul64 (u64 a) (u64 b) = (hi, lo)" by (cases "Mul64 (u64 a) (u64 b)")
  show ?thesis
  proof (cases "u64 c \<le> hi")
    case False
    moreover have "0 \<le> u64 a" "0 \<le> u64 b" by (simp_all add: u64_def)
    ultimately have "Div64 hi lo (u64 c) = Some (u64 a * u64 b div u64 c, u64 a * u64 b mod u64 c)"
      using m by (intro Div64_Mul64) auto
    with False show ?thesis by (auto simp: mulDivInt64_def m)
  qed (simp add: mulDivInt64_def m)
qed

section \<open>Properties\<close>

text \<open>
  C35. The refill product never overflows: for a non-negative elapsed time and rate and a positive
  period, \<open>mulDivInt64\<close> is the exact quotient, saturated at \<open>MaxInt64\<close>, although the product
  itself may need 126 bits. In particular \<open>bits.Div64\<close> does not panic.
\<close>

theorem mulDivInt64_exact:
  assumes "0 \<le> a" "a \<le> MaxInt64" "0 \<le> b" "b \<le> MaxInt64" "0 < c" "c \<le> MaxInt64"
  shows "mulDivInt64 a b c = Some (min MaxInt64 (a * b div c))"
  using assms by (rule mulDivInt64_eq)

theorem mulDivInt64_exact_witness:
  "mulDivInt64 9223372036854775807 1000 2000 = Some 4611686018427387903"
  using mulDivInt64_exact [of 9223372036854775807 1000 2000] by simp

text \<open>
  \<open>saturatingConsume\<close> on a bucket value, a floor and a rate in its documented range is the exact
  difference, stopped at the floor for a charge and at the rate for a refund.
\<close>

theorem saturatingConsume_exact:
  assumes "\<bar>current\<bar> \<le> rate" and "- rate \<le> fl" and "fl \<le> 0" and "rate \<le> MaxInt64"
    and "MinInt64 < requested" and "requested \<le> MaxInt64"
  shows "saturatingConsume current requested fl rate =
     (if 0 \<le> requested then max fl (current - requested) else min rate (current - requested))"
  using assms by (auto intro!: saturatingConsume_cases)

text \<open>
  The comment on \<open>saturatingConsume\<close> promises a result in \<open>[floor, rate]\<close> whenever
  \<open>current\<close> is in \<open>[-rate, rate]\<close> and \<open>floor\<close> in \<open>[-rate, 0]\<close>. A refund to a bucket below the
  floor breaks the promise: the result can be below the floor.
\<close>

theorem saturatingConsume_below_floor:
  "\<exists>current requested fl rate. \<bar>current\<bar> \<le> rate \<and> - rate \<le> fl \<and> fl \<le> 0 \<and>
     saturatingConsume current requested fl rate < fl"
proof -
  have "saturatingConsume (- 10) (- 3) 0 20 = - 7"
    using saturatingConsume_refund [of "- 10" 20 "- 3" 0] by simp
  then show ?thesis
    by (intro exI [of _ "- 10"] exI [of _ "- 3"] exI [of _ 0] exI [of _ 20]) simp
qed

text \<open>
  A test never writes. The answer and the final state of a test-only \<open>leakyBucket\<close> do not depend
  on what \<open>CompareAndSetBucket\<close> does: the swap is not called.
\<close>

lemma testOnly_never_swaps:
  "leakyBucket (rl\<lparr>store := (store rl)\<lparr>CompareAndSetBucket := cas\<rparr>\<rparr>) ctx key rate period req True must debt s
     = leakyBucket rl ctx key rate period req True must debt s"
proof -
  let ?rl = "rl\<lparr>store := (store rl)\<lparr>CompareAndSetBucket := cas\<rparr>\<rparr>"
  have nw: "bucketStep limiterModeTestOnly debt rate p req b now \<noteq> Some (v, Some nb)" for p b now v nb
    by (auto simp: bucketStep_def Let_def split: option.splits if_splits)
  have "leakyAttempt ?rl key rate period req limiterModeTestOnly debt
      = leakyAttempt rl key rate period req limiterModeTestOnly debt"
    using nw by (auto simp: leakyAttempt_def fun_eq_iff split: prod.splits sum.splits option.splits)
  moreover have "casLoop ?rl c a n bo x = casLoop rl c a n bo x" for c a n bo x
  proof (induction n arbitrary: bo x)
    case (Suc n)
    have "jitter ?rl d y = jitter rl d y" for d y by (simp add: jitter_def Let_def)
    then have "backoffSleep ?rl bo y = backoffSleep rl bo y" for y
      by (cases "sleep rl") (simp_all add: backoffSleep_def)
    moreover have "nextBackoff ?rl bo = nextBackoff rl bo" by (simp add: nextBackoff_def Let_def)
    ultimately show ?case using Suc by (simp split: option.split sum.split prod.split)
  qed simp
  ultimately show ?thesis by (simp add: leakyBucket_def casRetry_def limiterModeOf_def)
qed

text \<open>
  A fail-open limiter always answers, and answers "allowed" whenever the store, the context or
  the retry budget failed.
\<close>

theorem checkLimit_fail_open:
  assumes "failOpen rl" and "req \<le> MaxInt64"
  shows "\<exists>r s'. checkLimit rl ctx key l req testOnly rid must sync s = (Inr r, s') \<and>
     (\<not> is_ok (fst (leakyBucket rl ctx key (Limit l) (Period l) req testOnly must (AllowDebt l) s)) \<longrightarrow> Allowed r)"
proof -
  obtain b s1 where b: "leakyBucket rl ctx key (Limit l) (Period l) req testOnly must (AllowDebt l) s = (b, s1)"
    by (cases "leakyBucket rl ctx key (Limit l) (Period l) req testOnly must (AllowDebt l) s")
  show ?thesis
  proof (cases b)
    case (Inl e)
    with b assms show ?thesis by (simp add: checkLimit_def Allowed_def)
  next
    case (Inr v)
    with b show ?thesis by (auto simp: checkLimit_def Let_def split: prod.splits)
  qed
qed

text \<open>The in-process store fails every read; the limiter still lets the request through.\<close>

end
