(* ===== verification/CasLoop.thy ===== *)
theory CasLoop
  imports BucketSpec
begin

text \<open>
  The compare-and-swap retry loop of the rate limiter over a store that keeps the
  \<open>olric_store\<close> contract: every answer was decided on one state of the store, a published
  state replaces exactly the state it was computed from, other keys are never written, and
  how many refused swaps the loop survives.
\<close>

section \<open>The loop\<close>

text \<open>A successful loop ends with a successful attempt, made in some state of the world.\<close>

lemma casLoop_result:
  "casLoop rl ctx attempt n bo s = (Inr v, s') \<Longrightarrow> \<exists>s0. attempt s0 = (Inr (v, True), s')"
proof (induction n arbitrary: bo s)
  case 0
  then show ?case by simp
next
  case (Suc n)
  show ?case
  proof (cases "attempt s")
    case (Pair r s1)
    with Suc show ?thesis
      by (cases r) (auto split: option.splits if_splits)
  qed
qed

lemma casRetry_result:
  "casRetry rl ctx attempt s = (Inr v, s') \<Longrightarrow> \<exists>s0. attempt s0 = (Inr (v, True), s')"
  by (simp add: casRetry_def casLoop_result)

text \<open>A property of states that attempts and sleeps keep is kept by the whole loop.\<close>

lemma casLoop_keeps:
  assumes att: "\<And>x r y. P x \<Longrightarrow> attempt x = (r, y) \<Longrightarrow> P y"
    and slp: "\<And>b x. P x \<Longrightarrow> P (backoffSleep rl b x)"
  shows "P s \<Longrightarrow> casLoop rl ctx attempt n bo s = (r, s') \<Longrightarrow> P s'"
proof (induction n arbitrary: bo s)
  case 0
  then show ?case by simp
next
  case (Suc n)
  obtain a s1 where a: "attempt s = (a, s1)" by (cases "attempt s")
  have "P s1" using att [OF Suc.prems(1) a] .
  moreover from this have "P (backoffSleep rl bo s1)" by (rule slp)
  ultimately show ?case
    using Suc.prems Suc.IH [of "backoffSleep rl bo s1" "nextBackoff rl bo"]
    by (cases a) (auto simp: a split: option.splits if_splits)
qed

text \<open>The backoff stays within the configured bounds.\<close>

lemma nextBackoff_bounds:
  assumes "0 \<le> bo" and "bo \<le> casMaxWait rl" and "2 * casMaxWait rl \<le> MaxInt64"
  shows "bo \<le> nextBackoff rl bo \<and> nextBackoff rl bo \<le> casMaxWait rl \<and> nextBackoff rl bo \<le> 2 * bo"
proof -
  have "mul64 bo 2 = bo * 2" using assms by (intro mul64_id) (auto simp: in_i64_def)
  with assms show ?thesis by (auto simp: nextBackoff_def Let_def)
qed

lemma jitter_range:
  assumes "0 < d" and "d \<le> MaxInt64"
    and rand: "\<And>n x r y. 0 < n \<Longrightarrow> randInt64N rl n x = (r, y) \<Longrightarrow> 0 \<le> r \<and> r < n"
    and "jitter rl d s = (w, s')"
  shows "d div 2 \<le> w \<and> w \<le> d"
proof -
  have half: "quot64 d 2 = d div 2" using assms(1,2) by (intro quot64_nonneg) auto
  show ?thesis
  proof (cases "d div 2 \<le> 0")
    case True
    with assms half show ?thesis by (auto simp: jitter_def Let_def)
  next
    case False
    obtain r y where r: "randInt64N rl (add64 (d div 2) 1) s = (r, y)"
      by (cases "randInt64N rl (add64 (d div 2) 1) s")
    have a1: "add64 (d div 2) 1 = d div 2 + 1" using assms(1,2) by (intro add64_id) (auto simp: in_i64_def)
    have rb: "0 \<le> r \<and> r < d div 2 + 1" using rand [OF _ r] False a1 by simp
    moreover have "add64 (d div 2) r = d div 2 + r"
      using rb assms(1,2) by (intro add64_id) (auto simp: in_i64_def)
    ultimately show ?thesis using assms False half r by (auto simp: jitter_def Let_def)
  qed
qed

section \<open>The limiter over a store that keeps its contract\<close>

locale cas_limiter = olric_store st view
  for st :: "'s OlricStore" and view :: "'s \<Rightarrow> string \<Rightarrow> bucketState option" +
  fixes rl :: "'s rateLimiter"
  assumes store_rl: "store rl = st"
begin

lemma attempt_done:
  assumes "leakyAttempt rl key rate period req mode debt s = (Inr (v, True), s')"
  obtains b now w where
    "bucketStep mode debt rate (quot64 period 1000000) req b now = Some (v, w)"
    "b = view s key"
    "case w of None \<Rightarrow> True | Some nb \<Rightarrow> (\<exists>s2. view s2 key = b \<and> view s' = (view s2)(key := Some nb))"
proof -
  obtain r s1 where g: "GetBucket (store rl) key s = (r, s1)" by (cases "GetBucket (store rl) key s")
  with assms obtain b where r: "r = Inr b"
    by (cases r) (auto simp: leakyAttempt_def)
  obtain now s2 where n: "nowMs rl s1 = (now, s2)" by (cases "nowMs rl s1")
  have b: "b = view s key" using g r get_view store_rl by auto
  from assms g r n obtain w where
    w: "bucketStep mode debt rate (quot64 period 1000000) req b now = Some (v, w)"
    and c: "case w of None \<Rightarrow> True
      | Some nb \<Rightarrow> CompareAndSetBucket st key b nb (bucketTTL period debt) s2 = (Inr True, s')"
    by (auto simp: leakyAttempt_def store_rl split: option.splits prod.splits sum.splits)
  have "case w of None \<Rightarrow> True | Some nb \<Rightarrow> (\<exists>s2. view s2 key = b \<and> view s' = (view s2)(key := Some nb))"
    using c cas_swapped [of key b _ "bucketTTL period debt" s2 s']
    by (auto split: option.splits intro!: exI [of _ s2])
  with w b show thesis by (rule that)
qed

text \<open>No update is lost: what the loop publishes is computed from the state it replaces.\<close>

lemma leakyBucket_commit:
  assumes "leakyBucket rl ctx key rate period req testOnly must debt s = (Inr v, s')"
  shows "\<exists>s0 now w.
     bucketStep (limiterModeOf testOnly must) debt rate (quot64 period 1000000) req (view s0 key) now
       = Some (v, w) \<and>
     (\<forall>nb. w = Some nb \<longrightarrow> (\<exists>s2. view s2 key = view s0 key \<and> view s' = (view s2)(key := Some nb)))"
proof -
  from assms obtain s0 where
    "leakyAttempt rl key rate period req (limiterModeOf testOnly must) debt s0 = (Inr (v, True), s')"
    by (auto simp: leakyBucket_def dest: casRetry_result)
  then obtain b now w where "bucketStep (limiterModeOf testOnly must) debt rate
      (quot64 period 1000000) req b now = Some (v, w)" and "b = view s0 key"
    and "case w of None \<Rightarrow> True | Some nb \<Rightarrow> (\<exists>s2. view s2 key = b \<and> view s' = (view s2)(key := Some nb))"
    by (rule attempt_done)
  then show ?thesis by (intro exI [of _ s0] exI [of _ now] exI [of _ w]) (auto split: option.splits)
qed

text \<open>
  Keys other than the checked one are not written. The clock and the sleep of the run are those of
  a world where nobody else writes.
\<close>

lemma attempt_other_key:
  assumes quiet: "\<And>x t y. nowMs rl x = (t, y) \<Longrightarrow> view y k = view x k" and "k \<noteq> key"
    and "leakyAttempt rl key rate period req mode debt s = (r, s')"
  shows "view s' k = view s k"
proof -
  obtain g s1 where g: "GetBucket st key s = (g, s1)" by (cases "GetBucket st key s")
  obtain now s2 where n: "nowMs rl s1 = (now, s2)" by (cases "nowMs rl s1")
  have v2: "view s2 k = view s k" using quiet [OF n] get_frame [OF g] by simp
  show ?thesis
  proof (cases g)
    case (Inl e)
    with assms(3) g show ?thesis by (auto simp: leakyAttempt_def store_rl dest: get_frame)
  next
    case (Inr b)
    consider (stay) "s' = s2"
      | (cas) nb r' where "CompareAndSetBucket st key b nb (bucketTTL period debt) s2 = (r', s')"
      using assms(3) g n Inr
      by (auto simp: leakyAttempt_def store_rl split: option.splits prod.splits sum.splits)
    then show ?thesis using v2 cas_other_key assms(2) by cases auto
  qed
qed

lemma leakyBucket_other_key:
  assumes quiet: "\<And>x t y. nowMs rl x = (t, y) \<Longrightarrow> view y k = view x k"
    and sleepy: "\<And>b x. view (backoffSleep rl b x) k = view x k"
    and "k \<noteq> key"
    and "leakyBucket rl ctx key rate period req testOnly must debt s = (r, s')"
  shows "view s' k = view s k"
proof -
  let ?att = "leakyAttempt rl key rate period req (limiterModeOf testOnly must) debt"
  have "view s' k = view s k"
  proof (rule casLoop_keeps [where P = "\<lambda>x. view x k = view s k" and attempt = ?att and rl = rl])
    fix x r y assume "view x k = view s k" and a: "?att x = (r, y)"
    moreover have "view y k = view x k" by (rule attempt_other_key [OF _ assms(3) a]) (rule quiet)
    ultimately show "view y k = view s k" by simp
  qed (use assms(4) sleepy in \<open>auto simp: leakyBucket_def casRetry_def\<close>)
  then show ?thesis .
qed

end

text \<open>The limiter over the in-process store, and over the Olric store on the in-memory map.\<close>

definition fake_limiter :: "i64 \<Rightarrow> bool \<Rightarrow> fakeStore rateLimiter" where
  "fake_limiter now fo =
     \<lparr>store = fake_store, failOpen = fo, synchronizer = nopSynchronizer, casMaxAttempts = 16,
      casInitialWait = 50000, casMaxWait = 5000000, nowMs = (\<lambda>s. (now, s)), sleep = None,
      randInt64N = (\<lambda>n s. (n - 1, s))\<rparr>"

interpretation fl: cas_limiter fake_store fake_view "fake_limiter now fo" for now fo
  by unfold_locales (simp add: fake_limiter_def)

section \<open>Contention\<close>

lemma fake_limiter_simps [simp]:
  "store (fake_limiter now fo) = fake_store" "nowMs (fake_limiter now fo) s = (now, s)"
  "casMaxAttempts (fake_limiter now fo) = 16" "failOpen (fake_limiter now fo) = fo"
  "synchronizer (fake_limiter now fo) = nopSynchronizer"
  "backoffSleep (fake_limiter now fo) bo s = s"
  by (simp_all add: fake_limiter_def backoffSleep_def)

definition fake_refuse :: "string \<Rightarrow> i64 \<Rightarrow> fakeStore \<Rightarrow> fakeStore" where
  "fake_refuse key ttl f =
     f\<lparr>getCalls := getCalls f + 1, casCalls := casCalls f + 1, lastTTL := (lastTTL f)(key := ttl),
       forcedMismatches := forcedMismatches f - 1\<rparr>"

lemma fake_refuse_simps [simp]:
  "fake_view (fake_refuse key ttl f) = fake_view f"
  "failGet (fake_refuse key ttl f) = failGet f" "failCAS (fake_refuse key ttl f) = failCAS f"
  "forcedMismatches (fake_refuse key ttl f) = forcedMismatches f - 1"
  by (simp_all add: fake_refuse_def fake_view_def fun_eq_iff)

text \<open>One attempt against the in-process store: refused while mismatches are forced, then published.\<close>

lemma fake_attempt:
  assumes "\<not> failGet f" and "\<not> failCAS f"
    and "bucketStep mode debt rate (quot64 period 1000000) req (fake_view f key) now = Some (v, Some nb)"
  shows "0 < forcedMismatches f \<Longrightarrow>
      leakyAttempt (fake_limiter now fo) key rate period req mode debt f
        = (Inr (v, False), fake_refuse key (bucketTTL period debt) f)"
    and "forcedMismatches f = 0 \<Longrightarrow>
      \<exists>f'. leakyAttempt (fake_limiter now fo) key rate period req mode debt f = (Inr (v, True), f') \<and>
        fake_view f' = (fake_view f)(key := Some nb)"
  using assms
  by (auto simp: leakyAttempt_def fake_defs fake_refuse_def fun_eq_iff split: if_splits)

lemma fake_casLoop:
  assumes "\<not> failGet f" and "\<not> failCAS f" and "forcedMismatches f = int k"
    and "bucketStep mode debt rate (quot64 period 1000000) req (fake_view f key) now = Some (v, Some nb)"
  shows "case casLoop (fake_limiter now fo) (\<lambda>_. None)
           (leakyAttempt (fake_limiter now fo) key rate period req mode debt) n bo f of
           (Inr v', f') \<Rightarrow> k < n \<and> v' = v \<and> fake_view f' = (fake_view f)(key := Some nb)
         | (Inl e, f') \<Rightarrow> n \<le> k \<and> e = ErrCASExhausted 16"
  using assms
proof (induction n arbitrary: f k bo)
  case 0
  then show ?case by simp
next
  case (Suc n)
  let ?f = "fake_refuse key (bucketTTL period debt) f"
  show ?case
  proof (cases k)
    case 0
    with Suc.prems(3) fake_attempt(2) [OF Suc.prems(1,2,4)] obtain f' where
      "leakyAttempt (fake_limiter now fo) key rate period req mode debt f = (Inr (v, True), f')"
      "fake_view f' = (fake_view f)(key := Some nb)" by fastforce
    with 0 show ?thesis by simp
  next
    case (Suc k')
    have "case casLoop (fake_limiter now fo) (\<lambda>_. None)
           (leakyAttempt (fake_limiter now fo) key rate period req mode debt) n
           (nextBackoff (fake_limiter now fo) bo) ?f of
           (Inr v', f') \<Rightarrow> k' < n \<and> v' = v \<and> fake_view f' = (fake_view ?f)(key := Some nb)
         | (Inl e, f') \<Rightarrow> n \<le> k' \<and> e = ErrCASExhausted 16"
      by (rule Suc.IH) (use Suc.prems Suc in \<open>auto\<close>)
    then show ?thesis
      using fake_attempt(1) [OF Suc.prems(1,2,4)] Suc.prems(3) Suc
      by (auto split: prod.splits sum.splits)
  qed
qed

section \<open>Properties\<close>

text \<open>
  C4. No update is lost. Over any store that keeps the \<open>OlricStore\<close> contract, and whatever other
  clients do between the store calls, a successful \<open>leakyBucket\<close> answers with the decision of
  the bucket transition on a state the key had, and a state it publishes replaced exactly the state
  the decision was made on; no other key is touched by that swap.
\<close>

theorem leakyBucket_atomic:
  assumes "olric_store (store rl) view"
    and "leakyBucket rl ctx key rate period req testOnly must debt s = (Inr v, s')"
  shows "\<exists>s0 now w.
     bucketStep (limiterModeOf testOnly must) debt rate (quot64 period 1000000) req (view s0 key) now
       = Some (v, w) \<and>
     (\<forall>nb. w = Some nb \<longrightarrow> (\<exists>s2. view s2 key = view s0 key \<and> view s' = (view s2)(key := Some nb)))"
proof -
  from assms(1) have "cas_limiter (store rl) view rl"
    by (simp add: cas_limiter_def cas_limiter_axioms_def)
  then show ?thesis using assms(2) by (rule cas_limiter.leakyBucket_commit)
qed

text \<open>
  The retry loop survives contention up to its budget. With \<open>k\<close> consecutive swaps lost to other
  writers, a consuming \<open>leakyBucket\<close> over the in-process store publishes its state and
  answers when \<open>k\<close> is below the 16 attempts, and otherwise returns \<open>ErrCASExhausted\<close>.
\<close>

theorem leakyBucket_contention:
  assumes "\<not> failGet f" and "\<not> failCAS f" and "forcedMismatches f = int k"
    and "bucketStep (limiterModeOf False must) debt rate (quot64 period 1000000) req (fake_view f key) now
           = Some (v, Some nb)"
  shows "\<exists>r f'. leakyBucket (fake_limiter now fo) (\<lambda>_. None) key rate period req False must debt f = (r, f') \<and>
     (if k < 16 then r = Inr v \<and> fake_view f' = (fake_view f)(key := Some nb)
      else r = Inl (ErrCASExhausted 16))"
proof -
  let ?res = "leakyBucket (fake_limiter now fo) (\<lambda>_. None) key rate period req False must debt f"
  obtain r f' where rf: "?res = (r, f')" by (cases ?res)
  then show ?thesis
    using fake_casLoop [OF assms, where fo = fo and n = 16 and bo = "casInitialWait (fake_limiter now fo)"]
    by (cases r) (auto simp: leakyBucket_def casRetry_def)
qed

text \<open>A fresh bucket of ten units per second, asked for four units with three swaps lost first.\<close>

text \<open>The same call with nobody else writing; the answer is the decision on the absent key.\<close>

theorem leakyBucket_atomic_witness:
  "\<exists>f' s0 now w. leakyBucket (fake_limiter 1000 False) (\<lambda>_. None) ''k'' 10 1000000000 4 False False False
        newFakeStore = (Inr 10, f') \<and>
     bucketStep limiterModeConsumeIfAllowed False 10 1000 4 (fake_view s0 ''k'') now = Some (10, w)"
proof -
  have st: "bucketStep (limiterModeOf False False) False 10 (quot64 1000000000 1000000) 4
      (fake_view newFakeStore ''k'') 1000 = Some (10, Some \<lparr>Value = 6, LastRefill = 1000\<rparr>)"
    by (simp add: newFakeStore_def fake_view_def limiterModeOf_def bucketStep_eq limit_ok_def bucket_ok_def
        stamp_ok_def req_ok_def quot64_nonneg refilled_def charged_def charge_floor_def)
  have "\<exists>r f'. leakyBucket (fake_limiter 1000 False) (\<lambda>_. None) ''k'' 10 1000000000 4 False False False
      newFakeStore = (r, f') \<and> r = Inr 10"
    using fake_casLoop [OF _ _ _ st, where fo = False and n = 16 and k = 0 and bo = "casInitialWait (fake_limiter 1000 False)"]
    by (auto simp: leakyBucket_def casRetry_def newFakeStore_def split: prod.splits sum.splits)
  then obtain f' where r: "leakyBucket (fake_limiter 1000 False) (\<lambda>_. None) ''k'' 10 1000000000 4 False False
      False newFakeStore = (Inr 10, f')" by auto
  have "olric_store (store (fake_limiter 1000 False)) fake_view" by (simp add: fs.olric_store_axioms)
  from leakyBucket_atomic [OF this r] r show ?thesis
    by (auto simp: limiterModeOf_def quot64_nonneg)
qed

end
