(* ===== verification/Throughput.thy ===== *)
theory Throughput
  imports CasLoop
begin

text \<open>
  The guarantee a rate limiter is for, over any number of gateway replicas that run
  \<open>leakyBucket\<close> in consume-if-allowed mode on one key: between the start and any later
  instant, the admitted units are at most one full bucket plus the refill of the elapsed time and
  of the time by which overdue swaps were late.

  The replicas interleave at the granularity of the source's store calls: \<open>GetBucket\<close>,
  the clock read, \<open>CompareAndSetBucket\<close>. The store drops a key when the time-to-live given at
  the swap is over. Nothing bounds the time between two calls of one replica. A replica that read
  an absent key and sleeps through a whole period can insert a bucket that is already old, after
  another one was stored and expired; the auxiliary field \<open>overdue\<close> adds up how late those
  swaps were. No step depends on it, and \<open>overdue_term_needed\<close> below shows that the bound
  does.
\<close>

datatype client =
    Idle
  | HasRead "bucketState option" i64 i64
  | HasClock "bucketState option" i64 i64 i64

record limiter_sys =
  bkt :: "bucketState option"
  expiry :: i64
  clk :: i64
  cl :: "nat \<Rightarrow> client"
  admitted :: int
  overdue :: int

definition init_sys :: "i64 \<Rightarrow> limiter_sys" where
  "init_sys t0 = \<lparr>bkt = None, expiry = 0, clk = t0, cl = (\<lambda>_. Idle), admitted = 0, overdue = 0\<rparr>"

text \<open>
  By how much a swap at instant \<open>t\<close> is late, when the replica read \<open>b\<close> at \<open>g\<close> and its clock
  at \<open>now\<close>: a swap on an absent key counts when a whole period has passed since the read.
\<close>

definition lateness :: "i64 \<Rightarrow> bucketState option \<Rightarrow> i64 \<Rightarrow> i64 \<Rightarrow> i64 \<Rightarrow> int" where
  "lateness p b g now t = (if b = None \<and> g + p \<le> t then t - now else 0)"

text \<open>
  One step of the system for a limit of \<open>rate\<close> units per \<open>p\<close> milliseconds. \<open>HasRead b g req\<close> is a
  client that asked for \<open>req\<close> units and read \<open>b\<close> at instant \<open>g\<close>; \<open>HasClock b g now req\<close> has
  also read its clock.
\<close>

inductive limiter_step :: "i64 \<Rightarrow> i64 \<Rightarrow> limiter_sys \<Rightarrow> limiter_sys \<Rightarrow> bool" for rate p where
  tick: "clk s \<le> t \<Longrightarrow> stamp_ok t \<Longrightarrow> limiter_step rate p s (s\<lparr>clk := t\<rparr>)"
| get: "cl s i = Idle \<Longrightarrow> 0 \<le> req \<Longrightarrow> req_ok req \<Longrightarrow>
     limiter_step rate p s (s\<lparr>cl := (cl s)(i := HasRead (bkt s) (clk s) req)\<rparr>)"
| clock: "cl s i = HasRead b g req \<Longrightarrow>
     limiter_step rate p s (s\<lparr>cl := (cl s)(i := HasClock b g (clk s) req)\<rparr>)"
| reject: "cl s i = HasClock b g now req \<Longrightarrow>
     bucketStep limiterModeConsumeIfAllowed False rate p req b now = Some (v, None) \<Longrightarrow>
     limiter_step rate p s (s\<lparr>cl := (cl s)(i := Idle)\<rparr>)"
| swap: "cl s i = HasClock b g now req \<Longrightarrow>
     bucketStep limiterModeConsumeIfAllowed False rate p req b now = Some (v, Some nb) \<Longrightarrow>
     bkt s = b \<Longrightarrow>
     limiter_step rate p s
       (s\<lparr>bkt := Some nb, expiry := clk s + p, cl := (cl s)(i := Idle), admitted := admitted s + req,
          overdue := overdue s + lateness p b g now (clk s)\<rparr>)"
| contended: "cl s i = HasClock b g now req \<Longrightarrow> bkt s \<noteq> b \<Longrightarrow>
     limiter_step rate p s (s\<lparr>cl := (cl s)(i := Idle)\<rparr>)"
| expire: "bkt s = Some x \<Longrightarrow> expiry s \<le> clk s \<Longrightarrow> limiter_step rate p s (s\<lparr>bkt := None\<rparr>)"

inductive limiter_reach :: "i64 \<Rightarrow> i64 \<Rightarrow> i64 \<Rightarrow> limiter_sys \<Rightarrow> bool" for rate p t0 where
  start: "limiter_reach rate p t0 (init_sys t0)"
| step: "limiter_reach rate p t0 s \<Longrightarrow> limiter_step rate p s s' \<Longrightarrow> limiter_reach rate p t0 s'"

section \<open>The invariant\<close>

text \<open>
  The units that refill a bucket between the start and an instant. The invariant counts the
  start as earlier by the overdue time.
\<close>

definition earned :: "i64 \<Rightarrow> i64 \<Rightarrow> i64 \<Rightarrow> i64 \<Rightarrow> int" where
  "earned rate p t0 t = (t - t0) * rate div p"

lemma earned_mono: "limit_ok rate p \<Longrightarrow> t \<le> t' \<Longrightarrow> earned rate p t0 t \<le> earned rate p t0 t'"
  unfolding earned_def
  by (rule zdiv_mono1) (auto simp: limit_ok_def intro: mult_right_mono)

lemma earned_shift: "earned rate p (t0 - (t' - t)) t = earned rate p t0 t'"
  by (simp add: earned_def algebra_simps)

lemma earned_superadd:
  assumes "limit_ok rate p"
  shows "earned rate p t0 t + (t' - t) * rate div p \<le> earned rate p t0 t'"
proof -
  have "(t - t0) * rate div p + (t' - t) * rate div p \<le> ((t - t0) * rate + (t' - t) * rate) div p"
    using assms div_add1_eq [of "(t - t0) * rate" "(t' - t) * rate" p]
    by (simp add: limit_ok_def pos_imp_zdiv_nonneg_iff)
  also have "(t - t0) * rate + (t' - t) * rate = (t' - t0) * rate" by (simp add: algebra_simps)
  finally show ?thesis by (simp add: earned_def)
qed

lemma earned_period: "limit_ok rate p \<Longrightarrow> earned rate p t0 (t + p) = rate + earned rate p t0 t"
proof -
  assume "limit_ok rate p"
  then have p: "p \<noteq> 0" by (simp add: limit_ok_def)
  have "(t + p - t0) * rate = (t - t0) * rate + rate * p" by (simp add: algebra_simps)
  then show ?thesis using p by (simp add: earned_def)
qed

definition bucket_inv :: "i64 \<Rightarrow> i64 \<Rightarrow> i64 \<Rightarrow> limiter_sys \<Rightarrow> bool" where
  "bucket_inv rate p t0 s \<longleftrightarrow>
     (case bkt s of
        None \<Rightarrow> admitted s \<le> earned rate p (t0 - overdue s) (clk s)
      | Some x \<Rightarrow> 0 \<le> Value x \<and> Value x \<le> rate \<and> t0 \<le> LastRefill x \<and> LastRefill x \<le> clk s \<and>
          LastRefill x + p \<le> expiry s \<and>
          Value x + admitted s \<le> rate + earned rate p (t0 - overdue s) (LastRefill x))"

text \<open>
  What a client still knows of its read: of a bucket, that it is older than the read; of an absent
  key, that the key is absent since the read, or was stored and will not expire within a period
  of the read, or that a period has passed.
\<close>

definition read_inv :: "i64 \<Rightarrow> i64 \<Rightarrow> i64 \<Rightarrow> limiter_sys \<Rightarrow> bucketState option \<Rightarrow> i64 \<Rightarrow> bool" where
  "read_inv rate p t0 s b g \<longleftrightarrow> t0 \<le> g \<and> g \<le> clk s \<and>
     (case b of
        Some x \<Rightarrow> LastRefill x \<le> g
      | None \<Rightarrow> (bkt s = None \<and> admitted s \<le> earned rate p (t0 - overdue s) g)
              \<or> (bkt s \<noteq> None \<and> g + p \<le> expiry s) \<or> g + p \<le> clk s)"

fun client_inv :: "i64 \<Rightarrow> i64 \<Rightarrow> i64 \<Rightarrow> limiter_sys \<Rightarrow> client \<Rightarrow> bool" where
  "client_inv rate p t0 s Idle = True"
| "client_inv rate p t0 s (HasRead b g req) = (read_inv rate p t0 s b g \<and> 0 \<le> req \<and> req_ok req)"
| "client_inv rate p t0 s (HasClock b g now req) =
     (read_inv rate p t0 s b g \<and> 0 \<le> req \<and> req_ok req \<and> g \<le> now \<and> now \<le> clk s)"

definition sys_inv :: "i64 \<Rightarrow> i64 \<Rightarrow> i64 \<Rightarrow> limiter_sys \<Rightarrow> bool" where
  "sys_inv rate p t0 s \<longleftrightarrow>
     0 \<le> t0 \<and> t0 \<le> clk s \<and> stamp_ok (clk s) \<and> 0 \<le> overdue s \<and> bucket_inv rate p t0 s \<and> (\<forall>i. client_inv rate p t0 s (cl s i))"

lemma client_inv_mono:
  assumes "client_inv rate p t0 s c" and "clk s \<le> clk s'"
    and "\<And>g. g \<le> clk s \<Longrightarrow> read_inv rate p t0 s None g \<Longrightarrow> read_inv rate p t0 s' None g"
  shows "client_inv rate p t0 s' c"
proof -
  have "read_inv rate p t0 s b g \<Longrightarrow> read_inv rate p t0 s' b g" for b g
    using assms(2,3) by (cases b) (auto simp: read_inv_def)
  with assms(1,2) show ?thesis by (cases c) auto
qed

section \<open>Every step keeps it\<close>

lemma tick_inv:
  assumes "limit_ok rate p" and "sys_inv rate p t0 s" and "clk s \<le> t" and "stamp_ok t"
  shows "sys_inv rate p t0 (s\<lparr>clk := t\<rparr>)"
proof -
  have "client_inv rate p t0 s (cl s i)" for i using assms(2) by (simp add: sys_inv_def)
  then have "client_inv rate p t0 (s\<lparr>clk := t\<rparr>) (cl s i)" for i
    by (rule client_inv_mono) (use assms(3) in \<open>auto simp: read_inv_def\<close>)
  moreover have "earned rate p (t0 - overdue s) (clk s) \<le> earned rate p (t0 - overdue s) t"
    using assms(1,3) by (rule earned_mono)
  ultimately show ?thesis
    using assms by (cases "bkt s") (simp_all add: sys_inv_def bucket_inv_def)
qed

text \<open>Steps that only move one client: the others keep what they know.\<close>

lemma client_step_inv:
  assumes "sys_inv rate p t0 s" and "client_inv rate p t0 s c"
  shows "sys_inv rate p t0 (s\<lparr>cl := (cl s)(i := c)\<rparr>)"
proof -
  have r: "read_inv rate p t0 (s\<lparr>cl := f\<rparr>) b g = read_inv rate p t0 s b g" for f b g
    by (cases b) (simp_all add: read_inv_def)
  have "client_inv rate p t0 (s\<lparr>cl := f\<rparr>) d = client_inv rate p t0 s d" for f d
    by (cases d) (simp_all add: r)
  with assms show ?thesis by (cases "bkt s") (simp_all add: sys_inv_def bucket_inv_def)
qed

lemma read_inv_now:
  assumes "sys_inv rate p t0 s"
  shows "read_inv rate p t0 s (bkt s) (clk s)"
  using assms by (auto simp: sys_inv_def bucket_inv_def read_inv_def split: option.splits)

lemma consume_step:
  assumes lim: "limit_ok rate p" and inv: "sys_inv rate p t0 s"
    and c: "cl s i = HasClock (bkt s) g now req"
    and st: "bucketStep limiterModeConsumeIfAllowed False rate p req (bkt s) now = Some (v, Some nb)"
  shows "LastRefill nb = now" "0 \<le> Value nb" "Value nb \<le> rate" "Value nb = refilled rate p (bkt s) now - req"
proof -
  have "client_inv rate p t0 s (HasClock (bkt s) g now req)" using inv c by (metis sys_inv_def)
  then have n: "t0 \<le> now" "now \<le> clk s" and r: "0 \<le> req" "req_ok req" by (auto simp: read_inv_def)
  have bok: "bucket_ok rate (bkt s)"
    using inv by (cases "bkt s") (auto simp: sys_inv_def bucket_inv_def bucket_ok_def stamp_ok_def)
  have nowok: "stamp_ok now" using inv n by (simp add: sys_inv_def stamp_ok_def)
  note step = st [unfolded bucketStep_eq [OF lim bok nowok r(2)] Let_def]
  have "\<bar>refilled rate p (bkt s) now\<bar> \<le> rate" using lim bok by (rule refilled_range)
  with step r show "LastRefill nb = now" "0 \<le> Value nb" "Value nb \<le> rate"
    "Value nb = refilled rate p (bkt s) now - req"
    by (auto simp: charged_def charge_floor_def split: if_splits)
qed

text \<open>
  The balance of the swap: what the replica finds in the bucket and what was admitted before stay
  within a bucket and the refill, the overdue time of this swap included.
\<close>

lemma swap_balance:
  assumes lim: "limit_ok rate p" and inv: "sys_inv rate p t0 s"
    and c: "cl s i = HasClock (bkt s) g now req"
  shows "refilled rate p (bkt s) now + admitted s
    \<le> rate + earned rate p (t0 - (overdue s + lateness p (bkt s) g now (clk s))) now"
proof -
  have ci: "client_inv rate p t0 s (HasClock (bkt s) g now req)" using inv c by (metis sys_inv_def)
  then have n: "t0 \<le> g" "g \<le> now" "now \<le> clk s" by (auto simp: read_inv_def)
  let ?e = "earned rate p (t0 - overdue s)"
  show ?thesis
  proof (cases "bkt s")
    case None
    have "admitted s \<le> earned rate p (t0 - (overdue s + lateness p None g now (clk s))) now"
    proof (cases "g + p \<le> clk s")
      case True
      have "admitted s \<le> ?e (clk s)" using inv None by (simp add: sys_inv_def bucket_inv_def)
      also have "\<dots> = earned rate p (t0 - overdue s - (clk s - now)) now" by (rule earned_shift [symmetric])
      finally show ?thesis using True by (simp add: lateness_def algebra_simps)
    next
      case False
      then have "admitted s \<le> ?e g" using ci None by (auto simp: read_inv_def)
      also have "\<dots> \<le> ?e now" using lim n(2) by (rule earned_mono)
      finally show ?thesis using False by (simp add: lateness_def)
    qed
    then show ?thesis using None by (simp add: refilled_def)
  next
    case (Some x)
    then have "LastRefill x \<le> now" using ci by (auto simp: read_inv_def)
    then have "refilled rate p (bkt s) now \<le> Value x + (now - LastRefill x) * rate div p"
      using Some by (simp add: refilled_def)
    moreover have "Value x + admitted s \<le> rate + ?e (LastRefill x)"
      using inv Some by (simp add: sys_inv_def bucket_inv_def)
    ultimately show ?thesis
      using earned_superadd [OF lim, of "t0 - overdue s" "LastRefill x" now] Some
      by (simp add: lateness_def)
  qed
qed

lemma swap_inv:
  assumes lim: "limit_ok rate p" and inv: "sys_inv rate p t0 s"
    and c: "cl s i = HasClock (bkt s) g now req"
    and st: "bucketStep limiterModeConsumeIfAllowed False rate p req (bkt s) now = Some (v, Some nb)"
  shows "sys_inv rate p t0
    (s\<lparr>bkt := Some nb, expiry := clk s + p, cl := (cl s)(i := Idle), admitted := admitted s + req,
       overdue := overdue s + lateness p (bkt s) g now (clk s)\<rparr>)"
    (is "sys_inv rate p t0 ?s'")
proof -
  note nb = consume_step [OF lim inv c st]
  have ci: "client_inv rate p t0 s (HasClock (bkt s) g now req)" using inv c by (metis sys_inv_def)
  then have n: "t0 \<le> g" "g \<le> now" "now \<le> clk s" by (auto simp: read_inv_def)
  have "bucket_inv rate p t0 ?s'"
    using nb n swap_balance [OF lim inv c] by (simp add: bucket_inv_def)
  moreover have "client_inv rate p t0 ?s' (((cl s)(i := Idle)) j)" for j
  proof (cases "j = i")
    case False
    have "client_inv rate p t0 s (cl s j)" using inv by (simp add: sys_inv_def)
    then have "client_inv rate p t0 ?s' (cl s j)"
      by (rule client_inv_mono) (auto simp: read_inv_def)
    with False show ?thesis by simp
  qed simp
  moreover have "0 \<le> lateness p (bkt s) g now (clk s)" using n by (simp add: lateness_def)
  ultimately show ?thesis using inv by (simp add: sys_inv_def)
qed

lemma expire_inv:
  assumes lim: "limit_ok rate p" and inv: "sys_inv rate p t0 s"
    and b: "bkt s = Some x" and e: "expiry s \<le> clk s"
  shows "sys_inv rate p t0 (s\<lparr>bkt := None\<rparr>)"
proof -
  have x: "0 \<le> Value x" "LastRefill x + p \<le> clk s"
    "Value x + admitted s \<le> rate + earned rate p (t0 - overdue s) (LastRefill x)"
    using inv b e by (auto simp: sys_inv_def bucket_inv_def)
  have "earned rate p (t0 - overdue s) (LastRefill x + p) \<le> earned rate p (t0 - overdue s) (clk s)"
    using lim x(2) by (rule earned_mono)
  then have "bucket_inv rate p t0 (s\<lparr>bkt := None\<rparr>)"
    using x earned_period [OF lim, of "t0 - overdue s" "LastRefill x"] by (simp add: bucket_inv_def)
  moreover have "client_inv rate p t0 (s\<lparr>bkt := None\<rparr>) (cl s i)" for i
  proof -
    have "client_inv rate p t0 s (cl s i)" using inv by (simp add: sys_inv_def)
    then show ?thesis by (rule client_inv_mono) (use b e in \<open>auto simp: read_inv_def\<close>)
  qed
  ultimately show ?thesis using inv by (simp add: sys_inv_def)
qed

lemma limiter_step_inv:
  assumes "limit_ok rate p" and "sys_inv rate p t0 s" and "limiter_step rate p s s'"
  shows "sys_inv rate p t0 s'"
  using assms(3)
proof cases
  case (tick t)
  with assms show ?thesis by (auto intro: tick_inv)
next
  case (get i req)
  with assms(2) show ?thesis by (auto intro!: client_step_inv read_inv_now)
next
  case (clock i b g req)
  moreover have "client_inv rate p t0 s (cl s i)" using assms(2) by (simp add: sys_inv_def)
  ultimately show ?thesis using assms(2) by (auto intro!: client_step_inv simp: read_inv_def)
next
  case (swap i b g now req v nb)
  with assms show ?thesis by (auto intro: swap_inv)
next
  case (expire x)
  with assms show ?thesis by (auto intro: expire_inv)
qed (use assms(2) in \<open>auto intro: client_step_inv\<close>)

lemma limiter_reach_inv:
  assumes "limit_ok rate p" and "stamp_ok t0"
  shows "limiter_reach rate p t0 s \<Longrightarrow> sys_inv rate p t0 s"
proof (induction rule: limiter_reach.induct)
  case start
  show ?case
    using assms by (simp add: sys_inv_def bucket_inv_def init_sys_def stamp_ok_def earned_def)
next
  case (step s s')
  then show ?case using assms(1) by (blast intro: limiter_step_inv)
qed

section \<open>Properties\<close>


text \<open>One whole call of a client that finds the bucket \<open>b\<close> and swaps at the same instant.\<close>

lemma call_reach:
  assumes "limiter_reach rate p t0 s" and "cl s i = Idle" and "0 \<le> req" and "req_ok req"
    and "bucketStep limiterModeConsumeIfAllowed False rate p req (bkt s) (clk s) = Some (v, Some nb)"
    and "0 < p"
  shows "limiter_reach rate p t0 (s\<lparr>bkt := Some nb, expiry := clk s + p, admitted := admitted s + req\<rparr>)"
proof -
  let ?s1 = "s\<lparr>cl := (cl s)(i := HasRead (bkt s) (clk s) req)\<rparr>"
  let ?s2 = "?s1\<lparr>cl := (cl ?s1)(i := HasClock (bkt s) (clk s) (clk s) req)\<rparr>"
  have "limiter_step rate p s ?s1" using assms(2-4) by (rule limiter_step.get)
  moreover have "limiter_step rate p ?s1 ?s2"
    using limiter_step.clock [of ?s1 i "bkt s" "clk s" req] by simp
  moreover have "limiter_step rate p ?s2
      (s\<lparr>bkt := Some nb, expiry := clk s + p, admitted := admitted s + req\<rparr>)"
    using limiter_step.swap [of ?s2 i "bkt s" "clk s" "clk s" req rate p v nb] assms(2,5,6)
    by (simp add: lateness_def fun_upd_idem)
  ultimately show ?thesis using assms(1) by (meson limiter_reach.step)
qed

text \<open>A replica that is admitted four of the ten units of a bucket.\<close>

definition run_example :: limiter_sys where
  "run_example = \<lparr>bkt = Some \<lparr>Value = 6, LastRefill = 1000\<rparr>, expiry = 2000, clk = 1000,
     cl = (\<lambda>_. Idle), admitted = 4, overdue = 0\<rparr>"

lemmas bucketStep_example = bucketStep_eq limit_ok_def bucket_ok_def stamp_ok_def req_ok_def refilled_def
  charged_def charge_floor_def

lemma run_example_reachable: "limiter_reach 10 1000 1000 run_example"
proof -
  have "bucketStep limiterModeConsumeIfAllowed False 10 1000 4 None 1000
      = Some (10, Some \<lparr>Value = 6, LastRefill = 1000\<rparr>)"
    by (simp add: bucketStep_example)
  from call_reach [OF limiter_reach.start [of 10 1000 1000], of 0 4] this show ?thesis
    by (simp add: init_sys_def run_example_def req_ok_def)
qed


section \<open>A swap that is overdue\<close>

text \<open>
  Ten units per second. Replica 0 reads the absent key at instant 1000 and sleeps; replica 1 is
  admitted a full bucket at the same instant; at 2000 that bucket expires, replica 0 wakes up and
  stores the bucket it computed, whose last refill is 1000; replica 1 then finds it refilled by
  one second. Thirty units are admitted within one second, ten more than the plain bound.
\<close>

definition overdue_example :: limiter_sys where
  "overdue_example = \<lparr>bkt = Some \<lparr>Value = 0, LastRefill = 2000\<rparr>, expiry = 3000, clk = 2000,
     cl = (\<lambda>_. Idle), admitted = 30, overdue = 1000\<rparr>"

lemma overdue_example_reachable: "limiter_reach 10 1000 1000 overdue_example"
proof -
  let ?empty = "\<lambda>t. \<lparr>Value = 0, LastRefill = t\<rparr>"
  let ?s0 = "init_sys 1000"
  let ?s1 = "?s0\<lparr>cl := (cl ?s0)(0 := HasRead None 1000 10)\<rparr>"
  let ?s2 = "?s1\<lparr>cl := (cl ?s1)(0 := HasClock None 1000 1000 10)\<rparr>"
  let ?s3 = "?s2\<lparr>bkt := Some (?empty 1000), expiry := 2000, admitted := 10\<rparr>"
  let ?s4 = "?s3\<lparr>clk := 2000\<rparr>"
  let ?s5 = "?s4\<lparr>bkt := None\<rparr>"
  let ?s6 = "?s5\<lparr>bkt := Some (?empty 1000), expiry := 3000, cl := (\<lambda>_. Idle), admitted := 20, overdue := 1000\<rparr>"
  have b: "bucketStep limiterModeConsumeIfAllowed False 10 1000 10 None 1000 = Some (10, Some (?empty 1000))"
    and b': "bucketStep limiterModeConsumeIfAllowed False 10 1000 10 (Some (?empty 1000)) 2000
      = Some (10, Some (?empty 2000))"
    by (simp_all add: bucketStep_example)
  have "limiter_step 10 1000 ?s0 ?s1"
    using limiter_step.get [of ?s0 0 10] by (simp add: init_sys_def req_ok_def)
  moreover have "limiter_step 10 1000 ?s1 ?s2"
    using limiter_step.clock [of ?s1 0 None 1000 10] by (simp add: init_sys_def)
  ultimately have "limiter_reach 10 1000 1000 ?s2" by (meson limiter_reach.intros)
  from call_reach [OF this, of 1 10] b have "limiter_reach 10 1000 1000 ?s3"
    by (simp add: init_sys_def req_ok_def)
  moreover have "limiter_step 10 1000 ?s3 ?s4"
    by (rule limiter_step.tick) (simp_all add: init_sys_def stamp_ok_def)
  moreover have "limiter_step 10 1000 ?s4 ?s5"
    by (rule limiter_step.expire) simp_all
  moreover have "limiter_step 10 1000 ?s5 ?s6"
    using limiter_step.swap [of ?s5 0 None 1000 1000 10 10 1000 10 "?empty 1000"] b
    by (simp add: init_sys_def lateness_def fun_upd_idem)
  ultimately have "limiter_reach 10 1000 1000 ?s6" by (meson limiter_reach.step)
  from call_reach [OF this, of 1 10] b' show ?thesis
    by (simp add: init_sys_def overdue_example_def req_ok_def)
qed

lemma overdue_term_needed:
  "limiter_reach 10 1000 1000 overdue_example
   \<and> 10 + (clk overdue_example - 1000) * 10 div 1000 < admitted overdue_example
   \<and> admitted overdue_example = 10 + (clk overdue_example - 1000 + overdue overdue_example) * 10 div 1000"
  using overdue_example_reachable by (simp add: overdue_example_def)

end
