(* ===== verification/Defaults.thy ===== *)
theory Defaults
  imports RateLimit
begin

text \<open>
  The limiters without a store: \<open>AllowAll\<close> and \<open>RejectAll\<close> (\<open>ratelimit/defaults.go\<close>) and
  \<open>Nop\<close> (\<open>ratelimit/nop_limiter.go\<close>).
\<close>

definition allowAll :: "'s RateLimiter" where
  "allowAll =
     \<lparr>CheckLimit = (\<lambda>_ _ l tokensRequested _ _ _ s.
        (Inr \<lparr>CurrentValue = MaxInt64, Requested = tokensRequested, ResultRateLimit = l, reverted = False\<rparr>, s)),
      ResetKeys = (\<lambda>_ _ s. (Inr (), s))\<rparr>"

definition rejectAll :: "'s RateLimiter" where
  "rejectAll =
     \<lparr>CheckLimit = (\<lambda>_ _ l tokensRequested _ _ _ s.
        (Inr \<lparr>CurrentValue = 0, Requested = tokensRequested, ResultRateLimit = l, reverted = False\<rparr>, s)),
      ResetKeys = (\<lambda>_ _ s. (Inr (), s))\<rparr>"

definition nopLimiter :: "'s RateLimiter" where
  "nopLimiter =
     \<lparr>CheckLimit = (\<lambda>_ _ _ r _ _ _ s.
        (Inr \<lparr>CurrentValue = MaxInt64, Requested = r,
              ResultRateLimit = \<lparr>Limit = MaxInt64, Period = 1, AllowDebt = False\<rparr>, reverted = False\<rparr>, s)),
      ResetKeys = (\<lambda>_ _ s. (Inr (), s))\<rparr>"

text \<open>
  \<open>AllowAll\<close> and \<open>Nop\<close> allow every \<open>int64\<close> of tokens; \<open>RejectAll\<close> still allows a refund and a
  request for nothing.
\<close>

lemma allowAll_allows:
  "n \<le> MaxInt64 \<Longrightarrow> \<exists>r. CheckLimit allowAll ctx k l n t rid m s = (Inr r, s) \<and> Allowed r"
  by (simp add: allowAll_def Allowed_def)

lemma nopLimiter_allows:
  "n \<le> MaxInt64 \<Longrightarrow> \<exists>r. CheckLimit nopLimiter ctx k l n t rid m s = (Inr r, s) \<and> Allowed r"
  by (simp add: nopLimiter_def Allowed_def)

lemma rejectAll_rejects:
  "\<exists>r. CheckLimit rejectAll ctx k l n t rid m s = (Inr r, s) \<and> (Allowed r \<longleftrightarrow> n \<le> 0)"
  by (simp add: rejectAll_def Allowed_def)

end
