(* ===== verification/Resources.thy ===== *)
theory Resources
  imports CasLoop Defaults
begin

text \<open>
  Resource limits of the gateway (\<open>ratelimit/resources.go\<close>): the twenty limit dimensions, the
  limit of a subject, the conversion of organisation, project and API-key limits, and the check of
  a request against every dimension of a limit at once.

  \<open>doResourceLimit\<close> starts one goroutine per dimension in an \<open>errgroup\<close>. Each makes at most one
  \<open>CheckLimit\<close> call, on a key of its own, so the model runs the calls one after the other in the
  order of a schedule: a list of the dimensions, each with a flag that tells whether its goroutine
  sees the cancellation of the group's context, if another one has failed before. A theorem that
  holds for every schedule holds however the goroutines run.
\<close>

section \<open>Data\<close>

definition time_Second :: i64 where "time_Second = 1000000000"
definition time_Minute :: i64 where "time_Minute = 60 * time_Second"
definition time_Hour :: i64 where "time_Hour = 60 * time_Minute"
definition day :: i64 where "day = 24 * time_Hour"
definition week :: i64 where "week = 7 * day"
definition month :: i64 where "month = 30 * day"

lemmas time_defs = time_Second_def time_Minute_def time_Hour_def day_def week_def month_def

type_synonym LimitLevel = string

definition LevelFunction :: LimitLevel where "LevelFunction = ''function''"
definition LevelOrg :: LimitLevel where "LevelOrg = ''org''"
definition LevelProject :: LimitLevel where "LevelProject = ''project''"
definition LevelAPIKey :: LimitLevel where "LevelAPIKey = ''api_key''"

datatype LimitDimension =
    RequestsPerMinute
  | RequestsPerDay
  | TokensPerSecond
  | TokensPerMinute
  | TokensPerHour
  | TokensPerDay
  | TokensPerWeek
  | TokensPerMonth
  | InputTokensPerSecond
  | InputTokensPerMinute
  | InputTokensPerHour
  | InputTokensPerDay
  | InputTokensPerWeek
  | InputTokensPerMonth
  | OutputTokensPerSecond
  | OutputTokensPerMinute
  | OutputTokensPerHour
  | OutputTokensPerDay
  | OutputTokensPerWeek
  | OutputTokensPerMonth

text \<open>The string a dimension constant is.\<close>

fun dimension_name :: "LimitDimension \<Rightarrow> string" where
  "dimension_name RequestsPerMinute = ''requests_minute''"
| "dimension_name RequestsPerDay = ''requests_day''"
| "dimension_name TokensPerSecond = ''tokens_second''"
| "dimension_name TokensPerMinute = ''tokens_minute''"
| "dimension_name TokensPerHour = ''tokens_hour''"
| "dimension_name TokensPerDay = ''tokens_day''"
| "dimension_name TokensPerWeek = ''tokens_week''"
| "dimension_name TokensPerMonth = ''tokens_month''"
| "dimension_name InputTokensPerSecond = ''input_tokens_second''"
| "dimension_name InputTokensPerMinute = ''input_tokens_minute''"
| "dimension_name InputTokensPerHour = ''input_tokens_hour''"
| "dimension_name InputTokensPerDay = ''input_tokens_day''"
| "dimension_name InputTokensPerWeek = ''input_tokens_week''"
| "dimension_name InputTokensPerMonth = ''input_tokens_month''"
| "dimension_name OutputTokensPerSecond = ''output_tokens_second''"
| "dimension_name OutputTokensPerMinute = ''output_tokens_minute''"
| "dimension_name OutputTokensPerHour = ''output_tokens_hour''"
| "dimension_name OutputTokensPerDay = ''output_tokens_day''"
| "dimension_name OutputTokensPerWeek = ''output_tokens_week''"
| "dimension_name OutputTokensPerMonth = ''output_tokens_month''"

definition allLimitDimensions :: "LimitDimension list" where
  "allLimitDimensions =
     [RequestsPerMinute, RequestsPerDay, TokensPerSecond, TokensPerMinute, TokensPerHour,
     TokensPerDay, TokensPerWeek, TokensPerMonth, InputTokensPerSecond, InputTokensPerMinute,
     InputTokensPerHour, InputTokensPerDay, InputTokensPerWeek, InputTokensPerMonth,
     OutputTokensPerSecond, OutputTokensPerMinute, OutputTokensPerHour, OutputTokensPerDay,
     OutputTokensPerWeek, OutputTokensPerMonth]"

record ResourceLimit =
  rl_SubjectKey :: string
  rl_SubjectRepr :: string
  rl_Level :: string
  rl_AllowDebt :: bool
  rl_RequestsPerMinute :: i64
  rl_RequestsPerDay :: i64
  rl_TokensPerSecond :: i64
  rl_TokensPerMinute :: i64
  rl_TokensPerHour :: i64
  rl_TokensPerDay :: i64
  rl_TokensPerWeek :: i64
  rl_TokensPerMonth :: i64
  rl_InputTokensPerSecond :: i64
  rl_InputTokensPerMinute :: i64
  rl_InputTokensPerHour :: i64
  rl_InputTokensPerDay :: i64
  rl_InputTokensPerWeek :: i64
  rl_InputTokensPerMonth :: i64
  rl_OutputTokensPerSecond :: i64
  rl_OutputTokensPerMinute :: i64
  rl_OutputTokensPerHour :: i64
  rl_OutputTokensPerDay :: i64
  rl_OutputTokensPerWeek :: i64
  rl_OutputTokensPerMonth :: i64

record OrgLimit =
  ol_SubjectKey :: string
  ol_SubjectRepr :: string
  ol_OrgID :: string
  ol_FunctionID :: string
  ol_RequestsPerMinute :: i64
  ol_RequestsPerDay :: i64
  ol_TokensPerSecond :: i64
  ol_TokensPerMinute :: i64
  ol_TokensPerHour :: i64
  ol_TokensPerDay :: i64
  ol_TokensPerWeek :: i64
  ol_TokensPerMonth :: i64
  ol_InputTokensPerSecond :: i64
  ol_InputTokensPerMinute :: i64
  ol_InputTokensPerHour :: i64
  ol_InputTokensPerDay :: i64
  ol_InputTokensPerWeek :: i64
  ol_InputTokensPerMonth :: i64
  ol_OutputTokensPerSecond :: i64
  ol_OutputTokensPerMinute :: i64
  ol_OutputTokensPerHour :: i64
  ol_OutputTokensPerDay :: i64
  ol_OutputTokensPerWeek :: i64
  ol_OutputTokensPerMonth :: i64

record ProjectLimit =
  pl_SubjectKey :: string
  pl_SubjectRepr :: string
  pl_OrgID :: string
  pl_ProjectID :: string
  pl_FunctionID :: string
  pl_RequestsPerMinute :: i64
  pl_RequestsPerDay :: i64
  pl_TokensPerSecond :: i64
  pl_TokensPerMinute :: i64
  pl_TokensPerHour :: i64
  pl_TokensPerDay :: i64
  pl_TokensPerWeek :: i64
  pl_TokensPerMonth :: i64
  pl_InputTokensPerSecond :: i64
  pl_InputTokensPerMinute :: i64
  pl_InputTokensPerHour :: i64
  pl_InputTokensPerDay :: i64
  pl_InputTokensPerWeek :: i64
  pl_InputTokensPerMonth :: i64
  pl_OutputTokensPerSecond :: i64
  pl_OutputTokensPerMinute :: i64
  pl_OutputTokensPerHour :: i64
  pl_OutputTokensPerDay :: i64
  pl_OutputTokensPerWeek :: i64
  pl_OutputTokensPerMonth :: i64

record APIKeyLimit =
  al_SubjectKey :: string
  al_SubjectRepr :: string
  al_APIKeyID :: string
  al_Endpoint :: string
  al_FunctionID :: string
  al_RequestsPerMinute :: i64
  al_RequestsPerDay :: i64
  al_TokensPerSecond :: i64
  al_TokensPerMinute :: i64
  al_TokensPerHour :: i64
  al_TokensPerDay :: i64
  al_TokensPerWeek :: i64
  al_TokensPerMonth :: i64
  al_InputTokensPerSecond :: i64
  al_InputTokensPerMinute :: i64
  al_InputTokensPerHour :: i64
  al_InputTokensPerDay :: i64
  al_InputTokensPerWeek :: i64
  al_InputTokensPerMonth :: i64
  al_OutputTokensPerSecond :: i64
  al_OutputTokensPerMinute :: i64
  al_OutputTokensPerHour :: i64
  al_OutputTokensPerDay :: i64
  al_OutputTokensPerWeek :: i64
  al_OutputTokensPerMonth :: i64

record ResourceRequest =
  rr_Requests :: i64
  rr_InputTokens :: i64
  rr_OutputTokens :: i64

text \<open>The zero value of the struct.\<close>

definition zeroResourceLimit :: ResourceLimit where
  "zeroResourceLimit =
     \<lparr>rl_SubjectKey = [], rl_SubjectRepr = [], rl_Level = [], rl_AllowDebt = False,
      rl_RequestsPerMinute = 0, rl_RequestsPerDay = 0, rl_TokensPerSecond = 0,
      rl_TokensPerMinute = 0, rl_TokensPerHour = 0, rl_TokensPerDay = 0, rl_TokensPerWeek = 0,
      rl_TokensPerMonth = 0, rl_InputTokensPerSecond = 0, rl_InputTokensPerMinute = 0,
      rl_InputTokensPerHour = 0, rl_InputTokensPerDay = 0, rl_InputTokensPerWeek = 0,
      rl_InputTokensPerMonth = 0, rl_OutputTokensPerSecond = 0, rl_OutputTokensPerMinute = 0,
      rl_OutputTokensPerHour = 0, rl_OutputTokensPerDay = 0, rl_OutputTokensPerWeek = 0,
      rl_OutputTokensPerMonth = 0\<rparr>"

definition ResourceLimitEmpty :: "ResourceLimit \<Rightarrow> bool" where
  "ResourceLimitEmpty r \<longleftrightarrow> r = zeroResourceLimit"

section \<open>The check of one dimension\<close>

text \<open>The three assignments of the \<open>switch\<close> over the dimension.\<close>

fun dimUnits :: "ResourceRequest \<Rightarrow> LimitDimension \<Rightarrow> i64" where
  "dimUnits r RequestsPerMinute = rr_Requests r"
| "dimUnits r RequestsPerDay = rr_Requests r"
| "dimUnits r TokensPerSecond = add64 (rr_InputTokens r) (rr_OutputTokens r)"
| "dimUnits r TokensPerMinute = add64 (rr_InputTokens r) (rr_OutputTokens r)"
| "dimUnits r TokensPerHour = add64 (rr_InputTokens r) (rr_OutputTokens r)"
| "dimUnits r TokensPerDay = add64 (rr_InputTokens r) (rr_OutputTokens r)"
| "dimUnits r TokensPerWeek = add64 (rr_InputTokens r) (rr_OutputTokens r)"
| "dimUnits r TokensPerMonth = add64 (rr_InputTokens r) (rr_OutputTokens r)"
| "dimUnits r InputTokensPerSecond = rr_InputTokens r"
| "dimUnits r InputTokensPerMinute = rr_InputTokens r"
| "dimUnits r InputTokensPerHour = rr_InputTokens r"
| "dimUnits r InputTokensPerDay = rr_InputTokens r"
| "dimUnits r InputTokensPerWeek = rr_InputTokens r"
| "dimUnits r InputTokensPerMonth = rr_InputTokens r"
| "dimUnits r OutputTokensPerSecond = rr_OutputTokens r"
| "dimUnits r OutputTokensPerMinute = rr_OutputTokens r"
| "dimUnits r OutputTokensPerHour = rr_OutputTokens r"
| "dimUnits r OutputTokensPerDay = rr_OutputTokens r"
| "dimUnits r OutputTokensPerWeek = rr_OutputTokens r"
| "dimUnits r OutputTokensPerMonth = rr_OutputTokens r"

fun dimLimit :: "ResourceLimit \<Rightarrow> LimitDimension \<Rightarrow> i64" where
  "dimLimit l RequestsPerMinute = rl_RequestsPerMinute l"
| "dimLimit l RequestsPerDay = rl_RequestsPerDay l"
| "dimLimit l TokensPerSecond = rl_TokensPerSecond l"
| "dimLimit l TokensPerMinute = rl_TokensPerMinute l"
| "dimLimit l TokensPerHour = rl_TokensPerHour l"
| "dimLimit l TokensPerDay = rl_TokensPerDay l"
| "dimLimit l TokensPerWeek = rl_TokensPerWeek l"
| "dimLimit l TokensPerMonth = rl_TokensPerMonth l"
| "dimLimit l InputTokensPerSecond = rl_InputTokensPerSecond l"
| "dimLimit l InputTokensPerMinute = rl_InputTokensPerMinute l"
| "dimLimit l InputTokensPerHour = rl_InputTokensPerHour l"
| "dimLimit l InputTokensPerDay = rl_InputTokensPerDay l"
| "dimLimit l InputTokensPerWeek = rl_InputTokensPerWeek l"
| "dimLimit l InputTokensPerMonth = rl_InputTokensPerMonth l"
| "dimLimit l OutputTokensPerSecond = rl_OutputTokensPerSecond l"
| "dimLimit l OutputTokensPerMinute = rl_OutputTokensPerMinute l"
| "dimLimit l OutputTokensPerHour = rl_OutputTokensPerHour l"
| "dimLimit l OutputTokensPerDay = rl_OutputTokensPerDay l"
| "dimLimit l OutputTokensPerWeek = rl_OutputTokensPerWeek l"
| "dimLimit l OutputTokensPerMonth = rl_OutputTokensPerMonth l"

fun dimPeriod :: "LimitDimension \<Rightarrow> i64" where
  "dimPeriod RequestsPerMinute = time_Minute"
| "dimPeriod RequestsPerDay = day"
| "dimPeriod TokensPerSecond = time_Second"
| "dimPeriod TokensPerMinute = time_Minute"
| "dimPeriod TokensPerHour = time_Hour"
| "dimPeriod TokensPerDay = day"
| "dimPeriod TokensPerWeek = week"
| "dimPeriod TokensPerMonth = month"
| "dimPeriod InputTokensPerSecond = time_Second"
| "dimPeriod InputTokensPerMinute = time_Minute"
| "dimPeriod InputTokensPerHour = time_Hour"
| "dimPeriod InputTokensPerDay = day"
| "dimPeriod InputTokensPerWeek = week"
| "dimPeriod InputTokensPerMonth = month"
| "dimPeriod OutputTokensPerSecond = time_Second"
| "dimPeriod OutputTokensPerMinute = time_Minute"
| "dimPeriod OutputTokensPerHour = time_Hour"
| "dimPeriod OutputTokensPerDay = day"
| "dimPeriod OutputTokensPerWeek = week"
| "dimPeriod OutputTokensPerMonth = month"

definition keyForDimension :: "ResourceLimit \<Rightarrow> LimitDimension \<Rightarrow> string" where
  "keyForDimension limit dimension = rl_SubjectKey limit @ '':'' @ dimension_name dimension"

text \<open>The \<open>RateLimit\<close> a dimension is checked against.\<close>

definition dimRate :: "ResourceLimit \<Rightarrow> LimitDimension \<Rightarrow> RateLimit" where
  "dimRate l d = \<lparr>Limit = dimLimit l d, Period = dimPeriod d, AllowDebt = rl_AllowDebt l\<rparr>"

text \<open>The body of a goroutine; \<open>Inr None\<close> is its return before the call.\<close>

definition checkDimension ::
    "'s RateLimiter \<Rightarrow> ResourceLimit \<Rightarrow> ResourceRequest \<Rightarrow> bool \<Rightarrow> string \<Rightarrow> bool \<Rightarrow> 's ctx
       \<Rightarrow> LimitDimension \<Rightarrow> 's \<Rightarrow> (rl_error + RateLimitResult option) \<times> 's" where
  "checkDimension limiter resourceLimit resourceRequest testOnly requestID mustConsume ectx dimension s =
     (if dimUnits resourceRequest dimension = 0 \<or> dimLimit resourceLimit dimension = 0 then (Inr None, s)
      else (case CheckLimit limiter ectx (keyForDimension resourceLimit dimension)
                   (dimRate resourceLimit dimension) (dimUnits resourceRequest dimension)
                   testOnly requestID mustConsume s of
              (Inl e, s') \<Rightarrow> (Inl e, s')
            | (Inr result, s') \<Rightarrow> (Inr (Some result), s')))"

section \<open>The check of all dimensions\<close>

type_synonym schedule = "(LimitDimension \<times> bool) list"
type_synonym results = "LimitDimension \<Rightarrow> RateLimitResult option"

definition schedule_ok :: "schedule \<Rightarrow> bool" where
  "schedule_ok sched \<longleftrightarrow> distinct (map fst sched) \<and> set (map fst sched) = set allLimitDimensions"

definition cancelledCtx :: "'s ctx" where
  "cancelledCtx = (\<lambda>_. Some ''context canceled'')"

text \<open>
  The group keeps the first error and cancels its context with it; goroutines after it still run.
\<close>

fun runGroup ::
    "('s ctx \<Rightarrow> LimitDimension \<Rightarrow> 's \<Rightarrow> (rl_error + RateLimitResult option) \<times> 's) \<Rightarrow> 's ctx \<Rightarrow> schedule
       \<Rightarrow> rl_error option \<Rightarrow> results \<Rightarrow> 's \<Rightarrow> (rl_error option \<times> results) \<times> 's" where
  "runGroup body ctx [] err results s = ((err, results), s)"
| "runGroup body ctx ((dimension, sees) # sched) err results s =
     (case body (if err \<noteq> None \<and> sees then cancelledCtx else ctx) dimension s of
        (Inl e, s') \<Rightarrow> runGroup body ctx sched (if err = None then Some e else err) results s'
      | (Inr None, s') \<Rightarrow> runGroup body ctx sched err results s'
      | (Inr (Some r), s') \<Rightarrow> runGroup body ctx sched err (results(dimension \<mapsto> r)) s')"

definition doResourceLimit ::
    "'s RateLimiter \<Rightarrow> 's ctx \<Rightarrow> ResourceLimit \<Rightarrow> ResourceRequest \<Rightarrow> bool \<Rightarrow> string \<Rightarrow> bool \<Rightarrow> schedule \<Rightarrow> 's
       \<Rightarrow> (rl_error + results) \<times> 's" where
  "doResourceLimit limiter ctx resourceLimit resourceRequest testOnly requestID mustConsume sched s =
     (case runGroup (checkDimension limiter resourceLimit resourceRequest testOnly requestID mustConsume)
             ctx sched None Map.empty s of
        ((Some e, _), s') \<Rightarrow> (Inl e, s')
      | ((None, results), s') \<Rightarrow> (Inr results, s'))"

definition TestResourceLimit ::
    "'s RateLimiter \<Rightarrow> 's ctx \<Rightarrow> ResourceLimit \<Rightarrow> ResourceRequest \<Rightarrow> string \<Rightarrow> schedule \<Rightarrow> 's
       \<Rightarrow> (rl_error + results) \<times> 's" where
  "TestResourceLimit limiter ctx limit request requestID sched s =
     doResourceLimit limiter ctx limit request True requestID False sched s"

definition ConsumeResourceLimit ::
    "'s RateLimiter \<Rightarrow> 's ctx \<Rightarrow> ResourceLimit \<Rightarrow> ResourceRequest \<Rightarrow> string \<Rightarrow> schedule \<Rightarrow> 's
       \<Rightarrow> (rl_error + results) \<times> 's" where
  "ConsumeResourceLimit limiter ctx limit request requestID sched s =
     doResourceLimit limiter ctx limit request False requestID False sched s"

definition MustConsumeResourceLimit ::
    "'s RateLimiter \<Rightarrow> 's ctx \<Rightarrow> ResourceLimit \<Rightarrow> ResourceRequest \<Rightarrow> string \<Rightarrow> schedule \<Rightarrow> 's
       \<Rightarrow> (rl_error + results) \<times> 's" where
  "MustConsumeResourceLimit limiter ctx limit request requestID sched s =
     doResourceLimit limiter ctx limit request False requestID True sched s"

definition ResetAllLimits :: "'s RateLimiter \<Rightarrow> ResourceLimit \<Rightarrow> 's \<Rightarrow> (rl_error + unit) \<times> 's" where
  "ResetAllLimits limiter limit s =
     ResetKeys limiter (\<lambda>_. None) (map (keyForDimension limit) allLimitDimensions) s"

section \<open>Limits of organisations, projects and API keys\<close>

text \<open>A subject key or description left empty is made from the ids.\<close>

definition ResourceLimitFromOrgLimit :: "OrgLimit \<Rightarrow> ResourceLimit" where
  "ResourceLimitFromOrgLimit l =
     \<lparr>rl_SubjectKey = (if ol_SubjectKey l = [] then ''org_limit:'' @ ol_OrgID l @ '':function:'' @ ol_FunctionID l
                       else ol_SubjectKey l),
      rl_SubjectRepr = (if ol_SubjectRepr l = [] then
                          ''org `'' @ ol_OrgID l @ ''` function `'' @ ol_FunctionID l @ ''`''
                        else ol_SubjectRepr l),
      rl_Level = LevelOrg, rl_AllowDebt = False,
      rl_RequestsPerMinute = ol_RequestsPerMinute l, rl_RequestsPerDay = ol_RequestsPerDay l,
      rl_TokensPerSecond = ol_TokensPerSecond l, rl_TokensPerMinute = ol_TokensPerMinute l,
      rl_TokensPerHour = ol_TokensPerHour l, rl_TokensPerDay = ol_TokensPerDay l,
      rl_TokensPerWeek = ol_TokensPerWeek l, rl_TokensPerMonth = ol_TokensPerMonth l,
      rl_InputTokensPerSecond = ol_InputTokensPerSecond l,
      rl_InputTokensPerMinute = ol_InputTokensPerMinute l,
      rl_InputTokensPerHour = ol_InputTokensPerHour l,
      rl_InputTokensPerDay = ol_InputTokensPerDay l,
      rl_InputTokensPerWeek = ol_InputTokensPerWeek l,
      rl_InputTokensPerMonth = ol_InputTokensPerMonth l,
      rl_OutputTokensPerSecond = ol_OutputTokensPerSecond l,
      rl_OutputTokensPerMinute = ol_OutputTokensPerMinute l,
      rl_OutputTokensPerHour = ol_OutputTokensPerHour l,
      rl_OutputTokensPerDay = ol_OutputTokensPerDay l,
      rl_OutputTokensPerWeek = ol_OutputTokensPerWeek l,
      rl_OutputTokensPerMonth = ol_OutputTokensPerMonth l\<rparr>"

definition ResourceLimitFromProjectLimit :: "ProjectLimit \<Rightarrow> ResourceLimit" where
  "ResourceLimitFromProjectLimit l =
     \<lparr>rl_SubjectKey = (if pl_SubjectKey l = [] then
                         (if pl_OrgID l \<noteq> [] then
                            ''project_limit:'' @ pl_OrgID l @ '':'' @ pl_ProjectID l @ '':function:'' @ pl_FunctionID l
                          else ''project_limit:'' @ pl_ProjectID l @ '':function:'' @ pl_FunctionID l)
                       else pl_SubjectKey l),
      rl_SubjectRepr = (if pl_SubjectRepr l = [] then
                          (if pl_OrgID l \<noteq> [] then
                             ''org `'' @ pl_OrgID l @ ''` project `'' @ pl_ProjectID l @ ''` function `''
                               @ pl_FunctionID l @ ''`''
                           else ''project `'' @ pl_ProjectID l @ ''` function `'' @ pl_FunctionID l @ ''`'')
                        else pl_SubjectRepr l),
      rl_Level = LevelProject, rl_AllowDebt = False,
      rl_RequestsPerMinute = pl_RequestsPerMinute l, rl_RequestsPerDay = pl_RequestsPerDay l,
      rl_TokensPerSecond = pl_TokensPerSecond l, rl_TokensPerMinute = pl_TokensPerMinute l,
      rl_TokensPerHour = pl_TokensPerHour l, rl_TokensPerDay = pl_TokensPerDay l,
      rl_TokensPerWeek = pl_TokensPerWeek l, rl_TokensPerMonth = pl_TokensPerMonth l,
      rl_InputTokensPerSecond = pl_InputTokensPerSecond l,
      rl_InputTokensPerMinute = pl_InputTokensPerMinute l,
      rl_InputTokensPerHour = pl_InputTokensPerHour l,
      rl_InputTokensPerDay = pl_InputTokensPerDay l,
      rl_InputTokensPerWeek = pl_InputTokensPerWeek l,
      rl_InputTokensPerMonth = pl_InputTokensPerMonth l,
      rl_OutputTokensPerSecond = pl_OutputTokensPerSecond l,
      rl_OutputTokensPerMinute = pl_OutputTokensPerMinute l,
      rl_OutputTokensPerHour = pl_OutputTokensPerHour l,
      rl_OutputTokensPerDay = pl_OutputTokensPerDay l,
      rl_OutputTokensPerWeek = pl_OutputTokensPerWeek l,
      rl_OutputTokensPerMonth = pl_OutputTokensPerMonth l\<rparr>"

definition ResourceLimitFromAPIKeyLimit :: "APIKeyLimit \<Rightarrow> ResourceLimit" where
  "ResourceLimitFromAPIKeyLimit l =
     \<lparr>rl_SubjectKey = (if al_SubjectKey l = [] then
                         ''api_key_limit:'' @ al_APIKeyID l @ '':endpoint:'' @ al_Endpoint l @ '':function:''
                           @ al_FunctionID l
                       else al_SubjectKey l),
      rl_SubjectRepr = (if al_SubjectRepr l = [] then
                          ''api key `'' @ al_APIKeyID l @ ''` endpoint `'' @ al_Endpoint l @ ''` function `''
                            @ al_FunctionID l @ ''`''
                        else al_SubjectRepr l),
      rl_Level = LevelAPIKey, rl_AllowDebt = False,
      rl_RequestsPerMinute = al_RequestsPerMinute l, rl_RequestsPerDay = al_RequestsPerDay l,
      rl_TokensPerSecond = al_TokensPerSecond l, rl_TokensPerMinute = al_TokensPerMinute l,
      rl_TokensPerHour = al_TokensPerHour l, rl_TokensPerDay = al_TokensPerDay l,
      rl_TokensPerWeek = al_TokensPerWeek l, rl_TokensPerMonth = al_TokensPerMonth l,
      rl_InputTokensPerSecond = al_InputTokensPerSecond l,
      rl_InputTokensPerMinute = al_InputTokensPerMinute l,
      rl_InputTokensPerHour = al_InputTokensPerHour l,
      rl_InputTokensPerDay = al_InputTokensPerDay l,
      rl_InputTokensPerWeek = al_InputTokensPerWeek l,
      rl_InputTokensPerMonth = al_InputTokensPerMonth l,
      rl_OutputTokensPerSecond = al_OutputTokensPerSecond l,
      rl_OutputTokensPerMinute = al_OutputTokensPerMinute l,
      rl_OutputTokensPerHour = al_OutputTokensPerHour l,
      rl_OutputTokensPerDay = al_OutputTokensPerDay l,
      rl_OutputTokensPerWeek = al_OutputTokensPerWeek l,
      rl_OutputTokensPerMonth = al_OutputTokensPerMonth l\<rparr>"


section \<open>Keys\<close>

lemma dimension_name_no_colon: "CHR '':'' \<notin> set (dimension_name d)"
  by (cases d) simp_all

lemma dimension_name_inj: "dimension_name d = dimension_name d' \<Longrightarrow> d = d'"
  by (cases d; cases d'; simp)

lemma allLimitDimensions_UNIV: "d \<in> set allLimitDimensions"
  by (cases d) (simp_all add: allLimitDimensions_def)

lemma allLimitDimensions_distinct: "distinct allLimitDimensions"
  by (simp add: allLimitDimensions_def)

lemma schedule_of_list: "schedule_ok (map (\<lambda>d. (d, sees d)) allLimitDimensions)"
  by (simp add: schedule_ok_def comp_def allLimitDimensions_distinct)

lemma keyForDimension_eq:
  "keyForDimension l d = keyForDimension l' d' \<longleftrightarrow> rl_SubjectKey l = rl_SubjectKey l' \<and> d = d'"
proof
  assume "keyForDimension l d = keyForDimension l' d'"
  then have "rl_SubjectKey l @ CHR '':'' # dimension_name d = rl_SubjectKey l' @ CHR '':'' # dimension_name d'"
    by (simp add: keyForDimension_def)
  then have "rl_SubjectKey l = rl_SubjectKey l' \<and> dimension_name d = dimension_name d'"
    by (rule append_sep_inj) (rule dimension_name_no_colon)+
  then show "rl_SubjectKey l = rl_SubjectKey l' \<and> d = d'" by (auto dest: dimension_name_inj)
qed (simp add: keyForDimension_def)

text \<open>The dimensions a request is checked on.\<close>

definition active :: "ResourceLimit \<Rightarrow> ResourceRequest \<Rightarrow> LimitDimension \<Rightarrow> bool" where
  "active l rq d \<longleftrightarrow> dimUnits rq d \<noteq> 0 \<and> dimLimit l d \<noteq> 0"

section \<open>The limiter's contract\<close>

text \<open>
  What the resource checks rely on of a limiter that is not failing: a check is answered from the
  checked bucket and the instant of the check, on a clock that does not go back, and it
  changes no other bucket.
\<close>

locale local_limiter =
  fixes lim :: "'s RateLimiter"
    and view :: "'s \<Rightarrow> string \<Rightarrow> bucketState option"
    and ready :: "'s \<Rightarrow> bool"
    and clock :: "'s \<Rightarrow> i64"
    and answer :: "i64 \<Rightarrow> RateLimit \<Rightarrow> i64 \<Rightarrow> bool \<Rightarrow> bool \<Rightarrow> bucketState option \<Rightarrow> RateLimitResult"
    and effect :: "i64 \<Rightarrow> RateLimit \<Rightarrow> i64 \<Rightarrow> bool \<Rightarrow> bool \<Rightarrow> bucketState option \<Rightarrow> bucketState option"
  assumes check_ready: "ready s \<Longrightarrow> \<exists>now s'.
      CheckLimit lim (\<lambda>_. None) k l n t rid m s = (Inr (answer now l n t m (view s k)), s') \<and> ready s' \<and>
      view s' = (view s)(k := effect now l n t m (view s k)) \<and> clock s \<le> now \<and> now \<le> clock s'"
begin

text \<open>What the check of a dimension answers and leaves, at an instant and from the buckets of a state.\<close>

definition answerOf :: "ResourceLimit \<Rightarrow> ResourceRequest \<Rightarrow> bool \<Rightarrow> bool \<Rightarrow> i64 \<Rightarrow> 's \<Rightarrow> LimitDimension \<Rightarrow> RateLimitResult option" where
  "answerOf l rq t m now s d =
     (if active l rq d then Some (answer now (dimRate l d) (dimUnits rq d) t m (view s (keyForDimension l d))) else None)"

definition effectOf :: "ResourceLimit \<Rightarrow> ResourceRequest \<Rightarrow> bool \<Rightarrow> bool \<Rightarrow> i64 \<Rightarrow> 's \<Rightarrow> LimitDimension \<Rightarrow> bucketState option" where
  "effectOf l rq t m now s d = effect now (dimRate l d) (dimUnits rq d) t m (view s (keyForDimension l d))"

lemma checkDimension_ready:
  assumes "ready s"
  obtains now s' where "checkDimension lim l rq t rid m (\<lambda>_. None) d s = (Inr (answerOf l rq t m now s d), s')"
    and "ready s'" and "clock s \<le> now" and "now \<le> clock s'"
    and "view s' = (if active l rq d then (view s)(keyForDimension l d := effectOf l rq t m now s d) else view s)"
proof (cases "active l rq d")
  case False
  show thesis by (rule that [of "clock s" s]) (use False assms in \<open>auto simp: checkDimension_def active_def answerOf_def\<close>)
next
  case True
  obtain now s' where "CheckLimit lim (\<lambda>_. None) (keyForDimension l d) (dimRate l d) (dimUnits rq d) t rid m s
      = (Inr (answer now (dimRate l d) (dimUnits rq d) t m (view s (keyForDimension l d))), s')"
    "ready s'" "view s' = (view s)(keyForDimension l d := effectOf l rq t m now s d)" "clock s \<le> now" "now \<le> clock s'"
    using check_ready [OF assms] unfolding effectOf_def by blast
  then show thesis by (intro that [of now s']) (use True in \<open>auto simp: checkDimension_def active_def answerOf_def\<close>)
qed

text \<open>What a run of the checks of \<open>ds\<close> does to the state: every one has its instant in it.\<close>

definition checked :: "ResourceLimit \<Rightarrow> ResourceRequest \<Rightarrow> bool \<Rightarrow> bool \<Rightarrow> LimitDimension set \<Rightarrow> (LimitDimension \<Rightarrow> i64) \<Rightarrow> 's \<Rightarrow> 's \<Rightarrow> bool" where
  "checked l rq t m ds at s s' \<longleftrightarrow> ready s' \<and> clock s \<le> clock s' \<and>
     (\<forall>d \<in> ds. clock s \<le> at d \<and> at d \<le> clock s' \<and>
        (active l rq d \<longrightarrow> view s' (keyForDimension l d) = effectOf l rq t m (at d) s d)) \<and>
     (\<forall>k. (\<forall>d \<in> ds. active l rq d \<longrightarrow> k \<noteq> keyForDimension l d) \<longrightarrow> view s' k = view s k)"

lemma runGroup_ready:
  assumes "ready s" and "distinct (map fst sched)"
  shows "\<exists>at s'. runGroup (checkDimension lim l rq t rid m) (\<lambda>_. None) sched None res s =
      ((None, \<lambda>d. if d \<in> set (map fst sched) \<and> active l rq d then answerOf l rq t m (at d) s d else res d), s') \<and>
    checked l rq t m (set (map fst sched)) at s s'"
  using assms
proof (induction sched arbitrary: s res)
  case Nil
  then show ?case by (intro exI [of _ "\<lambda>_. 0"] exI [of _ s]) (simp add: fun_eq_iff checked_def)
next
  case (Cons p sched)
  obtain d sees where p: "p = (d, sees)" by (cases p)
  obtain now s1 where s1: "checkDimension lim l rq t rid m (\<lambda>_. None) d s = (Inr (answerOf l rq t m now s d), s1)"
    and r1: "ready s1" and t1: "clock s \<le> now" "now \<le> clock s1"
    and u1: "view s1 = (if active l rq d then (view s)(keyForDimension l d := effectOf l rq t m now s d) else view s)"
    by (rule checkDimension_ready [OF Cons.prems(1)])
  have v1: "view s1 (keyForDimension l d') = view s (keyForDimension l d')" if "d' \<in> set (map fst sched)" for d'
    using that Cons.prems(2) p u1 by (auto simp: keyForDimension_eq)
  have same: "answerOf l rq t m c s1 d' = answerOf l rq t m c s d'" "effectOf l rq t m c s1 d' = effectOf l rq t m c s d'"
    if "d' \<in> set (map fst sched)" for d' c
    using v1 [OF that] by (simp_all add: answerOf_def effectOf_def)
  have dist: "distinct (map fst sched)" and new: "d \<notin> set (map fst sched)"
    using Cons.prems(2) p by auto
  define res1 where "res1 = (if active l rq d then res(d := answerOf l rq t m now s d) else res)"
  have run: "runGroup (checkDimension lim l rq t rid m) (\<lambda>_. None) (p # sched) None res s
      = runGroup (checkDimension lim l rq t rid m) (\<lambda>_. None) sched None res1 s1"
    using s1 by (simp add: p res1_def answerOf_def)
  obtain at s2 where s2: "runGroup (checkDimension lim l rq t rid m) (\<lambda>_. None) sched None res1 s1 =
      ((None, \<lambda>d. if d \<in> set (map fst sched) \<and> active l rq d then answerOf l rq t m (at d) s1 d else res1 d), s2)"
    and c2: "checked l rq t m (set (map fst sched)) at s1 s2"
    using Cons.IH [OF r1 dist, of res1] by blast
  let ?at = "at(d := now)"
  have keep: "view s2 (keyForDimension l d) = view s1 (keyForDimension l d)"
    using c2 new unfolding checked_def by (metis keyForDimension_eq)
  have mem: "set (map fst (p # sched)) = insert d (set (map fst sched))" by (simp add: p)
  have "runGroup (checkDimension lim l rq t rid m) (\<lambda>_. None) (p # sched) None res s =
      ((None, \<lambda>d. if d \<in> set (map fst (p # sched)) \<and> active l rq d then answerOf l rq t m (?at d) s d else res d), s2)"
    unfolding run s2 mem using same new by (auto simp: fun_eq_iff res1_def)
  moreover have "checked l rq t m (set (map fst (p # sched))) ?at s s2"
    unfolding checked_def mem
  proof (intro conjI ballI allI impI)
    show "ready s2" "clock s \<le> clock s2" using c2 t1 by (auto simp: checked_def)
    fix e assume e: "e \<in> insert d (set (map fst sched))"
    show "clock s \<le> ?at e" "?at e \<le> clock s2" using c2 t1 e by (auto simp: checked_def)
    assume "active l rq e"
    then show "view s2 (keyForDimension l e) = effectOf l rq t m (?at e) s e"
      using c2 e new keep u1 same by (auto simp: checked_def)
  next
    fix k assume k: "\<forall>d \<in> insert d (set (map fst sched)). active l rq d \<longrightarrow> k \<noteq> keyForDimension l d"
    then have "view s2 k = view s1 k" using c2 by (auto simp: checked_def)
    then show "view s2 k = view s k" using k u1 by auto
  qed
  ultimately show ?case by blast
qed

text \<open>The whole check, whatever the schedule.\<close>

lemma doResourceLimit_ready:
  assumes "ready s" and "schedule_ok sched"
  shows "\<exists>at s'. doResourceLimit lim (\<lambda>_. None) l rq t rid m sched s = (Inr (\<lambda>d. answerOf l rq t m (at d) s d), s') \<and>
    checked l rq t m UNIV at s s'"
proof -
  have d: "distinct (map fst sched)" and all: "set (map fst sched) = UNIV"
    using assms(2) allLimitDimensions_UNIV by (auto simp: schedule_ok_def)
  obtain at s' where "runGroup (checkDimension lim l rq t rid m) (\<lambda>_. None) sched None Map.empty s =
      ((None, \<lambda>d. if d \<in> UNIV \<and> active l rq d then answerOf l rq t m (at d) s d else None), s')"
    "checked l rq t m UNIV at s s'"
    using runGroup_ready [OF assms(1) d, of l rq t rid m Map.empty] unfolding all by blast
  moreover have "(\<lambda>d. if d \<in> UNIV \<and> active l rq d then answerOf l rq t m (at d) s d else None) = (\<lambda>d. answerOf l rq t m (at d) s d)"
    by (simp add: fun_eq_iff answerOf_def)
  ultimately show ?thesis by (auto simp: doResourceLimit_def)
qed

end

section \<open>The package's limiter keeps the contract\<close>

text \<open>The bucket transition of a check at a time, as a pair of the value and the new state.\<close>

definition transition ::
    "i64 \<Rightarrow> RateLimit \<Rightarrow> i64 \<Rightarrow> bool \<Rightarrow> bool \<Rightarrow> bucketState option \<Rightarrow> i64 \<times> bucketState option" where
  "transition now l n t m b =
     (case bucketStep (limiterModeOf t m) (AllowDebt l) (Limit l) (quot64 (Period l) 1000000) n b now of
        Some (v, Some nb) \<Rightarrow> (v, Some nb)
      | Some (v, None) \<Rightarrow> (v, b)
      | None \<Rightarrow> (0, b))"

definition answerAt :: "i64 \<Rightarrow> RateLimit \<Rightarrow> i64 \<Rightarrow> bool \<Rightarrow> bool \<Rightarrow> bucketState option \<Rightarrow> RateLimitResult" where
  "answerAt now l n t m b =
     \<lparr>CurrentValue = fst (transition now l n t m b), Requested = n, ResultRateLimit = l, reverted = False\<rparr>"

definition effectAt ::
    "i64 \<Rightarrow> RateLimit \<Rightarrow> i64 \<Rightarrow> bool \<Rightarrow> bool \<Rightarrow> bucketState option \<Rightarrow> bucketState option" where
  "effectAt now l n t m b = snd (transition now l n t m b)"

lemma observedValue_total: "\<exists>v. observedValue rate p b now = Some v"
proof -
  have "\<exists>q. (if p > 0 then mulDivInt64 e rate p else Some 0) = Some q" for e
    using mulDivInt64_no_panic [of e rate p] by auto
  then show ?thesis unfolding observedValue_def Let_def by (smt (verit) option.simps(5))
qed

lemma bucketStep_total: "\<exists>v w. bucketStep mode debt rate p n b now = Some (v, w)"
  using observedValue_total [of rate p b now] by (auto simp: bucketStep_def Let_def)

lemma bucketStep_test: "bucketStep limiterModeTestOnly debt rate p n b now \<noteq> Some (v, Some nb)"
  by (auto simp: bucketStep_def Let_def split: option.splits if_splits)

lemma effectAt_test: "effectAt now l n True m b = b"
  using bucketStep_test
  by (auto simp: effectAt_def transition_def limiterModeOf_def split: option.splits)

text \<open>
  A limiter whose store answers and is not written by others while it runs. The clock
  may move at every call, \<open>Send\<close> of the synchronizer may do anything but write the store.
\<close>

locale answering_limiter =
  fixes rl :: "'s rateLimiter"
    and view :: "'s \<Rightarrow> string \<Rightarrow> bucketState option"
    and ready :: "'s \<Rightarrow> bool"
    and clock :: "'s \<Rightarrow> i64"
  assumes get_answers: "ready s \<Longrightarrow> \<exists>s'. GetBucket (store rl) k s = (Inr (view s k), s') \<and>
          ready s' \<and> view s' = view s \<and> clock s \<le> clock s'"
    and now_answers: "ready s \<Longrightarrow> nowMs rl s = (now, s') \<Longrightarrow>
          ready s' \<and> view s' = view s \<and> clock s \<le> now \<and> now \<le> clock s'"
    and cas_answers: "ready s \<Longrightarrow> \<exists>s'. CompareAndSetBucket (store rl) k (view s k) b ttl s = (Inr True, s') \<and>
          ready s' \<and> view s' = (view s)(k := Some b) \<and> clock s \<le> clock s'"
    and send_keeps: "ready s \<Longrightarrow> SendEvent (synchronizer rl) ev s = (r, s') \<Longrightarrow>
          ready s' \<and> view s' = view s \<and> clock s \<le> clock s'"
    and attempts: "0 < casMaxAttempts rl"
begin

lemma attempt_answers:
  assumes "ready s"
  shows "\<exists>now s'. leakyAttempt rl k (Limit l) (Period l) n (limiterModeOf t m) (AllowDebt l) s =
      (Inr (fst (transition now l n t m (view s k)), True), s') \<and> ready s' \<and>
    view s' = (view s)(k := snd (transition now l n t m (view s k))) \<and> clock s \<le> now \<and> now \<le> clock s'"
proof -
  obtain s1 where g: "GetBucket (store rl) k s = (Inr (view s k), s1)" "ready s1" "view s1 = view s" "clock s \<le> clock s1"
    using get_answers [OF assms] by blast
  obtain now s2 where c: "nowMs rl s1 = (now, s2)" by force
  note n = now_answers [OF g(2) c]
  obtain v w where bs: "bucketStep (limiterModeOf t m) (AllowDebt l) (Limit l) (quot64 (Period l) 1000000) n (view s k) now
      = Some (v, w)" using bucketStep_total by blast
  show ?thesis
  proof (cases w)
    case None
    then show ?thesis using g c n bs
      by (intro exI [of _ now] exI [of _ s2]) (auto simp: leakyAttempt_def transition_def)
  next
    case (Some nb)
    obtain s3 where "CompareAndSetBucket (store rl) k (view s2 k) nb (bucketTTL (Period l) (AllowDebt l)) s2 = (Inr True, s3)"
        "ready s3" "view s3 = (view s2)(k := Some nb)" "clock s2 \<le> clock s3"
      using cas_answers n by blast
    then show ?thesis using g c n bs Some
      by (intro exI [of _ now] exI [of _ s3]) (auto simp: leakyAttempt_def transition_def)
  qed
qed

lemma leakyBucket_answers:
  assumes "ready s"
  shows "\<exists>now s'. leakyBucket rl (\<lambda>_. None) k (Limit l) (Period l) n t m (AllowDebt l) s =
      (Inr (fst (transition now l n t m (view s k))), s') \<and> ready s' \<and>
    view s' = (view s)(k := snd (transition now l n t m (view s k))) \<and> clock s \<le> now \<and> now \<le> clock s'"
proof -
  obtain i where i: "nat (casMaxAttempts rl) = Suc i" using attempts by (cases "nat (casMaxAttempts rl)") auto
  from attempt_answers [OF assms, of k l n t m] show ?thesis
    by (auto simp: leakyBucket_def casRetry_def i)
qed

lemma checkLimit_answers:
  assumes "ready s"
  shows "\<exists>now s'. CheckLimit (rateLimiterIface rl) (\<lambda>_. None) k l n t rid m s = (Inr (answerAt now l n t m (view s k)), s') \<and> ready s' \<and>
    view s' = (view s)(k := effectAt now l n t m (view s k)) \<and> clock s \<le> now \<and> now \<le> clock s'"
proof -
  obtain now s1 where b: "leakyBucket rl (\<lambda>_. None) k (Limit l) (Period l) n t m (AllowDebt l) s =
      (Inr (fst (transition now l n t m (view s k))), s1)" "ready s1"
    "view s1 = (view s)(k := effectAt now l n t m (view s k))" "clock s \<le> now" "now \<le> clock s1"
    using leakyBucket_answers [OF assms] unfolding effectAt_def by blast
  let ?a = "answerAt now l n t m (view s k)"
  obtain r s2 where e: "SendEvent (synchronizer rl) \<lparr>EventKey = k, EventResult = ?a, EventRequestID = rid, EventMustConsume = m\<rparr> s1 = (r, s2)"
    by force
  show ?thesis
    using b e send_keeps [OF b(2) e]
    by (cases "shouldSynchronizeRateLimitEvent t m (Some ?a)")
      (auto simp: rateLimiterIface_def CheckLimitOf_def checkLimit_def Let_def answerAt_def intro: exI [of _ now])
qed

end

sublocale answering_limiter \<subseteq> local: local_limiter "rateLimiterIface rl" view ready clock answerAt effectAt
  by unfold_locales (rule checkLimit_answers)

text \<open>
  The limiter over the in-process store, at one instant, and with a clock that moves at every
  reading and a synchronizer that keeps the events.
\<close>

definition fake_ready :: "fakeStore \<Rightarrow> bool" where
  "fake_ready f \<longleftrightarrow> \<not> failGet f \<and> \<not> failCAS f \<and> forcedMismatches f = 0"

interpretation fr: answering_limiter "fake_limiter now fo" fake_view fake_ready "\<lambda>_. now" for now fo
  by unfold_locales (auto simp: fake_ready_def fake_defs nopSynchronizer_def fun_eq_iff split: if_splits)

type_synonym tickingStore = "fakeStore \<times> i64 \<times> RateLimitEvent list"

definition onStore :: "(fakeStore \<Rightarrow> 'r \<times> fakeStore) \<Rightarrow> tickingStore \<Rightarrow> 'r \<times> tickingStore" where
  "onStore f s = (case f (fst s) of (r, x) \<Rightarrow> (r, x, snd s))"

definition ticking_limiter :: "tickingStore rateLimiter" where
  "ticking_limiter =
     \<lparr>store = \<lparr>GetBucket = (\<lambda>k. onStore (GetBucket fake_store k)),
               CompareAndSetBucket = (\<lambda>k e n ttl. onStore (CompareAndSetBucket fake_store k e n ttl)),
               DeleteKeys = (\<lambda>ks. onStore (DeleteKeys fake_store ks))\<rparr>,
      failOpen = False, synchronizer = \<lparr>SendEvent = (\<lambda>ev (f, c, evs). (Inr (), f, c, evs @ [ev]))\<rparr>, casMaxAttempts = 16,
      casInitialWait = 50000, casMaxWait = 5000000, nowMs = (\<lambda>(f, c, evs). (c, f, c + 1, evs)), sleep = None,
      randInt64N = (\<lambda>n s. (n - 1, s))\<rparr>"

interpretation tk: answering_limiter ticking_limiter "\<lambda>s. fake_view (fst s)" "\<lambda>s. fake_ready (fst s)" "\<lambda>s. fst (snd s)"
  by unfold_locales
    (auto simp: ticking_limiter_def onStore_def fake_ready_def fake_defs fun_eq_iff split: if_splits prod.splits)

section \<open>What the group keeps\<close>

lemma runGroup_keeps:
  assumes "\<And>c d x r y. P x \<Longrightarrow> body c d x = (r, y) \<Longrightarrow> P y" and "P s"
    and "runGroup body ctx sched err res s = (out, s')"
  shows "P s'"
  using assms(2,3)
proof (induction sched arbitrary: err res s)
  case Nil
  then show ?case by simp
next
  case (Cons p sched)
  obtain d sees where p: "p = (d, sees)" by (cases p)
  let ?c = "if err \<noteq> None \<and> sees then cancelledCtx else ctx"
  obtain r s1 where b: "body ?c d s = (r, s1)" by (cases "body ?c d s")
  have "P s1" by (rule assms(1) [OF Cons.prems(1) b])
  moreover from Cons.prems(2) b p obtain err1 res1 where "runGroup body ctx sched err1 res1 s1 = (out, s')"
    by (cases r) (auto split: option.splits)
  ultimately show ?case by (rule Cons.IH)
qed

lemma doResourceLimit_keeps:
  assumes "\<And>c d x r y. P x \<Longrightarrow> checkDimension lim l rq t rid m c d x = (r, y) \<Longrightarrow> P y" and "P s"
    and "doResourceLimit lim ctx l rq t rid m sched s = (out, s')"
  shows "P s'"
proof -
  obtain z where z: "runGroup (checkDimension lim l rq t rid m) ctx sched None Map.empty s = (z, s')"
    using assms(3) by (auto simp: doResourceLimit_def split: prod.splits option.splits)
  show ?thesis by (rule runGroup_keeps [where P = P, OF _ assms(2) z]) (rule assms(1))
qed

section \<open>Errors of the group\<close>

lemma runGroup_error:
  assumes "runGroup body ctx sched err res s = ((Some e, res'), s')" and "err \<noteq> Some e"
  shows "err = None \<and> (\<exists>d x x'. d \<in> set (map fst sched) \<and> body ctx d x = (Inl e, x'))"
  using assms
proof (induction sched arbitrary: err res s)
  case Nil
  then show ?case by simp
next
  case (Cons p sched)
  obtain d sees where p: "p = (d, sees)" by (cases p)
  obtain r s1 where b: "body (if err \<noteq> None \<and> sees then cancelledCtx else ctx) d s = (r, s1)"
    by (cases "body (if err \<noteq> None \<and> sees then cancelledCtx else ctx) d s")
  show ?case
  proof (cases "err = None \<and> r = Inl e")
    case True
    with b p show ?thesis by auto
  next
    case False
    define err1 where "err1 = (case r of Inl e' \<Rightarrow> if err = None then Some e' else err | Inr _ \<Rightarrow> err)"
    have "err1 \<noteq> Some e" using False Cons.prems(2) by (auto simp: err1_def split: sum.splits)
    moreover from Cons.prems(1) b p obtain res1 where
      "runGroup body ctx sched err1 res1 s1 = ((Some e, res'), s')"
      by (cases r) (auto simp: err1_def split: option.splits)
    ultimately show ?thesis using Cons.IH [of err1 res1 s1] p
      by (auto simp: err1_def split: sum.splits if_splits)
  qed
qed

section \<open>Properties\<close>

text \<open>
  The twenty limits: the key's suffix, the limit, the length of its period in seconds and the units a request asks of it.
\<close>

definition limitTable :: "ResourceLimit \<Rightarrow> ResourceRequest \<Rightarrow> (LimitDimension \<times> string \<times> i64 \<times> i64 \<times> i64) list" where
  "limitTable l rq =
     (let requests = rr_Requests rq; input = rr_InputTokens rq; output = rr_OutputTokens rq; both = add64 input output
      in [(RequestsPerMinute, ''requests_minute'', rl_RequestsPerMinute l, 60, requests),
          (RequestsPerDay, ''requests_day'', rl_RequestsPerDay l, 86400, requests),
          (TokensPerSecond, ''tokens_second'', rl_TokensPerSecond l, 1, both),
          (TokensPerMinute, ''tokens_minute'', rl_TokensPerMinute l, 60, both),
          (TokensPerHour, ''tokens_hour'', rl_TokensPerHour l, 3600, both),
          (TokensPerDay, ''tokens_day'', rl_TokensPerDay l, 86400, both),
          (TokensPerWeek, ''tokens_week'', rl_TokensPerWeek l, 604800, both),
          (TokensPerMonth, ''tokens_month'', rl_TokensPerMonth l, 2592000, both),
          (InputTokensPerSecond, ''input_tokens_second'', rl_InputTokensPerSecond l, 1, input),
          (InputTokensPerMinute, ''input_tokens_minute'', rl_InputTokensPerMinute l, 60, input),
          (InputTokensPerHour, ''input_tokens_hour'', rl_InputTokensPerHour l, 3600, input),
          (InputTokensPerDay, ''input_tokens_day'', rl_InputTokensPerDay l, 86400, input),
          (InputTokensPerWeek, ''input_tokens_week'', rl_InputTokensPerWeek l, 604800, input),
          (InputTokensPerMonth, ''input_tokens_month'', rl_InputTokensPerMonth l, 2592000, input),
          (OutputTokensPerSecond, ''output_tokens_second'', rl_OutputTokensPerSecond l, 1, output),
          (OutputTokensPerMinute, ''output_tokens_minute'', rl_OutputTokensPerMinute l, 60, output),
          (OutputTokensPerHour, ''output_tokens_hour'', rl_OutputTokensPerHour l, 3600, output),
          (OutputTokensPerDay, ''output_tokens_day'', rl_OutputTokensPerDay l, 86400, output),
          (OutputTokensPerWeek, ''output_tokens_week'', rl_OutputTokensPerWeek l, 604800, output),
          (OutputTokensPerMonth, ''output_tokens_month'', rl_OutputTokensPerMonth l, 2592000, output)])"

lemma limitTable_rows:
  "(d, suffix, limit, secs, units) \<in> set (limitTable l rq) \<longleftrightarrow>
     suffix = dimension_name d \<and> limit = dimLimit l d \<and> secs * 1000000000 = dimPeriod d \<and> units = dimUnits rq d"
  by (cases d) (auto simp: limitTable_def Let_def time_defs)

lemma limitTable_all: "\<exists>suffix limit secs units. (d, suffix, limit, secs, units) \<in> set (limitTable l rq)"
  by (cases d) (auto simp: limitTable_def Let_def)

text \<open>
  C30. The concurrent check of a resource limit is deterministic. Take the package's limiter over any
  store that answers and that nobody else writes meanwhile, with any synchronizer that leaves the store
  alone and a clock that may move at every reading. However the goroutines of the dimensions are
  scheduled, \<open>doResourceLimit\<close> answers for each of the twenty limits that is set and of which units are
  requested what the bucket transition decides, at an instant within the check, on the bucket the
  limit's key had before; it moves that bucket by the transition, answers nothing for the other
  limits, and leaves every other key alone.
\<close>

theorem doResourceLimit_deterministic:
  assumes "answering_limiter rl view ready clock" and "ready s" and "schedule_ok sched"
  shows "\<exists>r s' at. doResourceLimit (rateLimiterIface rl) (\<lambda>_. None) l rq t rid m sched s = (Inr r, s') \<and>
    (\<forall>(d, suffix, limit, secs, units) \<in> set (limitTable l rq).
       let key = rl_SubjectKey l @ '':'' @ suffix; rate = \<lparr>Limit = limit, Period = secs * 1000000000, AllowDebt = rl_AllowDebt l\<rparr>
       in if limit \<noteq> 0 \<and> units \<noteq> 0
          then clock s \<le> at d \<and> at d \<le> clock s' \<and> r d = Some (answerAt (at d) rate units t m (view s key)) \<and>
            view s' key = effectAt (at d) rate units t m (view s key)
          else r d = None \<and> view s' key = view s key) \<and>
    (\<forall>k. (\<forall>(d, suffix, x) \<in> set (limitTable l rq). k \<noteq> rl_SubjectKey l @ '':'' @ suffix) \<longrightarrow> view s' k = view s k)"
proof -
  have lim: "local_limiter (rateLimiterIface rl) view ready clock answerAt effectAt"
    by (intro local_limiter.intro answering_limiter.checkLimit_answers [OF assms(1)])
  obtain at s' where run: "doResourceLimit (rateLimiterIface rl) (\<lambda>_. None) l rq t rid m sched s =
      (Inr (\<lambda>d. local_limiter.answerOf view answerAt l rq t m (at d) s d), s')"
    and c: "local_limiter.checked view ready clock effectAt l rq t m UNIV at s s'"
    using local_limiter.doResourceLimit_ready [OF lim assms(2,3)] by blast
  note defs = local_limiter.answerOf_def [OF lim] local_limiter.effectOf_def [OF lim] local_limiter.checked_def [OF lim]
  note c = c [unfolded defs, simplified]
  have row: "let key = rl_SubjectKey l @ '':'' @ suffix; rate = \<lparr>Limit = limit, Period = secs * 1000000000, AllowDebt = rl_AllowDebt l\<rparr>
       in if limit \<noteq> 0 \<and> units \<noteq> 0
          then clock s \<le> at d \<and> at d \<le> clock s' \<and>
            local_limiter.answerOf view answerAt l rq t m (at d) s d = Some (answerAt (at d) rate units t m (view s key)) \<and>
            view s' key = effectAt (at d) rate units t m (view s key)
          else local_limiter.answerOf view answerAt l rq t m (at d) s d = None \<and> view s' key = view s key"
    if "(d, suffix, limit, secs, units) \<in> set (limitTable l rq)" for d suffix limit secs units
  proof -
    from that have r: "suffix = dimension_name d" "limit = dimLimit l d" "secs * 1000000000 = dimPeriod d" "units = dimUnits rq d"
      by (simp_all add: limitTable_rows)
    have key: "rl_SubjectKey l @ '':'' @ suffix = keyForDimension l d" by (simp add: keyForDimension_def r)
    have rate: "\<lparr>Limit = limit, Period = secs * 1000000000, AllowDebt = rl_AllowDebt l\<rparr> = dimRate l d" by (simp add: dimRate_def r)
    show ?thesis
    proof (cases "active l rq d")
      case True
      then show ?thesis unfolding Let_def key rate using c by (auto simp: defs active_def r)
    next
      case False
      then have "\<forall>e. active l rq e \<longrightarrow> keyForDimension l d \<noteq> keyForDimension l e" by (auto simp: keyForDimension_eq)
      then have "view s' (keyForDimension l d) = view s (keyForDimension l d)" using c by blast
      with False show ?thesis unfolding Let_def key rate by (auto simp: defs active_def r)
    qed
  qed
  have other: "view s' k = view s k" if k: "\<forall>(d, suffix, x) \<in> set (limitTable l rq). k \<noteq> rl_SubjectKey l @ '':'' @ suffix" for k
  proof -
    have "k \<noteq> keyForDimension l d" for d
    proof -
      obtain x where "(d, dimension_name d, x) \<in> set (limitTable l rq)"
        using limitTable_all [of d l rq] by (metis limitTable_rows)
      with k show ?thesis by (auto simp: keyForDimension_def)
    qed
    with c show ?thesis by blast
  qed
  show ?thesis by (intro exI conjI, rule run, clarify, rule row, assumption, use other in blast)
qed

text \<open>One request and nine tokens against limits of five requests a minute and a hundred tokens a day.\<close>

theorem doResourceLimit_deterministic_witness:
  "\<exists>r s'. doResourceLimit (rateLimiterIface ticking_limiter) (\<lambda>_. None)
      (zeroResourceLimit\<lparr>rl_SubjectKey := ''org'', rl_RequestsPerMinute := 5, rl_TokensPerDay := 100\<rparr>)
      \<lparr>rr_Requests = 1, rr_InputTokens = 4, rr_OutputTokens = 5\<rparr> False ''id'' True
      (map (\<lambda>d. (d, True)) allLimitDimensions) (newFakeStore, 1000, []) = (Inr r, s') \<and>
    r InputTokensPerDay = None \<and> map_option Value (fake_view (fst s') ''org:tokens_day'') = Some 91"
  (is "\<exists>r f'. doResourceLimit ?lim ?ctx ?l ?rq False ?id True ?sched ?s = _ \<and> _")
proof -
  have ready: "fake_ready (fst ?s)" by (simp add: fake_ready_def newFakeStore_def)
  have day: "(TokensPerDay, ''tokens_day'', 100, 86400, 9) \<in> set (limitTable ?l ?rq)"
    and input: "(InputTokensPerDay, ''input_tokens_day'', 0, 86400, 4) \<in> set (limitTable ?l ?rq)"
    by (simp_all add: limitTable_rows time_defs zeroResourceLimit_def add64_id in_i64_def)
  obtain r s' at where run: "doResourceLimit ?lim ?ctx ?l ?rq False ?id True ?sched ?s = (Inr r, s')"
    and rows: "\<forall>(d, suffix, limit, secs, units) \<in> set (limitTable ?l ?rq).
       let key = rl_SubjectKey ?l @ '':'' @ suffix; rate = \<lparr>Limit = limit, Period = secs * 1000000000, AllowDebt = rl_AllowDebt ?l\<rparr>
       in if limit \<noteq> 0 \<and> units \<noteq> 0
          then fst (snd ?s) \<le> at d \<and> at d \<le> fst (snd s') \<and> r d = Some (answerAt (at d) rate units False True (fake_view (fst ?s) key)) \<and>
            fake_view (fst s') key = effectAt (at d) rate units False True (fake_view (fst ?s) key)
          else r d = None \<and> fake_view (fst s') key = fake_view (fst ?s) key"
    using doResourceLimit_deterministic [OF tk.answering_limiter_axioms ready schedule_of_list, of ?l ?rq False ?id True "\<lambda>_. True"] by blast
  have none: "fake_view (fst ?s) k = None" for k by (simp add: newFakeStore_def fake_view_def)
  have step: "effectAt c \<lparr>Limit = 100, Period = 86400 * 1000000000, AllowDebt = False\<rparr> 9 False True None = Some \<lparr>Value = 91, LastRefill = c\<rparr>" for c
  proof -
    have "sub64 c c = 0" by (simp add: sub64_id in_i64_def)
    moreover have "mulDivInt64 0 100 86400000 = Some 0" by (simp add: mulDivInt64_eq)
    ultimately have "observedValue 100 86400000 None c = Some 100"
      by (simp add: observedValue_def Let_def mul64_id saturatingSub_def add64_id sub64_id in_i64_def)
    moreover have "saturatingConsume 100 9 0 100 = 91"
      by (simp add: saturatingConsume_def saturatingSub_def sub64_id in_i64_def)
    ultimately have "bucketStep limiterModeMustConsume False 100 86400000 9 None c = Some (100, Some \<lparr>Value = 91, LastRefill = c\<rparr>)"
      by (simp add: bucketStep_def)
    then show ?thesis by (simp add: effectAt_def transition_def limiterModeOf_def quot64_nonneg)
  qed
  from bspec [OF rows input] have "r InputTokensPerDay = None" by (simp add: Let_def)
  moreover from bspec [OF rows day] have "fake_view (fst s') ''org:tokens_day'' =
      effectAt (at TokensPerDay) \<lparr>Limit = 100, Period = 86400 * 1000000000, AllowDebt = False\<rparr> 9 False True None"
    unfolding none by (simp add: zeroResourceLimit_def Let_def)
  ultimately show ?thesis using run step by auto
qed

text \<open>
  The error of a failed check is the first one: it was returned by the check of some dimension
  with the caller's own context, never the cancellation the group passes to the checks after it.
\<close>

lemma doResourceLimit_first_error:
  assumes "doResourceLimit lim ctx l rq t rid m sched s = (Inl e, s')"
  shows "\<exists>d x x'. d \<in> set (map fst sched) \<and>
     CheckLimit lim ctx (keyForDimension l d) (dimRate l d) (dimUnits rq d) t rid m x = (Inl e, x')"
proof -
  from assms obtain res where
    "runGroup (checkDimension lim l rq t rid m) ctx sched None Map.empty s = ((Some e, res), s')"
    by (auto simp: doResourceLimit_def split: prod.splits option.splits)
  from runGroup_error [OF this] obtain d x x' where
    "d \<in> set (map fst sched)" "checkDimension lim l rq t rid m ctx d x = (Inl e, x')" by auto
  then show ?thesis
    by (auto simp: checkDimension_def split: if_splits prod.splits sum.splits)
qed

text \<open>A store whose reads fail: the check of the only limited dimension reports it.\<close>

end
