(* ===== verification/TokenLimits.thy ===== *)
theory TokenLimits
  imports Resources
begin

text \<open>
  How the gateway finds the limits of a request (\<open>api/ratelimit.go\<close>): the parser of token rate
  limits such as \<open>1000-S,20000-M\<close>, the resolvers for the caller's function limit and the account
  limit and their composition, and the subject keys of the buckets (\<open>api/auth_middleware.go\<close>).
\<close>

section \<open>Token rate limits\<close>

record parsedTokenRateLimit =
  tokensPerSecond :: i64
  tokensPerMinute :: i64
  tokensPerHour :: i64
  tokensPerDay :: i64
  tokensPerWeek :: i64
  tokensPerMonth :: i64

definition zeroTokenRateLimit :: parsedTokenRateLimit where
  "zeroTokenRateLimit =
     \<lparr>tokensPerSecond = 0, tokensPerMinute = 0, tokensPerHour = 0, tokensPerDay = 0, tokensPerWeek = 0,
      tokensPerMonth = 0\<rparr>"

definition parsedEmpty :: "parsedTokenRateLimit \<Rightarrow> bool" where
  "parsedEmpty p \<longleftrightarrow> p = zeroTokenRateLimit"

datatype rate_level = LevelS | LevelM | LevelH | LevelD | LevelW | LevelMO

fun level_code :: "rate_level \<Rightarrow> string" where
  "level_code LevelS = ''S''"
| "level_code LevelM = ''M''"
| "level_code LevelH = ''H''"
| "level_code LevelD = ''D''"
| "level_code LevelW = ''W''"
| "level_code LevelMO = ''MO''"

fun set_level :: "rate_level \<Rightarrow> i64 \<Rightarrow> parsedTokenRateLimit \<Rightarrow> parsedTokenRateLimit" where
  "set_level LevelS v p = p\<lparr>tokensPerSecond := v\<rparr>"
| "set_level LevelM v p = p\<lparr>tokensPerMinute := v\<rparr>"
| "set_level LevelH v p = p\<lparr>tokensPerHour := v\<rparr>"
| "set_level LevelD v p = p\<lparr>tokensPerDay := v\<rparr>"
| "set_level LevelW v p = p\<lparr>tokensPerWeek := v\<rparr>"
| "set_level LevelMO v p = p\<lparr>tokensPerMonth := v\<rparr>"

fun get_level :: "rate_level \<Rightarrow> parsedTokenRateLimit \<Rightarrow> i64" where
  "get_level LevelS p = tokensPerSecond p"
| "get_level LevelM p = tokensPerMinute p"
| "get_level LevelH p = tokensPerHour p"
| "get_level LevelD p = tokensPerDay p"
| "get_level LevelW p = tokensPerWeek p"
| "get_level LevelMO p = tokensPerMonth p"

datatype parse_error =
    EmptyFragment
  | InvalidFragment string
  | InvalidValue string
  | NotPositive
  | DuplicateLevel rate_level
  | UnsupportedLevel string
  | ModelLimitErr string parse_error
  | AccountInputErr parse_error
  | AccountOutputErr parse_error

text \<open>The cases of the \<open>switch\<close> over the level part.\<close>

definition level_of :: "string \<Rightarrow> rate_level option" where
  "level_of s =
     (if s = ''S'' then Some LevelS else if s = ''M'' then Some LevelM else if s = ''H'' then Some LevelH
      else if s = ''D'' then Some LevelD else if s = ''W'' then Some LevelW
      else if s = ''MO'' then Some LevelMO else None)"

text \<open>One round of the loop; the six \<open>saw\<close> flags are a set of levels.\<close>

definition parseFragment ::
    "string \<Rightarrow> rate_level set \<Rightarrow> parsedTokenRateLimit \<Rightarrow> parse_error + rate_level set \<times> parsedTokenRateLimit"
  where
  "parseFragment rawFragment saw parsed =
     (let fragment = TrimSpace rawFragment in
      if fragment = [] then Inl EmptyFragment
      else
        (let separator = LastIndex fragment CHR ''-'' in
         if separator \<le> 0 \<or> separator = int (length fragment) - 1 then Inl (InvalidFragment fragment)
         else
           (let valuePart = take (nat separator) fragment;
                levelPart = drop (nat separator + 1) fragment
            in case ParseInt (TrimSpace valuePart) of
                 None \<Rightarrow> Inl (InvalidValue valuePart)
               | Some value \<Rightarrow>
                   if value \<le> 0 then Inl NotPositive
                   else (case level_of (TrimSpace levelPart) of
                           None \<Rightarrow> Inl (UnsupportedLevel levelPart)
                         | Some lv \<Rightarrow>
                             if lv \<in> saw then Inl (DuplicateLevel lv)
                             else Inr (insert lv saw, set_level lv value parsed)))))"

fun parseFragments ::
    "string list \<Rightarrow> rate_level set \<Rightarrow> parsedTokenRateLimit \<Rightarrow> parse_error + parsedTokenRateLimit" where
  "parseFragments [] saw parsed = Inr parsed"
| "parseFragments (f # fs) saw parsed =
     (case parseFragment f saw parsed of
        Inl e \<Rightarrow> Inl e
      | Inr (saw', parsed') \<Rightarrow> parseFragments fs saw' parsed')"

definition parseTokenRateLimit :: "string \<Rightarrow> parse_error + parsedTokenRateLimit" where
  "parseTokenRateLimit raw =
     (if raw = [] then Inr zeroTokenRateLimit
      else parseFragments (Split raw CHR '','') {} zeroTokenRateLimit)"

section \<open>Resolvers\<close>

text \<open>The fields of \<open>requestctx.RequestContext\<close> and \<open>nvcf.ModelSpec\<close> that the resolvers read.\<close>

record ModelSpec =
  TokenRateLimit :: string

record RequestContext =
  rc_OrgID :: string
  rc_ProjectID :: string
  rc_RoutingKey :: string
  rc_Model :: string
  rc_ModelSpecs :: "string \<Rightarrow> ModelSpec option"
  rc_AccountInputTokenRateLimit :: string
  rc_AccountOutputTokenRateLimit :: string

type_synonym LimitResolver = "RequestContext option \<Rightarrow> string \<Rightarrow> parse_error + ResourceLimit list"

text \<open>A nil resolver in the list is skipped; the first error is returned.\<close>

fun CompositeLimitResolver :: "LimitResolver option list \<Rightarrow> LimitResolver" where
  "CompositeLimitResolver [] reqCtx endpoint = Inr []"
| "CompositeLimitResolver (None # r) reqCtx endpoint = CompositeLimitResolver r reqCtx endpoint"
| "CompositeLimitResolver (Some resolver # r) reqCtx endpoint =
     (case resolver reqCtx endpoint of
        Inl e \<Rightarrow> Inl e
      | Inr resolved \<Rightarrow>
          (case CompositeLimitResolver r reqCtx endpoint of
             Inl e \<Rightarrow> Inl e
           | Inr limits \<Rightarrow> Inr (resolved @ limits)))"

definition rateLimitSubjectKey :: "string \<Rightarrow> string \<Rightarrow> string \<Rightarrow> string" where
  "rateLimitSubjectKey rateLimitKey projectID routingKey =
     (if projectID \<noteq> [] then
        ''nvcf:'' @ rateLimitKey @ '':project:'' @ projectID @ '':routing_key:'' @ routingKey
      else ''nvcf:'' @ rateLimitKey @ '':routing_key:'' @ routingKey)"

definition scopedOrgLimit :: "ResourceLimit \<Rightarrow> string \<Rightarrow> string \<Rightarrow> ResourceLimit" where
  "scopedOrgLimit base orgID routingKey =
     base\<lparr>rl_SubjectKey := rateLimitSubjectKey orgID [] routingKey,
          rl_SubjectRepr := ''org `'' @ orgID @ ''` routing key `'' @ routingKey @ ''`'',
          rl_Level := LevelOrg\<rparr>"

definition scopedProjectLimit :: "ResourceLimit \<Rightarrow> string \<Rightarrow> string \<Rightarrow> string \<Rightarrow> ResourceLimit" where
  "scopedProjectLimit base orgID projectID routingKey =
     base\<lparr>rl_SubjectKey := rateLimitSubjectKey orgID projectID routingKey,
          rl_SubjectRepr := ''org `'' @ orgID @ ''` project `'' @ projectID @ ''` routing key `'' @ routingKey @ ''`'',
          rl_Level := LevelProject\<rparr>"

definition callerBaseLimit :: "string \<Rightarrow> parsedTokenRateLimit \<Rightarrow> ResourceLimit" where
  "callerBaseLimit routingKey p =
     zeroResourceLimit\<lparr>rl_SubjectKey := ''routing_key:'' @ routingKey,
       rl_SubjectRepr := ''routing key `'' @ routingKey @ ''`'', rl_Level := LevelFunction,
       rl_TokensPerSecond := tokensPerSecond p, rl_TokensPerMinute := tokensPerMinute p,
       rl_TokensPerHour := tokensPerHour p, rl_TokensPerDay := tokensPerDay p,
       rl_TokensPerWeek := tokensPerWeek p, rl_TokensPerMonth := tokensPerMonth p\<rparr>"

definition CallerLimitResolver :: LimitResolver where
  "CallerLimitResolver reqCtx endpoint =
     (case reqCtx of
        None \<Rightarrow> Inr []
      | Some rc \<Rightarrow>
          if rc_Model rc = [] \<or> rc_RoutingKey rc = [] \<or> rc_OrgID rc = [] then Inr []
          else (case rc_ModelSpecs rc (rc_Model rc) of
                  None \<Rightarrow> Inr []
                | Some spec \<Rightarrow>
                    if TokenRateLimit spec = [] then Inr []
                    else (case parseTokenRateLimit (TokenRateLimit spec) of
                            Inl e \<Rightarrow> Inl (ModelLimitErr (rc_Model rc) e)
                          | Inr parsedTokenLimits \<Rightarrow>
                              if parsedEmpty parsedTokenLimits then Inr []
                              else if rc_ProjectID rc \<noteq> [] then
                                Inr [scopedProjectLimit (callerBaseLimit (rc_RoutingKey rc) parsedTokenLimits)
                                       (rc_OrgID rc) (rc_ProjectID rc) (rc_RoutingKey rc)]
                              else if rc_OrgID rc \<noteq> [] then
                                Inr [scopedOrgLimit (callerBaseLimit (rc_RoutingKey rc) parsedTokenLimits)
                                       (rc_OrgID rc) (rc_RoutingKey rc)]
                              else Inr [])))"

definition accountLimit :: "string \<Rightarrow> parsedTokenRateLimit \<Rightarrow> parsedTokenRateLimit \<Rightarrow> ResourceLimit" where
  "accountLimit orgID i t =
     zeroResourceLimit\<lparr>rl_SubjectKey := ''nvcf:'' @ orgID, rl_SubjectRepr := ''account `'' @ orgID @ ''`'',
       rl_Level := LevelOrg, rl_AllowDebt := True,
       rl_InputTokensPerSecond := tokensPerSecond i, rl_InputTokensPerMinute := tokensPerMinute i,
       rl_InputTokensPerHour := tokensPerHour i, rl_InputTokensPerDay := tokensPerDay i,
       rl_InputTokensPerWeek := tokensPerWeek i, rl_InputTokensPerMonth := tokensPerMonth i,
       rl_OutputTokensPerSecond := tokensPerSecond t, rl_OutputTokensPerMinute := tokensPerMinute t,
       rl_OutputTokensPerHour := tokensPerHour t, rl_OutputTokensPerDay := tokensPerDay t,
       rl_OutputTokensPerWeek := tokensPerWeek t, rl_OutputTokensPerMonth := tokensPerMonth t\<rparr>"

definition AccountLimitResolver :: LimitResolver where
  "AccountLimitResolver reqCtx endpoint =
     (case reqCtx of
        None \<Rightarrow> Inr []
      | Some rc \<Rightarrow>
          if rc_OrgID rc = [] then Inr []
          else if rc_AccountInputTokenRateLimit rc = [] \<and> rc_AccountOutputTokenRateLimit rc = [] then Inr []
          else (case parseTokenRateLimit (rc_AccountInputTokenRateLimit rc) of
                  Inl e \<Rightarrow> Inl (AccountInputErr e)
                | Inr parsedInputTokenLimits \<Rightarrow>
                    (case parseTokenRateLimit (rc_AccountOutputTokenRateLimit rc) of
                       Inl e \<Rightarrow> Inl (AccountOutputErr e)
                     | Inr parsedOutputTokenLimits \<Rightarrow>
                         if parsedEmpty parsedInputTokenLimits \<and> parsedEmpty parsedOutputTokenLimits then Inr []
                         else Inr [accountLimit (rc_OrgID rc) parsedInputTokenLimits parsedOutputTokenLimits])))"

section \<open>Lemmas on the parser\<close>

lemma get_set_level: "get_level l (set_level l' v p) = (if l = l' then v else get_level l p)"
  by (cases l; cases l') simp_all

lemma get_level_zero [simp]: "get_level l zeroTokenRateLimit = 0"
  by (cases l) (simp_all add: zeroTokenRateLimit_def)

lemma level_of_code [simp]: "level_of (level_code l) = Some l"
  by (cases l) (simp_all add: level_of_def)

lemma level_code_chars:
  "CHR ''-'' \<notin> set (level_code l)" "CHR '','' \<notin> set (level_code l)" "level_code l \<noteq> []"
  "\<forall>c \<in> set (level_code l). \<not> is_space c"
  by (cases l; simp add: is_space_def)+

text \<open>The text of one rate.\<close>

definition render_rate :: "rate_level \<times> i64 \<Rightarrow> string" where
  "render_rate r = show_int (snd r) @ CHR ''-'' # level_code (fst r)"

lemma show_int_pos: "0 < v \<Longrightarrow> c \<in> set (show_int v) \<Longrightarrow> is_digit c"
  using show_nat_digits by (auto simp: show_int_def)

lemma show_int_nonempty [simp]: "show_int v \<noteq> []"
  by (simp add: show_int_def)

lemma render_rate_chars:
  assumes "0 < v"
  shows "CHR '','' \<notin> set (render_rate (l, v))" "TrimSpace (render_rate (l, v)) = render_rate (l, v)"
proof -
  have d: "\<forall>c \<in> set (show_int v). is_digit c" using show_int_pos [OF assms] by blast
  have comma: "\<not> is_digit CHR '',''" by (simp add: is_digit_def)
  show "CHR '','' \<notin> set (render_rate (l, v))" 
    using d level_code_chars(2) [of l] comma by (auto simp: render_rate_def)
  have "\<not> is_space CHR ''-''" by (simp add: is_space_def)
  then have "\<forall>c \<in> set (render_rate (l, v)). \<not> is_space c"
    using d level_code_chars(4) [of l] digit_not_space by (auto simp: render_rate_def)
  then show "TrimSpace (render_rate (l, v)) = render_rate (l, v)" by (rule TrimSpace_id)
qed

lemma parseFragment_render:
  assumes "0 < v" and "v \<le> MaxInt64" and "l \<notin> saw"
  shows "parseFragment (render_rate (l, v)) saw p = Inr (insert l saw, set_level l v p)"
proof -
  have idx: "LastIndex (render_rate (l, v)) CHR ''-'' = int (length (show_int v))"
    unfolding render_rate_def fst_conv snd_conv by (rule LastIndex_split) (rule level_code_chars(1))
  have pos: "0 < length (show_int v)" by simp
  have len: "length (level_code l) > 0" using level_code_chars(3) by simp
  have tv: "TrimSpace (show_int v) = show_int v"
    using show_int_pos [OF assms(1)] digit_not_space by (intro TrimSpace_id) blast
  have tl: "TrimSpace (level_code l) = level_code l" by (rule TrimSpace_id) (rule level_code_chars(4))
  have pv: "ParseInt (show_int v) = Some v" using assms by (intro ParseInt_show_int) (simp add: in_i64_def)
  have parts: "take (length (show_int v)) (render_rate (l, v)) = show_int v"
    "drop (length (show_int v) + 1) (render_rate (l, v)) = level_code l"
    "length (render_rate (l, v)) = length (show_int v) + 1 + length (level_code l)"
    "render_rate (l, v) \<noteq> []"
    by (simp_all add: render_rate_def)
  show ?thesis
    unfolding parseFragment_def render_rate_chars(2) [OF assms(1)] Let_def idx nat_int parts
    using assms pos len by (simp add: tv tl pv parts(4))
qed

lemma parseFragments_render:
  assumes "\<forall>r \<in> set rates. 0 < snd r \<and> snd r \<le> MaxInt64" and "distinct (map fst rates)"
    and "\<forall>l \<in> saw. l \<notin> set (map fst rates)"
  shows "\<exists>p'. parseFragments (map render_rate rates) saw p = Inr p' \<and>
     (\<forall>l. get_level l p' = (case map_of rates l of None \<Rightarrow> get_level l p | Some v \<Rightarrow> v))"
  using assms
proof (induction rates arbitrary: saw p)
  case Nil
  then show ?case by simp
next
  case (Cons r rates)
  obtain l v where r: "r = (l, v)" by (cases r)
  have one: "parseFragment (render_rate r) saw p = Inr (insert l saw, set_level l v p)"
    unfolding r using Cons.prems r by (intro parseFragment_render) auto
  obtain p' where p': "parseFragments (map render_rate rates) (insert l saw) (set_level l v p) = Inr p'"
    and get: "\<forall>l'. get_level l' p' =
      (case map_of rates l' of None \<Rightarrow> get_level l' (set_level l v p) | Some v \<Rightarrow> v)"
    using Cons.IH [of "insert l saw" "set_level l v p"] Cons.prems r by auto
  have none: "map_of rates l = None" using Cons.prems(2) r by (simp add: map_of_eq_None_iff)
  have "get_level l' p' = (case map_of (r # rates) l' of None \<Rightarrow> get_level l' p | Some v \<Rightarrow> v)" for l'
    using get [rule_format, of l'] none by (cases "map_of rates l'") (auto simp: r get_set_level)
  with p' one show ?case by simp
qed

lemma parseFragment_ok:
  assumes "parseFragment f saw p = Inr (saw', p')"
  shows "\<exists>l v. 0 < v \<and> v \<le> MaxInt64 \<and> p' = set_level l v p"
  using assms
  by (auto simp: parseFragment_def Let_def in_i64_def dest!: ParseInt_in_i64
      split: if_splits option.splits) force

lemma parseFragments_ok:
  assumes "parseFragments fs saw p = Inr p'" and "\<And>l. 0 \<le> get_level l p \<and> get_level l p \<le> MaxInt64"
  shows "0 \<le> get_level l p' \<and> get_level l p' \<le> MaxInt64 \<and>
     (fs \<noteq> [] \<or> (\<exists>l. 0 < get_level l p) \<longrightarrow> (\<exists>l. 0 < get_level l p'))"
  using assms
proof (induction fs arbitrary: saw p)
  case Nil
  then show ?case by simp
next
  case (Cons f fs)
  from Cons.prems(1) obtain saw1 p1 where one: "parseFragment f saw p = Inr (saw1, p1)"
    and run: "parseFragments fs saw1 p1 = Inr p'" by (auto split: sum.splits prod.splits)
  from parseFragment_ok [OF one] obtain l1 v where
    v: "0 < v" "v \<le> MaxInt64" "p1 = set_level l1 v p" by blast
  have "0 \<le> get_level l' p1 \<and> get_level l' p1 \<le> MaxInt64" for l'
    using v Cons.prems(2) by (simp add: get_set_level)
  moreover have "0 < get_level l1 p1" using v by (simp add: get_set_level)
  ultimately show ?case using Cons.IH [OF run] by blast
qed

section \<open>Properties\<close>

text \<open>
  C40. The parser reads back every way to write a rate limit: a list of positive rates, at most one
  per level, in any order, printed as \<open>value-level\<close> and joined by commas, parses to exactly those
  rates.
\<close>

theorem parseTokenRateLimit_roundtrip:
  assumes "rates \<noteq> []" and "\<forall>r \<in> set rates. 0 < snd r \<and> snd r \<le> MaxInt64" and "distinct (map fst rates)"
  shows "\<exists>p. parseTokenRateLimit (join CHR '','' (map render_rate rates)) = Inr p \<and>
     (\<forall>l. get_level l p = (case map_of rates l of None \<Rightarrow> 0 | Some v \<Rightarrow> v))"
proof -
  have "\<forall>f \<in> set (map render_rate rates). CHR '','' \<notin> set f"
    using assms(2) render_rate_chars(1) by fastforce
  then have split: "Split (join CHR '','' (map render_rate rates)) CHR '','' = map render_rate rates"
    using assms(1) by (intro Split_join) auto
  have ne: "join CHR '','' (map render_rate rates) \<noteq> []"
    using assms(1) by (cases rates rule: list.exhaust; cases "tl rates") (auto simp: render_rate_def)
  show ?thesis
    using parseFragments_render [OF assms(2,3), of "{}" zeroTokenRateLimit] ne
    by (simp add: parseTokenRateLimit_def split cong: option.case_cong)
qed

theorem parseTokenRateLimit_roundtrip_witness:
  "\<exists>p. parseTokenRateLimit (join CHR '','' (map render_rate [(LevelMO, 5), (LevelS, 9223372036854775807)])) = Inr p \<and>
     get_level LevelS p = 9223372036854775807 \<and> get_level LevelD p = 0"
proof -
  let ?rates = "[(LevelMO, 5), (LevelS, 9223372036854775807)] :: (rate_level \<times> i64) list"
  obtain p where p: "parseTokenRateLimit (join CHR '','' (map render_rate ?rates)) = Inr p"
    and l: "\<And>l. get_level l p = (case map_of ?rates l of None \<Rightarrow> 0 | Some v \<Rightarrow> v)"
    using parseTokenRateLimit_roundtrip [of ?rates] by auto
  show ?thesis using p l [of LevelS] l [of LevelD] by auto
qed

text \<open>
  What the parser accepts is enforceable: every rate is an \<open>int64\<close> that is not negative, and
  text that is not empty gives at least one positive rate, so a configured limit is never
  silently unlimited.
\<close>

lemma parseTokenRateLimit_positive:
  assumes "parseTokenRateLimit raw = Inr p" and "raw \<noteq> []"
  shows "(\<forall>l. 0 \<le> get_level l p \<and> get_level l p \<le> MaxInt64) \<and> (\<exists>l. 0 < get_level l p)"
  using assms parseFragments_ok [of "Split raw CHR '',''" "{}" zeroTokenRateLimit p]
  by (simp add: parseTokenRateLimit_def)

text \<open>
  Buckets of different scopes are different: for ids without a colon, the subject key of a
  function limit determines the organisation, the project and the routing key, and it is never the
  key of an account limit.
\<close>

lemma rateLimitSubjectKey_scopes:
  assumes "CHR '':'' \<notin> set org" "CHR '':'' \<notin> set org'" "CHR '':'' \<notin> set proj" "CHR '':'' \<notin> set proj'"
  shows "(rateLimitSubjectKey org proj rk = rateLimitSubjectKey org' proj' rk' \<longrightarrow>
       org = org' \<and> proj = proj' \<and> rk = rk') \<and> rateLimitSubjectKey org proj rk \<noteq> ''nvcf:'' @ org'"
proof
  show "rateLimitSubjectKey org proj rk \<noteq> ''nvcf:'' @ org'"
  proof
    assume "rateLimitSubjectKey org proj rk = ''nvcf:'' @ org'"
    then have "CHR '':'' \<in> set org'"
      by (auto simp: rateLimitSubjectKey_def split: if_splits)
    with assms(2) show False ..
  qed
  show "rateLimitSubjectKey org proj rk = rateLimitSubjectKey org' proj' rk' \<longrightarrow>
       org = org' \<and> proj = proj' \<and> rk = rk'"
  proof
    define rest where "rest p r = (if p \<noteq> [] then ''project:'' @ p @ CHR '':'' # ''routing_key:'' @ r
        else ''routing_key:'' @ r)" for p r :: string
    have key: "rateLimitSubjectKey x p r = ''nvcf:'' @ x @ CHR '':'' # rest p r" for x p r
      by (simp add: rateLimitSubjectKey_def rest_def)
    assume "rateLimitSubjectKey org proj rk = rateLimitSubjectKey org' proj' rk'"
    then have "org @ CHR '':'' # rest proj rk = org' @ CHR '':'' # rest proj' rk'" by (simp add: key)
    from split_first_sep [OF this assms(1,2)] have o: "org = org'" and r: "rest proj rk = rest proj' rk'" by auto
    have "proj = proj' \<and> rk = rk'"
    proof (cases "proj = [] \<or> proj' = []")
      case True
      with r show ?thesis by (auto simp: rest_def split: if_splits)
    next
      case False
      with r have "proj @ CHR '':'' # ''routing_key:'' @ rk = proj' @ CHR '':'' # ''routing_key:'' @ rk'"
        by (simp add: rest_def)
      from split_first_sep [OF this assms(3,4)] show ?thesis by simp
    qed
    with o show "org = org' \<and> proj = proj' \<and> rk = rk'" by simp
  qed
qed

end
