(* ===== verification/Float64.thy ===== *)
theory Float64
  imports GoInt
begin

text \<open>
  The \<open>float64\<close> arithmetic the source uses for durations, on values that are exact: a float is a
  pair of a significand and a binary exponent, and every operation rounds its exact result to 53
  significant bits, ties to even, as IEEE 754 does. The exponents of the computations here stay far
  inside the range of a double, so it has no bounds; infinities and NaN, which only a division by
  zero would make, are \<open>None\<close>.
\<close>

datatype f64 = F64 (significand: int) (exponent: int)

function bitlen :: "int \<Rightarrow> int" where
  "bitlen n = (if n \<le> 0 then 0 else 1 + bitlen (n div 2))"
  by auto
termination by (relation "measure nat") auto

declare bitlen.simps [simp del]

text \<open>The quotient of two non-negative integers times a power of two, rounded to an integer, ties to even.\<close>

definition round_at :: "int \<Rightarrow> int \<Rightarrow> int \<Rightarrow> int" where
  "round_at n d e =
     (let n' = n * 2 ^ nat (- e); d' = d * 2 ^ nat e; q = n' div d'; r = n' mod d'
      in if 2 * r > d' \<or> (2 * r = d' \<and> odd q) then q + 1 else q)"

text \<open>The rounded quotient: \<open>n / d\<close> is at least \<open>2^52\<close> and below \<open>2^54\<close> units of the first exponent.\<close>

definition round_quot :: "int \<Rightarrow> int \<Rightarrow> int \<times> int" where
  "round_quot n d =
     (if n = 0 then (0, 0)
      else (let e = bitlen n - bitlen d - 53;
                e' = (if n * 2 ^ nat (- e) div (d * 2 ^ nat e) \<ge> 2 ^ 53 then e + 1 else e)
            in (round_at n d e', e')))"

definition f64_quot :: "int \<Rightarrow> int \<Rightarrow> int \<Rightarrow> f64" where
  "f64_quot n d e =
     (case round_quot \<bar>n\<bar> \<bar>d\<bar> of (m, x) \<Rightarrow> F64 (sgn n * sgn d * m) (x + e))"

definition f64_of_int :: "int \<Rightarrow> f64" where
  "f64_of_int i = f64_quot i 1 0"

definition f64_div :: "f64 \<Rightarrow> f64 \<Rightarrow> f64 option" where
  "f64_div a b =
     (if significand b = 0 then None
      else Some (f64_quot (significand a) (significand b) (exponent a - exponent b)))"

definition f64_mul :: "f64 \<Rightarrow> f64 \<Rightarrow> f64" where
  "f64_mul a b = f64_quot (significand a * significand b) 1 (exponent a + exponent b)"

definition f64_add :: "f64 \<Rightarrow> f64 \<Rightarrow> f64" where
  "f64_add a b =
     (let e = min (exponent a) (exponent b)
      in f64_quot (significand a * 2 ^ nat (exponent a - e) + significand b * 2 ^ nat (exponent b - e)) 1 e)"

definition f64_max0 :: "f64 \<Rightarrow> f64" where
  "f64_max0 a = (if significand a < 0 then F64 0 0 else a)"

text \<open>Conversion to an integer, towards zero, and \<open>math.Ceil\<close>.\<close>

definition f64_trunc :: "f64 \<Rightarrow> int" where
  "f64_trunc a =
     (if exponent a \<ge> 0 then significand a * 2 ^ nat (exponent a)
      else sgn (significand a) * (\<bar>significand a\<bar> div 2 ^ nat (- exponent a)))"

definition f64_ceil :: "f64 \<Rightarrow> int" where
  "f64_ceil a =
     (if exponent a \<ge> 0 then significand a * 2 ^ nat (exponent a)
      else - ((- significand a) div 2 ^ nat (- exponent a)))"

text \<open>\<open>Duration.Seconds()\<close>.\<close>

definition Seconds :: "i64 \<Rightarrow> f64" where
  "Seconds d =
     (let sec = quot64 d 1000000000; nsec = sub64 d (mul64 sec 1000000000)
      in case f64_div (f64_of_int nsec) (f64_of_int 1000000000) of
           None \<Rightarrow> F64 0 0
         | Some x \<Rightarrow> f64_add (f64_of_int sec) x)"

section \<open>Signs\<close>

lemma zdiv_nonneg: "0 \<le> a \<Longrightarrow> 0 \<le> b \<Longrightarrow> 0 \<le> a div (b::int)"
  by (cases "b = 0") (simp_all add: pos_imp_zdiv_nonneg_iff)

lemma round_at_nonneg:
  assumes "0 \<le> n" and "0 \<le> d"
  shows "0 \<le> round_at n d e"
proof -
  have "0 \<le> n * 2 ^ nat (- e) div (d * 2 ^ nat e)" using assms by (intro zdiv_nonneg) simp_all
  then show ?thesis by (simp add: round_at_def Let_def)
qed

lemma round_quot_nonneg: "0 \<le> n \<Longrightarrow> 0 \<le> d \<Longrightarrow> 0 \<le> fst (round_quot n d)"
  by (simp add: round_quot_def Let_def round_at_nonneg)

lemma significand_quot: "significand (f64_quot n d e) = sgn n * sgn d * fst (round_quot \<bar>n\<bar> \<bar>d\<bar>)"
  by (simp add: f64_quot_def split: prod.splits)

lemma f64_quot_sign:
  "0 \<le> n \<Longrightarrow> 0 \<le> d \<Longrightarrow> 0 \<le> significand (f64_quot n d e)"
  "n \<le> 0 \<Longrightarrow> 0 \<le> d \<Longrightarrow> significand (f64_quot n d e) \<le> 0"
  using round_quot_nonneg [of "\<bar>n\<bar>" "\<bar>d\<bar>"] by (auto simp: significand_quot sgn_if)

lemma f64_of_int_sign:
  "0 \<le> i \<Longrightarrow> 0 \<le> significand (f64_of_int i)" "i \<le> 0 \<Longrightarrow> significand (f64_of_int i) \<le> 0"
  by (simp_all add: f64_of_int_def f64_quot_sign)

lemma f64_trunc_nonneg: "0 \<le> significand a \<Longrightarrow> 0 \<le> f64_trunc a"
  by (auto simp: f64_trunc_def sgn_if pos_imp_zdiv_nonneg_iff)

lemma f64_trunc_zero: "significand a = 0 \<Longrightarrow> f64_trunc a = 0"
  by (simp add: f64_trunc_def)

end
