(* ===== verification/GatewayStats.thy ===== *)
theory GatewayStats
  imports TokenLimits Float64
begin

text \<open>
  What the gateway tells a caller about its limits (\<open>api/ratelimit.go\<close>): the statistics over the
  results of a check, the binding limit, and the response headers; and the waiting times of a result
  (\<open>ratelimit/ratelimit_result.go\<close>), computed in floating point.

  A Go map is iterated in an unspecified order: the functions that depend on it take the order as an
  argument, per result map. Results are values here; the source shares pointers to them, and
  only \<open>RevertAndRecalculateStats\<close>, the last use of a context, changes one.
\<close>

section \<open>Waiting times\<close>

text \<open>
  Conversion of a float to \<open>int64\<close>, as amd64 does it: a value that does not fit is \<open>MinInt64\<close>.
\<close>

definition f64_to_i64 :: "f64 \<Rightarrow> i64" where
  "f64_to_i64 a = (if in_i64 (f64_trunc a) then f64_trunc a else MinInt64)"

text \<open>
  \<open>time.Duration(max(0, n/l*p) * float64(time.Second))\<close>. For \<open>l\<close> zero the quotient is infinite or
  NaN: the maximum is 0 for minus infinity, and otherwise does not fit.
\<close>

definition waitTime :: "i64 \<Rightarrow> i64 \<Rightarrow> i64 \<Rightarrow> i64" where
  "waitTime n l period =
     (case f64_div (f64_of_int n) (f64_of_int l) of
        None \<Rightarrow> if sgn n * sgn period < 0 then 0 else MinInt64
      | Some q \<Rightarrow>
          f64_to_i64 (f64_mul (f64_max0 (f64_mul q (Seconds period))) (f64_of_int 1000000000)))"

definition RetryAfter :: "RateLimitResult \<Rightarrow> i64" where
  "RetryAfter rlr =
     waitTime (sub64 (Requested rlr) (CurrentValue rlr)) (Limit (ResultRateLimit rlr))
       (Period (ResultRateLimit rlr))"

definition ResetAfter :: "RateLimitResult \<Rightarrow> i64" where
  "ResetAfter rlr =
     waitTime (sub64 (Limit (ResultRateLimit rlr)) (RemainingValue rlr)) (Limit (ResultRateLimit rlr))
       (Period (ResultRateLimit rlr))"

section \<open>Statistics\<close>

record rateLimitStats =
  LimitRequests :: "i64 option"
  RemainingRequests :: "i64 option"
  ResetRequests :: "i64 option"
  LimitTokens :: "i64 option"
  RemainingTokens :: "i64 option"
  ResetTokens :: "i64 option"
  StatsRetryAfter :: "i64 option"
  ShouldRetry :: "bool option"

definition zeroStats :: rateLimitStats where
  "zeroStats =
     \<lparr>LimitRequests = None, RemainingRequests = None, ResetRequests = None, LimitTokens = None,
      RemainingTokens = None, ResetTokens = None, StatsRetryAfter = None, ShouldRetry = None\<rparr>"

record RateLimitContext =
  Stats :: rateLimitStats
  Results :: "results list"
  AppliedLimits :: "ResourceLimit list"
  limitingDimension :: "LimitDimension option"
  limitingResult :: "RateLimitResult option"
  limitingResourceLimit :: ResourceLimit

definition chooseRequestResult :: "results \<Rightarrow> RateLimitResult option" where
  "chooseRequestResult results =
     (case results RequestsPerMinute of
        Some r \<Rightarrow> Some r
      | None \<Rightarrow> results RequestsPerDay)"

text \<open>The first limited period of a list of dimensions, and the binding one of a pair.\<close>

fun firstResult :: "results \<Rightarrow> LimitDimension list \<Rightarrow> RateLimitResult option" where
  "firstResult results [] = None"
| "firstResult results (d # ds) = (case results d of None \<Rightarrow> firstResult results ds | Some r \<Rightarrow> Some r)"

definition bindingResult :: "results \<Rightarrow> LimitDimension \<times> LimitDimension \<Rightarrow> RateLimitResult option" where
  "bindingResult results pair =
     (case (results (fst pair), results (snd pair)) of
        (None, r) \<Rightarrow> r
      | (Some r, None) \<Rightarrow> Some r
      | (Some r, Some r') \<Rightarrow> if RemainingValue r' < RemainingValue r then Some r' else Some r)"

fun choosePair ::
    "results \<Rightarrow> (LimitDimension \<times> LimitDimension) list \<Rightarrow> (i64 \<times> i64 \<times> i64) option \<Rightarrow> (i64 \<times> i64 \<times> i64) option"
  where
  "choosePair results [] chosen = chosen"
| "choosePair results (pair # pairs) chosen =
     (case bindingResult results pair of
        None \<Rightarrow> choosePair results pairs chosen
      | Some b \<Rightarrow>
          choosePair results pairs
            (case chosen of
               None \<Rightarrow> Some (LimitValue b, RemainingValue b, ResetAfter b)
             | Some (l, rem, reset) \<Rightarrow>
                 if RemainingValue b < rem then Some (LimitValue b, RemainingValue b, ResetAfter b)
                 else chosen))"

definition tokenPairs :: "(LimitDimension \<times> LimitDimension) list" where
  "tokenPairs =
     [(InputTokensPerSecond, OutputTokensPerSecond), (InputTokensPerMinute, OutputTokensPerMinute),
      (InputTokensPerHour, OutputTokensPerHour), (InputTokensPerDay, OutputTokensPerDay),
      (InputTokensPerWeek, OutputTokensPerWeek), (InputTokensPerMonth, OutputTokensPerMonth)]"

text \<open>The limit, the remaining value and the reset time; \<open>None\<close> is the result \<open>false\<close>.\<close>

definition chooseTokenStats :: "results \<Rightarrow> (i64 \<times> i64 \<times> i64) option" where
  "chooseTokenStats results =
     (case firstResult results [TokensPerSecond, TokensPerMinute, TokensPerHour, TokensPerDay,
                                TokensPerWeek, TokensPerMonth] of
        Some r \<Rightarrow> Some (LimitValue r, RemainingValue r, ResetAfter r)
      | None \<Rightarrow> choosePair results tokenPairs None)"

text \<open>The search for the binding limit over one result map: the denied result that waits longest.\<close>

type_synonym limiting = "(LimitDimension \<times> RateLimitResult \<times> ResourceLimit) option"

fun pickLimiting ::
    "ResourceLimit option \<Rightarrow> results \<Rightarrow> LimitDimension list \<Rightarrow> i64 \<times> limiting \<Rightarrow> i64 \<times> limiting" where
  "pickLimiting applied results [] acc = acc"
| "pickLimiting applied results (d # ds) (maxRetryAfter, lim) =
     pickLimiting applied results ds
       (case results d of
          None \<Rightarrow> (maxRetryAfter, lim)
        | Some r \<Rightarrow>
            if \<not> Allowed r \<and> (lim = None \<or> RetryAfter r > maxRetryAfter)
            then (RetryAfter r,
                  Some (d, r, case applied of
                                Some l \<Rightarrow> l
                              | None \<Rightarrow> (case lim of Some (_, _, l) \<Rightarrow> l | None \<Rightarrow> zeroResourceLimit)))
            else (maxRetryAfter, lim))"

definition updateRequestStats :: "results \<Rightarrow> rateLimitStats \<Rightarrow> rateLimitStats" where
  "updateRequestStats results stats =
     (case chooseRequestResult results of
        None \<Rightarrow> stats
      | Some r \<Rightarrow>
          let remaining = RemainingValue r in
          if (case RemainingRequests stats of None \<Rightarrow> True | Some x \<Rightarrow> remaining < x)
          then stats\<lparr>LimitRequests := Some (LimitValue r), RemainingRequests := Some remaining,
                     ResetRequests := Some (ResetAfter r)\<rparr>
          else stats)"

definition updateTokenStats :: "results \<Rightarrow> rateLimitStats \<Rightarrow> rateLimitStats" where
  "updateTokenStats results stats =
     (case chooseTokenStats results of
        None \<Rightarrow> stats
      | Some (l, remaining, reset) \<Rightarrow>
          if (case RemainingTokens stats of None \<Rightarrow> True | Some x \<Rightarrow> remaining < x)
          then stats\<lparr>LimitTokens := Some l, RemainingTokens := Some remaining, ResetTokens := Some reset\<rparr>
          else stats)"

text \<open>The loop over the result maps; \<open>order i\<close> is the iteration order of the map of index \<open>i\<close>.\<close>

fun statsLoop ::
    "(nat \<Rightarrow> LimitDimension list) \<Rightarrow> ResourceLimit list \<Rightarrow> nat \<Rightarrow> results list
       \<Rightarrow> (i64 \<times> limiting) \<times> rateLimitStats \<Rightarrow> (i64 \<times> limiting) \<times> rateLimitStats" where
  "statsLoop order applied i [] acc = acc"
| "statsLoop order applied i (results # rest) (lim, stats) =
     statsLoop order applied (Suc i) rest
       (pickLimiting (if i < length applied then Some (applied ! i) else None) results (order i) lim,
        updateTokenStats results (updateRequestStats results stats))"

definition calculateStats :: "(nat \<Rightarrow> LimitDimension list) \<Rightarrow> RateLimitContext \<Rightarrow> RateLimitContext" where
  "calculateStats order c =
     (case statsLoop order (AppliedLimits c) 0 (Results c) ((0, None), zeroStats) of
        ((_, None), stats) \<Rightarrow>
          c\<lparr>Stats := stats, limitingDimension := None, limitingResult := None,
            limitingResourceLimit := zeroResourceLimit\<rparr>
      | ((_, Some (d, r, l)), stats) \<Rightarrow>
          (let retryAfter = f64_ceil (Seconds (RetryAfter r));
               stats = stats\<lparr>StatsRetryAfter := Some retryAfter\<rparr>;
               stats = (if retryAfter > 60 then stats\<lparr>ShouldRetry := Some False\<rparr> else stats)
           in c\<lparr>Stats := stats, limitingDimension := Some d, limitingResult := Some r,
                limitingResourceLimit := l\<rparr>))"

definition RevertAndRecalculateStats ::
    "(nat \<Rightarrow> LimitDimension list) \<Rightarrow> RateLimitContext \<Rightarrow> RateLimitContext" where
  "RevertAndRecalculateStats order c =
     calculateStats order (c\<lparr>Results := map (\<lambda>m d. map_option Revert (m d)) (Results c)\<rparr>)"

definition mergeRateLimitContexts ::
    "(nat \<Rightarrow> LimitDimension list) \<Rightarrow> RateLimitContext option \<Rightarrow> RateLimitContext option
       \<Rightarrow> RateLimitContext option" where
  "mergeRateLimitContexts order first second =
     (case (first, second) of
        (None, _) \<Rightarrow> second
      | (Some _, None) \<Rightarrow> first
      | (Some a, Some b) \<Rightarrow>
          Some (calculateStats order
            \<lparr>Stats = zeroStats,
             Results = map (\<lambda>i. if i < length (Results b) then (Results a ! i) ++ (Results b ! i) else Results a ! i)
                         [0 ..< length (Results a)],
             AppliedLimits = AppliedLimits a, limitingDimension = None, limitingResult = None,
             limitingResourceLimit = zeroResourceLimit\<rparr>))"

definition mergeRateLimitResults :: "results \<Rightarrow> results \<Rightarrow> results" where
  "mergeRateLimitResults dst src = dst ++ src"

section \<open>Headers\<close>

definition headerDuration :: "i64 \<Rightarrow> i64" where
  "headerDuration d = (if d \<le> 0 then 1000000 else max 1000000 (sub64 d (d mod 1000000)))"

text \<open>
  \<open>Duration.String()\<close> for a duration that is not negative: a value below a second in the largest
  unit that has a whole part, otherwise hours, minutes and seconds, with the trailing zeros of the
  fraction dropped.
\<close>

definition padDigits :: "nat \<Rightarrow> int \<Rightarrow> string" where
  "padDigits prec v = (let s = show_int v in replicate (prec - length s) CHR ''0'' @ s)"

definition fracString :: "nat \<Rightarrow> int \<Rightarrow> string" where
  "fracString prec v =
     (if v = 0 then [] else CHR ''.'' # rev (dropWhile (\<lambda>c. c = CHR ''0'') (rev (padDigits prec v))))"

definition durationString :: "i64 \<Rightarrow> string" where
  "durationString d =
     (if d = 0 then ''0s''
      else if d < 1000 then show_int d @ ''ns''
      else if d < 1000000 then show_int (d div 1000) @ fracString 3 (d mod 1000) @ [CHR 0xC2, CHR 0xB5] @ ''s''
      else if d < 1000000000 then show_int (d div 1000000) @ fracString 6 (d mod 1000000) @ ''ms''
      else
        (let total = d div 1000000000;
             seconds = show_int (total mod 60) @ fracString 9 (d mod 1000000000) @ ''s'';
             minutes = total div 60
         in if minutes = 0 then seconds
            else if minutes div 60 = 0 then show_int minutes @ ''m'' @ seconds
            else show_int (minutes div 60) @ ''h'' @ show_int (minutes mod 60) @ ''m'' @ seconds))"

text \<open>A response header: its values by canonical key.\<close>

type_synonym header = "string \<Rightarrow> string option"

definition optHeader :: "string \<Rightarrow> ('a \<Rightarrow> string) \<Rightarrow> 'a option \<Rightarrow> (string \<times> string) list" where
  "optHeader key f x = (case x of None \<Rightarrow> [] | Some v \<Rightarrow> [(key, f v)])"

definition statsHeaders :: "rateLimitStats \<Rightarrow> (string \<times> string) list" where
  "statsHeaders r =
     optHeader ''X-Ratelimit-Limit-Requests'' show_int (LimitRequests r)
     @ optHeader ''X-Ratelimit-Remaining-Requests'' show_int (RemainingRequests r)
     @ optHeader ''X-Ratelimit-Reset-Requests'' (\<lambda>d. durationString (headerDuration d)) (ResetRequests r)
     @ optHeader ''X-Ratelimit-Limit-Tokens'' show_int (LimitTokens r)
     @ optHeader ''X-Ratelimit-Remaining-Tokens'' show_int (RemainingTokens r)
     @ optHeader ''X-Ratelimit-Reset-Tokens'' (\<lambda>d. durationString (headerDuration d)) (ResetTokens r)
     @ optHeader ''Retry-After'' show_int (StatsRetryAfter r)
     @ optHeader ''X-Should-Retry'' (\<lambda>b. if b then ''true'' else ''false'') (ShouldRetry r)"

definition applyRateLimitHeaders :: "RateLimitContext option \<Rightarrow> header \<Rightarrow> header" where
  "applyRateLimitHeaders c dst =
     (case c of None \<Rightarrow> dst | Some x \<Rightarrow> dst ++ map_of (statsHeaders (Stats x)))"

section \<open>The binding limit\<close>

lemma pickLimiting_found:
  "snd (pickLimiting applied results ds acc) \<noteq> None \<longleftrightarrow>
     snd acc \<noteq> None \<or> (\<exists>d r. d \<in> set ds \<and> results d = Some r \<and> \<not> Allowed r)"
proof (induction ds arbitrary: acc)
  case Nil
  then show ?case by simp
next
  case (Cons d ds)
  obtain m lim where acc: "acc = (m, lim)" by (cases acc)
  show ?case
    unfolding acc by (simp only: pickLimiting.simps Cons.IH) (cases "results d"; cases lim; auto)
qed

text \<open>Invariant of the search: what is picked is a denied result, and none waits longer.\<close>

definition limiting_ok :: "(RateLimitResult \<Rightarrow> bool) \<Rightarrow> i64 \<times> limiting \<Rightarrow> bool" where
  "limiting_ok seen acc \<longleftrightarrow>
     (case snd acc of
        None \<Rightarrow> \<forall>r. seen r \<longrightarrow> Allowed r
      | Some (_, r, _) \<Rightarrow> seen r \<and> \<not> Allowed r \<and> fst acc = RetryAfter r \<and>
          (\<forall>r'. seen r' \<and> \<not> Allowed r' \<longrightarrow> RetryAfter r' \<le> RetryAfter r))"

lemma pickLimiting_ok:
  assumes "limiting_ok seen acc"
  shows "limiting_ok (\<lambda>r. seen r \<or> (\<exists>d \<in> set ds. results d = Some r)) (pickLimiting applied results ds acc)"
  using assms
proof (induction ds arbitrary: seen acc)
  case Nil
  then show ?case by simp
next
  case (Cons d ds)
  obtain m lim where acc: "acc = (m, lim)" by (cases acc)
  define acc' where "acc' = (case results d of
          None \<Rightarrow> (m, lim)
        | Some r \<Rightarrow>
            if \<not> Allowed r \<and> (lim = None \<or> RetryAfter r > m)
            then (RetryAfter r,
                  Some (d, r, case applied of
                                Some l \<Rightarrow> l
                              | None \<Rightarrow> (case lim of Some (_, _, l) \<Rightarrow> l | None \<Rightarrow> zeroResourceLimit)))
            else (m, lim))"
  have "limiting_ok (\<lambda>r. seen r \<or> results d = Some r) acc'"
    using Cons.prems
    by (cases "results d"; cases lim) (auto simp: acc acc'_def limiting_ok_def)
  from Cons.IH [OF this] have "limiting_ok (\<lambda>r. (seen r \<or> results d = Some r) \<or> (\<exists>d \<in> set ds. results d = Some r))
      (pickLimiting applied results ds acc')" .
  moreover have "pickLimiting applied results (d # ds) acc = pickLimiting applied results ds acc'"
    by (simp add: acc acc'_def)
  moreover have "(\<lambda>r. (seen r \<or> results d = Some r) \<or> (\<exists>d \<in> set ds. results d = Some r))
      = (\<lambda>r. seen r \<or> (\<exists>d' \<in> set (d # ds). results d' = Some r))" by (auto simp: fun_eq_iff)
  ultimately show ?case by simp
qed

lemma statsLoop_ok:
  assumes "limiting_ok seen lim" and "\<And>i. set (order i) = UNIV"
  shows "limiting_ok (\<lambda>r. seen r \<or> (\<exists>m \<in> set rs. \<exists>d. m d = Some r)) (fst (statsLoop order applied i rs (lim, stats)))"
  using assms(1)
proof (induction rs arbitrary: seen lim i stats)
  case Nil
  then show ?case by simp
next
  case (Cons m rs)
  let ?app = "if i < length applied then Some (applied ! i) else None"
  from pickLimiting_ok [OF Cons.prems, where ds = "order i" and results = m and applied = ?app] assms(2)
  have "limiting_ok (\<lambda>r. seen r \<or> (\<exists>d. m d = Some r)) (pickLimiting ?app m (order i) lim)" by simp
  from Cons.IH [OF this] show ?case by (simp add: disj_assoc)
qed

text \<open>The results of a context, over all its maps.\<close>

definition hasResult :: "RateLimitContext \<Rightarrow> RateLimitResult \<Rightarrow> bool" where
  "hasResult c r \<longleftrightarrow> (\<exists>m \<in> set (Results c). \<exists>d. m d = Some r)"

lemma calculateStats_limiting:
  assumes "\<And>i. set (order i) = UNIV"
  shows "case limitingResult (calculateStats order c) of
      None \<Rightarrow> \<forall>r. hasResult c r \<longrightarrow> Allowed r
    | Some r \<Rightarrow> hasResult c r \<and> \<not> Allowed r \<and> (\<forall>r'. hasResult c r' \<and> \<not> Allowed r' \<longrightarrow> RetryAfter r' \<le> RetryAfter r)"
proof -
  have "limiting_ok (hasResult c) (fst (statsLoop order (AppliedLimits c) 0 (Results c) ((0, None), zeroStats)))"
    using statsLoop_ok [where seen = "\<lambda>_. False" and lim = "(0, None)" and order = order, OF _ assms]
    by (simp add: limiting_ok_def hasResult_def [abs_def])
  then show ?thesis
    by (auto simp: calculateStats_def limiting_ok_def Let_def split: prod.splits option.splits if_splits)
qed

lemma statsLoop_retry:
  "StatsRetryAfter (snd (statsLoop order applied i rs (lim, stats))) = StatsRetryAfter stats"
  "ShouldRetry (snd (statsLoop order applied i rs (lim, stats))) = ShouldRetry stats"
  by (induction rs arbitrary: i lim stats)
    (simp_all add: updateTokenStats_def updateRequestStats_def Let_def split: option.split prod.split)

lemma calculateStats_retry:
  "StatsRetryAfter (Stats (calculateStats order c)) =
     map_option (\<lambda>r. f64_ceil (Seconds (RetryAfter r))) (limitingResult (calculateStats order c))"
  using statsLoop_retry [of order "AppliedLimits c" 0 "Results c" "(0, None)" zeroStats]
  by (auto simp: calculateStats_def zeroStats_def Let_def split: prod.splits option.splits)

lemma map_of_statsHeaders_retry: "map_of (statsHeaders st) ''Retry-After'' = map_option show_int (StatsRetryAfter st)"
  by (simp add: statsHeaders_def optHeader_def map_add_def split: option.split)

section \<open>Properties\<close>

text \<open>
  A caller that is refused is told when to come back: whatever order Go iterates the maps in, the
  headers of a calculated context set \<open>Retry-After\<close> exactly when some result is denied, and the value
  is that of a denied result that no other denied result waits longer than.
\<close>

theorem retry_after_binding:
  assumes "\<And>i. set (order i) = UNIV"
  shows "case applyRateLimitHeaders (Some (calculateStats order c)) Map.empty ''Retry-After'' of
      None \<Rightarrow> \<forall>r. hasResult c r \<longrightarrow> Allowed r
    | Some v \<Rightarrow> \<exists>r. hasResult c r \<and> \<not> Allowed r \<and> v = show_int (f64_ceil (Seconds (RetryAfter r))) \<and>
        (\<forall>r'. hasResult c r' \<and> \<not> Allowed r' \<longrightarrow> RetryAfter r' \<le> RetryAfter r)"
  using calculateStats_limiting [of order c, OF assms]
  by (auto simp: applyRateLimitHeaders_def map_of_statsHeaders_retry calculateStats_retry split: option.splits)

text \<open>One denied result: three units asked for, one left of sixty a minute.\<close>

text \<open>
  The reset headers never say "now" and never a fraction of a millisecond: \<open>headerDuration\<close> is a
  positive multiple of a millisecond, at most the duration unless that is below a millisecond.
\<close>

lemma headerDuration_resolution:
  assumes "in_i64 d"
  shows "1000000 \<le> headerDuration d \<and> headerDuration d mod 1000000 = 0 \<and>
     headerDuration d = (if d < 1000000 then 1000000 else d div 1000000 * 1000000)"
proof (cases "d < 1000000")
  case True
  have "0 < d \<Longrightarrow> d mod 1000000 = d" using True by simp
  then show ?thesis using True by (auto simp: headerDuration_def sub64_def wrap64_def)
next
  case False
  have m: "0 \<le> d mod 1000000" "d mod 1000000 < 1000000" by simp_all
  then have "sub64 d (d mod 1000000) = d - d mod 1000000"
    using False assms by (intro sub64_id) (unfold in_i64_def, linarith)
  moreover have "d - d mod 1000000 = d div 1000000 * 1000000" by (rule minus_mod_eq_div_mult)
  moreover have "1 \<le> d div 1000000" using False zdiv_mono1 [of 1000000 d 1000000] by simp
  ultimately show ?thesis using False by (simp add: headerDuration_def max_def)
qed

end
