(* ===== verification/Admission.thy ===== *)
theory Admission
  imports Resources
begin

text \<open>
  The admission plan of one request (\<open>ratelimit/admission.go\<close>): tokens are reserved when the
  request is admitted and settled against the actual usage when the response is complete. The
  plan's counters are updated under its lock, so each locked section is one step; a method returns
  its result, the plan with its new counters and the new state of the world.
\<close>

section \<open>The plan\<close>

record 's AdmissionPlan =
  limiter :: "'s RateLimiter"
  limit :: ResourceLimit
  requestID :: string
  consumedInputTokens :: i64
  reservedOutputTokens :: i64

text \<open>\<open>None\<close> is a nil limiter and a nil plan. A nil result map reads like the empty one.\<close>

definition NewAdmissionPlan ::
    "'s RateLimiter option \<Rightarrow> ResourceLimit \<Rightarrow> string \<Rightarrow> 's AdmissionPlan option" where
  "NewAdmissionPlan lim l rid =
     (case lim of
        None \<Rightarrow> None
      | Some lm \<Rightarrow>
          if ResourceLimitEmpty l then None
          else Some \<lparr>limiter = lm, limit = l, requestID = rid, consumedInputTokens = 0,
                     reservedOutputTokens = 0\<rparr>)"

definition CheckRequests ::
    "'s AdmissionPlan option \<Rightarrow> 's ctx \<Rightarrow> i64 \<Rightarrow> schedule \<Rightarrow> 's \<Rightarrow> (rl_error + results) \<times> 's" where
  "CheckRequests p ctx requests sched s =
     (case p of
        None \<Rightarrow> (Inr Map.empty, s)
      | Some q \<Rightarrow>
          if requests = 0 then (Inr Map.empty, s)
          else TestResourceLimit (limiter q) ctx (limit q)
                 \<lparr>rr_Requests = requests, rr_InputTokens = 0, rr_OutputTokens = 0\<rparr> (requestID q) sched s)"

definition CheckTokens ::
    "'s AdmissionPlan option \<Rightarrow> 's ctx \<Rightarrow> ResourceRequest \<Rightarrow> schedule \<Rightarrow> 's \<Rightarrow> (rl_error + results) \<times> 's" where
  "CheckTokens p ctx request sched s =
     (case p of
        None \<Rightarrow> (Inr Map.empty, s)
      | Some q \<Rightarrow>
          TestResourceLimit (limiter q) ctx (limit q) (request\<lparr>rr_Requests := 0\<rparr>) (requestID q) sched s)"

definition Commit ::
    "'s AdmissionPlan option \<Rightarrow> 's ctx \<Rightarrow> ResourceRequest \<Rightarrow> schedule \<Rightarrow> 's
       \<Rightarrow> (rl_error + results) \<times> 's AdmissionPlan option \<times> 's" where
  "Commit p ctx request sched s =
     (case p of
        None \<Rightarrow> (Inr Map.empty, p, s)
      | Some q \<Rightarrow>
          if rr_Requests request = 0 \<and> rr_InputTokens request = 0 \<and> rr_OutputTokens request = 0
          then (Inr Map.empty, p, s)
          else (case MustConsumeResourceLimit (limiter q) ctx (limit q) request (requestID q) sched s of
                  (Inl e, s') \<Rightarrow> (Inl e, p, s')
                | (Inr results, s') \<Rightarrow>
                    (Inr results,
                     Some (q\<lparr>consumedInputTokens := add64 (consumedInputTokens q) (rr_InputTokens request),
                             reservedOutputTokens := add64 (reservedOutputTokens q) (rr_OutputTokens request)\<rparr>),
                     s')))"

definition FinalizeTokens ::
    "'s AdmissionPlan option \<Rightarrow> 's ctx \<Rightarrow> ResourceRequest \<Rightarrow> schedule \<Rightarrow> 's
       \<Rightarrow> (rl_error + results) \<times> 's AdmissionPlan option \<times> 's" where
  "FinalizeTokens p ctx request sched s =
     (case p of
        None \<Rightarrow> (Inr Map.empty, p, s)
      | Some q \<Rightarrow>
          (let request = \<lparr>rr_Requests = 0,
                          rr_InputTokens = sub64 (rr_InputTokens request) (consumedInputTokens q),
                          rr_OutputTokens = sub64 (rr_OutputTokens request) (reservedOutputTokens q)\<rparr>;
               q' = q\<lparr>consumedInputTokens := 0, reservedOutputTokens := 0\<rparr>
           in if rr_InputTokens request = 0 \<and> rr_OutputTokens request = 0 then (Inr Map.empty, Some q', s)
              else (case MustConsumeResourceLimit (limiter q) ctx (limit q) request (requestID q) sched s of
                      (r, s') \<Rightarrow> (r, Some q', s'))))"

definition ReleaseOutputReservation ::
    "'s AdmissionPlan option \<Rightarrow> 's ctx \<Rightarrow> schedule \<Rightarrow> 's
       \<Rightarrow> (rl_error + results) \<times> 's AdmissionPlan option \<times> 's" where
  "ReleaseOutputReservation p ctx sched s =
     (case p of
        None \<Rightarrow> (Inr Map.empty, p, s)
      | Some q \<Rightarrow>
          (let outputTokens = neg64 (reservedOutputTokens q);
               q' = q\<lparr>consumedInputTokens := 0, reservedOutputTokens := 0\<rparr>
           in if outputTokens = 0 then (Inr Map.empty, Some q', s)
              else (case MustConsumeResourceLimit (limiter q) ctx (limit q)
                           \<lparr>rr_Requests = 0, rr_InputTokens = 0, rr_OutputTokens = outputTokens\<rparr>
                           (requestID q) sched s of
                      (r, s') \<Rightarrow> (r, Some q', s'))))"

text \<open>A run of commits, as the handlers make them; it stops at the first error.\<close>

fun commitAll ::
    "'s AdmissionPlan option \<Rightarrow> 's ctx \<Rightarrow> (ResourceRequest \<times> schedule) list \<Rightarrow> 's
       \<Rightarrow> (rl_error + unit) \<times> 's AdmissionPlan option \<times> 's" where
  "commitAll p ctx [] s = (Inr (), p, s)"
| "commitAll p ctx ((rq, sched) # rqs) s =
     (case Commit p ctx rq sched s of
        (Inl e, p', s') \<Rightarrow> (Inl e, p', s')
      | (Inr _, p', s') \<Rightarrow> commitAll p' ctx rqs s')"

section \<open>Charges\<close>

text \<open>The units a dimension is charged with for a request.\<close>

definition due :: "ResourceLimit \<Rightarrow> ResourceRequest \<Rightarrow> LimitDimension \<Rightarrow> int" where
  "due l rq d = (if active l rq d then dimUnits rq d else 0)"

text \<open>The share of a usage of requests, input and output tokens that a dimension counts.\<close>

definition dimShare :: "LimitDimension \<Rightarrow> int \<Rightarrow> int \<Rightarrow> int \<Rightarrow> int" where
  "dimShare d r i w =
     (if d \<in> {RequestsPerMinute, RequestsPerDay} then r
      else if d \<in> {TokensPerSecond, TokensPerMinute, TokensPerHour, TokensPerDay, TokensPerWeek, TokensPerMonth}
      then i + w
      else if d \<in> {InputTokensPerSecond, InputTokensPerMinute, InputTokensPerHour, InputTokensPerDay,
                   InputTokensPerWeek, InputTokensPerMonth} then i
      else w)"

lemma dimShare_add: "dimShare d r i w + dimShare d r' i' w' = dimShare d (r + r') (i + i') (w + w')"
  by (simp add: dimShare_def)

lemma dimShare_zero [simp]: "dimShare d 0 0 0 = 0"
  by (simp add: dimShare_def)

lemma dimUnits_share:
  "in_i64 (rr_InputTokens rq + rr_OutputTokens rq) \<Longrightarrow>
   dimUnits rq d = dimShare d (rr_Requests rq) (rr_InputTokens rq) (rr_OutputTokens rq)"
  by (cases d) (simp_all add: dimShare_def add64_id)

lemma due_share:
  "in_i64 (rr_InputTokens rq + rr_OutputTokens rq) \<Longrightarrow>
   due l rq d = (if dimLimit l d = 0 then 0
                 else dimShare d (rr_Requests rq) (rr_InputTokens rq) (rr_OutputTokens rq))"
  by (simp add: due_def active_def dimUnits_share)

text \<open>The totals of a run of commits, and the requests whose token counts are not negative.\<close>

definition total :: "(ResourceRequest \<Rightarrow> i64) \<Rightarrow> (ResourceRequest \<times> schedule) list \<Rightarrow> int" where
  "total f rqs = sum_list (map (f \<circ> fst) rqs)"

definition commits_ok :: "(ResourceRequest \<times> schedule) list \<Rightarrow> bool" where
  "commits_ok rqs \<longleftrightarrow>
     (\<forall>(rq, sched) \<in> set rqs. 0 \<le> rr_InputTokens rq \<and> 0 \<le> rr_OutputTokens rq \<and> schedule_ok sched)"

lemma total_simps [simp]:
  "total f [] = 0" "total f ((rq, sched) # rqs) = f rq + total f rqs"
  by (simp_all add: total_def)

lemma commits_ok_simps [simp]:
  "commits_ok []"
  "commits_ok ((rq, sched) # rqs) \<longleftrightarrow>
     0 \<le> rr_InputTokens rq \<and> 0 \<le> rr_OutputTokens rq \<and> schedule_ok sched \<and> commits_ok rqs"
  by (auto simp: commits_ok_def)

lemma total_nonneg: "commits_ok rqs \<Longrightarrow> 0 \<le> total rr_InputTokens rqs \<and> 0 \<le> total rr_OutputTokens rqs"
  by (induction rqs) auto

text \<open>A plan as the constructor and the settling methods leave it.\<close>

definition fresh_plan :: "'s AdmissionPlan \<Rightarrow> bool" where
  "fresh_plan q \<longleftrightarrow> consumedInputTokens q = 0 \<and> reservedOutputTokens q = 0"

text \<open>
  What the plan relies on of a limiter to keep accounts: a must-consume check that succeeds charges
  its key with the units, and nothing else moves a charge.
\<close>

locale charging =
  fixes lim :: "'s RateLimiter" and charge :: "'s \<Rightarrow> string \<Rightarrow> int"
  assumes must_ok: "CheckLimit lim ctx k l n False rid True s = (Inr r, s') \<Longrightarrow>
        charge s' = (charge s)(k := charge s k + n)"
    and must_err: "CheckLimit lim ctx k l n False rid True s = (Inl e, s') \<Longrightarrow> charge s' = charge s"
    and test_free: "CheckLimit lim ctx k l n True rid m s = (r', s') \<Longrightarrow> charge s' = charge s"
begin

lemma checkDimension_charge:
  assumes "checkDimension lim l rq False rid True ctx d s = (Inr r, s')"
  shows "charge s' = (charge s)(keyForDimension l d := charge s (keyForDimension l d) + due l rq d)"
  using assms must_ok
  by (auto simp: checkDimension_def due_def active_def fun_eq_iff split: if_splits prod.splits sum.splits)

lemma runGroup_charge:
  assumes "runGroup (checkDimension lim l rq False rid True) ctx sched err res s = ((None, res'), s')"
    and "distinct (map fst sched)"
  shows "err = None \<and> charge s' (keyForDimension l d) =
     charge s (keyForDimension l d) + (if d \<in> set (map fst sched) then due l rq d else 0)"
  using assms
proof (induction sched arbitrary: err res s)
  case Nil
  then show ?case by simp
next
  case (Cons p sched)
  obtain d' sees where p: "p = (d', sees)" by (cases p)
  let ?c = "if err \<noteq> None \<and> sees then cancelledCtx else ctx"
  obtain r s1 where b: "checkDimension lim l rq False rid True ?c d' s = (r, s1)"
    by (cases "checkDimension lim l rq False rid True ?c d' s")
  have dist: "distinct (map fst sched)" "d' \<notin> set (map fst sched)" using Cons.prems(2) p by auto
  show ?case
  proof (cases r)
    case (Inl e)
    with Cons.prems(1) b p have "runGroup (checkDimension lim l rq False rid True) ctx sched
        (if err = None then Some e else err) res s1 = ((None, res'), s')" by simp
    from Cons.IH [OF this dist(1)] show ?thesis by (auto split: if_splits)
  next
    case (Inr x)
    with Cons.prems(1) b p obtain res1 where
      "runGroup (checkDimension lim l rq False rid True) ctx sched err res1 s1 = ((None, res'), s')"
      by (auto split: option.splits)
    from Cons.IH [OF this dist(1)] checkDimension_charge [OF b [unfolded Inr]] dist(2) show ?thesis
      by (auto simp: p keyForDimension_eq)
  qed
qed

lemma must_consume_charge:
  assumes "MustConsumeResourceLimit lim ctx l rq rid sched s = (Inr r, s')" and "schedule_ok sched"
  shows "charge s' (keyForDimension l d) = charge s (keyForDimension l d) + due l rq d"
proof -
  from assms(1) obtain res where
    "runGroup (checkDimension lim l rq False rid True) ctx sched None Map.empty s = ((None, res), s')"
    by (auto simp: MustConsumeResourceLimit_def doResourceLimit_def split: prod.splits option.splits)
  moreover have "distinct (map fst sched)" "d \<in> set (map fst sched)"
    using assms(2) allLimitDimensions_UNIV by (auto simp: schedule_ok_def)
  ultimately show ?thesis using runGroup_charge by fastforce
qed

lemma must_consume_frame:
  assumes "MustConsumeResourceLimit lim ctx l rq rid sched s = (r, s')" and "\<And>d. k \<noteq> keyForDimension l d"
  shows "charge s' k = charge s k"
proof (rule doResourceLimit_keeps [where P = "\<lambda>x. charge x k = charge s k"])
  show "doResourceLimit lim ctx l rq False rid True sched s = (r, s')"
    using assms(1) by (simp add: MustConsumeResourceLimit_def)
  fix c d x r y
  assume "charge x k = charge s k" and "checkDimension lim l rq False rid True c d x = (r, y)"
  then show "charge y k = charge s k" using must_ok must_err assms(2) [of d]
    by (fastforce simp: checkDimension_def split: if_splits prod.splits sum.splits)
qed simp

lemma test_charge:
  assumes "TestResourceLimit lim ctx l rq rid sched s = (r, s')"
  shows "charge s' = charge s"
proof (rule doResourceLimit_keeps [where P = "\<lambda>x. charge x = charge s"])
  show "doResourceLimit lim ctx l rq True rid False sched s = (r, s')"
    using assms by (simp add: TestResourceLimit_def)
  fix c d x r y
  assume "charge x = charge s" and "checkDimension lim l rq True rid False c d x = (r, y)"
  then show "charge y = charge s" using test_free
    by (fastforce simp: checkDimension_def split: if_splits prod.splits sum.splits)
qed simp

lemma commit_charge:
  assumes "Commit (Some q) ctx rq sched s = (Inr r, p', s')" and "limiter q = lim"
    and "schedule_ok sched" and "0 \<le> rr_InputTokens rq" "0 \<le> rr_OutputTokens rq"
    and "0 \<le> consumedInputTokens q" "0 \<le> reservedOutputTokens q"
    and "consumedInputTokens q + reservedOutputTokens q + rr_InputTokens rq + rr_OutputTokens rq \<le> MaxInt64"
  shows "p' = Some (q\<lparr>consumedInputTokens := consumedInputTokens q + rr_InputTokens rq,
                      reservedOutputTokens := reservedOutputTokens q + rr_OutputTokens rq\<rparr>)"
    and "charge s' (keyForDimension (limit q) d) = charge s (keyForDimension (limit q) d) +
      (if dimLimit (limit q) d = 0 then 0
       else dimShare d (rr_Requests rq) (rr_InputTokens rq) (rr_OutputTokens rq))"
proof -
  have ids: "add64 (consumedInputTokens q) (rr_InputTokens rq) = consumedInputTokens q + rr_InputTokens rq"
    "add64 (reservedOutputTokens q) (rr_OutputTokens rq) = reservedOutputTokens q + rr_OutputTokens rq"
    using assms(4-8) by (simp_all add: add64_id in_i64_def)
  have r: "in_i64 (rr_InputTokens rq + rr_OutputTokens rq)" using assms(4-8) by (simp add: in_i64_def)
  show "p' = Some (q\<lparr>consumedInputTokens := consumedInputTokens q + rr_InputTokens rq,
                      reservedOutputTokens := reservedOutputTokens q + rr_OutputTokens rq\<rparr>)"
    using assms(1) ids by (auto simp: Commit_def split: if_splits prod.splits sum.splits)
  show "charge s' (keyForDimension (limit q) d) = charge s (keyForDimension (limit q) d) +
      (if dimLimit (limit q) d = 0 then 0
       else dimShare d (rr_Requests rq) (rr_InputTokens rq) (rr_OutputTokens rq))"
    using assms(1-3) must_consume_charge [where d = d] due_share [OF r]
    by (auto simp: Commit_def split: if_splits prod.splits sum.splits)
qed

lemma commitAll_charge:
  assumes "commitAll (Some q) ctx rqs s = (Inr u, p', s')" and "limiter q = lim" and "commits_ok rqs"
    and "0 \<le> consumedInputTokens q" "0 \<le> reservedOutputTokens q"
    and "consumedInputTokens q + reservedOutputTokens q + total rr_InputTokens rqs
           + total rr_OutputTokens rqs \<le> MaxInt64"
  shows "p' = Some (q\<lparr>consumedInputTokens := consumedInputTokens q + total rr_InputTokens rqs,
                      reservedOutputTokens := reservedOutputTokens q + total rr_OutputTokens rqs\<rparr>) \<and>
    charge s' (keyForDimension (limit q) d) = charge s (keyForDimension (limit q) d) +
      (if dimLimit (limit q) d = 0 then 0
       else dimShare d (total rr_Requests rqs) (total rr_InputTokens rqs) (total rr_OutputTokens rqs))"
  using assms
proof (induction rqs arbitrary: q s)
  case Nil
  then show ?case by simp
next
  case (Cons x rqs)
  obtain rq sched where x: "x = (rq, sched)" by (cases x)
  have ok: "commits_ok rqs" and h: "schedule_ok sched" "0 \<le> rr_InputTokens rq" "0 \<le> rr_OutputTokens rq"
    using Cons.prems(3) x by auto
  have b: "consumedInputTokens q + reservedOutputTokens q + rr_InputTokens rq + rr_OutputTokens rq \<le> MaxInt64"
    using Cons.prems(6) total_nonneg [OF ok] x by simp
  obtain r p1 s1 where c: "Commit (Some q) ctx rq sched s = (r, p1, s1)"
    by (cases "Commit (Some q) ctx rq sched s")
  with Cons.prems(1) x obtain r' where r': "r = Inr r'" by (cases r) auto
  note one = commit_charge [OF c [unfolded r'] Cons.prems(2) h Cons.prems(4,5) b]
  let ?q = "q\<lparr>consumedInputTokens := consumedInputTokens q + rr_InputTokens rq,
               reservedOutputTokens := reservedOutputTokens q + rr_OutputTokens rq\<rparr>"
  have run: "commitAll (Some ?q) ctx rqs s1 = (Inr u, p', s')"
    using Cons.prems(1) x c r' one(1) by simp
  show ?case
    using Cons.IH [OF run] Cons.prems one(2) [of d] h ok x
    by (auto simp: dimShare_add [symmetric] add.assoc)
qed

lemma finalize_charge:
  assumes "FinalizeTokens (Some q) ctx rq sched s = (Inr r, p', s')" and "limiter q = lim"
    and "schedule_ok sched" and "0 \<le> rr_InputTokens rq" "0 \<le> rr_OutputTokens rq"
    and "rr_InputTokens rq + rr_OutputTokens rq \<le> MaxInt64"
    and "0 \<le> consumedInputTokens q" "0 \<le> reservedOutputTokens q"
    and "consumedInputTokens q + reservedOutputTokens q \<le> MaxInt64"
  shows "charge s' (keyForDimension (limit q) d) = charge s (keyForDimension (limit q) d) +
      (if dimLimit (limit q) d = 0 then 0
       else dimShare d 0 (rr_InputTokens rq - consumedInputTokens q) (rr_OutputTokens rq - reservedOutputTokens q))"
proof -
  let ?i = "rr_InputTokens rq - consumedInputTokens q" and ?w = "rr_OutputTokens rq - reservedOutputTokens q"
  let ?rq = "\<lparr>rr_Requests = 0, rr_InputTokens = ?i, rr_OutputTokens = ?w\<rparr>"
  have ids: "sub64 (rr_InputTokens rq) (consumedInputTokens q) = ?i"
    "sub64 (rr_OutputTokens rq) (reservedOutputTokens q) = ?w"
    using assms(4-9) by (simp_all add: sub64_id in_i64_def)
  have r: "in_i64 (rr_InputTokens ?rq + rr_OutputTokens ?rq)" using assms(4-9) by (simp add: in_i64_def)
  show ?thesis
  proof (cases "?i = 0 \<and> ?w = 0")
    case True
    with assms(1) ids have "s' = s" by (auto simp: FinalizeTokens_def Let_def)
    with True show ?thesis by simp
  next
    case False
    with assms(1,2) ids have
      "MustConsumeResourceLimit lim ctx (limit q) ?rq (requestID q) sched s = (Inr r, s')"
      by (auto simp: FinalizeTokens_def Let_def split: if_splits prod.splits)
    from must_consume_charge [OF this assms(3), of d] due_share [OF r] show ?thesis by simp
  qed
qed

lemma release_charge:
  assumes "ReleaseOutputReservation (Some q) ctx sched s = (Inr r, p', s')" and "limiter q = lim"
    and "schedule_ok sched" and "0 \<le> reservedOutputTokens q" "reservedOutputTokens q \<le> MaxInt64"
  shows "charge s' (keyForDimension (limit q) d) = charge s (keyForDimension (limit q) d) +
      (if dimLimit (limit q) d = 0 then 0 else dimShare d 0 0 (- reservedOutputTokens q))"
proof -
  let ?rq = "\<lparr>rr_Requests = 0, rr_InputTokens = 0, rr_OutputTokens = - reservedOutputTokens q\<rparr>"
  have n: "neg64 (reservedOutputTokens q) = - reservedOutputTokens q"
    using assms(4,5) by (simp add: neg64_id in_i64_def)
  have r: "in_i64 (rr_InputTokens ?rq + rr_OutputTokens ?rq)" using assms(4,5) by (simp add: in_i64_def)
  show ?thesis
  proof (cases "reservedOutputTokens q = 0")
    case True
    with assms(1) n have "s' = s" by (auto simp: ReleaseOutputReservation_def Let_def)
    with True show ?thesis by simp
  next
    case False
    with assms(1,2) n have
      "MustConsumeResourceLimit lim ctx (limit q) ?rq (requestID q) sched s = (Inr r, s')"
      by (auto simp: ReleaseOutputReservation_def Let_def split: if_splits prod.splits)
    from must_consume_charge [OF this assms(3), of d] due_share [OF r] show ?thesis by simp
  qed
qed

end

section \<open>Every limiter keeps accounts\<close>

text \<open>
  Any limiter with a ledger beside it: each must-consume check that succeeded is written down with
  its key and units. The net charge of a key is the sum of its entries.
\<close>

definition traced :: "'s RateLimiter \<Rightarrow> ('s \<times> (string \<times> i64) list) RateLimiter" where
  "traced lim =
     \<lparr>CheckLimit = (\<lambda>ctx k l n t rid m (s, tr).
        case CheckLimit lim (\<lambda>x. ctx (x, tr)) k l n t rid m s of
          (r, s') \<Rightarrow> (r, s', if \<not> t \<and> m \<and> is_ok r then (k, n) # tr else tr)),
      ResetKeys = (\<lambda>ctx ks (s, tr).
        case ResetKeys lim (\<lambda>x. ctx (x, tr)) ks s of (r, s') \<Rightarrow> (r, s', tr))\<rparr>"

definition netCharge :: "'s \<times> (string \<times> i64) list \<Rightarrow> string \<Rightarrow> int" where
  "netCharge st k = sum_list (map snd (filter (\<lambda>e. fst e = k) (snd st)))"

lemma traced_check:
  "CheckLimit (traced lim) ctx k l n t rid m s = (r, s') \<Longrightarrow>
   snd s' = (if \<not> t \<and> m \<and> is_ok r then (k, n) # snd s else snd s)"
  by (auto simp: traced_def split: prod.splits)

interpretation tl: charging "traced lim" netCharge for lim
  by unfold_locales (auto simp: netCharge_def fun_eq_iff dest!: traced_check)

text \<open>A group of checks that do not fail does not fail.\<close>

lemma runGroup_ok:
  assumes "\<And>c d s. \<exists>r s'. body c d s = (Inr r, s')"
  shows "\<exists>res' s'. runGroup body ctx sched None res s = ((None, res'), s')"
proof (induction sched arbitrary: res s)
  case (Cons p sched)
  obtain d sees where p: "p = (d, sees)" by (cases p)
  obtain r s1 where "body ctx d s = (Inr r, s1)" using assms by blast
  with Cons.IH p show ?case by (cases r) auto
qed simp

lemma allowAll_must_ok:
  "\<exists>r s'. MustConsumeResourceLimit (traced allowAll) ctx l rq rid sched s = (Inr r, s')"
proof -
  have "\<exists>r s'. checkDimension (traced allowAll) l rq False rid True c d x = (Inr r, s')" for c d x
    by (cases x) (simp add: checkDimension_def traced_def allowAll_def)
  from runGroup_ok [of "checkDimension (traced allowAll) l rq False rid True", OF this, of ctx sched Map.empty s]
  show ?thesis by (auto simp: MustConsumeResourceLimit_def doResourceLimit_def)
qed

lemma allowAll_commit_ok:
  assumes "limiter q = traced allowAll"
  shows "\<exists>q' s'. commitAll (Some q) ctx [(rq, sched)] s = (Inr (), Some q', s') \<and> limiter q' = limiter q"
  using allowAll_must_ok [of ctx "limit q" rq "requestID q" sched s] assms
  by (fastforce simp: Commit_def)

lemma allowAll_settle_ok:
  assumes "limiter q = traced allowAll"
  shows "\<exists>r p' s'. FinalizeTokens (Some q) ctx rq sched s = (Inr r, p', s')"
    and "\<exists>r p' s'. ReleaseOutputReservation (Some q) ctx sched s = (Inr r, p', s')"
proof -
  have ok: "\<exists>r s'. MustConsumeResourceLimit (limiter q) ctx (limit q) x (requestID q) sched s = (Inr r, s')" for x
    using allowAll_must_ok assms by simp
  obtain r s' where "MustConsumeResourceLimit (limiter q) ctx (limit q)
      \<lparr>rr_Requests = 0, rr_InputTokens = sub64 (rr_InputTokens rq) (consumedInputTokens q),
       rr_OutputTokens = sub64 (rr_OutputTokens rq) (reservedOutputTokens q)\<rparr> (requestID q) sched s = (Inr r, s')"
    using ok by blast
  then show "\<exists>r p' s'. FinalizeTokens (Some q) ctx rq sched s = (Inr r, p', s')"
    by (simp add: FinalizeTokens_def Let_def)
  obtain r s' where "MustConsumeResourceLimit (limiter q) ctx (limit q)
      \<lparr>rr_Requests = 0, rr_InputTokens = 0, rr_OutputTokens = neg64 (reservedOutputTokens q)\<rparr>
      (requestID q) sched s = (Inr r, s')"
    using ok by blast
  then show "\<exists>r p' s'. ReleaseOutputReservation (Some q) ctx sched s = (Inr r, p', s')"
    by (simp add: ReleaseOutputReservation_def Let_def)
qed

section \<open>Properties\<close>

text \<open>
  Reservations settle exactly. After any run of successful commits and a successful
  \<open>FinalizeTokens\<close> with the actual usage, over any limiter and any schedules, every limited
  dimension of the plan has been charged the committed requests and the actual tokens: the
  reserved tokens have cancelled out. The usage and the reservations have to fit \<open>int64\<close>.
\<close>

lemma AdmissionPlan_settles:
  assumes "commitAll (Some q) ctx rqs s = (Inr u, p1, s1)"
    and "FinalizeTokens p1 ctx actual sched s1 = (Inr r, p2, s2)"
    and "limiter q = traced lim" and "fresh_plan q" and "commits_ok rqs" and "schedule_ok sched"
    and "total rr_InputTokens rqs + total rr_OutputTokens rqs \<le> MaxInt64"
    and "0 \<le> rr_InputTokens actual" "0 \<le> rr_OutputTokens actual"
    and "rr_InputTokens actual + rr_OutputTokens actual \<le> MaxInt64"
    and "dimLimit (limit q) d \<noteq> 0"
  shows "netCharge s2 (keyForDimension (limit q) d) = netCharge s (keyForDimension (limit q) d) +
     dimShare d (total rr_Requests rqs) (rr_InputTokens actual) (rr_OutputTokens actual)"
proof -
  note tot = total_nonneg [OF assms(5)]
  have zero: "consumedInputTokens q = 0" "reservedOutputTokens q = 0"
    using assms(4) by (simp_all add: fresh_plan_def)
  let ?q = "q\<lparr>consumedInputTokens := total rr_InputTokens rqs, reservedOutputTokens := total rr_OutputTokens rqs\<rparr>"
  have one: "p1 = Some ?q \<and> netCharge s1 (keyForDimension (limit q) d) =
      netCharge s (keyForDimension (limit q) d) +
      dimShare d (total rr_Requests rqs) (total rr_InputTokens rqs) (total rr_OutputTokens rqs)"
    using tl.commitAll_charge [OF assms(1,3,5), of d] zero assms(7,11) by simp
  have "FinalizeTokens (Some ?q) ctx actual sched s1 = (Inr r, p2, s2)" using one assms(2) by simp
  from tl.finalize_charge [OF this, of lim d] one assms tot show ?thesis
    by (simp add: dimShare_add add.assoc)
qed

text \<open>
  A request that reserved 100 input and 50 output tokens and produced 20 is charged 120 tokens of
  its minute.
\<close>

text \<open>
  A request that produced no response gives its output reservation back: after a run of commits
  and \<open>ReleaseOutputReservation\<close>, every limited dimension has been charged the committed requests
  and input tokens, and no output tokens.
\<close>

lemma AdmissionPlan_releases:
  assumes "commitAll (Some q) ctx rqs s = (Inr u, p1, s1)"
    and "ReleaseOutputReservation p1 ctx sched s1 = (Inr r, p2, s2)"
    and "limiter q = traced lim" and "fresh_plan q" and "commits_ok rqs" and "schedule_ok sched"
    and "total rr_InputTokens rqs + total rr_OutputTokens rqs \<le> MaxInt64"
    and "dimLimit (limit q) d \<noteq> 0"
  shows "netCharge s2 (keyForDimension (limit q) d) = netCharge s (keyForDimension (limit q) d) +
     dimShare d (total rr_Requests rqs) (total rr_InputTokens rqs) 0"
proof -
  note tot = total_nonneg [OF assms(5)]
  have zero: "consumedInputTokens q = 0" "reservedOutputTokens q = 0"
    using assms(4) by (simp_all add: fresh_plan_def)
  let ?q = "q\<lparr>consumedInputTokens := total rr_InputTokens rqs, reservedOutputTokens := total rr_OutputTokens rqs\<rparr>"
  have one: "p1 = Some ?q \<and> netCharge s1 (keyForDimension (limit q) d) =
      netCharge s (keyForDimension (limit q) d) +
      dimShare d (total rr_Requests rqs) (total rr_InputTokens rqs) (total rr_OutputTokens rqs)"
    using tl.commitAll_charge [OF assms(1,3,5), of d] zero assms(7,8) by simp
  have "ReleaseOutputReservation (Some ?q) ctx sched s1 = (Inr r, p2, s2)" using one assms(2) by simp
  from tl.release_charge [OF this, of lim d] one assms tot show ?thesis
    by (simp add: dimShare_add add.assoc)
qed

text \<open>
  A request that reserved 100 input and 50 output tokens and failed is charged its 100 input tokens.
\<close>

end
