(* ===== verification/GatewayPlan.thy ===== *)
theory GatewayPlan
  imports GatewayStats Admission
begin

text \<open>
  Admission of a request by the gateway (\<open>api/ratelimit.go\<close>, \<open>api/handlers.go\<close>): the limits of the
  request are checked as a group, the first group that passes is charged, and the charge is
  settled when the response is done.

  The methods take the schedules of the concurrent checks (\<open>sch i\<close> for the limit or plan of index
  \<open>i\<close>) and the iteration orders of the result maps. The response header and the context
  value of the \<open>GatewayContext\<close> are fields of the plan. \<open>finalizedPlans\<close> aliases the plans of a group
  in the source; here it is the index of that group.
\<close>

section \<open>Data\<close>

record 's limitGroup =
  lg_limits :: "ResourceLimit list"
  lg_plans :: "'s AdmissionPlan list"

record 's GatewayAdmissionPlan =
  gp_groups :: "'s limitGroup list"
  gp_successCtx :: "RateLimitContext list"
  gp_failedCtx :: "RateLimitContext option"
  gp_rl :: "'s RateLimiter"
  gp_checkRequest :: ResourceRequest
  gp_consumeRequest :: ResourceRequest
  gp_requestID :: string
  gp_finalized :: bool
  gp_finalizedPlans :: "nat option"
  octx_header :: header
  octx_rateLimit :: "RateLimitContext option"

text \<open>The methods are those of a plan that is not nil; on a nil plan they return nothing. The HTTP errors: status 429, and status 500 with a cause.\<close>

datatype http_error = RateLimitExceeded | LimitCheckErr rl_error | CommitErr rl_error | ResolveErr parse_error

record env =
  sch :: "nat \<Rightarrow> schedule"
  ord :: "nat \<Rightarrow> LimitDimension list"

section \<open>Groups\<close>

definition getLimitGroups ::
    "LimitResolver \<Rightarrow> RequestContext \<Rightarrow> string \<Rightarrow> 's RateLimiter \<Rightarrow> string \<Rightarrow> parse_error + 's limitGroup list" where
  "getLimitGroups resolver reqCtx endpoint rl rid =
     (case resolver (Some reqCtx) endpoint of
        Inl e \<Rightarrow> Inl e
      | Inr limits \<Rightarrow>
          if limits = [] then Inr []
          else (let plans = List.map_filter (\<lambda>l. NewAdmissionPlan (Some rl) l rid) limits
                in if plans = [] then Inr [] else Inr [\<lparr>lg_limits = limits, lg_plans = plans\<rparr>]))"

definition NewGatewayAdmissionPlan ::
    "RequestContext option \<Rightarrow> string \<Rightarrow> LimitResolver option \<Rightarrow> 's RateLimiter option \<Rightarrow> ResourceRequest
       \<Rightarrow> ResourceRequest \<Rightarrow> string \<Rightarrow> header \<Rightarrow> http_error + 's GatewayAdmissionPlan option" where
  "NewGatewayAdmissionPlan reqCtx endpoint resolver rl checkRequest consumeRequest rid hdr =
     (case (reqCtx, resolver, rl) of
        (Some rc, Some res, Some lim) \<Rightarrow>
          (case getLimitGroups res rc endpoint lim rid of
             Inl e \<Rightarrow> Inl (ResolveErr e)
           | Inr groups \<Rightarrow>
               if groups = [] then Inr None
               else Inr (Some \<lparr>gp_groups = groups, gp_successCtx = [], gp_failedCtx = None, gp_rl = lim,
                               gp_checkRequest = checkRequest, gp_consumeRequest = consumeRequest,
                               gp_requestID = rid, gp_finalized = False, gp_finalizedPlans = None,
                               octx_header = hdr, octx_rateLimit = None\<rparr>))
      | _ \<Rightarrow> Inr None)"

section \<open>The check of a group\<close>

datatype checkOutcome = CheckFailed rl_error | CheckLimited RateLimitContext | CheckPassed RateLimitContext

fun testLimits ::
    "'s RateLimiter \<Rightarrow> 's ctx \<Rightarrow> ResourceRequest \<Rightarrow> string \<Rightarrow> (nat \<Rightarrow> schedule) \<Rightarrow> nat \<Rightarrow> ResourceLimit list \<Rightarrow> 's
       \<Rightarrow> (rl_error + results list) \<times> 's" where
  "testLimits rl ctx request rid sc i [] s = (Inr [], s)"
| "testLimits rl ctx request rid sc i (l # ls) s =
     (case TestResourceLimit rl ctx l request rid (sc i) s of
        (Inl e, s') \<Rightarrow> (Inl e, s')
      | (Inr results, s') \<Rightarrow>
          (case testLimits rl ctx request rid sc (Suc i) ls s' of
             (Inl e, s'') \<Rightarrow> (Inl e, s'')
           | (Inr rest, s'') \<Rightarrow> (Inr (results # rest), s'')))"

definition anyDenied :: "results \<Rightarrow> bool" where
  "anyDenied results \<longleftrightarrow>
     list_ex (\<lambda>d. case results d of None \<Rightarrow> False | Some r \<Rightarrow> \<not> Allowed r) allLimitDimensions"

definition checkRateLimit ::
    "env \<Rightarrow> 's ctx \<Rightarrow> 's RateLimiter \<Rightarrow> ResourceLimit list \<Rightarrow> ResourceRequest \<Rightarrow> string \<Rightarrow> 's
       \<Rightarrow> checkOutcome \<times> 's" where
  "checkRateLimit en ctx rl resourceLimits request rid s =
     (case testLimits rl ctx request rid (sch en) 0 resourceLimits s of
        (Inl e, s') \<Rightarrow> (CheckFailed e, s')
      | (Inr rs, s') \<Rightarrow>
          (let rlCtx = calculateStats (ord en)
                 \<lparr>Stats = zeroStats, Results = rs, AppliedLimits = resourceLimits, limitingDimension = None,
                  limitingResult = None, limitingResourceLimit = zeroResourceLimit\<rparr>
           in if list_ex anyDenied rs then (CheckLimited rlCtx, s') else (CheckPassed rlCtx, s')))"

text \<open>The loop of \<open>CheckRequests\<close>: the groups that pass with their contexts, the last context and error.\<close>

fun checkGroups ::
    "env \<Rightarrow> 's ctx \<Rightarrow> 's RateLimiter \<Rightarrow> ResourceRequest \<Rightarrow> string \<Rightarrow> 's limitGroup list
       \<Rightarrow> ('s limitGroup list \<times> RateLimitContext list) \<times> RateLimitContext option \<times> http_error option \<Rightarrow> 's
       \<Rightarrow> (('s limitGroup list \<times> RateLimitContext list) \<times> RateLimitContext option \<times> http_error option) \<times> 's" where
  "checkGroups en ctx rl request rid [] acc s = (acc, s)"
| "checkGroups en ctx rl request rid (g # gs) ((passing, succ), lastCtx, lastErr) s =
     (case checkRateLimit en ctx rl (lg_limits g) request rid s of
        (CheckFailed e, s') \<Rightarrow>
          checkGroups en ctx rl request rid gs ((passing, succ), lastCtx, Some (LimitCheckErr e)) s'
      | (CheckLimited c, s') \<Rightarrow>
          checkGroups en ctx rl request rid gs ((passing, succ), Some c, Some RateLimitExceeded) s'
      | (CheckPassed c, s') \<Rightarrow>
          checkGroups en ctx rl request rid gs ((passing @ [g], succ @ [c]), Some c, lastErr) s')"

definition GatewayCheckRequests ::
    "env \<Rightarrow> 's ctx \<Rightarrow> 's GatewayAdmissionPlan \<Rightarrow> 's \<Rightarrow> (http_error option \<times> 's GatewayAdmissionPlan) \<times> 's" where
  "GatewayCheckRequests en ctx p s =
     (if rr_Requests (gp_checkRequest p) = 0 then ((None, p), s)
      else (case checkGroups en ctx (gp_rl p)
                   \<lparr>rr_Requests = rr_Requests (gp_checkRequest p), rr_InputTokens = 0, rr_OutputTokens = 0\<rparr>
                   (gp_requestID p) (gp_groups p) (([], []), None, None) s of
              (((passing, succ), lastCtx, lastErr), s') \<Rightarrow>
                (let p' = p\<lparr>gp_groups := passing, gp_successCtx := succ\<rparr>
                 in if passing = [] then ((lastErr, p'\<lparr>gp_failedCtx := lastCtx\<rparr>), s')
                    else ((None, p'), s'))))"

section \<open>Charging and settling\<close>

text \<open>
  A method called on each plan of a list in turn, up to the first error, with the results merged.
  The list with the plans as the calls leave them is returned in every case.
\<close>

fun runPlans ::
    "(nat \<Rightarrow> 's AdmissionPlan \<Rightarrow> 's \<Rightarrow> (rl_error + results) \<times> 's AdmissionPlan option \<times> 's) \<Rightarrow> nat
       \<Rightarrow> 's AdmissionPlan list \<Rightarrow> results \<Rightarrow> 's \<Rightarrow> ((rl_error + results) \<times> 's AdmissionPlan list) \<times> 's" where
  "runPlans call i [] merged s = ((Inr merged, []), s)"
| "runPlans call i (q # qs) merged s =
     (case call i q s of
        (Inl e, p', s') \<Rightarrow> ((Inl e, (case p' of None \<Rightarrow> q | Some q' \<Rightarrow> q') # qs), s')
      | (Inr results, p', s') \<Rightarrow>
          (case runPlans call (Suc i) qs (mergeRateLimitResults merged results) s' of
             ((out, qs'), s'') \<Rightarrow> ((out, (case p' of None \<Rightarrow> q | Some q' \<Rightarrow> q') # qs'), s'')))"

definition commitPlans ::
    "env \<Rightarrow> 's ctx \<Rightarrow> ResourceRequest \<Rightarrow> 's AdmissionPlan list \<Rightarrow> 's
       \<Rightarrow> ((rl_error + results) \<times> 's AdmissionPlan list) \<times> 's" where
  "commitPlans en ctx request qs s =
     runPlans (\<lambda>i q. Commit (Some q) ctx request (sch en i)) 0 qs Map.empty s"

datatype 's finalizeOutcome =
    GroupFinalized nat RateLimitContext "'s AdmissionPlan list"
  | GroupCommitFailed nat "'s AdmissionPlan list" rl_error
  | NoGroupLeft "RateLimitContext option" "http_error option"

text \<open>
  The loop of \<open>CheckTokensAndFinalize\<close> over the groups with their contexts of the first pass, which
  \<open>CheckRequests\<close> leaves in step.
\<close>

fun finalizeGroups ::
    "env \<Rightarrow> 's ctx \<Rightarrow> 's RateLimiter \<Rightarrow> ResourceRequest \<Rightarrow> ResourceRequest \<Rightarrow> string \<Rightarrow> nat
       \<Rightarrow> ('s limitGroup \<times> RateLimitContext) list \<Rightarrow> RateLimitContext option \<Rightarrow> http_error option \<Rightarrow> 's
       \<Rightarrow> 's finalizeOutcome \<times> 's" where
  "finalizeGroups en ctx rl tokenOnly consume rid i [] lastCtx lastErr s = (NoGroupLeft lastCtx lastErr, s)"
| "finalizeGroups en ctx rl tokenOnly consume rid i ((g, first) # gs) lastCtx lastErr s =
     (case checkRateLimit en ctx rl (lg_limits g) tokenOnly rid s of
        (CheckFailed e, s') \<Rightarrow>
          finalizeGroups en ctx rl tokenOnly consume rid (Suc i) gs
            (mergeRateLimitContexts (ord en) None (Some first)) (Some (LimitCheckErr e)) s'
      | (CheckLimited c, s') \<Rightarrow>
          finalizeGroups en ctx rl tokenOnly consume rid (Suc i) gs
            (mergeRateLimitContexts (ord en) (Some c) (Some first)) (Some RateLimitExceeded) s'
      | (CheckPassed c, s') \<Rightarrow>
          (case commitPlans en ctx consume (lg_plans g) s' of
             ((Inl e, qs), s'') \<Rightarrow> (GroupCommitFailed i qs e, s'')
           | ((Inr _, qs), s'') \<Rightarrow>
               (case mergeRateLimitContexts (ord en) (Some c) (Some first) of
                  None \<Rightarrow> (GroupFinalized i c qs, s'')
                | Some combined \<Rightarrow> (GroupFinalized i combined qs, s''))))"

definition GatewayCheckTokensAndFinalize ::
    "env \<Rightarrow> 's ctx \<Rightarrow> 's GatewayAdmissionPlan \<Rightarrow> 's
       \<Rightarrow> ((http_error + RateLimitContext option) \<times> 's GatewayAdmissionPlan) \<times> 's" where
  "GatewayCheckTokensAndFinalize en ctx p s =
     (case finalizeGroups en ctx (gp_rl p) ((gp_checkRequest p)\<lparr>rr_Requests := 0\<rparr>) (gp_consumeRequest p)
             (gp_requestID p) 0 (zip (gp_groups p) (gp_successCtx p)) None None s of
        (GroupFinalized i c qs, s') \<Rightarrow>
          ((Inr (Some c),
            p\<lparr>gp_groups := (gp_groups p)[i := (gp_groups p ! i)\<lparr>lg_plans := qs\<rparr>],
              octx_header := applyRateLimitHeaders (Some c) (octx_header p), octx_rateLimit := Some c,
              gp_finalized := True, gp_finalizedPlans := Some i\<rparr>), s')
      | (GroupCommitFailed i qs e, s') \<Rightarrow>
          ((Inl (CommitErr e),
            p\<lparr>gp_groups := (gp_groups p)[i := (gp_groups p ! i)\<lparr>lg_plans := qs\<rparr>]\<rparr>), s')
      | (NoGroupLeft lastCtx lastErr, s') \<Rightarrow>
          ((case lastErr of None \<Rightarrow> Inr lastCtx | Some e \<Rightarrow> Inl e, p\<lparr>gp_failedCtx := lastCtx\<rparr>), s'))"

text \<open>A settling method on the plans of the finalized group.\<close>

definition settleWith ::
    "(nat \<Rightarrow> 's AdmissionPlan \<Rightarrow> 's \<Rightarrow> (rl_error + results) \<times> 's AdmissionPlan option \<times> 's)
       \<Rightarrow> 's GatewayAdmissionPlan \<Rightarrow> 's \<Rightarrow> ((rl_error + results) \<times> 's GatewayAdmissionPlan) \<times> 's" where
  "settleWith call p s =
     (case gp_finalizedPlans p of
        None \<Rightarrow> ((Inr Map.empty, p), s)
      | Some i \<Rightarrow>
          (case runPlans call 0 (lg_plans (gp_groups p ! i)) Map.empty s of
             ((out, qs), s') \<Rightarrow>
               ((out, p\<lparr>gp_groups := (gp_groups p)[i := (gp_groups p ! i)\<lparr>lg_plans := qs\<rparr>]\<rparr>), s')))"

definition GatewayFinalizeTokens ::
    "env \<Rightarrow> 's ctx \<Rightarrow> ResourceRequest \<Rightarrow> 's GatewayAdmissionPlan \<Rightarrow> 's
       \<Rightarrow> ((rl_error + results) \<times> 's GatewayAdmissionPlan) \<times> 's" where
  "GatewayFinalizeTokens en ctx request p s =
     settleWith (\<lambda>i q. FinalizeTokens (Some q) ctx request (sch en i)) p s"

definition GatewayReleaseOutputReservation ::
    "env \<Rightarrow> 's ctx \<Rightarrow> 's GatewayAdmissionPlan \<Rightarrow> 's \<Rightarrow> ((rl_error + results) \<times> 's GatewayAdmissionPlan) \<times> 's" where
  "GatewayReleaseOutputReservation en ctx p s =
     settleWith (\<lambda>i q. ReleaseOutputReservation (Some q) ctx (sch en i)) p s"

definition GatewayClose :: "env \<Rightarrow> 's GatewayAdmissionPlan \<Rightarrow> 's GatewayAdmissionPlan" where
  "GatewayClose en p =
     (if gp_finalized p then p
      else (case (case gp_failedCtx p of
                    Some c \<Rightarrow> Some c
                  | None \<Rightarrow> if gp_successCtx p \<noteq> [] then Some (last (gp_successCtx p)) else None) of
              None \<Rightarrow> p
            | Some c \<Rightarrow>
                (let c' = RevertAndRecalculateStats (ord en) c
                 in p\<lparr>octx_header := applyRateLimitHeaders (Some c') (octx_header p),
                      octx_rateLimit := Some c'\<rparr>)))"

section \<open>The handlers\<close>

text \<open>The admission of a request by the handlers; \<open>Close\<close> is deferred, so it runs on every return.\<close>

definition admit ::
    "env \<Rightarrow> 's ctx \<Rightarrow> RequestContext option \<Rightarrow> string \<Rightarrow> LimitResolver option \<Rightarrow> 's RateLimiter option \<Rightarrow> ResourceRequest
       \<Rightarrow> ResourceRequest \<Rightarrow> string \<Rightarrow> header \<Rightarrow> 's
       \<Rightarrow> ((http_error option) \<times> 's GatewayAdmissionPlan option) \<times> 's" where
  "admit en ctx reqCtx endpoint resolver rl checkRequest consumeRequest rid hdr s =
     (case NewGatewayAdmissionPlan reqCtx endpoint resolver rl checkRequest consumeRequest rid hdr of
        Inl e \<Rightarrow> ((Some e, None), s)
      | Inr None \<Rightarrow> ((None, None), s)
      | Inr (Some p) \<Rightarrow>
          (case GatewayCheckRequests en ctx p s of
             ((Some e, p1), s1) \<Rightarrow> ((Some e, Some (GatewayClose en p1)), s1)
           | ((None, p1), s1) \<Rightarrow>
               (case GatewayCheckTokensAndFinalize en ctx p1 s1 of
                  ((Inl e, p2), s2) \<Rightarrow> ((Some e, Some (GatewayClose en p2)), s2)
                | ((Inr _, p2), s2) \<Rightarrow> ((None, Some (GatewayClose en p2)), s2))))"

definition admitProxyRequest ::
    "env \<Rightarrow> 's ctx \<Rightarrow> RequestContext option \<Rightarrow> string \<Rightarrow> LimitResolver option \<Rightarrow> 's RateLimiter option \<Rightarrow> int \<Rightarrow> int \<Rightarrow> string
       \<Rightarrow> header \<Rightarrow> 's \<Rightarrow> ((http_error option) \<times> 's GatewayAdmissionPlan option) \<times> 's" where
  "admitProxyRequest en ctx reqCtx endpoint resolver rl inputTokens outputTokens rid hdr s =
     (let checkRequest = \<lparr>rr_Requests = 1, rr_InputTokens = max 0 inputTokens, rr_OutputTokens = max 0 outputTokens\<rparr>
      in admit en ctx reqCtx endpoint resolver rl checkRequest checkRequest rid hdr s)"

record ChatCompletionUsage =
  PromptTokens :: int
  CompletionTokens :: int
  TotalTokens :: int

definition usageHasTokenCounts :: "ChatCompletionUsage option \<Rightarrow> bool" where
  "usageHasTokenCounts usage =
     (case usage of
        None \<Rightarrow> False
      | Some u \<Rightarrow> TotalTokens u > 0 \<or> PromptTokens u > 0 \<or> CompletionTokens u > 0)"

definition releaseReservedTokenConsumption ::
    "env \<Rightarrow> 's ctx \<Rightarrow> 's GatewayAdmissionPlan option \<Rightarrow> 's \<Rightarrow> 's GatewayAdmissionPlan option \<times> 's" where
  "releaseReservedTokenConsumption en ctx plan s =
     (case plan of
        None \<Rightarrow> (None, s)
      | Some p \<Rightarrow> (case GatewayReleaseOutputReservation en ctx p s of ((_, p'), s') \<Rightarrow> (Some p', s')))"

definition finalizeTokenConsumption ::
    "env \<Rightarrow> 's ctx \<Rightarrow> 's GatewayAdmissionPlan option \<Rightarrow> int \<Rightarrow> ChatCompletionUsage option \<Rightarrow> 's
       \<Rightarrow> 's GatewayAdmissionPlan option \<times> 's" where
  "finalizeTokenConsumption en ctx plan requestInputTokens usage s =
     (case plan of
        None \<Rightarrow> (None, s)
      | Some p \<Rightarrow>
          if \<not> usageHasTokenCounts usage then releaseReservedTokenConsumption en ctx plan s
          else (case usage of
                  None \<Rightarrow> (plan, s)
                | Some u \<Rightarrow>
                    (let inputTokens = (if PromptTokens u > 0 then PromptTokens u else requestInputTokens)
                     in case GatewayFinalizeTokens en ctx
                               \<lparr>rr_Requests = 0, rr_InputTokens = inputTokens, rr_OutputTokens = CompletionTokens u\<rparr>
                               p s of
                          ((_, p'), s') \<Rightarrow> (Some p', s'))))"

section \<open>Charges of a group\<close>

definition sameKeyFree :: "string \<Rightarrow> ResourceLimit \<Rightarrow> bool" where
  "sameKeyFree k l \<longleftrightarrow> (\<forall>d. k \<noteq> keyForDimension l d)"

lemma sameKeyFree_other: "rl_SubjectKey l \<noteq> rl_SubjectKey l' \<Longrightarrow> sameKeyFree (keyForDimension l d) l'"
  by (simp add: sameKeyFree_def keyForDimension_eq)

context charging
begin

lemma testLimits_charge:
  "testLimits lim ctx rq rid sc i ls s = (r, s') \<Longrightarrow> charge s' = charge s"
proof (induction ls arbitrary: i s r)
  case Nil
  then show ?case by simp
next
  case (Cons l ls)
  obtain r1 s1 where one: "TestResourceLimit lim ctx l rq rid (sc i) s = (r1, s1)"
    by (cases "TestResourceLimit lim ctx l rq rid (sc i) s")
  have "s' = s1 \<or> (\<exists>r2. testLimits lim ctx rq rid sc (Suc i) ls s1 = (r2, s'))"
    using Cons.prems one by (auto split: sum.splits prod.splits)
  with Cons.IH test_charge [OF one] show ?case by auto
qed

lemma checkRateLimit_charge: "checkRateLimit en ctx lim ls rq rid s = (r, s') \<Longrightarrow> charge s' = charge s"
  using testLimits_charge by (fastforce simp: checkRateLimit_def Let_def split: prod.splits sum.splits if_splits)

lemma checkGroups_charge:
  "checkGroups en ctx lim rq rid gs acc s = (r, s') \<Longrightarrow> charge s' = charge s"
proof (induction gs arbitrary: acc s)
  case Nil
  then show ?case by simp
next
  case (Cons g gs)
  obtain passing succ lastCtx lastErr where acc: "acc = ((passing, succ), lastCtx, lastErr)"
    by (metis prod.exhaust)
  obtain o1 s1 where one: "checkRateLimit en ctx lim (lg_limits g) rq rid s = (o1, s1)"
    by (cases "checkRateLimit en ctx lim (lg_limits g) rq rid s")
  from Cons.prems one acc obtain acc1 where "checkGroups en ctx lim rq rid gs acc1 s1 = (r, s')"
    by (cases o1) auto
  from Cons.IH [OF this] checkRateLimit_charge [OF one] show ?case by simp
qed

lemma checkRequests_charge:
  assumes "gp_rl p = lim" and "GatewayCheckRequests en ctx p s = ((err, p1), s1)"
  shows "charge s1 = charge s \<and> gp_rl p1 = lim"
proof (cases "rr_Requests (gp_checkRequest p) = 0")
  case True
  with assms show ?thesis by (simp add: GatewayCheckRequests_def)
next
  case False
  let ?run = "checkGroups en ctx (gp_rl p)
      \<lparr>rr_Requests = rr_Requests (gp_checkRequest p), rr_InputTokens = 0, rr_OutputTokens = 0\<rparr>
      (gp_requestID p) (gp_groups p) (([], []), None, None) s"
  obtain passing succ lastCtx lastErr s' where run: "?run = (((passing, succ), lastCtx, lastErr), s')"
    by (metis prod.exhaust)
  then have "charge s' = charge s" using assms(1) checkGroups_charge by blast
  moreover have "s1 = s' \<and> gp_rl p1 = lim"
    using assms run False by (auto simp: GatewayCheckRequests_def Let_def split: if_splits)
  ultimately show ?thesis by simp
qed

text \<open>A run of plan methods with different subjects: each moves the charges of its own subject only.\<close>

lemma runPlans_charge:
  assumes "\<And>i q x r p' y. q \<in> set qs \<Longrightarrow> call i q x = (Inr r, p', y) \<Longrightarrow>
        p' = Some (upd q) \<and> (\<forall>d. charge y (keyForDimension (limit q) d) =
          charge x (keyForDimension (limit q) d) + amount q d) \<and>
        (\<forall>k. sameKeyFree k (limit q) \<longrightarrow> charge y k = charge x k)"
    and "distinct (map (rl_SubjectKey \<circ> limit) qs)"
    and "runPlans call i qs merged s = ((Inr r, qs'), s')"
  shows "qs' = map upd qs \<and>
    (\<forall>q \<in> set qs. \<forall>d. charge s' (keyForDimension (limit q) d) = charge s (keyForDimension (limit q) d) + amount q d) \<and>
    (\<forall>k. (\<forall>q \<in> set qs. sameKeyFree k (limit q)) \<longrightarrow> charge s' k = charge s k)"
  using assms
proof (induction qs arbitrary: i merged s qs')
  case Nil
  then show ?case by simp
next
  case (Cons q qs)
  obtain r1 p1 s1 where c: "call i q s = (r1, p1, s1)" by (cases "call i q s")
  with Cons.prems(3) obtain r1' where r1: "r1 = Inr r1'" by (cases r1) auto
  from Cons.prems(1) [of q i s r1' p1 s1] c r1 have
    p1: "p1 = Some (upd q)"
    and own: "\<forall>d. charge s1 (keyForDimension (limit q) d) = charge s (keyForDimension (limit q) d) + amount q d"
    and frame: "\<forall>k. sameKeyFree k (limit q) \<longrightarrow> charge s1 k = charge s k" by simp_all
  from Cons.prems(3) c r1 p1 obtain qs1 where run: "runPlans call (Suc i) qs (mergeRateLimitResults merged r1') s1
      = ((Inr r, qs1), s')" and qs': "qs' = upd q # qs1" by (auto split: prod.splits)
  have ih: "qs1 = map upd qs \<and>
    (\<forall>q \<in> set qs. \<forall>d. charge s' (keyForDimension (limit q) d) = charge s1 (keyForDimension (limit q) d) + amount q d) \<and>
    (\<forall>k. (\<forall>q \<in> set qs. sameKeyFree k (limit q)) \<longrightarrow> charge s' k = charge s1 k)"
    by (rule Cons.IH [OF _ _ run], rule Cons.prems(1)) (use Cons.prems(2) in auto)
  have other: "rl_SubjectKey (limit q') \<noteq> rl_SubjectKey (limit q)" if "q' \<in> set qs" for q'
    using Cons.prems(2) that by (auto simp: image_iff)
  show ?case
  proof (intro conjI ballI allI impI)
    show "qs' = map upd (q # qs)" using ih qs' by simp
  next
    fix q' d
    assume "q' \<in> set (q # qs)"
    then consider "q' = q" | "q' \<in> set qs" by auto
    then show "charge s' (keyForDimension (limit q') d) = charge s (keyForDimension (limit q') d) + amount q' d"
    proof cases
      case 1
      have "charge s' (keyForDimension (limit q) d) = charge s1 (keyForDimension (limit q) d)"
        using ih other sameKeyFree_other by metis
      with own 1 show ?thesis by simp
    next
      case 2
      have "charge s1 (keyForDimension (limit q') d) = charge s (keyForDimension (limit q') d)"
        using frame sameKeyFree_other [OF other [OF 2]] by blast
      with ih 2 show ?thesis by simp
    qed
  next
    fix k
    assume "\<forall>q' \<in> set (q # qs). sameKeyFree k (limit q')"
    with ih frame show "charge s' k = charge s k" by simp
  qed
qed

text \<open>The three plan methods leave the charges of other subjects alone.\<close>

lemma plan_frame:
  assumes "limiter q = lim" and "sameKeyFree k (limit q)"
  shows "Commit (Some q) ctx rq sched s = (r, p', s') \<Longrightarrow> charge s' k = charge s k"
    and "FinalizeTokens (Some q) ctx rq sched s = (r, p', s') \<Longrightarrow> charge s' k = charge s k"
    and "ReleaseOutputReservation (Some q) ctx sched s = (r, p', s') \<Longrightarrow> charge s' k = charge s k"
proof -
  have f: "charge y k = charge x k"
    if "MustConsumeResourceLimit (limiter q) ctx (limit q) rq' (requestID q) sched x = (r', y)" for rq' r' x y
    using must_consume_frame that assms by (simp add: sameKeyFree_def)
  show "Commit (Some q) ctx rq sched s = (r, p', s') \<Longrightarrow> charge s' k = charge s k"
    using f by (fastforce simp: Commit_def split: if_splits prod.splits sum.splits)
  show "FinalizeTokens (Some q) ctx rq sched s = (r, p', s') \<Longrightarrow> charge s' k = charge s k"
    using f by (fastforce simp: FinalizeTokens_def Let_def split: if_splits prod.splits)
  show "ReleaseOutputReservation (Some q) ctx sched s = (r, p', s') \<Longrightarrow> charge s' k = charge s k"
    using f by (fastforce simp: ReleaseOutputReservation_def Let_def split: if_splits prod.splits)
qed

text \<open>Only the group that is finalized is charged.\<close>

lemma finalizeGroups_finalized:
  assumes "finalizeGroups en ctx lim t c rid i gs lastCtx lastErr s = (GroupFinalized j cc qs, s')"
  shows "i \<le> j \<and> j - i < length gs \<and> (\<exists>s1 r. charge s1 = charge s \<and>
     commitPlans en ctx c (lg_plans (fst (gs ! (j - i)))) s1 = ((Inr r, qs), s'))"
  using assms
proof (induction gs arbitrary: i lastCtx lastErr s)
  case Nil
  then show ?case by simp
next
  case (Cons gc gs)
  obtain g first where gc: "gc = (g, first)" by (cases gc)
  obtain o1 s1 where one: "checkRateLimit en ctx lim (lg_limits g) t rid s = (o1, s1)"
    by (cases "checkRateLimit en ctx lim (lg_limits g) t rid s")
  have ch: "charge s1 = charge s" by (rule checkRateLimit_charge [OF one])
  consider (now) c1 where "o1 = CheckPassed c1"
    | (later) lc le where "finalizeGroups en ctx lim t c rid (Suc i) gs lc le s1 = (GroupFinalized j cc qs, s')"
    using Cons.prems one gc by (cases o1) auto
  then show ?case
  proof cases
    case now
    with Cons.prems one gc have "j = i" "\<exists>r. commitPlans en ctx c (lg_plans g) s1 = ((Inr r, qs), s')"
      by (auto split: prod.splits sum.splits option.splits)
    with ch gc show ?thesis by auto
  next
    case later
    from Cons.IH [OF this] ch have ih: "Suc i \<le> j" "j - Suc i < length gs"
      "\<exists>s1 r. charge s1 = charge s \<and> commitPlans en ctx c (lg_plans (fst (gs ! (j - Suc i)))) s1 = ((Inr r, qs), s')"
      by auto
    then have "(gc # gs) ! (j - i) = gs ! (j - Suc i)" by (simp add: nth_Cons')
    with ih show ?thesis by auto
  qed
qed

lemma finalizeGroups_refused:
  "finalizeGroups en ctx lim t c rid i gs lastCtx lastErr s = (NoGroupLeft lc le, s') \<Longrightarrow> charge s' = charge s"
proof (induction gs arbitrary: i lastCtx lastErr s)
  case Nil
  then show ?case by simp
next
  case (Cons gc gs)
  obtain g first where gc: "gc = (g, first)" by (cases gc)
  obtain o1 s1 where one: "checkRateLimit en ctx lim (lg_limits g) t rid s = (o1, s1)"
    by (cases "checkRateLimit en ctx lim (lg_limits g) t rid s")
  from Cons.prems one gc obtain i1 lc1 le1 where
    "finalizeGroups en ctx lim t c rid i1 gs lc1 le1 s1 = (NoGroupLeft lc le, s')"
    by (cases o1) (auto split: prod.splits sum.splits option.splits)
  from Cons.IH [OF this] checkRateLimit_charge [OF one] show ?case by simp
qed

lemma commitPlans_charge:
  assumes "commitPlans en ctx rq qs s = ((Inr r, qs'), s')"
    and "\<forall>q \<in> set qs. limiter q = lim \<and> fresh_plan q" and "distinct (map (rl_SubjectKey \<circ> limit) qs)"
    and "\<And>i. schedule_ok (sch en i)" and "0 \<le> rr_InputTokens rq" "0 \<le> rr_OutputTokens rq"
    and "rr_InputTokens rq + rr_OutputTokens rq \<le> MaxInt64"
  shows "qs' = map (\<lambda>q. q\<lparr>consumedInputTokens := rr_InputTokens rq, reservedOutputTokens := rr_OutputTokens rq\<rparr>) qs \<and>
    (\<forall>q \<in> set qs. \<forall>d. charge s' (keyForDimension (limit q) d) = charge s (keyForDimension (limit q) d) +
       (if dimLimit (limit q) d = 0 then 0
        else dimShare d (rr_Requests rq) (rr_InputTokens rq) (rr_OutputTokens rq)))"
proof -
  let ?upd = "\<lambda>q::'s AdmissionPlan. q\<lparr>consumedInputTokens := rr_InputTokens rq, reservedOutputTokens := rr_OutputTokens rq\<rparr>"
  let ?amt = "\<lambda>(q::'s AdmissionPlan) d. if dimLimit (limit q) d = 0 then 0
        else dimShare d (rr_Requests rq) (rr_InputTokens rq) (rr_OutputTokens rq)"
  have step: "p' = Some (?upd q) \<and>
      (\<forall>d. charge y (keyForDimension (limit q) d) = charge x (keyForDimension (limit q) d) + ?amt q d) \<and>
      (\<forall>k. sameKeyFree k (limit q) \<longrightarrow> charge y k = charge x k)"
    if q: "q \<in> set qs" and c: "Commit (Some q) ctx rq (sch en i) x = (Inr r', p', y)" for q i x r' p' y
  proof -
    have l: "limiter q = lim" and z: "consumedInputTokens q = 0" "reservedOutputTokens q = 0"
      using assms(2) q by (auto simp: fresh_plan_def)
    note cc = commit_charge [OF c l assms(4-6)]
    from cc z assms(5-7) have "p' = Some (?upd q)"
      and "\<And>d. charge y (keyForDimension (limit q) d) = charge x (keyForDimension (limit q) d) + ?amt q d"
      by simp_all
    with plan_frame(1) [OF l _ c] show ?thesis by blast
  qed
  have "qs' = map ?upd qs \<and>
    (\<forall>q \<in> set qs. \<forall>d. charge s' (keyForDimension (limit q) d) = charge s (keyForDimension (limit q) d) + ?amt q d) \<and>
    (\<forall>k. (\<forall>q \<in> set qs. sameKeyFree k (limit q)) \<longrightarrow> charge s' k = charge s k)"
    by (rule runPlans_charge [where call = "\<lambda>i q. Commit (Some q) ctx rq (sch en i)" and amount = ?amt,
          OF _ assms(3) assms(1) [unfolded commitPlans_def]]) (rule step)
  then show ?thesis by blast
qed

lemma settle_charge:
  assumes "runPlans (\<lambda>i q. FinalizeTokens (Some q) ctx rq (sch en i)) i qs m s = ((Inr r, qs'), s')"
    and "\<forall>q \<in> set qs. limiter q = lim \<and> consumedInputTokens q = c \<and> reservedOutputTokens q = v"
    and "distinct (map (rl_SubjectKey \<circ> limit) qs)" and "\<And>i. schedule_ok (sch en i)"
    and "0 \<le> rr_InputTokens rq" "0 \<le> rr_OutputTokens rq" "rr_InputTokens rq + rr_OutputTokens rq \<le> MaxInt64"
    and "0 \<le> c" "0 \<le> v" "c + v \<le> MaxInt64"
  shows "\<forall>q \<in> set qs. \<forall>d. charge s' (keyForDimension (limit q) d) = charge s (keyForDimension (limit q) d) +
       (if dimLimit (limit q) d = 0 then 0 else dimShare d 0 (rr_InputTokens rq - c) (rr_OutputTokens rq - v))"
proof -
  let ?upd = "\<lambda>q::'s AdmissionPlan. q\<lparr>consumedInputTokens := 0, reservedOutputTokens := 0\<rparr>"
  let ?amt = "\<lambda>(q::'s AdmissionPlan) d. if dimLimit (limit q) d = 0 then 0
        else dimShare d 0 (rr_InputTokens rq - c) (rr_OutputTokens rq - v)"
  have step: "p' = Some (?upd q) \<and>
      (\<forall>d. charge y (keyForDimension (limit q) d) = charge x (keyForDimension (limit q) d) + ?amt q d) \<and>
      (\<forall>k. sameKeyFree k (limit q) \<longrightarrow> charge y k = charge x k)"
    if q: "q \<in> set qs" and f: "FinalizeTokens (Some q) ctx rq (sch en i) x = (Inr r', p', y)" for q i x r' p' y
  proof -
    have l: "limiter q = lim" and z: "consumedInputTokens q = c" "reservedOutputTokens q = v"
      using assms(2) q by auto
    have "charge y (keyForDimension (limit q) d) = charge x (keyForDimension (limit q) d) + ?amt q d" for d
      using finalize_charge [OF f l assms(4-7), of d] z assms(8-10) by simp
    moreover have "p' = Some (?upd q)" using f by (auto simp: FinalizeTokens_def Let_def split: if_splits prod.splits)
    ultimately show ?thesis using plan_frame(2) [OF l _ f] by blast
  qed
  have "qs' = map ?upd qs \<and>
    (\<forall>q \<in> set qs. \<forall>d. charge s' (keyForDimension (limit q) d) = charge s (keyForDimension (limit q) d) + ?amt q d) \<and>
    (\<forall>k. (\<forall>q \<in> set qs. sameKeyFree k (limit q)) \<longrightarrow> charge s' k = charge s k)"
    by (rule runPlans_charge [where call = "\<lambda>i q. FinalizeTokens (Some q) ctx rq (sch en i)" and amount = ?amt,
          OF _ assms(3) assms(1)]) (rule step)
  then show ?thesis by blast
qed

end

section \<open>Properties\<close>

text \<open>The plans of a group as \<open>getLimitGroups\<close> makes them: one per subject, nothing reserved yet.\<close>

definition group_ok :: "'s RateLimiter \<Rightarrow> 's limitGroup \<Rightarrow> bool" where
  "group_ok lim g \<longleftrightarrow> (\<forall>q \<in> set (lg_plans g). limiter q = lim \<and> fresh_plan q) \<and>
     distinct (map (rl_SubjectKey \<circ> limit) (lg_plans g))"

text \<open>
  A refused request costs nothing: when \<open>CheckRequests\<close> or \<open>CheckTokensAndFinalize\<close> answers
  "rate limit exceeded", no bucket of any limit has been charged, however many groups and limits were
  tried and whatever the limiter is.
\<close>

theorem refused_request_free:
  assumes "gp_rl p = traced lim"
    and "GatewayCheckRequests en ctx p s = ((err, p1), s1)"
    and "err = Some RateLimitExceeded \<or>
      GatewayCheckTokensAndFinalize en ctx p1 s1 = ((Inl RateLimitExceeded, p2), s2)"
  shows "netCharge (if err = Some RateLimitExceeded then s1 else s2) = netCharge s"
proof -
  have one: "netCharge s1 = netCharge s" and rl: "gp_rl p1 = traced lim"
    using tl.checkRequests_charge [OF assms(1,2)] by simp_all
  show ?thesis
  proof (cases "err = Some RateLimitExceeded")
    case True
    with one show ?thesis by simp
  next
    case False
    with assms(3) rl obtain lc le where
      "finalizeGroups en ctx (traced lim) ((gp_checkRequest p1)\<lparr>rr_Requests := 0\<rparr>) (gp_consumeRequest p1)
         (gp_requestID p1) 0 (zip (gp_groups p1) (gp_successCtx p1)) None None s1 = (NoGroupLeft lc le, s2)"
      by (auto simp: GatewayCheckTokensAndFinalize_def split: prod.splits finalizeOutcome.splits option.splits)
    from tl.finalizeGroups_refused [OF this] one False show ?thesis by simp
  qed
qed

text \<open>A request against a limit of five requests a minute, with a limiter that rejects everything.\<close>

definition exampleEnv :: env where
  "exampleEnv = \<lparr>sch = (\<lambda>_. map (\<lambda>d. (d, True)) allLimitDimensions), ord = (\<lambda>_. allLimitDimensions)\<rparr>"

definition exampleLimit :: ResourceLimit where
  "exampleLimit = zeroResourceLimit\<lparr>rl_SubjectKey := ''org'', rl_RequestsPerMinute := 5, rl_TokensPerMinute := 1000\<rparr>"

definition examplePlan :: "'s RateLimiter \<Rightarrow> 's GatewayAdmissionPlan" where
  "examplePlan rl =
     \<lparr>gp_groups = [\<lparr>lg_limits = [exampleLimit],
         lg_plans = [\<lparr>limiter = rl, limit = exampleLimit, requestID = ''id'', consumedInputTokens = 0,
                      reservedOutputTokens = 0\<rparr>]\<rparr>],
      gp_successCtx = [\<lparr>Stats = zeroStats, Results = [], AppliedLimits = [], limitingDimension = None,
         limitingResult = None, limitingResourceLimit = zeroResourceLimit\<rparr>],
      gp_failedCtx = None, gp_rl = rl,
      gp_checkRequest = \<lparr>rr_Requests = 1, rr_InputTokens = 100, rr_OutputTokens = 50\<rparr>,
      gp_consumeRequest = \<lparr>rr_Requests = 1, rr_InputTokens = 100, rr_OutputTokens = 50\<rparr>,
      gp_requestID = ''id'', gp_finalized = False, gp_finalizedPlans = None, octx_header = Map.empty,
      octx_rateLimit = None\<rparr>"

lemmas example_simps = examplePlan_def exampleEnv_def exampleLimit_def zeroResourceLimit_def checkRateLimit_def
  TestResourceLimit_def doResourceLimit_def checkDimension_def traced_def anyDenied_def allLimitDimensions_def
  Allowed_def

text \<open>
  C3. An admitted request pays for what it used. When \<open>CheckTokensAndFinalize\<close> admits a request
  through a group, and \<open>FinalizeTokens\<close> is called with the actual usage and succeeds, every limit
  of that group has been charged the requests and the actual tokens, and the reservation has been
  returned, over any limiter and however the checks of the dimensions are scheduled.
\<close>

theorem admitted_request_settles:
  assumes "gp_rl p = traced lim" and "length (gp_successCtx p) = length (gp_groups p)"
    and "GatewayCheckTokensAndFinalize en ctx p s = ((Inr r, p1), s1)"
    and "gp_finalizedPlans p1 = Some j" and "gp_finalizedPlans p = None"
    and "GatewayFinalizeTokens en ctx actual p1 s1 = ((Inr res, p2), s2)"
    and "group_ok (traced lim) (gp_groups p ! j)" and "\<And>i. schedule_ok (sch en i)"
    and "0 \<le> rr_InputTokens (gp_consumeRequest p)" "0 \<le> rr_OutputTokens (gp_consumeRequest p)"
    and "rr_InputTokens (gp_consumeRequest p) + rr_OutputTokens (gp_consumeRequest p) \<le> MaxInt64"
    and "0 \<le> rr_InputTokens actual" "0 \<le> rr_OutputTokens actual"
    and "rr_InputTokens actual + rr_OutputTokens actual \<le> MaxInt64"
    and "q \<in> set (lg_plans (gp_groups p ! j))" and "dimLimit (limit q) d \<noteq> 0"
  shows "netCharge s2 (keyForDimension (limit q) d) = netCharge s (keyForDimension (limit q) d) +
     dimShare d (rr_Requests (gp_consumeRequest p)) (rr_InputTokens actual) (rr_OutputTokens actual)"
proof -
  let ?rq = "gp_consumeRequest p" and ?qs = "lg_plans (gp_groups p ! j)"
  let ?upd = "\<lambda>q. q\<lparr>consumedInputTokens := rr_InputTokens ?rq, reservedOutputTokens := rr_OutputTokens ?rq\<rparr>"
  from assms(3,4,5) obtain c qs where fin: "finalizeGroups en ctx (traced lim) ((gp_checkRequest p)\<lparr>rr_Requests := 0\<rparr>) ?rq
      (gp_requestID p) 0 (zip (gp_groups p) (gp_successCtx p)) None None s = (GroupFinalized j c qs, s1)"
    and p1: "gp_groups p1 = (gp_groups p)[j := (gp_groups p ! j)\<lparr>lg_plans := qs\<rparr>]"
    using assms(1)
    by (auto simp: GatewayCheckTokensAndFinalize_def split: prod.splits finalizeOutcome.splits option.splits)
  from tl.finalizeGroups_finalized [OF fin] assms(2) obtain s0 r0 where j: "j < length (gp_groups p)"
    and s0: "netCharge s0 = netCharge s" "commitPlans en ctx ?rq ?qs s0 = ((Inr r0, qs), s1)" by auto
  note g = assms(7) [unfolded group_ok_def]
  have ch: "qs = map ?upd ?qs" "netCharge s1 (keyForDimension (limit q) d) = netCharge s (keyForDimension (limit q) d) +
      dimShare d (rr_Requests ?rq) (rr_InputTokens ?rq) (rr_OutputTokens ?rq)"
    using tl.commitPlans_charge [OF s0(2) conjunct1 [OF g] conjunct2 [OF g] assms(8-11)] assms(15,16) s0(1) by auto
  have run: "\<exists>qs'. runPlans (\<lambda>i q. FinalizeTokens (Some q) ctx actual (sch en i)) 0 qs Map.empty s1 = ((Inr res, qs'), s2)"
    using assms(4,6) p1 j by (auto simp: GatewayFinalizeTokens_def settleWith_def split: prod.splits)
  then obtain qs' where
    "runPlans (\<lambda>i q. FinalizeTokens (Some q) ctx actual (sch en i)) 0 qs Map.empty s1 = ((Inr res, qs'), s2)" by blast
  from tl.settle_charge [OF this, where c = "rr_InputTokens ?rq" and v = "rr_OutputTokens ?rq" and lim = lim]
  have "\<forall>q \<in> set qs. \<forall>d. netCharge s2 (keyForDimension (limit q) d) = netCharge s1 (keyForDimension (limit q) d) +
       (if dimLimit (limit q) d = 0 then 0
        else dimShare d 0 (rr_InputTokens actual - rr_InputTokens ?rq) (rr_OutputTokens actual - rr_OutputTokens ?rq))"
    using g assms(8-14) by (simp add: ch(1) comp_def)
  moreover have "?upd q \<in> set qs" using assms(15) by (simp add: ch(1))
  ultimately have "netCharge s2 (keyForDimension (limit (?upd q)) d) = netCharge s1 (keyForDimension (limit (?upd q)) d) +
        dimShare d 0 (rr_InputTokens actual - rr_InputTokens ?rq) (rr_OutputTokens actual - rr_OutputTokens ?rq)"
    using assms(16) by fastforce
  then show ?thesis by (simp add: ch(2) dimShare_add)
qed

text \<open>The same request, admitted, with a response of 20 tokens instead of the 50 reserved.\<close>

theorem admitted_request_settles_witness:
  "\<exists>r p1 s1 res p2 s2. GatewayCheckTokensAndFinalize exampleEnv (\<lambda>_. None) (examplePlan (traced allowAll)) ((), [])
       = ((Inr r, p1), s1) \<and>
     GatewayFinalizeTokens exampleEnv (\<lambda>_. None) \<lparr>rr_Requests = 0, rr_InputTokens = 100, rr_OutputTokens = 20\<rparr> p1 s1
       = ((Inr res, p2), s2) \<and>
     netCharge s2 ''org:tokens_minute'' = 120"
proof -
  let ?p = "examplePlan (traced allowAll)" and ?en = exampleEnv and ?ctx = "\<lambda>_. None"
  let ?rq = "\<lparr>rr_Requests = 1, rr_InputTokens = 100, rr_OutputTokens = 50\<rparr>"
  let ?act = "\<lparr>rr_Requests = 0, rr_InputTokens = 100, rr_OutputTokens = 20\<rparr>"
  let ?q = "\<lparr>limiter = traced allowAll, limit = exampleLimit, requestID = ''id'', consumedInputTokens = 0,
              reservedOutputTokens = 0\<rparr>"
  have passed: "\<exists>c s0. checkRateLimit ?en ?ctx (traced allowAll) [exampleLimit] (?rq\<lparr>rr_Requests := 0\<rparr>) ''id'' ((), [])
      = (CheckPassed c, s0)"
    by (simp add: example_simps allowAll_def add64_id in_i64_def)
  then obtain c s0 where chk: "checkRateLimit ?en ?ctx (traced allowAll) [exampleLimit] (?rq\<lparr>rr_Requests := 0\<rparr>) ''id'' ((), [])
      = (CheckPassed c, s0)" by blast
  obtain r1 q1 s1 where com: "Commit (Some ?q) ?ctx ?rq (sch ?en 0) s0 = (Inr r1, Some q1, s1)"
    and q1: "limiter q1 = traced allowAll"
    using allowAll_must_ok [of ?ctx exampleLimit ?rq "''id''" "sch ?en 0" s0] by (fastforce simp: Commit_def)
  obtain r p1 where fin: "GatewayCheckTokensAndFinalize ?en ?ctx ?p ((), []) = ((Inr r, p1), s1)"
    and p1: "gp_finalizedPlans p1 = Some 0" "lg_plans (gp_groups p1 ! 0) = [q1]"
    using chk com
    by (simp add: GatewayCheckTokensAndFinalize_def examplePlan_def commitPlans_def mergeRateLimitContexts_def)
  obtain r2 p' s2 where "FinalizeTokens (Some q1) ?ctx ?act (sch ?en 0) s1 = (Inr r2, p', s2)"
    using allowAll_settle_ok(1) [OF q1] by blast
  then obtain res p2 where set: "GatewayFinalizeTokens ?en ?ctx ?act p1 s1 = ((Inr res, p2), s2)"
    using p1 by (simp add: GatewayFinalizeTokens_def settleWith_def)
  have "netCharge s2 (keyForDimension exampleLimit TokensPerMinute) =
      netCharge ((), []) (keyForDimension exampleLimit TokensPerMinute) + dimShare TokensPerMinute 1 100 20"
    using admitted_request_settles [OF _ _ fin p1(1) _ set, where lim = allowAll and q = ?q and d = TokensPerMinute]
      schedule_of_list
    by (simp add: examplePlan_def exampleEnv_def exampleLimit_def zeroResourceLimit_def group_ok_def fresh_plan_def)
  then have "netCharge s2 ''org:tokens_minute'' = 120"
    by (simp add: keyForDimension_def exampleLimit_def dimShare_def netCharge_def)
  with fin set show ?thesis by blast
qed

end
