(* ===== verification/SyncEvents.thy ===== *)
theory SyncEvents
  imports Resources "HOL-Library.Multiset" "HOL-Library.Sublist"
begin

text \<open>
  Replication of rate-limit events between clusters: the wire format and its application
  (\<open>ratelimit/sync_events.go\<close>, \<open>pubsub_consumer.go\<close>), and the NATS transport
  (\<open>nats_synchronizer.go\<close>): sending, publishing, receiving and acknowledging, and the set-up of the
  JetStream stream and consumer. The Pub/Sub transport (\<open>pubsub_synchronizer.go\<close>) queues and drops
  events the same way.

  Log lines and telemetry are left out, apart from the counter that tells what happened to a
  received event, which is the value of a successful application. Times are Unix nanoseconds.
\<close>

section \<open>Applying a received event\<close>

definition dropMessagesOlderThan :: int where "dropMessagesOlderThan = 120"

record RateLimitEventWireFormat =
  we_Key :: string
  we_Units :: i64
  we_Rate :: i64
  we_Period :: i64
  we_RequestID :: string
  we_ClusterName :: string
  we_CreatedAt :: i64
  we_MustConsume :: bool
  we_AllowDebt :: bool

text \<open>A limiter behind the interface: the package's own \<open>*rateLimiter\<close>, or another one.\<close>

datatype 's limiterValue = OwnLimiter "'s rateLimiter" | OtherLimiter "'s RateLimiter"

definition checkLimitWithoutSync ::
    "'s limiterValue \<Rightarrow> 's ctx \<Rightarrow> string \<Rightarrow> RateLimit \<Rightarrow> i64 \<Rightarrow> bool \<Rightarrow> string \<Rightarrow> bool \<Rightarrow> 's
       \<Rightarrow> (rl_error + RateLimitResult) \<times> 's" where
  "checkLimitWithoutSync limiter ctx key l tokensRequested testOnly requestID mustConsume s =
     (case limiter of
        OwnLimiter rl \<Rightarrow> checkLimit rl ctx key l tokensRequested testOnly requestID mustConsume False s
      | OtherLimiter lim \<Rightarrow> CheckLimit lim ctx key l tokensRequested testOnly requestID mustConsume s)"

datatype sync_error = EventRequired | ClusterNameRequired | ApplyErr rl_error

datatype event_outcome = DropSameCluster | DropOldMessage | DropRemoteApplyDisabled | Applied

text \<open>\<open>time.Since(time.Unix(createdAt, 0))\<close> at a time; the subtraction saturates.\<close>

definition lagOf :: "int \<Rightarrow> RateLimitEventWireFormat \<Rightarrow> int" where
  "lagOf now w = clamp MinInt64 MaxInt64 (now - we_CreatedAt w * 1000000000)"

definition tooOld :: "int \<Rightarrow> RateLimitEventWireFormat \<Rightarrow> bool" where
  "tooOld now w \<longleftrightarrow> lagOf now w > dropMessagesOlderThan * 1000000000"

definition ApplySynchronizedEvent ::
    "'s ctx \<Rightarrow> 's limiterValue \<Rightarrow> string \<Rightarrow> bool \<Rightarrow> int \<Rightarrow> RateLimitEventWireFormat option \<Rightarrow> 's
       \<Rightarrow> (sync_error + event_outcome) \<times> 's" where
  "ApplySynchronizedEvent ctx limiter clusterName writesEnabled now rle s =
     (case rle of
        None \<Rightarrow> (Inl EventRequired, s)
      | Some w \<Rightarrow>
          if clusterName = [] then (Inl ClusterNameRequired, s)
          else if we_ClusterName w = clusterName then (Inr DropSameCluster, s)
          else if tooOld now w then (Inr DropOldMessage, s)
          else if \<not> writesEnabled then (Inr DropRemoteApplyDisabled, s)
          else (case checkLimitWithoutSync limiter ctx (we_Key w)
                       \<lparr>Limit = we_Rate w, Period = we_Period w, AllowDebt = we_AllowDebt w\<rparr>
                       (we_Units w) False (we_RequestID w) (we_MustConsume w) s of
                  (Inl e, s') \<Rightarrow> (Inl (ApplyErr e), s')
                | (Inr _, s') \<Rightarrow> (Inr Applied, s')))"

definition PubSubConsumer ::
    "'s limiterValue \<Rightarrow> string \<Rightarrow> bool \<Rightarrow> 's ctx \<Rightarrow> int \<Rightarrow> RateLimitEventWireFormat option \<Rightarrow> 's
       \<Rightarrow> (sync_error + event_outcome) \<times> 's" where
  "PubSubConsumer limiter clusterName writesEnabled ctx now rle s =
     (if rle = None then (Inl EventRequired, s)
      else ApplySynchronizedEvent ctx limiter clusterName writesEnabled now rle s)"

section \<open>Receiving a NATS message\<close>

record 's NATSMessage =
  msgData :: string
  msgAck :: "'s \<Rightarrow> (string + unit) \<times> 's"

text \<open>\<open>json.Unmarshal\<close> into the wire format is an argument; \<open>None\<close> is its error.\<close>

definition handleNATSMessage ::
    "(string \<Rightarrow> RateLimitEventWireFormat option) \<Rightarrow> 's NATSMessage
       \<Rightarrow> (RateLimitEventWireFormat option \<Rightarrow> 's \<Rightarrow> (sync_error + event_outcome) \<times> 's) \<Rightarrow> 's \<Rightarrow> 's" where
  "handleNATSMessage unmarshal msg handler s =
     (case unmarshal (msgData msg) of
        None \<Rightarrow> s
      | Some event \<Rightarrow>
          (case handler (Some event) s of
             (Inl _, s') \<Rightarrow> s'
           | (Inr _, s') \<Rightarrow> snd (msgAck msg s')))"

section \<open>Sending\<close>

definition publishResultBufferSize :: nat where "publishResultBufferSize = 2000"
definition numPublishResultProcessors :: nat where "numPublishResultProcessors = 20"

text \<open>The event \<open>Send\<close> queues at a time.\<close>

definition wireEvent :: "string \<Rightarrow> int \<Rightarrow> RateLimitEvent \<Rightarrow> RateLimitEventWireFormat" where
  "wireEvent clusterName now rle =
     \<lparr>we_Key = EventKey rle, we_Units = Requested (EventResult rle),
      we_Rate = Limit (ResultRateLimit (EventResult rle)),
      we_Period = Period (ResultRateLimit (EventResult rle)), we_RequestID = EventRequestID rle,
      we_ClusterName = clusterName, we_CreatedAt = now div 1000000000,
      we_MustConsume = EventMustConsume rle,
      we_AllowDebt = AllowDebt (ResultRateLimit (EventResult rle))\<rparr>"

text \<open>
  What a processor does with an event it received: \<open>publishOK\<close> is whether \<open>Publish\<close> succeeded. The
  comparison of \<open>lag.Seconds()\<close> in floating point has the value of the one in nanoseconds.
\<close>

datatype processed = DroppedOld | PublishFailed | Published

definition processEvent :: "int \<Rightarrow> bool \<Rightarrow> RateLimitEventWireFormat \<Rightarrow> processed" where
  "processEvent now publishOK data =
     (if tooOld now data then DroppedOld else if publishOK then Published else PublishFailed)"

text \<open>
  The synchronizer as a state machine. \<open>resultChan\<close> is \<open>None\<close> before \<open>Start\<close>; \<open>running\<close>
  processors share it, \<open>busy\<close> are the events they hold; the last four fields record the fate of
  events. \<open>Stop\<close> closes the channel and waits until no processor runs.
\<close>

record natsSynchronizer =
  resultChan :: "RateLimitEventWireFormat list option"
  chanClosed :: bool
  running :: nat
  busy :: "RateLimitEventWireFormat multiset"
  sentEvents :: "RateLimitEventWireFormat multiset"
  publishedEvents :: "RateLimitEventWireFormat multiset"
  droppedEvents :: "RateLimitEventWireFormat multiset"
  failedEvents :: "RateLimitEventWireFormat multiset"

definition newNATSSynchronizer :: natsSynchronizer where
  "newNATSSynchronizer =
     \<lparr>resultChan = None, chanClosed = False, running = 0, busy = {#}, sentEvents = {#},
      publishedEvents = {#}, droppedEvents = {#}, failedEvents = {#}\<rparr>"

definition syncStart :: "natsSynchronizer \<Rightarrow> natsSynchronizer" where
  "syncStart s = s\<lparr>resultChan := Some [], running := numPublishResultProcessors\<rparr>"

text \<open>\<open>None\<close> where the send would block: the channel is nil or full.\<close>

definition syncSend :: "RateLimitEventWireFormat \<Rightarrow> natsSynchronizer \<Rightarrow> natsSynchronizer option" where
  "syncSend w s =
     (case resultChan s of
        None \<Rightarrow> None
      | Some q \<Rightarrow>
          if length q < publishResultBufferSize
          then Some (s\<lparr>resultChan := Some (q @ [w]), sentEvents := add_mset w (sentEvents s)\<rparr>)
          else None)"

definition syncReceive :: "natsSynchronizer \<Rightarrow> natsSynchronizer option" where
  "syncReceive s =
     (case resultChan s of
        Some (w # q) \<Rightarrow> Some (s\<lparr>resultChan := Some q, busy := add_mset w (busy s)\<rparr>)
      | _ \<Rightarrow> None)"

definition syncProcess ::
    "int \<Rightarrow> bool \<Rightarrow> RateLimitEventWireFormat \<Rightarrow> natsSynchronizer \<Rightarrow> natsSynchronizer" where
  "syncProcess now publishOK w s =
     (let s = s\<lparr>busy := busy s - {#w#}\<rparr> in
      case processEvent now publishOK w of
        DroppedOld \<Rightarrow> s\<lparr>droppedEvents := add_mset w (droppedEvents s)\<rparr>
      | Published \<Rightarrow> s\<lparr>publishedEvents := add_mset w (publishedEvents s)\<rparr>
      | PublishFailed \<Rightarrow> s\<lparr>failedEvents := add_mset w (failedEvents s)\<rparr>)"

inductive sync_step :: "natsSynchronizer \<Rightarrow> natsSynchronizer \<Rightarrow> bool" where
  start: "resultChan s = None \<Longrightarrow> sync_step s (syncStart s)"
| send: "\<not> chanClosed s \<Longrightarrow> syncSend w s = Some s' \<Longrightarrow> sync_step s s'"
| receive: "size (busy s) < running s \<Longrightarrow> syncReceive s = Some s' \<Longrightarrow> sync_step s s'"
| process: "w \<in># busy s \<Longrightarrow> sync_step s (syncProcess now ok w s)"
| stop: "resultChan s \<noteq> None \<Longrightarrow> \<not> chanClosed s \<Longrightarrow> sync_step s (s\<lparr>chanClosed := True\<rparr>)"
| exit: "chanClosed s \<Longrightarrow> resultChan s = Some [] \<Longrightarrow> size (busy s) < running s \<Longrightarrow>
    sync_step s (s\<lparr>running := running s - 1\<rparr>)"

inductive sync_reach :: "natsSynchronizer \<Rightarrow> bool" where
  init: "sync_reach newNATSSynchronizer"
| step: "sync_reach s \<Longrightarrow> sync_step s s' \<Longrightarrow> sync_reach s'"

section \<open>The JetStream set-up\<close>

record NATSSyncConfig =
  cfg_Subject :: string
  cfg_Stream :: string
  cfg_Durable :: string
  cfg_Queue :: string
  cfg_DeliverSubject :: string
  cfg_AckWait :: i64
  cfg_MaxAge :: i64

text \<open>The fields of the client's configuration structs that the code sets.\<close>

record natsStreamCfg =
  sc_Name :: string
  sc_Subjects :: "string list"
  sc_Retention :: string
  sc_MaxAge :: i64
  sc_Storage :: string
  sc_Discard :: string

record natsConsumerCfg =
  cc_Durable :: string
  cc_DeliverPolicy :: string
  cc_AckPolicy :: string
  cc_AckWait :: i64
  cc_FilterSubject :: string
  cc_ReplayPolicy :: string
  cc_DeliverSubject :: string
  cc_DeliverGroup :: string

definition natsStreamConfig :: "NATSSyncConfig \<Rightarrow> natsStreamCfg" where
  "natsStreamConfig cfg =
     \<lparr>sc_Name = cfg_Stream cfg, sc_Subjects = [cfg_Subject cfg], sc_Retention = ''InterestPolicy'',
      sc_MaxAge = cfg_MaxAge cfg, sc_Storage = ''FileStorage'', sc_Discard = ''DiscardOld''\<rparr>"

definition natsConsumerConfig :: "NATSSyncConfig \<Rightarrow> natsConsumerCfg" where
  "natsConsumerConfig cfg =
     \<lparr>cc_Durable = cfg_Durable cfg, cc_DeliverPolicy = ''DeliverNewPolicy'',
      cc_AckPolicy = ''AckExplicitPolicy'', cc_AckWait = cfg_AckWait cfg,
      cc_FilterSubject = cfg_Subject cfg, cc_ReplayPolicy = ''ReplayInstantPolicy'',
      cc_DeliverSubject = cfg_DeliverSubject cfg, cc_DeliverGroup = cfg_Queue cfg\<rparr>"

datatype nats_error = ErrStreamNotFound | ErrStreamNameAlreadyInUse | ErrConsumerNotFound | NatsErr string

record 's NATSJetStream =
  StreamInfo :: "string \<Rightarrow> 's \<Rightarrow> (nats_error + unit) \<times> 's"
  AddStream :: "natsStreamCfg \<Rightarrow> 's \<Rightarrow> (nats_error + unit) \<times> 's"
  UpdateStream :: "natsStreamCfg \<Rightarrow> 's \<Rightarrow> (nats_error + unit) \<times> 's"
  ConsumerInfo :: "string \<Rightarrow> string \<Rightarrow> 's \<Rightarrow> (nats_error + unit) \<times> 's"
  AddConsumer :: "string \<Rightarrow> natsConsumerCfg \<Rightarrow> 's \<Rightarrow> (nats_error + unit) \<times> 's"
  UpdateConsumer :: "string \<Rightarrow> natsConsumerCfg \<Rightarrow> 's \<Rightarrow> (nats_error + unit) \<times> 's"

definition EnsureNATSStream :: "'s NATSJetStream \<Rightarrow> NATSSyncConfig \<Rightarrow> 's \<Rightarrow> (nats_error + unit) \<times> 's" where
  "EnsureNATSStream js cfg s =
     (case StreamInfo js (cfg_Stream cfg) s of
        (Inl err, s1) \<Rightarrow>
          if err \<noteq> ErrStreamNotFound then (Inl err, s1)
          else (case AddStream js (natsStreamConfig cfg) s1 of
                  (Inl err, s2) \<Rightarrow>
                    if err \<noteq> ErrStreamNameAlreadyInUse then (Inl err, s2)
                    else (case UpdateStream js (natsStreamConfig cfg) s2 of
                            (Inl err, s3) \<Rightarrow> (Inl err, s3)
                          | (Inr _, s3) \<Rightarrow> (Inr (), s3))
                | (Inr _, s2) \<Rightarrow> (Inr (), s2))
      | (Inr _, s1) \<Rightarrow>
          (case UpdateStream js (natsStreamConfig cfg) s1 of
             (Inl err, s2) \<Rightarrow> (Inl err, s2)
           | (Inr _, s2) \<Rightarrow> (Inr (), s2)))"

definition EnsureNATSConsumer :: "'s NATSJetStream \<Rightarrow> NATSSyncConfig \<Rightarrow> 's \<Rightarrow> (nats_error + unit) \<times> 's" where
  "EnsureNATSConsumer js cfg s =
     (case ConsumerInfo js (cfg_Stream cfg) (cfg_Durable cfg) s of
        (Inl err, s1) \<Rightarrow>
          if err \<noteq> ErrConsumerNotFound then (Inl err, s1)
          else (case AddConsumer js (cfg_Stream cfg) (natsConsumerConfig cfg) s1 of
                  (Inl err, s2) \<Rightarrow> (Inl err, s2)
                | (Inr _, s2) \<Rightarrow> (Inr (), s2))
      | (Inr _, s1) \<Rightarrow>
          (case UpdateConsumer js (cfg_Stream cfg) (natsConsumerConfig cfg) s1 of
             (Inl err, s2) \<Rightarrow> (Inl err, s2)
           | (Inr _, s2) \<Rightarrow> (Inr (), s2)))"

section \<open>A limiter with its channel\<close>

text \<open>
  The limiter of a cluster together with the channel its synchronizer writes: the store, the clock
  and the sleep act on the first component of the state, \<open>Send\<close> on the second.
\<close>

definition liftOp :: "('s \<Rightarrow> 'r \<times> 's) \<Rightarrow> 's \<times> 'q \<Rightarrow> 'r \<times> 's \<times> 'q" where
  "liftOp f = (\<lambda>(s, q). case f s of (r, s') \<Rightarrow> (r, s', q))"

definition liftLimiter :: "('s \<times> 'q) Synchronizer \<Rightarrow> 's rateLimiter \<Rightarrow> ('s \<times> 'q) rateLimiter" where
  "liftLimiter sync rl =
     \<lparr>store = \<lparr>GetBucket = (\<lambda>k. liftOp (GetBucket (store rl) k)),
               CompareAndSetBucket = (\<lambda>k e n ttl. liftOp (CompareAndSetBucket (store rl) k e n ttl)),
               DeleteKeys = (\<lambda>ks. liftOp (DeleteKeys (store rl) ks))\<rparr>,
      failOpen = failOpen rl, synchronizer = sync, casMaxAttempts = casMaxAttempts rl,
      casInitialWait = casInitialWait rl, casMaxWait = casMaxWait rl,
      nowMs = liftOp (nowMs rl),
      sleep = (case sleep rl of None \<Rightarrow> None | Some f \<Rightarrow> Some (\<lambda>d (s, q). (f d s, q))),
      randInt64N = (\<lambda>n. liftOp (randInt64N rl n))\<rparr>"

text \<open>\<open>Send\<close> into a channel with room; \<open>wall\<close> is the time of day.\<close>

definition chanSynchronizer :: "string \<Rightarrow> ('s \<Rightarrow> int) \<Rightarrow> ('s \<times> RateLimitEventWireFormat list) Synchronizer" where
  "chanSynchronizer clusterName wall =
     \<lparr>SendEvent = (\<lambda>rle (s, q). (Inr (), s, q @ [wireEvent clusterName (wall s) rle]))\<rparr>"

text \<open>The arguments of a check, and the checks a cluster makes one after another.\<close>

record limitRequest =
  lq_Key :: string
  lq_Limit :: RateLimit
  lq_Units :: i64
  lq_Test :: bool
  lq_ID :: string
  lq_Must :: bool

fun sendAll ::
    "'s rateLimiter \<Rightarrow> string \<Rightarrow> ('s \<Rightarrow> int) \<Rightarrow> limitRequest list \<Rightarrow> 's \<times> RateLimitEventWireFormat list
       \<Rightarrow> 's \<times> RateLimitEventWireFormat list" where
  "sendAll rl clusterName wall [] x = x"
| "sendAll rl clusterName wall (c # cs) x =
     sendAll rl clusterName wall cs
       (snd (checkLimit (liftLimiter (chanSynchronizer clusterName wall) rl) (\<lambda>_. None) (lq_Key c) (lq_Limit c) (lq_Units c)
               (lq_Test c) (lq_ID c) (lq_Must c) True x))"

text \<open>The receiving cluster applies a list of events, each delivered once at a time of day.\<close>

fun applyAll ::
    "'s ctx \<Rightarrow> 's limiterValue \<Rightarrow> string \<Rightarrow> (int \<times> RateLimitEventWireFormat) list \<Rightarrow> 's \<Rightarrow> 's" where
  "applyAll ctx limiter clusterName [] s = s"
| "applyAll ctx limiter clusterName ((now, w) # ws) s =
     applyAll ctx limiter clusterName ws
       (snd (ApplySynchronizedEvent ctx limiter clusterName True now (Some w) s))"

section \<open>The lifted limiter runs like the limiter\<close>

lemma lift_leakyAttempt:
  "leakyAttempt (liftLimiter sync rl) key rate period n mode debt (s, q) =
     liftOp (leakyAttempt rl key rate period n mode debt) (s, q)"
  by (simp add: leakyAttempt_def liftLimiter_def liftOp_def split: prod.splits sum.splits option.splits)

lemma lift_backoffSleep: "backoffSleep (liftLimiter sync rl) b (s, q) = (backoffSleep rl b s, q)"
  by (auto simp: backoffSleep_def jitter_def liftLimiter_def liftOp_def Let_def
      split: option.splits prod.splits)

lemma lift_casLoop:
  assumes "\<And>s. att' (s, q) = liftOp att (s, q)"
  shows "casLoop (liftLimiter sync rl) (\<lambda>x. ctx (fst x)) att' n b (s, q) =
     liftOp (casLoop rl ctx att n b) (s, q)"
proof (induction n arbitrary: b s)
  case 0
  show ?case by (simp add: liftOp_def liftLimiter_def)
next
  case (Suc n)
  have nb: "nextBackoff (liftLimiter sync rl) b = nextBackoff rl b"
    by (simp add: nextBackoff_def liftLimiter_def Let_def)
  show ?case using Suc by (simp add: assms liftOp_def lift_backoffSleep nb split: option.split sum.split prod.split)
qed

lemma lift_leakyBucket:
  "leakyBucket (liftLimiter sync rl) (\<lambda>x. ctx (fst x)) key rate period n t m debt (s, q) =
     liftOp (leakyBucket rl ctx key rate period n t m debt) (s, q)"
proof -
  have c: "casMaxAttempts (liftLimiter sync rl) = casMaxAttempts rl"
    "casInitialWait (liftLimiter sync rl) = casInitialWait rl" by (simp_all add: liftLimiter_def)
  show ?thesis
    unfolding leakyBucket_def casRetry_def c by (subst lift_casLoop) (simp_all add: lift_leakyAttempt liftOp_def)
qed

text \<open>
  A check of the cluster's limiter: the bucket moves by its transition at an instant of the clock,
  and the channel gets an event exactly when the bucket was charged.
\<close>

lemma gateway_check:
  assumes "answering_limiter rl view ready clock" and "ready s"
  shows "\<exists>now s'. checkLimit (liftLimiter (chanSynchronizer A wall) rl) (\<lambda>_. None) k l n test rid m True (s, q)
      = (Inr (answerAt now l n test m (view s k)), s',
         if shouldSynchronizeRateLimitEvent test m (Some (answerAt now l n test m (view s k)))
         then q @ [wireEvent A (wall s') \<lparr>EventKey = k, EventResult = answerAt now l n test m (view s k),
                                  EventRequestID = rid, EventMustConsume = m\<rparr>] else q) \<and> ready s' \<and>
    view s' = (view s)(k := effectAt now l n test m (view s k)) \<and> clock s \<le> now \<and> now \<le> clock s'"
proof -
  obtain now s' where "leakyBucket rl (\<lambda>_. None) k (Limit l) (Period l) n test m (AllowDebt l) s
      = (Inr (fst (transition now l n test m (view s k))), s')" "ready s'"
    "view s' = (view s)(k := effectAt now l n test m (view s k))" "clock s \<le> now" "now \<le> clock s'"
    using answering_limiter.leakyBucket_answers [OF assms] unfolding effectAt_def by blast
  then show ?thesis
    using lift_leakyBucket [of "chanSynchronizer A wall" rl "\<lambda>_. None"]
    by (intro exI [of _ now] exI [of _ s'])
      (simp add: checkLimit_def liftOp_def answerAt_def Let_def liftLimiter_def chanSynchronizer_def)
qed

lemma effectAt_unsynchronized:
  assumes "\<not> shouldSynchronizeRateLimitEvent test m (Some (answerAt now l n test m b))"
  shows "effectAt now l n test m b = b"
proof (cases test)
  case True
  then show ?thesis by (simp add: effectAt_test)
next
  case False
  with assms have m: "\<not> m" and a: "\<not> Allowed (answerAt now l n test m b)"
    by (auto simp: shouldSynchronizeRateLimitEvent_def)
  obtain v w where bs: "bucketStep limiterModeConsumeIfAllowed (AllowDebt l) (Limit l)
      (quot64 (Period l) 1000000) n b now = Some (v, w)" using bucketStep_total by blast
  have "\<not> n \<le> v" using a False m bs
    by (auto simp: Allowed_def answerAt_def transition_def limiterModeOf_def split: option.splits)
  with bs have "w = None" by (auto simp: bucketStep_def Let_def split: option.splits if_splits)
  with bs False m show ?thesis by (simp add: effectAt_def transition_def limiterModeOf_def)
qed

text \<open>The effect of a check on the buckets, at an instant.\<close>

definition charge :: "i64 \<times> limitRequest \<Rightarrow> (string \<Rightarrow> bucketState option) \<Rightarrow> string \<Rightarrow> bucketState option" where
  "charge x v = v(lq_Key (snd x) := effectAt (fst x) (lq_Limit (snd x)) (lq_Units (snd x)) (lq_Test (snd x)) (lq_Must (snd x))
     (v (lq_Key (snd x))))"

lemma charges_local: "v k = v' k \<Longrightarrow> fold charge xs v k = fold charge xs v' k"
proof (induction xs arbitrary: v v')
  case (Cons x xs)
  from Cons.prems have "charge x v k = charge x v' k" by (cases "k = lq_Key (snd x)") (simp_all add: charge_def)
  from Cons.IH [of "charge x v" "charge x v'"] this show ?case by simp
qed simp

text \<open>The event of a check carries all its effect depends on, and the check was not a test.\<close>

definition eventOf :: "string \<Rightarrow> ('s \<Rightarrow> int) \<Rightarrow> i64 \<times> limitRequest \<Rightarrow> RateLimitEventWireFormat \<Rightarrow> bool" where
  "eventOf A wall x w \<longleftrightarrow>
     (let c = snd x; l = lq_Limit c
      in \<not> lq_Test c \<and> we_Key w = lq_Key c \<and> we_Units w = lq_Units c \<and> we_Rate w = Limit l \<and> we_Period w = Period l \<and>
         we_AllowDebt w = AllowDebt l \<and> we_MustConsume w = lq_Must c \<and> we_ClusterName w = A \<and>
         (\<exists>s. we_CreatedAt w = wall s div 1000000000))"

lemma sendAll_answers:
  assumes "answering_limiter rl view ready clock" and "ready s"
  shows "\<exists>s' events ats moves. sendAll rl A wall cs (s, q) = (s', q @ events) \<and> ready s' \<and> clock s \<le> clock s' \<and>
    length ats = length cs \<and> sorted ats \<and> (\<forall>a \<in> set ats. clock s \<le> a \<and> a \<le> clock s') \<and>
    view s' = fold charge (zip ats cs) (view s) \<and> subseq moves (zip ats cs) \<and> view s' = fold charge moves (view s) \<and>
    list_all2 (eventOf A wall) moves events"
  using assms(2)
proof (induction cs arbitrary: s q)
  case Nil
  then show ?case by (intro exI [of _ s] exI [of _ "[]"]) simp
next
  case (Cons c cs)
  let ?ans = "\<lambda>now. answerAt now (lq_Limit c) (lq_Units c) (lq_Test c) (lq_Must c) (view s (lq_Key c))"
  let ?sync = "\<lambda>now. shouldSynchronizeRateLimitEvent (lq_Test c) (lq_Must c) (Some (?ans now))"
  let ?w = "\<lambda>now s1. wireEvent A (wall s1) \<lparr>EventKey = lq_Key c, EventResult = ?ans now, EventRequestID = lq_ID c, EventMustConsume = lq_Must c\<rparr>"
  obtain now s1 where g: "checkLimit (liftLimiter (chanSynchronizer A wall) rl) (\<lambda>_. None) (lq_Key c) (lq_Limit c) (lq_Units c)
        (lq_Test c) (lq_ID c) (lq_Must c) True (s, q) = (Inr (?ans now), s1, if ?sync now then q @ [?w now s1] else q)"
    and s1: "ready s1" "clock s \<le> now" "now \<le> clock s1" and v1: "view s1 = charge (now, c) (view s)"
    using gateway_check [OF assms(1) Cons.prems, of A wall "lq_Key c" "lq_Limit c" "lq_Units c" "lq_Test c" "lq_ID c" "lq_Must c" q]
    unfolding charge_def fst_conv snd_conv by blast
  obtain s' events ats moves where
    run: "sendAll rl A wall cs (s1, if ?sync now then q @ [?w now s1] else q) = (s', (if ?sync now then q @ [?w now s1] else q) @ events)"
    and s': "ready s'" "clock s1 \<le> clock s'" "length ats = length cs" "sorted ats" "\<forall>a \<in> set ats. clock s1 \<le> a \<and> a \<le> clock s'"
    and v': "view s' = fold charge (zip ats cs) (view s1)" "subseq moves (zip ats cs)" "view s' = fold charge moves (view s1)"
    and ev: "list_all2 (eventOf A wall) moves events"
    using Cons.IH [OF s1(1)] by blast
  let ?events = "(if ?sync now then [?w now s1] else []) @ events" and ?moves = "(if ?sync now then [(now, c)] else []) @ moves"
  have "view s1 = view s" if "\<not> ?sync now"
    using effectAt_unsynchronized [OF that] v1 by (simp add: charge_def fun_upd_idem)
  then have "view s' = fold charge ?moves (view s)" using v'(3) v1 by (cases "?sync now") simp_all
  moreover have "list_all2 (eventOf A wall) ?moves ?events"
    using ev by (auto simp: eventOf_def Let_def wireEvent_def answerAt_def shouldSynchronizeRateLimitEvent_def)
  moreover have "sendAll rl A wall (c # cs) (s, q) = (s', q @ ?events)" using g run by simp
  moreover have "subseq ?moves (zip (now # ats) (c # cs))" using v'(2) by auto
  moreover have "view s' = fold charge (zip (now # ats) (c # cs)) (view s)" using v'(1) v1 by simp
  moreover have "length (now # ats) = length (c # cs)" "sorted (now # ats)" "\<forall>a \<in> set (now # ats). clock s \<le> a \<and> a \<le> clock s'"
    "clock s \<le> clock s'"
    using s' s1 by fastforce+
  ultimately show ?case using s'(1) by blast
qed

text \<open>What applying fresh events of another cluster does to the buckets.\<close>

lemma apply_fresh:
  assumes "answering_limiter rl view ready clock" and "ready s" and "eventOf A wall x w" and "A \<noteq> B" and "B \<noteq> []" and "\<not> tooOld t w"
  shows "\<exists>now s'. snd (ApplySynchronizedEvent (\<lambda>_. None) (OwnLimiter rl) B True t (Some w) s) = s' \<and> ready s' \<and>
    view s' = charge (now, snd x) (view s) \<and> clock s \<le> now \<and> now \<le> clock s'"
proof -
  let ?l = "lq_Limit (snd x)"
  have w: "\<lparr>Limit = we_Rate w, Period = we_Period w, AllowDebt = we_AllowDebt w\<rparr> = ?l" "we_Key w = lq_Key (snd x)"
    "we_Units w = lq_Units (snd x)" "we_MustConsume w = lq_Must (snd x)" "we_ClusterName w = A" "\<not> lq_Test (snd x)"
    using assms(3) by (simp_all add: eventOf_def Let_def)
  obtain now s' where "leakyBucket rl (\<lambda>_. None) (lq_Key (snd x)) (Limit ?l) (Period ?l) (lq_Units (snd x)) False (lq_Must (snd x)) (AllowDebt ?l) s
      = (Inr (fst (transition now ?l (lq_Units (snd x)) False (lq_Must (snd x)) (view s (lq_Key (snd x))))), s')" "ready s'"
    "view s' = charge (now, snd x) (view s)" "clock s \<le> now" "now \<le> clock s'"
    using answering_limiter.leakyBucket_answers [OF assms(1,2), of "lq_Key (snd x)" ?l "lq_Units (snd x)" False "lq_Must (snd x)"] w(6)
    unfolding charge_def effectAt_def by auto
  with assms(4-6) w show ?thesis
    by (auto simp: ApplySynchronizedEvent_def checkLimitWithoutSync_def checkLimit_def Let_def)
qed

lemma applyAll_fresh:
  assumes "answering_limiter rl view ready clock" and "ready s" and "A \<noteq> B" and "B \<noteq> []"
    and "list_all2 (eventOf A wall) moves (map snd ds)" and "\<forall>(t, w) \<in> set ds. \<not> tooOld t w"
  shows "\<exists>bs. length bs = length moves \<and> ready (applyAll (\<lambda>_. None) (OwnLimiter rl) B ds s) \<and>
    clock s \<le> clock (applyAll (\<lambda>_. None) (OwnLimiter rl) B ds s) \<and> sorted bs \<and>
    (\<forall>b \<in> set bs. clock s \<le> b \<and> b \<le> clock (applyAll (\<lambda>_. None) (OwnLimiter rl) B ds s)) \<and>
    view (applyAll (\<lambda>_. None) (OwnLimiter rl) B ds s) = fold charge (zip bs (map snd moves)) (view s)"
  using assms(2,5,6)
proof (induction ds arbitrary: s moves)
  case Nil
  then show ?case by (intro exI [of _ "[]"]) simp
next
  case (Cons d ds)
  obtain t w where d: "d = (t, w)" by (cases d)
  obtain x xs where m: "moves = x # xs" "eventOf A wall x w" "list_all2 (eventOf A wall) xs (map snd ds)"
    using Cons.prems(2) d by (auto simp: list_all2_Cons2)
  obtain now s1 where s1: "snd (ApplySynchronizedEvent (\<lambda>_. None) (OwnLimiter rl) B True t (Some w) s) = s1" "ready s1"
    "view s1 = charge (now, snd x) (view s)" "clock s \<le> now" "now \<le> clock s1"
  proof -
    have "\<not> tooOld t w" using Cons.prems(3) d by simp
    from apply_fresh [OF assms(1) Cons.prems(1) m(2) assms(3,4) this] that show thesis by blast
  qed
  define s2 where "s2 = applyAll (\<lambda>_. None) (OwnLimiter rl) B ds s1"
  obtain bs where bs: "length bs = length xs" "ready s2" "clock s1 \<le> clock s2" "sorted bs" "\<forall>b \<in> set bs. clock s1 \<le> b \<and> b \<le> clock s2"
    "view s2 = fold charge (zip bs (map snd xs)) (view s1)"
    using Cons.IH [OF s1(2) m(3)] Cons.prems(3) unfolding s2_def by auto
  have "applyAll (\<lambda>_. None) (OwnLimiter rl) B (d # ds) s = s2" by (simp add: d s1(1) s2_def)
  moreover have "sorted (now # bs)" "\<forall>b \<in> set (now # bs). clock s \<le> b \<and> b \<le> clock s2" "clock s \<le> clock s2"
    using bs s1 by fastforce+
  ultimately show ?case using bs m(1) s1(3) by (intro exI [of _ "now # bs"]) simp
qed

section \<open>The synchronizer's accounts\<close>

text \<open>Every sent event is queued, held by a processor, or has met its fate.\<close>

definition sync_inv :: "natsSynchronizer \<Rightarrow> bool" where
  "sync_inv s \<longleftrightarrow>
     sentEvents s = mset (case resultChan s of None \<Rightarrow> [] | Some q \<Rightarrow> q) + busy s + publishedEvents s
       + droppedEvents s + failedEvents s \<and>
     (case resultChan s of None \<Rightarrow> running s = 0 \<and> \<not> chanClosed s
      | Some q \<Rightarrow> length q \<le> publishResultBufferSize \<and>
          (running s < numPublishResultProcessors \<longrightarrow> chanClosed s \<and> q = [])) \<and>
     size (busy s) \<le> running s \<and> running s \<le> numPublishResultProcessors"

lemma sync_inv_init: "sync_inv newNATSSynchronizer"
  by (simp add: sync_inv_def newNATSSynchronizer_def)

lemma sync_inv_send: "sync_inv s \<Longrightarrow> \<not> chanClosed s \<Longrightarrow> syncSend w s = Some s' \<Longrightarrow> sync_inv s'"
  by (auto simp: sync_inv_def syncSend_def split: option.splits if_splits)

lemma sync_inv_receive:
  "sync_inv s \<Longrightarrow> size (busy s) < running s \<Longrightarrow> syncReceive s = Some s' \<Longrightarrow> sync_inv s'"
  by (auto simp: sync_inv_def syncReceive_def split: option.splits list.splits)

lemma sync_inv_process:
  assumes "sync_inv s" and "w \<in># busy s"
  shows "sync_inv (syncProcess now ok w s)"
proof -
  obtain B where B: "busy s = add_mset w B" using assms(2) by (metis multi_member_split)
  with assms(1) show ?thesis
    by (cases "processEvent now ok w") (auto simp: sync_inv_def syncProcess_def Let_def split: option.splits)
qed

lemma sync_inv_step: "sync_step s s' \<Longrightarrow> sync_inv s \<Longrightarrow> sync_inv s'"
proof (induction rule: sync_step.induct)
  case (start s)
  then show ?case by (simp add: sync_inv_def syncStart_def)
next
  case (send s w s')
  then show ?case by (blast intro: sync_inv_send)
next
  case (receive s s')
  then show ?case by (blast intro: sync_inv_receive)
next
  case (process w s now ok)
  then show ?case by (blast intro: sync_inv_process)
next
  case (stop s)
  then show ?case by (auto simp: sync_inv_def)
next
  case (exit s)
  then show ?case by (auto simp: sync_inv_def)
qed

lemma sync_reach_inv: "sync_reach s \<Longrightarrow> sync_inv s"
  by (induction rule: sync_reach.induct) (auto intro: sync_inv_init sync_inv_step)

text \<open>Idle processors of a closed, empty channel all return.\<close>

lemma exit_all:
  assumes "sync_reach s" and "chanClosed s" and "resultChan s = Some []" and "busy s = {#}"
  shows "sync_reach (s\<lparr>running := 0\<rparr>)"
  using assms
proof (induction "running s" arbitrary: s)
  case 0
  then have "s\<lparr>running := 0\<rparr> = s" by (cases s) simp
  then show ?case using 0(2) by (simp only:)
next
  case (Suc n)
  let ?s = "s\<lparr>running := running s - 1\<rparr>"
  have "sync_reach ?s"
    using Suc.prems Suc.hyps(2) by (intro sync_reach.step [OF Suc.prems(1)] sync_step.exit) auto
  from Suc.hyps(1) [of ?s, OF _ this] Suc.prems Suc.hyps(2) show ?case by simp
qed

section \<open>Properties\<close>



text \<open>
  No echo: applying a received event with the package's own limiter does not send an event, so
  events do not circulate between clusters. The result does not depend on the synchronizer.
\<close>

lemma applied_events_not_resent:
  "ApplySynchronizedEvent ctx (OwnLimiter (rl\<lparr>synchronizer := x\<rparr>)) B enabled now rle s =
     ApplySynchronizedEvent ctx (OwnLimiter rl) B enabled now rle s"
proof -
  have nb: "nextBackoff (rl\<lparr>synchronizer := x\<rparr>) b = nextBackoff rl b" for b
    by (simp add: nextBackoff_def Let_def)
  have sl: "backoffSleep (rl\<lparr>synchronizer := x\<rparr>) b y = backoffSleep rl b y" for b y
    by (auto simp: backoffSleep_def jitter_def Let_def split: option.split)
  have "casLoop (rl\<lparr>synchronizer := x\<rparr>) ctx att n b y = casLoop rl ctx att n b y" for att n b y
    by (induction n arbitrary: b y) (simp_all add: nb sl split: option.split sum.split prod.split)
  moreover have "leakyAttempt (rl\<lparr>synchronizer := x\<rparr>) = leakyAttempt rl"
    by (auto simp: leakyAttempt_def fun_eq_iff split: prod.splits sum.splits option.splits)
  ultimately have "leakyBucket (rl\<lparr>synchronizer := x\<rparr>) ctx k r p n t m d y = leakyBucket rl ctx k r p n t m d y"
    for k r p n t m d y by (simp add: leakyBucket_def casRetry_def)
  then show ?thesis
    by (simp add: ApplySynchronizedEvent_def checkLimitWithoutSync_def checkLimit_def Let_def
        split: option.split prod.split sum.split)
qed

text \<open>
  Stopping the synchronizer loses nothing: once the channel is closed and every processor has
  returned, which is what \<open>Stop\<close> waits for, each event sent was published, dropped as too old or
  refused by the publisher, whatever the interleaving of senders and processors.
\<close>

theorem stop_drains:
  assumes "sync_reach s" and "chanClosed s" and "running s = 0"
  shows "sentEvents s = publishedEvents s + droppedEvents s + failedEvents s"
  using sync_reach_inv [OF assms(1)] assms(2,3)
  by (auto simp: sync_inv_def numPublishResultProcessors_def split: option.splits)

text \<open>One event through a started synchronizer that is then stopped.\<close>

text \<open>
  Whatever the answer of the server on the way, when \<open>EnsureNATSStream\<close> succeeds the stream has
  the configuration of the gateway, also if another replica created it in between; the hypotheses
  say that \<open>AddStream\<close> and \<open>UpdateStream\<close> store the configuration when they succeed.
\<close>

lemma EnsureNATSStream_configured:
  assumes "\<And>c x x'. AddStream js c x = (Inr (), x') \<Longrightarrow> streams x' (sc_Name c) = Some c"
    and "\<And>c x x'. UpdateStream js c x = (Inr (), x') \<Longrightarrow> streams x' (sc_Name c) = Some c"
    and "EnsureNATSStream js cfg s = (Inr (), s')"
  shows "streams s' (cfg_Stream cfg) = Some (natsStreamConfig cfg)"
proof -
  have "(\<exists>x. AddStream js (natsStreamConfig cfg) x = (Inr (), s')) \<or>
      (\<exists>x. UpdateStream js (natsStreamConfig cfg) x = (Inr (), s'))"
    using assms(3)
    by (fastforce simp: EnsureNATSStream_def split: prod.splits sum.splits if_splits)
  moreover have "sc_Name (natsStreamConfig cfg) = cfg_Stream cfg" by (simp add: natsStreamConfig_def)
  ultimately show ?thesis using assms(1,2) by metis
qed

text \<open>A server whose lookup finds no stream although a concurrent replica has created it.\<close>

end
