(* ===== verification/CounterStore.thy ===== *)
theory CounterStore
  imports OlricStore
begin

text \<open>
  The fixed-window counters of the rate-limiter service (\<open>ratelimiter/olric_store.go\<close>): the store
  of the service's limiters over an Olric map.

  The limiter library (\<open>ulule/limiter\<close>) and Olric are not part of the repository. Of the library the
  store uses the \<open>Rate\<close> and \<open>Context\<close> structs and \<open>GetContextFromState\<close>, which is an argument of
  the operations; the map is a record of its operations, of which the store sees the integer, 0
  where it does not decode, and the expiry time in Unix milliseconds, 0 for none. Times are Unix
  nanoseconds.
\<close>

section \<open>Data\<close>

record Rate =
  rate_Formatted :: string
  rate_Period :: i64
  rate_Limit :: i64

record limiterContext =
  ctx_Limit :: i64
  ctx_Remaining :: i64
  ctx_Reset :: i64
  ctx_Reached :: bool

text \<open>The arguments of \<open>GetContextFromState\<close>: the time, the rate, the expiration and the count.\<close>

type_synonym contextFromState = "int \<Rightarrow> Rate \<Rightarrow> int \<Rightarrow> i64 \<Rightarrow> limiterContext"

record 's CounterMap =
  cm_Get :: "string \<Rightarrow> 's \<Rightarrow> (dmap_error + int \<times> i64) \<times> 's"
  cm_Put :: "string \<Rightarrow> int \<Rightarrow> i64 option \<Rightarrow> 's \<Rightarrow> (dmap_error + unit) \<times> 's"
  cm_Delete :: "string \<Rightarrow> 's \<Rightarrow> (dmap_error + unit) \<times> 's"
  cm_Now :: "'s \<Rightarrow> int"

record 's Store =
  Prefix :: string
  dmap :: "'s CounterMap"

definition getCacheKey :: "'s Store \<Rightarrow> string \<Rightarrow> string" where
  "getCacheKey store key = Prefix store @ '':'' @ key"

section \<open>Operations\<close>

text \<open>The first call of \<open>Get\<close>, the read.\<close>

definition storeRead :: "'s Store \<Rightarrow> string \<Rightarrow> 's \<Rightarrow> (dmap_error + int \<times> i64) \<times> 's" where
  "storeRead store key s = cm_Get (dmap store) (getCacheKey store key) s"

text \<open>The write of the incremented value, or of a new counter; the value is the result.\<close>

definition storeCount ::
    "'s Store \<Rightarrow> string \<Rightarrow> dmap_error + int \<times> i64 \<Rightarrow> 's \<Rightarrow> (dmap_error + int) \<times> 's" where
  "storeCount store key result s =
     (let fullKey = getCacheKey store key; put = cm_Put (dmap store) fullKey;
          fresh = (case put 1 None s of (Inl e, s') \<Rightarrow> (Inl e, s') | (Inr _, s') \<Rightarrow> (Inr 1, s'))
      in case result of
           Inl (DMapError e) \<Rightarrow> (Inl (DMapError e), s)
         | Inl ErrKeyNotFound \<Rightarrow> fresh
         | Inr (old, ttl) \<Rightarrow>
             if ttl > 0 then
               (case put (old + 1) (Some (ttl * 1000000 - cm_Now (dmap store) s)) s of
                  (Inl e, s') \<Rightarrow> (Inl e, s')
                | (Inr _, s') \<Rightarrow> (Inr (old + 1), s'))
             else fresh)"

text \<open>The rest: the expiration of a new counter, and the context.\<close>

definition storeFinish ::
    "contextFromState \<Rightarrow> 's Store \<Rightarrow> string \<Rightarrow> Rate \<Rightarrow> dmap_error + int \<times> i64 \<Rightarrow> int \<Rightarrow> 's
       \<Rightarrow> (dmap_error + limiterContext) \<times> 's" where
  "storeFinish gcs store key rate result value s =
     (let now = cm_Now (dmap store) s; expiration = now + rate_Period rate in
      if value = 1 then
        (if quot64 (rate_Period rate) 1000000 > 0 then
           (case cm_Put (dmap store) (getCacheKey store key) value (Some (rate_Period rate)) s of
              (Inl (DMapError e), s') \<Rightarrow> (Inl (DMapError e), s')
            | (_, s') \<Rightarrow> (Inr (gcs now rate expiration value), s'))
         else (Inr (gcs now rate expiration value), s))
      else
        (let expiration = (case result of
                             Inr (_, ttl) \<Rightarrow> if ttl > 0 then now + ttl * 1000000 else expiration
                           | Inl _ \<Rightarrow> expiration)
         in (Inr (gcs now rate expiration value), s)))"

definition storeWrite ::
    "contextFromState \<Rightarrow> 's Store \<Rightarrow> string \<Rightarrow> Rate \<Rightarrow> dmap_error + int \<times> i64 \<Rightarrow> 's
       \<Rightarrow> (dmap_error + limiterContext) \<times> 's" where
  "storeWrite gcs store key rate result s =
     (case storeCount store key result s of
        (Inl e, s1) \<Rightarrow> (Inl e, s1)
      | (Inr value, s1) \<Rightarrow> storeFinish gcs store key rate result value s1)"

definition storeGet ::
    "contextFromState \<Rightarrow> 's Store \<Rightarrow> string \<Rightarrow> Rate \<Rightarrow> 's \<Rightarrow> (dmap_error + limiterContext) \<times> 's" where
  "storeGet gcs store key rate s =
     (case storeRead store key s of (result, s1) \<Rightarrow> storeWrite gcs store key rate result s1)"

definition storeReset ::
    "contextFromState \<Rightarrow> 's Store \<Rightarrow> string \<Rightarrow> Rate \<Rightarrow> 's \<Rightarrow> (dmap_error + limiterContext) \<times> 's" where
  "storeReset gcs store key rate s =
     (case cm_Delete (dmap store) (getCacheKey store key) s of
        (Inl e, s') \<Rightarrow> (Inl e, s')
      | (Inr _, s') \<Rightarrow>
          (let now = cm_Now (dmap store) s' in (Inr (gcs now rate (now + rate_Period rate) 0), s')))"

section \<open>An in-memory map\<close>

text \<open>Counters with their expiry times and a clock; an expired entry is not found.\<close>

record memCounters =
  mc_now :: int
  mc_vals :: "string \<Rightarrow> (int \<times> i64) option"

definition mc_live :: "memCounters \<Rightarrow> string \<Rightarrow> (int \<times> i64) option" where
  "mc_live s k =
     (case mc_vals s k of
        None \<Rightarrow> None
      | Some (v, ttl) \<Rightarrow> if ttl > 0 \<and> ttl * 1000000 \<le> mc_now s then None else Some (v, ttl))"

definition memCounterMap :: "memCounters CounterMap" where
  "memCounterMap =
     \<lparr>cm_Get = (\<lambda>k s. (case mc_live s k of None \<Rightarrow> Inl ErrKeyNotFound | Some x \<Rightarrow> Inr x, s)),
      cm_Put = (\<lambda>k v px s.
        (Inr (), s\<lparr>mc_vals := (mc_vals s)(k \<mapsto>
           (v, case px of None \<Rightarrow> 0 | Some d \<Rightarrow> (mc_now s + d) div 1000000))\<rparr>)),
      cm_Delete = (\<lambda>k s. (Inr (), s\<lparr>mc_vals := (mc_vals s)(k := None)\<rparr>)),
      cm_Now = mc_now\<rparr>"

definition memStore :: "memCounters Store" where
  "memStore = \<lparr>Prefix = ''limiter'', dmap = memCounterMap\<rparr>"

lemmas memStore_simps = memStore_def memCounterMap_def

lemma getCacheKey_inj: "getCacheKey st k = getCacheKey st k' \<longleftrightarrow> k = k'"
  by (simp add: getCacheKey_def)

text \<open>A live counter in its window: its value and expiry, strictly in the future.\<close>

definition in_window :: "memCounters \<Rightarrow> string \<Rightarrow> int \<Rightarrow> i64 \<Rightarrow> bool" where
  "in_window s k v ttl \<longleftrightarrow> mc_vals s (getCacheKey memStore k) = Some (v, ttl) \<and> mc_now s < ttl * 1000000 \<and> 0 < ttl"

lemma read_in_window: "in_window s k v ttl \<Longrightarrow> storeRead memStore k s = (Inr (v, ttl), s)"
  by (simp add: in_window_def storeRead_def memStore_simps mc_live_def)

lemma write_in_window:
  assumes "0 < ttl" and "1 \<le> v"
  shows "storeWrite gcs memStore k rate (Inr (v, ttl)) s =
     (Inr (gcs (mc_now s) rate (mc_now s + ttl * 1000000) (v + 1)),
      s\<lparr>mc_vals := (mc_vals s)(getCacheKey memStore k \<mapsto> (v + 1, ttl))\<rparr>)"
  using assms
  by (simp add: storeWrite_def storeCount_def storeFinish_def memStore_simps Let_def getCacheKey_def)

lemma get_in_window:
  assumes "in_window s k v ttl" and "1 \<le> v"
  shows "storeGet gcs memStore k rate s =
     (Inr (gcs (mc_now s) rate (mc_now s + ttl * 1000000) (v + 1)),
      s\<lparr>mc_vals := (mc_vals s)(getCacheKey memStore k \<mapsto> (v + 1, ttl))\<rparr>)"
  using assms read_in_window [OF assms(1)] write_in_window [of ttl v gcs k rate s]
  by (simp add: storeGet_def in_window_def)

lemma get_fresh:
  assumes "mc_live s (getCacheKey memStore k) = None" and "1000000 \<le> rate_Period rate"
    and "rate_Period rate \<le> MaxInt64"
  shows "storeGet gcs memStore k rate s =
     (Inr (gcs (mc_now s) rate (mc_now s + rate_Period rate) 1),
      s\<lparr>mc_vals := (mc_vals s)(getCacheKey memStore k \<mapsto> (1, (mc_now s + rate_Period rate) div 1000000))\<rparr>)"
proof -
  have "0 < quot64 (rate_Period rate) 1000000"
    using assms(2,3) quot64_nonneg [of "rate_Period rate" 1000000] zdiv_mono1 [of 1000000 "rate_Period rate" 1000000]
    by simp
  with assms show ?thesis
    by (simp add: storeGet_def storeRead_def storeWrite_def storeCount_def storeFinish_def memStore_simps
        Let_def getCacheKey_def)
qed

text \<open>A run of calls on one key within a window.\<close>

fun getMany ::
    "contextFromState \<Rightarrow> string \<Rightarrow> Rate \<Rightarrow> nat \<Rightarrow> memCounters \<Rightarrow> limiterContext list \<times> memCounters" where
  "getMany gcs k rate 0 s = ([], s)"
| "getMany gcs k rate (Suc n) s =
     (case storeGet gcs memStore k rate s of
        (Inl e, s') \<Rightarrow> getMany gcs k rate n s'
      | (Inr c, s') \<Rightarrow> (case getMany gcs k rate n s' of (cs, s'') \<Rightarrow> (c # cs, s'')))"

lemma getMany_in_window:
  assumes "in_window s k v ttl" and "1 \<le> v" and "\<And>t x c. ctx_Reached (gcs t rate x c) \<longleftrightarrow> rate_Limit rate < c"
  shows "length (filter (\<lambda>c. \<not> ctx_Reached c) (fst (getMany gcs k rate n s))) = min n (nat (rate_Limit rate - v))"
  using assms(1,2)
proof (induction n arbitrary: s v)
  case 0
  then show ?case by simp
next
  case (Suc n)
  let ?s = "s\<lparr>mc_vals := (mc_vals s)(getCacheKey memStore k \<mapsto> (v + 1, ttl))\<rparr>"
  have g: "storeGet gcs memStore k rate s = (Inr (gcs (mc_now s) rate (mc_now s + ttl * 1000000) (v + 1)), ?s)"
    by (rule get_in_window [OF Suc.prems])
  have w: "in_window ?s k (v + 1) ttl" using Suc.prems(1) by (simp add: in_window_def)
  have ih: "length (filter (\<lambda>c. \<not> ctx_Reached c) (fst (getMany gcs k rate n ?s))) = min n (nat (rate_Limit rate - (v + 1)))"
    by (rule Suc.IH [OF w]) (use Suc.prems in simp)
  show ?case
  proof (cases "rate_Limit rate < v + 1")
    case True
    with g ih assms(3) show ?thesis by (auto split: prod.splits)
  next
    case False
    then have "nat (rate_Limit rate - v) = Suc (nat (rate_Limit rate - (v + 1)))" by simp
    with False g ih assms(3) show ?thesis by (auto split: prod.splits)
  qed
qed

text \<open>The count of a key in its window, 0 outside one, in a world where every counter has an expiry.\<close>

definition countOf :: "memCounters \<Rightarrow> string \<Rightarrow> int" where
  "countOf s k = (case mc_live s (getCacheKey memStore k) of None \<Rightarrow> 0 | Some (v, _) \<Rightarrow> v)"

definition counters_ok :: "memCounters \<Rightarrow> bool" where
  "counters_ok s \<longleftrightarrow> 0 \<le> mc_now s \<and> (\<forall>k v ttl. mc_vals s k = Some (v, ttl) \<longrightarrow> 1 \<le> v \<and> 0 < ttl)"

definition rate_ok :: "Rate \<Rightarrow> bool" where
  "rate_ok rate \<longleftrightarrow> 1000000 \<le> rate_Period rate \<and> rate_Period rate \<le> MaxInt64"

lemma window_future:
  assumes "0 \<le> now" and "1000000 \<le> period"
  shows "now < (now + period) div 1000000 * 1000000 \<and> 0 < (now + period) div (1000000 :: int)"
proof -
  have "(now + period) mod 1000000 < 1000000" by simp
  then have "now < (now + period) div 1000000 * 1000000"
    using assms(2) minus_mod_eq_div_mult [of "now + period" 1000000] by linarith
  moreover from this assms(1) have "0 < (now + period) div 1000000" by (smt (verit) mult_nonpos_nonneg)
  ultimately show ?thesis ..
qed

lemma mc_live_upd:
  "mc_live (s\<lparr>mc_vals := (mc_vals s)(k' \<mapsto> (v, ttl))\<rparr>) k =
     (if k = k' then (if ttl > 0 \<and> ttl * 1000000 \<le> mc_now s then None else Some (v, ttl)) else mc_live s k)"
  by (simp add: mc_live_def cong: option.case_cong)

lemma countOf_upd:
  assumes "mc_now s < ttl * 1000000"
  shows "countOf (s\<lparr>mc_vals := (mc_vals s)(getCacheKey memStore k \<mapsto> (v, ttl))\<rparr>) = (countOf s)(k := v)"
  using assms by (auto simp: countOf_def mc_live_upd fun_eq_iff getCacheKey_inj)

lemma counters_ok_upd:
  "counters_ok s \<Longrightarrow> 1 \<le> v \<Longrightarrow> 0 < ttl \<Longrightarrow> counters_ok (s\<lparr>mc_vals := (mc_vals s)(k \<mapsto> (v, ttl))\<rparr>)"
  by (simp add: counters_ok_def)

text \<open>One call, in or outside a window, counts its key and nothing else.\<close>

lemma get_counts:
  assumes "counters_ok s" and "rate_ok rate" and "\<And>t x c. ctx_Reached (gcs t rate x c) \<longleftrightarrow> rate_Limit rate < c"
  shows "\<exists>c s'. storeGet gcs memStore k rate s = (Inr c, s') \<and>
     (ctx_Reached c \<longleftrightarrow> rate_Limit rate < countOf s k + 1) \<and> counters_ok s' \<and>
     countOf s' = (countOf s)(k := countOf s k + 1)"
proof (cases "mc_live s (getCacheKey memStore k)")
  case None
  let ?ttl = "(mc_now s + rate_Period rate) div 1000000"
  have r: "1000000 \<le> rate_Period rate" "rate_Period rate \<le> MaxInt64" and now: "0 \<le> mc_now s"
    using assms(1,2) by (simp_all add: rate_ok_def counters_ok_def)
  note f = window_future [OF now r(1)]
  show ?thesis
    using get_fresh [OF None r, of gcs] None f assms(1,3) counters_ok_upd [OF assms(1)]
      countOf_upd [OF conjunct1 [OF f]]
    by (simp add: countOf_def [of s k])
next
  case (Some x)
  obtain v ttl where x: "x = (v, ttl)" by (cases x)
  have val: "mc_vals s (getCacheKey memStore k) = Some (v, ttl)"
    using Some x by (auto simp: mc_live_def split: option.splits if_splits)
  with assms(1) have pos: "1 \<le> v" "0 < ttl" by (auto simp: counters_ok_def)
  with Some x val have w: "in_window s k v ttl" by (auto simp: in_window_def mc_live_def split: if_splits)
  show ?thesis
    using get_in_window [OF w pos(1), of gcs rate] Some x pos assms(3) counters_ok_upd [OF assms(1)]
      countOf_upd [of s ttl k "v + 1"] w
    by (simp add: countOf_def [of s k] in_window_def)
qed

section \<open>Properties\<close>

text \<open>
  One caller at a time, the counter admits exactly the limit: of any number of calls one after
  the other in a fresh window, as many are not \<open>Reached\<close> as the limit says, and the counter
  keeps the expiry of its first call. The hypothesis on the library's \<open>GetContextFromState\<close> is that a
  context is reached when the count is above the limit.
\<close>

theorem fixed_window_sequential:
  assumes "\<And>t x c. ctx_Reached (gcs t rate x c) \<longleftrightarrow> rate_Limit rate < c"
    and "mc_live s (getCacheKey memStore k) = None" and "1000000 \<le> rate_Period rate" and "rate_Period rate \<le> MaxInt64"
    and "0 \<le> mc_now s"
  shows "length (filter (\<lambda>c. \<not> ctx_Reached c) (fst (getMany gcs k rate n s))) = min n (nat (rate_Limit rate))"
proof (cases n)
  case 0
  then show ?thesis by simp
next
  case (Suc m)
  let ?ttl = "(mc_now s + rate_Period rate) div 1000000"
  let ?s = "s\<lparr>mc_vals := (mc_vals s)(getCacheKey memStore k \<mapsto> (1, ?ttl))\<rparr>"
  have w: "in_window ?s k 1 ?ttl" using window_future [OF assms(5,3)] by (simp add: in_window_def)
  have "length (filter (\<lambda>c. \<not> ctx_Reached c) (fst (getMany gcs k rate m ?s))) = min m (nat (rate_Limit rate - 1))"
    using assms(1) by (intro getMany_in_window [OF w]) auto
  moreover have "rate_Limit rate < 1 \<or> nat (rate_Limit rate) = Suc (nat (rate_Limit rate - 1))" by auto
  ultimately show ?thesis
    using get_fresh [OF assms(2-4), of gcs] assms(1) Suc by (auto split: prod.splits)
qed

text \<open>Ten calls against a limit of four a second.\<close>

definition exampleContext :: contextFromState where
  "exampleContext now rate expiration count =
     \<lparr>ctx_Limit = rate_Limit rate, ctx_Remaining = max 0 (rate_Limit rate - count),
      ctx_Reset = expiration div 1000000000, ctx_Reached = (rate_Limit rate < count)\<rparr>"

text \<open>
  Two callers at once, it does not: \<open>Get\<close> reads the counter and puts it back in two steps, so
  when two calls read before either writes, both get the same count, the counter moves by one, and
  both are admitted where the limit had room for one.
\<close>

theorem concurrent_calls_overrun:
  assumes "\<And>t x c. ctx_Reached (gcs t rate x c) \<longleftrightarrow> rate_Limit rate < c"
    and "in_window s k v ttl" and "1 \<le> v" and "rate_Limit rate = v + 1"
  shows "\<exists>r1 r2 c1 c2 s3 s4. storeRead memStore k s = (r1, s) \<and> storeRead memStore k s = (r2, s) \<and>
     storeWrite gcs memStore k rate r1 s = (Inr c1, s3) \<and> storeWrite gcs memStore k rate r2 s3 = (Inr c2, s4) \<and>
     \<not> ctx_Reached c1 \<and> \<not> ctx_Reached c2 \<and> in_window s4 k (v + 1) ttl"
proof -
  let ?s = "s\<lparr>mc_vals := (mc_vals s)(getCacheKey memStore k \<mapsto> (v + 1, ttl))\<rparr>"
  have ttl: "0 < ttl" using assms(2) by (simp add: in_window_def)
  note w = write_in_window [OF ttl assms(3), of gcs k rate]
  have "in_window ?s k (v + 1) ttl" using assms(2) by (simp add: in_window_def)
  then show ?thesis
    using read_in_window [OF assms(2)] w [of s] w [of ?s] assms(1,4) by auto
qed

text \<open>
  \<open>Get\<close> uses the entry's expiry in two ways: as a Unix time when it puts the counter back, and as
  a time span when it reports the expiration. Reported is the expiry of the entry plus the present
  time, so any later call in a window reports a reset decades away.
\<close>

theorem reported_expiration:
  assumes "in_window s k v ttl" and "1 \<le> v"
  shows "\<exists>s'. storeGet gcs memStore k rate s = (Inr (gcs (mc_now s) rate (ttl * 1000000 + mc_now s) (v + 1)), s') \<and>
     in_window s' k (v + 1) ttl"
  using get_in_window [OF assms, of gcs rate] assms by (auto simp: in_window_def add.commute)

end
