(* ===== verification/RateLimiterService.thy ===== *)
theory RateLimiterService
  imports CounterStore
begin

text \<open>
  The rate-limiter service (\<open>ratelimiter/rate_limiter.go\<close>, \<open>nvcf_client.go\<close>): rates of a policy,
  the cached policy client, the limiters of the user, account and global tiers, and the
  \<open>RateLimit\<close> call that lets a request pass when every tier does.

  \<open>NewRateFromFormatted\<close> of the limiter library and the NVCF API are arguments. A \<open>ttlcache\<close> is the map
  of its live entries; an entry that expires between two calls is a change of the state the next
  call starts from. The service's state has the three caches and, behind them, the world of the
  store and the API.
\<close>

section \<open>Rates\<close>

record RateLimiterEntry =
  re_Limiter :: Rate
  re_Rate :: string

record LimiterEntry =
  le_Rates :: "RateLimiterEntry list"
  le_ExcludedNcaIds :: "string list"

text \<open>The first loop: trimmed, not empty, not seen before, and well-formed.\<close>

fun rateCandidates :: "(string \<Rightarrow> Rate option) \<Rightarrow> string list \<Rightarrow> string set \<Rightarrow> RateLimiterEntry list" where
  "rateCandidates newRate [] seenStr = []"
| "rateCandidates newRate (rawPart # parts) seenStr =
     (let part = TrimSpace rawPart in
      if part = [] \<or> part \<in> seenStr then rateCandidates newRate parts seenStr
      else (case newRate part of
              None \<Rightarrow> rateCandidates newRate parts (insert part seenStr)
            | Some rate \<Rightarrow>
                \<lparr>re_Limiter = rate, re_Rate = part\<rparr> # rateCandidates newRate parts (insert part seenStr)))"

text \<open>The second loop: the index and limit of the strictest candidate of each period.\<close>

fun periodWinners ::
    "nat \<Rightarrow> RateLimiterEntry list \<Rightarrow> (i64 \<Rightarrow> (nat \<times> i64) option) \<Rightarrow> (i64 \<Rightarrow> (nat \<times> i64) option)" where
  "periodWinners i [] byPeriod = byPeriod"
| "periodWinners i (c # cs) byPeriod =
     periodWinners (Suc i) cs
       (case byPeriod (rate_Period (re_Limiter c)) of
          Some (j, l) \<Rightarrow>
            if rate_Limit (re_Limiter c) < l
            then byPeriod(rate_Period (re_Limiter c) \<mapsto> (i, rate_Limit (re_Limiter c))) else byPeriod
        | None \<Rightarrow> byPeriod(rate_Period (re_Limiter c) \<mapsto> (i, rate_Limit (re_Limiter c))))"

definition parseRates :: "(string \<Rightarrow> Rate option) \<Rightarrow> string \<Rightarrow> string + RateLimiterEntry list" where
  "parseRates newRate rateStr =
     (let candidates = rateCandidates newRate (Split rateStr CHR '','') {} in
      if candidates = [] then Inl rateStr
      else
        (let byPeriod = periodWinners 0 candidates Map.empty
         in Inr (filter (\<lambda>c. case byPeriod (rate_Period (re_Limiter c)) of
                               None \<Rightarrow> False
                             | Some (j, _) \<Rightarrow> re_Rate (candidates ! j) = re_Rate c) candidates)))"

section \<open>Policies\<close>

record CacheKey =
  ck_ClientAuthSubject :: string
  ck_NcaId :: string
  ck_FunctionVersionId :: string

definition CacheKeyString :: "CacheKey \<Rightarrow> string" where
  "CacheKeyString ck = ck_ClientAuthSubject ck @ '':'' @ ck_NcaId ck @ '':'' @ ck_FunctionVersionId ck"

definition NewPerNcaIdCacheKey :: "string \<Rightarrow> string \<Rightarrow> CacheKey" where
  "NewPerNcaIdCacheKey ncaId functionVersionId =
     \<lparr>ck_ClientAuthSubject = [], ck_NcaId = ncaId, ck_FunctionVersionId = functionVersionId\<rparr>"

definition NewGlobalCacheKey :: "string \<Rightarrow> CacheKey" where
  "NewGlobalCacheKey functionVersionId =
     \<lparr>ck_ClientAuthSubject = [], ck_NcaId = [], ck_FunctionVersionId = functionVersionId\<rparr>"

definition NewPerUserCacheKey :: "string \<Rightarrow> string \<Rightarrow> string \<Rightarrow> CacheKey" where
  "NewPerUserCacheKey clientAuthSubject ncaId functionVersionId =
     \<lparr>ck_ClientAuthSubject = clientAuthSubject, ck_NcaId = ncaId, ck_FunctionVersionId = functionVersionId\<rparr>"

text \<open>The fields of the protobuf messages the service reads; a per-account config is an id and a rate.\<close>

record RateLimitConfig =
  pc_Rate :: string
  pc_PerNcaIdConfigs :: "(string \<times> string) option list"
  pc_ExcludedNcaIds :: "string list"
  pc_PerUserRate :: string

record RateLimitRequest =
  rq_NcaId :: string
  rq_OwnerNcaId :: string
  rq_FunctionId :: string
  rq_FunctionVersionId :: string
  rq_ClientAuthSubject :: string

record IndexedPolicy =
  ip_Policy :: RateLimitConfig
  ip_NcaIdToPerNcaIdConfig :: "string \<Rightarrow> (string \<times> string) option"

definition buildIndexedPolicy :: "RateLimitConfig \<Rightarrow> IndexedPolicy" where
  "buildIndexedPolicy config =
     \<lparr>ip_Policy = config,
      ip_NcaIdToPerNcaIdConfig =
        fold (\<lambda>c m. case c of
                      None \<Rightarrow> m
                    | Some (ncaId, rate) \<Rightarrow> if ncaId \<noteq> [] then m(ncaId \<mapsto> (ncaId, rate)) else m)
          (pc_PerNcaIdConfigs config) Map.empty\<rparr>"

datatype grpc_code = CodeNotFound | CodeOther nat

text \<open>An error with a gRPC status, or a plain one, for which \<open>status.FromError\<close> fails.\<close>

datatype svc_error =
    StatusError grpc_code string
  | PlainError string
  | RatesError string
  | StoreError dmap_error
  | InvalidRequest
  | NoLimiter

text \<open>A policy response is a config or none; \<open>None\<close> of the outer option is a nil response.\<close>

type_synonym policyResponse = "RateLimitConfig option"
type_synonym 'w policyClient = "string \<times> string \<Rightarrow> 'w \<Rightarrow> (svc_error + policyResponse option) \<times> 'w"

record 'w service =
  svc_Limiters :: "CacheKey \<Rightarrow> LimiterEntry option"
  svc_indexedPolicies :: "string \<Rightarrow> IndexedPolicy option"
  svc_policies :: "string \<times> string \<Rightarrow> policyResponse option"
  svc_world :: 'w

text \<open>
  \<open>CachedNVCFClient.RateLimitPolicy\<close>: the loader drops the error of the API call, and an item that
  could not be loaded is a plain error.
\<close>

definition cachedRateLimitPolicy ::
    "'w policyClient \<Rightarrow> string \<times> string \<Rightarrow> 'w service \<Rightarrow> (svc_error + policyResponse) \<times> 'w service" where
  "cachedRateLimitPolicy client key r =
     (case svc_policies r key of
        Some resp \<Rightarrow> (Inr resp, r)
      | None \<Rightarrow>
          (case client key (svc_world r) of
             (Inr (Some resp), w) \<Rightarrow>
               (Inr resp, r\<lparr>svc_world := w, svc_policies := (svc_policies r)(key \<mapsto> resp)\<rparr>)
           | (_, w) \<Rightarrow>
               (Inl (PlainError (''failed to fetch policy for function '' @ fst key @ '' version '' @ snd key)),
                r\<lparr>svc_world := w\<rparr>)))"

text \<open>The service's client is the cached one.\<close>

definition fetchIndexedPolicy ::
    "'w policyClient \<Rightarrow> RateLimitRequest \<Rightarrow> 'w service \<Rightarrow> (svc_error + IndexedPolicy option) \<times> 'w service" where
  "fetchIndexedPolicy client request r =
     (let cacheKey = rq_FunctionId request @ '':'' @ rq_FunctionVersionId request in
      case svc_indexedPolicies r cacheKey of
        Some ip \<Rightarrow> (Inr (Some ip), r)
      | None \<Rightarrow>
          (case cachedRateLimitPolicy client (rq_FunctionId request, rq_FunctionVersionId request) r of
             (Inl (StatusError CodeNotFound m), r1) \<Rightarrow> (Inr None, r1)
           | (Inl e, r1) \<Rightarrow> (Inl e, r1)
           | (Inr None, r1) \<Rightarrow> (Inl (PlainError ''nil rate limit config returned from NVCF''), r1)
           | (Inr (Some config), r1) \<Rightarrow>
               (let ip = buildIndexedPolicy config
                in (Inr (Some ip),
                    r1\<lparr>svc_indexedPolicies := (svc_indexedPolicies r1)(cacheKey \<mapsto> ip)\<rparr>))))"

section \<open>Loaders\<close>

text \<open>The arguments every loader shares.\<close>

record 'w deps =
  newRate :: "string \<Rightarrow> Rate option"
  nvcf :: "'w policyClient"

definition storeLimiter ::
    "CacheKey \<Rightarrow> LimiterEntry \<Rightarrow> 'w service \<Rightarrow> (svc_error + LimiterEntry option) \<times> 'w service" where
  "storeLimiter key entry r = (Inr (Some entry), r\<lparr>svc_Limiters := (svc_Limiters r)(key \<mapsto> entry)\<rparr>)"

definition loadPerNcaIdLimiters ::
    "'w deps \<Rightarrow> CacheKey \<Rightarrow> RateLimitRequest \<Rightarrow> 'w service \<Rightarrow> (svc_error + LimiterEntry option) \<times> 'w service" where
  "loadPerNcaIdLimiters dp cacheKey request r =
     (case fetchIndexedPolicy (nvcf dp) request r of
        (Inl e, r1) \<Rightarrow> (Inl e, r1)
      | (Inr None, r1) \<Rightarrow> (Inr None, r1)
      | (Inr (Some ip), r1) \<Rightarrow>
          (case ip_NcaIdToPerNcaIdConfig ip (ck_NcaId cacheKey) of
             None \<Rightarrow> (Inr None, r1)
           | Some (_, perNcaIdRate) \<Rightarrow>
               if perNcaIdRate = [] then
                 (Inl (PlainError (''empty per-NCA-ID rate config for nca id '' @ ck_NcaId cacheKey)), r1)
               else (case parseRates (newRate dp) perNcaIdRate of
                       Inl e \<Rightarrow> (Inl (RatesError e), r1)
                     | Inr rates \<Rightarrow> storeLimiter cacheKey \<lparr>le_Rates = rates, le_ExcludedNcaIds = []\<rparr> r1)))"

definition loadPerUserLimiters ::
    "'w deps \<Rightarrow> CacheKey \<Rightarrow> RateLimitRequest \<Rightarrow> 'w service \<Rightarrow> (svc_error + LimiterEntry option) \<times> 'w service" where
  "loadPerUserLimiters dp cacheKey request r =
     (case fetchIndexedPolicy (nvcf dp) request r of
        (Inl e, r1) \<Rightarrow> (Inl e, r1)
      | (Inr None, r1) \<Rightarrow> (Inr None, r1)
      | (Inr (Some ip), r1) \<Rightarrow>
          if pc_PerUserRate (ip_Policy ip) = [] then (Inr None, r1)
          else (case parseRates (newRate dp) (pc_PerUserRate (ip_Policy ip)) of
                  Inl e \<Rightarrow> (Inl (RatesError e), r1)
                | Inr rates \<Rightarrow> storeLimiter cacheKey \<lparr>le_Rates = rates, le_ExcludedNcaIds = []\<rparr> r1))"

definition loadGlobalLimiters ::
    "'w deps \<Rightarrow> CacheKey \<Rightarrow> RateLimitRequest \<Rightarrow> 'w service \<Rightarrow> (svc_error + LimiterEntry option) \<times> 'w service" where
  "loadGlobalLimiters dp cacheKey request r =
     (case fetchIndexedPolicy (nvcf dp) request r of
        (Inl e, r1) \<Rightarrow> (Inl e, r1)
      | (Inr None, r1) \<Rightarrow> (Inr None, r1)
      | (Inr (Some ip), r1) \<Rightarrow>
          if pc_Rate (ip_Policy ip) = [] then
            (Inl (PlainError ''empty global rate limit config found when building global rate limiter''), r1)
          else (case parseRates (newRate dp) (pc_Rate (ip_Policy ip)) of
                  Inl e \<Rightarrow> (Inl (RatesError e), r1)
                | Inr rates \<Rightarrow>
                    storeLimiter cacheKey
                      \<lparr>le_Rates = rates, le_ExcludedNcaIds = pc_ExcludedNcaIds (ip_Policy ip)\<rparr> r1))"

text \<open>\<open>Limiters.Get\<close> with a loader: the live entry, or what the loader stores; a load error is only logged.\<close>

definition limitersGet ::
    "(CacheKey \<Rightarrow> RateLimitRequest \<Rightarrow> 'w service \<Rightarrow> (svc_error + LimiterEntry option) \<times> 'w service)
       \<Rightarrow> CacheKey \<Rightarrow> RateLimitRequest \<Rightarrow> 'w service \<Rightarrow> LimiterEntry option \<times> 'w service" where
  "limitersGet load key request r =
     (case svc_Limiters r key of
        Some entry \<Rightarrow> (Some entry, r)
      | None \<Rightarrow> (case load key request r of
                   (Inl _, r1) \<Rightarrow> (None, r1)
                 | (Inr item, r1) \<Rightarrow> (item, r1)))"

section \<open>Tiers\<close>

record tierCheck =
  tc_name :: string
  tc_entry :: LimiterEntry
  tc_olricPrefix :: string

definition rateLimitNcaId :: "RateLimitRequest \<Rightarrow> string" where
  "rateLimitNcaId request = (if rq_OwnerNcaId request \<noteq> [] then rq_OwnerNcaId request else rq_NcaId request)"

definition userPrefix :: "RateLimitRequest \<Rightarrow> string" where
  "userPrefix request = ''user:'' @ rq_ClientAuthSubject request @ '':'' @ rateLimitNcaId request"

definition collectTiers ::
    "'w deps \<Rightarrow> RateLimitRequest \<Rightarrow> 'w service \<Rightarrow> tierCheck list \<times> 'w service" where
  "collectTiers dp request r =
     (let (tiers, r1) =
        (if rq_ClientAuthSubject request \<noteq> [] then
           (case limitersGet (loadPerUserLimiters dp)
                   (NewPerUserCacheKey (rq_ClientAuthSubject request) (rateLimitNcaId request)
                      (rq_FunctionVersionId request)) request r of
              (None, r1) \<Rightarrow> ([], r1)
            | (Some entry, r1) \<Rightarrow>
                ([\<lparr>tc_name = ''user'', tc_entry = entry, tc_olricPrefix = userPrefix request\<rparr>], r1))
         else ([], r))
      in case limitersGet (loadPerNcaIdLimiters dp)
                (NewPerNcaIdCacheKey (rateLimitNcaId request) (rq_FunctionVersionId request)) request r1 of
           (Some entry, r2) \<Rightarrow>
             (tiers @ [\<lparr>tc_name = ''nca'', tc_entry = entry, tc_olricPrefix = rateLimitNcaId request\<rparr>], r2)
         | (None, r2) \<Rightarrow>
             (case limitersGet (loadGlobalLimiters dp) (NewGlobalCacheKey (rq_FunctionVersionId request)) request r2 of
                (Some entry, r3) \<Rightarrow>
                  (tiers @ [\<lparr>tc_name = ''global'', tc_entry = entry, tc_olricPrefix = rateLimitNcaId request\<rparr>], r3)
              | (None, r3) \<Rightarrow> (tiers, r3)))"

definition counterKey :: "string \<Rightarrow> string \<Rightarrow> RateLimiterEntry \<Rightarrow> string" where
  "counterKey prefix functionVersionId e = prefix @ '':'' @ functionVersionId @ '':'' @ re_Rate e"

text \<open>The rates of one tier: every counter is counted, and whether one is reached is the result.\<close>

fun tierRates ::
    "contextFromState \<Rightarrow> 'w Store \<Rightarrow> string \<Rightarrow> string \<Rightarrow> RateLimiterEntry list \<Rightarrow> 'w
       \<Rightarrow> (svc_error + bool) \<times> 'w" where
  "tierRates gcs store prefix fv [] w = (Inr False, w)"
| "tierRates gcs store prefix fv (e # es) w =
     (case storeGet gcs store (counterKey prefix fv e) (re_Limiter e) w of
        (Inl err, w1) \<Rightarrow> (Inl (StoreError err), w1)
      | (Inr c, w1) \<Rightarrow>
          (case tierRates gcs store prefix fv es w1 of
             (Inl err, w2) \<Rightarrow> (Inl err, w2)
           | (Inr reached, w2) \<Rightarrow> (Inr (ctx_Reached c \<or> reached), w2)))"

fun rateLimitTiers ::
    "contextFromState \<Rightarrow> 'w Store \<Rightarrow> RateLimitRequest \<Rightarrow> tierCheck list \<Rightarrow> 'w \<Rightarrow> (svc_error + bool) \<times> 'w" where
  "rateLimitTiers gcs store request [] w = (Inr True, w)"
| "rateLimitTiers gcs store request (t # ts) w =
     (if rateLimitNcaId request \<in> set (le_ExcludedNcaIds (tc_entry t)) then rateLimitTiers gcs store request ts w
      else (case tierRates gcs store (tc_olricPrefix t) (rq_FunctionVersionId request) (le_Rates (tc_entry t)) w of
              (Inl e, w1) \<Rightarrow> (Inl e, w1)
            | (Inr reached, w1) \<Rightarrow>
                if reached then (Inr False, w1) else rateLimitTiers gcs store request ts w1))"

datatype RateLimitResultCode = ALLOW | DISALLOW

definition RateLimitCall ::
    "'w deps \<Rightarrow> contextFromState \<Rightarrow> 'w Store \<Rightarrow> RateLimitRequest \<Rightarrow> 'w service
       \<Rightarrow> (svc_error + RateLimitResultCode) \<times> 'w service" where
  "RateLimitCall dp gcs store request r =
     (if rq_NcaId request = [] \<or> rq_FunctionId request = [] \<or> rq_FunctionVersionId request = []
      then (Inl InvalidRequest, r)
      else (case collectTiers dp request r of
              (tiers, r1) \<Rightarrow>
                if tiers = [] then (Inr ALLOW, r1)
                else (case rateLimitTiers gcs store request tiers (svc_world r1) of
                        (Inl e, w) \<Rightarrow> (Inl e, r1\<lparr>svc_world := w\<rparr>)
                      | (Inr allowed, w) \<Rightarrow>
                          (Inr (if allowed then ALLOW else DISALLOW), r1\<lparr>svc_world := w\<rparr>))))"

fun resetRates ::
    "contextFromState \<Rightarrow> 'w Store \<Rightarrow> string \<Rightarrow> string \<Rightarrow> RateLimiterEntry list \<Rightarrow> 'w \<Rightarrow> (svc_error + unit) \<times> 'w" where
  "resetRates gcs store prefix fv [] w = (Inr (), w)"
| "resetRates gcs store prefix fv (e # es) w =
     (case storeReset gcs store (counterKey prefix fv e) (re_Limiter e) w of
        (Inl err, w1) \<Rightarrow> (Inl (StoreError err), w1)
      | (Inr _, w1) \<Rightarrow> resetRates gcs store prefix fv es w1)"

definition ResetLimiter ::
    "contextFromState \<Rightarrow> 'w Store \<Rightarrow> CacheKey \<Rightarrow> string \<Rightarrow> string \<Rightarrow> 'w service \<Rightarrow> (svc_error + unit) \<times> 'w service" where
  "ResetLimiter gcs store key ncaId fv r =
     (case svc_Limiters r key of
        None \<Rightarrow> (Inl NoLimiter, r)
      | Some entry \<Rightarrow>
          (let prefix = (if ck_ClientAuthSubject key \<noteq> [] then ''user:'' @ ck_ClientAuthSubject key @ '':'' @ ncaId
                         else ncaId)
           in case resetRates gcs store prefix fv (le_Rates entry) (svc_world r) of
                (out, w) \<Rightarrow> (out, r\<lparr>svc_world := w\<rparr>)))"

definition ClearAllCaches :: "'w service \<Rightarrow> 'w service" where
  "ClearAllCaches r =
     r\<lparr>svc_Limiters := Map.empty, svc_indexedPolicies := Map.empty, svc_policies := Map.empty\<rparr>"

section \<open>Lemmas on rates\<close>

lemma rateCandidates_distinct:
  "distinct (map re_Rate (rateCandidates nr parts seen)) \<and> (\<forall>e \<in> set (rateCandidates nr parts seen). re_Rate e \<notin> seen)"
proof (induction parts arbitrary: seen)
  case Nil
  then show ?case by simp
next
  case (Cons raw parts)
  from Cons [of seen] Cons [of "insert (TrimSpace raw) seen"] show ?case
    by (auto simp: Let_def image_iff split: option.splits)
qed

lemma rateCandidates_sound:
  "e \<in> set (rateCandidates nr parts seen) \<Longrightarrow>
     (\<exists>raw \<in> set parts. re_Rate e = TrimSpace raw) \<and> nr (re_Rate e) = Some (re_Limiter e)"
  by (induction parts arbitrary: seen) (auto simp: Let_def split: if_splits option.splits)

lemma rateCandidates_complete:
  assumes "raw \<in> set parts" and "TrimSpace raw \<noteq> []" and "TrimSpace raw \<notin> seen" and "nr (TrimSpace raw) = Some rate"
  shows "\<lparr>re_Limiter = rate, re_Rate = TrimSpace raw\<rparr> \<in> set (rateCandidates nr parts seen)"
  using assms
proof (induction parts arbitrary: seen)
  case Nil
  then show ?case by simp
next
  case (Cons p parts)
  then show ?case by (cases "TrimSpace p = TrimSpace raw") (auto simp: Let_def split: option.splits)
qed

text \<open>The winners of the candidates seen so far.\<close>

definition winners_ok :: "RateLimiterEntry list \<Rightarrow> (i64 \<Rightarrow> (nat \<times> i64) option) \<Rightarrow> bool" where
  "winners_ok cs m \<longleftrightarrow>
     (\<forall>p. case m p of
        None \<Rightarrow> \<forall>c \<in> set cs. rate_Period (re_Limiter c) \<noteq> p
      | Some (j, l) \<Rightarrow> j < length cs \<and> rate_Period (re_Limiter (cs ! j)) = p \<and> rate_Limit (re_Limiter (cs ! j)) = l \<and>
          (\<forall>c \<in> set cs. rate_Period (re_Limiter c) = p \<longrightarrow> l \<le> rate_Limit (re_Limiter c)))"

lemma winners_ok_step:
  assumes "winners_ok pre m"
  shows "winners_ok (pre @ [c])
     (case m (rate_Period (re_Limiter c)) of
        Some (j, l) \<Rightarrow> if rate_Limit (re_Limiter c) < l
          then m(rate_Period (re_Limiter c) \<mapsto> (length pre, rate_Limit (re_Limiter c))) else m
      | None \<Rightarrow> m(rate_Period (re_Limiter c) \<mapsto> (length pre, rate_Limit (re_Limiter c))))"
    (is "winners_ok _ ?m")
  unfolding winners_ok_def
proof
  fix p
  have old: "case m p of
        None \<Rightarrow> \<forall>c \<in> set pre. rate_Period (re_Limiter c) \<noteq> p
      | Some (j, l) \<Rightarrow> j < length pre \<and> rate_Period (re_Limiter (pre ! j)) = p \<and> rate_Limit (re_Limiter (pre ! j)) = l \<and>
          (\<forall>c \<in> set pre. rate_Period (re_Limiter c) = p \<longrightarrow> l \<le> rate_Limit (re_Limiter c))"
    using assms by (simp add: winners_ok_def)
  show "case ?m p of
        None \<Rightarrow> \<forall>c' \<in> set (pre @ [c]). rate_Period (re_Limiter c') \<noteq> p
      | Some (j, l) \<Rightarrow> j < length (pre @ [c]) \<and> rate_Period (re_Limiter ((pre @ [c]) ! j)) = p \<and>
          rate_Limit (re_Limiter ((pre @ [c]) ! j)) = l \<and>
          (\<forall>c' \<in> set (pre @ [c]). rate_Period (re_Limiter c') = p \<longrightarrow> l \<le> rate_Limit (re_Limiter c'))"
  proof (cases "rate_Period (re_Limiter c) = p")
    case True
    with old show ?thesis
      by (cases "m p") (fastforce simp: nth_append split: if_splits)+
  next
    case False
    then have "?m p = m p" by (auto split: option.splits)
    with old False show ?thesis by (cases "m p") (auto simp: nth_append)
  qed
qed

lemma periodWinners_ok:
  "winners_ok pre m \<Longrightarrow> winners_ok (pre @ cs) (periodWinners (length pre) cs m)"
proof (induction cs arbitrary: pre m)
  case Nil
  then show ?case by simp
next
  case (Cons c cs)
  from Cons.IH [OF winners_ok_step [OF Cons.prems]] show ?case by simp
qed

text \<open>What \<open>parseRates\<close> keeps of its candidates.\<close>

lemma parseRates_kept:
  assumes "parseRates nr str = Inr es"
  defines "cands \<equiv> rateCandidates nr (Split str CHR '','') {}"
  shows "set es \<subseteq> set cands" and "distinct (map (\<lambda>e. rate_Period (re_Limiter e)) es)"
    and "\<And>c. c \<in> set cands \<Longrightarrow> \<exists>e \<in> set es. rate_Period (re_Limiter e) = rate_Period (re_Limiter c) \<and>
       rate_Limit (re_Limiter e) \<le> rate_Limit (re_Limiter c)"
proof -
  define m where "m = periodWinners 0 cands Map.empty"
  let ?P = "\<lambda>c. rate_Period (re_Limiter c)"
  have W: "winners_ok cands m" using periodWinners_ok [of "[]" Map.empty cands] by (simp add: winners_ok_def m_def)
  have es: "es = filter (\<lambda>c. case m (?P c) of None \<Rightarrow> False | Some (j, _) \<Rightarrow> re_Rate (cands ! j) = re_Rate c) cands"
    using assms(1) [unfolded parseRates_def Let_def, folded cands_def, folded m_def] by (simp split: if_splits)
  have dist: "distinct (map re_Rate cands)" using rateCandidates_distinct by (auto simp: cands_def)
  have same: "c = c'" if "c \<in> set cands" "c' \<in> set cands" "re_Rate c = re_Rate c'" for c c'
    using dist that by (auto simp: distinct_map dest: inj_onD)
  show "set es \<subseteq> set cands" by (auto simp: es)
  have win: "\<exists>j l. m (?P c) = Some (j, l) \<and> j < length cands \<and> ?P (cands ! j) = ?P c \<and>
      rate_Limit (re_Limiter (cands ! j)) \<le> rate_Limit (re_Limiter c)" if "c \<in> set cands" for c
  proof -
    from W have "case m (?P c) of
        None \<Rightarrow> \<forall>c' \<in> set cands. ?P c' \<noteq> ?P c
      | Some (j, l) \<Rightarrow> j < length cands \<and> ?P (cands ! j) = ?P c \<and> rate_Limit (re_Limiter (cands ! j)) = l \<and>
          (\<forall>c' \<in> set cands. ?P c' = ?P c \<longrightarrow> l \<le> rate_Limit (re_Limiter c'))" by (simp add: winners_ok_def)
    with that show ?thesis by (auto split: option.splits)
  qed
  show "\<exists>e \<in> set es. ?P e = ?P c \<and> rate_Limit (re_Limiter e) \<le> rate_Limit (re_Limiter c)" if c: "c \<in> set cands" for c
  proof -
    from win [OF c] obtain j l where j: "m (?P c) = Some (j, l)" "j < length cands" "?P (cands ! j) = ?P c"
      "rate_Limit (re_Limiter (cands ! j)) \<le> rate_Limit (re_Limiter c)" by blast
    then have "cands ! j \<in> set es" by (simp add: es)
    with j show ?thesis by blast
  qed
  have "c = c'" if "c \<in> set es" "c' \<in> set es" "?P c = ?P c'" for c c'
  proof -
    from that obtain j l where "m (?P c) = Some (j, l)" "re_Rate (cands ! j) = re_Rate c" "re_Rate (cands ! j) = re_Rate c'"
      by (auto simp: es split: option.splits)
    moreover have "c \<in> set cands" "c' \<in> set cands" using that by (auto simp: es)
    ultimately show ?thesis using same by metis
  qed
  moreover have "distinct es" using dist by (auto simp: es distinct_map)
  ultimately show "distinct (map ?P es)" by (auto simp: distinct_map inj_on_def)
qed

section \<open>Lemmas on tiers\<close>

text \<open>The counters of a tier, whether one of its rates is used up, and the tiers a request counts.\<close>

definition tierKeys :: "string \<Rightarrow> tierCheck \<Rightarrow> string list" where
  "tierKeys fv t = map (counterKey (tc_olricPrefix t) fv) (le_Rates (tc_entry t))"

definition tierDenies :: "string \<Rightarrow> memCounters \<Rightarrow> tierCheck \<Rightarrow> bool" where
  "tierDenies fv w t \<longleftrightarrow>
     (\<exists>e \<in> set (le_Rates (tc_entry t)). rate_Limit (re_Limiter e) < countOf w (counterKey (tc_olricPrefix t) fv e) + 1)"

fun upToDenied :: "('a \<Rightarrow> bool) \<Rightarrow> 'a list \<Rightarrow> 'a list" where
  "upToDenied P [] = []"
| "upToDenied P (t # ts) = t # (if P t then [] else upToDenied P ts)"

definition activeTiers :: "RateLimitRequest \<Rightarrow> tierCheck list \<Rightarrow> tierCheck list" where
  "activeTiers request ts = filter (\<lambda>t. rateLimitNcaId request \<notin> set (le_ExcludedNcaIds (tc_entry t))) ts"

lemma tierRates_counts:
  assumes "counters_ok w" and "\<forall>e \<in> set es. rate_ok (re_Limiter e)"
    and "distinct (map (counterKey prefix fv) es)"
    and "\<And>rate t x c. ctx_Reached (gcs t rate x c) \<longleftrightarrow> rate_Limit rate < c"
  shows "\<exists>w'. tierRates gcs memStore prefix fv es w =
       (Inr (\<exists>e \<in> set es. rate_Limit (re_Limiter e) < countOf w (counterKey prefix fv e) + 1), w') \<and> counters_ok w' \<and>
     countOf w' = (\<lambda>k. countOf w k + (if k \<in> set (map (counterKey prefix fv) es) then 1 else 0))"
  using assms(1-3)
proof (induction es arbitrary: w)
  case Nil
  then show ?case by simp
next
  case (Cons e es)
  let ?k = "counterKey prefix fv e"
  obtain c w1 where one: "storeGet gcs memStore ?k (re_Limiter e) w = (Inr c, w1)"
    "ctx_Reached c \<longleftrightarrow> rate_Limit (re_Limiter e) < countOf w ?k + 1" "counters_ok w1"
    "countOf w1 = (countOf w)(?k := countOf w ?k + 1)"
    using get_counts [OF Cons.prems(1), of "re_Limiter e" gcs ?k] Cons.prems(2) assms(4) by auto
  obtain w2 where two: "tierRates gcs memStore prefix fv es w1 =
       (Inr (\<exists>e \<in> set es. rate_Limit (re_Limiter e) < countOf w1 (counterKey prefix fv e) + 1), w2)" "counters_ok w2"
     "countOf w2 = (\<lambda>k. countOf w1 k + (if k \<in> set (map (counterKey prefix fv) es) then 1 else 0))"
    using Cons.IH [OF one(3)] Cons.prems(2,3) by auto
  have new: "?k \<notin> set (map (counterKey prefix fv) es)" using Cons.prems(3) by simp
  then have same: "countOf w1 (counterKey prefix fv e') = countOf w (counterKey prefix fv e')" if "e' \<in> set es" for e'
    using that one(4) by (auto simp: image_iff)
  have "(\<exists>e' \<in> set es. rate_Limit (re_Limiter e') < countOf w1 (counterKey prefix fv e') + 1)
      = (\<exists>e' \<in> set es. rate_Limit (re_Limiter e') < countOf w (counterKey prefix fv e') + 1)"
    using same by auto
  with one two new show ?case by (auto simp: fun_eq_iff)
qed

lemma rateLimitTiers_counts:
  assumes "counters_ok w" and "\<forall>t \<in> set ts. \<forall>e \<in> set (le_Rates (tc_entry t)). rate_ok (re_Limiter e)"
    and "distinct (concat (map (tierKeys (rq_FunctionVersionId request)) (activeTiers request ts)))"
    and "\<And>rate t x c. ctx_Reached (gcs t rate x c) \<longleftrightarrow> rate_Limit rate < c"
  shows "\<exists>w'. rateLimitTiers gcs memStore request ts w =
       (Inr (\<forall>t \<in> set (activeTiers request ts). \<not> tierDenies (rq_FunctionVersionId request) w t), w') \<and>
     countOf w' = (\<lambda>k. countOf w k + (if k \<in> set (concat (map (tierKeys (rq_FunctionVersionId request))
         (upToDenied (tierDenies (rq_FunctionVersionId request) w) (activeTiers request ts)))) then 1 else 0))"
  using assms(1-3)
proof (induction ts arbitrary: w)
  case Nil
  then show ?case by (simp add: activeTiers_def)
next
  case (Cons t ts)
  let ?fv = "rq_FunctionVersionId request"
  show ?case
  proof (cases "rateLimitNcaId request \<in> set (le_ExcludedNcaIds (tc_entry t))")
    case True
    then have "activeTiers request (t # ts) = activeTiers request ts" by (simp add: activeTiers_def)
    with Cons.IH [OF Cons.prems(1)] Cons.prems(2,3) True show ?thesis by simp
  next
    case False
    then have act: "activeTiers request (t # ts) = t # activeTiers request ts" by (simp add: activeTiers_def)
    have d: "distinct (tierKeys ?fv t)" "distinct (concat (map (tierKeys ?fv) (activeTiers request ts)))"
      "set (tierKeys ?fv t) \<inter> set (concat (map (tierKeys ?fv) (activeTiers request ts))) = {}"
      using Cons.prems(3) act by simp_all
    obtain w1 where one: "tierRates gcs memStore (tc_olricPrefix t) ?fv (le_Rates (tc_entry t)) w
        = (Inr (tierDenies ?fv w t), w1)" "counters_ok w1"
      "countOf w1 = (\<lambda>k. countOf w k + (if k \<in> set (tierKeys ?fv t) then 1 else 0))"
      using tierRates_counts [OF Cons.prems(1), of "le_Rates (tc_entry t)" "tc_olricPrefix t" ?fv gcs]
        Cons.prems(2) d(1) assms(4) by (auto simp: tierDenies_def tierKeys_def)
    show ?thesis
    proof (cases "tierDenies ?fv w t")
      case True
      with one False act show ?thesis by simp
    next
      case allow: False
      have same: "tierDenies ?fv w1 t' = tierDenies ?fv w t'" if "t' \<in> set (activeTiers request ts)" for t'
      proof -
        have "countOf w1 (counterKey (tc_olricPrefix t') ?fv e) = countOf w (counterKey (tc_olricPrefix t') ?fv e)"
          if "e \<in> set (le_Rates (tc_entry t'))" for e
        proof -
          have "counterKey (tc_olricPrefix t') ?fv e \<in> set (tierKeys ?fv t')" using that by (simp add: tierKeys_def)
          moreover have "set (tierKeys ?fv t') \<subseteq> set (concat (map (tierKeys ?fv) (activeTiers request ts)))"
            using \<open>t' \<in> _\<close> by auto
          ultimately have "counterKey (tc_olricPrefix t') ?fv e \<notin> set (tierKeys ?fv t)" using d(3) by blast
          then show ?thesis by (simp add: one(3))
        qed
        then show ?thesis by (auto simp: tierDenies_def)
      qed
      have up: "upToDenied (tierDenies ?fv w1) xs = upToDenied (tierDenies ?fv w) xs"
        if "\<forall>x \<in> set xs. tierDenies ?fv w1 x = tierDenies ?fv w x" for xs
        using that by (induction xs) auto
      have sub: "set (upToDenied P xs) \<subseteq> set xs" for P and xs :: "tierCheck list" by (induction xs) auto
      have "\<exists>w'. rateLimitTiers gcs memStore request ts w1 =
         (Inr (\<forall>t \<in> set (activeTiers request ts). \<not> tierDenies ?fv w1 t), w') \<and>
         countOf w' = (\<lambda>k. countOf w1 k + (if k \<in> set (concat (map (tierKeys ?fv)
           (upToDenied (tierDenies ?fv w1) (activeTiers request ts)))) then 1 else 0))"
        by (rule Cons.IH [OF one(2)]) (use Cons.prems(2) d(2) in auto)
      then obtain w2 where two: "rateLimitTiers gcs memStore request ts w1 =
         (Inr (\<forall>t \<in> set (activeTiers request ts). \<not> tierDenies ?fv w1 t), w2)"
         "countOf w2 = (\<lambda>k. countOf w1 k + (if k \<in> set (concat (map (tierKeys ?fv)
           (upToDenied (tierDenies ?fv w1) (activeTiers request ts)))) then 1 else 0))" by blast
      have upeq: "upToDenied (tierDenies ?fv w1) (activeTiers request ts)
          = upToDenied (tierDenies ?fv w) (activeTiers request ts)" using up same by blast
      define B where "B = set (concat (map (tierKeys ?fv) (upToDenied (tierDenies ?fv w) (activeTiers request ts))))"
      have "B \<subseteq> set (concat (map (tierKeys ?fv) (activeTiers request ts)))"
        using sub [of "tierDenies ?fv w" "activeTiers request ts"] unfolding B_def set_concat set_map by blast
      then have disj: "set (tierKeys ?fv t) \<inter> B = {}" using d(3) by blast
      have all: "set (concat (map (tierKeys ?fv) (upToDenied (tierDenies ?fv w) (activeTiers request (t # ts)))))
          = set (tierKeys ?fv t) \<union> B" using allow by (simp add: act B_def)
      have "countOf w2 k = countOf w k + (if k \<in> set (tierKeys ?fv t) \<union> B then 1 else 0)" for k
        unfolding two(2) one(3) upeq B_def [symmetric] using disj
        by (cases "k \<in> B"; cases "k \<in> set (tierKeys ?fv t)") auto
      then have "countOf w2 = (\<lambda>k. countOf w k + (if k \<in> set (concat (map (tierKeys ?fv)
          (upToDenied (tierDenies ?fv w) (activeTiers request (t # ts))))) then 1 else 0))"
        unfolding all by blast
      with two(1) one(1) False allow act same show ?thesis by auto
    qed
  qed
qed

section \<open>Properties\<close>

text \<open>
  A request passes when every tier lets it: over the in-memory store, for tiers with different
  counters, \<open>rateLimit\<close> allows exactly when no rate of a tier that does not exclude the account is
  used up. Every rate of the tiers up to and including the first that denies is counted once, and
  no other counter moves, so a denied request does not burn the tiers below.
\<close>

theorem tiers_all_allow:
  assumes "counters_ok w" and "\<forall>t \<in> set ts. \<forall>e \<in> set (le_Rates (tc_entry t)). rate_ok (re_Limiter e)"
    and "distinct (concat (map (tierKeys (rq_FunctionVersionId request)) (activeTiers request ts)))"
    and "\<And>rate t x c. ctx_Reached (gcs t rate x c) \<longleftrightarrow> rate_Limit rate < c"
  shows "\<exists>w'. rateLimitTiers gcs memStore request ts w =
       (Inr (\<forall>t \<in> set (activeTiers request ts). \<not> tierDenies (rq_FunctionVersionId request) w t), w') \<and>
     countOf w' = (\<lambda>k. countOf w k + (if k \<in> set (concat (map (tierKeys (rq_FunctionVersionId request))
         (upToDenied (tierDenies (rq_FunctionVersionId request) w) (activeTiers request ts)))) then 1 else 0))"
  using assms by (rule rateLimitTiers_counts)

text \<open>A user whose only call of the second is used up: the account's counter does not move.\<close>

text \<open>
  The rates of a policy are its strictest ones: every kept rate is one of the well-formed
  entries of the text, no two kept rates have the same period, and every well-formed entry is
  bounded by a kept rate of its period with a limit that is not higher.
\<close>

theorem parseRates_strictest:
  assumes "parseRates nr str = Inr es"
  shows "distinct (map (\<lambda>e. rate_Period (re_Limiter e)) es) \<and>
    (\<forall>e \<in> set es. nr (re_Rate e) = Some (re_Limiter e) \<and> (\<exists>raw \<in> set (Split str CHR '',''). re_Rate e = TrimSpace raw)) \<and>
    (\<forall>raw \<in> set (Split str CHR '',''). \<forall>rate. TrimSpace raw \<noteq> [] \<and> nr (TrimSpace raw) = Some rate \<longrightarrow>
       (\<exists>e \<in> set es. rate_Period (re_Limiter e) = rate_Period rate \<and> rate_Limit (re_Limiter e) \<le> rate_Limit rate))"
proof (intro conjI ballI allI impI)
  show "distinct (map (\<lambda>e. rate_Period (re_Limiter e)) es)" by (rule parseRates_kept(2) [OF assms])
next
  fix e
  assume "e \<in> set es"
  with parseRates_kept(1) [OF assms] have "e \<in> set (rateCandidates nr (Split str CHR '','') {})" by blast
  from rateCandidates_sound [OF this] show "nr (re_Rate e) = Some (re_Limiter e)"
    and "\<exists>raw \<in> set (Split str CHR '',''). re_Rate e = TrimSpace raw" by auto
next
  fix raw rate
  assume "raw \<in> set (Split str CHR '','')" and "TrimSpace raw \<noteq> [] \<and> nr (TrimSpace raw) = Some rate"
  then have "\<lparr>re_Limiter = rate, re_Rate = TrimSpace raw\<rparr> \<in> set (rateCandidates nr (Split str CHR '','') {})"
    by (intro rateCandidates_complete) auto
  from parseRates_kept(3) [OF assms this] show "\<exists>e \<in> set es. rate_Period (re_Limiter e) = rate_Period rate \<and>
      rate_Limit (re_Limiter e) \<le> rate_Limit rate" by simp
qed

text \<open>Two rates per second and one per hour, with a library that reads a digit and a unit.\<close>

definition exampleRate :: "string \<Rightarrow> Rate option" where
  "exampleRate s =
     (if s = ''5-S'' then Some \<lparr>rate_Formatted = s, rate_Period = 1000000000, rate_Limit = 5\<rparr>
      else if s = ''4-S'' then Some \<lparr>rate_Formatted = s, rate_Period = 1000000000, rate_Limit = 4\<rparr>
      else if s = ''9-H'' then Some \<lparr>rate_Formatted = s, rate_Period = 3600000000000, rate_Limit = 9\<rparr>
      else None)"

text \<open>
  The service never sees "not found". \<open>fetchIndexedPolicy\<close> documents that a missing policy is nil
  without an error; but the client it calls drops the API's status, so whatever the API answers, a
  missing policy is reported as an error.
\<close>

theorem missing_policy_is_error:
  "fst (fetchIndexedPolicy client request r) \<noteq> Inr None"
  by (simp add: fetchIndexedPolicy_def cachedRateLimitPolicy_def Let_def
      split: option.split prod.split sum.split)

text \<open>
  A failure to load limits lets requests pass: with nothing cached, when the API call fails no
  tier is built, and a valid request is allowed.
\<close>

lemma unavailable_policy_allows:
  assumes "rq_NcaId request \<noteq> []" "rq_FunctionId request \<noteq> []" "rq_FunctionVersionId request \<noteq> []"
    and "\<And>w. \<exists>e. nvcf dp (rq_FunctionId request, rq_FunctionVersionId request) w = (Inl e, w)"
    and "svc_Limiters r = Map.empty" "svc_indexedPolicies r = Map.empty" "svc_policies r = Map.empty"
  shows "RateLimitCall dp gcs store request r = (Inr ALLOW, r)"
proof -
  obtain e where e: "nvcf dp (rq_FunctionId request, rq_FunctionVersionId request) (svc_world r) = (Inl e, svc_world r)"
    using assms(4) by blast
  have "\<exists>m. fetchIndexedPolicy (nvcf dp) request r = (Inl (PlainError m), r)"
    using assms(6,7) e by (simp add: fetchIndexedPolicy_def cachedRateLimitPolicy_def Let_def)
  then have none: "limitersGet (loadPerUserLimiters dp) k request r = (None, r)"
    "limitersGet (loadPerNcaIdLimiters dp) k request r = (None, r)"
    "limitersGet (loadGlobalLimiters dp) k request r = (None, r)" for k
    using assms(5)
    by (auto simp: limitersGet_def loadPerUserLimiters_def loadPerNcaIdLimiters_def loadGlobalLimiters_def)
  have "collectTiers dp request r = ([], r)" by (simp add: collectTiers_def none)
  with assms(1-3) show ?thesis by (simp add: RateLimitCall_def)
qed

end
