(* ===== verification/PayloadPrefix.thy ===== *)
theory PayloadPrefix
  imports GoString
begin

text \<open>
  Session values of requests without a session id (\<open>lastcluster/prefix.go\<close>) and store keys
  (\<open>lastcluster/store.go\<close>): digests of length-framed streams. A stream is the list of the bytes
  written to the hash; the hex SHA-256 of a stream and the canonical re-encoding of a JSON value
  are arguments, since the theorems hold for every choice of them.
\<close>

section \<open>Framing\<close>

text \<open>\<open>binary.BigEndian.PutUint64\<close> of a length.\<close>

fun be_bytes :: "nat \<Rightarrow> nat \<Rightarrow> string" where
  "be_bytes 0 n = []"
| "be_bytes (Suc k) n = be_bytes k (n div 256) @ [char_of (n mod 256)]"

definition be64 :: "nat \<Rightarrow> string" where
  "be64 n = be_bytes 8 n"

definition writeFrame :: "string \<Rightarrow> string" where
  "writeFrame part = be64 (length part) @ part"

section \<open>Payload session values\<close>

definition EndpointChatCompletions :: string where "EndpointChatCompletions = ''chat_completions''"
definition EndpointResponses :: string where "EndpointResponses = ''responses''"
definition EndpointMessages :: string where "EndpointMessages = ''messages''"
definition payloadValuePrefix :: string where "payloadValuePrefix = ''pc:v1:''"
definition payloadHashVersion :: string where "payloadHashVersion = ''nvcf-lc-payload-v1''"

definition leadingSlots :: "string \<Rightarrow> nat option" where
  "leadingSlots = [EndpointChatCompletions \<mapsto> 0, EndpointMessages \<mapsto> 1, EndpointResponses \<mapsto> 2]"

record PayloadInput =
  in_Endpoint :: string
  in_OrgID :: string
  in_ProjectID :: string
  in_Leading :: "string option list"
  in_Items :: "string list"
  in_Output :: "bool list"

datatype payload_error =
    UnknownEndpoint string
  | LeadingCount string nat nat
  | OutputLength nat nat
  | LeadingInvalid nat
  | ItemInvalid nat

text \<open>The index of the first item of the last run of model output; \<open>None\<close> is \<open>-1\<close>.\<close>

fun runStart :: "bool list \<Rightarrow> nat \<Rightarrow> nat" where
  "runStart output 0 = 0"
| "runStart output (Suc i) = (if output ! i then runStart output i else Suc i)"

fun lastOutput :: "bool list \<Rightarrow> nat \<Rightarrow> nat option" where
  "lastOutput output 0 = None"
| "lastOutput output (Suc i) = (if output ! i then Some i else lastOutput output i)"

definition lastOutputRunStart :: "bool list \<Rightarrow> nat option" where
  "lastOutputRunStart output =
     (case lastOutput output (length output) of None \<Rightarrow> None | Some i \<Rightarrow> Some (runStart output i))"

fun leadingStream :: "(string \<Rightarrow> string option) \<Rightarrow> nat \<Rightarrow> string option list \<Rightarrow> payload_error + string" where
  "leadingStream canonicalJSON i [] = Inr []"
| "leadingStream canonicalJSON i (None # parts) =
     (case leadingStream canonicalJSON (Suc i) parts of Inl e \<Rightarrow> Inl e | Inr s \<Rightarrow> Inr (char_of (0::nat) # s))"
| "leadingStream canonicalJSON i (Some part # parts) =
     (case canonicalJSON part of
        None \<Rightarrow> Inl (LeadingInvalid i)
      | Some canonical \<Rightarrow>
          (case leadingStream canonicalJSON (Suc i) parts of
             Inl e \<Rightarrow> Inl e
           | Inr s \<Rightarrow> Inr (char_of (1::nat) # writeFrame canonical @ s)))"

text \<open>The loop over the items: the stream so far and the digest taken at the cut.\<close>

fun itemsLoop ::
    "(string \<Rightarrow> string) \<Rightarrow> (string \<Rightarrow> string option) \<Rightarrow> nat option \<Rightarrow> nat \<Rightarrow> string list \<Rightarrow> string \<Rightarrow> string
       \<Rightarrow> payload_error + string \<times> string" where
  "itemsLoop digest canonicalJSON cutAt i [] h lookup = Inr (lookup, h)"
| "itemsLoop digest canonicalJSON cutAt i (item # items) h lookup =
     (let lookup = (if cutAt = Some i \<and> i > 0 then payloadValuePrefix @ digest h else lookup)
      in case canonicalJSON item of
           None \<Rightarrow> Inl (ItemInvalid i)
         | Some canonical \<Rightarrow>
             itemsLoop digest canonicalJSON cutAt (Suc i) items (h @ writeFrame canonical) lookup)"

definition headStream :: "PayloadInput \<Rightarrow> string" where
  "headStream inp =
     concat (map writeFrame [payloadHashVersion, in_Endpoint inp, in_OrgID inp, in_ProjectID inp])"

definition PayloadSessionValues ::
    "(string \<Rightarrow> string) \<Rightarrow> (string \<Rightarrow> string option) \<Rightarrow> PayloadInput \<Rightarrow> payload_error + string \<times> string" where
  "PayloadSessionValues digest canonicalJSON inp =
     (case leadingSlots (in_Endpoint inp) of
        None \<Rightarrow> Inl (UnknownEndpoint (in_Endpoint inp))
      | Some slots \<Rightarrow>
          if length (in_Leading inp) \<noteq> slots then
            Inl (LeadingCount (in_Endpoint inp) slots (length (in_Leading inp)))
          else if length (in_Output inp) \<noteq> length (in_Items inp) then
            Inl (OutputLength (length (in_Output inp)) (length (in_Items inp)))
          else
            (case leadingStream canonicalJSON 0 (in_Leading inp) of
               Inl e \<Rightarrow> Inl e
             | Inr lead \<Rightarrow>
                 (case itemsLoop digest canonicalJSON (lastOutputRunStart (in_Output inp)) 0 (in_Items inp)
                         (headStream inp @ lead) [] of
                    Inl e \<Rightarrow> Inl e
                  | Inr (lookup, h) \<Rightarrow> Inr (lookup, payloadValuePrefix @ digest h))))"

section \<open>Store keys\<close>

definition MaxValueBytes :: nat where "MaxValueBytes = 256"
definition keyPrefix :: string where "keyPrefix = ''lc:v1:''"

definition sessionKey :: "(string \<Rightarrow> string) \<Rightarrow> string \<Rightarrow> string \<Rightarrow> string \<Rightarrow> string" where
  "sessionKey digest routingKey model cacheAffinityKey =
     keyPrefix @ digest (concat (map writeFrame [routingKey, model, cacheAffinityKey]))"

definition validClusterID :: "string \<Rightarrow> bool" where
  "validClusterID value \<longleftrightarrow>
     value \<noteq> [] \<and> length value \<le> MaxValueBytes \<and>
     list_all (\<lambda>c. 0x20 \<le> (of_char c :: nat) \<and> (of_char c :: nat) \<le> 0x7e) value"

section \<open>Framed streams are unambiguous\<close>

lemma length_be_bytes [simp]: "length (be_bytes k n) = k"
  by (induction k arbitrary: n) simp_all

lemma be_bytes_inj: "n < 256 ^ k \<Longrightarrow> m < 256 ^ k \<Longrightarrow> be_bytes k n = be_bytes k m \<Longrightarrow> n = m"
proof (induction k arbitrary: n m)
  case 0
  then show ?case by simp
next
  case (Suc k)
  have "n div 256 = m div 256"
  proof (rule Suc.IH)
    show "n div 256 < 256 ^ k" "m div 256 < 256 ^ k" using Suc.prems(1,2) by (simp_all add: less_mult_imp_div_less)
    show "be_bytes k (n div 256) = be_bytes k (m div 256)" using Suc.prems(3) by simp
  qed
  moreover have "n mod 256 = m mod 256"
  proof -
    have "char_of (n mod 256) = (char_of (m mod 256) :: char)" using Suc.prems(3) by simp
    then have "of_char (char_of (n mod 256) :: char) = (of_char (char_of (m mod 256) :: char) :: nat)" by simp
    then show ?thesis by simp
  qed
  ultimately show ?case by (metis div_mult_mod_eq)
qed

lemma writeFrame_inj:
  assumes "length a < 2 ^ 64" "length b < 2 ^ 64" and "writeFrame a @ x = writeFrame b @ y"
  shows "a = b \<and> x = y"
proof -
  have split: "be64 (length a) = be64 (length b) \<and> a @ x = b @ y"
    using assms(3) unfolding writeFrame_def by (simp add: be64_def append_eq_append_conv)
  then have "length a = length b"
    using assms(1,2) be_bytes_inj [of "length a" 8 "length b"] by (simp add: be64_def)
  with split show ?thesis by simp
qed

lemma frames_inj:
  assumes "\<forall>a \<in> set xs \<union> set ys. length a < 2 ^ 64" and "concat (map writeFrame xs) = concat (map writeFrame ys)"
  shows "xs = ys"
  using assms
proof (induction xs arbitrary: ys)
  case Nil
  show ?case
  proof (cases ys)
    case (Cons b zs)
    with Nil.prems(2) have "length (writeFrame b) = 0" by (metis concat.simps(1) list.simps(8,9) Nil_is_append_conv concat.simps(2) list.size(3))
    then show ?thesis by (simp add: writeFrame_def be64_def)
  qed simp
next
  case (Cons a xs)
  show ?case
  proof (cases ys)
    case Nil
    with Cons.prems(2) have "length (writeFrame a) = 0" by simp
    then show ?thesis by (simp add: writeFrame_def be64_def)
  next
    case (Cons b zs)
    with Cons.prems writeFrame_inj [of a b "concat (map writeFrame xs)" "concat (map writeFrame zs)"]
    have "a = b" "concat (map writeFrame xs) = concat (map writeFrame zs)" by auto
    with Cons Cons.IH [of zs] Cons.prems(1) show ?thesis by auto
  qed
qed

section \<open>The cut\<close>

lemma lastOutput_false: "(\<And>j. j < k \<Longrightarrow> \<not> output ! (n + j)) \<Longrightarrow> lastOutput output (n + k) = lastOutput output n"
  by (induction k) auto

lemma runStart_true: "(\<And>j. j < k \<Longrightarrow> output ! (n + j)) \<Longrightarrow> runStart output (n + k) = runStart output n"
  by (induction k) auto

lemma cut_next_turn:
  assumes "flags \<noteq> []" and "\<not> last flags" and "0 < outs"
  shows "lastOutputRunStart (flags @ replicate outs True @ replicate news False) = Some (length flags)"
proof -
  let ?o = "flags @ replicate outs True @ replicate news False"
  obtain k where k: "outs = Suc k" using assms(3) gr0_implies_Suc by blast
  have at: "?o ! (length flags + j) \<longleftrightarrow> j < outs" if "j < outs + news" for j
    using that by (auto simp: nth_append)
  have "lastOutput ?o (length flags + outs + news) = lastOutput ?o (length flags + outs)"
  proof (rule lastOutput_false)
    fix j assume "j < news"
    then show "\<not> ?o ! (length flags + outs + j)" using at [of "outs + j"] by (simp add: add.assoc)
  qed
  moreover have "?o ! (length flags + k)" using at [of k] k by simp
  ultimately have last: "lastOutput ?o (length ?o) = Some (length flags + k)" using k by (simp add: add.assoc)
  have "runStart ?o (length flags + k) = runStart ?o (length flags)"
    by (rule runStart_true) (use at k in auto)
  also have "\<dots> = length flags"
  proof -
    obtain m where m: "length flags = Suc m" using assms(1) by (cases flags) auto
    then have "\<not> ?o ! m" using assms(1,2) by (simp add: nth_append last_conv_nth)
    with m show ?thesis by simp
  qed
  finally have "runStart ?o (length flags + k) = length flags" .
  then show ?thesis unfolding lastOutputRunStart_def last by (simp only: option.case)
qed

text \<open>Past the cut the digest no longer changes; up to it the stream is that of the shorter list.\<close>

lemma itemsLoop_after:
  "c < i \<Longrightarrow> itemsLoop d canon (Some c) i items h lk = Inr (l, h') \<Longrightarrow> l = lk"
proof (induction items arbitrary: i h)
  case (Cons item items)
  from Cons.prems obtain b where "itemsLoop d canon (Some c) (Suc i) items (h @ writeFrame b) lk = Inr (l, h')"
    by (auto simp: Let_def split: option.splits)
  with Cons.IH [of "Suc i"] Cons.prems(1) show ?case by simp
qed simp

lemma itemsLoop_cut:
  assumes "itemsLoop d canon cutAt' i pre h lk' = Inr (l', h1)" and "0 < i + length pre" and "rest \<noteq> []"
    and "itemsLoop d canon (Some (i + length pre)) i (pre @ rest) h lk = Inr (l, h2)"
  shows "l = payloadValuePrefix @ d h1"
  using assms
proof (induction pre arbitrary: i h lk lk')
  case Nil
  then obtain item items where "rest = item # items" by (cases rest) auto
  with Nil show ?case
    by (auto simp: Let_def split: option.splits dest: itemsLoop_after [OF lessI])
next
  case (Cons p pre)
  from Cons.prems(1) obtain c lk1 where c: "canon p = Some c"
    and one: "itemsLoop d canon cutAt' (Suc i) pre (h @ writeFrame c) lk1 = Inr (l', h1)"
    by (auto simp: Let_def split: option.splits)
  from Cons.prems(4) c obtain lk2 where
    two: "itemsLoop d canon (Some (Suc i + length pre)) (Suc i) (pre @ rest) (h @ writeFrame c) lk2 = Inr (l, h2)"
    by (auto simp: Let_def)
  show ?case by (rule Cons.IH [OF one _ Cons.prems(3) two]) simp
qed

text \<open>
  The next turn finds the last one. For a client that only appends, that is, sends the previous
  items again, then some model output, then new input, the lookup value of the next turn is the
  write value of the previous turn, whatever the digest and the JSON encoding are.
\<close>

lemma next_turn_lookup:
  assumes "PayloadSessionValues digest canon prev = Inr (l1, w1)"
    and "PayloadSessionValues digest canon nxt = Inr (l2, w2)"
    and "in_Endpoint nxt = in_Endpoint prev" "in_OrgID nxt = in_OrgID prev" "in_ProjectID nxt = in_ProjectID prev"
    and "in_Leading nxt = in_Leading prev"
    and "in_Items nxt = in_Items prev @ output_items @ new_items" and "output_items \<noteq> []"
    and "in_Output nxt = in_Output prev @ replicate (length output_items) True @ replicate (length new_items) False"
    and "in_Items prev \<noteq> []" and "\<not> last (in_Output prev)"
  shows "l2 = w1"
proof -
  have len: "length (in_Output prev) = length (in_Items prev)"
    using assms(1) by (auto simp: PayloadSessionValues_def split: option.splits if_splits)
  have cutAt: "lastOutputRunStart (in_Output nxt) = Some (length (in_Items prev))"
    unfolding assms(9) len [symmetric] by (rule cut_next_turn) (use len assms(8,10,11) in auto)
  have head: "headStream nxt = headStream prev" using assms(3-5) by (simp add: headStream_def)
  from assms(1) obtain lead h1 where lead: "leadingStream canon 0 (in_Leading prev) = Inr lead"
    and one: "itemsLoop digest canon (lastOutputRunStart (in_Output prev)) 0 (in_Items prev) (headStream prev @ lead) []
      = Inr (l1, h1)" and w1: "w1 = payloadValuePrefix @ digest h1"
    by (auto simp: PayloadSessionValues_def split: option.splits if_splits sum.splits)
  from assms(2) lead obtain h2 where
    "itemsLoop digest canon (Some (0 + length (in_Items prev))) 0 (in_Items prev @ output_items @ new_items)
       (headStream prev @ lead) [] = Inr (l2, h2)"
    by (auto simp: PayloadSessionValues_def cutAt head assms(6,7) split: option.splits if_splits sum.splits)
  from itemsLoop_cut [OF one _ _ this] assms(8,10) show ?thesis by (simp add: w1)
qed

section \<open>Properties\<close>

text \<open>
  Different sessions have different key material: when two sessions share a store key, either
  they agree on the routing key, the model and the session value, or the two (different) framed
  streams are a collision of the digest. No split of the same bytes into parts gives the same key.
\<close>

theorem sessionKey_material:
  assumes "length r < 2 ^ 64" "length m < 2 ^ 64" "length a < 2 ^ 64"
    and "length r' < 2 ^ 64" "length m' < 2 ^ 64" "length a' < 2 ^ 64"
    and "sessionKey digest r m a = sessionKey digest r' m' a'"
  shows "r = r' \<and> m = m' \<and> a = a' \<or>
    (\<exists>s s'. s = concat (map writeFrame [r, m, a]) \<and> s' = concat (map writeFrame [r', m', a']) \<and> s \<noteq> s' \<and> digest s = digest s')"
proof (cases "concat (map writeFrame [r, m, a]) = concat (map writeFrame [r', m', a'])")
  case True
  then have "[r, m, a] = [r', m', a']" by (rule frames_inj [rotated]) (use assms(1-6) in auto)
  then show ?thesis by simp
next
  case False
  with assms(7) show ?thesis by (simp add: sessionKey_def)
qed

end
