(* ===== verification/LastClusterStore.thy ===== *)
theory LastClusterStore
  imports PayloadPrefix
begin

text \<open>
  The stores behind the last-cluster hints: the \<open>Store\<close> interface (\<open>lastcluster/store.go\<close>), the
  in-process LRU (\<open>local_store.go\<close>) and the store over an Olric map (\<open>olric_store.go\<close>).

  The LRU is a doubly linked list of \<open>*list.Element\<close> shared with a Go map from keys to elements.
  The elements are addresses here: \<open>order\<close> lists them, \<open>entries\<close> maps a key to one, and \<open>elems\<close>
  holds the entry an element points to. The reading of the clock is part of the store's state, since
  \<open>now\<close> is a field of the struct.
\<close>

section \<open>The interface\<close>

text \<open>Errors carry what they wrap (\<open>fmt.Errorf\<close> with \<open>%w\<close>), so that \<open>errors.Is\<close> can look inside.\<close>

datatype lc_error =
    DeadlineExceeded
  | Canceled
  | errCapacity
  | KeyNotFound
  | NilPanic
  | OtherError string
  | Wrap string lc_error

fun errorsIs :: "lc_error \<Rightarrow> lc_error \<Rightarrow> bool" where
  "errorsIs (Wrap msg e) target \<longleftrightarrow> Wrap msg e = target \<or> errorsIs e target"
| "errorsIs e target \<longleftrightarrow> e = target"

record 's LCStore =
  lc_Get :: "string \<Rightarrow> 's \<Rightarrow> (lc_error + string option) \<times> 's"
  lc_Set :: "string \<Rightarrow> string \<Rightarrow> i64 \<Rightarrow> 's \<Rightarrow> (lc_error + unit) \<times> 's"

text \<open>
  The contract of the interface, over the unexpired value of each key: a read returns it, a write
  with a positive lifetime sets it, and a write may drop other keys but never changes them. A
  failed write may have stored its value.
\<close>

locale lc_store =
  fixes st :: "'s LCStore"
    and inv :: "'s \<Rightarrow> bool"
    and view :: "'s \<Rightarrow> string \<Rightarrow> string option"
  assumes get_inv: "inv s \<Longrightarrow> lc_Get st k s = (r, s') \<Longrightarrow> inv s' \<and> view s' = view s"
    and get_value: "inv s \<Longrightarrow> lc_Get st k s = (Inr w, s') \<Longrightarrow> w = view s k"
    and set_inv: "inv s \<Longrightarrow> lc_Set st k v ttl s = (q, s') \<Longrightarrow>
          inv s' \<and> (\<forall>k'. k' \<noteq> k \<longrightarrow> view s' k' = view s k' \<or> view s' k' = None)"
    and set_value: "inv s \<Longrightarrow> 0 < ttl \<Longrightarrow> lc_Set st k v ttl s = (Inr u, s') \<Longrightarrow> view s' k = Some v"
begin

text \<open>A value just written is read back, and a read repeats.\<close>

lemma set_get:
  "inv s \<Longrightarrow> 0 < ttl \<Longrightarrow> lc_Set st k v ttl s = (Inr u, s') \<Longrightarrow> lc_Get st k s' = (Inr w, s'') \<Longrightarrow> w = Some v"
  using set_inv set_value get_value by metis

lemma get_get:
  "inv s \<Longrightarrow> lc_Get st k s = (Inr v, s') \<Longrightarrow> lc_Get st k s' = (Inr w, s'') \<Longrightarrow> w = v"
  using get_inv get_value by metis

end

section \<open>The in-process store\<close>

record localEntry =
  le_key :: string
  le_value :: string
  le_expiresAt :: int

record LocalStore =
  maxEntries :: int
  nowTime :: int
  order :: "nat list"
  entries :: "string \<Rightarrow> nat option"
  elems :: "nat \<Rightarrow> localEntry"
  nextElem :: nat

definition NewLocalStore :: "int \<Rightarrow> int \<Rightarrow> LocalStore" where
  "NewLocalStore limit clock =
     \<lparr>maxEntries = (if limit < 1 then 1 else limit), nowTime = clock, order = [], entries = (\<lambda>_. None),
      elems = (\<lambda>_. \<lparr>le_key = [], le_value = [], le_expiresAt = 0\<rparr>), nextElem = 0\<rparr>"

definition listRemove :: "nat \<Rightarrow> LocalStore \<Rightarrow> LocalStore" where
  "listRemove elem s = s\<lparr>order := remove1 elem (order s)\<rparr>"

definition MoveToFront :: "nat \<Rightarrow> LocalStore \<Rightarrow> LocalStore" where
  "MoveToFront elem s = s\<lparr>order := elem # remove1 elem (order s)\<rparr>"

definition PushFront :: "localEntry \<Rightarrow> LocalStore \<Rightarrow> nat \<times> LocalStore" where
  "PushFront entry s =
     (nextElem s,
      s\<lparr>order := nextElem s # order s, elems := (elems s)(nextElem s := entry), nextElem := nextElem s + 1\<rparr>)"

definition local_Get :: "string \<Rightarrow> LocalStore \<Rightarrow> (lc_error + string option) \<times> LocalStore" where
  "local_Get key s =
     (case entries s key of
        None \<Rightarrow> (Inr None, s)
      | Some elem \<Rightarrow>
          let entry = elems s elem
          in if \<not> nowTime s < le_expiresAt entry then
               (Inr None, (listRemove elem s)\<lparr>entries := (entries s)(key := None)\<rparr>)
             else (Inr (Some (le_value entry)), MoveToFront elem s))"

text \<open>The eviction loop; \<open>order.Back()\<close> of an empty list is nil, and removing it panics.\<close>

function evictLoop :: "LocalStore \<Rightarrow> (lc_error + unit) \<times> LocalStore" where
  "evictLoop s =
     (if int (length (order s)) > maxEntries s then
        if order s = [] then (Inl NilPanic, s)
        else
          let oldest = last (order s)
          in evictLoop ((listRemove oldest s)\<lparr>entries := (entries s)(le_key (elems s oldest) := None)\<rparr>)
      else (Inr (), s))"
  by pat_completeness auto

termination
  by (relation "measure (\<lambda>s. length (order s))") (simp_all add: listRemove_def length_remove1)

definition local_Set :: "string \<Rightarrow> string \<Rightarrow> i64 \<Rightarrow> LocalStore \<Rightarrow> (lc_error + unit) \<times> LocalStore" where
  "local_Set key val ttl s =
     (let expiresAt = nowTime s + ttl
      in case entries s key of
           Some elem \<Rightarrow>
             (Inr (), MoveToFront elem
                (s\<lparr>elems := (elems s)(elem := (elems s elem)\<lparr>le_value := val, le_expiresAt := expiresAt\<rparr>)\<rparr>))
         | None \<Rightarrow>
             (case PushFront \<lparr>le_key = key, le_value = val, le_expiresAt = expiresAt\<rparr> s of
                (elem, s') \<Rightarrow> evictLoop (s'\<lparr>entries := (entries s')(key := Some elem)\<rparr>)))"

definition local_Len :: "LocalStore \<Rightarrow> nat" where
  "local_Len s = length (order s)"

definition localStore :: "LocalStore LCStore" where
  "localStore = \<lparr>lc_Get = local_Get, lc_Set = local_Set\<rparr>"

section \<open>The store over Olric\<close>

text \<open>The calls the store makes of the Olric map: a response is decoded by its \<open>String\<close> method.\<close>

record 's LCDMap =
  ld_Get :: "string \<Rightarrow> 's \<Rightarrow> (lc_error + (lc_error + string)) \<times> 's"
  ld_Put :: "string \<Rightarrow> string \<Rightarrow> i64 \<Rightarrow> 's \<Rightarrow> (lc_error + unit) \<times> 's"

definition olriclc_Get :: "'s LCDMap \<Rightarrow> string \<Rightarrow> 's \<Rightarrow> (lc_error + string option) \<times> 's" where
  "olriclc_Get dmap key s =
     (case ld_Get dmap key s of
        (Inl err, s') \<Rightarrow>
          (if errorsIs err KeyNotFound then (Inr None, s') else (Inl (Wrap ''olric get: '' err), s'))
      | (Inr (Inl err), s') \<Rightarrow> (Inl (Wrap ''olric get decode: '' err), s')
      | (Inr (Inr v), s') \<Rightarrow> (Inr (Some v), s'))"

definition olriclc_Set :: "'s LCDMap \<Rightarrow> string \<Rightarrow> string \<Rightarrow> i64 \<Rightarrow> 's \<Rightarrow> (lc_error + unit) \<times> 's" where
  "olriclc_Set dmap key val ttl s =
     (case ld_Put dmap key val ttl s of
        (Inl err, s') \<Rightarrow> (Inl (Wrap ''olric put: '' err), s')
      | (Inr _, s') \<Rightarrow> (Inr (), s'))"

definition olricLCStore :: "'s LCDMap \<Rightarrow> 's LCStore" where
  "olricLCStore dmap = \<lparr>lc_Get = olriclc_Get dmap, lc_Set = olriclc_Set dmap\<rparr>"

text \<open>A map that reads and writes keys atomically makes the store keep the interface's contract.\<close>

lemma olric_keeps_contract:
  assumes found: "\<And>k s v s'. ld_Get dmap k s = (Inr (Inr v), s') \<Longrightarrow> raw s k = Some v"
    and absent: "\<And>k s e s'. ld_Get dmap k s = (Inl e, s') \<Longrightarrow> errorsIs e KeyNotFound \<Longrightarrow> raw s k = None"
    and frame: "\<And>k s r s'. ld_Get dmap k s = (r, s') \<Longrightarrow> raw s' = raw s"
    and put: "\<And>k v ttl s u s'. ld_Put dmap k v ttl s = (Inr u, s') \<Longrightarrow> 0 < ttl \<Longrightarrow> raw s' k = Some v"
    and put_frame: "\<And>k k' v ttl s r s'. ld_Put dmap k v ttl s = (r, s') \<Longrightarrow> k' \<noteq> k \<Longrightarrow>
      raw s' k' = raw s k' \<or> raw s' k' = None"
  shows "lc_store (olricLCStore dmap) (\<lambda>_. True) raw"
proof (unfold_locales, goal_cases)
  case (1 s k r s')
  then show ?case using frame [of k s]
    by (auto simp: olricLCStore_def olriclc_Get_def split: prod.splits sum.splits if_splits)
next
  case (2 s k v s')
  then show ?case using found [of k s] absent [of k s]
    by (fastforce simp: olricLCStore_def olriclc_Get_def split: prod.splits sum.splits if_splits)
next
  case (3 s k v ttl r s')
  then show ?case using put_frame [of k v ttl s]
    by (auto simp: olricLCStore_def olriclc_Set_def split: prod.splits sum.splits)
next
  case (4 s ttl k v u s')
  then show ?case using put [of k v ttl s]
    by (auto simp: olricLCStore_def olriclc_Set_def split: prod.splits sum.splits)
qed

section \<open>The LRU discipline\<close>

text \<open>The abstract store: the entries from the most to the least recently used.\<close>

definition lru_get :: "int \<Rightarrow> string \<Rightarrow> localEntry list \<Rightarrow> string option \<times> localEntry list" where
  "lru_get clock key l =
     (case List.find (\<lambda>e. le_key e = key) l of
        None \<Rightarrow> (None, l)
      | Some e \<Rightarrow>
          if clock < le_expiresAt e then (Some (le_value e), e # filter (\<lambda>e. le_key e \<noteq> key) l)
          else (None, filter (\<lambda>e. le_key e \<noteq> key) l))"

definition lru_set :: "int \<Rightarrow> string \<Rightarrow> string \<Rightarrow> int \<Rightarrow> localEntry list \<Rightarrow> localEntry list" where
  "lru_set limit key val expiresAt l =
     take (nat limit) (\<lparr>le_key = key, le_value = val, le_expiresAt = expiresAt\<rparr> # filter (\<lambda>e. le_key e \<noteq> key) l)"

definition local_abs :: "LocalStore \<Rightarrow> localEntry list" where
  "local_abs s = map (elems s) (order s)"

definition local_inv :: "LocalStore \<Rightarrow> bool" where
  "local_inv s \<longleftrightarrow>
     1 \<le> maxEntries s \<and> int (length (order s)) \<le> maxEntries s \<and> distinct (order s) \<and>
     (\<forall>e \<in> set (order s). e < nextElem s) \<and>
     (\<forall>k e. entries s k = Some e \<longleftrightarrow> e \<in> set (order s) \<and> le_key (elems s e) = k)"

definition local_view :: "LocalStore \<Rightarrow> string \<Rightarrow> string option" where
  "local_view s k =
     (case entries s k of
        None \<Rightarrow> None
      | Some e \<Rightarrow> if nowTime s < le_expiresAt (elems s e) then Some (le_value (elems s e)) else None)"

lemma local_inv_parts:
  assumes "local_inv s"
  shows "1 \<le> maxEntries s" "int (length (order s)) \<le> maxEntries s" "distinct (order s)"
    "e \<in> set (order s) \<Longrightarrow> e < nextElem s"
    "entries s k = Some e \<longleftrightarrow> e \<in> set (order s) \<and> le_key (elems s e) = k"
  using assms by (auto simp: local_inv_def)

lemma local_absent:
  assumes "local_inv s" and "entries s k = None" and "e \<in> set (order s)"
  shows "le_key (elems s e) \<noteq> k"
proof
  assume "le_key (elems s e) = k"
  with assms(3) have "entries s k = Some e" using local_inv_parts(5) [OF assms(1)] by blast
  with assms(2) show False by simp
qed

lemma local_present:
  assumes "local_inv s" and "entries s k = Some e"
  shows "e \<in> set (order s)" "le_key (elems s e) = k"
    "e' \<in> set (order s) \<Longrightarrow> le_key (elems s e') = k \<Longrightarrow> e' = e"
proof -
  show "e \<in> set (order s)" "le_key (elems s e) = k" using local_inv_parts(5) [OF assms(1)] assms(2) by blast+
  assume "e' \<in> set (order s)" "le_key (elems s e') = k"
  then have "entries s k = Some e'" using local_inv_parts(5) [OF assms(1)] by blast
  with assms(2) show "e' = e" by simp
qed

lemma NewLocalStore_inv: "local_inv (NewLocalStore limit clock)"
  by (simp add: local_inv_def NewLocalStore_def)

lemma remove1_abs:
  assumes "distinct xs" and "e \<in> set xs" and "key (f e) = k" and "\<And>x. x \<in> set xs \<Longrightarrow> key (f x) = k \<Longrightarrow> x = e"
  shows "map f (remove1 e xs) = filter (\<lambda>y. key y \<noteq> k) (map f xs)"
proof -
  have "remove1 e xs = filter (\<lambda>x. x \<noteq> e) xs"
    using assms(1) by (auto simp: distinct_remove1_removeAll removeAll_filter_not_eq intro: filter_cong)
  also have "\<dots> = filter (\<lambda>x. key (f x) \<noteq> k) xs"
  proof (rule filter_cong [OF refl])
    fix x assume "x \<in> set xs"
    then show "(x \<noteq> e) = (key (f x) \<noteq> k)" using assms(3) assms(4) [of x] by blast
  qed
  finally show ?thesis by (simp add: filter_map comp_def)
qed

lemma local_find:
  assumes "local_inv s"
  shows "List.find (\<lambda>e. le_key e = k) (local_abs s) = map_option (elems s) (entries s k)"
proof (cases "entries s k")
  case None
  then show ?thesis using local_absent [OF assms None] by (auto simp: local_abs_def find_None_iff)
next
  case (Some e)
  note e = local_present(1,2) [OF assms Some] and uniq = local_present(3) [OF assms Some]
  obtain r where r: "List.find (\<lambda>e. le_key e = k) (local_abs s) = Some r"
    using e by (cases "List.find (\<lambda>e. le_key e = k) (local_abs s)") (auto simp: find_None_iff local_abs_def)
  then obtain i where "i < length (order s)" "le_key (elems s (order s ! i)) = k" "r = elems s (order s ! i)"
    by (auto simp: find_Some_iff local_abs_def)
  with uniq [of "order s ! i"] Some r show ?thesis by simp
qed

lemma local_remove:
  assumes "local_inv s" and "entries s k = Some e"
  shows "map (elems s) (remove1 e (order s)) = filter (\<lambda>e. le_key e \<noteq> k) (local_abs s)"
proof -
  note e = local_present [OF assms]
  show ?thesis unfolding local_abs_def
  proof (rule remove1_abs [of "order s" e le_key "elems s" k])
    show "distinct (order s)" by (rule local_inv_parts(3) [OF assms(1)])
  qed (rule e; assumption)+
qed

lemma local_Get_refines:
  assumes "local_inv s" and "local_Get k s = (r, s')"
  shows "local_inv s' \<and> nowTime s' = nowTime s \<and> maxEntries s' = maxEntries s \<and>
    (\<exists>v. r = Inr v \<and> lru_get (nowTime s) k (local_abs s) = (v, local_abs s'))"
proof (cases "entries s k")
  case None
  with assms show ?thesis by (auto simp: local_Get_def lru_get_def local_find)
next
  case (Some e)
  note iv = local_inv_parts [OF assms(1)]
  note e = local_present(1,2) [OF assms(1) Some] and uniq = local_present(3) [OF assms(1) Some]
  have len: "length (remove1 e (order s)) = length (order s) - 1" using e by (simp add: length_remove1)
  show ?thesis
  proof (cases "nowTime s < le_expiresAt (elems s e)")
    case True
    have "set (e # remove1 e (order s)) = set (order s)" using e iv(3) by (auto simp: set_remove1_eq)
    moreover have "length (e # remove1 e (order s)) = length (order s)"
      using e by (simp add: length_remove1) (metis Suc_pred length_pos_if_in_set)
    moreover have "distinct (e # remove1 e (order s))" using iv(3) by (simp add: set_remove1_eq)
    ultimately have "local_inv (MoveToFront e s)"
      using assms(1) unfolding local_inv_def MoveToFront_def by simp
    moreover have "local_abs (MoveToFront e s) = elems s e # filter (\<lambda>e. le_key e \<noteq> k) (local_abs s)"
      using local_remove [OF assms(1) Some] by (simp add: MoveToFront_def local_abs_def)
    moreover have "r = Inr (Some (le_value (elems s e)))" "s' = MoveToFront e s"
      using True Some assms(2) by (simp_all add: local_Get_def)
    ultimately show ?thesis
      using True Some by (simp add: lru_get_def local_find [OF assms(1)] MoveToFront_def)
  next
    case False
    have "set (remove1 e (order s)) = set (order s) - {e}" using iv(3) by (simp add: set_remove1_eq)
    moreover have "((entries s)(k := None)) k' = Some e' \<longleftrightarrow> e' \<in> set (order s) - {e} \<and> le_key (elems s e') = k'" for k' e'
      using e uniq [of e'] iv(5) [of k' e'] by auto
    ultimately have "local_inv ((listRemove e s)\<lparr>entries := (entries s)(k := None)\<rparr>)"
      using assms(1) len unfolding local_inv_def listRemove_def by auto
    moreover have "local_abs ((listRemove e s)\<lparr>entries := (entries s)(k := None)\<rparr>) = filter (\<lambda>e. le_key e \<noteq> k) (local_abs s)"
      using local_remove [OF assms(1) Some] by (simp add: listRemove_def local_abs_def)
    moreover have "r = Inr None" "s' = (listRemove e s)\<lparr>entries := (entries s)(k := None)\<rparr>"
      using False Some assms(2) by (simp_all add: local_Get_def)
    ultimately show ?thesis
      using False Some by (simp add: lru_get_def local_find [OF assms(1)]) (simp add: listRemove_def)
  qed
qed

text \<open>
  The eviction loop on the abstract side: what does not fit is cut off at the end. The entries are
  in step with the list throughout.
\<close>

definition linked :: "LocalStore \<Rightarrow> bool" where
  "linked s \<longleftrightarrow>
     distinct (order s) \<and> (\<forall>e \<in> set (order s). e < nextElem s) \<and>
     (\<forall>k e. entries s k = Some e \<longleftrightarrow> e \<in> set (order s) \<and> le_key (elems s e) = k)"

lemma local_inv_linked:
  "local_inv s \<longleftrightarrow> linked s \<and> 1 \<le> maxEntries s \<and> int (length (order s)) \<le> maxEntries s"
  by (auto simp: local_inv_def linked_def)

lemma remove1_last: "distinct xs \<Longrightarrow> xs \<noteq> [] \<Longrightarrow> remove1 (last xs) xs = butlast xs"
  by (induction xs) auto

lemma linked_evict:
  assumes "linked s" and "order s \<noteq> []"
  shows "linked ((listRemove (last (order s)) s)\<lparr>entries := (entries s)(le_key (elems s (last (order s))) := None)\<rparr>)"
proof -
  let ?l = "last (order s)"
  have l: "?l \<in> set (order s)" using assms(2) by simp
  have uniq: "e = ?l" if "e \<in> set (order s)" "le_key (elems s e) = le_key (elems s ?l)" for e
    using that l assms(1) unfolding linked_def by (metis option.inject)
  from assms(1) l uniq show ?thesis
    unfolding linked_def listRemove_def by (auto simp: set_remove1_eq)
qed

lemma evictLoop_take:
  assumes "linked s" and "1 \<le> maxEntries s"
  shows "\<exists>s'. evictLoop s = (Inr (), s') \<and> local_inv s' \<and> nowTime s' = nowTime s \<and>
    maxEntries s' = maxEntries s \<and> local_abs s' = take (nat (maxEntries s)) (local_abs s)"
  using assms
proof (induction s rule: evictLoop.induct)
  case (1 s)
  let ?n = "(listRemove (last (order s)) s)\<lparr>entries := (entries s)(le_key (elems s (last (order s))) := None)\<rparr>"
  show ?case
  proof (cases "int (length (order s)) > maxEntries s")
    case True
    with 1(3) have ne: "order s \<noteq> []" by auto
    have abs: "local_abs ?n = butlast (local_abs s)"
      using 1(2) ne by (simp add: local_abs_def listRemove_def remove1_last linked_def map_butlast)
    have "take (nat (maxEntries s)) (butlast (local_abs s)) = take (nat (maxEntries s)) (local_abs s)"
      using True 1(3) by (intro take_butlast) (simp add: local_abs_def nat_less_iff)
    moreover have "maxEntries ?n = maxEntries s" "nowTime ?n = nowTime s" by (simp_all add: listRemove_def)
    moreover have "evictLoop s = evictLoop ?n" using True ne by (subst evictLoop.simps) (simp add: Let_def)
    ultimately show ?thesis
      using 1(1) [OF True ne refl linked_evict [OF 1(2) ne]] 1(3) abs by simp
  next
    case False
    then have "evictLoop s = (Inr (), s)" by (subst evictLoop.simps) simp
    with False 1(2,3) show ?thesis by (simp add: local_inv_linked local_abs_def)
  qed
qed

lemma local_Set_refines:
  assumes "local_inv s" and "local_Set k v ttl s = (r, s')"
  shows "local_inv s' \<and> nowTime s' = nowTime s \<and> maxEntries s' = maxEntries s \<and> r = Inr () \<and>
    local_abs s' = lru_set (maxEntries s) k v (nowTime s + ttl) (local_abs s)"
proof (cases "entries s k")
  case None
  let ?e = "\<lparr>le_key = k, le_value = v, le_expiresAt = nowTime s + ttl\<rparr>"
  let ?n = "s\<lparr>order := nextElem s # order s, elems := (elems s)(nextElem s := ?e), nextElem := nextElem s + 1,
      entries := (entries s)(k := Some (nextElem s))\<rparr>"
  note iv = local_inv_parts [OF assms(1)]
  have fresh: "nextElem s \<notin> set (order s)" using iv(4) by blast
  have nokey: "\<forall>e \<in> set (order s). le_key (elems s e) \<noteq> k" using local_absent [OF assms(1) None] by blast
  have "linked ?n"
    using assms(1) fresh nokey None unfolding local_inv_def linked_def by (auto simp: less_SucI)
  moreover have "local_abs ?n = ?e # local_abs s"
    using fresh by (auto simp: local_abs_def)
  moreover have "filter (\<lambda>e. le_key e \<noteq> k) (local_abs s) = local_abs s"
    using nokey by (auto simp: local_abs_def filter_id_conv)
  moreover have "local_Set k v ttl s = evictLoop ?n"
    using None by (simp add: local_Set_def PushFront_def Let_def)
  ultimately show ?thesis
    using evictLoop_take [of ?n] iv(1) assms(2) by (auto simp: lru_set_def)
next
  case (Some e)
  note iv = local_inv_parts [OF assms(1)]
  let ?n = "s\<lparr>elems := (elems s)(e := (elems s e)\<lparr>le_value := v, le_expiresAt := nowTime s + ttl\<rparr>)\<rparr>"
  note e = local_present(1,2) [OF assms(1) Some]
  have s': "s' = MoveToFront e ?n" "r = Inr ()" using assms(2) Some by (simp_all add: local_Set_def Let_def)
  have sets: "set (e # remove1 e (order s)) = set (order s)" "distinct (e # remove1 e (order s))"
    using e iv(3) by (auto simp: set_remove1_eq)
  have len: "length (e # remove1 e (order s)) = length (order s)"
    using e by (simp add: length_remove1) (metis Suc_pred length_pos_if_in_set)
  have keys: "le_key (elems s' x) = le_key (elems s x)" for x by (simp add: s' MoveToFront_def)
  have inv: "local_inv s'"
    using assms(1) sets len keys unfolding local_inv_def by (simp add: s' MoveToFront_def)
  have "map (elems s') (remove1 e (order s)) = map (elems s) (remove1 e (order s))"
    using sets(2) by (auto simp: s' MoveToFront_def)
  with local_remove [OF assms(1) Some]
  have abs: "local_abs s' = \<lparr>le_key = k, le_value = v, le_expiresAt = nowTime s + ttl\<rparr> # filter (\<lambda>e. le_key e \<noteq> k) (local_abs s)"
    using e(2) by (simp add: local_abs_def s' MoveToFront_def)
  moreover have "length (local_abs s') \<le> nat (maxEntries s)"
    using iv(2) len by (simp add: local_abs_def s' MoveToFront_def)
  ultimately have "local_abs s' = lru_set (maxEntries s) k v (nowTime s + ttl) (local_abs s)"
    by (simp add: lru_set_def)
  with inv s' show ?thesis by (simp add: MoveToFront_def)
qed

section \<open>The contract, on the abstract store\<close>

definition lru_view :: "int \<Rightarrow> localEntry list \<Rightarrow> string \<Rightarrow> string option" where
  "lru_view clock l k =
     (case List.find (\<lambda>e. le_key e = k) l of
        None \<Rightarrow> None
      | Some e \<Rightarrow> if clock < le_expiresAt e then Some (le_value e) else None)"

lemma local_view_abs: "local_inv s \<Longrightarrow> local_view s k = lru_view (nowTime s) (local_abs s) k"
  by (simp add: local_view_def lru_view_def local_find split: option.splits)

lemma find_other:
  "k' \<noteq> k \<Longrightarrow> List.find (\<lambda>e. key e = k') (filter (\<lambda>e. key e \<noteq> k) l) = List.find (\<lambda>e. key e = k') l"
  by (induction l) auto

lemma find_same: "List.find (\<lambda>e. key e = k) (filter (\<lambda>e. key e \<noteq> k) l) = None"
  by (simp add: find_None_iff)

lemma find_take: "List.find P (take n l) = List.find P l \<or> List.find P (take n l) = None"
  by (induction l arbitrary: n) (auto simp: take_Cons split: nat.splits)

lemma find_Some_prop: "List.find P l = Some e \<Longrightarrow> P e"
  by (auto simp: find_Some_iff)

lemma lru_view_Cons:
  "lru_view clock (e # l) k =
     (if le_key e = k then if clock < le_expiresAt e then Some (le_value e) else None else lru_view clock l k)"
  by (simp add: lru_view_def)

lemma lru_view_filter:
  "lru_view clock (filter (\<lambda>e. le_key e \<noteq> k) l) k' = (if k' = k then None else lru_view clock l k')"
  by (simp add: lru_view_def find_other find_same)

lemma lru_get_view:
  assumes "lru_get clock k l = (v, l')"
  shows "v = lru_view clock l k" and "lru_view clock l' = lru_view clock l"
proof -
  show "v = lru_view clock l k" using assms by (auto simp: lru_get_def lru_view_def split: option.splits if_splits)
  have "lru_view clock l' k' = lru_view clock l k'" for k'
  proof (cases "List.find (\<lambda>e. le_key e = k) l")
    case None
    with assms show ?thesis by (simp add: lru_get_def)
  next
    case (Some e)
    have "le_key e = k" using Some by (rule find_Some_prop)
    with Some assms show ?thesis
      by (auto simp: lru_get_def lru_view_Cons lru_view_filter split: if_splits) (simp_all add: lru_view_def)
  qed
  then show "lru_view clock l' = lru_view clock l" by blast
qed

lemma lru_set_view:
  "1 \<le> limit \<Longrightarrow> clock < expiresAt \<Longrightarrow> lru_view clock (lru_set limit k v expiresAt l) k = Some v"
  by (simp add: lru_set_def lru_view_def take_Cons split: nat.splits)

lemma lru_set_other:
  assumes "k' \<noteq> k"
  shows "lru_view clock (lru_set limit k v expiresAt l) k' = lru_view clock l k' \<or>
    lru_view clock (lru_set limit k v expiresAt l) k' = None"
  using find_take [of "\<lambda>e. le_key e = k'" "nat limit"
      "\<lparr>le_key = k, le_value = v, le_expiresAt = expiresAt\<rparr> # filter (\<lambda>e. le_key e \<noteq> k) l"] assms
  by (auto simp: lru_set_def lru_view_def find_other)

interpretation ls: lc_store localStore local_inv local_view
proof (unfold_locales, goal_cases)
  case (1 s k r s')
  from local_Get_refines [of s k r s'] 1 lru_get_view show ?case
    by (fastforce simp: localStore_def local_view_abs fun_eq_iff)
next
  case (2 s k v s')
  from local_Get_refines [of s k "Inr v" s'] 2 lru_get_view show ?case
    by (fastforce simp: localStore_def local_view_abs)
next
  case (3 s k v ttl r s')
  from local_Set_refines [of s k v ttl r s'] 3 lru_set_other show ?case
    by (auto simp: localStore_def local_view_abs)
next
  case (4 s ttl k v u s')
  from local_Set_refines [of s k v ttl "Inr u" s'] 4 lru_set_view local_inv_parts(1) [of s] show ?case
    by (auto simp: localStore_def local_view_abs)
qed

section \<open>What the store retains\<close>

datatype lc_op = OpGet string | OpSet string string i64 | OpTick nat

fun op_step :: "lc_op \<Rightarrow> LocalStore \<Rightarrow> LocalStore" where
  "op_step (OpGet k) s = snd (local_Get k s)"
| "op_step (OpSet k v ttl) s = snd (local_Set k v ttl s)"
| "op_step (OpTick n) s = s\<lparr>nowTime := nowTime s + int n\<rparr>"

fun op_keys :: "lc_op \<Rightarrow> string set" where
  "op_keys (OpGet k) = {k}"
| "op_keys (OpSet k v ttl) = {k}"
| "op_keys (OpTick n) = {}"

fun op_time :: "lc_op \<Rightarrow> nat" where
  "op_time (OpTick n) = n"
| "op_time _ = 0"

text \<open>The keys in front of an entry are among those used since it was written.\<close>

definition behind :: "localEntry list \<Rightarrow> localEntry \<Rightarrow> string set \<Rightarrow> bool" where
  "behind l e T \<longleftrightarrow>
     (\<exists>pre post. l = pre @ e # post \<and> distinct (map le_key l) \<and> le_key ` set pre \<subseteq> T)"

lemma behind_filter:
  assumes "behind l e T" and "k \<noteq> le_key e" and "le_key x = k"
  shows "behind (x # filter (\<lambda>e. le_key e \<noteq> k) l) e (insert k T)"
proof -
  obtain pre post where l: "l = pre @ e # post" "distinct (map le_key l)" "le_key ` set pre \<subseteq> T"
    using assms(1) by (auto simp: behind_def)
  let ?f = "filter (\<lambda>e. le_key e \<noteq> k)"
  have "x # ?f l = (x # ?f pre) @ e # ?f post" using l(1) assms(2) by simp
  moreover have "distinct (map le_key (x # ?f l))" using l(2) assms(3) by (auto simp: distinct_map_filter)
  moreover have "le_key ` set (x # ?f pre) \<subseteq> insert k T" using l(3) assms(3) by auto
  ultimately show ?thesis unfolding behind_def by blast
qed

lemma behind_mono: "behind l e T \<Longrightarrow> T \<subseteq> T' \<Longrightarrow> behind l e T'"
  by (auto simp: behind_def)

lemma behind_drop:
  assumes "behind l e T" and "k \<noteq> le_key e"
  shows "behind (filter (\<lambda>e. le_key e \<noteq> k) l) e T"
proof -
  obtain pre post where l: "l = pre @ e # post" "distinct (map le_key l)" "le_key ` set pre \<subseteq> T"
    using assms(1) by (auto simp: behind_def)
  let ?f = "filter (\<lambda>e. le_key e \<noteq> k)"
  have "?f l = ?f pre @ e # ?f post" using l(1) assms(2) by simp
  moreover have "distinct (map le_key (?f l))" using l(2) by (rule distinct_map_filter)
  moreover have "le_key ` set (?f pre) \<subseteq> T" using l(3) by auto
  ultimately show ?thesis unfolding behind_def by blast
qed

lemma behind_take:
  assumes "behind l e T" and "finite T" and "card T < n"
  shows "behind (take n l) e T"
proof -
  obtain pre post where l: "l = pre @ e # post" "distinct (map le_key l)" "le_key ` set pre \<subseteq> T"
    using assms(1) by (auto simp: behind_def)
  have "length pre = card (le_key ` set pre)" using l(1,2) by (metis distinct_append distinct_card length_map map_append set_map)
  also have "\<dots> \<le> card T" using l(3) assms(2) by (rule card_mono [rotated])
  finally have "take n l = pre @ e # take (n - length pre - 1) post"
    using l(1) assms(3) by (simp add: take_Cons')
  moreover have "distinct (map le_key (take n l))" using l(2) by (simp add: take_map [symmetric])
  ultimately show ?thesis using l(3) unfolding behind_def by blast
qed

lemma behind_get: "behind l e T \<Longrightarrow> k \<noteq> le_key e \<Longrightarrow> behind (snd (lru_get clock k l)) e (insert k T)"
  by (auto simp: lru_get_def dest: find_Some_prop intro: behind_filter behind_mono [OF behind_drop] behind_mono
      split: option.splits)

lemma behind_set:
  "behind l e T \<Longrightarrow> k \<noteq> le_key e \<Longrightarrow> finite T \<Longrightarrow> card (insert k T) < nat limit \<Longrightarrow>
     behind (lru_set limit k v x l) e (insert k T)"
  unfolding lru_set_def by (intro behind_take behind_filter) simp_all

lemma op_step_behind:
  assumes "local_inv s" and "behind (local_abs s) e T" and "le_key e \<notin> op_keys a" and "finite T"
    and "card (op_keys a \<union> T) < nat (maxEntries s)"
  shows "local_inv (op_step a s) \<and> maxEntries (op_step a s) = maxEntries s \<and>
    nowTime (op_step a s) = nowTime s + int (op_time a) \<and> behind (local_abs (op_step a s)) e (op_keys a \<union> T)"
proof (cases a)
  case (OpGet k)
  obtain r s' where g: "local_Get k s = (r, s')" by force
  from local_Get_refines [OF assms(1) g] behind_get [OF assms(2), of k "nowTime s"] assms(3) show ?thesis
    by (auto simp: OpGet g)
next
  case (OpSet k v ttl)
  obtain r s' where g: "local_Set k v ttl s = (r, s')" by force
  from local_Set_refines [OF assms(1) g] behind_set [OF assms(2), of k "maxEntries s" v "nowTime s + ttl"] assms(3-5)
  show ?thesis by (auto simp: OpSet g)
next
  case (OpTick n)
  with assms show ?thesis by (simp add: local_inv_def local_abs_def)
qed

lemma ops_behind:
  assumes "local_inv s" and "behind (local_abs s) e T" and "finite T"
    and "le_key e \<notin> \<Union> (op_keys ` set ops)" and "card (\<Union> (op_keys ` set ops) \<union> T) < nat (maxEntries s)"
  shows "local_inv (fold op_step ops s) \<and> nowTime (fold op_step ops s) = nowTime s + int (sum_list (map op_time ops)) \<and>
    behind (local_abs (fold op_step ops s)) e (\<Union> (op_keys ` set ops) \<union> T)"
  using assms
proof (induction ops arbitrary: s T)
  case (Cons a ops)
  have fin: "finite (op_keys a)" "finite (\<Union> (op_keys ` set ops))" for a
    by (cases a; simp) (auto intro: finite_UN_I, case_tac x, auto)
  have "card (op_keys a \<union> T) \<le> card (\<Union> (op_keys ` set (a # ops)) \<union> T)"
    using fin Cons.prems(3) by (intro card_mono) auto
  with Cons.prems have small: "card (op_keys a \<union> T) < nat (maxEntries s)" by linarith
  have step: "local_inv (op_step a s) \<and> maxEntries (op_step a s) = maxEntries s \<and>
    nowTime (op_step a s) = nowTime s + int (op_time a) \<and> behind (local_abs (op_step a s)) e (op_keys a \<union> T)"
    using Cons.prems small by (intro op_step_behind) auto
  have eq: "\<Union> (op_keys ` set ops) \<union> (op_keys a \<union> T) = \<Union> (op_keys ` set (a # ops)) \<union> T" by auto
  from Cons.IH [of "op_step a s" "op_keys a \<union> T"] step Cons.prems fin show ?case
    unfolding eq by simp
qed simp

lemma behind_view:
  assumes "behind l e T" and "clock < le_expiresAt e"
  shows "lru_view clock l (le_key e) = Some (le_value e)"
proof -
  obtain pre post where l: "l = pre @ e # post" "distinct (map le_key l)" using assms(1) by (auto simp: behind_def)
  have "le_key e \<notin> le_key ` set pre" using l by simp
  then have "List.find (\<lambda>x. le_key x = le_key e) pre = None" unfolding find_None_iff by (metis imageI)
  then have "List.find (\<lambda>x. le_key x = le_key e) l = Some e" using l(1) by (induction pre arbitrary: l) (auto split: if_splits)
  with assms(2) show ?thesis by (simp add: lru_view_def)
qed

text \<open>An entry survives what other keys do, until the store is full of them or its time is over.\<close>

lemma local_retained:
  assumes "local_inv s" and "local_Set k v ttl s = (r, s0)"
    and "k \<notin> \<Union> (op_keys ` set ops)" and "int (card (\<Union> (op_keys ` set ops))) < maxEntries s"
    and "int (sum_list (map op_time ops)) < ttl"
  shows "fst (local_Get k (fold op_step ops s0)) = Inr (Some v)"
proof -
  let ?e = "\<lparr>le_key = k, le_value = v, le_expiresAt = nowTime s + ttl\<rparr>"
  note set = local_Set_refines [OF assms(1,2)]
  have keys: "distinct (map le_key (local_abs s0))"
  proof -
    have iv: "local_inv s0" using set by blast
    have "inj_on (\<lambda>e. le_key (elems s0 e)) (set (order s0))"
      by (rule inj_onI) (metis iv local_inv_parts(5) option.inject)
    then show ?thesis using local_inv_parts(3) [OF iv] by (simp add: local_abs_def distinct_map comp_def)
  qed
  have "behind (local_abs s0) ?e {}"
    using keys set local_inv_parts(1) [OF assms(1)] unfolding behind_def lru_set_def by (auto simp: take_Cons')
  from ops_behind [OF _ this, of ops] set assms(3,4)
  have all: "local_inv (fold op_step ops s0)"
    "nowTime (fold op_step ops s0) = nowTime s + int (sum_list (map op_time ops))"
    "behind (local_abs (fold op_step ops s0)) ?e (\<Union> (op_keys ` set ops))"
    by simp_all
  have "lru_view (nowTime (fold op_step ops s0)) (local_abs (fold op_step ops s0)) k = Some v"
    using behind_view [OF all(3), of "nowTime (fold op_step ops s0)"] all(2) assms(5) by simp
  then show ?thesis
    using local_Get_refines [OF all(1) surjective_pairing, of k] lru_get_view(1) by fastforce
qed

section \<open>Properties\<close>

text \<open>
  C21. The in-process store is a least-recently-used cache with per-entry lifetimes. On a store that
  satisfies the link invariant, which \<open>NewLocalStore\<close> gives, \<open>Get\<close> and \<open>Set\<close> never fail or
  panic, keep the invariant and the bound on the number of entries, and act on the list of entries
  as the abstract cache does: a read moves the entry to the front or drops an expired one, a write
  puts its entry in front and cuts off what exceeds the limit.
\<close>

theorem local_store_refines_lru:
  assumes "local_inv s"
  shows "local_inv (snd (local_Get k s)) \<and> local_inv (snd (local_Set k v ttl s)) \<and>
    (\<exists>w. fst (local_Get k s) = Inr w \<and>
      lru_get (nowTime s) k (local_abs s) = (w, local_abs (snd (local_Get k s)))) \<and>
    fst (local_Set k v ttl s) = Inr () \<and>
    local_abs (snd (local_Set k v ttl s)) = lru_set (maxEntries s) k v (nowTime s + ttl) (local_abs s) \<and>
    int (local_Len (snd (local_Set k v ttl s))) \<le> maxEntries s"
  using local_Get_refines [OF assms surjective_pairing, of k]
    local_Set_refines [OF assms surjective_pairing, of k v ttl]
    local_inv_parts(2) [of "snd (local_Set k v ttl s)"]
  by (auto simp: local_Len_def)

theorem local_store_refines_lru_witness:
  "local_Len (snd (local_Set ''k2'' ''b'' 5 (snd (local_Set ''k1'' ''a'' 5 (NewLocalStore 0 100))))) \<le> 1"
proof -
  have "local_inv (snd (local_Set ''k1'' ''a'' 5 (NewLocalStore 0 100)))"
    using local_store_refines_lru [OF NewLocalStore_inv [of 0 100], where k = "''k1''"] by blast
  moreover have "maxEntries (snd (local_Set ''k1'' ''a'' 5 (NewLocalStore 0 100))) = 1"
    by (simp add: local_Set_def NewLocalStore_def PushFront_def)
  ultimately show ?thesis
    using local_store_refines_lru [of "snd (local_Set ''k1'' ''a'' 5 (NewLocalStore 0 100))" "''k2''" "''b''" 5]
    by simp
qed

end
