(* ===== verification/LastCluster.thy ===== *)
theory LastCluster
  imports LastClusterStore
begin

text \<open>
  The last-cluster tracker (\<open>lastcluster/tracker.go\<close>) and the session values the handlers derive
  for it (\<open>api/last_cluster_keys.go\<close>).

  A lookup and a write run their store call in a goroutine. The goroutines are jobs of the system
  state: a lookup job still holds its slot until it releases it, and a write job still counts as a
  write until \<open>endWrite\<close>. When the deadline of a lookup passes before the store answers, the job
  is left behind with its store call to make. Channels are numbered; a closed channel is one in
  \<open>closedChans\<close>, and closing a nil or a closed channel panics (\<open>None\<close>).
  Logging, spans and the durations of the metrics are left out; the label a lookup is counted under
  is part of its result.
\<close>

section \<open>Sessions\<close>

definition SessionSourceHeader :: string where "SessionSourceHeader = ''header''"
definition SessionSourcePayload :: string where "SessionSourcePayload = ''payload''"
definition SessionSourcePromptCacheKey :: string where "SessionSourcePromptCacheKey = ''prompt_cache_key''"
definition SessionSourceConversationID :: string where "SessionSourceConversationID = ''conversation_id''"
definition SessionSourceClaudeCodeHeader :: string where "SessionSourceClaudeCodeHeader = ''claude_code_header''"

lemmas session_sources =
  SessionSourceHeader_def SessionSourcePayload_def SessionSourcePromptCacheKey_def
  SessionSourceConversationID_def SessionSourceClaudeCodeHeader_def

text \<open>The fields of \<open>requestctx.RequestContext\<close> the tracker and the handlers use.\<close>

record SessionContext =
  sc_OrgID :: string
  sc_ProjectID :: string
  sc_RoutingKey :: string
  sc_SessionSource :: string
  sc_CacheAffinityKey :: string
  sc_LastClusterLookupKey :: string
  sc_LastClusterWriteKey :: string

definition eligible :: "SessionContext \<Rightarrow> bool" where
  "eligible reqCtx =
     (if sc_SessionSource reqCtx \<in> {SessionSourcePromptCacheKey, SessionSourceConversationID,
           SessionSourceHeader, SessionSourceClaudeCodeHeader} then True
      else if sc_SessionSource reqCtx = SessionSourcePayload then sc_LastClusterWriteKey reqCtx \<noteq> []
      else False)"

section \<open>The tracker\<close>

definition maxInflight :: nat where "maxInflight = 1024"

record 's Tracker =
  tr_store :: "'s LCStore"
  tr_TTL :: i64
  lookupSlots :: nat
  slotCap :: nat
  maxWrites :: int
  tr_writes :: int
  idleChan :: "nat option"
  chanCount :: nat
  closedChans :: "nat list"

definition NewTracker :: "'s LCStore \<Rightarrow> i64 \<Rightarrow> 's Tracker" where
  "NewTracker st ttl =
     \<lparr>tr_store = st, tr_TTL = ttl, lookupSlots = 0, slotCap = maxInflight, maxWrites = int maxInflight,
      tr_writes = 0, idleChan = None, chanCount = 0, closedChans = []\<rparr>"

datatype lookup_label = LookupHit | LookupMiss | LookupTimeout | LookupError | LookupSkipped

text \<open>
  Which of the store's answer and the end of the context comes first; the context's error is one
  of the two that \<open>ctx.Err()\<close> returns.
\<close>

datatype timing = Answered | Ended lc_error

datatype lookup_job = JobGet string | JobRelease
datatype write_job = JobSet string string | JobEnd

definition runLookup ::
    "timing \<Rightarrow> string \<Rightarrow> 's LCStore \<Rightarrow> 's \<Rightarrow> (lc_error + string option) \<times> lookup_job \<times> 's" where
  "runLookup timing key st s =
     (case timing of
        Answered \<Rightarrow> (case lc_Get st key s of (res, s') \<Rightarrow> (res, JobRelease, s'))
      | Ended err \<Rightarrow> (Inl err, JobGet key, s))"

definition lookupOutcome :: "lc_error + string option \<Rightarrow> lookup_label \<times> string" where
  "lookupOutcome res =
     (case res of
        Inl err \<Rightarrow>
          (if errorsIs err DeadlineExceeded \<or> errorsIs err Canceled \<or> errorsIs err errCapacity then (LookupTimeout, [])
           else (LookupError, []))
      | Inr None \<Rightarrow> (LookupMiss, [])
      | Inr (Some v) \<Rightarrow> (if validClusterID v then (LookupHit, v) else (LookupMiss, [])))"

record 's lookup_out =
  lo_key :: string
  lo_clusterID :: string
  lo_label :: "lookup_label option"
  lo_job :: "lookup_job option"

definition Lookup ::
    "(string \<Rightarrow> string) \<Rightarrow> timing \<Rightarrow> 's Tracker option \<Rightarrow> SessionContext option \<Rightarrow> string \<Rightarrow> 's
       \<Rightarrow> 's lookup_out \<times> 's Tracker option \<times> 's" where
  "Lookup digest timing t reqCtx model s =
     (case (t, reqCtx) of
        (Some tr, Some rc) \<Rightarrow>
          if sc_CacheAffinityKey rc = [] then
            (\<lparr>lo_key = [], lo_clusterID = [], lo_label = None, lo_job = None\<rparr>, t, s)
          else if \<not> eligible rc \<or> model = [] then
            (\<lparr>lo_key = [], lo_clusterID = [], lo_label = Some LookupSkipped, lo_job = None\<rparr>, t, s)
          else
            (let payload = (sc_SessionSource rc = SessionSourcePayload);
                 lookupValue = (if payload then sc_LastClusterLookupKey rc else sc_CacheAffinityKey rc);
                 writeValue = (if payload then sc_LastClusterWriteKey rc else sc_CacheAffinityKey rc);
                 key = sessionKey digest (sc_RoutingKey rc) model writeValue
             in if lookupValue = [] then
                  (\<lparr>lo_key = key, lo_clusterID = [], lo_label = Some LookupMiss, lo_job = None\<rparr>, t, s)
                else
                  let lookupKey = sessionKey digest (sc_RoutingKey rc) model lookupValue
                  in if lookupSlots tr < slotCap tr then
                       (case runLookup timing lookupKey (tr_store tr) s of
                          (res, job, s') \<Rightarrow>
                            (case lookupOutcome res of
                               (label, clusterID) \<Rightarrow>
                                 (\<lparr>lo_key = key, lo_clusterID = clusterID, lo_label = Some label, lo_job = Some job\<rparr>,
                                  Some (tr\<lparr>lookupSlots := lookupSlots tr + 1\<rparr>), s')))
                     else
                       (case lookupOutcome (Inl errCapacity) of
                          (label, clusterID) \<Rightarrow>
                            (\<lparr>lo_key = key, lo_clusterID = clusterID, lo_label = Some label, lo_job = None\<rparr>, t, s)))
      | _ \<Rightarrow> (\<lparr>lo_key = [], lo_clusterID = [], lo_label = None, lo_job = None\<rparr>, t, s))"

definition beginWrite :: "'s Tracker \<Rightarrow> bool \<times> 's Tracker" where
  "beginWrite t =
     (if tr_writes t \<ge> maxWrites t then (False, t)
      else
        let t = (if tr_writes t = 0 then t\<lparr>idleChan := Some (chanCount t), chanCount := chanCount t + 1\<rparr> else t)
        in (True, t\<lparr>tr_writes := tr_writes t + 1\<rparr>))"

definition closeChan :: "nat option \<Rightarrow> 's Tracker \<Rightarrow> 's Tracker option" where
  "closeChan ch t =
     (case ch of
        None \<Rightarrow> None
      | Some c \<Rightarrow> if c \<in> set (closedChans t) then None else Some (t\<lparr>closedChans := c # closedChans t\<rparr>))"

definition endWrite :: "'s Tracker \<Rightarrow> 's Tracker option" where
  "endWrite t =
     (let t = t\<lparr>tr_writes := tr_writes t - 1\<rparr>
      in if tr_writes t = 0 then closeChan (idleChan t) t else Some t)"

definition Remember ::
    "'s Tracker option \<Rightarrow> string \<Rightarrow> int \<Rightarrow> string \<Rightarrow> write_job option \<times> 's Tracker option" where
  "Remember t key status clusterID =
     (case t of
        None \<Rightarrow> (None, None)
      | Some tr \<Rightarrow>
          if key = [] \<or> status < 200 \<or> status \<ge> 300 then (None, t)
          else
            let clusterID = TrimSpace clusterID
            in if \<not> validClusterID clusterID then (None, t)
               else
                 (case beginWrite tr of
                    (False, tr') \<Rightarrow> (None, Some tr')
                  | (True, tr') \<Rightarrow> (Some (JobSet key clusterID), Some tr')))"

text \<open>One round of the loop of \<open>Drain\<close> under the lock: return, or the channel to wait on.\<close>

datatype drain_pc = DrainCheck | DrainWait "nat option" | DrainDone

definition drainRound :: "'s Tracker option \<Rightarrow> drain_pc" where
  "drainRound t =
     (case t of
        None \<Rightarrow> DrainDone
      | Some tr \<Rightarrow> if tr_writes tr = 0 then DrainDone else DrainWait (idleChan tr))"

section \<open>The running tracker\<close>

record 's lc_sys =
  trk :: "'s Tracker"
  world :: 's
  ljobs :: "lookup_job list"
  wjobs :: "write_job list"
  drains :: "drain_pc list"

definition add_job :: "'j option \<Rightarrow> 'j list \<Rightarrow> 'j list" where
  "add_job j js = (case j of None \<Rightarrow> js | Some x \<Rightarrow> js @ [x])"

text \<open>
  The steps: a request looks up or remembers, a goroutine makes its store call or ends, a drain
  starts, checks, is woken by the closed channel or gives up, and the world changes on its own.
\<close>

inductive lc_step :: "(string \<Rightarrow> string) \<Rightarrow> 's lc_sys \<Rightarrow> 's lc_sys \<Rightarrow> bool" for digest where
  st_lookup: "Lookup digest timing (Some (trk \<sigma>)) reqCtx model (world \<sigma>) = (res, Some t', s') \<Longrightarrow>
     lc_step digest \<sigma> (\<sigma>\<lparr>trk := t', world := s', ljobs := add_job (lo_job res) (ljobs \<sigma>)\<rparr>)"
| st_lookup_get: "i < length (ljobs \<sigma>) \<Longrightarrow> ljobs \<sigma> ! i = JobGet k \<Longrightarrow>
     lc_Get (tr_store (trk \<sigma>)) k (world \<sigma>) = (r, s') \<Longrightarrow>
     lc_step digest \<sigma> (\<sigma>\<lparr>world := s', ljobs := (ljobs \<sigma>)[i := JobRelease]\<rparr>)"
| st_lookup_release: "i < length (ljobs \<sigma>) \<Longrightarrow> ljobs \<sigma> ! i = JobRelease \<Longrightarrow>
     lc_step digest \<sigma> (\<sigma>\<lparr>trk := (trk \<sigma>)\<lparr>lookupSlots := lookupSlots (trk \<sigma>) - 1\<rparr>,
       ljobs := take i (ljobs \<sigma>) @ drop (Suc i) (ljobs \<sigma>)\<rparr>)"
| st_remember: "Remember (Some (trk \<sigma>)) key status clusterID = (job, Some t') \<Longrightarrow>
     lc_step digest \<sigma> (\<sigma>\<lparr>trk := t', wjobs := add_job job (wjobs \<sigma>)\<rparr>)"
| st_write_set: "i < length (wjobs \<sigma>) \<Longrightarrow> wjobs \<sigma> ! i = JobSet k c \<Longrightarrow>
     lc_Set (tr_store (trk \<sigma>)) k c (tr_TTL (trk \<sigma>)) (world \<sigma>) = (u, s') \<Longrightarrow>
     lc_step digest \<sigma> (\<sigma>\<lparr>world := s', wjobs := (wjobs \<sigma>)[i := JobEnd]\<rparr>)"
| st_write_end: "i < length (wjobs \<sigma>) \<Longrightarrow> wjobs \<sigma> ! i = JobEnd \<Longrightarrow> endWrite (trk \<sigma>) = Some t' \<Longrightarrow>
     lc_step digest \<sigma> (\<sigma>\<lparr>trk := t', wjobs := take i (wjobs \<sigma>) @ drop (Suc i) (wjobs \<sigma>)\<rparr>)"
| st_drain_start: "lc_step digest \<sigma> (\<sigma>\<lparr>drains := drains \<sigma> @ [DrainCheck]\<rparr>)"
| st_drain_check: "i < length (drains \<sigma>) \<Longrightarrow> drains \<sigma> ! i = DrainCheck \<Longrightarrow>
     lc_step digest \<sigma> (\<sigma>\<lparr>drains := (drains \<sigma>)[i := drainRound (Some (trk \<sigma>))]\<rparr>)"
| st_drain_wake: "i < length (drains \<sigma>) \<Longrightarrow> drains \<sigma> ! i = DrainWait (Some c) \<Longrightarrow>
     c \<in> set (closedChans (trk \<sigma>)) \<Longrightarrow> lc_step digest \<sigma> (\<sigma>\<lparr>drains := (drains \<sigma>)[i := DrainCheck]\<rparr>)"
| st_drain_cancel: "i < length (drains \<sigma>) \<Longrightarrow> drains \<sigma> ! i = DrainWait c \<Longrightarrow>
     lc_step digest \<sigma> (\<sigma>\<lparr>drains := (drains \<sigma>)[i := DrainDone]\<rparr>)"
| st_world: "lc_step digest \<sigma> (\<sigma>\<lparr>world := s'\<rparr>)"

inductive lc_reach :: "(string \<Rightarrow> string) \<Rightarrow> 's LCStore \<Rightarrow> i64 \<Rightarrow> 's lc_sys \<Rightarrow> bool" for digest st ttl where
  reach_init: "lc_reach digest st ttl \<lparr>trk = NewTracker st ttl, world = s, ljobs = [], wjobs = [], drains = []\<rparr>"
| reach_step: "lc_reach digest st ttl \<sigma> \<Longrightarrow> lc_step digest \<sigma> \<sigma>' \<Longrightarrow> lc_reach digest st ttl \<sigma>'"

text \<open>The invariant of the counters, the channels and the waiters.\<close>

definition lc_sound :: "'s lc_sys \<Rightarrow> bool" where
  "lc_sound \<sigma> \<longleftrightarrow>
     lookupSlots (trk \<sigma>) = length (ljobs \<sigma>) \<and> length (ljobs \<sigma>) \<le> slotCap (trk \<sigma>) \<and>
     tr_writes (trk \<sigma>) = int (length (wjobs \<sigma>)) \<and> int (length (wjobs \<sigma>)) \<le> maxWrites (trk \<sigma>) \<and>
     (\<forall>c \<in> set (closedChans (trk \<sigma>)). c < chanCount (trk \<sigma>)) \<and>
     (wjobs \<sigma> \<noteq> [] \<longrightarrow> (\<exists>c. idleChan (trk \<sigma>) = Some c \<and> c < chanCount (trk \<sigma>) \<and> c \<notin> set (closedChans (trk \<sigma>)))) \<and>
     (\<forall>w. DrainWait w \<in> set (drains \<sigma>) \<longrightarrow>
        (\<exists>c. w = Some c \<and> (c \<in> set (closedChans (trk \<sigma>)) \<or> wjobs \<sigma> \<noteq> [] \<and> idleChan (trk \<sigma>) = w)))"

lemma Lookup_effect:
  assumes "Lookup digest timing (Some t) reqCtx model s = (res, Some t', s')"
  shows "lo_job res = None \<and> t' = t \<or>
    (\<exists>j. lo_job res = Some j \<and> lookupSlots t < slotCap t \<and> t' = t\<lparr>lookupSlots := lookupSlots t + 1\<rparr>)"
  using assms by (auto simp: Lookup_def Let_def split: option.splits if_splits prod.splits)

lemma Remember_effect:
  assumes "Remember (Some t) key status clusterID = (job, Some t')"
  shows "job = None \<and> t' = t \<or> (\<exists>j. job = Some j \<and> beginWrite t = (True, t'))"
  using assms by (auto simp: Remember_def Let_def beginWrite_def split: if_splits prod.splits bool.splits)

lemma length_drop_nth: "i < length xs \<Longrightarrow> length (take i xs @ drop (Suc i) xs) = length xs - 1"
  by simp

text \<open>Each part of the invariant under the operations that touch it.\<close>

lemma sound_begin:
  assumes "lc_sound \<sigma>" and "beginWrite (trk \<sigma>) = (True, t')"
  shows "lc_sound (\<sigma>\<lparr>trk := t', wjobs := wjobs \<sigma> @ [j]\<rparr>)"
proof (cases "wjobs \<sigma> = []")
  case True
  with assms have "t' = (trk \<sigma>)\<lparr>idleChan := Some (chanCount (trk \<sigma>)), chanCount := chanCount (trk \<sigma>) + 1, tr_writes := 1\<rparr>"
    and "0 < maxWrites (trk \<sigma>)"
    by (auto simp: beginWrite_def lc_sound_def Let_def split: if_splits)
  with assms(1) True show ?thesis by (fastforce simp: lc_sound_def)
next
  case False
  with assms have "t' = (trk \<sigma>)\<lparr>tr_writes := tr_writes (trk \<sigma>) + 1\<rparr>" and "tr_writes (trk \<sigma>) < maxWrites (trk \<sigma>)"
    by (auto simp: beginWrite_def lc_sound_def Let_def split: if_splits)
  with assms(1) False show ?thesis by (auto simp: lc_sound_def)
qed

lemma sound_end:
  assumes "lc_sound \<sigma>" and "i < length (wjobs \<sigma>)"
  obtains t' where "endWrite (trk \<sigma>) = Some t'"
    and "lc_sound (\<sigma>\<lparr>trk := t', wjobs := take i (wjobs \<sigma>) @ drop (Suc i) (wjobs \<sigma>)\<rparr>)"
proof -
  let ?w = "take i (wjobs \<sigma>) @ drop (Suc i) (wjobs \<sigma>)"
  have len: "length ?w = length (wjobs \<sigma>) - 1" "int (length ?w) = int (length (wjobs \<sigma>)) - 1"
    using assms(2) by (auto simp: of_nat_diff)
  have ne: "wjobs \<sigma> \<noteq> []" using assms(2) by auto
  from assms(1) ne obtain c where c: "idleChan (trk \<sigma>) = Some c" "c < chanCount (trk \<sigma>)" "c \<notin> set (closedChans (trk \<sigma>))"
    by (auto simp: lc_sound_def)
  have n: "tr_writes (trk \<sigma>) = int (length (wjobs \<sigma>))" using assms(1) by (simp add: lc_sound_def)
  show thesis
  proof (cases "?w = []")
    case True
    let ?t = "(trk \<sigma>)\<lparr>tr_writes := 0, closedChans := c # closedChans (trk \<sigma>)\<rparr>"
    have one: "length (wjobs \<sigma>) = 1" using True len ne by (metis One_nat_def Suc_pred length_greater_0_conv list.size(3))
    have "endWrite (trk \<sigma>) = Some ?t" using c n one by (simp add: endWrite_def closeChan_def Let_def)
    moreover have "lc_sound (\<sigma>\<lparr>trk := ?t, wjobs := ?w\<rparr>)"
      using assms(1) c unfolding True lc_sound_def by fastforce
    ultimately show thesis by (rule that)
  next
    case False
    let ?t = "(trk \<sigma>)\<lparr>tr_writes := tr_writes (trk \<sigma>) - 1\<rparr>"
    have "0 < length ?w" using False by blast
    then have "length (wjobs \<sigma>) \<noteq> 1" using len(1) by linarith
    then have "endWrite (trk \<sigma>) = Some ?t" using n by (simp add: endWrite_def Let_def)
    moreover have "lc_sound (\<sigma>\<lparr>trk := ?t, wjobs := ?w\<rparr>)"
      using assms(1) c ne False len(2) n unfolding lc_sound_def by auto
    ultimately show thesis by (rule that)
  qed
qed

lemma sound_drain:
  assumes "lc_sound \<sigma>" and "\<And>w. d = DrainWait w \<Longrightarrow> wjobs \<sigma> \<noteq> [] \<and> idleChan (trk \<sigma>) = w"
  shows "lc_sound (\<sigma>\<lparr>drains := (drains \<sigma>)[i := d]\<rparr>)"
proof -
  have "set ((drains \<sigma>)[i := d]) \<subseteq> insert d (set (drains \<sigma>))" by (rule set_update_subset_insert)
  with assms show ?thesis unfolding lc_sound_def by (simp del: set_update_subset_insert) (smt (verit) in_mono insertE)
qed

lemma lc_step_sound: "lc_step digest \<sigma> \<sigma>' \<Longrightarrow> lc_sound \<sigma> \<Longrightarrow> lc_sound \<sigma>'"
proof (induction rule: lc_step.induct)
  case (st_lookup timing \<sigma> reqCtx model res t' s')
  from Lookup_effect [OF st_lookup(1)] st_lookup(2) show ?case
    by (auto simp: lc_sound_def add_job_def)
next
  case (st_remember \<sigma> key status clusterID job t')
  from Remember_effect [OF st_remember(1)] sound_begin [OF st_remember(2)] st_remember(2) show ?case
    by (auto simp: add_job_def)
next
  case (st_lookup_release i \<sigma>)
  then show ?case by (auto simp: lc_sound_def)
next
  case (st_write_set i \<sigma> k c u s')
  then have "(wjobs \<sigma>)[i := JobEnd] = [] \<longleftrightarrow> wjobs \<sigma> = []" by simp
  with st_write_set(4) show ?case by (simp add: lc_sound_def)
next
  case (st_write_end i \<sigma> t')
  from sound_end [OF st_write_end(4,1)] st_write_end(3) show ?case by (metis option.inject)
next
  case (st_drain_check i \<sigma>)
  have "drainRound (Some (trk \<sigma>)) = DrainWait w \<Longrightarrow> wjobs \<sigma> \<noteq> [] \<and> idleChan (trk \<sigma>) = w" for w
    using st_drain_check(3) by (auto simp: drainRound_def lc_sound_def split: if_splits)
  with st_drain_check(3) show ?case by (intro sound_drain)
next
  case (st_drain_wake i \<sigma> c)
  then show ?case by (intro sound_drain) simp_all
next
  case (st_drain_cancel i \<sigma> c)
  then show ?case by (intro sound_drain) simp_all
qed (auto simp: lc_sound_def)

lemma lc_reach_sound: "lc_reach digest st ttl \<sigma> \<Longrightarrow> lc_sound \<sigma>"
  by (induction rule: lc_reach.induct) (auto simp: lc_sound_def NewTracker_def dest: lc_step_sound)

lemma lc_step_config: "lc_step digest \<sigma> \<sigma>' \<Longrightarrow>
    slotCap (trk \<sigma>') = slotCap (trk \<sigma>) \<and> maxWrites (trk \<sigma>') = maxWrites (trk \<sigma>) \<and>
    tr_store (trk \<sigma>') = tr_store (trk \<sigma>) \<and> tr_TTL (trk \<sigma>') = tr_TTL (trk \<sigma>)"
proof (induction rule: lc_step.induct)
  case (st_lookup timing \<sigma> reqCtx model res t' s')
  from Lookup_effect [OF st_lookup(1)] show ?case by auto
next
  case (st_remember \<sigma> key status clusterID job t')
  from Remember_effect [OF st_remember(1)] show ?case by (auto simp: beginWrite_def Let_def split: if_splits)
qed (auto simp: endWrite_def closeChan_def Let_def split: if_splits option.splits)

lemma lc_reach_config: "lc_reach digest st ttl \<sigma> \<Longrightarrow>
    slotCap (trk \<sigma>) = maxInflight \<and> maxWrites (trk \<sigma>) = int maxInflight \<and>
    tr_store (trk \<sigma>) = st \<and> tr_TTL (trk \<sigma>) = ttl"
  by (induction rule: lc_reach.induct) (auto simp: NewTracker_def dest: lc_step_config)

section \<open>Properties of the tracker\<close>

text \<open>
  C17. The tracker holds at most \<open>maxInflight\<close> lookup goroutines and as many write goroutines,
  however slow the store is, and ending a write never panics: whenever a write goroutine is ready
  to end, the idle channel exists and is still open. A drain that waits is never lost: the channel
  it waits on is closed, or a write is still in flight that will close it.
\<close>

theorem tracker_bounded_and_drainable:
  assumes "lc_reach digest st ttl \<sigma>"
  shows "length (ljobs \<sigma>) \<le> maxInflight \<and> length (wjobs \<sigma>) \<le> maxInflight \<and>
    (wjobs \<sigma> \<noteq> [] \<longrightarrow> endWrite (trk \<sigma>) \<noteq> None) \<and>
    (\<forall>w. DrainWait w \<in> set (drains \<sigma>) \<longrightarrow>
      wjobs \<sigma> \<noteq> [] \<or> (\<exists>c. w = Some c \<and> c \<in> set (closedChans (trk \<sigma>))))"
proof -
  note s = lc_reach_sound [OF assms] and c = lc_reach_config [OF assms]
  have "endWrite (trk \<sigma>) \<noteq> None" if "wjobs \<sigma> \<noteq> []"
  proof -
    from that have "0 < length (wjobs \<sigma>)" by simp
    from sound_end [OF s this] show ?thesis by auto
  qed
  with s c show ?thesis unfolding lc_sound_def by auto
qed

theorem tracker_bounded_and_drainable_witness:
  "\<exists>\<sigma>. lc_reach (\<lambda>x. x) localStore 5 \<sigma> \<and> wjobs \<sigma> = [JobSet ''k'' ''c1''] \<and> endWrite (trk \<sigma>) \<noteq> None"
proof -
  let ?t = "NewTracker localStore 5"
  let ?i = "\<lparr>trk = ?t, world = NewLocalStore 2 100, ljobs = [], wjobs = [], drains = []\<rparr>"
  have k: "CHR ''k'' = CHR 0x6B" "CHR ''c'' = CHR 0x63" by simp_all
  have "Remember (Some ?t) ''k'' 200 '' c1'' =
      (Some (JobSet ''k'' ''c1''), Some (snd (beginWrite ?t)))"
    by (simp add: Remember_def NewTracker_def beginWrite_def TrimSpace_def is_space_def validClusterID_def
        MaxValueBytes_def maxInflight_def)
  then have "lc_step (\<lambda>x. x) ?i (?i\<lparr>trk := snd (beginWrite ?t), wjobs := add_job (Some (JobSet ''k'' ''c1'')) (wjobs ?i)\<rparr>)"
    by (intro st_remember) simp
  with lc_reach.intros
  have r: "lc_reach (\<lambda>x. x) localStore 5 (?i\<lparr>trk := snd (beginWrite ?t), wjobs := [JobSet ''k'' ''c1'']\<rparr>)"
    by (fastforce simp: add_job_def)
  show ?thesis
    by (rule exI [of _ "?i\<lparr>trk := snd (beginWrite ?t), wjobs := [JobSet ''k'' ''c1'']\<rparr>"])
      (use r tracker_bounded_and_drainable [OF r] in simp)
qed

end
