(* ===== verification/SessionValues.thy ===== *)
theory SessionValues
  imports LastCluster
begin

text \<open>
  The session values the handlers derive for requests without a session id
  (\<open>api/last_cluster_keys.go\<close>), and what they give together with the tracker and the in-process
  store: a conversation returns to the cluster that served its last turn.

  Decoding and encoding of JSON is an argument (\<open>decoders\<close>): each field is one \<open>json.Unmarshal\<close> or
  \<open>json.Marshal\<close> call of the source, \<open>None\<close> where the call returns an error.
\<close>

section \<open>Derived session values\<close>

record InputItem =
  ii_Type :: string
  ii_Role :: string

record responses_body =
  rb_Input :: string
  rb_Instructions :: string
  rb_Prompt :: string

record decoders =
  dec_messages :: "string \<Rightarrow> string list option"
  dec_role :: "string \<Rightarrow> string option"
  dec_responses :: "string \<Rightarrow> responses_body option"
  dec_text :: "string \<Rightarrow> string option"
  dec_items :: "string \<Rightarrow> string list option"
  enc_user_item :: "string \<Rightarrow> string option"

record CreateRequest =
  cr_PreviousResponseID :: "string option"
  cr_Items :: "InputItem list"

definition stringPtrValue :: "string option \<Rightarrow> string" where
  "stringPtrValue v = (case v of None \<Rightarrow> [] | Some s \<Rightarrow> s)"

definition payloadLastClusterEligible :: "bool \<Rightarrow> SessionContext option \<Rightarrow> bool" where
  "payloadLastClusterEligible lastClusterEnabled reqCtx =
     (case reqCtx of
        None \<Rightarrow> False
      | Some rc \<Rightarrow> lastClusterEnabled \<and> sc_SessionSource rc = SessionSourcePayload)"

definition setPayloadLastClusterKeys ::
    "(string \<Rightarrow> string) \<Rightarrow> (string \<Rightarrow> string option) \<Rightarrow> SessionContext \<Rightarrow> PayloadInput \<Rightarrow> SessionContext" where
  "setPayloadLastClusterKeys digest canonicalJSON rc inp =
     (if in_Items inp = [] then rc
      else
        (case PayloadSessionValues digest canonicalJSON (inp\<lparr>in_OrgID := sc_OrgID rc, in_ProjectID := sc_ProjectID rc\<rparr>) of
           Inl err \<Rightarrow> rc
         | Inr (lookup, write) \<Rightarrow> rc\<lparr>sc_LastClusterLookupKey := lookup, sc_LastClusterWriteKey := write\<rparr>))"

definition payloadInput :: "string \<Rightarrow> string option list \<Rightarrow> string list \<Rightarrow> bool list \<Rightarrow> PayloadInput" where
  "payloadInput endpoint leading items output =
     \<lparr>in_Endpoint = endpoint, in_OrgID = [], in_ProjectID = [], in_Leading = leading, in_Items = items, in_Output = output\<rparr>"

definition assistantRole :: "decoders \<Rightarrow> string \<Rightarrow> bool" where
  "assistantRole dec item \<longleftrightarrow> dec_role dec item = Some ''assistant''"

definition setChatLastClusterKeys ::
    "(string \<Rightarrow> string) \<Rightarrow> (string \<Rightarrow> string option) \<Rightarrow> decoders \<Rightarrow> bool \<Rightarrow> SessionContext option \<Rightarrow> string
       \<Rightarrow> SessionContext option" where
  "setChatLastClusterKeys digest canonicalJSON dec lastClusterEnabled reqCtx rawBody =
     (if \<not> payloadLastClusterEligible lastClusterEnabled reqCtx then reqCtx
      else
        (case dec_messages dec rawBody of
           None \<Rightarrow> reqCtx
         | Some messages \<Rightarrow>
             map_option (\<lambda>rc. setPayloadLastClusterKeys digest canonicalJSON rc
               (payloadInput EndpointChatCompletions [] messages (map (assistantRole dec) messages))) reqCtx))"

fun assistantMessageFlags :: "decoders \<Rightarrow> string list \<Rightarrow> bool list option" where
  "assistantMessageFlags dec [] = Some []"
| "assistantMessageFlags dec (item # items) =
     (case dec_role dec item of
        None \<Rightarrow> None
      | Some role \<Rightarrow>
          (case assistantMessageFlags dec items of
             None \<Rightarrow> None
           | Some flags \<Rightarrow> Some ((role = ''assistant'') # flags)))"

definition lastClusterLeadingPart :: "string \<Rightarrow> string option" where
  "lastClusterLeadingPart part = (if part = [] \<or> TrimSpace part = ''null'' then None else Some part)"

definition setMessagesLastClusterKeys ::
    "(string \<Rightarrow> string) \<Rightarrow> (string \<Rightarrow> string option) \<Rightarrow> decoders \<Rightarrow> bool \<Rightarrow> SessionContext option
       \<Rightarrow> string list \<Rightarrow> string \<Rightarrow> SessionContext option" where
  "setMessagesLastClusterKeys digest canonicalJSON dec lastClusterEnabled reqCtx messages system =
     (if \<not> payloadLastClusterEligible lastClusterEnabled reqCtx then reqCtx
      else
        (case assistantMessageFlags dec messages of
           None \<Rightarrow> reqCtx
         | Some output \<Rightarrow>
             map_option (\<lambda>rc. setPayloadLastClusterKeys digest canonicalJSON rc
               (payloadInput EndpointMessages [lastClusterLeadingPart system] messages output)) reqCtx))"

definition responseItemOutput :: "InputItem \<Rightarrow> bool" where
  "responseItemOutput item =
     (if ii_Type item \<in> {'''', ''message''} then ii_Role item = ''assistant''
      else ii_Type item \<in> {''reasoning'', ''function_call'', ''custom_tool_call'', ''web_search_call'',
        ''code_interpreter_call'', ''mcp_call'', ''mcp_list_tools'', ''mcp_approval_request''})"

definition responseItems :: "decoders \<Rightarrow> string \<Rightarrow> string list option" where
  "responseItems dec inp =
     (if hd inp = CHR 0x22 then
        (case dec_text dec inp of
           None \<Rightarrow> None
         | Some text \<Rightarrow> map_option (\<lambda>item. [item]) (enc_user_item dec text))
      else dec_items dec inp)"

definition setResponsesLastClusterKeys ::
    "(string \<Rightarrow> string) \<Rightarrow> (string \<Rightarrow> string option) \<Rightarrow> decoders \<Rightarrow> bool \<Rightarrow> SessionContext option
       \<Rightarrow> CreateRequest option \<Rightarrow> string \<Rightarrow> SessionContext option" where
  "setResponsesLastClusterKeys digest canonicalJSON dec lastClusterEnabled reqCtx req rawBody =
     (case req of
        None \<Rightarrow> reqCtx
      | Some r \<Rightarrow>
          if \<not> payloadLastClusterEligible lastClusterEnabled reqCtx \<or> stringPtrValue (cr_PreviousResponseID r) \<noteq> [] then
            reqCtx
          else if \<exists>item \<in> set (cr_Items r). ii_Type item = ''item_reference'' then reqCtx
          else
            (case dec_responses dec rawBody of
               None \<Rightarrow> reqCtx
             | Some body \<Rightarrow>
                 let inp = TrimSpace (rb_Input body)
                 in if inp = [] \<or> inp = ''null'' then reqCtx
                    else
                      (case responseItems dec inp of
                         None \<Rightarrow> reqCtx
                       | Some items \<Rightarrow>
                           if length items \<noteq> length (cr_Items r) then reqCtx
                           else
                             map_option (\<lambda>rc. setPayloadLastClusterKeys digest canonicalJSON rc
                               (payloadInput EndpointResponses
                                 [lastClusterLeadingPart (rb_Instructions body), lastClusterLeadingPart (rb_Prompt body)]
                                 items (map responseItemOutput (cr_Items r)))) reqCtx)))"

section \<open>Encodable input always gives values\<close>

lemma itemsLoop_total:
  "\<forall>item \<in> set items. canon item \<noteq> None \<Longrightarrow> \<exists>l h'. itemsLoop d canon cutAt i items h lk = Inr (l, h')"
proof (induction items arbitrary: i h lk)
  case (Cons item items)
  then obtain c where "canon item = Some c" by auto
  with Cons show ?case by (simp add: Let_def)
qed simp

lemma chat_values:
  assumes "\<forall>item \<in> set items. canon item \<noteq> None" and "length flags = length items" and "in_Endpoint inp = EndpointChatCompletions"
    and "in_Leading inp = []" and "in_Items inp = items" and "in_Output inp = flags"
  shows "\<exists>l w. PayloadSessionValues d canon inp = Inr (l, w)"
proof -
  have "leadingSlots (in_Endpoint inp) = Some 0"
    by (simp add: assms(3) leadingSlots_def EndpointChatCompletions_def EndpointMessages_def EndpointResponses_def)
  with assms itemsLoop_total [OF assms(1), of d "lastOutputRunStart flags" 0 "headStream inp" "[]"] show ?thesis
    by (fastforce simp: PayloadSessionValues_def)
qed

lemma values_nonempty: "PayloadSessionValues d canon inp = Inr (l, w) \<Longrightarrow> w \<noteq> []"
  by (auto simp: PayloadSessionValues_def payloadValuePrefix_def split: option.splits if_splits sum.splits)

text \<open>The values of a chat request, and how those of the next turn relate to them.\<close>

lemma setChat_values:
  assumes "sc_SessionSource rc = SessionSourcePayload" and "dec_messages dec body = Some ms" and "ms \<noteq> []"
    and "\<forall>m \<in> set ms. canon m \<noteq> None"
  shows "\<exists>l w. PayloadSessionValues d canon ((payloadInput EndpointChatCompletions [] ms (map (assistantRole dec) ms))
        \<lparr>in_OrgID := sc_OrgID rc, in_ProjectID := sc_ProjectID rc\<rparr>) = Inr (l, w) \<and> w \<noteq> [] \<and>
      setChatLastClusterKeys d canon dec True (Some rc) body =
        Some (rc\<lparr>sc_LastClusterLookupKey := l, sc_LastClusterWriteKey := w\<rparr>)"
proof -
  let ?inp = "(payloadInput EndpointChatCompletions [] ms (map (assistantRole dec) ms))
      \<lparr>in_OrgID := sc_OrgID rc, in_ProjectID := sc_ProjectID rc\<rparr>"
  obtain l w where v: "PayloadSessionValues d canon ?inp = Inr (l, w)"
    using chat_values [OF assms(4), of "map (assistantRole dec) ms" ?inp d] by (auto simp: payloadInput_def)
  with values_nonempty [OF v] assms(1-3) show ?thesis
    by (simp add: setChatLastClusterKeys_def payloadLastClusterEligible_def setPayloadLastClusterKeys_def)
      (simp add: payloadInput_def)
qed

lemma map_const: "\<forall>x \<in> set xs. f x = b \<Longrightarrow> map f xs = replicate (length xs) b"
  by (induction xs) auto

lemma chat_next_turn:
  assumes "sc_SessionSource rc1 = SessionSourcePayload" "sc_SessionSource rc2 = SessionSourcePayload"
    and "sc_OrgID rc2 = sc_OrgID rc1" "sc_ProjectID rc2 = sc_ProjectID rc1"
    and "dec_messages dec body1 = Some ms" "dec_messages dec body2 = Some (ms @ out @ new)"
    and "ms \<noteq> []" "out \<noteq> []" and "\<forall>m \<in> set (ms @ out @ new). canon m \<noteq> None"
    and "\<not> assistantRole dec (last ms)" "\<forall>m \<in> set out. assistantRole dec m" "\<forall>m \<in> set new. \<not> assistantRole dec m"
  shows "\<exists>l1 w1 w2. w1 \<noteq> [] \<and> w2 \<noteq> [] \<and>
      setChatLastClusterKeys d canon dec True (Some rc1) body1 =
        Some (rc1\<lparr>sc_LastClusterLookupKey := l1, sc_LastClusterWriteKey := w1\<rparr>) \<and>
      setChatLastClusterKeys d canon dec True (Some rc2) body2 =
        Some (rc2\<lparr>sc_LastClusterLookupKey := w1, sc_LastClusterWriteKey := w2\<rparr>)"
proof -
  have c1: "\<forall>m \<in> set ms. canon m \<noteq> None" and ne: "ms @ out @ new \<noteq> []" using assms(7,9) by auto
  obtain l1 w1 where one: "w1 \<noteq> []" "setChatLastClusterKeys d canon dec True (Some rc1) body1 =
        Some (rc1\<lparr>sc_LastClusterLookupKey := l1, sc_LastClusterWriteKey := w1\<rparr>)"
    and v1: "PayloadSessionValues d canon ((payloadInput EndpointChatCompletions [] ms (map (assistantRole dec) ms))
        \<lparr>in_OrgID := sc_OrgID rc1, in_ProjectID := sc_ProjectID rc1\<rparr>) = Inr (l1, w1)"
    using setChat_values [OF assms(1,5,7) c1] by blast
  obtain l2 w2 where two: "w2 \<noteq> []" "setChatLastClusterKeys d canon dec True (Some rc2) body2 =
        Some (rc2\<lparr>sc_LastClusterLookupKey := l2, sc_LastClusterWriteKey := w2\<rparr>)"
    and v2: "PayloadSessionValues d canon ((payloadInput EndpointChatCompletions [] (ms @ out @ new)
        (map (assistantRole dec) (ms @ out @ new)))\<lparr>in_OrgID := sc_OrgID rc2, in_ProjectID := sc_ProjectID rc2\<rparr>) = Inr (l2, w2)"
    using setChat_values [OF assms(2,6) ne assms(9)] by blast
  have "l2 = w1"
    by (rule next_turn_lookup [OF v1 v2, of out new])
      (use assms in \<open>simp_all add: payloadInput_def map_const last_map\<close>)
  with one two show ?thesis by blast
qed

section \<open>A conversation returns to its cluster\<close>

lemma Lookup_key:
  assumes "sc_SessionSource rc = SessionSourcePayload" "sc_CacheAffinityKey rc \<noteq> []" "sc_LastClusterWriteKey rc \<noteq> []"
    and "model \<noteq> []" and "Lookup digest timing (Some t) (Some rc) model s = (res, t', s')"
  shows "lo_key res = sessionKey digest (sc_RoutingKey rc) model (sc_LastClusterWriteKey rc)"
  using assms by (auto simp: Lookup_def eligible_def session_sources Let_def split: if_splits prod.splits)

lemma Lookup_hit:
  assumes "sc_SessionSource rc = SessionSourcePayload" "sc_CacheAffinityKey rc \<noteq> []" "sc_LastClusterWriteKey rc \<noteq> []"
    and "model \<noteq> []" and "sc_LastClusterLookupKey rc \<noteq> []" and "lookupSlots t < slotCap t"
    and "fst (lc_Get (tr_store t) (sessionKey digest (sc_RoutingKey rc) model (sc_LastClusterLookupKey rc)) s) = Inr (Some c)"
    and "validClusterID c" and "Lookup digest Answered (Some t) (Some rc) model s = (res, t', s')"
  shows "lo_clusterID res = c \<and> lo_label res = Some LookupHit"
  using assms
  by (auto simp: Lookup_def eligible_def session_sources Let_def runLookup_def lookupOutcome_def
      split: if_splits prod.splits)

lemma Remember_job:
  "Remember t key status cid = (Some (JobSet k c), t') \<Longrightarrow>
     k = key \<and> c = TrimSpace cid \<and> validClusterID c \<and> 200 \<le> status \<and> status < 300"
  by (auto simp: Remember_def Let_def split: option.splits if_splits prod.splits bool.splits)

text \<open>
  C10. A conversation returns to the cluster that served it. In the first of two chat requests of an
  append-only client the response names a cluster and its write goes through; the second request
  repeats the messages of the first, adds the assistant's answer and new messages. Then the second
  lookup is a hit and yields the (trimmed) cluster id of the first, however the store was used in
  between by other sessions, as long as they used fewer keys than it has entries and less than the
  entry's lifetime passed, and a lookup slot is free. Digest and JSON encoding are arbitrary.
\<close>

theorem conversation_sticky:
  assumes "local_inv s" and "sc_SessionSource rc1 = SessionSourcePayload" "sc_SessionSource rc2 = SessionSourcePayload"
    and "sc_OrgID rc2 = sc_OrgID rc1" "sc_ProjectID rc2 = sc_ProjectID rc1" "sc_RoutingKey rc2 = sc_RoutingKey rc1"
    and "sc_CacheAffinityKey rc1 \<noteq> []" "sc_CacheAffinityKey rc2 \<noteq> []" "model \<noteq> []"
    and "dec_messages dec body1 = Some ms" "dec_messages dec body2 = Some (ms @ out @ new)"
    and "ms \<noteq> []" "out \<noteq> []" and "\<forall>m \<in> set (ms @ out @ new). canon m \<noteq> None"
    and "\<not> assistantRole dec (last ms)" "\<forall>m \<in> set out. assistantRole dec m" "\<forall>m \<in> set new. \<not> assistantRole dec m"
    and "Lookup digest timing (Some t) (setChatLastClusterKeys digest canon dec True (Some rc1) body1) model s0 = (res1, t1, s1)"
    and "Remember t1 (lo_key res1) status cid = (Some (JobSet k c), t2)"
    and "local_Set k c ttl s = (u, s2)"
    and "k \<notin> \<Union> (op_keys ` set ops)" "int (card (\<Union> (op_keys ` set ops))) < maxEntries s"
    and "int (sum_list (map op_time ops)) < ttl"
    and "tr_store t3 = localStore" "lookupSlots t3 < slotCap t3"
    and "Lookup digest Answered (Some t3) (setChatLastClusterKeys digest canon dec True (Some rc2) body2) model
           (fold op_step ops s2) = (res2, t4, s4)"
  shows "lo_label res2 = Some LookupHit \<and> lo_clusterID res2 = TrimSpace cid"
proof -
  obtain l1 w1 w2 where w: "w1 \<noteq> []" "w2 \<noteq> []"
    and one: "setChatLastClusterKeys digest canon dec True (Some rc1) body1 =
        Some (rc1\<lparr>sc_LastClusterLookupKey := l1, sc_LastClusterWriteKey := w1\<rparr>)"
    and two: "setChatLastClusterKeys digest canon dec True (Some rc2) body2 =
        Some (rc2\<lparr>sc_LastClusterLookupKey := w1, sc_LastClusterWriteKey := w2\<rparr>)"
    using chat_next_turn [OF assms(2-5,10-17)] by blast
  have key: "lo_key res1 = sessionKey digest (sc_RoutingKey rc1) model w1"
    using Lookup_key [OF _ _ _ assms(9) assms(18)[unfolded one]] assms(2,7) w by simp
  note job = Remember_job [OF assms(19)]
  have get: "fst (local_Get k (fold op_step ops s2)) = Inr (Some c)"
    by (rule local_retained [OF assms(1,20-23)])
  show ?thesis
    using Lookup_hit [OF _ _ _ assms(9) _ assms(25) _ _ assms(26)[unfolded two], of c] assms(3,6,8,24) w get key job
    by (auto simp: localStore_def)
qed

text \<open>The two turns, on a conversation of one question, one answer and one more question.\<close>

definition demo_dec :: decoders where
  "demo_dec = \<lparr>dec_messages = (\<lambda>body. Some (map (\<lambda>c. [c]) body)),
     dec_role = (\<lambda>m. Some (if m = ''a'' then ''assistant'' else ''user'')), dec_responses = (\<lambda>_. None),
     dec_text = (\<lambda>_. None), dec_items = (\<lambda>_. None), enc_user_item = (\<lambda>_. None)\<rparr>"

definition demo_rc :: SessionContext where
  "demo_rc = \<lparr>sc_OrgID = ''o'', sc_ProjectID = ''p'', sc_RoutingKey = ''fn'', sc_SessionSource = ''payload'',
     sc_CacheAffinityKey = ''aff'', sc_LastClusterLookupKey = [], sc_LastClusterWriteKey = []\<rparr>"

definition demo_turn :: "string \<Rightarrow> LocalStore \<Rightarrow> LocalStore lookup_out \<times> LocalStore Tracker option \<times> LocalStore" where
  "demo_turn body = Lookup (\<lambda>_. ''h'') Answered (Some (NewTracker localStore 60))
     (setChatLastClusterKeys (\<lambda>_. ''h'') Some demo_dec True (Some demo_rc) body) ''m''"

lemma demo_first:
  "demo_turn ''q'' s =
     (\<lparr>lo_key = ''lc:v1:h'', lo_clusterID = [], lo_label = Some LookupMiss, lo_job = None\<rparr>,
      Some (NewTracker localStore 60), s)"
  by (simp add: demo_turn_def demo_dec_def demo_rc_def setChatLastClusterKeys_def payloadLastClusterEligible_def
      session_sources setPayloadLastClusterKeys_def payloadInput_def PayloadSessionValues_def leadingSlots_def
      EndpointChatCompletions_def EndpointMessages_def EndpointResponses_def Let_def payloadValuePrefix_def
      Lookup_def eligible_def sessionKey_def keyPrefix_def lastOutputRunStart_def assistantRole_def)

theorem conversation_sticky_witness:
  "lo_clusterID (fst (demo_turn ''qan''
     (fold op_step [OpSet ''other'' ''c9'' 60, OpTick 30]
       (snd (local_Set ''lc:v1:h'' ''c1'' 60 (NewLocalStore 2 100)))))) = ''c1''"
proof -
  let ?s = "NewLocalStore 2 100"
  let ?ops = "[OpSet ''other'' ''c9'' 60, OpTick 30]"
  let ?w = "local_Set ''lc:v1:h'' ''c1'' 60 ?s"
  let ?r = "demo_turn ''qan'' (fold op_step ?ops (snd ?w))"
  have rem: "Remember (Some (NewTracker localStore 60)) ''lc:v1:h'' 200 '' c1'' =
      (Some (JobSet ''lc:v1:h'' ''c1''), snd (Remember (Some (NewTracker localStore 60)) ''lc:v1:h'' 200 '' c1''))"
    by (simp add: Remember_def NewTracker_def beginWrite_def TrimSpace_def is_space_def validClusterID_def
        MaxValueBytes_def maxInflight_def)
  have trim: "TrimSpace '' c1'' = ''c1''" by (simp add: TrimSpace_def is_space_def)
  have "lo_label (fst ?r) = Some LookupHit \<and> lo_clusterID (fst ?r) = TrimSpace '' c1''"
  proof (rule conversation_sticky [where ?rc1.0 = demo_rc and ?rc2.0 = demo_rc and ms = "[''q'']" and out = "[''a'']"
        and new = "[''n'']" and dec = demo_dec and ?body1.0 = "''q''" and ?body2.0 = "''qan''" and canon = Some
        and digest = "\<lambda>_. ''h''" and model = "''m''" and status = 200 and s = ?s and ops = ?ops and ttl = 60
        and k = "''lc:v1:h''" and c = "''c1''" and timing = Answered and t = "NewTracker localStore 60"
        and ?t3.0 = "NewTracker localStore 60" and u = "fst ?w" and ?s2.0 = "snd ?w" and ?res2.0 = "fst ?r"
        and ?t4.0 = "fst (snd ?r)" and ?s4.0 = "snd (snd ?r)"])
    show "local_inv ?s" by (rule NewLocalStore_inv)
    show "Lookup (\<lambda>_. ''h'') Answered (Some (NewTracker localStore 60))
        (setChatLastClusterKeys (\<lambda>_. ''h'') Some demo_dec True (Some demo_rc) ''qan'') ''m''
        (fold op_step ?ops (snd ?w)) = (fst ?r, fst (snd ?r), snd (snd ?r))"
      unfolding demo_turn_def by (simp only: prod.collapse)
    show "?w = (fst ?w, snd ?w)" by (simp only: prod.collapse)
    show "Lookup (\<lambda>_. ''h'') Answered (Some (NewTracker localStore 60))
        (setChatLastClusterKeys (\<lambda>_. ''h'') Some demo_dec True (Some demo_rc) ''q'') ''m'' ?s =
      (\<lparr>lo_key = ''lc:v1:h'', lo_clusterID = [], lo_label = Some LookupMiss, lo_job = None\<rparr>,
      Some (NewTracker localStore 60), ?s)"
      using demo_first [of ?s] by (simp add: demo_turn_def)
    show "Remember (Some (NewTracker localStore 60))
        (lo_key \<lparr>lo_key = ''lc:v1:h'', lo_clusterID = [], lo_label = Some LookupMiss, lo_job = None\<rparr>) 200 '' c1'' =
      (Some (JobSet ''lc:v1:h'' ''c1''), snd (Remember (Some (NewTracker localStore 60)) ''lc:v1:h'' 200 '' c1''))"
      using rem by simp
  qed (simp_all add: demo_rc_def demo_dec_def session_sources assistantRole_def NewLocalStore_def NewTracker_def
      maxInflight_def demo_turn_def)
  then show ?thesis using trim by simp
qed

end
