(* ===== verification/GoTime.thy ===== *)
theory GoTime
  imports GoString "HOL-Library.List_Lexorder" "HOL-Library.Char_ord" "HOL-Library.Product_Lexorder"
begin

text \<open>
  Times of Go as the services store them. A time is a number of nanoseconds since the Unix epoch.

  A time kept as an RFC 3339 text loses what is below a second. In the nanosecond layout the text is
  the date and time of the second, which has a fixed width for the years 0 to 9999, followed by the
  fraction without its trailing zeros and the letter Z. Two texts compare byte by byte, so first by
  the second and then by what follows it; a text is the pair of the two.
\<close>

definition rfc3339 :: "int \<Rightarrow> int" where
  "rfc3339 t = (t div 1000000000) * 1000000000"

text \<open>The zero \<open>time.Time\<close>: the first of January of the year 1.\<close>

definition zeroTime :: int where
  "zeroTime = - 62135596800 * 1000000000"

type_synonym time_text = "int \<times> string"

definition nineDigits :: "nat \<Rightarrow> string" where
  "nineDigits n = replicate (9 - length (show_nat n)) (CHR ''0'') @ show_nat n"

definition trimZeros :: "string \<Rightarrow> string" where
  "trimZeros s = rev (dropWhile (\<lambda>c. c = CHR ''0'') (rev s))"

definition RFC3339Nano :: "int \<Rightarrow> time_text" where
  "RFC3339Nano t =
     (t div 1000000000,
      let frac = trimZeros (nineDigits (nat (t mod 1000000000)))
      in if frac = [] then ''Z'' else CHR ''.'' # frac @ ''Z'')"

definition RFC3339 :: "int \<Rightarrow> time_text" where
  "RFC3339 t = (t div 1000000000, ''Z'')"

end
