(* ===== verification/NvSnapState.thy ===== *)
theory NvSnapState
  imports GoTime
begin

text \<open>
  The per-function state of the NvSnap integration of the cluster agent
  (\<open>nvca/nvsnap/reconciler/state.go\<close>, \<open>backoff.go\<close>): the \<open>NvSnapFunctionState\<close> object, the guarded
  status writes, the capture-once claim and the cold-start pioneer claim, and the failure backoff.

  The Kubernetes API server is not part of the repository: its calls are a record of operations on
  the world \<open>'w\<close>, and what the code relies on of them, optimistic concurrency on the resource
  version, is the locale \<open>cfs_api\<close>. The status is a JSON map of which the code reads and writes fixed
  keys; an absent key reads as the zero value, so the map is a record, and the keys the code does not
  manage are the field \<open>cfs_rest\<close>, which every write carries over. Times are Unix nanoseconds; a
  time stored in the object is an RFC 3339 string and loses what is below a second.
\<close>

section \<open>The object\<close>

definition LocalCacheStateCold :: string where "LocalCacheStateCold = ''Cold''"
definition LocalCacheStateFetching :: string where "LocalCacheStateFetching = ''Fetching''"
definition LocalCacheStateCapturing :: string where "LocalCacheStateCapturing = ''Capturing''"
definition LocalCacheStateWarm :: string where "LocalCacheStateWarm = ''Warm''"
definition LocalCacheStateFailed :: string where "LocalCacheStateFailed = ''Failed''"

lemmas cache_states =
  LocalCacheStateCold_def LocalCacheStateFetching_def LocalCacheStateCapturing_def
  LocalCacheStateWarm_def LocalCacheStateFailed_def

record cfsStatus =
  CheckpointHash :: string
  CapturedHere :: bool
  LocalCacheState :: string
  AttemptCount :: i64
  LastError :: string
  CapturedAt :: "int option"
  LastAttemptAt :: "int option"
  CaptureOwner :: string
  CaptureLeaseExpiry :: "int option"
  CaptureOwnerUID :: string
  ColdStartPioneer :: string
  ColdStartPioneerExpiry :: "int option"

record CFS =
  cfs_version :: nat
  cfs_optOut :: bool
  cfs_imageRef :: string
  cfs_modelId :: string
  cfs_status :: cfsStatus
  cfs_rest :: string

definition emptyStatus :: cfsStatus where
  "emptyStatus =
     \<lparr>CheckpointHash = [], CapturedHere = False, LocalCacheState = [], AttemptCount = 0, LastError = [],
      CapturedAt = None, LastAttemptAt = None, CaptureOwner = [], CaptureLeaseExpiry = None,
      CaptureOwnerUID = [], ColdStartPioneer = [], ColdStartPioneerExpiry = None\<rparr>"

text \<open>A deadline that may be unset: \<open>t != nil && now.Before(t)\<close>.\<close>

definition leaseLive :: "int option \<Rightarrow> int \<Rightarrow> bool" where
  "leaseLive expiry now = (case expiry of None \<Rightarrow> False | Some t \<Rightarrow> now < t)"

section \<open>The API server\<close>

datatype api_error = NotFound | AlreadyExists | Conflict | MethodNotSupported | ApiError string

record 'w CFSApi =
  api_Get :: "string \<Rightarrow> 'w \<Rightarrow> (api_error + CFS) \<times> 'w"
  api_Create :: "string \<Rightarrow> CFS \<Rightarrow> 'w \<Rightarrow> (api_error + CFS) \<times> 'w"
  api_UpdateStatus :: "string \<Rightarrow> CFS \<Rightarrow> 'w \<Rightarrow> (api_error + unit) \<times> 'w"
  api_Update :: "string \<Rightarrow> CFS \<Rightarrow> 'w \<Rightarrow> (api_error + unit) \<times> 'w"
  api_List :: "'w \<Rightarrow> (api_error + (string \<times> CFS) list) \<times> 'w"

text \<open>
  Errors of the operations: a failed call, by the verb of the message, and the fence of
  \<open>writeStatus\<close>.
\<close>

datatype cfs_error =
    GetFailed api_error
  | CreateFailed api_error
  | UpdateFailed api_error
  | ErrClaimSuperseded

definition freshCFS :: "CFS" where
  "freshCFS =
     \<lparr>cfs_version = 0, cfs_optOut = False, cfs_imageRef = [], cfs_modelId = [],
      cfs_status = emptyStatus\<lparr>LocalCacheState := LocalCacheStateCold\<rparr>, cfs_rest = []\<rparr>"

definition getOrCreateCFS :: "'w CFSApi \<Rightarrow> string \<Rightarrow> 'w \<Rightarrow> (cfs_error + CFS) \<times> 'w" where
  "getOrCreateCFS api fvID w =
     (case api_Get api fvID w of
        (Inr cfs, w1) \<Rightarrow> (Inr cfs, w1)
      | (Inl NotFound, w1) \<Rightarrow>
          (case api_Create api fvID freshCFS w1 of
             (Inr created, w2) \<Rightarrow> (Inr created, w2)
           | (Inl AlreadyExists, w2) \<Rightarrow>
               (case api_Get api fvID w2 of
                  (Inr cfs, w3) \<Rightarrow> (Inr cfs, w3)
                | (Inl e, w3) \<Rightarrow> (Inl (GetFailed e), w3))
           | (Inl e, w2) \<Rightarrow> (Inl (CreateFailed e), w2))
      | (Inl e, w1) \<Rightarrow> (Inl (GetFailed e), w1))"

text \<open>The write every status update ends in: \<open>UpdateStatus\<close>, or \<open>Update\<close> where there is no subresource.\<close>

definition updateStatusOrSpec :: "'w CFSApi \<Rightarrow> string \<Rightarrow> CFS \<Rightarrow> 'w \<Rightarrow> (api_error + unit) \<times> 'w" where
  "updateStatusOrSpec api fvID cur w =
     (case api_UpdateStatus api fvID cur w of
        (Inr u, w1) \<Rightarrow> (Inr u, w1)
      | (Inl e, w1) \<Rightarrow>
          if e = NotFound \<or> e = MethodNotSupported then api_Update api fvID cur w1 else (Inl e, w1))"

section \<open>Fenced status writes\<close>

record claimToken =
  tok_Owner :: string
  tok_UID :: string
  tok_ExpectUnclaimed :: bool
  tok_ObservedResourceVersion :: "nat option"

definition zeroToken :: claimToken where
  "zeroToken = \<lparr>tok_Owner = [], tok_UID = [], tok_ExpectUnclaimed = False, tok_ObservedResourceVersion = None\<rparr>"

definition token_empty :: "claimToken \<Rightarrow> bool" where
  "token_empty t \<longleftrightarrow> tok_Owner t = [] \<and> \<not> tok_ExpectUnclaimed t \<and> tok_ObservedResourceVersion t = None"

definition supersedes :: "cfsStatus \<Rightarrow> claimToken \<Rightarrow> bool" where
  "supersedes st token =
     (if token_empty token then False
      else if tok_ExpectUnclaimed token then CaptureOwner st \<noteq> []
      else if tok_Owner token = [] then False
      else if CaptureOwner st = [] then True
      else if CaptureOwner st \<noteq> tok_Owner token then True
      else CaptureOwnerUID st \<noteq> [] \<and> tok_UID token \<noteq> [] \<and> CaptureOwnerUID st \<noteq> tok_UID token)"

record statusUpdate =
  upd_CheckpointHash :: string
  upd_CapturedHere :: bool
  upd_CapturedAt :: "int option"
  upd_LocalCacheState :: string
  upd_AttemptCount :: i64
  upd_LastError :: string
  upd_LastAttemptAt :: "int option"

text \<open>What \<open>writeStatus\<close> makes of the status: the managed keys set, both claims dropped.\<close>

definition terminalStatus :: "statusUpdate \<Rightarrow> cfsStatus \<Rightarrow> cfsStatus" where
  "terminalStatus upd st =
     st\<lparr>CheckpointHash := upd_CheckpointHash upd, CapturedHere := upd_CapturedHere upd,
        LocalCacheState := upd_LocalCacheState upd, AttemptCount := upd_AttemptCount upd,
        LastError := upd_LastError upd,
        CapturedAt := (case upd_CapturedAt upd of None \<Rightarrow> CapturedAt st | Some t \<Rightarrow> Some (rfc3339 t)),
        LastAttemptAt := (case upd_LastAttemptAt upd of None \<Rightarrow> LastAttemptAt st | Some t \<Rightarrow> Some (rfc3339 t)),
        CaptureOwner := [], CaptureOwnerUID := [], CaptureLeaseExpiry := None,
        ColdStartPioneer := [], ColdStartPioneerExpiry := None\<rparr>"

text \<open>The check of \<open>writeStatus\<close> on the object it read.\<close>

definition fencePasses :: "claimToken \<Rightarrow> CFS \<Rightarrow> bool" where
  "fencePasses token cur \<longleftrightarrow>
     \<not> (case tok_ObservedResourceVersion token of None \<Rightarrow> False | Some v \<Rightarrow> cfs_version cur \<noteq> v) \<and>
     \<not> supersedes (cfs_status cur) token"

definition writeStatus ::
    "'w CFSApi \<Rightarrow> string \<Rightarrow> statusUpdate \<Rightarrow> claimToken \<Rightarrow> 'w \<Rightarrow> (cfs_error + unit) \<times> 'w" where
  "writeStatus api fvID upd token w =
     (case api_Get api fvID w of
        (Inl e, w1) \<Rightarrow> (Inl (GetFailed e), w1)
      | (Inr cur, w1) \<Rightarrow>
          if \<not> fencePasses token cur then (Inl ErrClaimSuperseded, w1)
          else
            (case updateStatusOrSpec api fvID (cur\<lparr>cfs_status := terminalStatus upd (cfs_status cur)\<rparr>) w1 of
               (Inl e, w2) \<Rightarrow> (Inl (UpdateFailed e), w2)
             | (Inr _, w2) \<Rightarrow> (Inr (), w2)))"

definition warmUpdate :: "string \<Rightarrow> int \<Rightarrow> statusUpdate" where
  "warmUpdate hash now =
     \<lparr>upd_CheckpointHash = hash, upd_CapturedHere = True, upd_CapturedAt = Some now,
      upd_LocalCacheState = LocalCacheStateWarm, upd_AttemptCount = 0, upd_LastError = [], upd_LastAttemptAt = Some now\<rparr>"

definition releaseCaptureClaim ::
    "'w CFSApi \<Rightarrow> string \<Rightarrow> cfsStatus \<Rightarrow> claimToken \<Rightarrow> 'w \<Rightarrow> (cfs_error + unit) \<times> 'w" where
  "releaseCaptureClaim api fvID prev token =
     writeStatus api fvID
       \<lparr>upd_CheckpointHash = CheckpointHash prev, upd_CapturedHere = CapturedHere prev, upd_CapturedAt = CapturedAt prev,
        upd_LocalCacheState = LocalCacheState prev, upd_AttemptCount = AttemptCount prev,
        upd_LastError = LastError prev, upd_LastAttemptAt = LastAttemptAt prev\<rparr> token"

definition writeWorkloadLookup ::
    "'w CFSApi \<Rightarrow> string \<Rightarrow> string \<Rightarrow> string \<Rightarrow> 'w \<Rightarrow> (cfs_error + unit) \<times> 'w" where
  "writeWorkloadLookup api fvID imageRef modelID w =
     (if imageRef = [] then (Inr (), w)
      else
        (case api_Get api fvID w of
           (Inl e, w1) \<Rightarrow> (Inl (GetFailed e), w1)
         | (Inr cur, w1) \<Rightarrow>
             if cfs_imageRef cur = imageRef \<and> cfs_modelId cur = modelID then (Inr (), w1)
             else
               (case api_Update api fvID (cur\<lparr>cfs_imageRef := imageRef, cfs_modelId := modelID\<rparr>) w1 of
                  (Inl e, w2) \<Rightarrow> (Inl (UpdateFailed e), w2)
                | (Inr _, w2) \<Rightarrow> (Inr (), w2))))"

section \<open>Claims\<close>

text \<open>
  Whether the capture can be claimed, given the status read. \<open>ownerAlive\<close> is \<open>None\<close> when there is no
  liveness check; it is asked only about a foreign owner with a live lease.
\<close>

definition sameOwner :: "cfsStatus \<Rightarrow> string \<Rightarrow> string \<Rightarrow> bool" where
  "sameOwner st owner ownerUID \<longleftrightarrow>
     CaptureOwner st = owner \<and> (CaptureOwnerUID st = [] \<or> ownerUID = [] \<or> CaptureOwnerUID st = ownerUID)"

definition captureClaimable ::
    "(string \<Rightarrow> string \<Rightarrow> bool) option \<Rightarrow> string \<Rightarrow> string \<Rightarrow> int \<Rightarrow> cfsStatus \<Rightarrow> bool" where
  "captureClaimable ownerAlive owner ownerUID now st =
     (if LocalCacheState st = LocalCacheStateWarm \<or> LocalCacheState st = LocalCacheStateFetching then False
      else if LocalCacheState st = LocalCacheStateCapturing then
        \<not> (leaseLive (CaptureLeaseExpiry st) now \<and> \<not> sameOwner st owner ownerUID \<and>
           (case ownerAlive of None \<Rightarrow> True | Some f \<Rightarrow> f (CaptureOwner st) (CaptureOwnerUID st)))
      else True)"

definition claimStatus :: "string \<Rightarrow> string \<Rightarrow> int \<Rightarrow> cfsStatus \<Rightarrow> cfsStatus" where
  "claimStatus owner ownerUID leaseExpiry st =
     st\<lparr>LocalCacheState := LocalCacheStateCapturing, CaptureOwner := owner, CaptureOwnerUID := ownerUID,
        CaptureLeaseExpiry := Some (rfc3339 leaseExpiry)\<rparr>"

text \<open>The end of both claims: a conflict is a lost race, not an error.\<close>

definition claimWrite :: "'w CFSApi \<Rightarrow> string \<Rightarrow> CFS \<Rightarrow> 'w \<Rightarrow> (cfs_error + bool) \<times> 'w" where
  "claimWrite api fvID cur w =
     (case updateStatusOrSpec api fvID cur w of
        (Inr _, w1) \<Rightarrow> (Inr True, w1)
      | (Inl Conflict, w1) \<Rightarrow> (Inr False, w1)
      | (Inl e, w1) \<Rightarrow> (Inl (UpdateFailed e), w1))"

definition tryClaimCaptureLive ::
    "'w CFSApi \<Rightarrow> string \<Rightarrow> string \<Rightarrow> string \<Rightarrow> int \<Rightarrow> int \<Rightarrow> ('w \<Rightarrow> string \<Rightarrow> string \<Rightarrow> bool) option \<Rightarrow> 'w
       \<Rightarrow> (cfs_error + bool) \<times> 'w" where
  "tryClaimCaptureLive api fvID owner ownerUID leaseExpiry now ownerAlive w =
     (case api_Get api fvID w of
        (Inl e, w1) \<Rightarrow> (Inl (GetFailed e), w1)
      | (Inr cur, w1) \<Rightarrow>
          if \<not> captureClaimable (map_option (\<lambda>f. f w1) ownerAlive) owner ownerUID now (cfs_status cur) then (Inr False, w1)
          else claimWrite api fvID (cur\<lparr>cfs_status := claimStatus owner ownerUID leaseExpiry (cfs_status cur)\<rparr>) w1)"

definition tryClaimCapture ::
    "'w CFSApi \<Rightarrow> string \<Rightarrow> string \<Rightarrow> int \<Rightarrow> int \<Rightarrow> 'w \<Rightarrow> (cfs_error + bool) \<times> 'w" where
  "tryClaimCapture api fvID owner leaseExpiry now = tryClaimCaptureLive api fvID owner [] leaseExpiry now None"

definition pioneerClaimable :: "string \<Rightarrow> int \<Rightarrow> cfsStatus \<Rightarrow> bool" where
  "pioneerClaimable owner now st =
     (if LocalCacheState st = LocalCacheStateWarm \<or> LocalCacheState st = LocalCacheStateFailed then False
      else \<not> (leaseLive (ColdStartPioneerExpiry st) now \<and> ColdStartPioneer st \<noteq> [] \<and> ColdStartPioneer st \<noteq> owner))"

definition pioneerStatus :: "string \<Rightarrow> int \<Rightarrow> cfsStatus \<Rightarrow> cfsStatus" where
  "pioneerStatus owner leaseExpiry st =
     st\<lparr>ColdStartPioneer := owner, ColdStartPioneerExpiry := Some (rfc3339 leaseExpiry)\<rparr>"

definition TryClaimColdStartPioneer ::
    "'w CFSApi \<Rightarrow> string \<Rightarrow> string \<Rightarrow> int \<Rightarrow> int \<Rightarrow> 'w \<Rightarrow> (cfs_error + bool) \<times> 'w" where
  "TryClaimColdStartPioneer api fvID owner leaseExpiry now w =
     (case api_Get api fvID w of
        (Inl e, w1) \<Rightarrow> (Inl (GetFailed e), w1)
      | (Inr cur, w1) \<Rightarrow>
          if \<not> pioneerClaimable owner now (cfs_status cur) then (Inr False, w1)
          else claimWrite api fvID (cur\<lparr>cfs_status := pioneerStatus owner leaseExpiry (cfs_status cur)\<rparr>) w1)"

section \<open>The status writes of the admission hook\<close>

text \<open>
  \<open>nvsnap_hook.go\<close> writes the status on its own, without a token and without touching the claims:
  \<open>resetCFSToCold\<close> when the artifact of a warm function is gone, \<open>markCFSWarmFromLookup\<close> when
  another function has a matching one.
\<close>

definition resetStatus :: "cfsStatus \<Rightarrow> cfsStatus" where
  "resetStatus st =
     st\<lparr>LocalCacheState := LocalCacheStateCold, CheckpointHash := [], CapturedHere := False, LastError := []\<rparr>"

definition markWarmStatus :: "string \<Rightarrow> int \<Rightarrow> cfsStatus \<Rightarrow> cfsStatus" where
  "markWarmStatus hash now st =
     st\<lparr>CheckpointHash := hash, LocalCacheState := LocalCacheStateWarm, CapturedHere := False,
        CapturedAt := Some (rfc3339 now), LastError := []\<rparr>"

definition hookWrite :: "'w CFSApi \<Rightarrow> string \<Rightarrow> (cfsStatus \<Rightarrow> cfsStatus) \<Rightarrow> 'w \<Rightarrow> (cfs_error + unit) \<times> 'w" where
  "hookWrite api fvID patch w =
     (case api_Get api fvID w of
        (Inl e, w1) \<Rightarrow> (Inl (GetFailed e), w1)
      | (Inr cur, w1) \<Rightarrow>
          (case updateStatusOrSpec api fvID (cur\<lparr>cfs_status := patch (cfs_status cur)\<rparr>) w1 of
             (Inl e, w2) \<Rightarrow> (Inl (UpdateFailed e), w2)
           | (Inr _, w2) \<Rightarrow> (Inr (), w2)))"

definition resetCFSToCold :: "'w CFSApi \<Rightarrow> string \<Rightarrow> 'w \<Rightarrow> (cfs_error + unit) \<times> 'w" where
  "resetCFSToCold api fvID = hookWrite api fvID resetStatus"

definition markCFSWarmFromLookup :: "'w CFSApi \<Rightarrow> string \<Rightarrow> string \<Rightarrow> int \<Rightarrow> 'w \<Rightarrow> (cfs_error + unit) \<times> 'w" where
  "markCFSWarmFromLookup api fvID hash now = hookWrite api fvID (markWarmStatus hash now)"

section \<open>Failure backoff\<close>

definition second :: int where "second = 1000000000"

definition checkpointBackoffSchedule :: "int list" where
  "checkpointBackoffSchedule = [5 * 60 * second, 30 * 60 * second, 2 * 3600 * second, 24 * 3600 * second]"

definition backoffWindow :: "i64 \<Rightarrow> int" where
  "backoffWindow attemptCount =
     (if attemptCount \<le> 0 then 0
      else
        let idx = attemptCount - 1;
            idx = (if idx \<ge> int (length checkpointBackoffSchedule) then int (length checkpointBackoffSchedule) - 1 else idx)
        in checkpointBackoffSchedule ! nat idx)"

definition shouldSuppressAttempt :: "cfsStatus \<Rightarrow> int \<Rightarrow> int option" where
  "shouldSuppressAttempt prev now =
     (case LastAttemptAt prev of
        None \<Rightarrow> None
      | Some lastAt \<Rightarrow>
          if AttemptCount prev \<le> 0 then None
          else
            let window = backoffWindow (AttemptCount prev)
            in if window \<le> 0 then None
               else if now < lastAt + window then Some (lastAt + window) else None)"

section \<open>What the code relies on of the API server\<close>

text \<open>
  Reads return the current object. A write is accepted only if the object still has the version
  that was read, and then the object gets a later version; a status write changes nothing but the
  status. A rejected write changes nothing, but one that fails otherwise, say by a timeout, may have
  been applied. A server with a status subresource drops the status of an object that is created.
\<close>

definition statusWritten :: "('k \<Rightarrow> CFS option) \<Rightarrow> 'k \<Rightarrow> CFS \<Rightarrow> ('k \<Rightarrow> CFS option) \<Rightarrow> bool" where
  "statusWritten m k obj m' \<longleftrightarrow>
     (\<exists>cur new. m k = Some cur \<and> cfs_version cur = cfs_version obj \<and> m' = m(k \<mapsto> new) \<and>
        cfs_version cur < cfs_version new \<and> cfs_status new = cfs_status obj \<and> cfs_rest new = cfs_rest obj)"

definition rejected :: "api_error \<Rightarrow> bool" where
  "rejected e \<longleftrightarrow> e \<in> {NotFound, AlreadyExists, Conflict, MethodNotSupported}"

locale cfs_api =
  fixes api :: "'w CFSApi"
    and view :: "'w \<Rightarrow> string \<Rightarrow> CFS option"
  assumes get_ok: "api_Get api k w = (Inr obj, w') \<Longrightarrow> view w k = Some obj"
    and get_absent: "api_Get api k w = (Inl NotFound, w') \<Longrightarrow> view w k = None"
    and get_frame: "api_Get api k w = (r, w') \<Longrightarrow> view w' = view w"
    and create_ok: "api_Create api k obj w = (Inr new, w') \<Longrightarrow>
          view w' = (view w)(k \<mapsto> new) \<and> (cfs_status new = cfs_status obj \<or> cfs_status new = emptyStatus)"
    and create_fail: "api_Create api k obj w = (Inl e, w') \<Longrightarrow>
          view w' = view w \<or>
          (\<exists>new. view w' = (view w)(k \<mapsto> new) \<and> (cfs_status new = cfs_status obj \<or> cfs_status new = emptyStatus))"
    and status_ok: "api_UpdateStatus api k obj w = (Inr u, w') \<Longrightarrow> statusWritten (view w) k obj (view w')"
    and status_fail: "api_UpdateStatus api k obj w = (Inl e, w') \<Longrightarrow>
          view w' = view w \<or> \<not> rejected e \<and> statusWritten (view w) k obj (view w')"
    and update_ok: "api_Update api k obj w = (Inr u, w') \<Longrightarrow> statusWritten (view w) k obj (view w')"
    and update_fail: "api_Update api k obj w = (Inl e, w') \<Longrightarrow>
          view w' = view w \<or> \<not> rejected e \<and> statusWritten (view w) k obj (view w')"
begin

lemma write_ok: "updateStatusOrSpec api k obj w = (Inr u, w') \<Longrightarrow> statusWritten (view w) k obj (view w')"
  by (auto simp: updateStatusOrSpec_def rejected_def dest!: status_fail intro: status_ok dest: update_ok
      split: prod.splits sum.splits if_splits)

lemma write_fail: "updateStatusOrSpec api k obj w = (Inl e, w') \<Longrightarrow>
    view w' = view w \<or> \<not> rejected e \<and> statusWritten (view w) k obj (view w')"
  by (auto simp: updateStatusOrSpec_def rejected_def dest!: status_fail update_fail split: prod.splits sum.splits if_splits)

text \<open>A claim that succeeds was decided on the very object it replaced.\<close>

lemma claim_atomic:
  assumes "tryClaimCaptureLive api fvID owner uid lease now alive w = (Inr True, w')"
  shows "\<exists>cur new w1. view w fvID = Some cur \<and> captureClaimable (map_option (\<lambda>f. f w1) alive) owner uid now (cfs_status cur) \<and>
     view w' = (view w)(fvID \<mapsto> new) \<and> cfs_status new = claimStatus owner uid lease (cfs_status cur)"
proof -
  obtain cur w1 where g: "api_Get api fvID w = (Inr cur, w1)"
    and c: "captureClaimable (map_option (\<lambda>f. f w1) alive) owner uid now (cfs_status cur)"
    and u: "claimWrite api fvID (cur\<lparr>cfs_status := claimStatus owner uid lease (cfs_status cur)\<rparr>) w1 = (Inr True, w')"
    using assms by (auto simp: tryClaimCaptureLive_def split: prod.splits sum.splits if_splits)
  from u obtain v where "updateStatusOrSpec api fvID (cur\<lparr>cfs_status := claimStatus owner uid lease (cfs_status cur)\<rparr>) w1 = (Inr v, w')"
    by (auto simp: claimWrite_def split: prod.splits sum.splits api_error.splits)
  from write_ok [OF this] get_ok [OF g] get_frame [OF g] c show ?thesis
    by (fastforce simp: statusWritten_def)
qed

text \<open>A fenced write that succeeds replaced an object its token matched.\<close>

lemma writeStatus_atomic:
  assumes "writeStatus api fvID upd token w = (Inr u, w')"
  shows "\<exists>cur new. view w fvID = Some cur \<and> fencePasses token cur \<and> view w' = (view w)(fvID \<mapsto> new) \<and>
     cfs_status new = terminalStatus upd (cfs_status cur)"
proof -
  obtain cur w1 v where g: "api_Get api fvID w = (Inr cur, w1)" and f: "fencePasses token cur"
    and u: "updateStatusOrSpec api fvID (cur\<lparr>cfs_status := terminalStatus upd (cfs_status cur)\<rparr>) w1 = (Inr v, w')"
    using assms by (auto simp: writeStatus_def split: prod.splits sum.splits if_splits)
  from write_ok [OF u] get_ok [OF g] get_frame [OF g] f show ?thesis by (fastforce simp: statusWritten_def)
qed

lemma writeStatus_refused: "writeStatus api fvID upd token w = (Inl ErrClaimSuperseded, w') \<Longrightarrow> view w' = view w"
  by (auto simp: writeStatus_def dest: get_frame split: prod.splits sum.splits if_splits)

end

section \<open>A server in memory\<close>

record memServer =
  ms_objs :: "string \<Rightarrow> CFS option"
  ms_pods :: "(string \<times> string) list"

definition mem_put :: "string \<Rightarrow> CFS \<Rightarrow> memServer \<Rightarrow> (api_error + unit) \<times> memServer" where
  "mem_put k obj s =
     (case ms_objs s k of
        None \<Rightarrow> (Inl NotFound, s)
      | Some cur \<Rightarrow>
          if cfs_version cur \<noteq> cfs_version obj then (Inl Conflict, s)
          else (Inr (), s\<lparr>ms_objs := (ms_objs s)(k \<mapsto> obj\<lparr>cfs_version := cfs_version cur + 1\<rparr>)\<rparr>))"

definition memApi :: "memServer CFSApi" where
  "memApi =
     \<lparr>api_Get = (\<lambda>k s. (case ms_objs s k of None \<Rightarrow> Inl NotFound | Some x \<Rightarrow> Inr x, s)),
      api_Create = (\<lambda>k obj s.
        case ms_objs s k of
          None \<Rightarrow> (Inr (obj\<lparr>cfs_version := 1\<rparr>), s\<lparr>ms_objs := (ms_objs s)(k \<mapsto> obj\<lparr>cfs_version := 1\<rparr>)\<rparr>)
        | Some _ \<Rightarrow> (Inl AlreadyExists, s)),
      api_UpdateStatus = mem_put, api_Update = mem_put,
      api_List = (\<lambda>s. (Inr [], s))\<rparr>"

lemma mem_put_ok: "mem_put k obj s = (Inr u, s') \<Longrightarrow> statusWritten (ms_objs s) k obj (ms_objs s')"
  by (auto simp: mem_put_def statusWritten_def split: option.splits if_splits)

lemma mem_put_fail: "mem_put k obj s = (Inl e, s') \<Longrightarrow> ms_objs s' = ms_objs s"
  by (auto simp: mem_put_def split: option.splits if_splits)

interpretation mem: cfs_api memApi ms_objs
  by unfold_locales (auto simp: memApi_def mem_put_ok dest: mem_put_fail split: option.splits)

end
