(* ===== verification/CaptureOnce.thy ===== *)
theory CaptureOnce
  imports NvSnapState
begin

text \<open>
  The capture-once protocol as a state machine: the reconciles of many pods of one function version,
  interleaved call by call with each other and with every other writer of the object.

  A pod is its \<open>namespace/name\<close> and UID; a pod stays in \<open>cs_alive\<close> until it terminates and never comes
  back under the same UID. A reconcile is idle, has read the object for a claim, has decided to
  claim it, is capturing under the lease it stored, or has read the object for its terminal write.
  The recovery, sweep, pioneer and spec writes are one step each: their read and write succeed only
  if nothing else changed the object in between, so the two calls act as one. The admission hook's
  writes are steps only when the parameter \<open>hooks\<close> is set.
\<close>

section \<open>The machine\<close>

type_synonym pod = "string \<times> string"

datatype cap_pc =
    PcIdle
  | PcRead CFS int
  | PcClaim CFS int
  | PcCapturing int
  | PcClose CFS statusUpdate

record 'w cap_sys =
  cs_world :: 'w
  cs_clock :: int
  cs_alive :: "pod set"
  cs_pc :: "pod \<Rightarrow> cap_pc"
  cs_resets :: nat

definition podToken :: "pod \<Rightarrow> claimToken" where
  "podToken p = \<lparr>tok_Owner = fst p, tok_UID = snd p, tok_ExpectUnclaimed = False, tok_ObservedResourceVersion = None\<rparr>"

text \<open>The token of the sweep, for the object it listed.\<close>

definition sweepToken :: "CFS \<Rightarrow> claimToken" where
  "sweepToken cfs =
     (if CaptureOwner (cfs_status cfs) \<noteq> [] then
        \<lparr>tok_Owner = CaptureOwner (cfs_status cfs), tok_UID = CaptureOwnerUID (cfs_status cfs),
         tok_ExpectUnclaimed = False, tok_ObservedResourceVersion = Some (cfs_version cfs)\<rparr>
      else
        \<lparr>tok_Owner = [], tok_UID = [], tok_ExpectUnclaimed = True, tok_ObservedResourceVersion = Some (cfs_version cfs)\<rparr>)"

text \<open>A liveness check may err on the side of life: a failed API call counts as alive.\<close>

definition aliveCheck :: "pod set \<Rightarrow> (string \<Rightarrow> string \<Rightarrow> bool) \<Rightarrow> bool" where
  "aliveCheck alive f \<longleftrightarrow> (\<forall>owner uid. uid \<noteq> [] \<longrightarrow> \<not> f owner uid \<longrightarrow> (owner, uid) \<notin> alive)"

definition validPod :: "pod \<Rightarrow> bool" where
  "validPod p \<longleftrightarrow> fst p \<noteq> [] \<and> snd p \<noteq> []"

inductive cap_step :: "'w CFSApi \<Rightarrow> string \<Rightarrow> int \<Rightarrow> bool \<Rightarrow> 'w cap_sys \<Rightarrow> 'w cap_sys \<Rightarrow> bool" for api fvID ttl hooks where
  c_read: "validPod p \<Longrightarrow> cs_pc \<sigma> p = PcIdle \<Longrightarrow> now \<le> cs_clock \<sigma> \<Longrightarrow> api_Get api fvID (cs_world \<sigma>) = (Inr cur, w') \<Longrightarrow>
     cap_step api fvID ttl hooks \<sigma> (\<sigma>\<lparr>cs_world := w', cs_pc := (cs_pc \<sigma>)(p := PcRead cur now)\<rparr>)"
| c_decide: "cs_pc \<sigma> p = PcRead cur now \<Longrightarrow> aliveCheck (cs_alive \<sigma>) f \<Longrightarrow>
     captureClaimable (Some f) (fst p) (snd p) now (cfs_status cur) \<Longrightarrow>
     cap_step api fvID ttl hooks \<sigma> (\<sigma>\<lparr>cs_pc := (cs_pc \<sigma>)(p := PcClaim cur (now + ttl))\<rparr>)"
| c_claim: "cs_pc \<sigma> p = PcClaim cur lease \<Longrightarrow>
     claimWrite api fvID (cur\<lparr>cfs_status := claimStatus (fst p) (snd p) lease (cfs_status cur)\<rparr>) (cs_world \<sigma>) = (r, w') \<Longrightarrow>
     cap_step api fvID ttl hooks \<sigma>
       (\<sigma>\<lparr>cs_world := w', cs_pc := (cs_pc \<sigma>)(p := (if r = Inr True then PcCapturing (rfc3339 lease) else PcIdle))\<rparr>)"
| c_close_read: "cs_pc \<sigma> p = PcCapturing l \<Longrightarrow> api_Get api fvID (cs_world \<sigma>) = (Inr cur, w') \<Longrightarrow>
     fencePasses (podToken p) cur \<Longrightarrow>
     cap_step api fvID ttl hooks \<sigma> (\<sigma>\<lparr>cs_world := w', cs_pc := (cs_pc \<sigma>)(p := PcClose cur upd)\<rparr>)"
| c_close_write: "cs_pc \<sigma> p = PcClose cur upd \<Longrightarrow>
     updateStatusOrSpec api fvID (cur\<lparr>cfs_status := terminalStatus upd (cfs_status cur)\<rparr>) (cs_world \<sigma>) = (s, w') \<Longrightarrow>
     cap_step api fvID ttl hooks \<sigma> (\<sigma>\<lparr>cs_world := w', cs_pc := (cs_pc \<sigma>)(p := PcIdle)\<rparr>)"
| c_abandon: "cap_step api fvID ttl hooks \<sigma> (\<sigma>\<lparr>cs_pc := (cs_pc \<sigma>)(p := PcIdle)\<rparr>)"
| c_recover: "writeStatus api fvID (warmUpdate hash now) zeroToken (cs_world \<sigma>) = (t, w') \<Longrightarrow>
     cap_step api fvID ttl hooks \<sigma> (\<sigma>\<lparr>cs_world := w'\<rparr>)"
| c_sweep: "\<not> (leaseLive (CaptureLeaseExpiry (cfs_status obj)) (cs_clock \<sigma>) \<and> CaptureOwner (cfs_status obj) \<noteq> [] \<and>
       (CaptureOwner (cfs_status obj), CaptureOwnerUID (cfs_status obj)) \<in> cs_alive \<sigma>) \<Longrightarrow>
     writeStatus api fvID (warmUpdate hash now) (sweepToken obj) (cs_world \<sigma>) = (t, w') \<Longrightarrow>
     cap_step api fvID ttl hooks \<sigma> (\<sigma>\<lparr>cs_world := w'\<rparr>)"
| c_pioneer: "TryClaimColdStartPioneer api fvID owner lease now (cs_world \<sigma>) = (r, w') \<Longrightarrow>
     cap_step api fvID ttl hooks \<sigma> (\<sigma>\<lparr>cs_world := w'\<rparr>)"
| c_lookup: "writeWorkloadLookup api fvID img model (cs_world \<sigma>) = (t, w') \<Longrightarrow>
     cap_step api fvID ttl hooks \<sigma> (\<sigma>\<lparr>cs_world := w'\<rparr>)"
| c_tick: "cs_clock \<sigma> \<le> now \<Longrightarrow> cap_step api fvID ttl hooks \<sigma> (\<sigma>\<lparr>cs_clock := now\<rparr>)"
| c_die: "cap_step api fvID ttl hooks \<sigma> (\<sigma>\<lparr>cs_alive := cs_alive \<sigma> - {p}\<rparr>)"
| c_hook_see: "hooks \<Longrightarrow> api_Get api fvID (cs_world \<sigma>) = (Inr cur, w') \<Longrightarrow>
     LocalCacheState (cfs_status cur) = LocalCacheStateWarm \<Longrightarrow> CheckpointHash (cfs_status cur) \<noteq> [] \<Longrightarrow>
     cap_step api fvID ttl hooks \<sigma> (\<sigma>\<lparr>cs_world := w', cs_resets := cs_resets \<sigma> + 1\<rparr>)"
| c_hook_reset: "hooks \<Longrightarrow> 0 < cs_resets \<sigma> \<Longrightarrow> resetCFSToCold api fvID (cs_world \<sigma>) = (t, w') \<Longrightarrow>
     cap_step api fvID ttl hooks \<sigma> (\<sigma>\<lparr>cs_world := w', cs_resets := cs_resets \<sigma> - 1\<rparr>)"
| c_hook_warm: "hooks \<Longrightarrow> markCFSWarmFromLookup api fvID hash now (cs_world \<sigma>) = (t, w') \<Longrightarrow>
     cap_step api fvID ttl hooks \<sigma> (\<sigma>\<lparr>cs_world := w'\<rparr>)"

inductive cap_reach :: "'w CFSApi \<Rightarrow> string \<Rightarrow> int \<Rightarrow> bool \<Rightarrow> 'w \<Rightarrow> 'w cap_sys \<Rightarrow> bool" for api fvID ttl hooks w0 where
  cr_init: "cap_reach api fvID ttl hooks w0
     \<lparr>cs_world = w0, cs_clock = t0, cs_alive = UNIV, cs_pc = (\<lambda>_. PcIdle), cs_resets = 0\<rparr>"
| cr_step: "cap_reach api fvID ttl hooks w0 \<sigma> \<Longrightarrow> cap_step api fvID ttl hooks \<sigma> \<sigma>' \<Longrightarrow> cap_reach api fvID ttl hooks w0 \<sigma>'"

text \<open>A pod is really capturing: it holds a claim, its lease has not run out and it is alive.\<close>

definition capturing :: "'w cap_sys \<Rightarrow> pod \<Rightarrow> int \<Rightarrow> bool" where
  "capturing \<sigma> p l \<longleftrightarrow> cs_pc \<sigma> p = PcCapturing l \<and> p \<in> cs_alive \<sigma> \<and> cs_clock \<sigma> < l"

section \<open>The invariant\<close>

definition owned :: "cfsStatus \<Rightarrow> pod \<Rightarrow> int \<Rightarrow> bool" where
  "owned st p l \<longleftrightarrow>
     LocalCacheState st = LocalCacheStateCapturing \<and> CaptureOwner st = fst p \<and> CaptureOwnerUID st = snd p \<and>
     CaptureLeaseExpiry st = Some l"

definition closed_warm :: "cfsStatus \<Rightarrow> bool" where
  "closed_warm st \<longleftrightarrow> LocalCacheState st = LocalCacheStateWarm \<and> CaptureOwner st = []"

text \<open>An object read earlier: the current one has a later version, or is the same.\<close>

definition seen :: "CFS option \<Rightarrow> CFS \<Rightarrow> bool" where
  "seen m cur \<longleftrightarrow>
     (\<exists>obj. m = Some obj \<and> cfs_version cur \<le> cfs_version obj \<and> (cfs_version cur = cfs_version obj \<longrightarrow> obj = cur))"

definition claim_safe :: "'w cap_sys \<Rightarrow> pod \<Rightarrow> cfsStatus \<Rightarrow> bool" where
  "claim_safe \<sigma> p st \<longleftrightarrow>
     LocalCacheState st \<noteq> LocalCacheStateWarm \<and>
     (\<forall>q l. q \<noteq> p \<and> validPod q \<and> q \<in> cs_alive \<sigma> \<and> cs_clock \<sigma> < l \<longrightarrow> \<not> owned st q l)"

definition pc_ok :: "CFS option \<Rightarrow> 'w cap_sys \<Rightarrow> pod \<Rightarrow> cap_pc \<Rightarrow> bool" where
  "pc_ok m \<sigma> p pc =
     (case pc of
        PcIdle \<Rightarrow> True
      | PcRead cur now \<Rightarrow> validPod p \<and> seen m cur \<and> now \<le> cs_clock \<sigma>
      | PcClaim cur lease \<Rightarrow> validPod p \<and> seen m cur \<and> claim_safe \<sigma> p (cfs_status cur)
      | PcCapturing l \<Rightarrow> validPod p
      | PcClose cur upd \<Rightarrow> validPod p \<and> seen m cur \<and> fencePasses (podToken p) cur)"

definition cap_inv :: "CFS option \<Rightarrow> 'w cap_sys \<Rightarrow> bool" where
  "cap_inv m \<sigma> \<longleftrightarrow>
     (\<forall>p. pc_ok m \<sigma> p (cs_pc \<sigma> p)) \<and>
     (\<forall>p l. capturing \<sigma> p l \<longrightarrow> (\<exists>obj. m = Some obj \<and> (owned (cfs_status obj) p l \<or> closed_warm (cfs_status obj)))) \<and>
     (\<forall>p q l l'. capturing \<sigma> p l \<and> capturing \<sigma> q l' \<longrightarrow> p = q)"

lemma cap_invI:
  assumes "\<And>p. pc_ok m \<sigma> p (cs_pc \<sigma> p)"
    and "\<And>p l. capturing \<sigma> p l \<Longrightarrow> \<exists>obj. m = Some obj \<and> (owned (cfs_status obj) p l \<or> closed_warm (cfs_status obj))"
    and "\<And>p q l l'. capturing \<sigma> p l \<Longrightarrow> capturing \<sigma> q l' \<Longrightarrow> p = q"
  shows "cap_inv m \<sigma>"
  unfolding cap_inv_def by (intro conjI allI impI; (elim conjE)?; rule assms; assumption)

lemma cap_invD:
  assumes "cap_inv m \<sigma>"
  shows "pc_ok m \<sigma> p (cs_pc \<sigma> p)"
    and "capturing \<sigma> p l \<Longrightarrow> \<exists>obj. m = Some obj \<and> (owned (cfs_status obj) p l \<or> closed_warm (cfs_status obj))"
    and "capturing \<sigma> p l \<Longrightarrow> capturing \<sigma> q l' \<Longrightarrow> p = q"
  using assms unfolding cap_inv_def by (metis, metis, metis)

lemma pioneer_keeps_claim [simp]:
  "owned (pioneerStatus owner lease st) p l = owned st p l" "closed_warm (pioneerStatus owner lease st) = closed_warm st"
  by (simp_all add: owned_def closed_warm_def pioneerStatus_def)

lemma seen_write: "seen (m k) cur \<Longrightarrow> statusWritten m k obj m' \<Longrightarrow> seen (m' k) cur"
  by (auto simp: seen_def statusWritten_def)

lemma seen_current: "m = Some cur \<Longrightarrow> seen m cur"
  by (simp add: seen_def)

text \<open>A write based on an object read earlier finds it unchanged.\<close>

lemma seen_written:
  "seen (m k) cur \<Longrightarrow> cfs_version obj = cfs_version cur \<Longrightarrow> statusWritten m k obj m' \<Longrightarrow> m k = Some cur"
  by (auto simp: seen_def statusWritten_def)

lemma capturing_world [simp]: "capturing (\<sigma>\<lparr>cs_world := w\<rparr>) = capturing \<sigma>"
  "capturing (\<sigma>\<lparr>cs_resets := n\<rparr>) = capturing \<sigma>"
  by (simp_all add: capturing_def fun_eq_iff)

lemma pc_ok_world [simp]: "pc_ok m (\<sigma>\<lparr>cs_world := w\<rparr>) = pc_ok m \<sigma>"
  by (simp add: pc_ok_def claim_safe_def fun_eq_iff split: cap_pc.splits)

lemma pc_ok_pc [simp]: "pc_ok m (\<sigma>\<lparr>cs_pc := f\<rparr>) = pc_ok m \<sigma>"
  by (simp add: pc_ok_def claim_safe_def fun_eq_iff split: cap_pc.splits)

lemma cap_inv_world [simp]: "cap_inv m (\<sigma>\<lparr>cs_world := w\<rparr>) = cap_inv m \<sigma>"
  by (simp add: cap_inv_def)

lemma pc_ok_write: "pc_ok (m k) \<sigma> p pc \<Longrightarrow> statusWritten m k obj m' \<Longrightarrow> pc_ok (m' k) \<sigma> p pc"
  by (auto simp: pc_ok_def intro: seen_write split: cap_pc.splits)

lemma written_status: "statusWritten m k obj m' \<Longrightarrow> \<exists>new. m' k = Some new \<and> cfs_status new = cfs_status obj"
  by (auto simp: statusWritten_def)

text \<open>A write that leaves a capturing pod its claim, or closes it as warm.\<close>

lemma cap_inv_write:
  assumes "cap_inv (m k) \<sigma>" and "statusWritten m k obj m'"
    and "\<And>p l. capturing \<sigma> p l \<Longrightarrow> owned (cfs_status obj) p l \<or> closed_warm (cfs_status obj)"
  shows "cap_inv (m' k) \<sigma>"
  using assms(1,3) written_status [OF assms(2)] unfolding cap_inv_def
  by (metis pc_ok_write [OF _ assms(2)])

text \<open>A change of one program counter that starts no capture.\<close>

lemma cap_inv_pc:
  assumes "cap_inv m \<sigma>" and "pc_ok m \<sigma> p pc" and "\<And>l. pc \<noteq> PcCapturing l"
  shows "cap_inv m (\<sigma>\<lparr>cs_pc := (cs_pc \<sigma>)(p := pc)\<rparr>)"
proof -
  have "capturing (\<sigma>\<lparr>cs_pc := (cs_pc \<sigma>)(p := pc)\<rparr>) q l \<Longrightarrow> capturing \<sigma> q l" for q l
    using assms(3) [of l] by (auto simp: capturing_def split: if_splits)
  note before = this
  show ?thesis
  proof (rule cap_invI)
    fix q
    show "pc_ok m (\<sigma>\<lparr>cs_pc := (cs_pc \<sigma>)(p := pc)\<rparr>) q (cs_pc (\<sigma>\<lparr>cs_pc := (cs_pc \<sigma>)(p := pc)\<rparr>) q)"
      using assms(2) cap_invD(1) [OF assms(1)] by simp
  qed (use before cap_invD(2,3) [OF assms(1)] in metis)+
qed

lemma pc_ok_later:
  "pc_ok m \<sigma> p pc \<Longrightarrow> cs_clock \<sigma> \<le> cs_clock \<sigma>' \<Longrightarrow> cs_alive \<sigma>' \<subseteq> cs_alive \<sigma> \<Longrightarrow> pc_ok m \<sigma>' p pc"
  unfolding pc_ok_def claim_safe_def by (auto split: cap_pc.splits)

lemma cap_inv_later:
  assumes "cap_inv m \<sigma>" and "cs_clock \<sigma> \<le> cs_clock \<sigma>'" and "cs_alive \<sigma>' \<subseteq> cs_alive \<sigma>" and "cs_pc \<sigma>' = cs_pc \<sigma>"
  shows "cap_inv m \<sigma>'"
proof -
  have "capturing \<sigma>' p l \<Longrightarrow> capturing \<sigma> p l" for p l using assms(2-4) by (auto simp: capturing_def)
  with assms show ?thesis unfolding cap_inv_def by (metis pc_ok_later)
qed

lemma cap_inv_world_pc [simp]: "cap_inv m (\<sigma>\<lparr>cs_world := w, cs_pc := f\<rparr>) = cap_inv m (\<sigma>\<lparr>cs_pc := f\<rparr>)"
proof
  show "cap_inv m (\<sigma>\<lparr>cs_world := w, cs_pc := f\<rparr>) \<Longrightarrow> cap_inv m (\<sigma>\<lparr>cs_pc := f\<rparr>)"
    by (erule cap_inv_later) simp_all
  show "cap_inv m (\<sigma>\<lparr>cs_pc := f\<rparr>) \<Longrightarrow> cap_inv m (\<sigma>\<lparr>cs_world := w, cs_pc := f\<rparr>)"
    by (erule cap_inv_later) simp_all
qed

text \<open>With a live claim of another pod, the fence of a token does not pass and a claim is not made.\<close>

lemma fence_excludes:
  "fencePasses (podToken p) cur \<Longrightarrow> validPod p \<Longrightarrow> validPod q \<Longrightarrow> owned (cfs_status cur) q l \<Longrightarrow> q = p"
  by (cases p; cases q) (auto simp: fencePasses_def supersedes_def podToken_def token_empty_def owned_def validPod_def
      split: if_splits)

lemma fence_open: "fencePasses (podToken p) cur \<Longrightarrow> validPod p \<Longrightarrow> \<not> closed_warm (cfs_status cur)"
  by (auto simp: fencePasses_def supersedes_def podToken_def token_empty_def closed_warm_def validPod_def
      split: if_splits)

lemma claimable_safe:
  assumes "captureClaimable (Some f) (fst p) (snd p) now st" and "aliveCheck (cs_alive \<sigma>) f" and "now \<le> cs_clock \<sigma>"
    and "validPod p"
  shows "claim_safe \<sigma> p st"
  using assms unfolding claim_safe_def captureClaimable_def aliveCheck_def sameOwner_def owned_def validPod_def leaseLive_def
  by (auto simp: cache_states split: if_splits)

lemma no_capture_besides:
  assumes "cap_inv (Some cur) \<sigma>" and "claim_safe \<sigma> p (cfs_status cur)" and "capturing \<sigma> q l"
  shows "q = p"
proof (rule ccontr)
  assume "q \<noteq> p"
  have q: "validPod q" "q \<in> cs_alive \<sigma>" "cs_clock \<sigma> < l"
    using cap_invD(1) [OF assms(1), of q] assms(3) by (auto simp: pc_ok_def capturing_def)
  have "owned (cfs_status cur) q l \<or> closed_warm (cfs_status cur)" using cap_invD(2) [OF assms(1,3)] by simp
  with q assms(2) \<open>q \<noteq> p\<close> show False unfolding claim_safe_def closed_warm_def by metis
qed

text \<open>What each operation does to the object, whatever it returns.\<close>

context cfs_api
begin

lemma write_effect: "updateStatusOrSpec api k obj w = (r, w') \<Longrightarrow>
    view w' = view w \<or> statusWritten (view w) k obj (view w')"
  using write_ok write_fail by (cases r) blast+

lemma claimWrite_effect: "claimWrite api k obj w = (r, w') \<Longrightarrow>
    (view w' = view w \<and> r \<noteq> Inr True) \<or> statusWritten (view w) k obj (view w')"
  by (auto simp: claimWrite_def dest: write_ok write_fail split: prod.splits sum.splits api_error.splits)

lemma writeStatus_effect:
  assumes "writeStatus api k upd token w = (r, w')"
  shows "view w' = view w \<or> (\<exists>cur. view w k = Some cur \<and> fencePasses token cur \<and>
    statusWritten (view w) k (cur\<lparr>cfs_status := terminalStatus upd (cfs_status cur)\<rparr>) (view w'))"
proof -
  obtain g w1 where g: "api_Get api k w = (g, w1)" by force
  note f = get_frame [OF g]
  show ?thesis
  proof (cases g)
    case (Inl e)
    with assms g f show ?thesis by (auto simp: writeStatus_def)
  next
    case (Inr cur)
    with get_ok g have "view w k = Some cur" by blast
    with assms g f Inr show ?thesis
      by (auto simp: writeStatus_def dest!: write_effect split: if_splits prod.splits sum.splits)
  qed
qed

lemma pioneer_effect:
  assumes "TryClaimColdStartPioneer api k owner lease now w = (r, w')"
  shows "view w' = view w \<or> (\<exists>cur. view w k = Some cur \<and>
    statusWritten (view w) k (cur\<lparr>cfs_status := pioneerStatus owner lease (cfs_status cur)\<rparr>) (view w'))"
proof -
  obtain g w1 where g: "api_Get api k w = (g, w1)" by force
  note f = get_frame [OF g]
  show ?thesis
  proof (cases g)
    case (Inl e)
    with assms g f show ?thesis by (auto simp: TryClaimColdStartPioneer_def)
  next
    case (Inr cur)
    with get_ok g have "view w k = Some cur" by blast
    with assms g f Inr show ?thesis
      by (auto simp: TryClaimColdStartPioneer_def dest!: claimWrite_effect split: if_splits)
  qed
qed

lemma lookup_effect:
  assumes "writeWorkloadLookup api k img model w = (r, w')"
  shows "view w' = view w \<or> (\<exists>cur. view w k = Some cur \<and>
    statusWritten (view w) k (cur\<lparr>cfs_imageRef := img, cfs_modelId := model\<rparr>) (view w'))"
proof (cases "img = []")
  case True
  with assms show ?thesis by (simp add: writeWorkloadLookup_def)
next
  case False
  obtain g w1 where g: "api_Get api k w = (g, w1)" by force
  note f = get_frame [OF g]
  show ?thesis
  proof (cases g)
    case (Inl e)
    with assms g f False show ?thesis by (auto simp: writeWorkloadLookup_def)
  next
    case (Inr cur)
    with get_ok g have "view w k = Some cur" by blast
    with assms g f Inr False show ?thesis
      by (auto simp: writeWorkloadLookup_def dest: update_ok update_fail split: if_splits prod.splits sum.splits)
  qed
qed

end

section \<open>Every step keeps the invariant\<close>

context cfs_api
begin

text \<open>The object of the function version and the invariant on it.\<close>

lemma inv_get:
  assumes "cap_inv (view (cs_world \<sigma>) fvID) \<sigma>" and "api_Get api fvID (cs_world \<sigma>) = (Inr cur, w')"
    and "\<And>l. pc \<noteq> PcCapturing l" and "pc_ok (Some cur) \<sigma> p pc"
  shows "cap_inv (view w' fvID) (\<sigma>\<lparr>cs_world := w', cs_pc := (cs_pc \<sigma>)(p := pc)\<rparr>)"
proof -
  have v: "view w' fvID = Some cur" "view (cs_world \<sigma>) fvID = Some cur"
    using get_ok [OF assms(2)] get_frame [OF assms(2)] by simp_all
  then have "cap_inv (Some cur) (\<sigma>\<lparr>cs_pc := (cs_pc \<sigma>)(p := pc)\<rparr>)"
    using assms(1,3,4) by (intro cap_inv_pc) simp_all
  with v show ?thesis by simp
qed

lemma inv_write:
  assumes "cap_inv (view (cs_world \<sigma>) fvID) \<sigma>"
    and "view w' = view (cs_world \<sigma>) \<or> statusWritten (view (cs_world \<sigma>)) fvID obj (view w')"
    and "\<And>p l. capturing \<sigma> p l \<Longrightarrow> owned (cfs_status obj) p l \<or> closed_warm (cfs_status obj)"
  shows "cap_inv (view w' fvID) (\<sigma>\<lparr>cs_world := w'\<rparr>)"
  using assms(2) cap_inv_write [where m = "view (cs_world \<sigma>)" and k = fvID, OF assms(1) _ assms(3)] assms(1) by auto

lemma inv_warm:
  assumes "cap_inv (view (cs_world \<sigma>) fvID) \<sigma>"
    and "statusWritten (view (cs_world \<sigma>)) fvID (cur\<lparr>cfs_status := terminalStatus (warmUpdate hash now) st\<rparr>) (view w')"
  shows "cap_inv (view w' fvID) \<sigma>"
  using inv_write [OF assms(1) disjI2 [OF assms(2)]] by (simp add: closed_warm_def terminalStatus_def warmUpdate_def)

lemma inv_claim:
  assumes "cap_inv (view (cs_world \<sigma>) fvID) \<sigma>" and "cs_pc \<sigma> p = PcClaim cur lease"
    and "claimWrite api fvID (cur\<lparr>cfs_status := claimStatus (fst p) (snd p) lease (cfs_status cur)\<rparr>) (cs_world \<sigma>) = (r, w')"
  shows "cap_inv (view w' fvID)
    (\<sigma>\<lparr>cs_world := w', cs_pc := (cs_pc \<sigma>)(p := (if r = Inr True then PcCapturing (rfc3339 lease) else PcIdle))\<rparr>)"
    (is "cap_inv _ ?\<tau>")
proof -
  have ok: "validPod p" "seen (view (cs_world \<sigma>) fvID) cur" "claim_safe \<sigma> p (cfs_status cur)"
    using cap_invD(1) [OF assms(1), of p] assms(2) by (simp_all add: pc_ok_def)
  from claimWrite_effect [OF assms(3)] show ?thesis
  proof
    assume unchanged: "view w' = view (cs_world \<sigma>) \<and> r \<noteq> Inr True"
    then have "cap_inv (view w' fvID) (\<sigma>\<lparr>cs_pc := (cs_pc \<sigma>)(p := PcIdle)\<rparr>)"
      using assms(1) by (intro cap_inv_pc) (simp_all add: pc_ok_def)
    with unchanged show ?thesis by simp
  next
    assume w: "statusWritten (view (cs_world \<sigma>)) fvID (cur\<lparr>cfs_status := claimStatus (fst p) (snd p) lease (cfs_status cur)\<rparr>) (view w')"
    then have cur: "view (cs_world \<sigma>) fvID = Some cur" using seen_written [OF ok(2) _ w] by simp
    obtain new where new: "view w' fvID = Some new" "cfs_status new = claimStatus (fst p) (snd p) lease (cfs_status cur)"
      using written_status [OF w] by auto
    have only: "q = p \<and> l = rfc3339 lease" if "capturing ?\<tau> q l" for q l
    proof (cases "q = p")
      case True
      with that show ?thesis by (auto simp: capturing_def split: if_splits)
    next
      case False
      with that have "capturing \<sigma> q l" by (simp add: capturing_def)
      with no_capture_besides [OF assms(1)[unfolded cur] ok(3)] False show ?thesis by blast
    qed
    show ?thesis
    proof (rule cap_invI)
      fix q
      show "pc_ok (view w' fvID) ?\<tau> q (cs_pc ?\<tau> q)"
      proof (cases "q = p")
        case True
        with ok(1) show ?thesis by (simp add: pc_ok_def)
      next
        case False
        from pc_ok_write [of "view (cs_world \<sigma>)" fvID, OF cap_invD(1) [OF assms(1), of q] w] False show ?thesis
          by (simp add: pc_ok_def claim_safe_def split: cap_pc.splits)
      qed
    next
      fix q l assume "capturing ?\<tau> q l"
      from only [OF this] new show "\<exists>obj. view w' fvID = Some obj \<and> (owned (cfs_status obj) q l \<or> closed_warm (cfs_status obj))"
        by (simp add: owned_def claimStatus_def)
    qed (use only in metis)
  qed
qed

lemma inv_close:
  assumes "cap_inv (view (cs_world \<sigma>) fvID) \<sigma>" and "cs_pc \<sigma> p = PcClose cur upd"
    and "updateStatusOrSpec api fvID (cur\<lparr>cfs_status := terminalStatus upd (cfs_status cur)\<rparr>) (cs_world \<sigma>) = (s, w')"
  shows "cap_inv (view w' fvID) (\<sigma>\<lparr>cs_world := w', cs_pc := (cs_pc \<sigma>)(p := PcIdle)\<rparr>)"
proof -
  have ok: "validPod p" "seen (view (cs_world \<sigma>) fvID) cur" "fencePasses (podToken p) cur"
    using cap_invD(1) [OF assms(1), of p] assms(2) by (simp_all add: pc_ok_def)
  have none: False if "capturing \<sigma> q l" and cur: "view (cs_world \<sigma>) fvID = Some cur" for q l
  proof -
    have "q \<noteq> p" and "validPod q"
      using that cap_invD(1) [OF assms(1), of q] assms(2) by (auto simp: capturing_def pc_ok_def)
    then show False
      using cap_invD(2) [OF assms(1) that(1)] cur fence_excludes [OF ok(3,1)] fence_open [OF ok(3,1)] by auto
  qed
  have "cap_inv (view w' fvID) (\<sigma>\<lparr>cs_world := w'\<rparr>)"
  proof (cases "view w' = view (cs_world \<sigma>)")
    case True
    with assms(1) show ?thesis by simp
  next
    case False
    with write_effect [OF assms(3)]
    have w: "statusWritten (view (cs_world \<sigma>)) fvID (cur\<lparr>cfs_status := terminalStatus upd (cfs_status cur)\<rparr>) (view w')" by blast
    have "view (cs_world \<sigma>) fvID = Some cur" using seen_written [OF ok(2) _ w] by simp
    with none cap_inv_write [OF assms(1) w] show ?thesis by auto
  qed
  from cap_inv_pc [OF this, of p PcIdle] show ?thesis by (simp add: pc_ok_def)
qed

lemma cap_step_inv:
  assumes "cap_step api fvID ttl False \<sigma> \<sigma>'" and "cap_inv (view (cs_world \<sigma>) fvID) \<sigma>"
  shows "cap_inv (view (cs_world \<sigma>') fvID) \<sigma>'"
  using assms
proof (induction rule: cap_step.induct)
  case (c_read p \<sigma> now cur w')
  then show ?case using inv_get [of \<sigma> fvID cur w' "PcRead cur now" p] by (simp add: pc_ok_def seen_current)
next
  case (c_decide \<sigma> p cur now f)
  have "validPod p" "seen (view (cs_world \<sigma>) fvID) cur" "now \<le> cs_clock \<sigma>"
    using cap_invD(1) [OF c_decide(4), of p] c_decide(1) by (simp_all add: pc_ok_def)
  with claimable_safe [OF c_decide(3,2)] cap_inv_pc [OF c_decide(4), of p "PcClaim cur (now + ttl)"] show ?case
    by (simp add: pc_ok_def)
next
  case (c_claim \<sigma> p cur lease r w')
  then show ?case using inv_claim [of \<sigma> fvID p cur lease r w'] by simp
next
  case (c_close_read \<sigma> p l cur w' upd)
  have "validPod p" using cap_invD(1) [OF c_close_read(4), of p] c_close_read(1) by (simp add: pc_ok_def)
  with c_close_read show ?case using inv_get [of \<sigma> fvID cur w' "PcClose cur upd" p] by (simp add: pc_ok_def seen_current)
next
  case (c_close_write \<sigma> p cur upd s w')
  then show ?case using inv_close [of \<sigma> fvID p cur upd s w'] by simp
next
  case (c_abandon \<sigma> p)
  then show ?case using cap_inv_pc [of "view (cs_world \<sigma>) fvID" \<sigma> p PcIdle] by (simp add: pc_ok_def)
next
  case (c_recover hash now \<sigma> t w')
  show ?case using writeStatus_effect [OF c_recover(1)] inv_warm [OF c_recover(2)] c_recover(2) by auto
next
  case (c_sweep obj \<sigma> hash now t w')
  show ?case using writeStatus_effect [OF c_sweep(2)] inv_warm [OF c_sweep(3)] c_sweep(3) by auto
next
  case (c_pioneer owner lease now \<sigma> r w')
  from pioneer_effect [OF c_pioneer(1)] show ?case
  proof
    assume "view w' = view (cs_world \<sigma>)"
    with c_pioneer(2) show ?thesis by simp
  next
    assume "\<exists>cur. view (cs_world \<sigma>) fvID = Some cur \<and>
      statusWritten (view (cs_world \<sigma>)) fvID (cur\<lparr>cfs_status := pioneerStatus owner lease (cfs_status cur)\<rparr>) (view w')"
    then obtain cur where cur: "view (cs_world \<sigma>) fvID = Some cur"
      and w: "statusWritten (view (cs_world \<sigma>)) fvID (cur\<lparr>cfs_status := pioneerStatus owner lease (cfs_status cur)\<rparr>) (view w')" by blast
    from inv_write [OF c_pioneer(2) disjI2 [OF w]] cap_invD(2) [OF c_pioneer(2)] cur show ?thesis by simp
  qed
next
  case (c_lookup img model \<sigma> t w')
  from lookup_effect [OF c_lookup(1)] show ?case
  proof
    assume "view w' = view (cs_world \<sigma>)"
    with c_lookup(2) show ?thesis by simp
  next
    assume "\<exists>cur. view (cs_world \<sigma>) fvID = Some cur \<and>
      statusWritten (view (cs_world \<sigma>)) fvID (cur\<lparr>cfs_imageRef := img, cfs_modelId := model\<rparr>) (view w')"
    then obtain cur where cur: "view (cs_world \<sigma>) fvID = Some cur"
      and w: "statusWritten (view (cs_world \<sigma>)) fvID (cur\<lparr>cfs_imageRef := img, cfs_modelId := model\<rparr>) (view w')" by blast
    from inv_write [OF c_lookup(2) disjI2 [OF w]] cap_invD(2) [OF c_lookup(2)] cur show ?thesis by simp
  qed
next
  case (c_tick \<sigma> now)
  then show ?case using cap_inv_later [OF c_tick(2), of "\<sigma>\<lparr>cs_clock := now\<rparr>"] by simp
next
  case (c_die \<sigma> p)
  then show ?case using cap_inv_later [OF c_die(1), of "\<sigma>\<lparr>cs_alive := cs_alive \<sigma> - {p}\<rparr>"] by auto
qed simp_all

lemma cap_reach_inv: "cap_reach api fvID ttl False w0 \<sigma> \<Longrightarrow> cap_inv (view (cs_world \<sigma>) fvID) \<sigma>"
proof (induction rule: cap_reach.induct)
  case (cr_init t0)
  show ?case by (rule cap_invI) (simp_all add: pc_ok_def capturing_def)
next
  case (cr_step \<sigma> \<sigma>')
  then show ?case using cap_step_inv by blast
qed

end

section \<open>Properties\<close>

text \<open>
  C2. Capture once: over an API server with optimistic concurrency, in every state the reconciles
  and the recovery, sweep, pioneer and spec writes can reach, whatever their interleaving, failures
  and restarts, at most one pod of a function version captures: two pods that hold a claim, are
  alive and whose leases have not run out are the same pod.
\<close>

theorem capture_once:
  assumes "cfs_api api view" and "cap_reach api fvID ttl False w0 \<sigma>"
    and "capturing \<sigma> p l" and "capturing \<sigma> q l'"
  shows "p = q"
  using cap_invD(3) [OF cfs_api.cap_reach_inv [OF assms(1,2)] assms(3,4)] .

text \<open>The states of two pods that race for a warm function whose artifact is gone.\<close>

definition race_obj :: "nat \<Rightarrow> cfsStatus \<Rightarrow> CFS" where
  "race_obj v st = freshCFS\<lparr>cfs_version := v, cfs_status := st\<rparr>"

definition race_world :: "nat \<Rightarrow> cfsStatus \<Rightarrow> memServer" where
  "race_world v st = \<lparr>ms_objs = [''fv'' \<mapsto> race_obj v st], ms_pods = []\<rparr>"

definition race_sys :: "nat \<Rightarrow> cfsStatus \<Rightarrow> (pod \<Rightarrow> cap_pc) \<Rightarrow> nat \<Rightarrow> memServer cap_sys" where
  "race_sys v st pcs n =
     \<lparr>cs_world = race_world v st, cs_clock = 0, cs_alive = UNIV, cs_pc = pcs, cs_resets = n\<rparr>"

definition warm0 :: cfsStatus where
  "warm0 = emptyStatus\<lparr>LocalCacheState := LocalCacheStateWarm, CheckpointHash := ''h''\<rparr>"

abbreviation podA :: pod where "podA \<equiv> (''ns/a'', ''1'')"
abbreviation podB :: pod where "podB \<equiv> (''ns/b'', ''2'')"

lemma race_get: "api_Get memApi ''fv'' (race_world v st) = (Inr (race_obj v st), race_world v st)"
  by (simp add: memApi_def race_world_def)

lemma race_put:
  "updateStatusOrSpec memApi ''fv'' (race_obj v st') (race_world v st) = (Inr (), race_world (v + 1) st')"
  by (simp add: updateStatusOrSpec_def memApi_def mem_put_def race_world_def race_obj_def freshCFS_def)

lemma race_obj_status [simp]:
  "cfs_status (race_obj v st) = st" "(race_obj v st)\<lparr>cfs_status := st'\<rparr> = race_obj v st'"
  by (simp_all add: race_obj_def)

lemma race_claim_steps:
  assumes "cap_reach memApi ''fv'' ttl hooks w0 (race_sys v st pcs n)" and "validPod p" and "pcs p = PcIdle"
    and "captureClaimable (Some (\<lambda>_ _. True)) (fst p) (snd p) 0 st"
  shows "cap_reach memApi ''fv'' ttl hooks w0
    (race_sys (v + 1) (claimStatus (fst p) (snd p) ttl st) (pcs(p := PcCapturing (rfc3339 ttl))) n)"
proof -
  let ?\<sigma>1 = "race_sys v st (pcs(p := PcRead (race_obj v st) 0)) n"
  let ?\<sigma>2 = "race_sys v st (pcs(p := PcClaim (race_obj v st) (0 + ttl))) n"
  have s1: "cap_step memApi ''fv'' ttl hooks (race_sys v st pcs n) ?\<sigma>1"
    using c_read [OF assms(2), of "race_sys v st pcs n" 0 memApi "''fv''" "race_obj v st" "race_world v st" ttl hooks]
      assms(3) race_get by (simp add: race_sys_def)
  have s2: "cap_step memApi ''fv'' ttl hooks ?\<sigma>1 ?\<sigma>2"
    using c_decide [of ?\<sigma>1 p "race_obj v st" 0 "\<lambda>_ _. True" memApi "''fv''" ttl hooks] assms(4)
    by (simp add: race_sys_def aliveCheck_def)
  have s3: "cap_step memApi ''fv'' ttl hooks ?\<sigma>2
      (race_sys (v + 1) (claimStatus (fst p) (snd p) ttl st) (pcs(p := PcCapturing (rfc3339 ttl))) n)"
    using c_claim [of ?\<sigma>2 p "race_obj v st" ttl memApi "''fv''" "Inr True" "race_world (v + 1) (claimStatus (fst p) (snd p) ttl st)"]
      race_put [of v "claimStatus (fst p) (snd p) ttl st" st]
    by (simp add: race_sys_def claimWrite_def)
  show ?thesis by (rule cr_step [OF cr_step [OF cr_step [OF assms(1) s1] s2] s3])
qed

lemma race_see:
  assumes "cap_reach memApi ''fv'' ttl True w0 (race_sys v warm0 pcs n)"
  shows "cap_reach memApi ''fv'' ttl True w0 (race_sys v warm0 pcs (n + 1))"
proof -
  have "cap_step memApi ''fv'' ttl True (race_sys v warm0 pcs n) (race_sys v warm0 pcs (n + 1))"
    using c_hook_see [of True memApi "''fv''" "race_sys v warm0 pcs n" "race_obj v warm0" "race_world v warm0" ttl] race_get
    by (simp add: race_sys_def warm0_def)
  with assms show ?thesis by (rule cr_step)
qed

lemma race_reset:
  assumes "cap_reach memApi ''fv'' ttl True w0 (race_sys v st pcs (n + 1))"
  shows "cap_reach memApi ''fv'' ttl True w0 (race_sys (v + 1) (resetStatus st) pcs n)"
proof -
  have "resetCFSToCold memApi ''fv'' (race_world v st) = (Inr (), race_world (v + 1) (resetStatus st))"
    by (simp add: resetCFSToCold_def hookWrite_def race_get race_put)
  then have "cap_step memApi ''fv'' ttl True (race_sys v st pcs (n + 1)) (race_sys (v + 1) (resetStatus st) pcs n)"
    using c_hook_reset [of True "race_sys v st pcs (n + 1)" memApi "''fv''" "Inr ()"] by (simp add: race_sys_def)
  with assms show ?thesis by (rule cr_step)
qed

text \<open>
  C34. The admission hook breaks it. \<open>resetCFSToCold\<close> re-reads the object but not whether it is still
  warm, and leaves the claim fields alone; two admissions that both saw the stale warm state reset it
  one after the other, and when a pod has claimed the capture in between, the second reset makes
  the claimed function cold again. A second pod then claims it and both capture at once: both are
  alive and hold unexpired leases.
\<close>

theorem stale_reset_breaks_capture_once:
  "\<exists>\<sigma> l. cap_reach memApi ''fv'' (60 * second) True (race_world 1 warm0) \<sigma> \<and>
     capturing \<sigma> podA l \<and> capturing \<sigma> podB l \<and> podA \<noteq> podB"
proof -
  let ?t = "60 * second" and ?w = "race_world 1 warm0"
  let ?s1 = "resetStatus warm0"
  let ?s2 = "claimStatus ''ns/a'' ''1'' ?t ?s1"
  let ?s4 = "claimStatus ''ns/b'' ''2'' ?t (resetStatus ?s2)"
  let ?pa = "(\<lambda>_. PcIdle)(podA := PcCapturing (rfc3339 ?t))"
  let ?pb = "?pa(podB := PcCapturing (rfc3339 ?t))"
  have "cap_reach memApi ''fv'' ?t True ?w (race_sys 1 warm0 (\<lambda>_. PcIdle) 0)"
    using cr_init [of memApi "''fv''" ?t True ?w 0] by (simp add: race_sys_def)
  from race_see [OF race_see [OF this]]
  have "cap_reach memApi ''fv'' ?t True ?w (race_sys 1 warm0 (\<lambda>_. PcIdle) (1 + 1))" by simp
  from race_reset [OF this] have "cap_reach memApi ''fv'' ?t True ?w (race_sys (1 + 1) ?s1 (\<lambda>_. PcIdle) 1)" .
  from race_claim_steps [OF this, of podA]
  have "cap_reach memApi ''fv'' ?t True ?w (race_sys (1 + 1 + 1) ?s2 ?pa (0 + 1))"
    by (simp add: validPod_def captureClaimable_def resetStatus_def cache_states)
  from race_claim_steps [OF race_reset [OF this], of podB]
  have r: "cap_reach memApi ''fv'' ?t True ?w (race_sys (1 + 1 + 1 + 1 + 1) ?s4 ?pb 0)"
    by (simp add: validPod_def captureClaimable_def resetStatus_def cache_states)
  have "capturing (race_sys (1 + 1 + 1 + 1 + 1) ?s4 ?pb 0) podA (rfc3339 ?t)"
    "capturing (race_sys (1 + 1 + 1 + 1 + 1) ?s4 ?pb 0) podB (rfc3339 ?t)"
    by (simp_all add: capturing_def race_sys_def rfc3339_def second_def)
  with r show ?thesis by blast
qed

theorem capture_once_witness:
  "\<exists>\<sigma>. cap_reach memApi ''fv'' (60 * second) False (race_world 1 (resetStatus warm0)) \<sigma> \<and>
     capturing \<sigma> podA (rfc3339 (60 * second)) \<and> (\<forall>q l. capturing \<sigma> q l \<longrightarrow> q = podA)"
proof -
  let ?t = "60 * second" and ?s = "resetStatus warm0"
  let ?w = "race_world 1 ?s"
  have "cap_reach memApi ''fv'' ?t False ?w (race_sys 1 ?s (\<lambda>_. PcIdle) 0)"
    using cr_init [of memApi "''fv''" ?t False ?w 0] by (simp add: race_sys_def)
  from race_claim_steps [OF this, of podA]
  have r: "cap_reach memApi ''fv'' ?t False ?w
      (race_sys (1 + 1) (claimStatus ''ns/a'' ''1'' ?t ?s) ((\<lambda>_. PcIdle)(podA := PcCapturing (rfc3339 ?t))) 0)"
    by (simp add: validPod_def captureClaimable_def resetStatus_def cache_states)
  have c: "capturing (race_sys (1 + 1) (claimStatus ''ns/a'' ''1'' ?t ?s) ((\<lambda>_. PcIdle)(podA := PcCapturing (rfc3339 ?t))) 0)
      podA (rfc3339 ?t)"
    by (simp add: capturing_def race_sys_def rfc3339_def second_def)
  show ?thesis using r c capture_once [OF mem.cfs_api_axioms r _ c] by blast
qed

end
