(* ===== verification/NvSnapReconcile.thy ===== *)
theory NvSnapReconcile
  imports CaptureOnce
begin

text \<open>
  The handlers of the NvSnap integration: one reconcile of a pod (\<open>reconciler/reconciler.go\<close>), the
  recovery of existing captures (\<open>recover.go\<close>), the sweep (\<open>sweep.go\<close>) and the cold-start gate
  (\<open>nvsnap_coldstart_gate.go\<close>).

  The calls a handler makes of Kubernetes, of the nvsnap server and of the clock are the fields of
  an environment record; each acts on the world. Spans, logs and metrics are left out. A polling
  loop runs until its context ends: the number of ticks before that is an argument of the loop,
  and it is finite since the context has a deadline.
\<close>

section \<open>Pods, captures and the environment\<close>

record container =
  ct_Name :: string
  ct_Image :: string
  ct_GPU :: bool
  ct_Env :: "(string \<times> string) list"
  ct_Args :: "string list"

record kpod =
  kp_Namespace :: string
  kp_Name :: string
  kp_UID :: string
  kp_Annotations :: "string \<Rightarrow> string option"
  kp_Conditions :: "(string \<times> string) list"
  kp_Containers :: "container list"
  kp_Terminating :: bool
  kp_Phase :: string

datatype snap_error = APIError int | TransportError string

record Checkpoint =
  ck_ID :: string
  ck_Phase :: string
  ck_Hash :: string
  ck_Error :: string

record LookupMatch =
  lm_Hash :: string

record 'w nvsnap_env =
  ne_api :: "'w CFSApi"
  ne_now :: "'w \<Rightarrow> int"
  ne_getPod :: "string \<Rightarrow> string \<Rightarrow> 'w \<Rightarrow> api_error + kpod"
  ne_dropAnnotation :: "string \<Rightarrow> string \<Rightarrow> 'w \<Rightarrow> (api_error + unit) \<times> 'w"
  ne_CreateCheckpoint :: "string \<Rightarrow> string \<Rightarrow> string \<Rightarrow> 'w \<Rightarrow> (snap_error + Checkpoint) \<times> 'w"
  ne_GetCheckpoint :: "string \<Rightarrow> 'w \<Rightarrow> (snap_error + Checkpoint) \<times> 'w"
  ne_GetPVCPromoteState :: "string \<Rightarrow> 'w \<Rightarrow> (snap_error + string) \<times> 'w"
  ne_LookupCheckpoints :: "string \<Rightarrow> string \<Rightarrow> 'w \<Rightarrow> (snap_error + LookupMatch list) \<times> 'w"
  ne_dwell :: "int \<Rightarrow> 'w \<Rightarrow> bool \<times> 'w"
  ne_ticks :: "int \<Rightarrow> int \<Rightarrow> 'w \<Rightarrow> nat"

record Reconciler =
  rc_InferenceContainerName :: string
  rc_WarmupBuffer :: int
  rc_CheckpointPollInterval :: int
  rc_CheckpointTimeout :: int
  rc_PromotePollInterval :: int
  rc_PromotePollTimeout :: int
  rc_CaptureLeaseTTL :: int

definition defaultWarmupBuffer :: int where "defaultWarmupBuffer = 10 * second"

text \<open>The fields are filled in order; the lease is derived from those set before it.\<close>

definition resolveDefaults :: "Reconciler \<Rightarrow> Reconciler" where
  "resolveDefaults r =
     (let r = (if rc_InferenceContainerName r = [] then r\<lparr>rc_InferenceContainerName := ''inference''\<rparr> else r);
          r = (if rc_WarmupBuffer r = 0 then r\<lparr>rc_WarmupBuffer := defaultWarmupBuffer\<rparr> else r);
          r = (if rc_CheckpointPollInterval r = 0 then r\<lparr>rc_CheckpointPollInterval := 5 * second\<rparr> else r);
          r = (if rc_CheckpointTimeout r = 0 then r\<lparr>rc_CheckpointTimeout := 30 * 60 * second\<rparr> else r);
          r = (if rc_PromotePollInterval r = 0 then r\<lparr>rc_PromotePollInterval := 5 * second\<rparr> else r);
          r = (if rc_PromotePollTimeout r = 0 then r\<lparr>rc_PromotePollTimeout := 15 * 60 * second\<rparr> else r)
      in if rc_CaptureLeaseTTL r = 0
         then r\<lparr>rc_CaptureLeaseTTL := rc_WarmupBuffer r + rc_CheckpointTimeout r + rc_PromotePollTimeout r + 5 * 60 * second\<rparr>
         else r)"

definition DefaultColdStartPioneerLeaseTTL :: int where
  "DefaultColdStartPioneerLeaseTTL = defaultWarmupBuffer + 30 * 60 * second + 15 * 60 * second + 5 * 60 * second"

section \<open>Helpers\<close>

fun podReadyConditions :: "(string \<times> string) list \<Rightarrow> bool" where
  "podReadyConditions [] = False"
| "podReadyConditions ((ty, status) # cs) = (if ty = ''Ready'' then status = ''True'' else podReadyConditions cs)"

definition podReady :: "kpod option \<Rightarrow> bool" where
  "podReady pod = (case pod of None \<Rightarrow> False | Some p \<Rightarrow> podReadyConditions (kp_Conditions p))"

definition findInferenceContainer :: "kpod option \<Rightarrow> string \<Rightarrow> container option" where
  "findInferenceContainer pod name =
     (case pod of
        None \<Rightarrow> None
      | Some p \<Rightarrow>
          (case List.find (\<lambda>c. ct_Name c = name) (kp_Containers p) of
             Some c \<Rightarrow> Some c
           | None \<Rightarrow>
               (case List.find ct_GPU (kp_Containers p) of
                  Some c \<Rightarrow> Some c
                | None \<Rightarrow> (case kp_Containers p of [] \<Rightarrow> None | c # _ \<Rightarrow> Some c))))"

fun modelArg :: "string list \<Rightarrow> string" where
  "modelArg [] = []"
| "modelArg (arg # args) =
     (if (arg = ''--model'' \<or> arg = ''--model-path'') \<and> args \<noteq> [] then hd args
      else if HasPrefix arg ''--model='' then drop (length ''--model='') arg
      else if HasPrefix arg ''--model-path='' then drop (length ''--model-path='') arg
      else modelArg args)"

definition extractModelID :: "container \<Rightarrow> string" where
  "extractModelID c =
     (case List.find (\<lambda>(name, val). name \<in> {''NIM_MODEL_NAME'', ''MODEL_NAME'', ''MODEL_REPO'', ''HF_MODEL_ID'',
             ''HUGGINGFACE_MODEL''} \<and> val \<noteq> []) (ct_Env c) of
        Some (_, val) \<Rightarrow> val
      | None \<Rightarrow> modelArg (ct_Args c))"

definition isNonTransientAPIError :: "snap_error \<Rightarrow> bool" where
  "isNonTransientAPIError err =
     (case err of
        TransportError _ \<Rightarrow> False
      | APIError code \<Rightarrow> if code = 429 then False else 400 \<le> code \<and> code < 500)"

definition checkpointIsTerminal :: "Checkpoint \<Rightarrow> bool" where
  "checkpointIsTerminal c \<longleftrightarrow> ck_Phase c = ''Completed'' \<or> ck_Phase c = ''Failed''"

definition promoteIsTerminal :: "string \<Rightarrow> bool" where
  "promoteIsTerminal state \<longleftrightarrow> state \<in> {''ready'', ''failed'', ''''}"

text \<open>\<open>strings.Cut(owner, "/")\<close>.\<close>

definition cutSlash :: "string \<Rightarrow> (string \<times> string) option" where
  "cutSlash s =
     (if CHR ''/'' \<in> set s then Some (takeWhile (\<lambda>c. c \<noteq> CHR ''/'') s, tl (dropWhile (\<lambda>c. c \<noteq> CHR ''/'') s)) else None)"

definition claimOwnerAlive :: "'w nvsnap_env \<Rightarrow> 'w \<Rightarrow> string \<Rightarrow> string \<Rightarrow> bool" where
  "claimOwnerAlive env w owner ownerUID =
     (case cutSlash owner of
        None \<Rightarrow> True
      | Some (ns, name) \<Rightarrow>
          (case ne_getPod env ns name w of
             Inl e \<Rightarrow> e \<noteq> NotFound
           | Inr p \<Rightarrow>
               if ownerUID \<noteq> [] \<and> kp_UID p \<noteq> ownerUID then False
               else if kp_Terminating p then False
               else kp_Phase p \<noteq> ''Succeeded'' \<and> kp_Phase p \<noteq> ''Failed''))"

section \<open>Polling\<close>

datatype poll_error = NonTransient snap_error | ContextEnded

fun pollCheckpointTerminal ::
    "'w nvsnap_env \<Rightarrow> string \<Rightarrow> nat \<Rightarrow> 'w \<Rightarrow> (poll_error + Checkpoint) \<times> 'w" where
  "pollCheckpointTerminal env ckptID ticks w =
     (case ne_GetCheckpoint env ckptID w of
        (Inl err, w1) \<Rightarrow>
          if isNonTransientAPIError err then (Inl (NonTransient err), w1)
          else (case ticks of 0 \<Rightarrow> (Inl ContextEnded, w1) | Suc n \<Rightarrow> pollCheckpointTerminal env ckptID n w1)
      | (Inr c, w1) \<Rightarrow>
          if checkpointIsTerminal c then (Inr c, w1)
          else (case ticks of 0 \<Rightarrow> (Inl ContextEnded, w1) | Suc n \<Rightarrow> pollCheckpointTerminal env ckptID n w1))"

fun pollPVCPromoteTerminal :: "'w nvsnap_env \<Rightarrow> string \<Rightarrow> nat \<Rightarrow> 'w \<Rightarrow> (poll_error + string) \<times> 'w" where
  "pollPVCPromoteTerminal env hash ticks w =
     (case ne_GetPVCPromoteState env hash w of
        (Inl err, w1) \<Rightarrow>
          if err = APIError 404 then (Inr [], w1)
          else if isNonTransientAPIError err then (Inl (NonTransient err), w1)
          else (case ticks of 0 \<Rightarrow> (Inl ContextEnded, w1) | Suc n \<Rightarrow> pollPVCPromoteTerminal env hash n w1)
      | (Inr s, w1) \<Rightarrow>
          if promoteIsTerminal s then (Inr s, w1)
          else (case ticks of 0 \<Rightarrow> (Inl ContextEnded, w1) | Suc n \<Rightarrow> pollPVCPromoteTerminal env hash n w1))"

section \<open>Recovery\<close>

fun firstUsable :: "'w nvsnap_env \<Rightarrow> LookupMatch list \<Rightarrow> 'w \<Rightarrow> string \<times> 'w" where
  "firstUsable env [] w = ([], w)"
| "firstUsable env (m # ms) w =
     (if lm_Hash m = [] then firstUsable env ms w
      else
        (case ne_GetPVCPromoteState env (lm_Hash m) w of
           (Inl err, w1) \<Rightarrow> if err = APIError 404 then (lm_Hash m, w1) else firstUsable env ms w1
         | (Inr s, w1) \<Rightarrow> if s = ''ready'' \<or> s = [] then (lm_Hash m, w1) else firstUsable env ms w1))"

definition findUsableCapture :: "'w nvsnap_env \<Rightarrow> string \<Rightarrow> string \<Rightarrow> 'w \<Rightarrow> string \<times> 'w" where
  "findUsableCapture env imageRef modelID w =
     (if imageRef = [] then ([], w)
      else
        (case ne_LookupCheckpoints env imageRef modelID w of
           (Inl _, w1) \<Rightarrow> ([], w1)
         | (Inr matches, w1) \<Rightarrow> firstUsable env matches w1))"

definition recoverExistingCapture :: "'w nvsnap_env \<Rightarrow> Reconciler \<Rightarrow> kpod \<Rightarrow> 'w \<Rightarrow> string \<times> 'w" where
  "recoverExistingCapture env r pod w =
     (case findInferenceContainer (Some pod) (rc_InferenceContainerName r) of
        None \<Rightarrow> ([], w)
      | Some c \<Rightarrow> if ct_Image c = [] then ([], w) else findUsableCapture env (ct_Image c) (extractModelID c) w)"

section \<open>The reconcile\<close>

datatype rec_error =
    PodNil
  | Bootstrap cfs_error
  | RecoverWrite cfs_error
  | ClaimError cfs_error
  | DwellEnded
  | StatusError cfs_error
  | PatchError api_error

definition removeCheckpointOnWarm :: "'w nvsnap_env \<Rightarrow> kpod \<Rightarrow> 'w \<Rightarrow> (rec_error + unit) \<times> 'w" where
  "removeCheckpointOnWarm env pod w =
     (if kp_Annotations pod ''nvsnap.io/checkpoint-on-warm'' = None then (Inr (), w)
      else
        (case ne_dropAnnotation env (kp_Namespace pod) (kp_Name pod) w of
           (Inr _, w1) \<Rightarrow> (Inr (), w1)
         | (Inl e, w1) \<Rightarrow> if e = NotFound then (Inr (), w1) else (Inl (PatchError e), w1)))"

text \<open>The error text only reaches the status, so a failure carries it as a string.\<close>

definition recordFailure ::
    "'w nvsnap_env \<Rightarrow> string \<Rightarrow> cfsStatus \<Rightarrow> string \<Rightarrow> claimToken \<Rightarrow> 'w \<Rightarrow> (rec_error + unit) \<times> 'w" where
  "recordFailure env fvID prev cause token w =
     (case writeStatus (ne_api env) fvID
             \<lparr>upd_CheckpointHash = CheckpointHash prev, upd_CapturedHere = CapturedHere prev, upd_CapturedAt = CapturedAt prev,
              upd_LocalCacheState = LocalCacheState prev, upd_AttemptCount = add64 (AttemptCount prev) 1,
              upd_LastError = cause, upd_LastAttemptAt = Some (ne_now env w)\<rparr> token w of
        (_, w1) \<Rightarrow> (Inr (), w1))"

definition persistLookup :: "'w nvsnap_env \<Rightarrow> Reconciler \<Rightarrow> kpod \<Rightarrow> string \<Rightarrow> 'w \<Rightarrow> 'w" where
  "persistLookup env r pod fvID w =
     (case findInferenceContainer (Some pod) (rc_InferenceContainerName r) of
        None \<Rightarrow> w
      | Some c \<Rightarrow>
          if ct_Image c = [] then w
          else snd (writeWorkloadLookup (ne_api env) fvID (ct_Image c) (extractModelID c) w))"

text \<open>The part after the claim: dwell, capture, promote, and the terminal write.\<close>

definition commitCapture ::
    "'w nvsnap_env \<Rightarrow> kpod \<Rightarrow> string \<Rightarrow> string \<Rightarrow> claimToken \<Rightarrow> 'w \<Rightarrow> (rec_error + unit) \<times> 'w" where
  "commitCapture env pod fvID hash token w =
     (case writeStatus (ne_api env) fvID (warmUpdate hash (ne_now env w)) token w of
        (Inl ErrClaimSuperseded, w1) \<Rightarrow> (Inr (), w1)
      | (Inl e, w1) \<Rightarrow> (Inl (StatusError e), w1)
      | (Inr _, w1) \<Rightarrow> removeCheckpointOnWarm env pod w1)"

definition promoteCapture ::
    "'w nvsnap_env \<Rightarrow> Reconciler \<Rightarrow> kpod \<Rightarrow> string \<Rightarrow> cfsStatus \<Rightarrow> string \<Rightarrow> claimToken \<Rightarrow> 'w \<Rightarrow> (rec_error + unit) \<times> 'w" where
  "promoteCapture env r pod fvID prev hash token w =
     (case pollPVCPromoteTerminal env hash (ne_ticks env (rc_PromotePollTimeout r) (rc_PromotePollInterval r) w) w of
        (Inl _, w1) \<Rightarrow> recordFailure env fvID prev ''L2 promote poll'' token w1
      | (Inr state, w1) \<Rightarrow>
          if state = ''failed'' then recordFailure env fvID prev ''L2 promote state=failed'' token w1
          else commitCapture env pod fvID hash token w1)"

definition runCapture ::
    "'w nvsnap_env \<Rightarrow> Reconciler \<Rightarrow> kpod \<Rightarrow> string \<Rightarrow> cfsStatus \<Rightarrow> claimToken \<Rightarrow> 'w \<Rightarrow> (rec_error + unit) \<times> 'w" where
  "runCapture env r pod fvID prev token w =
     (case (if rc_WarmupBuffer r > 0 then ne_dwell env (rc_WarmupBuffer r) w else (True, w)) of
        (False, w1) \<Rightarrow> (Inl DwellEnded, w1)
      | (True, w1) \<Rightarrow>
          (case ne_CreateCheckpoint env (kp_Namespace pod) (kp_Name pod) (rc_InferenceContainerName r) w1 of
             (Inl _, w2) \<Rightarrow> recordFailure env fvID prev ''nvsnap CreateCheckpoint'' token w2
           | (Inr ckpt, w2) \<Rightarrow>
               (case pollCheckpointTerminal env (ck_ID ckpt)
                       (ne_ticks env (rc_CheckpointTimeout r) (rc_CheckpointPollInterval r) w2) w2 of
                  (Inl _, w3) \<Rightarrow> recordFailure env fvID prev ''poll checkpoint'' token w3
                | (Inr final, w3) \<Rightarrow>
                    if ck_Phase final = ''Failed'' then recordFailure env fvID prev (ck_Error final) token w3
                    else if ck_Hash final = [] then
                      (case releaseCaptureClaim (ne_api env) fvID prev token w3 of (_, w4) \<Rightarrow> (Inr (), w4))
                    else promoteCapture env r pod fvID prev (ck_Hash final) token w3)))"

definition claimAndCapture ::
    "'w nvsnap_env \<Rightarrow> Reconciler \<Rightarrow> kpod \<Rightarrow> string \<Rightarrow> cfsStatus \<Rightarrow> 'w \<Rightarrow> (rec_error + unit) \<times> 'w" where
  "claimAndCapture env r pod fvID prev w =
     (let claimNow = ne_now env w;
          owner = kp_Namespace pod @ ''/'' @ kp_Name pod;
          token = \<lparr>tok_Owner = owner, tok_UID = kp_UID pod, tok_ExpectUnclaimed = False, tok_ObservedResourceVersion = None\<rparr>
      in case tryClaimCaptureLive (ne_api env) fvID owner (kp_UID pod) (claimNow + rc_CaptureLeaseTTL r) claimNow
                (Some (claimOwnerAlive env)) w of
           (Inl e, w1) \<Rightarrow> (Inl (ClaimError e), w1)
         | (Inr False, w1) \<Rightarrow> (Inr (), w1)
         | (Inr True, w1) \<Rightarrow> runCapture env r pod fvID prev token w1)"

definition Reconcile :: "'w nvsnap_env \<Rightarrow> Reconciler \<Rightarrow> kpod option \<Rightarrow> 'w \<Rightarrow> (rec_error + unit) \<times> 'w" where
  "Reconcile env rec0 podOpt w =
     (let r = resolveDefaults rec0 in
      case podOpt of
        None \<Rightarrow> (Inl PodNil, w)
      | Some pod \<Rightarrow>
          if kp_Annotations pod ''nvsnap.io/checkpoint-on-warm'' \<noteq> Some ''true'' then (Inr (), w)
          else
            (case kp_Annotations pod ''nvsnap.io/function-version-id'' of
               None \<Rightarrow> (Inr (), w)
             | Some fvID \<Rightarrow>
                 if fvID = [] then (Inr (), w)
                 else
                   (case getOrCreateCFS (ne_api env) fvID w of
                      (Inl e, w1) \<Rightarrow> (Inl (Bootstrap e), w1)
                    | (Inr cfs, w1) \<Rightarrow>
                        if cfs_optOut cfs then removeCheckpointOnWarm env pod w1
                        else
                          let w2 = persistLookup env r pod fvID w1;
                              prev = cfs_status cfs
                          in if LocalCacheState prev = LocalCacheStateWarm then removeCheckpointOnWarm env pod w2
                             else
                               (case recoverExistingCapture env r pod w2 of
                                  (hash, w3) \<Rightarrow>
                                    if hash \<noteq> [] then
                                      (case writeStatus (ne_api env) fvID (warmUpdate hash (ne_now env w3)) zeroToken w3 of
                                         (Inl e, w4) \<Rightarrow> (Inl (RecoverWrite e), w4)
                                       | (Inr _, w4) \<Rightarrow> removeCheckpointOnWarm env pod w4)
                                    else if shouldSuppressAttempt prev (ne_now env w3) \<noteq> None then (Inr (), w3)
                                    else if \<not> podReady (Some pod) then (Inr (), w3)
                                    else claimAndCapture env r pod fvID prev w3))))"

section \<open>The sweep\<close>

definition sweepOne :: "'w nvsnap_env \<Rightarrow> string \<times> CFS \<Rightarrow> 'w \<Rightarrow> 'w" where
  "sweepOne env item w =
     (case item of
        (fvID, cfs) \<Rightarrow>
          let st = cfs_status cfs
          in if LocalCacheState st = LocalCacheStateWarm then w
             else if cfs_optOut cfs then w
             else if cfs_imageRef cfs = [] then w
             else
               (case findUsableCapture env (cfs_imageRef cfs) (cfs_modelId cfs) w of
                  (hash, w1) \<Rightarrow>
                    if hash = [] then w1
                    else if CaptureOwner st \<noteq> [] \<and> leaseLive (CaptureLeaseExpiry st) (ne_now env w1) \<and>
                            claimOwnerAlive env w1 (CaptureOwner st) (CaptureOwnerUID st) then w1
                    else snd (writeStatus (ne_api env) fvID (warmUpdate hash (ne_now env w1)) (sweepToken cfs) w1)))"

definition SweepOnce :: "'w nvsnap_env \<Rightarrow> 'w \<Rightarrow> 'w" where
  "SweepOnce env w =
     (case api_List (ne_api env) w of
        (Inl _, w1) \<Rightarrow> w1
      | (Inr items, w1) \<Rightarrow> fold (sweepOne env) items w1)"

section \<open>The cold-start gate\<close>

text \<open>\<open>None\<close> is to proceed, \<open>Some\<close> the function and pioneer the replica is deferred for.\<close>

definition shouldDeferColdStart ::
    "'w nvsnap_env \<Rightarrow> bool \<Rightarrow> string \<Rightarrow> string \<Rightarrow> 'w \<Rightarrow> (string \<times> string) option \<times> 'w" where
  "shouldDeferColdStart env flagEnabled fvID owner w =
     (if \<not> flagEnabled \<or> fvID = [] then (None, w)
      else
        (case api_Get (ne_api env) fvID w of
           (got, w1) \<Rightarrow>
             if (case got of Inl e \<Rightarrow> e \<noteq> NotFound | Inr _ \<Rightarrow> False) then (None, w1)
             else
               let state = (case got of Inl _ \<Rightarrow> [] | Inr cfs \<Rightarrow> LocalCacheState (cfs_status cfs))
               in if state = LocalCacheStateWarm \<or> state = LocalCacheStateFailed then (None, w1)
                  else
                    let now = ne_now env w1
                    in case TryClaimColdStartPioneer (ne_api env) fvID owner (now + DefaultColdStartPioneerLeaseTTL) now w1 of
                         (Inl _, w2) \<Rightarrow> (None, w2)
                       | (Inr True, w2) \<Rightarrow> (None, w2)
                       | (Inr False, w2) \<Rightarrow>
                           (case api_Get (ne_api env) fvID w2 of
                              (Inr fresh, w3) \<Rightarrow> (Some (fvID, ColdStartPioneer (cfs_status fresh)), w3)
                            | (Inl _, w3) \<Rightarrow> (Some (fvID, []), w3))))"

section \<open>Nothing is captured twice, nothing is left claimed\<close>

text \<open>
  What is needed to follow one reconcile from claim to terminal write without interference. The calls
  other than writes leave the objects alone. \<open>alive\<close> tells whether the context of the reconcile is
  neither cancelled nor past its deadline: it does not come back to life, the dwell is
  cut short only by its end, and the server answers the calls that return before it. A call
  during which the context ends, and every call after that, may have any result.
\<close>

locale live_env = cfs_api "ne_api env" view
  for env :: "'w nvsnap_env" and view :: "'w \<Rightarrow> string \<Rightarrow> CFS option" +
  fixes alive :: "'w \<Rightarrow> bool"
  assumes create_frame: "ne_CreateCheckpoint env a b c w = (r1, w') \<Longrightarrow> view w' = view w \<and> (alive w' \<longrightarrow> alive w)"
    and checkpoint_frame: "ne_GetCheckpoint env a w = (r1, w') \<Longrightarrow> view w' = view w \<and> (alive w' \<longrightarrow> alive w)"
    and promote_frame: "ne_GetPVCPromoteState env a w = (r2, w') \<Longrightarrow> view w' = view w \<and> (alive w' \<longrightarrow> alive w)"
    and lookup_frame: "ne_LookupCheckpoints env a b w = (r3, w') \<Longrightarrow> view w' = view w \<and> (alive w' \<longrightarrow> alive w)"
    and dwell_frame: "ne_dwell env d w = (r4, w') \<Longrightarrow> view w' = view w \<and> (alive w' \<longrightarrow> alive w \<and> r4)"
    and annotation_frame: "ne_dropAnnotation env a b w = (r5, w') \<Longrightarrow> view w' = view w \<and> (alive w' \<longrightarrow> alive w)"
    and get_answers: "api_Get (ne_api env) k w = (r6, w') \<Longrightarrow> alive w' \<Longrightarrow>
          alive w \<and> (\<forall>obj. view w k = Some obj \<longrightarrow> r6 = Inr obj)"
    and write_answers: "api_UpdateStatus (ne_api env) k obj w = (r7, w') \<Longrightarrow> alive w' \<Longrightarrow>
          alive w \<and> (\<forall>cur. view w k = Some cur \<and> cfs_version cur = cfs_version obj \<longrightarrow> r7 = Inr ())"
    and update_answers: "api_Update (ne_api env) k obj w = (r8, w') \<Longrightarrow> alive w' \<Longrightarrow> alive w"
begin

lemma write_succeeds:
  assumes "updateStatusOrSpec (ne_api env) k obj w = (r, w')" and "alive w'"
  shows "alive w" and "view w k = Some cur \<Longrightarrow> cfs_version cur = cfs_version obj \<Longrightarrow> r = Inr ()"
proof -
  obtain u w1 where u: "api_UpdateStatus (ne_api env) k obj w = (u, w1)" by force
  obtain v w2 where v: "api_Update (ne_api env) k obj w1 = (v, w2)" by force
  have "alive w1"
    using assms u v update_answers [OF v] by (cases u) (auto simp: updateStatusOrSpec_def split: if_splits)
  with write_answers [OF u] assms u
  show "alive w" and "view w k = Some cur \<Longrightarrow> cfs_version cur = cfs_version obj \<Longrightarrow> r = Inr ()"
    by (auto simp: updateStatusOrSpec_def)
qed

text \<open>A terminal write with the token of the claim holder goes through and drops the claim.\<close>

definition holds :: "'w \<Rightarrow> string \<Rightarrow> claimToken \<Rightarrow> bool" where
  "holds w fvID token \<longleftrightarrow> (\<exists>cur. view w fvID = Some cur \<and> fencePasses token cur)"

definition unclaimed :: "'w \<Rightarrow> string \<Rightarrow> bool" where
  "unclaimed w fvID \<longleftrightarrow> (\<exists>cur. view w fvID = Some cur \<and> CaptureOwner (cfs_status cur) = [])"

lemma writeStatus_releases:
  assumes "writeStatus (ne_api env) fvID upd token w = (r, w')" and "alive w'"
  shows "alive w" and "holds w fvID token \<Longrightarrow> r = Inr () \<and> unclaimed w' fvID"
proof -
  obtain g w1 where g: "api_Get (ne_api env) fvID w = (g, w1)" by force
  obtain u w2 where u: "updateStatusOrSpec (ne_api env) fvID ((projr g)\<lparr>cfs_status := terminalStatus upd (cfs_status (projr g))\<rparr>) w1 = (u, w2)"
    by force
  have w1: "alive w1"
    using assms g u write_succeeds(1) [OF u] by (cases g) (auto simp: writeStatus_def split: if_splits sum.splits)
  show "alive w" using get_answers [OF g w1] by simp
  assume "holds w fvID token"
  then obtain cur where cur: "view w fvID = Some cur" "fencePasses token cur" by (auto simp: holds_def)
  then have get: "g = Inr cur" using get_answers [OF g w1] by simp
  have v1: "view w1 fvID = Some cur" using get_frame [OF g] cur(1) by simp
  have "w' = w2" using assms(1) g u cur(2) get by (auto simp: writeStatus_def split: sum.splits)
  with write_succeeds(2) [OF u, of cur] assms(2) get v1 have "u = Inr ()" by simp
  then have r: "r = Inr ()" using assms(1) g u cur(2) get by (simp add: writeStatus_def)
  from writeStatus_atomic [OF assms(1) [unfolded r]] r show "r = Inr () \<and> unclaimed w' fvID"
    by (auto simp: unclaimed_def terminalStatus_def)
qed

lemma recordFailure_releases:
  assumes "recordFailure env fvID prev cause token w = (r, w')" and "alive w'"
  shows "alive w" and "holds w fvID token \<Longrightarrow> unclaimed w' fvID"
  using assms writeStatus_releases by (auto simp: recordFailure_def split: prod.splits)

text \<open>A poll leaves the objects alone, and runs in a context that was alive if it still is.\<close>

definition onlyReads :: "'w \<Rightarrow> 'w \<Rightarrow> bool" where
  "onlyReads w w' \<longleftrightarrow> view w' = view w \<and> (alive w' \<longrightarrow> alive w)"

lemma onlyReads_refl [simp]: "onlyReads w w"
  by (simp add: onlyReads_def)

lemma onlyReads_trans: "onlyReads w w1 \<Longrightarrow> onlyReads w1 w2 \<Longrightarrow> onlyReads w w2"
  by (simp add: onlyReads_def)

lemma holds_reads: "onlyReads w w' \<Longrightarrow> holds w fvID token \<Longrightarrow> holds w' fvID token"
  by (simp add: onlyReads_def holds_def)

lemma poll_frame: "pollCheckpointTerminal env a n w = (r, w') \<Longrightarrow> onlyReads w w'"
proof (induction n arbitrary: w)
  case 0
  obtain c w1 where g: "ne_GetCheckpoint env a w = (c, w1)" by force
  with 0 have "w' = w1" by (auto split: sum.splits if_splits)
  with checkpoint_frame [OF g] show ?case by (simp add: onlyReads_def)
next
  case (Suc n)
  obtain c w1 where g: "ne_GetCheckpoint env a w = (c, w1)" by force
  have "onlyReads w w1" using checkpoint_frame [OF g] by (simp add: onlyReads_def)
  moreover have "onlyReads w1 w'" using Suc.prems Suc.IH [of w1] g by (auto split: sum.splits if_splits)
  ultimately show ?case by (rule onlyReads_trans)
qed

lemma promote_poll_frame: "pollPVCPromoteTerminal env a n w = (r, w') \<Longrightarrow> onlyReads w w'"
proof (induction n arbitrary: w)
  case 0
  obtain c w1 where g: "ne_GetPVCPromoteState env a w = (c, w1)" by force
  with 0 have "w' = w1" by (auto split: sum.splits if_splits)
  with promote_frame [OF g] show ?case by (simp add: onlyReads_def)
next
  case (Suc n)
  obtain c w1 where g: "ne_GetPVCPromoteState env a w = (c, w1)" by force
  have "onlyReads w w1" using promote_frame [OF g] by (simp add: onlyReads_def)
  moreover have "onlyReads w1 w'" using Suc.prems Suc.IH [of w1] g by (auto split: sum.splits if_splits)
  ultimately show ?case by (rule onlyReads_trans)
qed

lemma removeCheckpointOnWarm_frame: "removeCheckpointOnWarm env pod w = (r, w') \<Longrightarrow> onlyReads w w'"
  unfolding onlyReads_def
  by (auto simp: removeCheckpointOnWarm_def dest: annotation_frame split: prod.splits sum.splits if_splits)

lemma commit_releases:
  assumes "holds w fvID token" and "commitCapture env pod fvID hash token w = (r, w')" and "alive w'"
  shows "unclaimed w' fvID"
proof -
  obtain s w1 where s: "writeStatus (ne_api env) fvID (warmUpdate hash (ne_now env w)) token w = (s, w1)" by force
  have "onlyReads w1 w'"
    using assms(2) s removeCheckpointOnWarm_frame [of pod w1 r w']
    by (auto simp: commitCapture_def split: sum.splits cfs_error.splits)
  moreover from this assms(1,3) have "unclaimed w1 fvID" using writeStatus_releases(2) [OF s] by (simp add: onlyReads_def)
  ultimately show ?thesis by (simp add: onlyReads_def unclaimed_def)
qed

lemma promote_releases:
  assumes "holds w fvID token" and "promoteCapture env r pod fvID prev hash token w = (res, w')" and "alive w'"
  shows "unclaimed w' fvID"
proof -
  obtain p w1 where p: "pollPVCPromoteTerminal env hash (ne_ticks env (rc_PromotePollTimeout r) (rc_PromotePollInterval r) w) w = (p, w1)"
    by force
  have h: "holds w1 fvID token" using holds_reads [OF promote_poll_frame [OF p]] assms(1) by simp
  from assms(2) p consider cause where "recordFailure env fvID prev cause token w1 = (res, w')"
    | "commitCapture env pod fvID hash token w1 = (res, w')"
    by (auto simp: promoteCapture_def simp del: pollPVCPromoteTerminal.simps split: sum.splits if_splits)
  then show ?thesis
    using recordFailure_releases(2) [OF _ assms(3) h] commit_releases [OF h _ assms(3)] by cases
qed

lemma capture_releases:
  assumes "holds w fvID token" and "runCapture env r pod fvID prev token w = (res, w')" and "alive w'"
  shows "unclaimed w' fvID"
proof -
  obtain ok w1 where d: "(if rc_WarmupBuffer r > 0 then ne_dwell env (rc_WarmupBuffer r) w else (True, w)) = (ok, w1)" by force
  have d1: "view w1 = view w" "alive w1 \<longrightarrow> ok" using d dwell_frame [of "rc_WarmupBuffer r" w ok w1] by (auto split: if_splits)
  show ?thesis
  proof (cases ok)
    case False
    with assms(2) d have "w' = w1" by (simp add: runCapture_def)
    with False d1(2) assms(3) show ?thesis by simp
  next
    case True
    obtain c w2 where c: "ne_CreateCheckpoint env (kp_Namespace pod) (kp_Name pod) (rc_InferenceContainerName r) w1 = (c, w2)" by force
    have h2: "holds w2 fvID token" using create_frame [OF c] d1(1) assms(1) by (simp add: holds_def)
    obtain f w3 where p: "pollCheckpointTerminal env (ck_ID (projr c))
        (ne_ticks env (rc_CheckpointTimeout r) (rc_CheckpointPollInterval r) w2) w2 = (f, w3)" by force
    have h3: "holds w3 fvID token" using holds_reads [OF poll_frame [OF p] h2] .
    from assms(2) d True c p consider
        cause where "recordFailure env fvID prev cause token w2 = (res, w')"
      | cause where "recordFailure env fvID prev cause token w3 = (res, w')"
      | r4 where "releaseCaptureClaim (ne_api env) fvID prev token w3 = (r4, w')"
      | "promoteCapture env r pod fvID prev (ck_Hash (projr f)) token w3 = (res, w')"
      by (cases c) (auto simp: runCapture_def simp del: pollCheckpointTerminal.simps split: sum.splits if_splits prod.splits)
    then show ?thesis
    proof cases
      case 1
      then show ?thesis using recordFailure_releases(2) assms(3) h2 by blast
    next
      case 2
      then show ?thesis using recordFailure_releases(2) assms(3) h3 by blast
    next
      case 3
      then show ?thesis using writeStatus_releases(2) assms(3) h3 by (auto simp: releaseCaptureClaim_def)
    next
      case 4
      then show ?thesis using promote_releases [OF h3] assms(3) by blast
    qed
  qed
qed

text \<open>A claim of the named owner, through the steps before the capture.\<close>

definition notMine :: "'w \<Rightarrow> string \<Rightarrow> string \<Rightarrow> bool" where
  "notMine w fvID owner \<longleftrightarrow> (\<forall>cur. view w fvID = Some cur \<longrightarrow> CaptureOwner (cfs_status cur) \<noteq> owner)"

lemma notMine_same: "view w' = view w \<Longrightarrow> notMine w' fvID owner = notMine w fvID owner"
  by (simp add: notMine_def)

lemma unclaimed_notMine: "unclaimed w fvID \<Longrightarrow> owner \<noteq> [] \<Longrightarrow> notMine w fvID owner"
  by (auto simp: unclaimed_def notMine_def)

lemma notMine_written:
  "statusWritten (view w) fvID obj (view w') \<Longrightarrow> CaptureOwner (cfs_status obj) \<noteq> owner \<Longrightarrow> notMine w' fvID owner"
  by (auto simp: statusWritten_def notMine_def)

lemma notMine_writeStatus:
  assumes "writeStatus (ne_api env) fvID upd token w = (r, w')" and "notMine w fvID owner" and "owner \<noteq> []"
  shows "notMine w' fvID owner"
  using writeStatus_effect [OF assms(1)]
proof
  assume "view w' = view w"
  with notMine_same assms(2) show ?thesis by blast
next
  assume "\<exists>cur. view w fvID = Some cur \<and> fencePasses token cur \<and>
    statusWritten (view w) fvID (cur\<lparr>cfs_status := terminalStatus upd (cfs_status cur)\<rparr>) (view w')"
  then obtain cur where w: "statusWritten (view w) fvID (cur\<lparr>cfs_status := terminalStatus upd (cfs_status cur)\<rparr>) (view w')" by blast
  show ?thesis by (rule notMine_written [OF w]) (use assms(3) in \<open>auto simp: terminalStatus_def\<close>)
qed

lemma notMine_lookup:
  assumes "writeWorkloadLookup (ne_api env) fvID img model w = (r, w')" and "notMine w fvID owner"
  shows "notMine w' fvID owner"
  using lookup_effect [OF assms(1)]
proof
  assume "view w' = view w"
  with notMine_same assms(2) show ?thesis by blast
next
  assume "\<exists>cur. view w fvID = Some cur \<and>
    statusWritten (view w) fvID (cur\<lparr>cfs_imageRef := img, cfs_modelId := model\<rparr>) (view w')"
  then obtain cur where "view w fvID = Some cur"
    and w: "statusWritten (view w) fvID (cur\<lparr>cfs_imageRef := img, cfs_modelId := model\<rparr>) (view w')" by blast
  with assms(2) have "CaptureOwner (cfs_status cur) \<noteq> owner" by (simp add: notMine_def)
  then show ?thesis by (intro notMine_written [OF w]) simp
qed

lemma notMine_persist: "notMine w fvID owner \<Longrightarrow> notMine (persistLookup env r pod fvID w) fvID owner"
  unfolding persistLookup_def
  by (auto split: option.splits intro: notMine_lookup [OF surjective_pairing])

lemma notMine_created:
  "view w' = (view w)(fvID \<mapsto> new) \<Longrightarrow> cfs_status new = cfs_status freshCFS \<or> cfs_status new = emptyStatus \<Longrightarrow>
    owner \<noteq> [] \<Longrightarrow> notMine w' fvID owner"
  by (auto simp: notMine_def freshCFS_def emptyStatus_def)

lemma notMine_bootstrap:
  assumes "getOrCreateCFS (ne_api env) fvID w = (r, w')" and "notMine w fvID owner" and "owner \<noteq> []"
  shows "notMine w' fvID owner"
proof -
  obtain g w1 where g: "api_Get (ne_api env) fvID w = (g, w1)" by force
  obtain c w2 where c: "api_Create (ne_api env) fvID freshCFS w1 = (c, w2)" by force
  obtain g' w3 where g': "api_Get (ne_api env) fvID w2 = (g', w3)" by force
  have w1: "notMine w1 fvID owner" using notMine_same [OF get_frame [OF g]] assms(2) by simp
  have w2: "notMine w2 fvID owner"
  proof (cases c)
    case (Inl e)
    from create_fail [OF c[unfolded Inl]] show ?thesis
      using notMine_same w1 notMine_created [OF _ _ assms(3)] by blast
  next
    case (Inr new)
    from create_ok [OF c[unfolded Inr]] show ?thesis using notMine_created [OF _ _ assms(3)] by blast
  qed
  have w3: "notMine w3 fvID owner" using notMine_same [OF get_frame [OF g']] w2 by simp
  from assms(1) g c g' w1 w2 w3 show ?thesis
    by (auto simp: getOrCreateCFS_def split: sum.splits api_error.splits)
qed

lemma firstUsable_frame: "firstUsable env ms w = (h, w') \<Longrightarrow> view w' = view w"
proof (induction ms arbitrary: w)
  case (Cons m ms)
  obtain p w1 where p: "ne_GetPVCPromoteState env (lm_Hash m) w = (p, w1)" by force
  with Cons.prems Cons.IH conjunct1 [OF promote_frame [OF p]] show ?case by (auto split: if_splits sum.splits)
qed simp

lemma findUsable_frame: "findUsableCapture env img model w = (h, w') \<Longrightarrow> view w' = view w"
  by (auto simp: findUsableCapture_def split: if_splits prod.splits sum.splits dest!: lookup_frame firstUsable_frame)

lemma recover_frame: "recoverExistingCapture env r pod w = (h, w') \<Longrightarrow> view w' = view w"
  by (auto simp: recoverExistingCapture_def dest: findUsable_frame split: if_splits option.splits)

lemma claim_holds:
  assumes "tryClaimCaptureLive (ne_api env) fvID owner uid lease now ownerAlive w = (Inr True, w')" and "owner \<noteq> []"
  shows "holds w' fvID \<lparr>tok_Owner = owner, tok_UID = uid, tok_ExpectUnclaimed = False, tok_ObservedResourceVersion = None\<rparr>"
proof -
  obtain cur new :: CFS where "view w' = (view w)(fvID \<mapsto> new)" "cfs_status new = claimStatus owner uid lease (cfs_status cur)"
    using claim_atomic [OF assms(1)] by blast
  then show ?thesis using assms(2) unfolding holds_def
    by (intro exI [of _ new]) (simp add: fencePasses_def supersedes_def token_empty_def claimStatus_def)
qed

lemma claim_false_frame:
  assumes "tryClaimCaptureLive (ne_api env) fvID owner uid lease now ownerAlive w = (r, w')" and "r \<noteq> Inr True" and "alive w'"
  shows "view w' = view w"
proof -
  obtain g w1 where g: "api_Get (ne_api env) fvID w = (g, w1)" by force
  show ?thesis
  proof (cases g)
    case (Inl e)
    with assms(1) g get_frame [OF g] show ?thesis by (auto simp: tryClaimCaptureLive_def)
  next
    case (Inr cur)
    have v: "view w1 fvID = Some cur" using get_ok g get_frame [OF g] Inr by simp
    obtain u w2 where u: "updateStatusOrSpec (ne_api env) fvID (cur\<lparr>cfs_status := claimStatus owner uid lease (cfs_status cur)\<rparr>) w1 = (u, w2)"
      by force
    show ?thesis
    proof (cases "captureClaimable (map_option (\<lambda>f. f w1) ownerAlive) owner uid now (cfs_status cur)")
      case True
      then have "w' = w2" using assms(1) g u Inr
        by (cases u) (auto simp: tryClaimCaptureLive_def claimWrite_def split: api_error.splits)
      with write_succeeds(2) [OF u _ v] assms g u Inr True show ?thesis by (simp add: tryClaimCaptureLive_def claimWrite_def)
    next
      case False
      with assms(1) g Inr get_frame [OF g] show ?thesis by (simp add: tryClaimCaptureLive_def)
    qed
  qed
qed

lemma claimAndCapture_notMine:
  assumes "claimAndCapture env r pod fvID prev w = (res, w')" and "notMine w fvID owner"
    and "owner = kp_Namespace pod @ ''/'' @ kp_Name pod" and "alive w'"
  shows "notMine w' fvID owner"
proof -
  let ?lease = "ne_now env w + rc_CaptureLeaseTTL r"
  obtain c w1 where c: "tryClaimCaptureLive (ne_api env) fvID owner (kp_UID pod) ?lease (ne_now env w)
      (Some (claimOwnerAlive env)) w = (c, w1)" by force
  show ?thesis
  proof (cases "c = Inr True")
    case True
    from claim_holds [OF c[unfolded True]] assms(3) have "holds w1 fvID
      \<lparr>tok_Owner = owner, tok_UID = kp_UID pod, tok_ExpectUnclaimed = False, tok_ObservedResourceVersion = None\<rparr>" by simp
    from capture_releases [OF this] assms c True have "unclaimed w' fvID"
      by (auto simp: claimAndCapture_def Let_def)
    then show ?thesis using assms(3) by (intro unclaimed_notMine) simp_all
  next
    case False
    with assms(1,3) c have "w' = w1" by (auto simp: claimAndCapture_def Let_def split: sum.splits bool.splits)
    with notMine_same [OF claim_false_frame [OF c False]] assms(2,4) show ?thesis by simp
  qed
qed

lemma removeCheckpointOnWarm_notMine:
  "removeCheckpointOnWarm env pod w = (r, w') \<Longrightarrow> notMine w fvID owner \<Longrightarrow> notMine w' fvID owner"
  using removeCheckpointOnWarm_frame notMine_same by (meson onlyReads_def)

lemma Reconcile_notMine:
  assumes "Reconcile env rec0 (Some pod) w = (res, w')" and "kp_Annotations pod ''nvsnap.io/function-version-id'' = Some fvID"
    and "owner = kp_Namespace pod @ ''/'' @ kp_Name pod" and "notMine w fvID owner" and "alive w'"
  shows "notMine w' fvID owner"
proof -
  have ne: "owner \<noteq> []" using assms(3) by simp
  obtain b w1 where b: "getOrCreateCFS (ne_api env) fvID w = (b, w1)" by force
  have w1: "notMine w1 fvID owner" by (rule notMine_bootstrap [OF b assms(4) ne])
  let ?r = "resolveDefaults rec0"
  let ?w2 = "persistLookup env ?r pod fvID w1"
  have w2: "notMine ?w2 fvID owner" by (rule notMine_persist [OF w1])
  obtain hash w3 where h: "recoverExistingCapture env ?r pod ?w2 = (hash, w3)" by force
  have w3: "notMine w3 fvID owner" using notMine_same [OF recover_frame [OF h]] w2 by simp
  obtain s w4 where s: "writeStatus (ne_api env) fvID (warmUpdate hash (ne_now env w3)) zeroToken w3 = (s, w4)" by force
  have w4: "notMine w4 fvID owner" by (rule notMine_writeStatus [OF s w3 ne])
  show ?thesis
  proof (cases b)
    case (Inl e)
    with assms(1,2) b w1 assms(4) show ?thesis by (auto simp: Reconcile_def Let_def split: if_splits)
  next
    case (Inr cfs)
    have tail: "notMine w' fvID owner" if "claimAndCapture env ?r pod fvID (cfs_status cfs) w3 = (res, w')"
      by (rule claimAndCapture_notMine [OF that w3 assms(3,5)])
    note drop = removeCheckpointOnWarm_notMine
    from Inr assms(1,2,4) b h s show ?thesis
      by (auto simp: Reconcile_def Let_def split: if_splits sum.splits
          dest: drop [OF _ w1] drop [OF _ w2] drop [OF _ w4] tail) (use w3 w4 in simp_all)
  qed
qed

end

text \<open>The case of a context that does not end.\<close>

locale quiet_env = live_env env view "\<lambda>_. True"
  for env :: "'w nvsnap_env" and view :: "'w \<Rightarrow> string \<Rightarrow> CFS option"
begin

lemma get_some: "view w k = Some obj \<Longrightarrow> \<exists>w'. api_Get (ne_api env) k w = (Inr obj, w')"
  using get_answers [of k w] by (metis surj_pair)

lemma write_some: "view w k = Some cur \<Longrightarrow> cfs_version cur = cfs_version obj \<Longrightarrow>
    \<exists>w'. updateStatusOrSpec (ne_api env) k obj w = (Inr (), w')"
  using write_succeeds(2) [of k obj w] by (metis surj_pair)

end

lemmas quiet_env_api = live_env.axioms(1) [OF quiet_env.axioms]

section \<open>An environment in memory\<close>

text \<open>
  A clock, the objects, and a server that answers every capture with the given results. A context may have
  a deadline, after which every call fails; the dwell and the creation of a checkpoint take time.
\<close>

record memWorld =
  mw_server :: memServer
  mw_clock :: int

definition inTime :: "int option \<Rightarrow> memWorld \<Rightarrow> bool" where
  "inTime deadline w = (case deadline of None \<Rightarrow> True | Some d \<Rightarrow> mw_clock w < d)"

abbreviation deadlineExceeded :: string where "deadlineExceeded \<equiv> ''context deadline exceeded''"

definition onServer :: "int option \<Rightarrow> (memServer \<Rightarrow> (api_error + 'r) \<times> memServer) \<Rightarrow> memWorld \<Rightarrow> (api_error + 'r) \<times> memWorld" where
  "onServer deadline f w =
     (if inTime deadline w then case f (mw_server w) of (r, s) \<Rightarrow> (r, w\<lparr>mw_server := s\<rparr>) else (Inl (ApiError deadlineExceeded), w))"

definition snapAnswer :: "int option \<Rightarrow> snap_error + 'r \<Rightarrow> memWorld \<Rightarrow> (snap_error + 'r) \<times> memWorld" where
  "snapAnswer deadline r w = (if inTime deadline w then r else Inl (TransportError deadlineExceeded), w)"

definition memEnv :: "int option \<Rightarrow> nat \<Rightarrow> snap_error + Checkpoint \<Rightarrow> snap_error + string \<Rightarrow> LookupMatch list \<Rightarrow> memWorld nvsnap_env" where
  "memEnv deadline cost ckpt promote matches =
     \<lparr>ne_api =
        \<lparr>api_Get = (\<lambda>k. onServer deadline (api_Get memApi k)), api_Create = (\<lambda>k obj. onServer deadline (api_Create memApi k obj)),
         api_UpdateStatus = (\<lambda>k obj. onServer deadline (api_UpdateStatus memApi k obj)),
         api_Update = (\<lambda>k obj. onServer deadline (api_Update memApi k obj)), api_List = onServer deadline (api_List memApi)\<rparr>,
      ne_now = mw_clock,
      ne_getPod = (\<lambda>ns name w. Inl NotFound),
      ne_dropAnnotation = (\<lambda>ns name. onServer deadline (\<lambda>s. (Inr (), s))),
      ne_CreateCheckpoint = (\<lambda>ns name c w. snapAnswer deadline ckpt (w\<lparr>mw_clock := mw_clock w + int cost\<rparr>)),
      ne_GetCheckpoint = (\<lambda>i. snapAnswer deadline ckpt),
      ne_GetPVCPromoteState = (\<lambda>h. snapAnswer deadline promote),
      ne_LookupCheckpoints = (\<lambda>img model. snapAnswer deadline (Inr matches)),
      ne_dwell = (\<lambda>d w. let w' = w\<lparr>mw_clock := mw_clock w + max 0 d\<rparr> in (inTime deadline w', w')),
      ne_ticks = (\<lambda>timeout interval w. 3)\<rparr>"

lemma inTime_simps [simp]:
  "inTime None w" "inTime (Some d) w \<longleftrightarrow> mw_clock w < d" "inTime deadline (w\<lparr>mw_server := s\<rparr>) = inTime deadline w"
  by (simp_all add: inTime_def split: option.split)

lemmas memEnv_simps = memEnv_def onServer_def snapAnswer_def memApi_def mem_put_def

lemma mem_deadline_api: "cfs_api (ne_api (memEnv deadline cost ckpt promote matches)) (\<lambda>w. ms_objs (mw_server w))"
  by unfold_locales
    (auto simp: memEnv_simps emptyStatus_def statusWritten_def rejected_def split: prod.splits option.splits if_splits)

interpretation me: live_env "memEnv deadline cost ckpt promote matches" "\<lambda>w. ms_objs (mw_server w)" "inTime deadline"
  for deadline cost ckpt promote matches
proof (intro live_env.intro mem_deadline_api live_env_axioms.intro)
qed (auto simp: memEnv_simps inTime_def Let_def split: prod.splits option.splits if_splits)

interpretation still: quiet_env "memEnv None cost ckpt promote matches" "\<lambda>w. ms_objs (mw_server w)"
  for cost ckpt promote matches
proof -
  have "inTime None = (\<lambda>_. True)" by (simp add: fun_eq_iff)
  with me.live_env_axioms [of None cost ckpt promote matches]
  show "quiet_env (memEnv None cost ckpt promote matches) (\<lambda>w. ms_objs (mw_server w))" by (simp add: quiet_env_def)
qed

section \<open>Properties\<close>


definition demo_pod :: kpod where
  "demo_pod = \<lparr>kp_Namespace = ''ns'', kp_Name = ''a'', kp_UID = ''1'',
     kp_Annotations = [''nvsnap.io/checkpoint-on-warm'' \<mapsto> ''true'', ''nvsnap.io/function-version-id'' \<mapsto> ''fv''],
     kp_Conditions = [(''Ready'', ''True'')], kp_Containers = [], kp_Terminating = False, kp_Phase = ''Running''\<rparr>"

definition demo_rec :: Reconciler where
  "demo_rec = \<lparr>rc_InferenceContainerName = [], rc_WarmupBuffer = 0, rc_CheckpointPollInterval = 0,
     rc_CheckpointTimeout = 0, rc_PromotePollInterval = 0, rc_PromotePollTimeout = 0, rc_CaptureLeaseTTL = 0\<rparr>"

definition demo_world :: memWorld where
  "demo_world = \<lparr>mw_server = race_world 1 (resetStatus warm0), mw_clock = 0\<rparr>"

text \<open>A server that refuses to capture, and a reconcile with a minute of time.\<close>

abbreviation refusingEnv :: "nat \<Rightarrow> memWorld nvsnap_env" where
  "refusingEnv cost \<equiv> memEnv (Some (60 * second)) cost (Inl (APIError 500)) (Inr ''ready'') []"

lemmas demo_reconcile_simps = Reconcile_def demo_rec_def demo_pod_def demo_world_def resolveDefaults_def Let_def getOrCreateCFS_def
  memEnv_simps race_world_def race_obj_def freshCFS_def warm0_def resetStatus_def emptyStatus_def cache_states persistLookup_def
  findInferenceContainer_def recoverExistingCapture_def shouldSuppressAttempt_def podReady_def claimAndCapture_def
  tryClaimCaptureLive_def captureClaimable_def claimWrite_def updateStatusOrSpec_def claimStatus_def runCapture_def
  defaultWarmupBuffer_def second_def recordFailure_def writeStatus_def fencePasses_def supersedes_def token_empty_def

lemma demo_reconcile:
  "\<exists>w'. Reconcile (refusingEnv 0) demo_rec (Some demo_pod) demo_world = (Inr (), w') \<and> mw_clock w' < 60 * second \<and>
     ms_objs (mw_server w') ''fv'' \<noteq> None"
  by (simp add: demo_reconcile_simps)


text \<open>
  The deadline passes while the server creates the checkpoint: the write that records the failure
  fails as well, its error is logged only, and the reconcile returns no error with the claim held.
\<close>

lemma cancelled_capture_keeps_claim:
  "\<exists>w' cur. Reconcile (refusingEnv (nat (60 * second))) demo_rec (Some demo_pod) demo_world = (Inr (), w') \<and>
     ms_objs (mw_server w') ''fv'' = Some cur \<and> CaptureOwner (cfs_status cur) = ''ns/a''"
  by (simp add: demo_reconcile_simps)

text \<open>
  The sweep spares captures in flight: when the object of a function has a claim whose lease has
  not run out and whose owner is alive, a sweep over a list that was read earlier leaves the object
  as it is, also when the list shows an older state of it.
\<close>

theorem sweep_spares_live_claims:
  assumes "quiet_env env view" and "view w fvID = Some obj" and "seen (view w fvID) listed"
    and "CaptureOwner (cfs_status obj) \<noteq> []"
    and "\<And>w. leaseLive (CaptureLeaseExpiry (cfs_status obj)) (ne_now env w)"
    and "\<And>w. claimOwnerAlive env w (CaptureOwner (cfs_status obj)) (CaptureOwnerUID (cfs_status obj))"
  shows "view (sweepOne env (fvID, listed) w) fvID = Some obj"
proof -
  obtain hash w1 where h: "findUsableCapture env (cfs_imageRef listed) (cfs_modelId listed) w = (hash, w1)" by force
  have v1: "view w1 fvID = Some obj" using live_env.findUsable_frame [OF quiet_env.axioms [OF assms(1)] h] assms(2) by simp
  obtain r w2 where s: "writeStatus (ne_api env) fvID (warmUpdate hash (ne_now env w1)) (sweepToken listed) w1 = (r, w2)" by force
  have v2: "view w2 fvID = Some obj" if "listed \<noteq> obj"
  proof -
    have "\<not> fencePasses (sweepToken listed) obj"
      using assms(2,3) that by (auto simp: seen_def fencePasses_def sweepToken_def)
    with cfs_api.writeStatus_effect [OF quiet_env_api [OF assms(1)] s] v1 show ?thesis by auto
  qed
  show ?thesis
  proof (cases "listed = obj")
    case True
    with assms(2,4-6) h v1 show ?thesis by (auto simp: sweepOne_def Let_def)
  next
    case False
    with assms(2) h v1 v2 s show ?thesis by (auto simp: sweepOne_def Let_def)
  qed
qed

text \<open>
  One pioneer: when the object exists and is neither warm nor failed, and no other replica holds
  the slot, the first replica proceeds, and while its lease lasts every other replica is deferred
  and told its name.
\<close>

theorem pioneer_serializes:
  assumes "quiet_env env view" and "view w fvID = Some obj" and "fvID \<noteq> []" and "a \<noteq> []" and "b \<noteq> a"
    and "LocalCacheState (cfs_status obj) \<notin> {LocalCacheStateWarm, LocalCacheStateFailed}"
    and "ColdStartPioneer (cfs_status obj) = []"
    and "shouldDeferColdStart env True fvID a w = (res, w1)" and "view w2 fvID = view w1 fvID"
    and "\<And>w' w''. ne_now env w'' < rfc3339 (ne_now env w' + DefaultColdStartPioneerLeaseTTL)"
  shows "res = None \<and> fst (shouldDeferColdStart env True fvID b w2) = Some (fvID, a)"
proof -
  note q = assms(1) and c = quiet_env_api [OF assms(1)]
  obtain u1 where g: "api_Get (ne_api env) fvID w = (Inr obj, u1)" using quiet_env.get_some [OF q assms(2)] by blast
  have v1: "view u1 fvID = Some obj" using cfs_api.get_frame [OF c g] assms(2) by simp
  obtain u2 where g2: "api_Get (ne_api env) fvID u1 = (Inr obj, u2)" using quiet_env.get_some [OF q v1] by blast
  have v2: "view u2 fvID = Some obj" using cfs_api.get_frame [OF c g2] v1 by simp
  let ?l = "ne_now env u1 + DefaultColdStartPioneerLeaseTTL"
  let ?n = "obj\<lparr>cfs_status := pioneerStatus a ?l (cfs_status obj)\<rparr>"
  obtain u3 where u: "updateStatusOrSpec (ne_api env) fvID ?n u2 = (Inr (), u3)"
    using quiet_env.write_some [OF q v2, of ?n] by auto
  have can: "pioneerClaimable a (ne_now env u1) (cfs_status obj)" using assms(6,7) by (simp add: pioneerClaimable_def)
  have "TryClaimColdStartPioneer (ne_api env) fvID a ?l (ne_now env u1) u1 = (Inr True, u3)"
    using g2 u can by (simp add: TryClaimColdStartPioneer_def claimWrite_def)
  then have first: "res = None" "w1 = u3"
    using assms(3,6,8) g by (auto simp: shouldDeferColdStart_def Let_def)
  obtain new where new: "view w2 fvID = Some new" "cfs_status new = pioneerStatus a ?l (cfs_status obj)"
    using written_status [OF cfs_api.write_ok [OF c u]] first(2) assms(9) by auto
  obtain x1 where x1: "api_Get (ne_api env) fvID w2 = (Inr new, x1)" using quiet_env.get_some [OF q new(1)] by blast
  have n1: "view x1 fvID = Some new" using cfs_api.get_frame [OF c x1] new(1) by simp
  obtain x2 where x2: "api_Get (ne_api env) fvID x1 = (Inr new, x2)" using quiet_env.get_some [OF q n1] by blast
  have n2: "view x2 fvID = Some new" using cfs_api.get_frame [OF c x2] n1 by simp
  obtain x3 where x3: "api_Get (ne_api env) fvID x2 = (Inr new, x3)" using quiet_env.get_some [OF q n2] by blast
  have "\<not> pioneerClaimable b (ne_now env x1) (cfs_status new)"
    using assms(4,5,10) new(2) by (auto simp: pioneerClaimable_def pioneerStatus_def leaseLive_def)
  then have "TryClaimColdStartPioneer (ne_api env) fvID b (ne_now env x1 + DefaultColdStartPioneerLeaseTTL) (ne_now env x1) x1 =
      (Inr False, x2)"
    using x2 by (simp add: TryClaimColdStartPioneer_def)
  moreover have "LocalCacheState (cfs_status new) = LocalCacheState (cfs_status obj)" using new(2) by (simp add: pioneerStatus_def)
  ultimately show ?thesis
    using first x1 x3 new(2) assms(3,6) by (simp add: shouldDeferColdStart_def Let_def pioneerStatus_def)
qed

text \<open>
  The first deployment is not serialized. The gate documents that an absent object takes part in
  the election, but the claim reads the object again, fails with not-found and the gate lets the
  replica pass: whatever replicas ask while the object does not exist, each proceeds and nothing is
  recorded, so all of them start cold.
\<close>

theorem absent_state_not_serialized:
  assumes "\<And>w. api_Get (ne_api env) fvID w = (Inl NotFound, w)"
  shows "fold (\<lambda>owner (out, w). case shouldDeferColdStart env True fvID owner w of (d, w') \<Rightarrow> (out @ [d], w')) owners ([], w) =
    (map (\<lambda>_. None) owners, w)"
proof -
  have one: "shouldDeferColdStart env True fvID owner w = (None, w)" for owner w
    using assms by (simp add: shouldDeferColdStart_def TryClaimColdStartPioneer_def Let_def cache_states)
  have "fold (\<lambda>owner (out, w). case shouldDeferColdStart env True fvID owner w of (d, w') \<Rightarrow> (out @ [d], w')) owners (out, w) =
      (out @ map (\<lambda>_. None) owners, w)" for out
    by (induction owners arbitrary: out) (simp_all add: one)
  then show ?thesis by simp
qed

text \<open>An environment with no object of any function.\<close>

definition emptyEnv :: "'w nvsnap_env" where
  "emptyEnv =
     \<lparr>ne_api = \<lparr>api_Get = (\<lambda>k w. (Inl NotFound, w)), api_Create = (\<lambda>k obj w. (Inl (ApiError ''denied''), w)),
        api_UpdateStatus = (\<lambda>k obj w. (Inl NotFound, w)), api_Update = (\<lambda>k obj w. (Inl NotFound, w)),
        api_List = (\<lambda>w. (Inr [], w))\<rparr>,
      ne_now = (\<lambda>_. 0), ne_getPod = (\<lambda>ns name w. Inl NotFound), ne_dropAnnotation = (\<lambda>ns name w. (Inr (), w)),
      ne_CreateCheckpoint = (\<lambda>ns name c w. (Inl (APIError 500), w)), ne_GetCheckpoint = (\<lambda>i w. (Inl (APIError 500), w)),
      ne_GetPVCPromoteState = (\<lambda>h w. (Inl (APIError 500), w)), ne_LookupCheckpoints = (\<lambda>img model w. (Inr [], w)),
      ne_dwell = (\<lambda>d w. (True, w)), ne_ticks = (\<lambda>timeout interval w. 0)\<rparr>"

text \<open>
  The derived lease covers the capture: with the lease left to its default, no time within the
  warm-up, checkpoint and promotion budget of a claim is past the expiry stored with it, although
  the stored expiry is cut to whole seconds. So a capture that keeps its timeouts is never taken
  over by an expired lease.
\<close>

lemma lease_covers_capture:
  assumes "rc_CaptureLeaseTTL rec0 = 0" and "r = resolveDefaults rec0"
    and "t \<le> claimNow + rc_WarmupBuffer r + rc_CheckpointTimeout r + rc_PromotePollTimeout r"
  shows "leaseLive (CaptureLeaseExpiry (claimStatus owner uid (claimNow + rc_CaptureLeaseTTL r) st)) t"
proof -
  have ttl: "rc_CaptureLeaseTTL r = rc_WarmupBuffer r + rc_CheckpointTimeout r + rc_PromotePollTimeout r + 5 * 60 * second"
    using assms(1,2) by (simp add: resolveDefaults_def Let_def)
  have "x - second < rfc3339 x" for x
    using pos_mod_bound [of 1000000000 x] div_mult_mod_eq [of x 1000000000] by (simp add: rfc3339_def second_def)
  from this [of "claimNow + rc_CaptureLeaseTTL r"] ttl assms(3) show ?thesis
    by (simp add: leaseLive_def claimStatus_def second_def)
qed

lemma backoffWindow_bounds: "1 \<le> n \<Longrightarrow> 5 * 60 * second \<le> backoffWindow n \<and> backoffWindow n \<le> 24 * 3600 * second"
proof -
  assume "1 \<le> n"
  then consider "n = 1" | "n = 2" | "n = 3" | "4 \<le> n" by linarith
  then show ?thesis by cases (simp_all add: backoffWindow_def checkpointBackoffSchedule_def second_def Let_def)
qed

text \<open>
  A failed attempt is not retried at once: after \<open>recordFailure\<close> of a claim holder at a time, the
  next attempts are suppressed exactly until that time, cut to seconds, plus the window of the new
  attempt count, which is at least five minutes and at most a day.
\<close>

theorem failed_attempt_backs_off:
  assumes "quiet_env env view" and "view w fvID = Some obj" and "fencePasses token obj"
    and "0 \<le> AttemptCount prev" and "AttemptCount prev < MaxInt64"
    and "recordFailure env fvID prev cause token w = (res, w')"
  shows "\<exists>cur window. view w' fvID = Some cur \<and> LastError (cfs_status cur) = cause \<and>
    window = backoffWindow (AttemptCount prev + 1) \<and> 5 * 60 * second \<le> window \<and> window \<le> 24 * 3600 * second \<and>
    (\<forall>now. shouldSuppressAttempt (cfs_status cur) now \<noteq> None \<longleftrightarrow> now < rfc3339 (ne_now env w) + window)"
proof -
  let ?upd = "\<lparr>upd_CheckpointHash = CheckpointHash prev, upd_CapturedHere = CapturedHere prev, upd_CapturedAt = CapturedAt prev,
      upd_LocalCacheState = LocalCacheState prev, upd_AttemptCount = add64 (AttemptCount prev) 1,
      upd_LastError = cause, upd_LastAttemptAt = Some (ne_now env w)\<rparr>"
  have count: "add64 (AttemptCount prev) 1 = AttemptCount prev + 1"
    using assms(4,5) by (intro add64_id) (simp add: in_i64_def)
  note live = quiet_env.axioms [OF assms(1)]
  have holds: "live_env.holds view w fvID token" using assms(2,3) by (auto simp: live_env.holds_def [OF live])
  obtain r where r: "writeStatus (ne_api env) fvID ?upd token w = (r, w')" using assms(6) by (auto simp: recordFailure_def split: prod.splits)
  with live_env.writeStatus_releases(2) [OF live r TrueI holds]
  have "writeStatus (ne_api env) fvID ?upd token w = (Inr (), w')" by simp
  from cfs_api.writeStatus_atomic [OF quiet_env_api [OF assms(1)] this] assms(2)
  obtain new where new: "view w' fvID = Some new" "cfs_status new = terminalStatus ?upd (cfs_status obj)" by auto
  note window = backoffWindow_bounds [of "AttemptCount prev + 1"]
  have "\<forall>now. shouldSuppressAttempt (cfs_status new) now \<noteq> None \<longleftrightarrow>
      now < rfc3339 (ne_now env w) + backoffWindow (AttemptCount prev + 1)"
    using new(2) assms(4) window by (auto simp: shouldSuppressAttempt_def terminalStatus_def count Let_def second_def)
  with new window assms(4) show ?thesis by (auto simp: terminalStatus_def)
qed

end
