(* ===== verification/NvSnapCatalog.thy ===== *)
theory NvSnapCatalog
  imports GoTime Float64 "HOL-Library.Multiset"
begin

text \<open>
  The checkpoint catalog of the NvSnap server (\<open>nvsnap/internal/db/checkpoint.go\<close>, \<open>dedupe.go\<close>,
  \<open>retention.go\<close>).

  The table is a list of rows; a statement acts on it as a whole. The primary key and the partial
  unique index on the hash are checked by every statement that writes those columns, and a violation
  leaves the table as it was. The order SQLite gives to rows that compare equal is open, so a query
  with an \<open>ORDER BY\<close> takes the order as an argument. The engine flags are stored as a JSON array,
  whose text determines the list, so the column is the list..
\<close>

section \<open>Rows\<close>

record CkInfo =
  ci_Namespace :: string
  ci_PodName :: string
  ci_ContainerName :: string
  ci_ContainerImage :: string
  ci_NodeName :: string
  ci_HasGPU :: bool
  ci_ModelName :: string
  ci_WorkloadType :: string

text \<open>The descriptive part of the content identity, which only the upsert writes.\<close>

record CkIdentity =
  ck_ImageDigest :: string
  ck_GPUType :: string
  ck_GPUCount :: i64
  ck_DriverVersion :: string
  ck_CUDAVersion :: string
  ck_CPUArchitecture :: string
  ck_FunctionName :: string
  ck_FunctionVersionID :: string

record CheckpointRow =
  cr_ID :: string
  cr_CheckpointID :: string
  cr_Info :: CkInfo
  cr_CheckpointPath :: string
  cr_CheckpointSize :: i64
  cr_Status :: string
  cr_Message :: string
  cr_CreatedAt :: int
  cr_StartedAt :: "int option"
  cr_CompletedAt :: "int option"
  cr_DurationSecs :: f64
  cr_Hash :: string
  cr_ImageRef :: string
  cr_ModelID :: string
  cr_EngineFlags :: "string list"
  cr_DriverMajor :: i64
  cr_Identity :: CkIdentity
  cr_PVCName :: string
  cr_PVCPromoteState :: string

type_synonym catalog = "CheckpointRow list"

datatype db_error = UniqueID | UniqueHash | NoRows | ImageRefRequired | CheckpointNotFound

definition createdText :: "CheckpointRow \<Rightarrow> time_text" where
  "createdText r = RFC3339Nano (cr_CreatedAt r)"

definition noIdentity :: CkIdentity where
  "noIdentity = \<lparr>ck_ImageDigest = [], ck_GPUType = [], ck_GPUCount = 0, ck_DriverVersion = [], ck_CUDAVersion = [],
     ck_CPUArchitecture = [], ck_FunctionName = [], ck_FunctionVersionID = []\<rparr>"

text \<open>The primary key and the partial unique index.\<close>

definition catalog_inv :: "catalog \<Rightarrow> bool" where
  "catalog_inv t \<longleftrightarrow> distinct (map cr_ID t) \<and> distinct (filter (\<lambda>h. h \<noteq> []) (map cr_Hash t))"

section \<open>Content identity\<close>

definition isHex :: "char \<Rightarrow> bool" where
  "isHex c \<longleftrightarrow> CHR ''0'' \<le> c \<and> c \<le> CHR ''9'' \<or> CHR ''a'' \<le> c \<and> c \<le> CHR ''f'' \<or> CHR ''A'' \<le> c \<and> c \<le> CHR ''F''"

definition looksLikeHash :: "string \<Rightarrow> bool" where
  "looksLikeHash s \<longleftrightarrow> length s = 64 \<and> (\<forall>c \<in> set s. isHex c)"

definition normalizeCheckpointHash :: "CheckpointRow \<Rightarrow> CheckpointRow" where
  "normalizeCheckpointHash c = (if cr_Hash c = [] \<and> looksLikeHash (cr_ID c) then c\<lparr>cr_Hash := cr_ID c\<rparr> else c)"

definition checkpointIdentity :: "CheckpointRow \<Rightarrow> string" where
  "checkpointIdentity c = (if cr_Hash c \<noteq> [] then cr_Hash c else cr_ID c)"

text \<open>The loop over the arguments, with its flag \<open>skip\<close>.\<close>

fun stripModel :: "bool \<Rightarrow> string list \<Rightarrow> string list" where
  "stripModel skip [] = []"
| "stripModel skip (a # as) =
     (if skip then stripModel False as
      else if a = ''--model'' \<or> a = ''--model-path'' then stripModel True as
      else if HasPrefix a ''--model='' \<or> HasPrefix a ''--model-path='' then stripModel False as
      else a # stripModel False as)"

definition canonicalizeEngineFlags :: "string list \<Rightarrow> string list" where
  "canonicalizeEngineFlags flags = (if flags = [] then [] else sort (stripModel False flags))"

definition parseDriverMajor :: "string \<Rightarrow> i64" where
  "parseDriverMajor v =
     (if v = [] then 0 else case ParseInt (hd (Split v (CHR ''.''))) of None \<Rightarrow> 0 | Some n \<Rightarrow> n)"

section \<open>Writing rows\<close>

definition createdOr :: "int \<Rightarrow> CheckpointRow \<Rightarrow> CheckpointRow" where
  "createdOr now c = (if cr_CreatedAt c = zeroTime then c\<lparr>cr_CreatedAt := now\<rparr> else c)"

definition insertRow :: "CheckpointRow \<Rightarrow> catalog \<Rightarrow> db_error + catalog" where
  "insertRow r t =
     (if \<exists>x \<in> set t. cr_ID x = cr_ID r then Inl UniqueID
      else if cr_Hash r \<noteq> [] \<and> (\<exists>x \<in> set t. cr_Hash x = cr_Hash r) then Inl UniqueHash
      else Inr (t @ [r]))"

text \<open>The statement of \<open>CreateCheckpoint\<close> names no column of the content identity: they keep their defaults.\<close>

definition CreateCheckpoint :: "int \<Rightarrow> CheckpointRow \<Rightarrow> catalog \<Rightarrow> db_error + catalog" where
  "CreateCheckpoint now c0 t =
     (let c = normalizeCheckpointHash (createdOr now c0)
      in insertRow
           (c\<lparr>cr_StartedAt := map_option rfc3339 (cr_StartedAt c), cr_CompletedAt := None,
              cr_Hash := [], cr_ImageRef := [], cr_ModelID := [], cr_EngineFlags := [], cr_DriverMajor := 0,
              cr_Identity := noIdentity, cr_PVCName := [], cr_PVCPromoteState := []\<rparr>) t)"

definition adoptIDByHash :: "CheckpointRow \<Rightarrow> catalog \<Rightarrow> CheckpointRow" where
  "adoptIDByHash c t =
     (if cr_Hash c = [] then c
      else case List.find (\<lambda>r. cr_Hash r = cr_Hash c) t of None \<Rightarrow> c | Some r \<Rightarrow> c\<lparr>cr_ID := cr_ID r\<rparr>)"

text \<open>The values of the statement, and the statement: an insert that updates the row of the same id.\<close>

definition upsertValues :: "int \<Rightarrow> CheckpointRow \<Rightarrow> CheckpointRow" where
  "upsertValues now c0 =
     (let c = normalizeCheckpointHash (createdOr now c0)
      in c\<lparr>cr_StartedAt := map_option rfc3339 (cr_StartedAt c), cr_CompletedAt := map_option rfc3339 (cr_CompletedAt c),
           cr_DriverMajor := (if cr_DriverMajor c = 0 \<and> ck_DriverVersion (cr_Identity c) \<noteq> []
                              then parseDriverMajor (ck_DriverVersion (cr_Identity c)) else cr_DriverMajor c),
           cr_EngineFlags := canonicalizeEngineFlags (cr_EngineFlags c)\<rparr>)"

definition refreshRow :: "CheckpointRow \<Rightarrow> CheckpointRow \<Rightarrow> CheckpointRow" where
  "refreshRow excluded r =
     excluded\<lparr>cr_ID := cr_ID r, cr_CheckpointID := cr_CheckpointID r, cr_CreatedAt := cr_CreatedAt r,
        cr_StartedAt := cr_StartedAt r, cr_PVCName := cr_PVCName r, cr_PVCPromoteState := cr_PVCPromoteState r\<rparr>"

definition upsertExec :: "CheckpointRow \<Rightarrow> catalog \<Rightarrow> db_error + catalog" where
  "upsertExec c t =
     (if \<exists>x \<in> set t. cr_ID x = cr_ID c then
        if cr_Hash c \<noteq> [] \<and> (\<exists>x \<in> set t. cr_ID x \<noteq> cr_ID c \<and> cr_Hash x = cr_Hash c) then Inl UniqueHash
        else Inr (map (\<lambda>r. if cr_ID r = cr_ID c then refreshRow c r else r) t)
      else insertRow c t)"

text \<open>
  Other writers act between the statements of an upsert: \<open>t0\<close> is the table its first query reads, \<open>t1\<close>
  the one its first write meets, \<open>t2\<close> and \<open>t3\<close> those of the second attempt. The result is the id the
  row has and the table after the write.
\<close>

definition upsertWith ::
    "int \<Rightarrow> CheckpointRow \<Rightarrow> catalog \<Rightarrow> catalog \<Rightarrow> catalog \<Rightarrow> catalog \<Rightarrow> db_error + (string \<times> catalog)" where
  "upsertWith now c0 t0 t1 t2 t3 =
     (let c = adoptIDByHash (upsertValues now c0) t0
      in case upsertExec c t1 of
           Inr t' \<Rightarrow> Inr (cr_ID c, t')
         | Inl e \<Rightarrow>
             if cr_Hash c \<noteq> [] \<and> e = UniqueHash then
               let c' = adoptIDByHash c t2
               in (case upsertExec c' t3 of Inr t' \<Rightarrow> Inr (cr_ID c', t') | Inl e' \<Rightarrow> Inl e')
             else Inl e)"

definition UpsertCheckpoint :: "int \<Rightarrow> CheckpointRow \<Rightarrow> catalog \<Rightarrow> db_error + (string \<times> catalog)" where
  "UpsertCheckpoint now c t = upsertWith now c t t t t"

definition UpdatePVCPromoteStateByHash :: "string \<Rightarrow> string \<Rightarrow> string \<Rightarrow> catalog \<Rightarrow> i64 \<times> catalog" where
  "UpdatePVCPromoteStateByHash hash state pvcName t =
     (int (length (filter (\<lambda>r. cr_Hash r = hash) t)),
      map (\<lambda>r. if cr_Hash r = hash
               then r\<lparr>cr_PVCPromoteState := state, cr_PVCName := (if pvcName \<noteq> [] then pvcName else cr_PVCName r)\<rparr> else r) t)"

text \<open>\<open>t0\<close> is the table the query reads, \<open>t\<close> the one the writes meet.\<close>

definition updateStatusWith ::
    "int \<Rightarrow> string \<Rightarrow> string \<Rightarrow> string \<Rightarrow> string \<Rightarrow> string \<Rightarrow> i64 \<Rightarrow> f64 \<Rightarrow> catalog \<Rightarrow> catalog \<Rightarrow> db_error + catalog" where
  "updateStatusWith now i status message path hash sz dur t0 t =
     (let completedAt = (if status = ''Completed'' \<or> status = ''Failed'' then Some (rfc3339 now) else None);
          other = (if hash = [] then None else List.find (\<lambda>r. cr_Hash r = hash \<and> cr_ID r \<noteq> i) t0)
      in case other of
           Some o' \<Rightarrow>
             Inr (filter (\<lambda>r. cr_ID r \<noteq> i)
                   (map (\<lambda>r. if cr_ID r = cr_ID o'
                             then r\<lparr>cr_Status := status, cr_Message := message,
                                    cr_CheckpointPath := (if path \<noteq> [] then path else cr_CheckpointPath r),
                                    cr_CheckpointSize := max (cr_CheckpointSize r) sz, cr_DurationSecs := dur,
                                    cr_CompletedAt := (case completedAt of None \<Rightarrow> cr_CompletedAt r | Some x \<Rightarrow> Some x)\<rparr>
                             else r) t))
         | None \<Rightarrow>
             if hash \<noteq> [] \<and> (\<exists>r \<in> set t. cr_ID r = i) \<and> (\<exists>r \<in> set t. cr_ID r \<noteq> i \<and> cr_Hash r = hash) then Inl UniqueHash
             else Inr (map (\<lambda>r. if cr_ID r = i
                             then r\<lparr>cr_Status := status, cr_Message := message, cr_CheckpointPath := path,
                                    cr_CheckpointSize := sz, cr_DurationSecs := dur, cr_CompletedAt := completedAt,
                                    cr_Hash := (if hash \<noteq> [] then hash else cr_Hash r)\<rparr>
                             else r) t))"

definition UpdateCheckpointStatus ::
    "int \<Rightarrow> string \<Rightarrow> string \<Rightarrow> string \<Rightarrow> string \<Rightarrow> string \<Rightarrow> i64 \<Rightarrow> f64 \<Rightarrow> catalog \<Rightarrow> db_error + catalog" where
  "UpdateCheckpointStatus now i status message path hash sz dur t = updateStatusWith now i status message path hash sz dur t t"

definition DeleteCheckpoint :: "string \<Rightarrow> catalog \<Rightarrow> catalog" where
  "DeleteCheckpoint i t = filter (\<lambda>r. cr_ID r \<noteq> i) t"

definition DeleteByHash :: "string \<Rightarrow> catalog \<Rightarrow> i64 \<times> catalog" where
  "DeleteByHash hash t =
     (if hash = [] then (0, t)
      else (int (length (filter (\<lambda>r. cr_Hash r = hash \<or> cr_ID r = hash) t)), filter (\<lambda>r. \<not> (cr_Hash r = hash \<or> cr_ID r = hash)) t))"

section \<open>Reading rows\<close>

text \<open>One order SQLite may give: that of the table, or its reverse.\<close>

definition scanOrder :: "bool \<Rightarrow> catalog \<Rightarrow> catalog" where
  "scanOrder asc rows = (if asc then sort_key createdText rows else rev (sort_key createdText rows))"

definition GetPVCPromoteStateByHash :: "(bool \<Rightarrow> catalog \<Rightarrow> catalog) \<Rightarrow> string \<Rightarrow> catalog \<Rightarrow> db_error + (string \<times> string)" where
  "GetPVCPromoteStateByHash orderBy hash t =
     (case orderBy False (filter (\<lambda>r. cr_Hash r = hash) t) of
        [] \<Rightarrow> Inl NoRows
      | r # _ \<Rightarrow> Inr (cr_PVCPromoteState r, cr_PVCName r))"

definition GetCheckpoint :: "string \<Rightarrow> catalog \<Rightarrow> db_error + CheckpointRow" where
  "GetCheckpoint i t =
     (case List.find (\<lambda>r. cr_ID r = i) t of None \<Rightarrow> Inl CheckpointNotFound | Some r \<Rightarrow> Inr (normalizeCheckpointHash r))"

definition ListByHash :: "(bool \<Rightarrow> catalog \<Rightarrow> catalog) \<Rightarrow> string \<Rightarrow> catalog \<Rightarrow> catalog" where
  "ListByHash orderBy hash t = (if hash = [] then [] else orderBy False (filter (\<lambda>r. cr_Hash r = hash) t))"

record LookupCriteria =
  lc_ImageRef :: string
  lc_ModelID :: string
  lc_EngineFlags :: "string list"
  lc_DriverMajor :: i64
  lc_Limit :: i64

definition lookupMatches :: "LookupCriteria \<Rightarrow> CheckpointRow \<Rightarrow> bool" where
  "lookupMatches c r \<longleftrightarrow>
     cr_Status r = ''Completed'' \<and> cr_Hash r \<noteq> [] \<and> cr_ImageRef r = lc_ImageRef c \<and>
     ci_WorkloadType (cr_Info r) \<noteq> ''criu-instance'' \<and>
     (lc_ModelID c \<noteq> [] \<longrightarrow> cr_ModelID r = lc_ModelID c) \<and>
     (lc_DriverMajor c > 0 \<longrightarrow> cr_DriverMajor r = lc_DriverMajor c) \<and>
     cr_EngineFlags r = canonicalizeEngineFlags (lc_EngineFlags c)"

definition LookupCheckpoints ::
    "(bool \<Rightarrow> catalog \<Rightarrow> catalog) \<Rightarrow> LookupCriteria \<Rightarrow> catalog \<Rightarrow> db_error + catalog" where
  "LookupCheckpoints orderBy c t =
     (if lc_ImageRef c = [] then Inl ImageRefRequired
      else
        let limit = (if lc_Limit c \<le> 0 then 10 else lc_Limit c);
            limit = (if limit > 100 then 100 else limit)
        in Inr (take (nat limit) (orderBy False (filter (lookupMatches c) t))))"

record CheckpointFilter =
  cf_Namespace :: string
  cf_PodName :: string
  cf_NodeName :: string
  cf_Status :: string
  cf_WorkloadType :: string
  cf_HasGPU :: "bool option"
  cf_Cursor :: "time_text option"
  cf_Limit :: i64
  cf_SortOrder :: string

definition buildCheckpointConditions :: "CheckpointFilter \<Rightarrow> CheckpointRow \<Rightarrow> bool" where
  "buildCheckpointConditions f r \<longleftrightarrow>
     (cf_Namespace f \<noteq> [] \<longrightarrow> ci_Namespace (cr_Info r) = cf_Namespace f) \<and>
     (cf_PodName f \<noteq> [] \<longrightarrow> ci_PodName (cr_Info r) = cf_PodName f) \<and>
     (cf_NodeName f \<noteq> [] \<longrightarrow> ci_NodeName (cr_Info r) = cf_NodeName f) \<and>
     (cf_Status f \<noteq> [] \<longrightarrow> cr_Status r = cf_Status f) \<and>
     (cf_WorkloadType f \<noteq> [] \<longrightarrow> ci_WorkloadType (cr_Info r) = cf_WorkloadType f) \<and>
     (case cf_HasGPU f of None \<Rightarrow> True | Some b \<Rightarrow> ci_HasGPU (cr_Info r) = b)"

record PagedResult =
  pr_Items :: catalog
  pr_Total :: i64
  pr_NextCursor :: "time_text option"
  pr_HasMore :: bool

text \<open>The condition a cursor adds to the query.\<close>

definition beyondCursor :: "bool \<Rightarrow> time_text \<Rightarrow> CheckpointRow \<Rightarrow> bool" where
  "beyondCursor asc cursor r \<longleftrightarrow> (if asc then cursor < createdText r else createdText r < cursor)"

definition ListCheckpointsPaged :: "(bool \<Rightarrow> catalog \<Rightarrow> catalog) \<Rightarrow> CheckpointFilter \<Rightarrow> catalog \<Rightarrow> PagedResult" where
  "ListCheckpointsPaged orderBy f t =
     (let matching = filter (buildCheckpointConditions f) t;
          asc = (cf_SortOrder f = ''asc'');
          after = (case cf_Cursor f of
                     None \<Rightarrow> matching
                   | Some cursor \<Rightarrow> filter (beyondCursor asc cursor) matching);
          limit = (if cf_Limit f \<le> 0 then 100 else cf_Limit f);
          limit = (if limit > 1000 then 1000 else limit);
          items = take (nat limit + 1) (orderBy asc after);
          hasMore = (int (length items) > limit);
          items = (if hasMore then take (nat limit) items else items)
      in \<lparr>pr_Items = items, pr_Total = int (length matching),
          pr_NextCursor = (if hasMore \<and> items \<noteq> [] then Some (createdText (last items)) else None), pr_HasMore = hasMore\<rparr>)"

definition ListCheckpoints :: "(bool \<Rightarrow> catalog \<Rightarrow> catalog) \<Rightarrow> CheckpointFilter \<Rightarrow> catalog \<Rightarrow> catalog" where
  "ListCheckpoints orderBy f t = pr_Items (ListCheckpointsPaged orderBy f t)"

section \<open>One row per capture\<close>

definition checkpointMoreComplete :: "CheckpointRow \<Rightarrow> CheckpointRow \<Rightarrow> bool" where
  "checkpointMoreComplete a b =
     (let ac = (cr_Status a = ''Completed''); bc = (cr_Status b = ''Completed'')
      in if ac \<noteq> bc then ac
         else if cr_CheckpointSize a \<noteq> cr_CheckpointSize b then cr_CheckpointSize a > cr_CheckpointSize b
         else cr_CreatedAt b < cr_CreatedAt a)"

fun matchLoop :: "string \<Rightarrow> CheckpointRow option \<Rightarrow> catalog \<Rightarrow> CheckpointRow option" where
  "matchLoop idOrHash best [] = best"
| "matchLoop idOrHash best (x # xs) =
     (let r = normalizeCheckpointHash x
      in if cr_ID r \<noteq> idOrHash \<and> cr_Hash r \<noteq> idOrHash then matchLoop idOrHash best xs
         else matchLoop idOrHash
                (case best of None \<Rightarrow> Some r | Some b \<Rightarrow> if checkpointMoreComplete r b then Some r else Some b) xs)"

definition MatchCheckpointByIDOrHash :: "catalog \<Rightarrow> string \<Rightarrow> CheckpointRow option" where
  "MatchCheckpointByIDOrHash rows idOrHash = (if idOrHash = [] then None else matchLoop idOrHash None rows)"

text \<open>The map \<open>best\<close> with its list of keys \<open>order\<close> is an association list in the order of insertion.\<close>

fun dedupeLoop :: "(string \<times> CheckpointRow) list \<Rightarrow> catalog \<Rightarrow> (string \<times> CheckpointRow) list" where
  "dedupeLoop best [] = best"
| "dedupeLoop best (x # xs) =
     (let r = normalizeCheckpointHash x; k = checkpointIdentity r
      in case map_of best k of
           Some cur \<Rightarrow>
             dedupeLoop (if checkpointMoreComplete r cur then map (\<lambda>(k', v). (k', if k' = k then r else v)) best else best) xs
         | None \<Rightarrow> dedupeLoop (best @ [(k, r)]) xs)"

definition DedupeCheckpointsByHash :: "catalog \<Rightarrow> catalog" where
  "DedupeCheckpointsByHash rows = sort_key (\<lambda>r. - cr_CreatedAt r) (map snd (dedupeLoop [] rows))"

definition ListCheckpointsDeduped :: "(bool \<Rightarrow> catalog \<Rightarrow> catalog) \<Rightarrow> CheckpointFilter \<Rightarrow> catalog \<Rightarrow> catalog" where
  "ListCheckpointsDeduped orderBy f t =
     DedupeCheckpointsByHash (ListCheckpoints orderBy (if cf_Limit f \<le> 0 then f\<lparr>cf_Limit := 1000\<rparr> else f) t)"

section \<open>Retention\<close>

record RetentionPolicy =
  rp_Name :: string
  rp_Enabled :: bool
  rp_Namespace :: string
  rp_WorkloadType :: string
  rp_MaxCount :: i64
  rp_MaxAgeHours :: i64
  rp_MaxTotalBytes :: i64

definition retentionScope :: "RetentionPolicy \<Rightarrow> CheckpointRow \<Rightarrow> bool" where
  "retentionScope p r \<longleftrightarrow>
     cr_Status r = ''Completed'' \<and>
     (rp_Namespace p \<noteq> ''*'' \<longrightarrow> ci_Namespace (cr_Info r) = rp_Namespace p) \<and>
     (rp_WorkloadType p \<noteq> ''*'' \<longrightarrow> ci_WorkloadType (cr_Info r) = rp_WorkloadType p)"

fun uniqueIDs :: "string list \<Rightarrow> catalog \<Rightarrow> catalog" where
  "uniqueIDs seen [] = []"
| "uniqueIDs seen (r # rs) = (if cr_ID r \<in> set seen then uniqueIDs seen rs else r # uniqueIDs (cr_ID r # seen) rs)"

definition FindExpiredCheckpoints ::
    "(bool \<Rightarrow> catalog \<Rightarrow> catalog) \<Rightarrow> int \<Rightarrow> RetentionPolicy \<Rightarrow> catalog \<Rightarrow> catalog" where
  "FindExpiredCheckpoints orderBy now p t =
     (let cutoff = RFC3339 (now + mul64 (neg64 (rp_MaxAgeHours p)) (3600 * 1000000000));
          old = (if rp_MaxAgeHours p > 0
                 then orderBy True (filter (\<lambda>r. retentionScope p r \<and> createdText r < cutoff) t) else []);
          beyond = (if rp_MaxCount p > 0
                    then drop (nat (rp_MaxCount p)) (orderBy False (filter (retentionScope p) t)) else [])
      in uniqueIDs [] (old @ beyond))"

section \<open>The order of a query\<close>

text \<open>What \<open>ORDER BY created_at\<close> gives, ascending or descending: a permutation in the order of the texts.\<close>

locale row_order =
  fixes orderBy :: "bool \<Rightarrow> catalog \<Rightarrow> catalog"
  assumes order_rows: "mset (orderBy asc rows) = mset rows"
    and order_asc: "sorted (map createdText (orderBy True rows))"
    and order_desc: "sorted (map createdText (rev (orderBy False rows)))"
begin

lemma order_set [simp]: "set (orderBy asc rows) = set rows"
  using order_rows [of asc rows] by (metis set_mset_mset)

lemma order_length [simp]: "length (orderBy asc rows) = length rows"
  using order_rows [of asc rows] by (metis size_mset)

lemma order_empty [simp]: "orderBy asc [] = []"
  using order_rows [of asc "[]"] by simp

lemma order_distinct: "distinct (map createdText rows) \<Longrightarrow> distinct (map createdText (orderBy asc rows))"
  using order_rows [of asc rows] by (metis mset_eq_imp_distinct_iff mset_map)

text \<open>With distinct texts there is only one order.\<close>

lemma order_unique:
  assumes "set xs = set rows" and "distinct (map createdText rows)" and "distinct (map createdText xs)"
    and "sorted (map createdText (if asc then xs else rev xs))"
  shows "orderBy asc rows = xs"
proof -
  let ?o = "if asc then orderBy asc rows else rev (orderBy asc rows)" and ?x = "if asc then xs else rev xs"
  have "inj_on createdText (set rows)" using assms(2) by (simp add: distinct_map)
  moreover have "sorted (map createdText ?o)" using order_asc order_desc by (cases asc) auto
  moreover have "distinct (map createdText ?o)" using order_distinct [OF assms(2)]
    by (simp flip: rev_map)
  moreover have "distinct (map createdText ?x)" using assms(3) by (simp flip: rev_map)
  ultimately have "?o = ?x"
    using assms(1,4) by (intro map_sorted_distinct_set_unique [of createdText]) auto
  then show ?thesis by (cases asc) auto
qed

text \<open>The rows after the first \<open>k\<close> are those beyond the text of the last of them.\<close>

lemma order_drop:
  assumes "distinct (map createdText rows)" and "0 < k" and "k \<le> length rows"
    and "c = createdText (orderBy asc rows ! (k - 1))"
  shows "orderBy asc (filter (beyondCursor asc c) rows) = drop k (orderBy asc rows)"
proof (rule order_unique)
  let ?L = "orderBy asc rows"
  have d: "distinct (map createdText ?L)" by (rule order_distinct [OF assms(1)])
  have s: "sorted (map createdText (if asc then ?L else rev ?L))" using order_asc order_desc by (cases asc) auto
  have lt: "(if asc then createdText (?L ! i) < createdText (?L ! j) else createdText (?L ! j) < createdText (?L ! i))"
    if "i < j" "j < length rows" for i j
  proof -
    have ne: "createdText (?L ! i) \<noteq> createdText (?L ! j)"
      using d that by (force simp: distinct_conv_nth)
    have "if asc then createdText (?L ! i) \<le> createdText (?L ! j) else createdText (?L ! j) \<le> createdText (?L ! i)"
    proof (cases asc)
      case True
      then show ?thesis using s that sorted_nth_mono [of "map createdText ?L" i j] by auto
    next
      case False
      then have "sorted_wrt (\<lambda>x y. createdText y \<le> createdText x) ?L"
        using s by (simp add: sorted_wrt_map sorted_wrt_rev)
      then show ?thesis using False that by (auto simp: sorted_wrt_iff_nth_less)
    qed
    with ne show ?thesis by (cases asc) auto
  qed
  let ?P = "beyondCursor asc c"
  have iff: "?P (?L ! j) \<longleftrightarrow> k \<le> j" if "j < length rows" for j
  proof (cases "k \<le> j")
    case True
    then have "k - 1 < j" using assms(2) by simp
    from lt [OF this that] assms(4) True show ?thesis by (cases asc) (auto simp: beyondCursor_def)
  next
    case False
    then have "j = k - 1 \<or> j < k - 1 \<and> k - 1 < length rows" using assms(2,3) by linarith
    then have "\<not> ?P (?L ! j)"
    proof
      assume "j < k - 1 \<and> k - 1 < length rows"
      with lt [of j "k - 1"] assms(4) show ?thesis by (cases asc) (auto simp: beyondCursor_def)
    qed (simp add: assms(4) beyondCursor_def)
    with False show ?thesis by simp
  qed
  have "set (filter ?P rows) = set (filter ?P ?L)" by simp
  also have "filter ?P ?L = drop k ?L"
  proof -
    have "filter ?P ?L = filter ?P (take k ?L) @ filter ?P (drop k ?L)" by (metis append_take_drop_id filter_append)
    moreover have "filter ?P (take k ?L) = []"
      using iff assms(3) by (force simp: filter_empty_conv in_set_conv_nth)
    moreover have "filter ?P (drop k ?L) = drop k ?L"
      using iff by (force simp: filter_id_conv in_set_conv_nth)
    ultimately show ?thesis by simp
  qed
  finally show "set (drop k ?L) = set (filter ?P rows)" by simp
  show "distinct (map createdText (filter ?P rows))" using assms(1) by (simp add: distinct_map_filter)
  show "distinct (map createdText (drop k ?L))" using d by (simp flip: drop_map)
  show "sorted (map createdText (if asc then drop k ?L else rev (drop k ?L)))"
    using s by (auto simp: rev_drop simp flip: drop_map take_map intro: sorted_wrt_drop sorted_wrt_take)
qed

end

interpretation scan: row_order scanOrder
  by unfold_locales (auto simp: scanOrder_def)

section \<open>Paging\<close>

text \<open>A client that follows the cursors, at most \<open>n\<close> pages.\<close>

fun pages :: "(bool \<Rightarrow> catalog \<Rightarrow> catalog) \<Rightarrow> CheckpointFilter \<Rightarrow> catalog \<Rightarrow> nat \<Rightarrow> catalog" where
  "pages orderBy f t 0 = []"
| "pages orderBy f t (Suc n) =
     (let p = ListCheckpointsPaged orderBy f t
      in pr_Items p @ (case pr_NextCursor p of None \<Rightarrow> [] | Some c \<Rightarrow> pages orderBy (f\<lparr>cf_Cursor := Some c\<rparr>) t n))"

definition pageLimit :: "CheckpointFilter \<Rightarrow> nat" where
  "pageLimit f = nat (if cf_Limit f \<le> 0 then 100 else if cf_Limit f > 1000 then 1000 else cf_Limit f)"

lemma pageLimit_pos: "0 < pageLimit f"
  by (simp add: pageLimit_def)

definition afterCursor :: "CheckpointFilter \<Rightarrow> catalog \<Rightarrow> catalog" where
  "afterCursor f rows =
     (case cf_Cursor f of
        None \<Rightarrow> rows
      | Some c \<Rightarrow> filter (beyondCursor (cf_SortOrder f = ''asc'') c) rows)"

text \<open>A page is a prefix of the rows after the cursor; it has a cursor when rows are left.\<close>

lemma page_prefix:
  assumes "rest = orderBy (cf_SortOrder f = ''asc'') (afterCursor f (filter (buildCheckpointConditions f) t))"
  shows "pr_Items (ListCheckpointsPaged orderBy f t) = take (pageLimit f) rest"
    and "pr_NextCursor (ListCheckpointsPaged orderBy f t) =
      (if pageLimit f < length rest then Some (createdText (rest ! (pageLimit f - 1))) else None)"
proof -
  have n: "0 < pageLimit f" by (rule pageLimit_pos)
  then have l: "last (take (pageLimit f) rest) = rest ! (pageLimit f - 1)" if "pageLimit f < length rest"
    using that by (subst last_conv_nth) auto
  let ?lim = "if cf_Limit f \<le> 0 then 100 else cf_Limit f" and ?p = "ListCheckpointsPaged orderBy f t"
  have lim: "(if ?lim > 1000 then 1000 else ?lim) = int (pageLimit f)" by (simp add: pageLimit_def)
  let ?items = "take (pageLimit f + 1) rest" and ?more = "pageLimit f < length rest"
  have eq: "?p = \<lparr>pr_Items = (if ?more then take (pageLimit f) ?items else ?items),
      pr_Total = int (length (filter (buildCheckpointConditions f) t)),
      pr_NextCursor = (if ?more \<and> take (pageLimit f) ?items \<noteq> [] then Some (createdText (last (take (pageLimit f) ?items))) else None),
      pr_HasMore = ?more\<rparr>"
    unfolding ListCheckpointsPaged_def Let_def lim nat_int assms afterCursor_def [symmetric] by auto
  show "pr_Items ?p = take (pageLimit f) rest" by (auto simp: eq)
  show "pr_NextCursor ?p = (if ?more then Some (createdText (rest ! (pageLimit f - 1))) else None)"
    using l n by (auto simp: eq)
qed

context row_order
begin

lemma pages_from:
  assumes "L = orderBy (cf_SortOrder f = ''asc'') (filter (buildCheckpointConditions f) t)"
    and "distinct (map createdText (filter (buildCheckpointConditions f) t))"
    and "k \<le> length L" and "cf_Cursor f = (if k = 0 then None else Some (createdText (L ! (k - 1))))"
    and "length L - k < n"
  shows "pages orderBy f t n = drop k L"
  using assms
proof (induction n arbitrary: f k)
  case (Suc n)
  let ?asc = "cf_SortOrder f = ''asc''" and ?rows = "filter (buildCheckpointConditions f) t"
  have rest: "drop k L = orderBy ?asc (afterCursor f ?rows)"
    using Suc.prems(1-4) order_drop [OF Suc.prems(2), of k "createdText (L ! (k - 1))" ?asc]
    by (cases "k = 0") (auto simp: afterCursor_def)
  note page = page_prefix [of "drop k L" orderBy f t, OF rest]
  let ?m = "k + pageLimit f" and ?f = "f\<lparr>cf_Cursor := Some (createdText (drop k L ! (pageLimit f - 1)))\<rparr>"
  have pos: "0 < pageLimit f" by (rule pageLimit_pos)
  have same: "buildCheckpointConditions ?f = buildCheckpointConditions f"
    by (simp add: buildCheckpointConditions_def fun_eq_iff)
  show ?case
  proof (cases "pageLimit f < length (drop k L)")
    case True
    have "pages orderBy ?f t n = drop ?m L"
      by (rule Suc.IH) (use Suc.prems True pos same in \<open>auto simp: Suc_diff_le\<close>)
    with True page Suc.prems(3) show ?thesis
      by (simp add: Let_def) (metis append_take_drop_id drop_drop add.commute)
  next
    case False
    with page show ?thesis by (simp add: Let_def)
  qed
qed simp

lemma paging_enumerates:
  assumes "distinct (map createdText (filter (buildCheckpointConditions f) t))" and "cf_Cursor f = None" and "length t < n"
  shows "pages orderBy f t n = orderBy (cf_SortOrder f = ''asc'') (filter (buildCheckpointConditions f) t)"
proof -
  have "length (filter (buildCheckpointConditions f) t) < n" using assms(3) le_less_trans [OF length_filter_le] by blast
  then show ?thesis using pages_from [OF refl assms(1), of 0 n] assms(2) by simp
qed

end

end
