(* ===== verification/NvSnapCatalogSpec.thy ===== *)
theory NvSnapCatalogSpec
  imports NvSnapCatalog
begin

text \<open>
  What the catalog promises: the canonical form of the engine flags, one row per content hash whatever
  writers interleave, the deduplicated list, and paging.
\<close>

section \<open>Canonical flags\<close>

definition modelToken :: "string \<Rightarrow> bool" where
  "modelToken a \<longleftrightarrow> a = ''--model'' \<or> a = ''--model-path'' \<or> HasPrefix a ''--model='' \<or> HasPrefix a ''--model-path=''"

lemma stripModel_tokens: "a \<in> set (stripModel skip as) \<Longrightarrow> \<not> modelToken a"
  by (induction skip as rule: stripModel.induct) (auto simp: modelToken_def split: if_splits)

lemma stripModel_id: "\<forall>a \<in> set as. \<not> modelToken a \<Longrightarrow> stripModel False as = as"
  by (induction as) (auto simp: modelToken_def)

lemma canonicalizeEngineFlags_sort: "canonicalizeEngineFlags flags = sort (stripModel False flags)"
  by (simp add: canonicalizeEngineFlags_def)

lemma canonicalizeEngineFlags_idem: "canonicalizeEngineFlags (canonicalizeEngineFlags flags) = canonicalizeEngineFlags flags"
  using stripModel_tokens by (simp add: canonicalizeEngineFlags_sort stripModel_id sorted_sort_id)

section \<open>One row per hash\<close>

text \<open>
  A table with an id and a hash per row: inserting, writing over the row of the same id, and renaming
  a row to the id that owns its hash. \<open>refresh\<close> is what a write keeps of the row it replaces.
\<close>

locale keyed_table =
  fixes idf hf :: "'r \<Rightarrow> string" and refresh :: "'r \<Rightarrow> 'r \<Rightarrow> 'r" and rename :: "string \<Rightarrow> 'r \<Rightarrow> 'r"
  assumes refresh_id [simp]: "idf (refresh c r) = idf r" and refresh_hash [simp]: "hf (refresh c r) = hf c"
    and rename_id [simp]: "idf (rename i c) = i" and rename_hash [simp]: "hf (rename i c) = hf c"
begin

definition keys :: "'r list \<Rightarrow> bool" where
  "keys t \<longleftrightarrow> distinct (map idf t) \<and> distinct (filter (\<lambda>h. h \<noteq> []) (map hf t))"

definition put :: "'r \<Rightarrow> 'r list \<Rightarrow> db_error + 'r list" where
  "put c t =
     (if \<exists>x \<in> set t. idf x = idf c then
        if hf c \<noteq> [] \<and> (\<exists>x \<in> set t. idf x \<noteq> idf c \<and> hf x = hf c) then Inl UniqueHash
        else Inr (map (\<lambda>r. if idf r = idf c then refresh c r else r) t)
      else if hf c \<noteq> [] \<and> (\<exists>x \<in> set t. hf x = hf c) then Inl UniqueHash
      else Inr (t @ [c]))"

definition adopt :: "'r \<Rightarrow> 'r list \<Rightarrow> 'r" where
  "adopt c t = (if hf c = [] then c else case List.find (\<lambda>r. hf r = hf c) t of None \<Rightarrow> c | Some r \<Rightarrow> rename (idf r) c)"

text \<open>The row a write leaves: the row of the id, refreshed, or the new row.\<close>

definition result :: "'r \<Rightarrow> 'r list \<Rightarrow> 'r" where
  "result c t = (case List.find (\<lambda>r. idf r = idf c) t of None \<Rightarrow> c | Some r \<Rightarrow> refresh c r)"

lemma keys_iff:
  "keys t \<longleftrightarrow> distinct (map idf t) \<and> (\<forall>r \<in> set t. \<forall>s \<in> set t. idf r \<noteq> idf s \<and> hf r = hf s \<longrightarrow> hf r = [])"
proof (cases "distinct (map idf t)")
  case True
  then have d: "distinct t" and i: "inj_on idf (set t)" by (auto simp: distinct_map)
  have "distinct (filter (\<lambda>h. h \<noteq> []) (map hf t)) \<longleftrightarrow> inj_on hf {r \<in> set t. hf r \<noteq> []}"
    using d by (simp add: filter_map o_def distinct_map)
  also have "\<dots> \<longleftrightarrow> (\<forall>r \<in> set t. \<forall>s \<in> set t. idf r \<noteq> idf s \<and> hf r = hf s \<longrightarrow> hf r = [])"
    using i by (auto simp: inj_on_def)
  finally show ?thesis using True by (simp add: keys_def)
qed (simp add: keys_def)

lemma same_id: "keys t \<Longrightarrow> r \<in> set t \<Longrightarrow> s \<in> set t \<Longrightarrow> idf r = idf s \<Longrightarrow> r = s"
  by (auto simp: keys_def distinct_map dest: inj_onD)

lemma same_hash: "keys t \<Longrightarrow> r \<in> set t \<Longrightarrow> s \<in> set t \<Longrightarrow> hf r = hf s \<Longrightarrow> hf r \<noteq> [] \<Longrightarrow> r = s"
  using same_id unfolding keys_iff by blast

text \<open>A statement that rewrites rows in place keeps the keys when it keeps the ids and duplicates no hash.\<close>

lemma keys_map:
  assumes "keys t" and "\<And>r. r \<in> set t \<Longrightarrow> idf (f r) = idf r"
    and "\<And>r s. r \<in> set t \<Longrightarrow> s \<in> set t \<Longrightarrow> hf (f r) = hf (f s) \<Longrightarrow> hf (f r) \<noteq> [] \<Longrightarrow> idf r = idf s"
  shows "keys (map f t)"
proof -
  have "map idf (map f t) = map idf t" using assms(2) by simp
  moreover have "hf r = []" if "r \<in> set (map f t)" "s \<in> set (map f t)" "idf r \<noteq> idf s" "hf r = hf s" for r s
    using that assms(2,3) unfolding set_map by (metis imageE)
  ultimately show ?thesis using assms(1) unfolding keys_iff by metis
qed

lemma keys_filter: "keys t \<Longrightarrow> keys (filter P t)"
  by (auto simp: keys_iff distinct_map_filter)

lemma keys_snoc: "keys t \<Longrightarrow> \<forall>x \<in> set t. idf x \<noteq> idf r \<Longrightarrow> hf r = [] \<or> (\<forall>x \<in> set t. hf x \<noteq> hf r) \<Longrightarrow> keys (t @ [r])"
  by (auto simp: keys_iff)

lemma put_keys:
  assumes "keys t" and "put c t = Inr t'"
  shows "keys t'"
proof (cases "\<exists>x \<in> set t. idf x = idf c")
  case True
  with assms(2) have t': "t' = map (\<lambda>r. if idf r = idf c then refresh c r else r) t"
    and no: "hf c = [] \<or> (\<forall>x \<in> set t. idf x \<noteq> idf c \<longrightarrow> hf x \<noteq> hf c)"
    by (auto simp: put_def split: if_splits)
  show ?thesis unfolding t'
    by (rule keys_map [OF assms(1)]) (use no assms(1) in \<open>auto simp: keys_iff split: if_splits\<close>)
next
  case False
  with assms show ?thesis by (auto simp: put_def intro!: keys_snoc split: if_splits)
qed

lemma find_id: "keys t \<Longrightarrow> r \<in> set t \<Longrightarrow> idf r = i \<Longrightarrow> List.find (\<lambda>x. idf x = i) t = Some r"
  by (cases "List.find (\<lambda>x. idf x = i) t") (auto simp: find_None_iff dest!: find_SomeD dest: same_id)

lemma find_hash: "keys t \<Longrightarrow> r \<in> set t \<Longrightarrow> hf r = h \<Longrightarrow> h \<noteq> [] \<Longrightarrow> List.find (\<lambda>x. hf x = h) t = Some r"
  by (cases "List.find (\<lambda>x. hf x = h) t") (auto simp: find_None_iff dest!: find_SomeD dest: same_hash)

lemma put_rows:
  assumes "keys t" and "put c t = Inr t'"
  shows "set t' = insert (result c t) {r \<in> set t. idf r \<noteq> idf c}"
proof (cases "\<exists>x \<in> set t. idf x = idf c")
  case True
  then obtain x where x: "x \<in> set t" "idf x = idf c" by blast
  have w: "result c t = refresh c x" using find_id [OF assms(1) x] by (simp add: result_def)
  have only: "(r \<in> set t \<and> idf r = idf c) = (r = x)" for r
    using same_id [OF assms(1) _ x(1)] x by metis
  from True assms(2) have "t' = map (\<lambda>r. if idf r = idf c then refresh c r else r) t"
    by (auto simp: put_def split: if_splits)
  then have "set t' = refresh c ` {r. r \<in> set t \<and> idf r = idf c} \<union> {r \<in> set t. idf r \<noteq> idf c}" by auto
  then show ?thesis using w unfolding only by simp
next
  case False
  then have "List.find (\<lambda>r. idf r = idf c) t = None" by (simp add: find_None_iff)
  with False assms(2) show ?thesis by (auto simp: put_def result_def split: if_splits)
qed

lemma result_fields [simp]: "hf (result c t) = hf c" "idf (result c t) = idf c"
  by (auto simp: result_def dest: find_SomeD split: option.splits)

lemma adopt_hash [simp]: "hf (adopt c t) = hf c"
  by (auto simp: adopt_def split: option.splits)

text \<open>A write right after the id was adopted meets no row of its hash under another id.\<close>

lemma adopted_put:
  assumes "keys t"
  shows "\<exists>t'. put (adopt c t) t = Inr t'"
proof (cases "hf c = [] \<or> (\<forall>r \<in> set t. hf r \<noteq> hf c)")
  case True
  then have "adopt c t = c" by (auto simp: adopt_def find_Some_iff split: option.splits)
  with True show ?thesis by (auto simp: put_def)
next
  case False
  then obtain r where r: "r \<in> set t" "hf r = hf c" "hf c \<noteq> []" by blast
  have "adopt c t = rename (idf r) c" using find_hash [OF assms r] r(3) by (simp add: adopt_def)
  moreover have "\<not> (\<exists>x \<in> set t. idf x \<noteq> idf r \<and> hf x = hf c)" using same_hash [OF assms _ r(1)] r by metis
  ultimately show ?thesis using r(1) by (auto simp: put_def)
qed

lemma put_error: "put c t = Inl e \<Longrightarrow> e = UniqueHash \<and> hf c \<noteq> []"
  by (auto simp: put_def split: if_splits)

text \<open>After a write there is one row of the hash, the one written.\<close>

lemma put_unique:
  assumes "keys t" and "put c t = Inr t'" and "hf c \<noteq> []" and "r \<in> set t'" and "hf r = hf c"
  shows "r = result c t"
  using same_hash [OF put_keys [OF assms(1,2)] assms(4), of "result c t"] put_rows [OF assms(1,2)] assms(3,5)
  by auto

end

interpretation rows: keyed_table cr_ID cr_Hash refreshRow "\<lambda>i c. c\<lparr>cr_ID := i\<rparr>"
  by unfold_locales (simp_all add: refreshRow_def)

lemma catalog_inv_keys: "catalog_inv = rows.keys"
  by (rule ext) (simp only: catalog_inv_def rows.keys_def)

lemma upsertExec_put: "upsertExec c t = rows.put c t"
  unfolding upsertExec_def insertRow_def rows.put_def by simp

lemma adoptIDByHash_adopt: "adoptIDByHash = rows.adopt"
  by (rule ext, rule ext) (simp only: adoptIDByHash_def rows.adopt_def)

lemmas catalog_simps = catalog_inv_keys upsertExec_put adoptIDByHash_adopt

text \<open>What an upsert of the values \<open>v\<close> under the id \<open>i\<close> leaves for its capture.\<close>

definition upserted :: "CheckpointRow \<Rightarrow> string \<Rightarrow> catalog \<Rightarrow> CheckpointRow" where
  "upserted v i t =
     (case List.find (\<lambda>r. cr_ID r = i) t of None \<Rightarrow> v\<lparr>cr_ID := i\<rparr> | Some r \<Rightarrow> refreshRow (v\<lparr>cr_ID := i\<rparr>) r)"

lemma adopt_rename: "adoptIDByHash c t = c\<lparr>cr_ID := cr_ID (adoptIDByHash c t)\<rparr>"
  unfolding adoptIDByHash_def by (simp split: option.splits)

definition upsert_done :: "CheckpointRow \<Rightarrow> string \<Rightarrow> catalog \<Rightarrow> catalog \<Rightarrow> bool" where
  "upsert_done v i t t' \<longleftrightarrow>
     catalog_inv t' \<and> {r \<in> set t'. cr_Hash r = cr_Hash v} = {upserted v i t} \<and>
     {r \<in> set t'. cr_ID r \<noteq> i} = {r \<in> set t. cr_ID r \<noteq> i}"

lemma upsert_done_row: "upsert_done v i t t' \<Longrightarrow> upserted v i t \<in> set t' \<and> cr_Hash (upserted v i t) = cr_Hash v"
  unfolding upsert_done_def by (metis (mono_tags, lifting) mem_Collect_eq singletonI)

lemma exec_done:
  assumes "catalog_inv t" and "upsertExec (v\<lparr>cr_ID := i\<rparr>) t = Inr t'" and "cr_Hash v \<noteq> []"
  shows "upsert_done v i t t'"
proof -
  let ?c = "v\<lparr>cr_ID := i\<rparr>"
  have k: "rows.keys t" and p: "rows.put ?c t = Inr t'" using assms by (simp_all add: catalog_simps)
  have u: "rows.result ?c t = upserted v i t" by (simp add: rows.result_def upserted_def)
  have f: "cr_ID (upserted v i t) = i" "cr_Hash (upserted v i t) = cr_Hash v"
    using rows.result_fields [of ?c t] unfolding u by simp_all
  have s: "set t' = insert (upserted v i t) {r \<in> set t. cr_ID r \<noteq> i}" using rows.put_rows [OF k p] u by simp
  have "{r \<in> set t'. cr_Hash r = cr_Hash v} = {upserted v i t}"
    using rows.put_unique [OF k p] assms(3) s f u by auto
  moreover have "{r \<in> set t'. cr_ID r \<noteq> i} = {r \<in> set t. cr_ID r \<noteq> i}" using s f(1) by auto
  moreover have "catalog_inv t'" using rows.put_keys [OF k p] by (simp add: catalog_simps)
  ultimately show ?thesis by (simp add: upsert_done_def)
qed

lemma upsertValues_hash: "cr_Hash (upsertValues now c) = (if cr_Hash c = [] \<and> looksLikeHash (cr_ID c) then cr_ID c else cr_Hash c)"
  by (auto simp: upsertValues_def normalizeCheckpointHash_def createdOr_def Let_def)

lemma upsertWith_done:
  assumes "catalog_inv t1" and "catalog_inv t2" and "cr_Hash (upsertValues now c) \<noteq> []"
  shows "\<exists>i t t'. upsertWith now c t0 t1 t2 t2 = Inr (i, t') \<and> t \<in> {t1, t2} \<and> upsert_done (upsertValues now c) i t t'"
proof -
  let ?v = "upsertValues now c"
  let ?c = "adoptIDByHash ?v t0"
  let ?d = "adoptIDByHash ?c t2"
  have c: "?c = ?v\<lparr>cr_ID := cr_ID ?c\<rparr>" by (rule adopt_rename)
  have d: "?d = ?v\<lparr>cr_ID := cr_ID ?d\<rparr>" using adopt_rename [of ?c t2] c by (metis CheckpointRow.update_convs(1) CheckpointRow.surjective)
  have h: "cr_Hash ?c \<noteq> []" using assms(3) by (simp add: catalog_simps)
  obtain t3 where t3: "upsertExec ?d t2 = Inr t3" using rows.adopted_put assms(2) by (auto simp: catalog_simps)
  show ?thesis
  proof (cases "upsertExec ?c t1")
    case (Inl e)
    then have "e = UniqueHash" using rows.put_error by (auto simp: catalog_simps)
    then have "upsertWith now c t0 t1 t2 t2 = Inr (cr_ID ?d, t3)"
      using Inl h t3 by (simp add: upsertWith_def Let_def)
    moreover have "upsert_done ?v (cr_ID ?d) t2 t3"
      by (rule exec_done [OF assms(2) _ assms(3)]) (use d t3 in simp)
    ultimately show ?thesis by blast
  next
    case (Inr t')
    then have "upsertWith now c t0 t1 t2 t2 = Inr (cr_ID ?c, t')" by (simp add: upsertWith_def Let_def)
    moreover have "upsert_done ?v (cr_ID ?c) t1 t'"
      by (rule exec_done [OF assms(1) _ assms(3)]) (use c Inr in simp)
    ultimately show ?thesis by blast
  qed
qed

text \<open>Completing a capture never meets the index, and folds the row into the one that has the hash.\<close>

lemma UpdateCheckpointStatus_ok:
  assumes "catalog_inv t"
  shows "\<exists>t'. UpdateCheckpointStatus now i status msg path hash sz dur t = Inr t' \<and> catalog_inv t'"
proof -
  let ?other = "if hash = [] then None else List.find (\<lambda>r. cr_Hash r = hash \<and> cr_ID r \<noteq> i) t"
  have k: "rows.keys t" using assms by (simp add: catalog_simps)
  show ?thesis
  proof (cases ?other)
    case None
    then have no: "hash \<noteq> [] \<Longrightarrow> cr_ID r \<noteq> i \<Longrightarrow> r \<in> set t \<Longrightarrow> cr_Hash r \<noteq> hash" for r
      by (auto simp: find_None_iff split: if_splits)
    let ?f = "\<lambda>r. if cr_ID r = i
        then r\<lparr>cr_Status := status, cr_Message := msg, cr_CheckpointPath := path, cr_CheckpointSize := sz,
               cr_DurationSecs := dur,
               cr_CompletedAt := (if status = ''Completed'' \<or> status = ''Failed'' then Some (rfc3339 now) else None),
               cr_Hash := (if hash \<noteq> [] then hash else cr_Hash r)\<rparr>
        else r"
    have "rows.keys (map ?f t)"
    proof (rule rows.keys_map [OF k])
      fix r s assume rs: "r \<in> set t" "s \<in> set t" "cr_Hash (?f r) = cr_Hash (?f s)" "cr_Hash (?f r) \<noteq> []"
      show "cr_ID r = cr_ID s"
      proof (rule ccontr)
        assume d: "cr_ID r \<noteq> cr_ID s"
        with rs no have "cr_Hash r = cr_Hash s \<and> cr_Hash r \<noteq> []" by (auto split: if_splits)
        with rows.same_hash [OF k rs(1,2)] d show False by auto
      qed
    qed simp
    moreover have "UpdateCheckpointStatus now i status msg path hash sz dur t = Inr (map ?f t)"
      using None no by (auto simp: UpdateCheckpointStatus_def updateStatusWith_def Let_def)
    ultimately show ?thesis by (simp add: catalog_simps)
  next
    case (Some x)
    have "rows.keys (map (\<lambda>r. if cr_ID r = cr_ID x
              then r\<lparr>cr_Status := status, cr_Message := msg,
                     cr_CheckpointPath := (if path \<noteq> [] then path else cr_CheckpointPath r),
                     cr_CheckpointSize := max (cr_CheckpointSize r) sz, cr_DurationSecs := dur,
                     cr_CompletedAt := (case (if status = ''Completed'' \<or> status = ''Failed'' then Some (rfc3339 now) else None)
                        of None \<Rightarrow> cr_CompletedAt r | Some y \<Rightarrow> Some y)\<rparr>
              else r) t)"
      by (rule rows.keys_map [OF k]) (use rows.same_hash [OF k] in \<open>auto split: if_splits\<close>)
    then show ?thesis using Some rows.keys_filter
      by (simp add: UpdateCheckpointStatus_def updateStatusWith_def Let_def catalog_simps)
  qed
qed

section \<open>The deduplicated list\<close>

definition completeness :: "CheckpointRow \<Rightarrow> bool \<times> int \<times> int" where
  "completeness r = (cr_Status r = ''Completed'', cr_CheckpointSize r, cr_CreatedAt r)"

lemma checkpointMoreComplete_order: "checkpointMoreComplete a b \<longleftrightarrow> completeness b < completeness a"
  by (auto simp: checkpointMoreComplete_def completeness_def Let_def less_prod_def')

text \<open>The loop over \<open>rows\<close> has the best row of each identity among those it has seen, \<open>seen\<close>.\<close>

definition best_rows :: "(string \<times> CheckpointRow) list \<Rightarrow> CheckpointRow set \<Rightarrow> bool" where
  "best_rows best seen \<longleftrightarrow>
     distinct (map fst best) \<and> fst ` set best = checkpointIdentity ` seen \<and>
     (\<forall>(k, v) \<in> set best. checkpointIdentity v = k \<and> v \<in> seen \<and>
        (\<forall>x \<in> seen. checkpointIdentity x = k \<longrightarrow> \<not> checkpointMoreComplete x v))"

lemma best_rowsI:
  "distinct (map fst best) \<Longrightarrow> fst ` set best = checkpointIdentity ` seen \<Longrightarrow>
   (\<And>k v. (k, v) \<in> set best \<Longrightarrow> checkpointIdentity v = k \<and> v \<in> seen) \<Longrightarrow>
   (\<And>k v x. (k, v) \<in> set best \<Longrightarrow> x \<in> seen \<Longrightarrow> checkpointIdentity x = k \<Longrightarrow> \<not> checkpointMoreComplete x v) \<Longrightarrow>
   best_rows best seen"
  unfolding best_rows_def by blast

lemma best_rowsD:
  assumes "best_rows best seen"
  shows "distinct (map fst best)" and "fst ` set best = checkpointIdentity ` seen"
    and "(k, v) \<in> set best \<Longrightarrow> checkpointIdentity v = k"
    and "(k, v) \<in> set best \<Longrightarrow> v \<in> seen"
    and "(k, v) \<in> set best \<Longrightarrow> x \<in> seen \<Longrightarrow> checkpointIdentity x = k \<Longrightarrow> \<not> checkpointMoreComplete x v"
  using assms unfolding best_rows_def by blast+

lemma best_rows_new:
  assumes "best_rows best seen" and "k = checkpointIdentity r" and "map_of best k = None"
  shows "best_rows (best @ [(k, r)]) (insert r seen)"
proof (rule best_rowsI)
  have nf: "k \<notin> fst ` set best" using assms(3) by (simp add: map_of_eq_None_iff)
  then show "distinct (map fst (best @ [(k, r)]))" using best_rowsD(1) [OF assms(1)] by simp
  show "fst ` set (best @ [(k, r)]) = checkpointIdentity ` insert r seen"
    using best_rowsD(2) [OF assms(1)] assms(2) by simp
  show "checkpointIdentity v = k' \<and> v \<in> insert r seen" if "(k', v) \<in> set (best @ [(k, r)])" for k' v
    using that best_rowsD(3,4) [OF assms(1)] assms(2) by auto
  show "\<not> checkpointMoreComplete x v"
    if "(k', v) \<in> set (best @ [(k, r)])" "x \<in> insert r seen" "checkpointIdentity x = k'" for k' v x
  proof (cases "k' = k")
    case True
    have "x \<notin> seen" using nf best_rowsD(2) [OF assms(1)] that(3) True by (metis imageI)
    moreover have "(k, v) \<notin> set best" using nf by (metis fst_conv imageI)
    ultimately have "x = r \<and> v = r" using that True by auto
    then show ?thesis by (simp add: checkpointMoreComplete_order)
  next
    case False
    then have "(k', v) \<in> set best" "x \<in> seen" using that assms(2) by auto
    then show ?thesis using best_rowsD(5) [OF assms(1)] that(3) by blast
  qed
qed

lemma best_rows_replace:
  assumes "best_rows best seen" and "k = checkpointIdentity r" and "map_of best k = Some cur" and "checkpointMoreComplete r cur"
  shows "best_rows (map (\<lambda>(k', v). (k', if k' = k then r else v)) best) (insert r seen)"
proof (rule best_rowsI)
  let ?b = "map (\<lambda>(k', v). (k', if k' = k then r else v)) best"
  have c: "(k, cur) \<in> set best" using assms(3) by (rule map_of_SomeD)
  have fsts: "map fst ?b = map fst best" by (simp add: case_prod_beta)
  show "distinct (map fst ?b)" unfolding fsts by (rule best_rowsD(1) [OF assms(1)])
  have "k \<in> checkpointIdentity ` seen" using c best_rowsD(2) [OF assms(1)] by (metis fst_conv imageI)
  then show "fst ` set ?b = checkpointIdentity ` insert r seen"
    using best_rowsD(2) [OF assms(1)] arg_cong [OF fsts, of set] assms(2) by (simp add: insert_absorb image_image)
  have entry: "(k', v) \<in> set ?b \<Longrightarrow> if k' = k then v = r else (k', v) \<in> set best" for k' v by (auto split: if_splits)
  show "checkpointIdentity v = k' \<and> v \<in> insert r seen" if "(k', v) \<in> set ?b" for k' v
    using entry [OF that] best_rowsD(3,4) [OF assms(1)] assms(2) by (cases "k' = k") auto
  have top: "\<not> checkpointMoreComplete x r" if "x \<in> insert r seen" "checkpointIdentity x = k" for x
    using best_rowsD(5) [OF assms(1) c, of x] that assms(4) by (auto simp: checkpointMoreComplete_order)
  show "\<not> checkpointMoreComplete x v" if "(k', v) \<in> set ?b" "x \<in> insert r seen" "checkpointIdentity x = k'" for k' v x
    using entry [OF that(1)] top best_rowsD(5) [OF assms(1), of k' v x] that(2,3) assms(2) by (cases "k' = k") auto
qed

lemma best_rows_keep:
  assumes "best_rows best seen" and "k = checkpointIdentity r" and "map_of best k = Some cur" and "\<not> checkpointMoreComplete r cur"
  shows "best_rows best (insert r seen)"
proof (rule best_rowsI)
  have c: "(k, cur) \<in> set best" using assms(3) by (rule map_of_SomeD)
  show d: "distinct (map fst best)" by (rule best_rowsD(1) [OF assms(1)])
  have "k \<in> checkpointIdentity ` seen" using c best_rowsD(2) [OF assms(1)] by (metis fst_conv imageI)
  then show "fst ` set best = checkpointIdentity ` insert r seen"
    using best_rowsD(2) [OF assms(1)] assms(2) by (simp add: insert_absorb)
  show "checkpointIdentity v = k' \<and> v \<in> insert r seen" if "(k', v) \<in> set best" for k' v
    using that best_rowsD(3,4) [OF assms(1)] by blast
  show "\<not> checkpointMoreComplete x v" if "(k', v) \<in> set best" "x \<in> insert r seen" "checkpointIdentity x = k'" for k' v x
  proof (cases "x \<in> seen")
    case True
    then show ?thesis using best_rowsD(5) [OF assms(1) that(1)] that(3) by blast
  next
    case False
    then have "x = r" "k' = k" using that assms(2) by auto
    then show ?thesis using eq_key_imp_eq_value [OF d that(1), of cur] c assms(4) by simp
  qed
qed

lemma dedupeLoop_best: "best_rows best seen \<Longrightarrow> best_rows (dedupeLoop best rows) (seen \<union> normalizeCheckpointHash ` set rows)"
proof (induction rows arbitrary: best seen)
  case (Cons x xs)
  let ?r = "normalizeCheckpointHash x"
  note step = best_rows_new [OF Cons.prems refl, of ?r] best_rows_replace [OF Cons.prems refl, of ?r]
    best_rows_keep [OF Cons.prems refl, of ?r]
  show ?case using step [THEN Cons.IH]
    by (cases "map_of best (checkpointIdentity ?r)") (simp_all add: Let_def)
qed simp

section \<open>Example rows\<close>

definition demo_row :: "string \<Rightarrow> string \<Rightarrow> int \<Rightarrow> CheckpointRow" where
  "demo_row i hash created =
     \<lparr>cr_ID = i, cr_CheckpointID = i,
      cr_Info = \<lparr>ci_Namespace = ''ns'', ci_PodName = ''p'', ci_ContainerName = [], ci_ContainerImage = [], ci_NodeName = ''n'',
        ci_HasGPU = True, ci_ModelName = [], ci_WorkloadType = []\<rparr>,
      cr_CheckpointPath = [], cr_CheckpointSize = 0, cr_Status = ''Completed'', cr_Message = [], cr_CreatedAt = created,
      cr_StartedAt = None, cr_CompletedAt = None, cr_DurationSecs = F64 0 0, cr_Hash = hash, cr_ImageRef = ''img'',
      cr_ModelID = ''m'', cr_EngineFlags = [], cr_DriverMajor = 0, cr_Identity = noIdentity, cr_PVCName = [],
      cr_PVCPromoteState = []\<rparr>"

lemma demo_row_fields [simp]:
  "cr_ID (demo_row i h c) = i" "cr_Hash (demo_row i h c) = h" "cr_CreatedAt (demo_row i h c) = c"
  "cr_Status (demo_row i h c) = ''Completed''" "cr_ImageRef (demo_row i h c) = ''img''" "cr_ModelID (demo_row i h c) = ''m''"
  "cr_EngineFlags (demo_row i h c) = []" "ci_WorkloadType (cr_Info (demo_row i h c)) = []"
  "ci_Namespace (cr_Info (demo_row i h c)) = ''ns''" "cr_DriverMajor (demo_row i h c) = 0"
  by (simp_all add: demo_row_def)

lemma demo_row_inject [simp]: "demo_row i h c = demo_row i' h' c' \<longleftrightarrow> i = i' \<and> h = h' \<and> c = c'"
  by (auto simp: demo_row_def)

definition allRows :: "i64 \<Rightarrow> CheckpointFilter" where
  "allRows limit = \<lparr>cf_Namespace = [], cf_PodName = [], cf_NodeName = [], cf_Status = [], cf_WorkloadType = [], cf_HasGPU = None,
     cf_Cursor = None, cf_Limit = limit, cf_SortOrder = []\<rparr>"

lemma allRows_simps [simp]:
  "buildCheckpointConditions (allRows n) r" "cf_Cursor (allRows n) = None" "cf_SortOrder (allRows n) = []" "cf_Limit (allRows n) = n"
  by (simp_all add: buildCheckpointConditions_def allRows_def)

lemma demo_texts:
  "RFC3339Nano 100000000 = (0, ''.1Z'')" "RFC3339Nano 120000000 = (0, ''.12Z'')" "RFC3339Nano 0 = (0, ''Z'')"
  by (simp_all add: RFC3339Nano_def Let_def trimZeros_def nineDigits_def show_nat.simps char_of_def bit_Suc_0_iff)

section \<open>Properties\<close>

text \<open>
  C20. One row per capture. An upsert of a capture with a hash succeeds whatever other writers do before
  its last attempt: whether they change the table between its query and its first write is irrelevant,
  since a write that meets the hash under another id is repeated for that id. Afterwards the table is
  well formed, there is exactly one row of the hash, it has the new values but keeps the creation time
  and the promotion state of the row it replaces, and the rows of other ids are as they were.
\<close>

theorem upsert_one_row:
  assumes "catalog_inv t1" and "catalog_inv t2" and "cr_Hash (upsertValues now c) \<noteq> []"
  shows "\<exists>i t t'. upsertWith now c t0 t1 t2 t2 = Inr (i, t') \<and> t \<in> {t1, t2} \<and> catalog_inv t' \<and>
     {r \<in> set t'. cr_Hash r = cr_Hash (upsertValues now c)} = {upserted (upsertValues now c) i t} \<and>
     {r \<in> set t'. cr_ID r \<noteq> i} = {r \<in> set t. cr_ID r \<noteq> i}"
  using upsertWith_done [OF assms] unfolding upsert_done_def by blast

theorem upsert_one_row_witness:
  "\<exists>i t'. upsertWith 7 (demo_row ''a'' ''h'' 5) [] [demo_row ''b'' ''h'' 3] [demo_row ''b'' ''h'' 3] [demo_row ''b'' ''h'' 3] = Inr (i, t') \<and>
     catalog_inv t' \<and> (\<exists>r. {x \<in> set t'. cr_Hash x = ''h''} = {r})"
proof -
  have "catalog_inv [demo_row ''b'' ''h'' 3]" by (simp add: catalog_inv_def)
  moreover have "cr_Hash (upsertValues 7 (demo_row ''a'' ''h'' 5)) = ''h''" by (simp add: upsertValues_hash)
  ultimately show ?thesis
    using upsert_one_row [of "[demo_row ''b'' ''h'' 3]" "[demo_row ''b'' ''h'' 3]" 7 "demo_row ''a'' ''h'' 5" "[]"] by auto
qed

text \<open>
  The deduplicated list. For any rows, hash or not, it has every capture once, by its hash or else its
  id; the row it shows is one of the rows of that capture, and no row of the capture is more complete;
  the newest comes first.
\<close>

theorem dedupe_keeps_best:
  "distinct (map checkpointIdentity (DedupeCheckpointsByHash rows)) \<and>
   checkpointIdentity ` set (DedupeCheckpointsByHash rows) = checkpointIdentity ` normalizeCheckpointHash ` set rows \<and>
   (\<forall>r \<in> set (DedupeCheckpointsByHash rows). r \<in> normalizeCheckpointHash ` set rows \<and>
      (\<forall>x \<in> normalizeCheckpointHash ` set rows. checkpointIdentity x = checkpointIdentity r \<longrightarrow> \<not> checkpointMoreComplete x r)) \<and>
   sorted (rev (map cr_CreatedAt (DedupeCheckpointsByHash rows)))"
proof -
  let ?best = "dedupeLoop [] rows" and ?D = "DedupeCheckpointsByHash rows"
  have b: "best_rows ?best (normalizeCheckpointHash ` set rows)"
    using dedupeLoop_best [of "[]" "{}" rows] by (simp add: best_rows_def)
  then have key: "map checkpointIdentity (map snd ?best) = map fst ?best" unfolding best_rows_def by auto
  have s: "set ?D = snd ` set ?best" by (simp add: DedupeCheckpointsByHash_def)
  have "mset (map checkpointIdentity ?D) = mset (map checkpointIdentity (map snd ?best))"
    by (simp add: DedupeCheckpointsByHash_def multiset.map_comp)
  then have d: "distinct (map checkpointIdentity ?D)"
    using b key mset_eq_imp_distinct_iff unfolding best_rows_def by metis
  have "checkpointIdentity ` set ?D = set (map fst ?best)" unfolding key [symmetric] s by (simp add: image_image)
  then have i: "checkpointIdentity ` set ?D = checkpointIdentity ` normalizeCheckpointHash ` set rows"
    using b unfolding best_rows_def by simp
  have "sorted (map (\<lambda>r. - cr_CreatedAt r) ?D)" by (simp add: DedupeCheckpointsByHash_def)
  then have "sorted (rev (map cr_CreatedAt ?D))" by (simp add: sorted_wrt_rev sorted_wrt_map)
  moreover have "r \<in> normalizeCheckpointHash ` set rows \<and>
      (\<forall>x \<in> normalizeCheckpointHash ` set rows. checkpointIdentity x = checkpointIdentity r \<longrightarrow> \<not> checkpointMoreComplete x r)"
    if r: "r \<in> set ?D" for r
  proof -
    obtain k where k: "(k, r) \<in> set ?best" using r s by auto
    then show ?thesis using best_rowsD(3,4,5) [OF b k] by blast
  qed
  ultimately show ?thesis using d i by blast
qed

text \<open>
  C29. Paging is complete. When the creation times of the matching rows differ, a client that follows the
  cursors gets every matching row exactly once, in the order of the query, after finitely many pages,
  whatever the page size and direction.
\<close>

theorem paging_complete:
  assumes "row_order orderBy" and "distinct (map createdText (filter (buildCheckpointConditions f) t))"
    and "cf_Cursor f = None" and "length t < n"
  shows "pages orderBy f t n = orderBy (cf_SortOrder f = ''asc'') (filter (buildCheckpointConditions f) t)"
  by (rule row_order.paging_enumerates [OF assms])

theorem paging_complete_witness:
  "pages scanOrder (allRows 1) [demo_row ''a'' ''h'' 0, demo_row ''b'' ''k'' 100000000] 3 =
     scanOrder False [demo_row ''a'' ''h'' 0, demo_row ''b'' ''k'' 100000000]"
  using paging_complete [OF scan.row_order_axioms, of "allRows 1" "[demo_row ''a'' ''h'' 0, demo_row ''b'' ''k'' 100000000]" 3]
  by (simp add: createdText_def demo_texts del: pages.simps)

text \<open>
  Rows created at the same time are lost between pages. The cursor is the creation time of the last
  row of a page and the next page starts strictly beyond it, so a second row of that time is on
  no page, although the total counts it. Rows taken over from capture manifests have the time of the
  manifest or of its config map, which is in whole seconds.
\<close>

theorem equal_times_skipped:
  assumes "row_order orderBy"
  shows "length (pages orderBy (allRows 1) [demo_row ''a'' ''h'' 0, demo_row ''b'' ''k'' 0] n) \<le> 1 \<and>
     pr_Total (ListCheckpointsPaged orderBy (allRows 1) [demo_row ''a'' ''h'' 0, demo_row ''b'' ''k'' 0]) = 2"
proof -
  let ?t = "[demo_row ''a'' ''h'' 0, demo_row ''b'' ''k'' 0]" and ?f = "allRows 1"
  let ?L = "orderBy False ?t" and ?c = "RFC3339Nano 0"
  have l: "length ?L = 2" and s: "set ?L = set ?t"
    using row_order.order_length [OF assms] row_order.order_set [OF assms] by simp_all
  have one: "pageLimit ?f = 1" by (simp add: pageLimit_def)
  have "?L ! 0 \<in> set ?t" using l s nth_mem [of 0 ?L] by simp
  then have c: "createdText (?L ! 0) = ?c" by (auto simp: createdText_def)
  have p: "pr_Items (ListCheckpointsPaged orderBy ?f ?t) = take 1 ?L" "pr_NextCursor (ListCheckpointsPaged orderBy ?f ?t) = Some ?c"
    using page_prefix [of ?L orderBy ?f ?t] l one c by (simp_all add: afterCursor_def)
  let ?g = "?f\<lparr>cf_Cursor := Some ?c\<rparr>"
  have "pr_Items (ListCheckpointsPaged orderBy ?g ?t) = []" "pr_NextCursor (ListCheckpointsPaged orderBy ?g ?t) = None"
    using page_prefix [of "[]" orderBy ?g ?t] row_order.order_empty [OF assms]
    by (simp_all add: afterCursor_def beyondCursor_def createdText_def allRows_def)
  then have "pages orderBy ?g ?t m = []" for m by (cases m) (simp_all add: Let_def)
  then have "length (pages orderBy ?f ?t n) \<le> 1" using p by (cases n) (simp_all add: Let_def)
  moreover have "pr_Total (ListCheckpointsPaged orderBy ?f ?t) = 2" by (simp add: ListCheckpointsPaged_def Let_def)
  ultimately show ?thesis by simp
qed

text \<open>
  The freshest capture does not come first. Creation times are stored without trailing zeros and
  compared as text, so of two captures in the same second the one with the shorter fraction counts
  as later: a capture of 0.1 seconds is listed before one of 0.12 seconds, and a caller that takes
  the first match restores the older one.
\<close>

theorem older_capture_first:
  assumes "row_order orderBy"
  shows "LookupCheckpoints orderBy \<lparr>lc_ImageRef = ''img'', lc_ModelID = ''m'', lc_EngineFlags = [], lc_DriverMajor = 0, lc_Limit = 0\<rparr>
       [demo_row ''old'' ''h'' 100000000, demo_row ''new'' ''k'' 120000000] =
     Inr [demo_row ''old'' ''h'' 100000000, demo_row ''new'' ''k'' 120000000]"
proof -
  let ?t = "[demo_row ''old'' ''h'' 100000000, demo_row ''new'' ''k'' 120000000]"
  have "(0 :: int, ''.12Z'') \<le> (0, ''.1Z'')" by code_simp
  then have "orderBy False ?t = ?t"
    by (intro row_order.order_unique [OF assms]) (simp_all add: createdText_def demo_texts)
  then show ?thesis by (simp add: LookupCheckpoints_def Let_def lookupMatches_def canonicalizeEngineFlags_def)
qed

end
