(* ===== verification/NvSnapServer.thy ===== *)
theory NvSnapServer
  imports NvSnapCatalogSpec NvSnapState
begin

text \<open>
  The NvSnap server around its catalog (\<open>nvsnap/internal/server\<close>): registration of captures, lookup,
  promotion state, the ingestion of capture manifests, deletion across all tiers, and retention.

  The catalog is threaded through the handlers; the agents, the Kubernetes API and the health of the
  database are an environment whose calls act on the world \<open>'w\<close>. A database that is down answers every
  statement with an error. The JSON of a manifest is decoded by a parameter. Audit entries, logs and
  response bodies that only describe what happened are left out; a response is its status code and data.
\<close>

section \<open>Registration and lookup\<close>

record registerRequest =
  rg_CheckpointID :: string
  rg_Info :: CkInfo
  rg_CheckpointPath :: string
  rg_CheckpointSize :: i64
  rg_Status :: string
  rg_DurationSecs :: f64
  rg_Hash :: string
  rg_ImageRef :: string
  rg_ModelID :: string
  rg_EngineFlags :: "string list"
  rg_Identity :: CkIdentity

definition registerRow :: "int \<Rightarrow> registerRequest \<Rightarrow> CheckpointRow" where
  "registerRow now req =
     (let status = (if rg_Status req = [] then ''Completed'' else rg_Status req)
      in \<lparr>cr_ID = rg_CheckpointID req, cr_CheckpointID = rg_CheckpointID req, cr_Info = (rg_Info req)\<lparr>ci_ModelName := []\<rparr>,
          cr_CheckpointPath = rg_CheckpointPath req, cr_CheckpointSize = rg_CheckpointSize req, cr_Status = status,
          cr_Message = [], cr_CreatedAt = now, cr_StartedAt = Some now,
          cr_CompletedAt = (if status = ''Completed'' \<or> status = ''Failed'' then Some now else None),
          cr_DurationSecs = rg_DurationSecs req, cr_Hash = rg_Hash req, cr_ImageRef = rg_ImageRef req,
          cr_ModelID = rg_ModelID req, cr_EngineFlags = rg_EngineFlags req, cr_DriverMajor = 0,
          cr_Identity = rg_Identity req, cr_PVCName = [], cr_PVCPromoteState = []\<rparr>)"

text \<open>The answer is the status code, with the id of the row where it was stored.\<close>

definition registerCheckpoint :: "int \<Rightarrow> registerRequest \<Rightarrow> catalog \<Rightarrow> (int \<times> string) \<times> catalog" where
  "registerCheckpoint now req t =
     (if rg_CheckpointID req = [] \<or> ci_Namespace (rg_Info req) = [] \<or> ci_PodName (rg_Info req) = [] \<or> ci_NodeName (rg_Info req) = []
      then ((400, []), t)
      else
        case UpsertCheckpoint now (registerRow now req) t of
          Inl _ \<Rightarrow> ((500, []), t)
        | Inr (i, t') \<Rightarrow> ((204, i), t'))"

record lookupMatch =
  ma_Hash :: string
  ma_CheckpointID :: string
  ma_CapturedAt :: int

definition lookupCheckpoint :: "(bool \<Rightarrow> catalog \<Rightarrow> catalog) \<Rightarrow> LookupCriteria \<Rightarrow> catalog \<Rightarrow> int + lookupMatch list" where
  "lookupCheckpoint orderBy req t =
     (if lc_ImageRef req = [] then Inl 400
      else
        case LookupCheckpoints orderBy req t of
          Inl _ \<Rightarrow> Inl 500
        | Inr rows \<Rightarrow>
            Inr (map (\<lambda>r. \<lparr>ma_Hash = cr_Hash r, ma_CheckpointID = cr_ID r,
                           ma_CapturedAt = (case cr_CompletedAt r of None \<Rightarrow> cr_CreatedAt r | Some x \<Rightarrow> x)\<rparr>) rows))"

definition getPVCPromoteStateHandler ::
    "(bool \<Rightarrow> catalog \<Rightarrow> catalog) \<Rightarrow> string \<Rightarrow> catalog \<Rightarrow> int + (string \<times> string)" where
  "getPVCPromoteStateHandler orderBy hash t =
     (if hash = [] then Inl 400
      else case GetPVCPromoteStateByHash orderBy hash t of
             Inl e \<Rightarrow> Inl (if e = NoRows then 404 else 500)
           | Inr s \<Rightarrow> Inr s)"

definition updatePVCPromoteStateHandler :: "string \<Rightarrow> string \<Rightarrow> string \<Rightarrow> catalog \<Rightarrow> int \<times> catalog" where
  "updatePVCPromoteStateHandler hash state pvcName t =
     (if hash = [] then (400, t)
      else if state \<notin> {''pending'', ''writing'', ''snapshotting'', ''ready'', ''failed''} then (400, t)
      else case UpdatePVCPromoteStateByHash hash state pvcName t of (n, t') \<Rightarrow> if n = 0 then (404, t') else (204, t'))"

section \<open>Ingestion of capture manifests\<close>

record Manifest =
  mf_Hash :: string
  mf_SourcePodMeta :: "string \<Rightarrow> string"
  mf_TotalSizeBytes :: i64
  mf_FileCount :: i64
  mf_CapturedAt :: int
  mf_CapturedOnNodes :: "string list"

record ConfigMap =
  cm_Name :: string
  cm_Hash :: "string option"
  cm_Data :: "string option"
  cm_CreationTimestamp :: int

definition ingestRow :: "string \<Rightarrow> Manifest \<Rightarrow> int \<Rightarrow> CheckpointRow" where
  "ingestRow hash m created =
     (let meta = mf_SourcePodMeta m
      in \<lparr>cr_ID = hash, cr_CheckpointID = hash,
          cr_Info = \<lparr>ci_Namespace = meta ''namespace'', ci_PodName = meta ''name'', ci_ContainerName = meta ''container'',
            ci_ContainerImage = meta ''image'', ci_NodeName = (case mf_CapturedOnNodes m of [] \<Rightarrow> [] | n # _ \<Rightarrow> n),
            ci_HasGPU = True, ci_ModelName = meta ''model_id'',
            ci_WorkloadType = (if meta ''instance_capture'' = ''true'' then ''criu-instance'' else meta ''engine'')\<rparr>,
          cr_CheckpointPath = [], cr_CheckpointSize = mf_TotalSizeBytes m, cr_Status = ''Completed'',
          cr_Message = ''rootfs-only capture ('' @ show_int (mf_FileCount m) @ '' files)'',
          cr_CreatedAt = (if mf_CapturedAt m = zeroTime then created else mf_CapturedAt m),
          cr_StartedAt = None, cr_CompletedAt = None, cr_DurationSecs = F64 0 0, cr_Hash = [],
          cr_ImageRef = meta ''image'', cr_ModelID = meta ''model_id'', cr_EngineFlags = [],
          cr_DriverMajor = (case ParseInt (meta ''driver_major'') of None \<Rightarrow> 0 | Some n \<Rightarrow> n),
          cr_Identity = noIdentity\<lparr>ck_GPUCount := (case ParseInt (meta ''gpu_count'') of None \<Rightarrow> 0 | Some n \<Rightarrow> n)\<rparr>,
          cr_PVCName = [], cr_PVCPromoteState = []\<rparr>)"

definition ingestCM ::
    "(bool \<Rightarrow> catalog \<Rightarrow> catalog) \<Rightarrow> (string \<Rightarrow> Manifest option) \<Rightarrow> int \<Rightarrow> ConfigMap \<Rightarrow> catalog \<Rightarrow> bool \<times> catalog" where
  "ingestCM orderBy decode now cm t =
     (case cm_Hash cm of
        None \<Rightarrow> (False, t)
      | Some hash \<Rightarrow>
          if hash = [] then (False, t)
          else if ListByHash orderBy hash t \<noteq> [] then (False, t)
          else
            (case cm_Data cm of
               None \<Rightarrow> (False, t)
             | Some raw \<Rightarrow>
                 if raw = [] then (False, t)
                 else
                   (case decode raw of
                      None \<Rightarrow> (False, t)
                    | Some m \<Rightarrow>
                        (case UpsertCheckpoint now (ingestRow hash m (cm_CreationTimestamp cm)) t of
                           Inl _ \<Rightarrow> (False, t)
                         | Inr (_, t') \<Rightarrow> (True, t')))))"

text \<open>One pass over the config maps the reconciler has listed.\<close>

definition reconcileOnce ::
    "(bool \<Rightarrow> catalog \<Rightarrow> catalog) \<Rightarrow> (string \<Rightarrow> Manifest option) \<Rightarrow> int \<Rightarrow> ConfigMap list \<Rightarrow> catalog \<Rightarrow> catalog" where
  "reconcileOnce orderBy decode now cms t = fold (\<lambda>cm t. snd (ingestCM orderBy decode now cm t)) cms t"

section \<open>The environment of the server\<close>

record 'w server_env =
  se_dbDown :: "'w \<Rightarrow> bool"
  se_agentCheckpoints :: "'w \<Rightarrow> (string \<times> string) list"
  se_peers :: "string \<Rightarrow> 'w \<Rightarrow> string list"
  se_findCRD :: "string \<Rightarrow> string \<Rightarrow> 'w \<Rightarrow> bool"
  se_deleteOnAgentNode :: "string \<Rightarrow> string \<Rightarrow> 'w \<Rightarrow> bool \<times> 'w"
  se_deleteCRD :: "string \<Rightarrow> string \<Rightarrow> 'w \<Rightarrow> api_error option \<times> 'w"
  se_deletePVC :: "string \<Rightarrow> string \<Rightarrow> 'w \<Rightarrow> api_error option \<times> 'w"
  se_deleteSnapshot :: "string \<Rightarrow> string \<Rightarrow> 'w \<Rightarrow> api_error option \<times> 'w"
  se_deleteLease :: "string \<Rightarrow> string \<Rightarrow> 'w \<Rightarrow> api_error option \<times> 'w"
  se_deleteCM :: "string \<Rightarrow> string \<Rightarrow> 'w \<Rightarrow> api_error option \<times> 'w"

text \<open>Reading a checkpoint by its id or hash: \<open>None\<close> is the answer 404.\<close>

datatype found = FromAgent string | FromCatalog CheckpointRow | FromCRD string

definition detailFilter :: "string \<Rightarrow> CheckpointFilter" where
  "detailFilter ns =
     \<lparr>cf_Namespace = ns, cf_PodName = [], cf_NodeName = [], cf_Status = [], cf_WorkloadType = [], cf_HasGPU = None,
      cf_Cursor = None, cf_Limit = 0, cf_SortOrder = []\<rparr>"

definition getCheckpoint ::
    "'w server_env \<Rightarrow> (bool \<Rightarrow> catalog \<Rightarrow> catalog) \<Rightarrow> string \<Rightarrow> string \<Rightarrow> 'w \<Rightarrow> catalog \<Rightarrow> found option" where
  "getCheckpoint env orderBy ns i w t =
     (if \<exists>(ckptID, node) \<in> set (se_agentCheckpoints env w). ckptID = i then Some (FromAgent i)
      else
        case (if se_dbDown env w then None else MatchCheckpointByIDOrHash (ListCheckpointsDeduped orderBy (detailFilter ns) t) i) of
          Some c \<Rightarrow> Some (FromCatalog c)
        | None \<Rightarrow> if se_findCRD env ns i w then Some (FromCRD i) else None)"

section \<open>Deletion\<close>

datatype cascade_error =
    AgentFailed string
  | PeerFailed string
  | ApiFailed string api_error
  | CatalogFailed

record cascadeDeleteResult =
  cd_OriginAgents :: int
  cd_PeerAgents :: int
  cd_CRDsDeleted :: int
  cd_CatalogRows :: int
  cd_L2PVCs :: int
  cd_L2Snapshots :: int
  cd_L2Leases :: int
  cd_CaptureCMs :: int
  cd_Errors :: "cascade_error list"
  cd_AnySuccess :: bool
  cd_CatalogRetained :: bool

definition noResult :: cascadeDeleteResult where
  "noResult = \<lparr>cd_OriginAgents = 0, cd_PeerAgents = 0, cd_CRDsDeleted = 0, cd_CatalogRows = 0, cd_L2PVCs = 0,
     cd_L2Snapshots = 0, cd_L2Leases = 0, cd_CaptureCMs = 0, cd_Errors = [], cd_AnySuccess = False, cd_CatalogRetained = False\<rparr>"

definition failed :: "cascade_error \<Rightarrow> cascadeDeleteResult \<Rightarrow> cascadeDeleteResult" where
  "failed e r = r\<lparr>cd_Errors := cd_Errors r @ [e]\<rparr>"

text \<open>The outcome of one delete of an API object: counted, already gone, or an error.\<close>

definition tally ::
    "(cascadeDeleteResult \<Rightarrow> cascadeDeleteResult) \<Rightarrow> string \<Rightarrow> api_error option \<Rightarrow> cascadeDeleteResult \<Rightarrow> cascadeDeleteResult" where
  "tally bump what outcome r =
     (case outcome of
        None \<Rightarrow> (bump r)\<lparr>cd_AnySuccess := True\<rparr>
      | Some e \<Rightarrow> if e = NotFound then r else failed (ApiFailed what e) r)"

definition filepathBase :: "string \<Rightarrow> string" where
  "filepathBase path =
     (if path = [] then ''.''
      else let p = rev (dropWhile (\<lambda>c. c = CHR ''/'') (rev path))
           in if p = [] then ''/'' else rev (takeWhile (\<lambda>c. c \<noteq> CHR ''/'') (rev p)))"

definition agentIDOf :: "CheckpointRow \<Rightarrow> string" where
  "agentIDOf row = (if cr_CheckpointPath row \<noteq> [] then filepathBase (cr_CheckpointPath row) else cr_ID row)"

definition ShortHash :: "string \<Rightarrow> string" where
  "ShortHash h = take 32 h"

type_synonym 'w cascade = "(string \<times> string) list \<times> cascadeDeleteResult \<times> 'w"

definition dropAgentCopy :: "'w server_env \<Rightarrow> string \<Rightarrow> string \<Rightarrow> string \<times> string \<Rightarrow> 'w cascade \<Rightarrow> 'w cascade" where
  "dropAgentCopy env rowID agentID ckpt s =
     (case s of (seen, r, w) \<Rightarrow> case ckpt of (ckptID, node) \<Rightarrow>
        if (ckptID \<noteq> rowID \<and> ckptID \<noteq> agentID) \<or> node = [] \<or> (node, ckptID) \<in> set seen then s
        else
          case se_deleteOnAgentNode env node ckptID w of
            (True, w') \<Rightarrow> ((node, ckptID) # seen, r\<lparr>cd_OriginAgents := cd_OriginAgents r + 1, cd_AnySuccess := True\<rparr>, w')
          | (False, w') \<Rightarrow> ((node, ckptID) # seen, failed (AgentFailed node) r, w'))"

definition dropPeerCopy :: "'w server_env \<Rightarrow> string \<Rightarrow> string \<Rightarrow> 'w cascade \<Rightarrow> 'w cascade" where
  "dropPeerCopy env agentID node s =
     (case s of (seen, r, w) \<Rightarrow>
        if (node, agentID) \<in> set seen then s
        else
          case se_deleteOnAgentNode env node agentID w of
            (True, w') \<Rightarrow>
              ((node, agentID) # seen,
               r\<lparr>cd_PeerAgents := cd_PeerAgents r + 1, cd_OriginAgents := cd_OriginAgents r + 1, cd_AnySuccess := True\<rparr>, w')
          | (False, w') \<Rightarrow> ((node, agentID) # seen, failed (PeerFailed node) r, w'))"

definition cascadeDeletePerRow :: "'w server_env \<Rightarrow> CheckpointRow \<Rightarrow> 'w cascade \<Rightarrow> 'w cascade" where
  "cascadeDeletePerRow env row s0 =
     (let rowID = cr_ID row; agentID = agentIDOf row;
          s1 = fold (dropAgentCopy env rowID agentID) (se_agentCheckpoints env (snd (snd s0))) s0;
          peers = (if se_dbDown env (snd (snd s1)) then [] else se_peers env rowID (snd (snd s1)));
          s2 = fold (dropPeerCopy env agentID) peers s1
      in case s2 of (seen, r, w) \<Rightarrow>
           if ci_Namespace (cr_Info row) = [] then s2
           else case se_deleteCRD env (ci_Namespace (cr_Info row)) rowID w of
                  (out, w') \<Rightarrow> (seen, tally (\<lambda>r. r\<lparr>cd_CRDsDeleted := cd_CRDsDeleted r + 1\<rparr>) rowID out r, w'))"

definition deleteL2Artifacts ::
    "'w server_env \<Rightarrow> string \<Rightarrow> string \<Rightarrow> cascadeDeleteResult \<times> 'w \<Rightarrow> cascadeDeleteResult \<times> 'w" where
  "deleteL2Artifacts env ns hash s =
     (let pvc = (\<lambda>name s. case se_deletePVC env ns name (snd s) of
                   (out, w) \<Rightarrow> (tally (\<lambda>r. r\<lparr>cd_L2PVCs := cd_L2PVCs r + 1\<rparr>) name out (fst s), w));
          s = pvc (''rwx-'' @ ShortHash hash) (pvc (''rox-'' @ ShortHash hash) s)
      in case se_deleteSnapshot env ns (''snap-'' @ ShortHash hash) (snd s) of
           (out, w) \<Rightarrow>
             (case se_deleteLease env ns (''nvsnap-promote-'' @ ShortHash hash) w of
                (out', w') \<Rightarrow>
                  (tally (\<lambda>r. r\<lparr>cd_L2Leases := cd_L2Leases r + 1\<rparr>) (''nvsnap-promote-'' @ ShortHash hash) out'
                     (tally (\<lambda>r. r\<lparr>cd_L2Snapshots := cd_L2Snapshots r + 1\<rparr>) (''snap-'' @ ShortHash hash) out (fst s)), w')))"

definition CMNameFor :: "string \<Rightarrow> string" where
  "CMNameFor hash = ''nvsnap-capture-'' @ ShortHash hash"

definition deleteCaptureManifestCM ::
    "'w server_env \<Rightarrow> string \<Rightarrow> cascadeDeleteResult \<times> 'w \<Rightarrow> cascadeDeleteResult \<times> 'w" where
  "deleteCaptureManifestCM env hash s =
     (case se_deleteCM env ''nvsnap-system'' (CMNameFor hash) (snd s) of
        (out, w) \<Rightarrow> (tally (\<lambda>r. r\<lparr>cd_CaptureCMs := cd_CaptureCMs r + 1\<rparr>) (CMNameFor hash) out (fst s), w))"

text \<open>The row the cascade starts from, with what a missing row leaves open filled in.\<close>

definition blankRow :: CheckpointRow where
  "blankRow =
     \<lparr>cr_ID = [], cr_CheckpointID = [],
      cr_Info = \<lparr>ci_Namespace = [], ci_PodName = [], ci_ContainerName = [], ci_ContainerImage = [], ci_NodeName = [],
        ci_HasGPU = False, ci_ModelName = [], ci_WorkloadType = []\<rparr>,
      cr_CheckpointPath = [], cr_CheckpointSize = 0, cr_Status = [], cr_Message = [], cr_CreatedAt = zeroTime,
      cr_StartedAt = None, cr_CompletedAt = None, cr_DurationSecs = F64 0 0, cr_Hash = [], cr_ImageRef = [],
      cr_ModelID = [], cr_EngineFlags = [], cr_DriverMajor = 0, cr_Identity = noIdentity, cr_PVCName = [],
      cr_PVCPromoteState = []\<rparr>"

definition cascadeTarget :: "string \<Rightarrow> string \<Rightarrow> CheckpointRow option \<Rightarrow> CheckpointRow" where
  "cascadeTarget i agentID row =
     (let r = (case row of None \<Rightarrow> blankRow | Some r \<Rightarrow> r);
          r = (if cr_ID r = [] then r\<lparr>cr_ID := i\<rparr> else r)
      in if cr_CheckpointPath r = [] then r\<lparr>cr_CheckpointPath := ''/var/lib/nvsnap/checkpoints/'' @ agentID\<rparr> else r)"

definition hashOf :: "CheckpointRow option \<Rightarrow> string" where
  "hashOf row = (case row of None \<Rightarrow> [] | Some r \<Rightarrow> cr_Hash r)"

text \<open>The tiers: everything the cascade deletes before it touches the catalog.\<close>

definition cascadeTiers ::
    "'w server_env \<Rightarrow> (bool \<Rightarrow> catalog \<Rightarrow> catalog) \<Rightarrow> string \<Rightarrow> string \<Rightarrow> CheckpointRow option \<Rightarrow> 'w \<Rightarrow> catalog
       \<Rightarrow> cascadeDeleteResult \<times> 'w" where
  "cascadeTiers env orderBy i agentID row w t =
     (let target = cascadeTarget i agentID row;
          siblings = (if hashOf row = [] \<or> se_dbDown env w then [] else ListByHash orderBy (hashOf row) t);
          r0 = (if hashOf row \<noteq> [] \<and> se_dbDown env w then failed CatalogFailed noResult else noResult);
          rowsByHash = target # filter (\<lambda>s. cr_ID s \<noteq> cr_ID target) siblings;
          s1 = snd (fold (cascadeDeletePerRow env) rowsByHash ([], r0, w));
          ns = (case row of None \<Rightarrow> [] | Some r \<Rightarrow> ci_Namespace (cr_Info r));
          s2 = (if hashOf row \<noteq> [] \<and> ns \<noteq> [] then deleteL2Artifacts env ns (hashOf row) s1 else s1)
      in if hashOf row \<noteq> [] then deleteCaptureManifestCM env (hashOf row) s2 else s2)"

definition cascadeDeleteCheckpoint ::
    "'w server_env \<Rightarrow> (bool \<Rightarrow> catalog \<Rightarrow> catalog) \<Rightarrow> string \<Rightarrow> string \<Rightarrow> CheckpointRow option \<Rightarrow> 'w \<Rightarrow> catalog
       \<Rightarrow> cascadeDeleteResult \<times> 'w \<times> catalog" where
  "cascadeDeleteCheckpoint env orderBy i agentID row w t =
     (case cascadeTiers env orderBy i agentID row w t of
        (r, w') \<Rightarrow>
          if cd_Errors r \<noteq> [] then (r\<lparr>cd_CatalogRetained := True\<rparr>, w', t)
          else
            case row of
              None \<Rightarrow> (r, w', t)
            | Some rw \<Rightarrow>
                if se_dbDown env w' then ((failed CatalogFailed r)\<lparr>cd_CatalogRetained := True\<rparr>, w', t)
                else if cr_Hash rw \<noteq> [] then
                  (case DeleteByHash (cr_Hash rw) t of
                     (n, t') \<Rightarrow> (r\<lparr>cd_CatalogRows := n, cd_AnySuccess := (cd_AnySuccess r \<or> n > 0)\<rparr>, w', t'))
                else (r\<lparr>cd_CatalogRows := 1, cd_AnySuccess := True\<rparr>, w', DeleteCheckpoint i t))"

definition deleteAnswer :: "cascadeDeleteResult \<Rightarrow> int" where
  "deleteAnswer r = (if \<not> cd_AnySuccess r \<and> \<not> cd_CatalogRetained r then 404 else if cd_CatalogRetained r then 500 else 204)"

definition deleteCheckpoint ::
    "'w server_env \<Rightarrow> (bool \<Rightarrow> catalog \<Rightarrow> catalog) \<Rightarrow> string \<Rightarrow> 'w \<Rightarrow> catalog \<Rightarrow> int \<times> 'w \<times> catalog" where
  "deleteCheckpoint env orderBy i w t =
     (let row = (if se_dbDown env w then None else case GetCheckpoint i t of Inl _ \<Rightarrow> None | Inr r \<Rightarrow> Some r);
          agentID = (case row of None \<Rightarrow> i | Some r \<Rightarrow> if cr_CheckpointPath r \<noteq> [] then filepathBase (cr_CheckpointPath r) else i)
      in case cascadeDeleteCheckpoint env orderBy i agentID row w t of (r, w', t') \<Rightarrow> (deleteAnswer r, w', t'))"

definition deleteCheckpointByHash ::
    "'w server_env \<Rightarrow> (bool \<Rightarrow> catalog \<Rightarrow> catalog) \<Rightarrow> string \<Rightarrow> 'w \<Rightarrow> catalog \<Rightarrow> int \<times> 'w \<times> catalog" where
  "deleteCheckpointByHash env orderBy hash w t =
     (if se_dbDown env w then (500, w, t)
      else
        case ListByHash orderBy hash t of
          [] \<Rightarrow> (404, w, t)
        | first # _ \<Rightarrow>
            (case cascadeDeleteCheckpoint env orderBy (cr_ID first) (agentIDOf first) (Some first) w t of
               (r, w', t') \<Rightarrow> (deleteAnswer r, w', t')))"

section \<open>Retention\<close>

definition enforcePolicy ::
    "'w server_env \<Rightarrow> (bool \<Rightarrow> catalog \<Rightarrow> catalog) \<Rightarrow> int \<Rightarrow> RetentionPolicy \<Rightarrow> 'w \<times> catalog \<Rightarrow> 'w \<times> catalog" where
  "enforcePolicy env orderBy now p s =
     (if \<not> rp_Enabled p \<or> se_dbDown env (fst s) then s
      else
        fold (\<lambda>c (w, t). if se_dbDown env w then (w, t)
                         else (snd (se_deleteCRD env (ci_Namespace (cr_Info c)) (cr_ID c) w), DeleteCheckpoint (cr_ID c) t))
          (FindExpiredCheckpoints orderBy now p (snd s)) s)"

definition enforceRetentionPolicies ::
    "'w server_env \<Rightarrow> (bool \<Rightarrow> catalog \<Rightarrow> catalog) \<Rightarrow> int \<Rightarrow> RetentionPolicy list \<Rightarrow> 'w \<times> catalog \<Rightarrow> 'w \<times> catalog" where
  "enforceRetentionPolicies env orderBy now policies s =
     (if se_dbDown env (fst s) then s else fold (enforcePolicy env orderBy now) policies s)"

section \<open>Deletion tells the truth\<close>

lemma tally_retained [simp]:
  "(\<And>r. cd_CatalogRetained (bump r) = cd_CatalogRetained r) \<Longrightarrow> cd_CatalogRetained (tally bump what out r) = cd_CatalogRetained r"
  by (auto simp: tally_def failed_def split: option.splits)

lemma fold_retained:
  "(\<And>x s. cd_CatalogRetained (fst (snd (f x s))) = cd_CatalogRetained (fst (snd s))) \<Longrightarrow>
   cd_CatalogRetained (fst (snd (fold f xs s))) = cd_CatalogRetained (fst (snd s))"
  by (induction xs arbitrary: s) simp_all

lemma dropAgentCopy_retained: "cd_CatalogRetained (fst (snd (dropAgentCopy env a b x s))) = cd_CatalogRetained (fst (snd s))"
  by (auto simp: dropAgentCopy_def failed_def split: prod.splits bool.splits)

lemma dropPeerCopy_retained: "cd_CatalogRetained (fst (snd (dropPeerCopy env a x s))) = cd_CatalogRetained (fst (snd s))"
  by (auto simp: dropPeerCopy_def failed_def split: prod.splits bool.splits)

lemma cascadeDeletePerRow_retained:
  "cd_CatalogRetained (fst (snd (cascadeDeletePerRow env row s))) = cd_CatalogRetained (fst (snd s))"
proof -
  define s1 where "s1 = fold (dropAgentCopy env (cr_ID row) (agentIDOf row)) (se_agentCheckpoints env (snd (snd s))) s"
  define s2 where "s2 = fold (dropPeerCopy env (agentIDOf row))
    (if se_dbDown env (snd (snd s1)) then [] else se_peers env (cr_ID row) (snd (snd s1))) s1"
  have "cd_CatalogRetained (fst (snd s2)) = cd_CatalogRetained (fst (snd s))"
    unfolding s2_def fold_retained [OF dropPeerCopy_retained] s1_def fold_retained [OF dropAgentCopy_retained] ..
  then show ?thesis
    unfolding cascadeDeletePerRow_def Let_def s1_def [symmetric] s2_def [symmetric] by (auto split: prod.splits)
qed

lemma tiers_retained: "\<not> cd_CatalogRetained (fst (cascadeTiers env orderBy i agentID row w t))"
proof -
  have l2: "cd_CatalogRetained (fst (deleteL2Artifacts env ns h s)) = cd_CatalogRetained (fst s)" for ns h s
    by (simp add: deleteL2Artifacts_def Let_def split: prod.splits)
  have cm: "cd_CatalogRetained (fst (deleteCaptureManifestCM env h s)) = cd_CatalogRetained (fst s)" for h s
    by (simp add: deleteCaptureManifestCM_def split: prod.splits)
  show ?thesis
    by (simp add: cascadeTiers_def Let_def l2 cm fold_retained [OF cascadeDeletePerRow_retained] cascadeDeletePerRow_retained noResult_def failed_def)
qed

lemma GetCheckpoint_row: "GetCheckpoint i t = Inr r \<Longrightarrow> \<exists>x \<in> set t. cr_ID x = i \<and> r = normalizeCheckpointHash x"
  by (auto simp: GetCheckpoint_def dest!: find_SomeD split: option.splits)

lemma GetCheckpoint_absent: "GetCheckpoint i t = Inl e \<Longrightarrow> \<forall>x \<in> set t. cr_ID x \<noteq> i"
  by (auto simp: GetCheckpoint_def find_None_iff split: option.splits)

text \<open>Where no row of the hash is left, none of the capture of \<open>r\<close> is.\<close>

definition capture_gone :: "string \<Rightarrow> string \<Rightarrow> catalog \<Rightarrow> bool" where
  "capture_gone i hash t \<longleftrightarrow> (\<forall>x \<in> set t. cr_ID x \<noteq> i \<and> (hash \<noteq> [] \<longrightarrow> cr_Hash x \<noteq> hash))"

lemma DeleteByHash_gone:
  assumes "catalog_inv t" and "GetCheckpoint i t = Inr r" and "cr_Hash r \<noteq> []"
  shows "0 < fst (DeleteByHash (cr_Hash r) t)" and "capture_gone i (cr_Hash r) (snd (DeleteByHash (cr_Hash r) t))"
proof -
  obtain x where x: "x \<in> set t" "cr_ID x = i" "r = normalizeCheckpointHash x" using GetCheckpoint_row [OF assms(2)] by blast
  have h: "cr_Hash x = cr_Hash r \<or> cr_ID x = cr_Hash r"
    using x(3) by (auto simp: normalizeCheckpointHash_def split: if_splits)
  then have "x \<in> set (filter (\<lambda>y. cr_Hash y = cr_Hash r \<or> cr_ID y = cr_Hash r) t)" using x(1) by simp
  then show "0 < fst (DeleteByHash (cr_Hash r) t)" using assms(3) length_pos_if_in_set
    by (fastforce simp: DeleteByHash_def)
  have "y = x" if "y \<in> set t" "cr_ID y = i" for y
    using rows.same_id [of t y x] assms(1) that x(1,2) by (simp add: catalog_simps)
  then show "capture_gone i (cr_Hash r) (snd (DeleteByHash (cr_Hash r) t))"
    using h assms(3) by (auto simp: capture_gone_def DeleteByHash_def)
qed

lemma cascade_cases:
  assumes "cascadeTiers env orderBy i a row w t = (r, w1)"
  shows "cascadeDeleteCheckpoint env orderBy i a row w t =
     (if cd_Errors r \<noteq> [] then (r\<lparr>cd_CatalogRetained := True\<rparr>, w1, t)
      else case row of
             None \<Rightarrow> (r, w1, t)
           | Some rw \<Rightarrow>
               if se_dbDown env w1 then ((failed CatalogFailed r)\<lparr>cd_CatalogRetained := True\<rparr>, w1, t)
               else if cr_Hash rw \<noteq> [] then
                 (r\<lparr>cd_CatalogRows := fst (DeleteByHash (cr_Hash rw) t),
                    cd_AnySuccess := (cd_AnySuccess r \<or> fst (DeleteByHash (cr_Hash rw) t) > 0)\<rparr>, w1, snd (DeleteByHash (cr_Hash rw) t))
               else (r\<lparr>cd_CatalogRows := 1, cd_AnySuccess := True\<rparr>, w1, DeleteCheckpoint i t))"
  using assms by (simp add: cascadeDeleteCheckpoint_def case_prod_beta split: option.splits)

lemma delete_effect:
  assumes "catalog_inv t" and "\<not> se_dbDown env w" and "deleteCheckpoint env orderBy i w t = (code, w', t')"
  shows "if code = 204 then capture_gone i (case GetCheckpoint i t of Inl _ \<Rightarrow> [] | Inr r \<Rightarrow> cr_Hash r) t'
         else t' = t \<and> (code = 404 \<longrightarrow> (\<forall>x \<in> set t. cr_ID x \<noteq> i))"
proof -
  define row where "row = (case GetCheckpoint i t of Inl _ \<Rightarrow> None | Inr r \<Rightarrow> Some r)"
  define a where "a = (case row of None \<Rightarrow> i | Some r \<Rightarrow> if cr_CheckpointPath r \<noteq> [] then filepathBase (cr_CheckpointPath r) else i)"
  obtain r w1 where ti: "cascadeTiers env orderBy i a row w t = (r, w1)" by force
  have nr: "\<not> cd_CatalogRetained r" using tiers_retained [of env orderBy i a row w t] ti by simp
  have code: "(code, w', t') = (case cascadeDeleteCheckpoint env orderBy i a row w t of (r, w', t') \<Rightarrow> (deleteAnswer r, w', t'))"
    using assms(2,3) by (simp add: deleteCheckpoint_def Let_def row_def a_def)
  note code = code [unfolded cascade_cases [OF ti]]
  show ?thesis
  proof (cases "GetCheckpoint i t")
    case (Inl e)
    then have none: "row = None" "\<forall>x \<in> set t. cr_ID x \<noteq> i" by (simp_all add: row_def GetCheckpoint_absent)
    from code none nr Inl show ?thesis
      by (auto simp: deleteAnswer_def capture_gone_def split: if_splits)
  next
    case (Inr rw)
    then have some: "row = Some rw" by (simp add: row_def)
    obtain x where x: "cr_ID x = i" "rw = normalizeCheckpointHash x" using GetCheckpoint_row [OF Inr] by blast
    show ?thesis
    proof (cases "cr_Hash rw = []")
      case True
      from code some nr Inr True show ?thesis
        by (auto simp: deleteAnswer_def failed_def DeleteCheckpoint_def capture_gone_def split: if_splits)
    next
      case False
      from code some nr Inr False DeleteByHash_gone [OF assms(1) Inr False] show ?thesis
        by (auto simp: deleteAnswer_def failed_def split: if_splits)
    qed
  qed
qed

lemma delete_inv:
  assumes "catalog_inv t" and "deleteCheckpoint env orderBy i w t = (code, w', t')"
  shows "catalog_inv t'"
proof -
  have "t' = t \<or> (\<exists>P. t' = filter P t)"
    using assms(2)
    by (auto simp: deleteCheckpoint_def Let_def cascadeDeleteCheckpoint_def DeleteByHash_def DeleteCheckpoint_def
        split: prod.splits option.splits if_splits)
  then show ?thesis using assms(1) rows.keys_filter by (auto simp: catalog_simps)
qed

end
