(* ===== verification/NvSnapServerSpec.thy ===== *)
theory NvSnapServerSpec
  imports NvSnapServer
begin

text \<open>
  What the NvSnap server promises about deletion, and where the ingestion of manifests, retention and
  the detail endpoint undo it.
\<close>

section \<open>Ingestion\<close>

lemma ListByHash_none:
  assumes "row_order orderBy" and "hash \<noteq> []"
  shows "ListByHash orderBy hash t = [] \<longleftrightarrow> (\<forall>x \<in> set t. cr_Hash x \<noteq> hash)"
proof -
  have "set (ListByHash orderBy hash t) = {x \<in> set t. cr_Hash x = hash}"
    using row_order.order_set [OF assms(1)] assms(2) by (simp add: ListByHash_def)
  then show ?thesis by (metis (mono_tags, lifting) empty_Collect_eq set_empty)
qed

text \<open>A config map of a capture the catalog does not have.\<close>

definition manifestFor :: "(string \<Rightarrow> Manifest option) \<Rightarrow> string \<Rightarrow> ConfigMap \<Rightarrow> bool" where
  "manifestFor decode hash cm \<longleftrightarrow>
     looksLikeHash hash \<and> cm_Hash cm = Some hash \<and> (\<exists>raw m. cm_Data cm = Some raw \<and> raw \<noteq> [] \<and> decode raw = Some m)"

lemma ingest_adds:
  assumes "row_order orderBy" and "catalog_inv t" and "manifestFor decode hash cm" and "\<forall>x \<in> set t. cr_Hash x \<noteq> hash"
  shows "ListByHash orderBy hash (reconcileOnce orderBy decode now [cm] t) \<noteq> []"
proof -
  from assms(3) obtain raw m where cm: "cm_Hash cm = Some hash" "cm_Data cm = Some raw" "raw \<noteq> []" "decode raw = Some m"
    and l: "looksLikeHash hash" by (auto simp: manifestFor_def)
  have ne: "hash \<noteq> []" using l by (auto simp: looksLikeHash_def)
  let ?c = "ingestRow hash m (cm_CreationTimestamp cm)"
  have h: "cr_Hash (upsertValues now ?c) = hash" using l by (simp add: upsertValues_hash ingestRow_def Let_def)
  have "cr_Hash (upsertValues now ?c) \<noteq> []" using h ne by simp
  from upsertWith_done [OF assms(2,2) this, of t]
  obtain i s t' where u: "UpsertCheckpoint now ?c t = Inr (i, t')" "upsert_done (upsertValues now ?c) i s t'"
    unfolding UpsertCheckpoint_def by blast
  have "\<exists>x \<in> set t'. cr_Hash x = hash" using upsert_done_row [OF u(2)] h by metis
  moreover have "reconcileOnce orderBy decode now [cm] t = t'"
    using cm ne u(1) assms(4) ListByHash_none [OF assms(1) ne] by (simp add: reconcileOnce_def ingestCM_def)
  ultimately show ?thesis using ListByHash_none [OF assms(1) ne] by simp
qed

section \<open>Reading a checkpoint\<close>

lemma matchLoop_none: "\<forall>x \<in> set xs. cr_ID (normalizeCheckpointHash x) \<noteq> k \<and> cr_Hash (normalizeCheckpointHash x) \<noteq> k \<Longrightarrow>
    matchLoop k best xs = best"
  by (induction xs) (simp_all add: Let_def)

lemma normalize_idem [simp]: "normalizeCheckpointHash (normalizeCheckpointHash x) = normalizeCheckpointHash x"
  by (auto simp: normalizeCheckpointHash_def)

lemma dedupe_subset: "set (DedupeCheckpointsByHash rows) \<subseteq> normalizeCheckpointHash ` set rows"
proof
  fix x assume "x \<in> set (DedupeCheckpointsByHash rows)"
  then obtain k where k: "(k, x) \<in> set (dedupeLoop [] rows)" by (auto simp: DedupeCheckpointsByHash_def)
  have "best_rows (dedupeLoop [] rows) (normalizeCheckpointHash ` set rows)"
    using dedupeLoop_best [of "[]" "{}" rows] by (simp add: best_rows_def)
  from best_rowsD(4) [OF this k] show "x \<in> normalizeCheckpointHash ` set rows" .
qed

lemma normalize_key: "cr_ID (normalizeCheckpointHash x) = k \<or> cr_Hash (normalizeCheckpointHash x) = k \<Longrightarrow> cr_ID x = k \<or> cr_Hash x = k"
  by (auto simp: normalizeCheckpointHash_def split: if_splits)

text \<open>The rows the detail endpoint looks at: the thousand newest of the namespace.\<close>

definition detailRows :: "(bool \<Rightarrow> catalog \<Rightarrow> catalog) \<Rightarrow> string \<Rightarrow> catalog \<Rightarrow> catalog" where
  "detailRows orderBy ns t = take 1000 (orderBy False (filter (buildCheckpointConditions (detailFilter ns)) t))"

lemma deduped_detail: "ListCheckpointsDeduped orderBy (detailFilter ns) t = DedupeCheckpointsByHash (detailRows orderBy ns t)"
proof -
  let ?f = "(detailFilter ns)\<lparr>cf_Limit := 1000\<rparr>"
  have c: "buildCheckpointConditions ?f = buildCheckpointConditions (detailFilter ns)"
    by (simp add: buildCheckpointConditions_def fun_eq_iff)
  have "pageLimit ?f = 1000" "cf_SortOrder ?f \<noteq> ''asc''" "cf_Cursor ?f = None" by (simp_all add: pageLimit_def detailFilter_def)
  with page_prefix(1) [OF refl, of orderBy ?f t] c have "ListCheckpoints orderBy ?f t = detailRows orderBy ns t"
    by (simp add: ListCheckpoints_def detailRows_def afterCursor_def)
  then show ?thesis by (simp add: ListCheckpointsDeduped_def detailFilter_def)
qed

lemma detail_none:
  assumes "\<forall>x \<in> set (detailRows orderBy ns t). cr_ID x \<noteq> i \<and> cr_Hash x \<noteq> i"
  shows "MatchCheckpointByIDOrHash (ListCheckpointsDeduped orderBy (detailFilter ns) t) i = None"
proof -
  have "cr_ID (normalizeCheckpointHash y) \<noteq> i \<and> cr_Hash (normalizeCheckpointHash y) \<noteq> i"
    if y: "y \<in> set (DedupeCheckpointsByHash (detailRows orderBy ns t))" for y
  proof -
    obtain x where "x \<in> set (detailRows orderBy ns t)" "y = normalizeCheckpointHash x"
      using subsetD [OF dedupe_subset y] by blast
    then show ?thesis using assms normalize_key [of x i] by auto
  qed
  then show ?thesis by (simp add: MatchCheckpointByIDOrHash_def matchLoop_none deduped_detail)
qed

section \<open>No failure is dropped\<close>

lemma tally_errors [simp]:
  assumes "\<And>r. cd_Errors (bump r) = cd_Errors r"
  shows "cd_Errors (tally bump what out r) = [] \<longleftrightarrow> cd_Errors r = [] \<and> out \<in> {None, Some NotFound}"
  using assms by (auto simp: tally_def failed_def split: option.splits)

text \<open>An object was deleted, or is gone already.\<close>

definition heard :: "api_error option \<Rightarrow> bool" where
  "heard out \<longleftrightarrow> out \<in> {None, Some NotFound}"

text \<open>The deletions that found their object or learned that it is gone.\<close>

datatype tier_call =
    OnAgent string string
  | OnCRD string string
  | OnPVC string string
  | OnSnapshot string string
  | OnLease string string
  | OnCM string string

definition note_heard :: "tier_call \<Rightarrow> api_error option \<times> 'w \<Rightarrow> tier_call list \<Rightarrow> api_error option \<times> 'w \<times> tier_call list" where
  "note_heard c r calls = (fst r, snd r, if heard (fst r) then c # calls else calls)"

text \<open>The same environment with a record of those calls.\<close>

definition logged :: "'w server_env \<Rightarrow> ('w \<times> tier_call list) server_env" where
  "logged env =
     \<lparr>se_dbDown = (\<lambda>w. se_dbDown env (fst w)), se_agentCheckpoints = (\<lambda>w. se_agentCheckpoints env (fst w)),
      se_peers = (\<lambda>i w. se_peers env i (fst w)), se_findCRD = (\<lambda>ns i w. se_findCRD env ns i (fst w)),
      se_deleteOnAgentNode = (\<lambda>node i w. case se_deleteOnAgentNode env node i (fst w) of
         (ok, w') \<Rightarrow> (ok, w', if ok then OnAgent node i # snd w else snd w)),
      se_deleteCRD = (\<lambda>ns i w. note_heard (OnCRD ns i) (se_deleteCRD env ns i (fst w)) (snd w)),
      se_deletePVC = (\<lambda>ns i w. note_heard (OnPVC ns i) (se_deletePVC env ns i (fst w)) (snd w)),
      se_deleteSnapshot = (\<lambda>ns i w. note_heard (OnSnapshot ns i) (se_deleteSnapshot env ns i (fst w)) (snd w)),
      se_deleteLease = (\<lambda>ns i w. note_heard (OnLease ns i) (se_deleteLease env ns i (fst w)) (snd w)),
      se_deleteCM = (\<lambda>ns i w. note_heard (OnCM ns i) (se_deleteCM env ns i (fst w)) (snd w))\<rparr>"

lemma logged_simps [simp]:
  "se_dbDown (logged env) w = se_dbDown env (fst w)" "se_agentCheckpoints (logged env) w = se_agentCheckpoints env (fst w)"
  "se_peers (logged env) i w = se_peers env i (fst w)"
  "se_deleteOnAgentNode (logged env) node i w =
     (let r = se_deleteOnAgentNode env node i (fst w) in (fst r, snd r, if fst r then OnAgent node i # snd w else snd w))"
  "se_deleteCRD (logged env) ns i w = note_heard (OnCRD ns i) (se_deleteCRD env ns i (fst w)) (snd w)"
  "se_deletePVC (logged env) ns i w = note_heard (OnPVC ns i) (se_deletePVC env ns i (fst w)) (snd w)"
  "se_deleteSnapshot (logged env) ns i w = note_heard (OnSnapshot ns i) (se_deleteSnapshot env ns i (fst w)) (snd w)"
  "se_deleteLease (logged env) ns i w = note_heard (OnLease ns i) (se_deleteLease env ns i (fst w)) (snd w)"
  "se_deleteCM (logged env) ns i w = note_heard (OnCM ns i) (se_deleteCM env ns i (fst w)) (snd w)"
  by (simp_all add: logged_def case_prod_beta Let_def)

text \<open>The record changes nothing of what the deletion does.\<close>

definition unlog :: "('w \<times> tier_call list) cascade \<Rightarrow> 'w cascade" where
  "unlog s = (fst s, fst (snd s), fst (snd (snd s)))"

lemma unlog_fold: "(\<And>x s. unlog (f x s) = g x (unlog s)) \<Longrightarrow> unlog (fold f xs s) = fold g xs (unlog s)"
  by (induction xs arbitrary: s) simp_all

lemma unlog_agent: "unlog (dropAgentCopy (logged env) a b x s) = dropAgentCopy env a b x (unlog s)"
  by (cases s; cases x) (auto simp: unlog_def dropAgentCopy_def Let_def case_prod_beta split: bool.splits)

lemma unlog_peer: "unlog (dropPeerCopy (logged env) a x s) = dropPeerCopy env a x (unlog s)"
  by (cases s) (auto simp: unlog_def dropPeerCopy_def Let_def case_prod_beta split: bool.splits)

lemma unlog_parts [simp]: "fst (unlog s) = fst s" "fst (snd (unlog s)) = fst (snd s)" "snd (snd (unlog s)) = fst (snd (snd s))"
  by (simp_all add: unlog_def)

lemma unlog_row: "unlog (cascadeDeletePerRow (logged env) row s) = cascadeDeletePerRow env row (unlog s)"
proof -
  define s1 where "s1 = fold (dropAgentCopy (logged env) (cr_ID row) (agentIDOf row)) (se_agentCheckpoints env (fst (snd (snd s)))) s"
  define s2 where "s2 = fold (dropPeerCopy (logged env) (agentIDOf row))
    (if se_dbDown env (fst (snd (snd s1))) then [] else se_peers env (cr_ID row) (fst (snd (snd s1)))) s1"
  have 1: "unlog s1 = fold (dropAgentCopy env (cr_ID row) (agentIDOf row)) (se_agentCheckpoints env (fst (snd (snd s)))) (unlog s)"
    unfolding s1_def by (rule unlog_fold) (rule unlog_agent)
  have 2: "unlog s2 = fold (dropPeerCopy env (agentIDOf row))
    (if se_dbDown env (fst (snd (snd s1))) then [] else se_peers env (cr_ID row) (fst (snd (snd s1)))) (unlog s1)"
    unfolding s2_def by (rule unlog_fold) (rule unlog_peer)
  show ?thesis
    unfolding cascadeDeletePerRow_def Let_def logged_simps unlog_parts s1_def [symmetric] 1 [symmetric] s2_def [symmetric] 2 [symmetric]
    by (auto simp: unlog_def note_heard_def case_prod_beta)
qed

text \<open>A result and its world, without the record.\<close>

abbreviation strip :: "'r \<times> 'w \<times> tier_call list \<Rightarrow> 'r \<times> 'w" where
  "strip s \<equiv> (fst s, fst (snd s))"

lemma strip_L2: "strip (deleteL2Artifacts (logged env) ns h s) = deleteL2Artifacts env ns h (strip s)"
  by (simp add: deleteL2Artifacts_def Let_def note_heard_def case_prod_beta)

lemma strip_CM: "strip (deleteCaptureManifestCM (logged env) h s) = deleteCaptureManifestCM env h (strip s)"
  by (simp add: deleteCaptureManifestCM_def note_heard_def case_prod_beta)

text \<open>The rows a deletion cleans up after: the one asked for and the others of its hash.\<close>

definition cascadeRows :: "(bool \<Rightarrow> catalog \<Rightarrow> catalog) \<Rightarrow> string \<Rightarrow> string \<Rightarrow> CheckpointRow option \<Rightarrow> bool \<Rightarrow> catalog \<Rightarrow> CheckpointRow list" where
  "cascadeRows orderBy i a row down t = cascadeTarget i a row #
     filter (\<lambda>s. cr_ID s \<noteq> cr_ID (cascadeTarget i a row)) (if hashOf row = [] \<or> down then [] else ListByHash orderBy (hashOf row) t)"

lemma cascadeRows_all:
  assumes "row_order orderBy" and "x \<in> set t" and "cr_Hash x = cr_Hash r" and "cr_Hash r \<noteq> []"
  shows "\<exists>y \<in> set (cascadeRows orderBy i a (Some r) False t). cr_ID y = cr_ID x"
proof -
  have "x \<in> set (ListByHash orderBy (cr_Hash r) t)"
    using row_order.order_set [OF assms(1)] assms(2-4) by (simp add: ListByHash_def)
  then show ?thesis using assms(4) by (cases "cr_ID x = cr_ID (cascadeTarget i a (Some r))") (auto simp: cascadeRows_def hashOf_def)
qed

definition startResult :: "CheckpointRow option \<Rightarrow> bool \<Rightarrow> cascadeDeleteResult" where
  "startResult row down = (if hashOf row \<noteq> [] \<and> down then failed CatalogFailed noResult else noResult)"

definition perHash :: "'w server_env \<Rightarrow> CheckpointRow option \<Rightarrow> cascadeDeleteResult \<times> 'w \<Rightarrow> cascadeDeleteResult \<times> 'w" where
  "perHash env row s =
     (case row of
        None \<Rightarrow> s
      | Some r \<Rightarrow>
          if cr_Hash r = [] then s
          else deleteCaptureManifestCM env (cr_Hash r)
                 (if ci_Namespace (cr_Info r) = [] then s else deleteL2Artifacts env (ci_Namespace (cr_Info r)) (cr_Hash r) s))"

lemma tiers_split:
  "cascadeTiers env orderBy i a row w t =
     perHash env row (snd (fold (cascadeDeletePerRow env) (cascadeRows orderBy i a row (se_dbDown env w) t)
       ([], startResult row (se_dbDown env w), w)))"
  by (simp add: cascadeTiers_def Let_def perHash_def cascadeRows_def startResult_def hashOf_def split: option.split)

lemma strip_tiers: "strip (cascadeTiers (logged env) orderBy i a row w t) = cascadeTiers env orderBy i a row (fst w) t"
proof -
  have hash: "strip (perHash (logged env) row s) = perHash env row (strip s)" for s
    by (simp add: perHash_def strip_CM strip_L2 split: option.split)
  have rows: "strip (snd (fold (cascadeDeletePerRow (logged env)) rs s)) = snd (fold (cascadeDeletePerRow env) rs (unlog s))" for rs s
    using unlog_fold [of "cascadeDeletePerRow (logged env)" "cascadeDeletePerRow env" rs s, OF unlog_row] unfolding unlog_def
    by (metis snd_conv)
  show ?thesis by (simp only: tiers_split hash rows logged_simps unlog_def fst_conv snd_conv)
qed

lemma strip_delete:
  assumes "deleteCheckpoint (logged env) orderBy i w t = (code, w', t')"
  shows "deleteCheckpoint env orderBy i (fst w) t = (code, fst w', t')"
proof -
  define row where "row = (if se_dbDown env (fst w) then None else case GetCheckpoint i t of Inl _ \<Rightarrow> None | Inr r \<Rightarrow> Some r)"
  define a where "a = (case row of None \<Rightarrow> i | Some r \<Rightarrow> if cr_CheckpointPath r \<noteq> [] then filepathBase (cr_CheckpointPath r) else i)"
  obtain r v where l: "cascadeTiers (logged env) orderBy i a row w t = (r, v)" by (meson surj_pair)
  then have p: "cascadeTiers env orderBy i a row (fst w) t = (r, fst v)" using strip_tiers [of env orderBy i a row w t] by simp
  from assms show ?thesis
    unfolding deleteCheckpoint_def Let_def logged_simps row_def [symmetric] a_def [symmetric] cascade_cases [OF l] cascade_cases [OF p]
    by (auto split: option.splits if_splits)
qed

text \<open>
  What the steps of a cascade keep while no error is recorded: every copy they have seen was
  deleted, and no call is forgotten.
\<close>

definition clean :: "('w \<times> tier_call list) cascade \<Rightarrow> bool" where
  "clean s \<longleftrightarrow> cd_Errors (fst (snd s)) = [] \<and> (\<forall>(node, c) \<in> set (fst s). OnAgent node c \<in> set (snd (snd (snd s))))"

definition ahead :: "('w \<times> tier_call list) cascade \<Rightarrow> ('w \<times> tier_call list) cascade \<Rightarrow> bool" where
  "ahead s s' \<longleftrightarrow> (cd_Errors (fst (snd s')) = [] \<longrightarrow> cd_Errors (fst (snd s)) = [] \<and> (clean s \<longrightarrow> clean s')) \<and>
     set (snd (snd (snd s))) \<subseteq> set (snd (snd (snd s')))"

lemma ahead_refl [simp]: "ahead s s"
  by (simp add: ahead_def)

lemma ahead_trans: "ahead s1 s2 \<Longrightarrow> ahead s2 s3 \<Longrightarrow> ahead s1 s3"
  by (auto simp: ahead_def)

lemma ahead_fold: "(\<And>x s. ahead s (f x s)) \<Longrightarrow> ahead s (fold f xs s)"
proof (induction xs arbitrary: s)
  case (Cons x xs)
  have "ahead (f x s) (fold f xs (f x s))" using Cons by blast
  with ahead_trans [OF Cons.prems] show ?case by simp
qed simp

text \<open>Every element of a loop is handled in some state on the way to the last.\<close>

lemma ahead_elem:
  assumes "\<And>x s. ahead s (f x s)" and "x \<in> set xs"
  obtains u where "ahead s u" and "ahead (f x u) (fold f xs s)"
proof -
  obtain ys zs where xs: "xs = ys @ x # zs" using assms(2) by (meson split_list)
  have "ahead s (fold f ys s)" using assms(1) by (rule ahead_fold)
  moreover have "ahead (f x (fold f ys s)) (fold f xs s)" using ahead_fold [OF assms(1)] by (simp add: xs)
  ultimately show ?thesis by (rule that)
qed

lemma logged_agent:
  "dropAgentCopy (logged env) a b (c, node) (seen, r, w, calls) =
     (if (c \<noteq> a \<and> c \<noteq> b) \<or> node = [] \<or> (node, c) \<in> set seen then (seen, r, w, calls)
      else let out = se_deleteOnAgentNode env node c w
           in if fst out then ((node, c) # seen, r\<lparr>cd_OriginAgents := cd_OriginAgents r + 1, cd_AnySuccess := True\<rparr>, snd out, OnAgent node c # calls)
              else ((node, c) # seen, failed (AgentFailed node) r, snd out, calls))"
  by (simp add: dropAgentCopy_def Let_def)

lemma logged_peer:
  "dropPeerCopy (logged env) a node (seen, r, w, calls) =
     (if (node, a) \<in> set seen then (seen, r, w, calls)
      else let out = se_deleteOnAgentNode env node a w
           in if fst out then ((node, a) # seen, r\<lparr>cd_PeerAgents := cd_PeerAgents r + 1, cd_OriginAgents := cd_OriginAgents r + 1,
                cd_AnySuccess := True\<rparr>, snd out, OnAgent node a # calls)
              else ((node, a) # seen, failed (PeerFailed node) r, snd out, calls))"
  by (simp add: dropPeerCopy_def Let_def)

lemmas logged_copies = logged_agent logged_peer Let_def failed_def

lemma ahead_agent: "ahead s (dropAgentCopy (logged env) a b x s)"
  by (cases s; cases x) (auto simp: ahead_def clean_def logged_copies)

lemma ahead_peer: "ahead s (dropPeerCopy (logged env) a x s)"
  by (cases s) (auto simp: ahead_def clean_def logged_copies)

lemma agent_deleted:
  assumes "clean (dropAgentCopy (logged env) a b (c, node) s)" and "c = a \<or> c = b" and "node \<noteq> []"
  shows "OnAgent node c \<in> set (snd (snd (snd (dropAgentCopy (logged env) a b (c, node) s))))"
  using assms by (cases s) (auto simp: clean_def logged_copies split: if_splits)

lemma peer_deleted:
  assumes "clean (dropPeerCopy (logged env) a node s)"
  shows "OnAgent node a \<in> set (snd (snd (snd (dropPeerCopy (logged env) a node s))))"
  using assms by (cases s) (auto simp: clean_def logged_copies split: if_splits)

lemma tally_heard:
  assumes "cd_Errors (tally bump what out r) = []" and "\<And>r. cd_Errors (bump r) = cd_Errors r"
  shows "cd_Errors r = []" and "heard out"
  using tally_errors [OF assms(2)] assms(1) by (auto simp: heard_def)

text \<open>
  The tiers of one row whose turn comes in state \<open>s\<close>: the copies of it that the agents list then, those
  of the peers that the catalog names once these are gone, while the database answers, and its
  custom resource.
\<close>

definition peersWorld :: "'w server_env \<Rightarrow> CheckpointRow \<Rightarrow> 'w cascade \<Rightarrow> 'w" where
  "peersWorld env row s =
     snd (snd (fold (dropAgentCopy env (cr_ID row) (agentIDOf row)) (se_agentCheckpoints env (snd (snd s))) s))"

definition rowCleaned :: "'w server_env \<Rightarrow> tier_call list \<Rightarrow> CheckpointRow \<Rightarrow> 'w cascade \<Rightarrow> bool" where
  "rowCleaned env calls row s \<longleftrightarrow>
     (\<forall>(c, node) \<in> set (se_agentCheckpoints env (snd (snd s))).
        node \<noteq> [] \<and> c \<in> {cr_ID row, agentIDOf row} \<longrightarrow> OnAgent node c \<in> set calls) \<and>
     (\<not> se_dbDown env (peersWorld env row s) \<longrightarrow>
        (\<forall>node \<in> set (se_peers env (cr_ID row) (peersWorld env row s)). OnAgent node (agentIDOf row) \<in> set calls)) \<and>
     (ci_Namespace (cr_Info row) \<noteq> [] \<longrightarrow> OnCRD (ci_Namespace (cr_Info row)) (cr_ID row) \<in> set calls)"

lemma rowCleaned_mono: "rowCleaned env calls row s \<Longrightarrow> set calls \<subseteq> set calls' \<Longrightarrow> rowCleaned env calls' row s"
  unfolding rowCleaned_def by blast

lemma row_step:
  shows "ahead s (cascadeDeletePerRow (logged env) row s)"
    and "clean s \<Longrightarrow> cd_Errors (fst (snd (cascadeDeletePerRow (logged env) row s))) = [] \<Longrightarrow>
      rowCleaned env (snd (snd (snd (cascadeDeletePerRow (logged env) row s)))) row (unlog s)"
proof -
  let ?id = "cr_ID row" and ?a = "agentIDOf row" and ?ns = "ci_Namespace (cr_Info row)"
  define s1 where "s1 = fold (dropAgentCopy (logged env) ?id ?a) (se_agentCheckpoints env (fst (snd (snd s)))) s"
  define peers where "peers = (if se_dbDown env (fst (snd (snd s1))) then [] else se_peers env ?id (fst (snd (snd s1))))"
  define s2 where "s2 = fold (dropPeerCopy (logged env) ?a) peers s1"
  define s3 where "s3 = cascadeDeletePerRow (logged env) row s"
  have s3: "s3 = (if ?ns = [] then s2
      else let out = se_deleteCRD env ?ns ?id (fst (snd (snd s2)))
           in (fst s2, tally (\<lambda>r. r\<lparr>cd_CRDsDeleted := cd_CRDsDeleted r + 1\<rparr>) ?id (fst out) (fst (snd s2)),
               snd out, if heard (fst out) then OnCRD ?ns ?id # snd (snd (snd s2)) else snd (snd (snd s2))))"
    unfolding s3_def cascadeDeletePerRow_def Let_def logged_simps s1_def [symmetric] peers_def [symmetric] s2_def [symmetric]
    by (simp add: case_prod_beta note_heard_def)
  have 1: "ahead s s1" unfolding s1_def by (rule ahead_fold) (rule ahead_agent)
  have 2: "ahead s1 s2" unfolding s2_def by (rule ahead_fold) (rule ahead_peer)
  have 3: "ahead s2 s3" by (auto simp: s3 ahead_def clean_def Let_def)
  show "ahead s (cascadeDeletePerRow (logged env) row s)" using ahead_trans [OF ahead_trans [OF 1 2] 3] by (simp add: s3_def)
  assume c: "clean s" and "cd_Errors (fst (snd (cascadeDeletePerRow (logged env) row s))) = []"
  then have e3: "cd_Errors (fst (snd s3)) = []" by (simp add: s3_def)
  let ?calls = "set (snd (snd (snd s3)))"
  have "OnAgent node k \<in> ?calls" if k: "(k, node) \<in> set (se_agentCheckpoints env (fst (snd (snd s))))" "node \<noteq> []" "k \<in> {?id, ?a}" for k node
  proof -
    obtain u where u: "ahead s u" "ahead (dropAgentCopy (logged env) ?id ?a (k, node) u) s1"
      unfolding s1_def by (rule ahead_elem [OF ahead_agent k(1)])
    with 2 3 have a: "ahead (dropAgentCopy (logged env) ?id ?a (k, node) u) s3" by (meson ahead_trans)
    with e3 c u(1) have "clean (dropAgentCopy (logged env) ?id ?a (k, node) u)"
      using ahead_agent [of u env ?id ?a "(k, node)"] by (auto simp: ahead_def)
    from agent_deleted [OF this] k a show ?thesis by (auto simp: ahead_def)
  qed
  moreover have "OnAgent node ?a \<in> ?calls" if p: "node \<in> set peers" for node
  proof -
    obtain u where u: "ahead s1 u" "ahead (dropPeerCopy (logged env) ?a node u) s2"
      unfolding s2_def by (rule ahead_elem [OF ahead_peer p])
    with 3 have a: "ahead (dropPeerCopy (logged env) ?a node u) s3" by (meson ahead_trans)
    with e3 c 1 u(1) have "clean (dropPeerCopy (logged env) ?a node u)"
      using ahead_peer [of u env ?a node] by (auto simp: ahead_def)
    from peer_deleted [OF this] a show ?thesis by (auto simp: ahead_def)
  qed
  then have "\<not> se_dbDown env (fst (snd (snd s1))) \<longrightarrow> (\<forall>node \<in> set (se_peers env ?id (fst (snd (snd s1)))). OnAgent node ?a \<in> ?calls)"
    by (simp add: peers_def)
  moreover have "fst (snd (snd s1)) = peersWorld env row (unlog s)"
    unfolding s1_def peersWorld_def unlog_parts
    using unlog_fold [of "dropAgentCopy (logged env) ?id ?a" "dropAgentCopy env ?id ?a" _ s, OF unlog_agent] by (metis unlog_parts(3))
  moreover have "?ns \<noteq> [] \<longrightarrow> OnCRD ?ns ?id \<in> ?calls"
    using e3 by (auto simp: s3 Let_def simp: heard_def dest: tally_heard(2))
  ultimately show "rowCleaned env (snd (snd (snd (cascadeDeletePerRow (logged env) row s)))) row (unlog s)"
    unfolding rowCleaned_def s3_def [symmetric] unlog_parts by fastforce
qed

text \<open>The tiers of a hash: the manifest, and in the namespace of the capture the volumes, the snapshot and the lease.\<close>

definition hashCleaned :: "tier_call list \<Rightarrow> CheckpointRow \<Rightarrow> bool" where
  "hashCleaned calls r \<longleftrightarrow> cr_Hash r \<noteq> [] \<longrightarrow>
     (let ns = ci_Namespace (cr_Info r); short = ShortHash (cr_Hash r)
      in OnCM ''nvsnap-system'' (CMNameFor (cr_Hash r)) \<in> set calls \<and>
         (ns \<noteq> [] \<longrightarrow> {OnPVC ns (''rox-'' @ short), OnPVC ns (''rwx-'' @ short), OnSnapshot ns (''snap-'' @ short),
                      OnLease ns (''nvsnap-promote-'' @ short)} \<subseteq> set calls))"

lemma L2_step:
  assumes "cd_Errors (fst (deleteL2Artifacts (logged env) ns h s)) = []"
  shows "cd_Errors (fst s) = []" and "set (snd (snd s)) \<subseteq> set (snd (snd (deleteL2Artifacts (logged env) ns h s)))"
    and "{OnPVC ns (''rox-'' @ ShortHash h), OnPVC ns (''rwx-'' @ ShortHash h), OnSnapshot ns (''snap-'' @ ShortHash h),
      OnLease ns (''nvsnap-promote-'' @ ShortHash h)} \<subseteq> set (snd (snd (deleteL2Artifacts (logged env) ns h s)))"
  using assms by (auto simp: deleteL2Artifacts_def Let_def note_heard_def case_prod_beta heard_def)

lemma CM_step:
  assumes "cd_Errors (fst (deleteCaptureManifestCM (logged env) h s)) = []"
  shows "cd_Errors (fst s) = []" and "set (snd (snd s)) \<subseteq> set (snd (snd (deleteCaptureManifestCM (logged env) h s)))"
    and "OnCM ''nvsnap-system'' (CMNameFor h) \<in> set (snd (snd (deleteCaptureManifestCM (logged env) h s)))"
  using assms by (auto simp: deleteCaptureManifestCM_def note_heard_def case_prod_beta heard_def)

lemma hash_step:
  assumes "cd_Errors (fst (perHash (logged env) row s)) = []"
  shows "cd_Errors (fst s) = []" and "set (snd (snd s)) \<subseteq> set (snd (snd (perHash (logged env) row s)))"
    and "row = Some r \<Longrightarrow> hashCleaned (snd (snd (perHash (logged env) row s))) r"
proof -
  have "cd_Errors (fst s) = [] \<and> set (snd (snd s)) \<subseteq> set (snd (snd (perHash (logged env) row s))) \<and>
    (row = Some r \<longrightarrow> hashCleaned (snd (snd (perHash (logged env) row s))) r)" for r
  proof (cases row)
    case (Some r')
    let ?ns = "ci_Namespace (cr_Info r')"
    define s2 where "s2 = (if ?ns = [] then s else deleteL2Artifacts (logged env) ?ns (cr_Hash r') s)"
    show ?thesis
    proof (cases "cr_Hash r' = []")
      case False
      then have p: "perHash (logged env) (Some r') s = deleteCaptureManifestCM (logged env) (cr_Hash r') s2"
        by (simp add: perHash_def s2_def)
      note cm = CM_step [OF assms [unfolded Some p]]
      show ?thesis
      proof (cases "?ns = []")
        case True
        then show ?thesis unfolding Some p using cm by (auto simp: s2_def hashCleaned_def Let_def)
      next
        case ns: False
        then have s2: "s2 = deleteL2Artifacts (logged env) ?ns (cr_Hash r') s" by (simp add: s2_def)
        note l2 = L2_step [OF cm(1) [unfolded s2]]
        show ?thesis unfolding Some p using cm(2,3) l2 by (auto simp: s2 hashCleaned_def Let_def)
      qed
    qed (use assms Some in \<open>auto simp: perHash_def hashCleaned_def\<close>)
  qed (use assms in \<open>simp add: perHash_def\<close>)
  then show "cd_Errors (fst s) = []" and "set (snd (snd s)) \<subseteq> set (snd (snd (perHash (logged env) row s)))"
    and "row = Some r \<Longrightarrow> hashCleaned (snd (snd (perHash (logged env) row s))) r" by blast+
qed

text \<open>A run of the tiers without an error has cleaned every one of them.\<close>

lemma tiers_cleaned:
  assumes "cascadeTiers (logged env) orderBy i a row (w, calls0) t = (r, w', calls)" and "cd_Errors r = []" and "\<not> se_dbDown env w"
    and rows: "rows = cascadeRows orderBy i a row False t"
  shows "k < length rows \<Longrightarrow> rowCleaned env calls (rows ! k) (fold (cascadeDeletePerRow env) (take k rows) ([], noResult, w))"
    and "row = Some x \<Longrightarrow> hashCleaned calls x"
proof -
  let ?f = "cascadeDeletePerRow (logged env)" and ?s0 = "([], noResult, w, calls0)"
  have "startResult row False = noResult" by (simp add: startResult_def)
  then have run: "perHash (logged env) row (snd (fold ?f rows ?s0)) = (r, w', calls)"
    using assms(1,3) by (simp add: tiers_split rows)
  then have e: "cd_Errors (fst (perHash (logged env) row (snd (fold ?f rows ?s0)))) = []" using assms(2) by simp
  note h = hash_step [OF e]
  show "row = Some x \<Longrightarrow> hashCleaned calls x" using h(3) [of x] run by simp
  assume k: "k < length rows"
  define u where "u = fold ?f (take k rows) ?s0"
  have "fold ?f (take k rows @ rows ! k # drop (Suc k) rows) ?s0 = fold ?f (drop (Suc k) rows) (?f (rows ! k) u)"
    by (simp add: u_def)
  then have all: "fold ?f rows ?s0 = fold ?f (drop (Suc k) rows) (?f (rows ! k) u)"
    unfolding id_take_nth_drop [OF k, symmetric] .
  have a0: "ahead ?s0 u" unfolding u_def by (rule ahead_fold) (rule row_step(1))
  have a1: "ahead (?f (rows ! k) u) (fold ?f rows ?s0)" unfolding all by (rule ahead_fold) (rule row_step(1))
  have ek: "cd_Errors (fst (snd (?f (rows ! k) u))) = []" using a1 h(1) by (simp add: ahead_def)
  then have "cd_Errors (fst (snd u)) = []" using row_step(1) [of u env "rows ! k"] by (simp add: ahead_def)
  then have "clean u" using a0 by (simp add: ahead_def clean_def noResult_def)
  from row_step(2) [OF this ek] have "rowCleaned env (snd (snd (snd (?f (rows ! k) u)))) (rows ! k) (unlog u)" .
  moreover have "set (snd (snd (snd (?f (rows ! k) u)))) \<subseteq> set calls"
    using a1 h(2) run by (auto simp: ahead_def)
  moreover have "unlog u = fold (cascadeDeletePerRow env) (take k rows) ([], noResult, w)"
    unfolding u_def by (subst unlog_fold [where g = "cascadeDeletePerRow env", OF unlog_row]) (simp add: unlog_def)
  ultimately show "rowCleaned env calls (rows ! k) (fold (cascadeDeletePerRow env) (take k rows) ([], noResult, w))"
    using rowCleaned_mono by metis
qed

definition rowOf :: "string \<Rightarrow> catalog \<Rightarrow> CheckpointRow option" where
  "rowOf i t = (case GetCheckpoint i t of Inl _ \<Rightarrow> None | Inr r \<Rightarrow> Some r)"

text \<open>
  \<open>calls\<close> clean every tier of the checkpoint: those of its row and of the other rows of its hash, each in
  the state in which its turn comes, and those of the hash.
\<close>

definition tiersCleaned :: "'w server_env \<Rightarrow> (bool \<Rightarrow> catalog \<Rightarrow> catalog) \<Rightarrow> string \<Rightarrow> 'w \<Rightarrow> catalog \<Rightarrow> tier_call list \<Rightarrow> bool" where
  "tiersCleaned env orderBy i w t calls \<longleftrightarrow>
     (let rows = cascadeRows orderBy i (case rowOf i t of None \<Rightarrow> i | Some r \<Rightarrow> agentIDOf r) (rowOf i t) False t
      in (\<forall>k < length rows. rowCleaned env calls (rows ! k) (fold (cascadeDeletePerRow env) (take k rows) ([], noResult, w))) \<and>
         (\<forall>r. rowOf i t = Some r \<longrightarrow> hashCleaned calls r))"

lemma delete_cleans:
  assumes "\<not> se_dbDown env w" and "deleteCheckpoint env orderBy i w t = (204, w', t')"
  shows "\<exists>calls. deleteCheckpoint (logged env) orderBy i (w, []) t = (204, (w', calls), t') \<and> tiersCleaned env orderBy i w t calls"
proof -
  define a where "a = (case rowOf i t of None \<Rightarrow> i | Some r \<Rightarrow> agentIDOf r)"
  have a: "a = (case rowOf i t of None \<Rightarrow> i | Some r \<Rightarrow> if cr_CheckpointPath r \<noteq> [] then filepathBase (cr_CheckpointPath r) else i)"
    by (auto simp: a_def agentIDOf_def rowOf_def normalizeCheckpointHash_def dest!: GetCheckpoint_row split: option.split sum.splits)
  obtain c v calls t2 where l: "deleteCheckpoint (logged env) orderBy i (w, []) t = (c, (v, calls), t2)" by (metis surj_pair)
  from strip_delete [OF this] assms(2) have eq: "c = 204" "v = w'" "t2 = t'" by simp_all
  obtain r u calls1 where ti: "cascadeTiers (logged env) orderBy i a (rowOf i t) (w, []) t = (r, u, calls1)" by (metis surj_pair)
  have "(204, (w', calls), t') = (case cascadeDeleteCheckpoint (logged env) orderBy i a (rowOf i t) (w, []) t of (r, w', t') \<Rightarrow> (deleteAnswer r, w', t'))"
    using l eq assms(1) by (simp add: deleteCheckpoint_def Let_def rowOf_def a flip: rowOf_def)
  note run = this [unfolded cascade_cases [OF ti]]
  have e: "cd_Errors r = []" and "calls = calls1"
    using run by (auto simp: deleteAnswer_def split: if_splits option.splits)
  with tiers_cleaned [OF ti e assms(1) refl] l eq show ?thesis
    by (intro exI [of _ calls]) (simp add: tiersCleaned_def Let_def a_def)
qed

section \<open>Retention\<close>

lemma uniqueIDs_subset: "set (uniqueIDs seen rs) \<subseteq> set rs"
  by (induction seen rs rule: uniqueIDs.induct) auto

lemma FindExpired_rows: "row_order orderBy \<Longrightarrow> set (FindExpiredCheckpoints orderBy now p t) \<subseteq> set t"
  using uniqueIDs_subset row_order.order_set
  by (fastforce simp: FindExpiredCheckpoints_def Let_def dest: in_set_dropD split: if_splits)

text \<open>The loop of a policy deletes the rows of the expired ids and no others.\<close>

lemma enforce_deletes:
  assumes "\<And>w. \<not> se_dbDown env w"
    and "fold (\<lambda>c (w, t). if se_dbDown env w then (w, t)
           else (snd (se_deleteCRD env (ci_Namespace (cr_Info c)) (cr_ID c) w), DeleteCheckpoint (cr_ID c) t)) cs (w, t) = (w', t')"
    and "catalog_inv t"
  shows "set t' = {x \<in> set t. cr_ID x \<notin> cr_ID ` set cs}" and "catalog_inv t'"
proof -
  have "set t' = {x \<in> set t. cr_ID x \<notin> cr_ID ` set cs} \<and> catalog_inv t'"
    using assms(2,3)
  proof (induction cs arbitrary: w t)
    case (Cons c cs)
    have "catalog_inv (DeleteCheckpoint (cr_ID c) t)"
      using Cons.prems(2) rows.keys_filter by (simp add: DeleteCheckpoint_def catalog_simps)
    with Cons.IH [of "snd (se_deleteCRD env (ci_Namespace (cr_Info c)) (cr_ID c) w)" "DeleteCheckpoint (cr_ID c) t"] Cons.prems(1) assms(1)
    show ?case by (auto simp: DeleteCheckpoint_def)
  qed simp
  then show "set t' = {x \<in> set t. cr_ID x \<notin> cr_ID ` set cs}" "catalog_inv t'" by simp_all
qed

section \<open>A server in memory\<close>

text \<open>One agent that may hold the copy of one checkpoint, and the health of the database.\<close>

record memCluster =
  mc_agents :: "(string \<times> string) list"
  mc_down :: bool

definition memCluster_env :: "memCluster server_env" where
  "memCluster_env =
     \<lparr>se_dbDown = mc_down, se_agentCheckpoints = mc_agents, se_peers = (\<lambda>_ _. []), se_findCRD = (\<lambda>_ _ _. False),
      se_deleteOnAgentNode = (\<lambda>node i w. (True, w\<lparr>mc_agents := filter (\<lambda>x. x \<noteq> (i, node)) (mc_agents w)\<rparr>)),
      se_deleteCRD = (\<lambda>_ _ w. (Some NotFound, w)), se_deletePVC = (\<lambda>_ _ w. (Some NotFound, w)),
      se_deleteSnapshot = (\<lambda>_ _ w. (Some NotFound, w)), se_deleteLease = (\<lambda>_ _ w. (Some NotFound, w)),
      se_deleteCM = (\<lambda>_ _ w. (None, w))\<rparr>"

definition demo_hash :: string where "demo_hash = replicate 64 (CHR ''a'')"

definition demo_cm :: ConfigMap where
  "demo_cm = \<lparr>cm_Name = ''cm'', cm_Hash = Some demo_hash, cm_Data = Some ''{}'', cm_CreationTimestamp = 0\<rparr>"

definition demo_decode :: "string \<Rightarrow> Manifest option" where
  "demo_decode raw = Some \<lparr>mf_Hash = demo_hash, mf_SourcePodMeta = (\<lambda>_. []), mf_TotalSizeBytes = 0, mf_FileCount = 0,
     mf_CapturedAt = 1, mf_CapturedOnNodes = []\<rparr>"

lemma demo_manifest: "manifestFor demo_decode demo_hash demo_cm"
  by (simp add: manifestFor_def demo_cm_def demo_decode_def demo_hash_def looksLikeHash_def isHex_def)

definition demo_cluster :: memCluster where "demo_cluster = \<lparr>mc_agents = [], mc_down = False\<rparr>"

lemma demo_catalog: "catalog_inv [demo_row demo_hash demo_hash 0]"
  by (simp add: catalog_inv_def demo_hash_def)

lemma demo_hash_long: "length xs \<noteq> 64 \<Longrightarrow> demo_hash \<noteq> xs"
  by (auto simp: demo_hash_def)

lemma demo_hash_nonempty [simp]: "demo_hash \<noteq> []"
  by (rule demo_hash_long) simp

lemma scan_single [simp]: "scanOrder asc [x] = [x]" "scanOrder asc [] = []"
  by (simp_all add: scanOrder_def)

lemma demo_normalize [simp]: "h \<noteq> [] \<Longrightarrow> normalizeCheckpointHash (demo_row i h c) = demo_row i h c"
  by (simp add: normalizeCheckpointHash_def)

lemma demo_delete:
  "deleteCheckpoint memCluster_env scanOrder demo_hash demo_cluster [demo_row demo_hash demo_hash 0] = (204, demo_cluster, [])"
  by (simp add: deleteCheckpoint_def Let_def GetCheckpoint_def cascadeDeleteCheckpoint_def cascadeTiers_def hashOf_def
      cascadeTarget_def ListByHash_def demo_cluster_def memCluster_env_def cascadeDeletePerRow_def deleteL2Artifacts_def
      deleteCaptureManifestCM_def tally_def noResult_def DeleteByHash_def deleteAnswer_def demo_row_def normalizeCheckpointHash_def)

section \<open>Properties\<close>



text \<open>
  A deletion whose first query fails drops the bytes and keeps the row. The error of the query is
  discarded and the checkpoint treated as one without a row: the copies on the agents are deleted, the
  answer is 204, and the row stays, so that lookups keep offering a capture that is gone.
\<close>

theorem failed_query_orphans_row:
  assumes "mc_down w" and "mc_agents w = [(i, node)]" and "node \<noteq> []"
  shows "deleteCheckpoint memCluster_env orderBy i w t = (204, w\<lparr>mc_agents := []\<rparr>, t)"
  using assms
  by (simp add: deleteCheckpoint_def Let_def cascadeDeleteCheckpoint_def cascadeTiers_def hashOf_def cascadeTarget_def blankRow_def
      memCluster_env_def cascadeDeletePerRow_def dropAgentCopy_def noResult_def deleteAnswer_def)

text \<open>
  A deletion can be undone by a pass of the manifest reconciler that is under way. The cascade deletes
  the config map before the rows so that the reconciler does not bring them back, but a pass ingests
  the config maps it listed before: when the listing came before the deletion, the row is back.
\<close>

theorem stale_list_resurrects:
  assumes "row_order orderBy" and "catalog_inv t" and "\<not> se_dbDown env w" and "GetCheckpoint i t = Inr r"
    and "manifestFor decode (cr_Hash r) cm" and "deleteCheckpoint env orderBy i w t = (204, w', t')"
  shows "ListByHash orderBy (cr_Hash r) (reconcileOnce orderBy decode now [cm] t') \<noteq> []"
proof (rule ingest_adds [OF assms(1) delete_inv [OF assms(2,6)] assms(5)])
  have "cr_Hash r \<noteq> []" using assms(5) by (auto simp: manifestFor_def looksLikeHash_def)
  then show "\<forall>x \<in> set t'. cr_Hash x \<noteq> cr_Hash r"
    using delete_effect [OF assms(2,3,6)] assms(4) by (simp add: capture_gone_def)
qed

text \<open>
  Retention does not last. It deletes only the catalog row and the custom resource, not the config map
  of the capture, so the next pass of the manifest reconciler brings every rootfs capture it deleted
  back, and the bytes are never freed.
\<close>

theorem retention_undone:
  assumes "row_order orderBy" and "catalog_inv t" and "\<And>w. \<not> se_dbDown env w" and "rp_Enabled p"
    and "r \<in> set (FindExpiredCheckpoints orderBy now p t)" and "manifestFor decode (cr_Hash r) cm"
    and "enforceRetentionPolicies env orderBy now [p] (w, t) = (w', t')"
  shows "r \<notin> set t' \<and> ListByHash orderBy (cr_Hash r) (reconcileOnce orderBy decode now' [cm] t') \<noteq> []"
proof -
  have r: "r \<in> set t" using FindExpired_rows [OF assms(1)] assms(5) by blast
  have t': "set t' = {x \<in> set t. cr_ID x \<notin> cr_ID ` set (FindExpiredCheckpoints orderBy now p t)}" and inv: "catalog_inv t'"
    using enforce_deletes [OF assms(3) _ assms(2), of "FindExpiredCheckpoints orderBy now p t" w w' t'] assms(3,4,7)
    by (simp_all add: enforceRetentionPolicies_def enforcePolicy_def)
  have ne: "cr_Hash r \<noteq> []" using assms(6) by (auto simp: manifestFor_def looksLikeHash_def)
  have "\<forall>x \<in> set t'. cr_Hash x \<noteq> cr_Hash r"
    using rows.same_hash [of t _ r] assms(2,5) r ne t' by (auto simp: catalog_simps)
  with ingest_adds [OF assms(1) inv assms(6)] ne show ?thesis by auto
qed

definition keepOne :: RetentionPolicy where
  "keepOne = \<lparr>rp_Name = ''p'', rp_Enabled = True, rp_Namespace = ''*'', rp_WorkloadType = ''*'', rp_MaxCount = 1, rp_MaxAgeHours = 0,
     rp_MaxTotalBytes = 0\<rparr>"

lemma demo_expired:
  "FindExpiredCheckpoints scanOrder 7 keepOne [demo_row demo_hash demo_hash 0, demo_row ''b'' ''k'' 1000000000] = [demo_row demo_hash demo_hash 0]"
proof -
  have "RFC3339Nano 1000000000 = (1, ''Z'')"
    by (simp add: RFC3339Nano_def Let_def trimZeros_def nineDigits_def show_nat.simps char_of_def bit_Suc_0_iff)
  then have "scanOrder False [demo_row demo_hash demo_hash 0, demo_row ''b'' ''k'' 1000000000] =
      [demo_row ''b'' ''k'' 1000000000, demo_row demo_hash demo_hash 0]"
    by (simp add: scanOrder_def createdText_def demo_texts)
  then show ?thesis by (simp add: FindExpiredCheckpoints_def keepOne_def retentionScope_def Let_def)
qed

end
