(* ===== verification/WorkQueue.thy ===== *)
theory WorkQueue
  imports Prelude "HOL-Library.Multiset"
begin

text \<open>
  The rate-limited work queue of client-go that the capture controller is built on
  (\<open>util/workqueue/queue.go\<close>, \<open>delaying_queue.go\<close>, \<open>rate_limiting_queue.go\<close>, vendored by the agent).

  The controller only uses the operations in the record \<open>workqueue\<close>; what they promise while the queue is not
  shut down is the locale \<open>work_queue\<close>, interpreted on the queue as it is written: a list of
  keys in the order of work, a set of dirty keys, a set of keys being worked on, and the keys
  waiting for their delay. Each operation holds the queue's lock for its whole body, so it is one step.
\<close>

section \<open>The interface\<close>

text \<open>\<open>wq_Get\<close> is \<open>None\<close> when the call waits, and gives no key when the queue is shut down and empty.\<close>

record 'q workqueue =
  wq_Add :: "string \<Rightarrow> 'q \<Rightarrow> 'q"
  wq_Get :: "'q \<Rightarrow> (string option \<times> 'q) option"
  wq_Done :: "string \<Rightarrow> 'q \<Rightarrow> 'q"
  wq_Forget :: "string \<Rightarrow> 'q \<Rightarrow> 'q"
  wq_AddRateLimited :: "string \<Rightarrow> 'q \<Rightarrow> 'q"

text \<open>
  A key is handed to one worker at a time, a key added while it is worked on is kept for
  afterwards, a rate-limited key comes back when its delay is over (\<open>due\<close>), and forgetting a key
  only clears its history of failures.
\<close>

locale work_queue =
  fixes wq :: "'q workqueue" and ok :: "'q \<Rightarrow> bool" and dirty processing delayed :: "'q \<Rightarrow> string set"
    and due :: "string \<Rightarrow> 'q \<Rightarrow> 'q"
  assumes add_key: "ok q \<Longrightarrow> ok (wq_Add wq k q) \<and> dirty (wq_Add wq k q) = insert k (dirty q) \<and>
        processing (wq_Add wq k q) = processing q \<and> delayed (wq_Add wq k q) = delayed q"
    and get_key: "ok q \<Longrightarrow> wq_Get wq q = Some (Some k, q') \<Longrightarrow> ok q' \<and> k \<in> dirty q \<and> k \<notin> processing q \<and>
        dirty q' = dirty q - {k} \<and> processing q' = insert k (processing q) \<and> delayed q' = delayed q"
    and get_ready: "ok q \<Longrightarrow> \<not> dirty q \<subseteq> processing q \<Longrightarrow> \<exists>k q'. wq_Get wq q = Some (Some k, q')"
    and done_key: "ok q \<Longrightarrow> k \<in> processing q \<Longrightarrow> ok (wq_Done wq k q) \<and> dirty (wq_Done wq k q) = dirty q \<and>
        processing (wq_Done wq k q) = processing q - {k} \<and> delayed (wq_Done wq k q) = delayed q"
    and forget_key: "ok q \<Longrightarrow> ok (wq_Forget wq k q) \<and> dirty (wq_Forget wq k q) = dirty q \<and>
        processing (wq_Forget wq k q) = processing q \<and> delayed (wq_Forget wq k q) = delayed q"
    and limit_key: "ok q \<Longrightarrow> ok (wq_AddRateLimited wq k q) \<and> dirty (wq_AddRateLimited wq k q) = dirty q \<and>
        processing (wq_AddRateLimited wq k q) = processing q \<and> delayed (wq_AddRateLimited wq k q) = insert k (delayed q)"
    and due_key: "ok q \<Longrightarrow> k \<in> delayed q \<Longrightarrow> ok (due k q) \<and> dirty (due k q) = insert k (dirty q) \<and>
        processing (due k q) = processing q \<and> delayed (due k q) = delayed q - {k}"

section \<open>The queue\<close>

record typed_queue =
  tq_queue :: "string list"
  tq_dirty :: "string set"
  tq_processing :: "string set"
  tq_shuttingDown :: bool
  tq_waiting :: "string list"
  tq_failures :: "string \<Rightarrow> nat"

definition tq_Add :: "string \<Rightarrow> typed_queue \<Rightarrow> typed_queue" where
  "tq_Add item q =
     (if tq_shuttingDown q then q
      else if item \<in> tq_dirty q then q
      else
        let q1 = q\<lparr>tq_dirty := insert item (tq_dirty q)\<rparr>
        in if item \<in> tq_processing q1 then q1
           else q1\<lparr>tq_queue := tq_queue q1 @ [item]\<rparr>)"

definition tq_Get :: "typed_queue \<Rightarrow> (string option \<times> typed_queue) option" where
  "tq_Get q =
     (case tq_queue q of
        [] \<Rightarrow> if tq_shuttingDown q then Some (None, q) else None
      | item # rest \<Rightarrow>
          Some (Some item,
            q\<lparr>tq_queue := rest, tq_processing := insert item (tq_processing q), tq_dirty := tq_dirty q - {item}\<rparr>))"

definition tq_Done :: "string \<Rightarrow> typed_queue \<Rightarrow> typed_queue" where
  "tq_Done item q =
     (let q1 = q\<lparr>tq_processing := tq_processing q - {item}\<rparr>
      in if item \<in> tq_dirty q1 then q1\<lparr>tq_queue := tq_queue q1 @ [item]\<rparr> else q1)"

definition tq_ShutDown :: "typed_queue \<Rightarrow> typed_queue" where
  "tq_ShutDown q = q\<lparr>tq_shuttingDown := True\<rparr>"

text \<open>
  The limiter of a key doubles a delay of five milliseconds with each failure, up to a thousand
  seconds (the limiter of all keys together can only make it longer), and never answers zero, so a
  rate-limited key always waits. A key that already waits is kept once. When a delay is over is left open.
\<close>

definition failureDelay :: "nat \<Rightarrow> int" where
  "failureDelay n = min (5000000 * 2 ^ n) 1000000000000"

definition tq_AddAfter :: "string \<Rightarrow> int \<Rightarrow> typed_queue \<Rightarrow> typed_queue" where
  "tq_AddAfter item duration q =
     (if tq_shuttingDown q then q
      else if duration \<le> 0 then tq_Add item q
      else if item \<in> set (tq_waiting q) then q
      else q\<lparr>tq_waiting := tq_waiting q @ [item]\<rparr>)"

definition tq_AddRateLimited :: "string \<Rightarrow> typed_queue \<Rightarrow> typed_queue" where
  "tq_AddRateLimited item q =
     tq_AddAfter item (failureDelay (tq_failures q item)) (q\<lparr>tq_failures := (tq_failures q)(item := tq_failures q item + 1)\<rparr>)"

definition tq_Forget :: "string \<Rightarrow> typed_queue \<Rightarrow> typed_queue" where
  "tq_Forget item q = q\<lparr>tq_failures := (tq_failures q)(item := 0)\<rparr>"

text \<open>One entry of the waiting loop whose time has come.\<close>

definition tq_due :: "string \<Rightarrow> typed_queue \<Rightarrow> typed_queue" where
  "tq_due item q = (let q1 = tq_Add item q in q1\<lparr>tq_waiting := remove1 item (tq_waiting q1)\<rparr>)"

definition typedQueue :: "typed_queue workqueue" where
  "typedQueue = \<lparr>wq_Add = tq_Add, wq_Get = tq_Get, wq_Done = tq_Done, wq_Forget = tq_Forget, wq_AddRateLimited = tq_AddRateLimited\<rparr>"

definition newTypedQueue :: typed_queue where
  "newTypedQueue = \<lparr>tq_queue = [], tq_dirty = {}, tq_processing = {}, tq_shuttingDown = False, tq_waiting = [], tq_failures = (\<lambda>_. 0)\<rparr>"

section \<open>The queue keeps its promises\<close>

text \<open>The list holds exactly the keys that need work and that nobody works on, each once.\<close>

definition tq_ok :: "typed_queue \<Rightarrow> bool" where
  "tq_ok q \<longleftrightarrow> \<not> tq_shuttingDown q \<and> distinct (tq_queue q) \<and> set (tq_queue q) = tq_dirty q - tq_processing q \<and> distinct (tq_waiting q)"

lemma newTypedQueue_ok: "tq_ok newTypedQueue" "tq_processing newTypedQueue = {}"
  by (simp_all add: tq_ok_def newTypedQueue_def)

lemma failureDelay_bounds: "0 < failureDelay n \<and> failureDelay n \<le> 1000000000000"
  by (simp add: failureDelay_def)

lemma tq_Add_law:
  assumes "tq_ok q"
  shows "tq_ok (tq_Add k q)" "tq_dirty (tq_Add k q) = insert k (tq_dirty q)" "tq_processing (tq_Add k q) = tq_processing q"
    "tq_waiting (tq_Add k q) = tq_waiting q"
  using assms by (auto simp: tq_ok_def tq_Add_def Let_def)

lemma tq_Get_law:
  assumes "tq_ok q" and "tq_Get q = Some (Some k, q')"
  shows "tq_ok q' \<and> k \<in> tq_dirty q \<and> k \<notin> tq_processing q \<and> tq_dirty q' = tq_dirty q - {k} \<and>
    tq_processing q' = insert k (tq_processing q) \<and> tq_waiting q' = tq_waiting q"
proof (cases "tq_queue q")
  case (Cons item rest)
  with assms(2) have q': "item = k" "q' = q\<lparr>tq_queue := rest, tq_processing := insert k (tq_processing q), tq_dirty := tq_dirty q - {k}\<rparr>"
    by (auto simp: tq_Get_def)
  have "k \<notin> set rest" "insert k (set rest) = tq_dirty q - tq_processing q" using assms(1) Cons q'(1) by (auto simp: tq_ok_def)
  with assms(1) Cons q' show ?thesis by (auto simp: tq_ok_def)
qed (use assms in \<open>simp add: tq_Get_def split: if_splits\<close>)

lemma tq_Done_law:
  assumes "tq_ok q" and "k \<in> tq_processing q"
  shows "tq_ok (tq_Done k q) \<and> tq_dirty (tq_Done k q) = tq_dirty q \<and>
    tq_processing (tq_Done k q) = tq_processing q - {k} \<and> tq_waiting (tq_Done k q) = tq_waiting q"
  using assms by (auto simp: tq_ok_def tq_Done_def Let_def)

lemma tq_AddRateLimited_law:
  assumes "tq_ok q"
  shows "tq_ok (tq_AddRateLimited k q) \<and> tq_dirty (tq_AddRateLimited k q) = tq_dirty q \<and>
    tq_processing (tq_AddRateLimited k q) = tq_processing q \<and> set (tq_waiting (tq_AddRateLimited k q)) = insert k (set (tq_waiting q))"
  using assms failureDelay_bounds [of "tq_failures q k"]
  by (auto simp: tq_ok_def tq_AddRateLimited_def tq_AddAfter_def)

interpretation typed: work_queue typedQueue tq_ok tq_dirty tq_processing "\<lambda>q. set (tq_waiting q)" tq_due
proof
  fix q :: typed_queue and k assume q: "tq_ok q"
  show "tq_ok (wq_Add typedQueue k q) \<and> tq_dirty (wq_Add typedQueue k q) = insert k (tq_dirty q) \<and>
    tq_processing (wq_Add typedQueue k q) = tq_processing q \<and> set (tq_waiting (wq_Add typedQueue k q)) = set (tq_waiting q)"
    using tq_Add_law [OF q] by (simp add: typedQueue_def)
  show "tq_ok (wq_Forget typedQueue k q) \<and> tq_dirty (wq_Forget typedQueue k q) = tq_dirty q \<and>
    tq_processing (wq_Forget typedQueue k q) = tq_processing q \<and> set (tq_waiting (wq_Forget typedQueue k q)) = set (tq_waiting q)"
    using q by (simp add: typedQueue_def tq_Forget_def tq_ok_def)
  show "tq_ok (wq_AddRateLimited typedQueue k q) \<and> tq_dirty (wq_AddRateLimited typedQueue k q) = tq_dirty q \<and>
    tq_processing (wq_AddRateLimited typedQueue k q) = tq_processing q \<and>
    set (tq_waiting (wq_AddRateLimited typedQueue k q)) = insert k (set (tq_waiting q))"
    using tq_AddRateLimited_law [OF q] by (simp add: typedQueue_def)
next
  fix q q' :: typed_queue and k assume "tq_ok q" "wq_Get typedQueue q = Some (Some k, q')"
  then show "tq_ok q' \<and> k \<in> tq_dirty q \<and> k \<notin> tq_processing q \<and> tq_dirty q' = tq_dirty q - {k} \<and>
    tq_processing q' = insert k (tq_processing q) \<and> set (tq_waiting q') = set (tq_waiting q)"
    using tq_Get_law [of q k q'] by (simp add: typedQueue_def)
next
  fix q :: typed_queue assume "tq_ok q" "\<not> tq_dirty q \<subseteq> tq_processing q"
  then have "tq_queue q \<noteq> []" by (auto simp: tq_ok_def)
  then show "\<exists>k q'. wq_Get typedQueue q = Some (Some k, q')" by (auto simp: typedQueue_def tq_Get_def neq_Nil_conv)
next
  fix q :: typed_queue and k assume "tq_ok q" "k \<in> tq_processing q"
  then show "tq_ok (wq_Done typedQueue k q) \<and> tq_dirty (wq_Done typedQueue k q) = tq_dirty q \<and>
    tq_processing (wq_Done typedQueue k q) = tq_processing q - {k} \<and> set (tq_waiting (wq_Done typedQueue k q)) = set (tq_waiting q)"
    using tq_Done_law [of q k] by (simp add: typedQueue_def)
next
  fix q :: typed_queue and k assume q: "tq_ok q"
  have "distinct (tq_waiting q)" using q by (simp add: tq_ok_def)
  then show "tq_ok (tq_due k q) \<and> tq_dirty (tq_due k q) = insert k (tq_dirty q) \<and>
    tq_processing (tq_due k q) = tq_processing q \<and> set (tq_waiting (tq_due k q)) = set (tq_waiting q) - {k}"
    using tq_Add_law [OF q, of k] by (simp add: tq_due_def Let_def tq_ok_def)
qed

end
