(* ===== verification/NvSnapHook.thy ===== *)
theory NvSnapHook
  imports NvSnapReconcile NvSnapServerSpec WorkQueue
begin

text \<open>
  The admission hook of the cluster agent (\<open>nvca/nvsnap_hook.go\<close>), which decides for a pod about to be
  created whether it restores from a capture, is captured itself, or neither, and the capture
  controller (\<open>nvca/nvsnap/controller/controller.go\<close>), which queues pods that are ready to be captured.

  The Kubernetes client is the one of the reconciler; the client of the NvSnap server is optional, as
  in the code, and its calls act on the world. The work queue is any that has the operations of
  \<open>workqueue\<close>.
\<close>

section \<open>Pods and requests\<close>

record wpod = kpod +
  wp_Labels :: "string \<Rightarrow> string option"
  wp_Volumes :: "(string \<times> string option) list"

record ICMSRequest =
  rq_FunctionVersionID :: string
  rq_CacheReferenceName :: string

record LookupRequest =
  lr_ImageRef :: string
  lr_ModelID :: string
  lr_EngineFlags :: "string list"

record 'w snap_client =
  sc_GetCheckpoint :: "string \<Rightarrow> 'w \<Rightarrow> (snap_error + unit) \<times> 'w"
  sc_LookupCheckpoints :: "LookupRequest \<Rightarrow> 'w \<Rightarrow> (snap_error + string list) \<times> 'w"

record 'w hook_env =
  he_enabled :: bool
  he_api :: "'w CFSApi"
  he_now :: "'w \<Rightarrow> int"
  he_client :: "'w snap_client option"

abbreviation restoreFrom :: string where "restoreFrom \<equiv> ''nvsnap.io/restore-from''"
abbreviation checkpointOnWarm :: string where "checkpointOnWarm \<equiv> ''nvsnap.io/checkpoint-on-warm''"
abbreviation functionVersion :: string where "functionVersion \<equiv> ''nvsnap.io/function-version-id''"
abbreviation captureLabel :: string where "captureLabel \<equiv> ''nvsnap.io/capture''"

definition annotate :: "string \<Rightarrow> string \<Rightarrow> wpod \<Rightarrow> wpod" where
  "annotate k v pod = pod\<lparr>kp_Annotations := (kp_Annotations pod)(k \<mapsto> v)\<rparr>"

section \<open>What the pod runs\<close>

definition inferenceContainer :: "wpod option \<Rightarrow> container option" where
  "inferenceContainer pod =
     (case pod of
        None \<Rightarrow> None
      | Some p \<Rightarrow>
          (case List.find (\<lambda>c. ct_Name c = ''inference'') (kp_Containers p) of
             Some c \<Rightarrow> Some c
           | None \<Rightarrow>
               (case List.find ct_GPU (kp_Containers p) of
                  Some c \<Rightarrow> Some c
                | None \<Rightarrow> (case kp_Containers p of [] \<Rightarrow> None | c # _ \<Rightarrow> Some c))))"

text \<open>The two loops of the hook's own \<open>extractModelID\<close>.\<close>

fun envModel :: "(string \<times> string) list \<Rightarrow> string option" where
  "envModel [] = None"
| "envModel ((name, val) # es) =
     (if \<exists>key \<in> set [''NIM_MODEL_NAME'', ''MODEL_NAME'', ''MODEL_REPO'', ''HF_MODEL_ID'', ''HUGGINGFACE_MODEL'']. name = key \<and> val \<noteq> []
      then Some val else envModel es)"

fun argModel :: "string list \<Rightarrow> string" where
  "argModel [] = []"
| "argModel (arg # args) =
     (if (arg = ''--model'' \<or> arg = ''--model-path'') \<and> args \<noteq> [] then hd args
      else if HasPrefix arg ''--model='' then drop (length ''--model='') arg
      else if HasPrefix arg ''--model-path='' then drop (length ''--model-path='') arg
      else argModel args)"

definition hookModelID :: "container \<Rightarrow> string" where
  "hookModelID c = (case envModel (ct_Env c) of Some v \<Rightarrow> v | None \<Rightarrow> argModel (ct_Args c))"

definition canonicalizeArgs :: "string list \<Rightarrow> string list" where
  "canonicalizeArgs args = (if args = [] then [] else sort (stripModel False args))"

fun cacheClaim :: "string \<Rightarrow> (string \<times> string option) list \<Rightarrow> bool" where
  "cacheClaim reference [] = False"
| "cacheClaim reference ((name, pvc) # vs) =
     (case pvc of
        None \<Rightarrow> cacheClaim reference vs
      | Some claim \<Rightarrow>
          if name \<noteq> ''model-data'' then cacheClaim reference vs
          else if reference \<noteq> [] then claim = reference
          else HasSuffix claim ''ro-pvc'')"

definition modelServedFromCache :: "wpod \<Rightarrow> ICMSRequest \<Rightarrow> bool" where
  "modelServedFromCache pod req = cacheClaim (rq_CacheReferenceName req) (wp_Volumes pod)"

section \<open>The hook\<close>

definition createInitialCFS :: "'w CFSApi \<Rightarrow> string \<Rightarrow> 'w \<Rightarrow> (cfs_error + CFS) \<times> 'w" where
  "createInitialCFS api fvID w =
     (case api_Create api fvID freshCFS w of
        (Inr created, w1) \<Rightarrow> (Inr created, w1)
      | (Inl AlreadyExists, w1) \<Rightarrow>
          (case api_Get api fvID w1 of
             (Inr cfs, w2) \<Rightarrow> (Inr cfs, w2)
           | (Inl e, w2) \<Rightarrow> (Inl (GetFailed e), w2))
      | (Inl e, w1) \<Rightarrow> (Inl (CreateFailed e), w1))"

definition nvsnapArtifactExists :: "'w snap_client \<Rightarrow> string \<Rightarrow> 'w \<Rightarrow> (snap_error + bool) \<times> 'w" where
  "nvsnapArtifactExists client hash w =
     (case sc_GetCheckpoint client hash w of
        (Inl err, w1) \<Rightarrow> if err = APIError 404 then (Inr False, w1) else (Inl err, w1)
      | (Inr _, w1) \<Rightarrow> (Inr True, w1))"

definition lookupContentAddressedMatch :: "'w hook_env \<Rightarrow> wpod \<Rightarrow> 'w \<Rightarrow> string option \<times> 'w" where
  "lookupContentAddressedMatch env pod w =
     (case he_client env of
        None \<Rightarrow> (None, w)
      | Some client \<Rightarrow>
          (case inferenceContainer (Some pod) of
             None \<Rightarrow> (None, w)
           | Some c \<Rightarrow>
               if ct_Image c = [] then (None, w)
               else
                 (case sc_LookupCheckpoints client
                         \<lparr>lr_ImageRef = ct_Image c, lr_ModelID = hookModelID c, lr_EngineFlags = canonicalizeArgs (ct_Args c)\<rparr> w of
                    (Inl _, w1) \<Rightarrow> (None, w1)
                  | (Inr [], w1) \<Rightarrow> (None, w1)
                  | (Inr (m # _), w1) \<Rightarrow> (Some m, w1))))"

text \<open>Whether the warm state of a function is stale: its artifact is definitely gone.\<close>

definition warmStale :: "'w hook_env \<Rightarrow> string \<Rightarrow> 'w \<Rightarrow> bool \<times> 'w" where
  "warmStale env hash w =
     (case he_client env of
        None \<Rightarrow> (False, w)
      | Some client \<Rightarrow>
          (case nvsnapArtifactExists client hash w of
             (Inl _, w1) \<Rightarrow> (False, w1)
           | (Inr present, w1) \<Rightarrow> (\<not> present, w1)))"

text \<open>The part after the warm path: restore from another function's capture, or be captured.\<close>

definition stampCold :: "'w hook_env \<Rightarrow> string \<Rightarrow> wpod \<Rightarrow> 'w \<Rightarrow> wpod \<times> 'w" where
  "stampCold env fvID pod w =
     (case lookupContentAddressedMatch env pod w of
        (Some hash, w1) \<Rightarrow>
          (annotate restoreFrom hash pod, snd (markCFSWarmFromLookup (he_api env) fvID hash (he_now env w1) w1))
      | (None, w1) \<Rightarrow>
          ((annotate checkpointOnWarm ''true'' pod)\<lparr>wp_Labels := (wp_Labels pod)(captureLabel \<mapsto> ''true'')\<rparr>, w1))"

definition stampState :: "'w hook_env \<Rightarrow> string \<Rightarrow> CFS \<Rightarrow> wpod \<Rightarrow> 'w \<Rightarrow> wpod \<times> 'w" where
  "stampState env fvID cfs pod0 w =
     (if cfs_optOut cfs then (pod0, w)
      else
        let pod = annotate functionVersion fvID pod0;
            hash = CheckpointHash (cfs_status cfs)
        in if hash \<noteq> [] \<and> LocalCacheState (cfs_status cfs) = LocalCacheStateWarm then
             (case warmStale env hash w of
                (False, w1) \<Rightarrow> (annotate restoreFrom hash pod, w1)
              | (True, w1) \<Rightarrow> stampCold env fvID pod (snd (resetCFSToCold (he_api env) fvID w1)))
           else stampCold env fvID pod w)"

definition stampNvSnapAnnotations :: "'w hook_env \<Rightarrow> ICMSRequest \<Rightarrow> wpod \<Rightarrow> 'w \<Rightarrow> wpod \<times> 'w" where
  "stampNvSnapAnnotations env req pod w =
     (if \<not> he_enabled env then (pod, w)
      else
        let fvID = rq_FunctionVersionID req
        in if fvID = [] then (pod, w)
           else if modelServedFromCache pod req then (pod, w)
           else
             (case api_Get (he_api env) fvID w of
                (Inr cfs, w1) \<Rightarrow> stampState env fvID cfs pod w1
              | (Inl NotFound, w1) \<Rightarrow>
                  (case createInitialCFS (he_api env) fvID w1 of
                     (Inl _, w2) \<Rightarrow> (pod, w2)
                   | (Inr cfs, w2) \<Rightarrow> stampState env fvID cfs pod w2)
              | (Inl _, w1) \<Rightarrow> (pod, w1)))"

section \<open>The controller\<close>

definition PodEligibleForCheckpointOnWarm :: "kpod option \<Rightarrow> bool" where
  "PodEligibleForCheckpointOnWarm pod =
     (case pod of
        None \<Rightarrow> False
      | Some p \<Rightarrow>
          kp_Annotations p checkpointOnWarm = Some ''true'' \<and>
          (case kp_Annotations p functionVersion of None \<Rightarrow> False | Some v \<Rightarrow> v \<noteq> []))"

definition IsPodReady :: "kpod option \<Rightarrow> bool" where
  "IsPodReady pod = (case pod of None \<Rightarrow> False | Some p \<Rightarrow> podReadyConditions (kp_Conditions p))"

definition MetaNamespaceKeyFunc :: "kpod \<Rightarrow> string" where
  "MetaNamespaceKeyFunc p = (if kp_Namespace p \<noteq> [] then kp_Namespace p @ ''/'' @ kp_Name p else kp_Name p)"

definition SplitMetaNamespaceKey :: "string \<Rightarrow> (string \<times> string) option" where
  "SplitMetaNamespaceKey key =
     (case Split key (CHR ''/'') of
        [name] \<Rightarrow> Some ([], name)
      | [ns, name] \<Rightarrow> Some (ns, name)
      | _ \<Rightarrow> None)"

definition enqueueIfEligible :: "'q workqueue \<Rightarrow> kpod \<Rightarrow> 'q \<Rightarrow> 'q" where
  "enqueueIfEligible wq pod q =
     (if \<not> PodEligibleForCheckpointOnWarm (Some pod) then q
      else if \<not> IsPodReady (Some pod) then q
      else wq_Add wq (MetaNamespaceKeyFunc pod) q)"

text \<open>What a worker does with a key: whether it is to be retried, and the world afterwards.\<close>

definition processKey ::
    "'w nvsnap_env \<Rightarrow> Reconciler \<Rightarrow> (string \<Rightarrow> string \<Rightarrow> kpod option) \<Rightarrow> string \<Rightarrow> 'w \<Rightarrow> bool \<times> 'w" where
  "processKey env rec0 lister key w =
     (case SplitMetaNamespaceKey key of
        None \<Rightarrow> (False, w)
      | Some (ns, name) \<Rightarrow>
          (case lister ns name of
             None \<Rightarrow> (False, w)
           | Some pod \<Rightarrow>
               if \<not> PodEligibleForCheckpointOnWarm (Some pod) then (False, w)
               else
                 (case Reconcile env rec0 (Some pod) w of
                    (Inl _, w1) \<Rightarrow> (True, w1)
                  | (Inr _, w1) \<Rightarrow> (False, w1))))"

definition finishKey :: "'q workqueue \<Rightarrow> string \<Rightarrow> bool \<Rightarrow> 'q \<Rightarrow> 'q" where
  "finishKey wq key again q = wq_Done wq key (if again then wq_AddRateLimited wq key q else wq_Forget wq key q)"

text \<open>\<open>None\<close> while the worker waits for a key, \<open>True\<close> when the queue was shut down.\<close>

definition processNext ::
    "'q workqueue \<Rightarrow> 'w nvsnap_env \<Rightarrow> Reconciler \<Rightarrow> (string \<Rightarrow> string \<Rightarrow> kpod option) \<Rightarrow> 'q \<Rightarrow> 'w \<Rightarrow> (bool \<times> 'q \<times> 'w) option" where
  "processNext wq env rec0 lister q w =
     (case wq_Get wq q of
        None \<Rightarrow> None
      | Some (None, q1) \<Rightarrow> Some (True, q1, w)
      | Some (Some key, q1) \<Rightarrow>
          (case processKey env rec0 lister key w of (again, w1) \<Rightarrow> Some (False, finishKey wq key again q1, w1)))"

end
