(* ===== verification/NvSnapHookSpec.thy ===== *)
theory NvSnapHookSpec
  imports NvSnapHook
begin

text \<open>
  What the admission hook and the capture controller promise, and the composition of the agent with the
  NvSnap server: the hook's client answered by the server's handlers.
\<close>

section \<open>What the hook stamps\<close>

text \<open>The hook's own copies of the reconciler's helpers agree with them.\<close>

lemma inferenceContainer_agrees: "inferenceContainer (Some pod) = findInferenceContainer (Some (kpod.truncate pod)) ''inference''"
proof -
  have "kp_Containers (kpod.truncate pod) = kp_Containers pod" by (simp add: kpod.truncate_def)
  then show ?thesis by (simp add: inferenceContainer_def findInferenceContainer_def split: option.split)
qed

lemma argModel_agrees: "argModel args = modelArg args"
  by (induction args) simp_all

lemma hookModelID_agrees: "hookModelID c = extractModelID c"
proof -
  have "envModel es = map_option snd (List.find (\<lambda>(name, val). name \<in> {''NIM_MODEL_NAME'', ''MODEL_NAME'', ''MODEL_REPO'', ''HF_MODEL_ID'',
      ''HUGGINGFACE_MODEL''} \<and> val \<noteq> []) es)" for es
    by (induction es rule: envModel.induct) auto
  then show ?thesis by (auto simp: hookModelID_def extractModelID_def argModel_agrees split: option.splits)
qed

lemma canonicalizeArgs_agrees: "canonicalizeArgs args = canonicalizeEngineFlags args"
  by (simp add: canonicalizeArgs_def canonicalizeEngineFlags_def)

lemma annotate_fields [simp]:
  "kp_Annotations (annotate k v pod) = (kp_Annotations pod)(k \<mapsto> v)" "wp_Labels (annotate k v pod) = wp_Labels pod"
  "wp_Volumes (annotate k v pod) = wp_Volumes pod" "kp_Containers (annotate k v pod) = kp_Containers pod"
  by (simp_all add: annotate_def)

text \<open>The outcomes of the hook for a pod and the pod it returns.\<close>

definition stampedRestore :: "string \<Rightarrow> string \<Rightarrow> wpod \<Rightarrow> wpod \<Rightarrow> bool" where
  "stampedRestore fvID hash pod pod' \<longleftrightarrow> pod' = annotate restoreFrom hash (annotate functionVersion fvID pod)"

definition stampedCapture :: "string \<Rightarrow> wpod \<Rightarrow> wpod \<Rightarrow> bool" where
  "stampedCapture fvID pod pod' \<longleftrightarrow>
     pod' = (annotate checkpointOnWarm ''true'' (annotate functionVersion fvID pod))\<lparr>wp_Labels := (wp_Labels pod)(captureLabel \<mapsto> ''true'')\<rparr>"

lemma stampCold_cases:
  assumes "stampCold env fvID (annotate functionVersion fvID pod) w = (pod', w')"
  shows "(\<exists>h. stampedRestore fvID h pod pod') \<or> stampedCapture fvID pod pod'"
  using assms
  by (auto simp: stampCold_def stampedRestore_def stampedCapture_def split: prod.splits option.splits)

lemma stampState_cases:
  assumes "stampState env fvID cfs pod w = (pod', w')"
  shows "pod' = pod \<or> (\<exists>h. stampedRestore fvID h pod pod') \<or> stampedCapture fvID pod pod'"
proof (cases "cfs_optOut cfs")
  case True
  with assms show ?thesis by (simp add: stampState_def)
next
  case live: False
  let ?h = "CheckpointHash (cfs_status cfs)"
  show ?thesis
  proof (cases "?h \<noteq> [] \<and> LocalCacheState (cfs_status cfs) = LocalCacheStateWarm")
    case warm: True
    obtain stale w1 where s: "warmStale env ?h w = (stale, w1)" by fastforce
    show ?thesis
    proof (cases stale)
      case True
      with assms live warm s show ?thesis
        by (intro disjI2 stampCold_cases [of env fvID pod "snd (resetCFSToCold (he_api env) fvID w1)" pod' w'])
          (simp add: stampState_def Let_def)
    next
      case False
      with assms live warm s have "stampedRestore fvID ?h pod pod'" by (simp add: stampState_def Let_def stampedRestore_def)
      then show ?thesis by blast
    qed
  next
    case False
    then have "stampState env fvID cfs pod w = stampCold env fvID (annotate functionVersion fvID pod) w"
      using live by (auto simp: stampState_def Let_def)
    with assms stampCold_cases show ?thesis by metis
  qed
qed

lemma stamp_cases:
  assumes "stampNvSnapAnnotations env req pod w = (pod', w')"
  shows "pod' = pod \<or> (\<exists>h. stampedRestore (rq_FunctionVersionID req) h pod pod') \<or> stampedCapture (rq_FunctionVersionID req) pod pod'"
proof -
  have "pod' = pod \<or> (\<exists>cfs w1. stampState env (rq_FunctionVersionID req) cfs pod w1 = (pod', w'))"
    using assms by (auto simp: stampNvSnapAnnotations_def Let_def split: if_splits prod.splits sum.splits api_error.splits)
  with stampState_cases show ?thesis by metis
qed

lemma not_eligible:
  "kp_Annotations p checkpointOnWarm = None \<Longrightarrow> \<not> PodEligibleForCheckpointOnWarm (Some p)"
  "kp_Annotations p checkpointOnWarm = None \<Longrightarrow> Reconcile env rec0 (Some p) w = (Inr (), w)"
  by (simp_all add: PodEligibleForCheckpointOnWarm_def Reconcile_def Let_def)

text \<open>
  C26. A restored pod is never captured. When the hook gives a pod an annotation to restore from, the
  running pod is not eligible for capture: it never enters the controller's queue, a reconcile of it
  returns at once and changes nothing, and it does not have the label the capture volume is
  mounted for.
\<close>

theorem restored_pod_never_captured:
  assumes "stampNvSnapAnnotations env req pod w = (pod', w')" and "kp_Annotations pod restoreFrom = None"
    and "kp_Annotations pod checkpointOnWarm = None" and "wp_Labels pod captureLabel = None"
    and "kp_Annotations pod' restoreFrom \<noteq> None" and "kp_Annotations p = kp_Annotations pod'"
  shows "enqueueIfEligible wq p q = q \<and> Reconcile nenv rec0 (Some p) w1 = (Inr (), w1) \<and> wp_Labels pod' captureLabel = None"
proof -
  obtain h where h: "stampedRestore (rq_FunctionVersionID req) h pod pod'"
    using stamp_cases [OF assms(1)] assms(2,5) by (auto simp: stampedCapture_def)
  then have "kp_Annotations p checkpointOnWarm = None" using assms(3,6) by (simp add: stampedRestore_def)
  with not_eligible [of p] h assms(4) show ?thesis by (simp add: enqueueIfEligible_def stampedRestore_def)
qed

definition demo_wpod :: "string list \<Rightarrow> wpod" where
  "demo_wpod args =
     \<lparr>kp_Namespace = ''ns'', kp_Name = ''a'', kp_UID = ''1'', kp_Annotations = Map.empty, kp_Conditions = [(''Ready'', ''True'')],
      kp_Containers = [\<lparr>ct_Name = ''inference'', ct_Image = ''img'', ct_GPU = True, ct_Env = [(''MODEL_NAME'', ''m'')], ct_Args = args\<rparr>],
      kp_Terminating = False, kp_Phase = ''Running'', wp_Labels = Map.empty, wp_Volumes = []\<rparr>"

definition demo_request :: ICMSRequest where
  "demo_request = \<lparr>rq_FunctionVersionID = ''fv'', rq_CacheReferenceName = []\<rparr>"

definition warmCFS :: "string \<Rightarrow> CFS" where
  "warmCFS hash = freshCFS\<lparr>cfs_status := (cfs_status freshCFS)\<lparr>LocalCacheState := LocalCacheStateWarm, CheckpointHash := hash\<rparr>\<rparr>"

theorem restored_pod_never_captured_witness:
  "\<exists>pod' w'. stampNvSnapAnnotations \<lparr>he_enabled = True, he_api = memApi, he_now = (\<lambda>_. 0), he_client = None\<rparr> demo_request (demo_wpod [])
       \<lparr>ms_objs = [''fv'' \<mapsto> warmCFS ''h''], ms_pods = []\<rparr> = (pod', w') \<and>
     enqueueIfEligible typedQueue (kpod.truncate pod') newTypedQueue = newTypedQueue \<and>
     Reconcile emptyEnv demo_rec (Some (kpod.truncate pod')) () = (Inr (), ()) \<and> wp_Labels pod' captureLabel = None"
proof -
  let ?env = "\<lparr>he_enabled = True, he_api = memApi, he_now = (\<lambda>_. 0), he_client = None\<rparr>"
    and ?w = "\<lparr>ms_objs = [''fv'' \<mapsto> warmCFS ''h''], ms_pods = []\<rparr>"
  have s: "stampNvSnapAnnotations ?env demo_request (demo_wpod []) ?w =
      (annotate restoreFrom ''h'' (annotate functionVersion ''fv'' (demo_wpod [])), ?w)"
    by (simp add: stampNvSnapAnnotations_def Let_def demo_request_def modelServedFromCache_def demo_wpod_def memApi_def
        stampState_def warmCFS_def freshCFS_def warmStale_def)
  have "kp_Annotations (kpod.truncate p) = kp_Annotations p" for p :: wpod by (simp add: kpod.truncate_def)
  with s show ?thesis
    using restored_pod_never_captured [OF s, of "kpod.truncate (annotate restoreFrom ''h'' (annotate functionVersion ''fv'' (demo_wpod [])))"
        typedQueue newTypedQueue emptyEnv demo_rec "()"]
    by (simp add: demo_wpod_def)
qed

section \<open>The queue of the controller\<close>

record 'q ctrl =
  ct_q :: 'q
  ct_busy :: "string multiset"
  ct_open :: "string set"
  ct_fresh :: "string set"

text \<open>
  The controller with any number of workers. A worker holds a key from \<open>Get\<close> to \<open>Done\<close>; what it decides is
  the result of \<open>processKey\<close> in some world. Two records of the past: \<open>ct_fresh\<close> are the keys of pods seen
  ready since a worker last took the key, \<open>ct_open\<close> those of pods seen ready for which no worker
  that took the key afterwards has finished without asking for a retry.
\<close>

inductive ctrl_step :: "'q workqueue \<Rightarrow> (string \<Rightarrow> 'q \<Rightarrow> 'q) \<Rightarrow> ('q \<Rightarrow> string set) \<Rightarrow> 'w nvsnap_env \<Rightarrow> Reconciler \<Rightarrow> 'q ctrl \<Rightarrow> 'q ctrl \<Rightarrow> bool"
  for wq due delayed env rec0 where
  k_event: "PodEligibleForCheckpointOnWarm (Some pod) \<Longrightarrow> IsPodReady (Some pod) \<Longrightarrow> k = MetaNamespaceKeyFunc pod \<Longrightarrow>
     ctrl_step wq due delayed env rec0 \<sigma>
       (\<sigma>\<lparr>ct_q := enqueueIfEligible wq pod (ct_q \<sigma>), ct_open := insert k (ct_open \<sigma>), ct_fresh := insert k (ct_fresh \<sigma>)\<rparr>)"
| k_other: "\<not> (PodEligibleForCheckpointOnWarm (Some pod) \<and> IsPodReady (Some pod)) \<Longrightarrow>
     ctrl_step wq due delayed env rec0 \<sigma> (\<sigma>\<lparr>ct_q := enqueueIfEligible wq pod (ct_q \<sigma>)\<rparr>)"
| k_get: "wq_Get wq (ct_q \<sigma>) = Some (Some k, q') \<Longrightarrow>
     ctrl_step wq due delayed env rec0 \<sigma> (\<sigma>\<lparr>ct_q := q', ct_busy := add_mset k (ct_busy \<sigma>), ct_fresh := ct_fresh \<sigma> - {k}\<rparr>)"
| k_retry: "k \<in># ct_busy \<sigma> \<Longrightarrow> processKey env rec0 lister k w = (True, w') \<Longrightarrow>
     ctrl_step wq due delayed env rec0 \<sigma> (\<sigma>\<lparr>ct_q := finishKey wq k True (ct_q \<sigma>), ct_busy := ct_busy \<sigma> - {#k#}\<rparr>)"
| k_settle: "k \<in># ct_busy \<sigma> \<Longrightarrow> processKey env rec0 lister k w = (False, w') \<Longrightarrow>
     ctrl_step wq due delayed env rec0 \<sigma>
       (\<sigma>\<lparr>ct_q := finishKey wq k False (ct_q \<sigma>), ct_busy := ct_busy \<sigma> - {#k#},
          ct_open := (if k \<in> ct_fresh \<sigma> then ct_open \<sigma> else ct_open \<sigma> - {k})\<rparr>)"
| k_due: "k \<in> delayed (ct_q \<sigma>) \<Longrightarrow> ctrl_step wq due delayed env rec0 \<sigma> (\<sigma>\<lparr>ct_q := due k (ct_q \<sigma>)\<rparr>)"

inductive ctrl_reach :: "'q workqueue \<Rightarrow> (string \<Rightarrow> 'q \<Rightarrow> 'q) \<Rightarrow> ('q \<Rightarrow> string set) \<Rightarrow> 'w nvsnap_env \<Rightarrow> Reconciler \<Rightarrow> 'q \<Rightarrow> 'q ctrl \<Rightarrow> bool"
  for wq due delayed env rec0 q0 where
  k_init: "ctrl_reach wq due delayed env rec0 q0 \<lparr>ct_q = q0, ct_busy = {#}, ct_open = {}, ct_fresh = {}\<rparr>"
| k_next: "ctrl_reach wq due delayed env rec0 q0 \<sigma> \<Longrightarrow> ctrl_step wq due delayed env rec0 \<sigma> \<sigma>' \<Longrightarrow> ctrl_reach wq due delayed env rec0 q0 \<sigma>'"

lemma single_removed:
  assumes "\<forall>k. count M k \<le> 1"
  shows "set_mset (M - {#k#}) = set_mset M - {k}"
proof -
  have "k \<notin># M - {#k#}" using assms [rule_format, of k] by (simp add: not_in_iff)
  moreover have "x \<in># M - {#k#} \<longleftrightarrow> x \<in># M" if "x \<noteq> k" for x using that by (simp add: in_diff_count)
  ultimately show ?thesis by (auto dest: in_diffD)
qed

context work_queue
begin

definition kept :: "'q ctrl \<Rightarrow> bool" where
  "kept \<sigma> \<longleftrightarrow> ok (ct_q \<sigma>) \<and> processing (ct_q \<sigma>) = set_mset (ct_busy \<sigma>) \<and> (\<forall>k. count (ct_busy \<sigma>) k \<le> 1) \<and>
     ct_fresh \<sigma> \<subseteq> dirty (ct_q \<sigma>) \<and> ct_open \<sigma> \<subseteq> dirty (ct_q \<sigma>) \<union> delayed (ct_q \<sigma>) \<union> set_mset (ct_busy \<sigma>)"

lemma finish_key:
  assumes "ok q" and "k \<in> processing q"
  shows "ok (finishKey wq k again q) \<and> dirty (finishKey wq k again q) = dirty q \<and>
    processing (finishKey wq k again q) = processing q - {k} \<and>
    delayed (finishKey wq k again q) = (if again then insert k (delayed q) else delayed q)"
proof (cases again)
  case True
  then show ?thesis
    using limit_key [OF assms(1), of k] assms(2) done_key [of "wq_AddRateLimited wq k q" k] by (simp add: finishKey_def)
next
  case False
  then show ?thesis
    using forget_key [OF assms(1), of k] assms(2) done_key [of "wq_Forget wq k q" k] by (simp add: finishKey_def)
qed

lemma kept_finish:
  assumes "kept \<sigma>" and "k \<in># ct_busy \<sigma>"
  shows "kept (\<sigma>\<lparr>ct_q := finishKey wq k again (ct_q \<sigma>), ct_busy := ct_busy \<sigma> - {#k#},
    ct_open := (if again \<or> k \<in> ct_fresh \<sigma> then ct_open \<sigma> else ct_open \<sigma> - {k})\<rparr>)"
proof -
  from assms have o: "ok (ct_q \<sigma>)" "k \<in> processing (ct_q \<sigma>)" "\<forall>k. count (ct_busy \<sigma>) k \<le> 1"
    by (simp_all add: kept_def)
  have "\<forall>j. count (ct_busy \<sigma> - {#k#}) j \<le> 1" using o(3) by (auto intro: order_trans [OF diff_le_self])
  with finish_key [OF o(1,2), of again] assms single_removed [OF o(3)] show ?thesis
    unfolding kept_def by (auto split: if_splits)
qed

lemma kept_step: "ctrl_step wq due delayed env rec0 \<sigma> \<sigma>' \<Longrightarrow> kept \<sigma> \<Longrightarrow> kept \<sigma>'"
proof (induction rule: ctrl_step.induct)
  case (k_event pod k \<sigma>)
  with add_key [of "ct_q \<sigma>" k] show ?case
    by (auto simp: kept_def enqueueIfEligible_def)
next
  case (k_other pod \<sigma>)
  then show ?case by (auto simp: kept_def enqueueIfEligible_def)
next
  case (k_get \<sigma> k q')
  from k_get.prems have "ok (ct_q \<sigma>)" "processing (ct_q \<sigma>) = set_mset (ct_busy \<sigma>)" by (simp_all add: kept_def)
  with get_key [OF _ k_get.hyps] k_get.prems show ?case by (auto simp: kept_def not_in_iff)
next
  case (k_retry k \<sigma> lister w w')
  from kept_finish [OF k_retry.prems k_retry.hyps(1), of True] show ?case by simp
next
  case (k_settle k \<sigma> lister w w')
  from kept_finish [OF k_settle.prems k_settle.hyps(1), of False] show ?case by simp
next
  case (k_due k \<sigma>)
  with due_key [of "ct_q \<sigma>" k] show ?case by (auto simp: kept_def)
qed

lemma kept_reach:
  assumes "ctrl_reach wq due delayed env rec0 q0 \<sigma>" and "ok q0" and "processing q0 = {}"
  shows "kept \<sigma>"
  using assms
proof (induction rule: ctrl_reach.induct)
  case k_init
  then show ?case by (simp add: kept_def)
next
  case (k_next \<sigma> \<sigma>')
  then show ?case using kept_step by blast
qed

lemma open_served:
  assumes "ctrl_reach wq due delayed env rec0 q0 \<sigma>" and "ok q0" and "processing q0 = {}" and "k \<in> ct_open \<sigma>"
  shows "count (ct_busy \<sigma>) k \<le> 1 \<and> (count (ct_busy \<sigma>) k = 1 \<or> k \<in> delayed (ct_q \<sigma>) \<or>
    k \<in> dirty (ct_q \<sigma>) \<and> (\<exists>j q'. wq_Get wq (ct_q \<sigma>) = Some (Some j, q')))"
proof -
  have "kept \<sigma>" using kept_reach assms(1-3) by blast
  moreover from this have c: "count (ct_busy \<sigma>) k \<le> 1" by (simp add: kept_def)
  moreover have "count (ct_busy \<sigma>) k = 1" if "k \<in># ct_busy \<sigma>" using c that by (metis One_nat_def Suc_le_eq count_greater_zero_iff le_antisym)
  ultimately show ?thesis using assms(4) get_ready [of "ct_q \<sigma>"] unfolding kept_def by blast
qed

end

text \<open>
  C19. No ready pod is lost by the controller. Whatever the order in which pod events arrive, workers take and
  finish keys and delays run out, a key of a pod seen ready for which no later pass has finished
  without asking for a retry is held by exactly one worker, waits for the delay of a retry, or is
  dirty while a worker that asks is given a key at once; and never do two workers hold the same key.
\<close>

theorem queued_pod_not_lost:
  assumes "ctrl_reach typedQueue tq_due (\<lambda>q. set (tq_waiting q)) env rec0 newTypedQueue \<sigma>" and "k \<in> ct_open \<sigma>"
  shows "count (ct_busy \<sigma>) k \<le> 1 \<and>
    (count (ct_busy \<sigma>) k = 1 \<or> k \<in> set (tq_waiting (ct_q \<sigma>)) \<or>
     k \<in> tq_dirty (ct_q \<sigma>) \<and> (\<exists>j q'. tq_Get (ct_q \<sigma>) = Some (Some j, q')))"
  using typed.open_served [OF assms(1) newTypedQueue_ok assms(2)] by (simp add: typedQueue_def)

theorem queued_pod_not_lost_witness:
  "\<exists>\<sigma> :: typed_queue ctrl. ctrl_reach typedQueue tq_due (\<lambda>q. set (tq_waiting q)) emptyEnv demo_rec newTypedQueue \<sigma> \<and>
     ''ns/a'' \<in> ct_open \<sigma> \<and> ''ns/a'' \<in> tq_dirty (ct_q \<sigma>) \<and> (\<exists>j q'. tq_Get (ct_q \<sigma>) = Some (Some j, q'))"
proof -
  let ?init = "\<lparr>ct_q = newTypedQueue, ct_busy = {#}, ct_open = {}, ct_fresh = {}\<rparr>"
    and ?k = "MetaNamespaceKeyFunc demo_pod" and ?q = "enqueueIfEligible typedQueue demo_pod newTypedQueue"
  let ?s = "?init\<lparr>ct_q := ?q, ct_open := insert ?k (ct_open ?init), ct_fresh := insert ?k (ct_fresh ?init)\<rparr>"
  have k: "?k = ''ns/a''" by (simp add: MetaNamespaceKeyFunc_def demo_pod_def)
  have e: "PodEligibleForCheckpointOnWarm (Some demo_pod)" "IsPodReady (Some demo_pod)"
    by (simp_all add: PodEligibleForCheckpointOnWarm_def IsPodReady_def demo_pod_def)
  have "ctrl_step typedQueue tq_due (\<lambda>q. set (tq_waiting q)) emptyEnv demo_rec ?init ?s"
    using k_event [OF e refl, where \<sigma> = ?init] by simp
  then have r: "ctrl_reach typedQueue tq_due (\<lambda>q. set (tq_waiting q)) emptyEnv demo_rec newTypedQueue ?s"
    by (rule k_next [OF k_init])
  from queued_pod_not_lost [OF r, of "''ns/a''"] r e k show ?thesis
    by (intro exI [of _ ?s]) (simp add: enqueueIfEligible_def typedQueue_def tq_Add_def newTypedQueue_def)
qed

end
