(* ===== verification/NvSnapFleet.thy ===== *)
theory NvSnapFleet
  imports NvSnapHookSpec
begin

text \<open>
  The agent and the NvSnap server together: the client of the agent (\<open>nvca/nvsnap/client.go\<close>) answered by
  the server's handlers over one catalog, the function states in a Kubernetes API server, and the
  admission hook and the recovery of the reconciler as its callers.
\<close>

section \<open>The client over the server\<close>

record 'c fleet =
  fl_objs :: memServer
  fl_cluster :: 'c
  fl_catalog :: catalog
  fl_clock :: int

definition clientGetCheckpoint ::
    "'c server_env \<Rightarrow> (bool \<Rightarrow> catalog \<Rightarrow> catalog) \<Rightarrow> string \<Rightarrow> 'c fleet \<Rightarrow> (snap_error + unit) \<times> 'c fleet" where
  "clientGetCheckpoint senv orderBy i w =
     (if i = [] then Inl (TransportError ''nvsnap: id required'')
      else case getCheckpoint senv orderBy [] i (fl_cluster w) (fl_catalog w) of None \<Rightarrow> Inl (APIError 404) | Some _ \<Rightarrow> Inr (), w)"

definition clientLookupCheckpoints ::
    "'c server_env \<Rightarrow> (bool \<Rightarrow> catalog \<Rightarrow> catalog) \<Rightarrow> LookupRequest \<Rightarrow> 'c fleet \<Rightarrow> (snap_error + string list) \<times> 'c fleet" where
  "clientLookupCheckpoints senv orderBy req w =
     (if lr_ImageRef req = [] then Inl (TransportError ''nvsnap: LookupRequest.ImageRef required'')
      else if se_dbDown senv (fl_cluster w) then Inl (APIError 500)
      else
        case lookupCheckpoint orderBy
               \<lparr>lc_ImageRef = lr_ImageRef req, lc_ModelID = lr_ModelID req, lc_EngineFlags = lr_EngineFlags req,
                lc_DriverMajor = 0, lc_Limit = 0\<rparr> (fl_catalog w) of
          Inl code \<Rightarrow> Inl (APIError code)
        | Inr ms \<Rightarrow> Inr (map ma_Hash ms), w)"

definition clientGetPVCPromoteState ::
    "'c server_env \<Rightarrow> (bool \<Rightarrow> catalog \<Rightarrow> catalog) \<Rightarrow> string \<Rightarrow> 'c fleet \<Rightarrow> (snap_error + string) \<times> 'c fleet" where
  "clientGetPVCPromoteState senv orderBy hash w =
     (if hash = [] then Inl (TransportError ''nvsnap: hash required'')
      else if se_dbDown senv (fl_cluster w) then Inl (APIError 500)
      else
        case getPVCPromoteStateHandler orderBy hash (fl_catalog w) of
          Inl code \<Rightarrow> Inl (APIError code)
        | Inr (state, _) \<Rightarrow> Inr state, w)"

definition onObjs :: "(memServer \<Rightarrow> 'r \<times> memServer) \<Rightarrow> 'c fleet \<Rightarrow> 'r \<times> 'c fleet" where
  "onObjs f w = (case f (fl_objs w) of (r, s) \<Rightarrow> (r, w\<lparr>fl_objs := s\<rparr>))"

definition fleetApi :: "'c fleet CFSApi" where
  "fleetApi =
     \<lparr>api_Get = (\<lambda>k. onObjs (api_Get memApi k)), api_Create = (\<lambda>k obj. onObjs (api_Create memApi k obj)),
      api_UpdateStatus = (\<lambda>k obj. onObjs (api_UpdateStatus memApi k obj)), api_Update = (\<lambda>k obj. onObjs (api_Update memApi k obj)),
      api_List = onObjs (api_List memApi)\<rparr>"

definition fleetHook :: "'c server_env \<Rightarrow> (bool \<Rightarrow> catalog \<Rightarrow> catalog) \<Rightarrow> 'c fleet hook_env" where
  "fleetHook senv orderBy =
     \<lparr>he_enabled = True, he_api = fleetApi, he_now = fl_clock,
      he_client = Some \<lparr>sc_GetCheckpoint = clientGetCheckpoint senv orderBy, sc_LookupCheckpoints = clientLookupCheckpoints senv orderBy\<rparr>\<rparr>"

text \<open>The part of the reconciler's environment that recovery uses: it asks for image and model only.\<close>

definition fleetRecovery :: "'c server_env \<Rightarrow> (bool \<Rightarrow> catalog \<Rightarrow> catalog) \<Rightarrow> 'c fleet nvsnap_env \<Rightarrow> 'c fleet nvsnap_env" where
  "fleetRecovery senv orderBy env =
     env\<lparr>ne_GetPVCPromoteState := clientGetPVCPromoteState senv orderBy,
         ne_LookupCheckpoints := (\<lambda>img model w.
           (map_sum id (map (\<lambda>h. \<lparr>lm_Hash = h\<rparr>)) (fst (clientLookupCheckpoints senv orderBy \<lparr>lr_ImageRef = img, lr_ModelID = model, lr_EngineFlags = []\<rparr> w)), w))\<rparr>"

section \<open>What the lookup of a pod finds\<close>

definition podCriteria :: "container \<Rightarrow> LookupCriteria" where
  "podCriteria c = \<lparr>lc_ImageRef = ct_Image c, lc_ModelID = hookModelID c, lc_EngineFlags = ct_Args c, lc_DriverMajor = 0, lc_Limit = 0\<rparr>"

lemma lookup_pod:
  assumes "row_order orderBy" and "inferenceContainer (Some pod) = Some c" and "ct_Image c \<noteq> []"
    and "\<not> se_dbDown senv (fl_cluster w)"
  obtains "lookupContentAddressedMatch (fleetHook senv orderBy) pod w = (None, w)" and "\<forall>r \<in> set (fl_catalog w). \<not> lookupMatches (podCriteria c) r"
  | r where "lookupContentAddressedMatch (fleetHook senv orderBy) pod w = (Some (cr_Hash r), w)" and "r \<in> set (fl_catalog w)"
      and "lookupMatches (podCriteria c) r"
proof -
  let ?rows = "take 10 (orderBy False (filter (lookupMatches (podCriteria c)) (fl_catalog w)))"
  have m: "lookupMatches \<lparr>lc_ImageRef = ct_Image c, lc_ModelID = hookModelID c, lc_EngineFlags = canonicalizeArgs (ct_Args c),
      lc_DriverMajor = 0, lc_Limit = 0\<rparr> = lookupMatches (podCriteria c)"
    by (simp add: fun_eq_iff lookupMatches_def podCriteria_def canonicalizeArgs_agrees canonicalizeEngineFlags_idem)
  have l: "lookupContentAddressedMatch (fleetHook senv orderBy) pod w =
      (case map cr_Hash ?rows of [] \<Rightarrow> (None, w) | h # _ \<Rightarrow> (Some h, w))"
    using assms(2-4)
    by (simp add: lookupContentAddressedMatch_def fleetHook_def clientLookupCheckpoints_def lookupCheckpoint_def
        LookupCheckpoints_def Let_def m comp_def split: list.split)
  have s: "set (orderBy False (filter (lookupMatches (podCriteria c)) (fl_catalog w))) = {r \<in> set (fl_catalog w). lookupMatches (podCriteria c) r}"
    using row_order.order_set [OF assms(1)] by simp
  show ?thesis
  proof (cases ?rows)
    case Nil
    then have "\<forall>r \<in> set (fl_catalog w). \<not> lookupMatches (podCriteria c) r" using s by (auto simp: take_eq_Nil)
    then show ?thesis using that(1) l Nil by simp
  next
    case (Cons r rest)
    then have "r \<in> set (orderBy False (filter (lookupMatches (podCriteria c)) (fl_catalog w)))"
      by (metis in_set_takeD list.set_intros(1))
    then show ?thesis using that(2) [of r] l Cons s by simp
  qed
qed

text \<open>A registered capture matches the pods of its image, model and flags, whatever id it ends up under.\<close>

lemma registered_matches:
  assumes "catalog_inv t" and "registerCheckpoint now req t = ((204, i), t')" and "rg_Status req \<in> {[], ''Completed''}"
    and "rg_Hash req \<noteq> []" and "ci_WorkloadType (rg_Info req) \<noteq> ''criu-instance''" and "rg_ImageRef req = ct_Image c"
    and "rg_ModelID req = hookModelID c" and "canonicalizeEngineFlags (rg_EngineFlags req) = canonicalizeEngineFlags (ct_Args c)"
  shows "\<exists>r \<in> set t'. lookupMatches (podCriteria c) r"
proof -
  let ?v = "upsertValues now (registerRow now req)"
  have h: "cr_Hash ?v = rg_Hash req" using assms(4) by (simp add: upsertValues_hash registerRow_def Let_def)
  have u: "UpsertCheckpoint now (registerRow now req) t = Inr (i, t')"
    using assms(2) by (auto simp: registerCheckpoint_def split: if_splits sum.splits)
  obtain j t1 where "UpsertCheckpoint now (registerRow now req) t = Inr (j, t1)" "upsert_done ?v j t t1"
    using upsertWith_done [OF assms(1) assms(1), of now "registerRow now req" t] h assms(4) by (auto simp: UpsertCheckpoint_def)
  then have d: "upserted ?v i t \<in> set t'" using u upsert_done_row by auto
  have f: "cr_Status ?v = ''Completed''" "cr_ImageRef ?v = ct_Image c" "cr_ModelID ?v = hookModelID c"
    "ci_WorkloadType (cr_Info ?v) = ci_WorkloadType (rg_Info req)" "cr_EngineFlags ?v = canonicalizeEngineFlags (ct_Args c)"
    using assms(3,6-8) by (auto simp: upsertValues_def registerRow_def normalizeCheckpointHash_def createdOr_def Let_def)
  have "lookupMatches (podCriteria c) (upserted ?v i t)"
    using h assms(4,5) f by (auto simp: lookupMatches_def podCriteria_def upserted_def refreshRow_def split: option.split)
  with d show ?thesis by blast
qed

section \<open>Admission over the fleet\<close>

lemma fleet_get: "api_Get fleetApi fv w = (case ms_objs (fl_objs w) fv of None \<Rightarrow> Inl NotFound | Some x \<Rightarrow> Inr x, w)"
  by (simp add: fleetApi_def onObjs_def memApi_def)

lemma fleet_write:
  assumes "ms_objs (fl_objs w) fv = Some cur"
  shows "\<exists>w'. hookWrite fleetApi fv patch w = (Inr (), w') \<and> fl_catalog w' = fl_catalog w \<and> fl_cluster w' = fl_cluster w \<and>
    ms_objs (fl_objs w') fv = Some (cur\<lparr>cfs_status := patch (cfs_status cur), cfs_version := cfs_version cur + 1\<rparr>)"
  using assms by (simp add: hookWrite_def fleet_get updateStatusOrSpec_def fleetApi_def onObjs_def memApi_def mem_put_def)

text \<open>The state object the hook acts on: the existing one, or the one it creates.\<close>

definition stateFor :: "string \<Rightarrow> 'c fleet \<Rightarrow> CFS" where
  "stateFor fv w = (case ms_objs (fl_objs w) fv of None \<Rightarrow> freshCFS\<lparr>cfs_version := 1\<rparr> | Some x \<Rightarrow> x)"

lemma fleet_stamp:
  assumes "rq_FunctionVersionID rq \<noteq> []" and "\<not> modelServedFromCache pod rq"
  shows "\<exists>w1. stampNvSnapAnnotations (fleetHook senv orderBy) rq pod w =
      stampState (fleetHook senv orderBy) (rq_FunctionVersionID rq) (stateFor (rq_FunctionVersionID rq) w) pod w1 \<and>
    fl_catalog w1 = fl_catalog w \<and> fl_cluster w1 = fl_cluster w \<and>
    ms_objs (fl_objs w1) (rq_FunctionVersionID rq) = Some (stateFor (rq_FunctionVersionID rq) w)"
proof (cases "ms_objs (fl_objs w) (rq_FunctionVersionID rq)")
  case None
  then have "createInitialCFS fleetApi (rq_FunctionVersionID rq) w = (Inr (freshCFS\<lparr>cfs_version := 1\<rparr>),
      w\<lparr>fl_objs := (fl_objs w)\<lparr>ms_objs := (ms_objs (fl_objs w))(rq_FunctionVersionID rq \<mapsto> freshCFS\<lparr>cfs_version := 1\<rparr>)\<rparr>\<rparr>)"
    by (simp add: createInitialCFS_def fleetApi_def onObjs_def memApi_def)
  with None assms show ?thesis
    by (intro exI [of _ "w\<lparr>fl_objs := (fl_objs w)\<lparr>ms_objs := (ms_objs (fl_objs w))(rq_FunctionVersionID rq \<mapsto> freshCFS\<lparr>cfs_version := 1\<rparr>)\<rparr>\<rparr>"])
      (simp add: stampNvSnapAnnotations_def Let_def fleet_get fleetHook_def stateFor_def)
next
  case (Some x)
  with assms show ?thesis
    by (intro exI [of _ w]) (simp add: stampNvSnapAnnotations_def Let_def fleet_get fleetHook_def stateFor_def)
qed

text \<open>What the part after the warm path leaves, by what the lookup finds.\<close>

lemma fleet_cold_match:
  assumes "lookupContentAddressedMatch (fleetHook senv orderBy) pod w = (Some h, w)" and "ms_objs (fl_objs w) fv = Some cur"
  shows "\<exists>w'. stampCold (fleetHook senv orderBy) fv pod w = (annotate restoreFrom h pod, w') \<and>
    ms_objs (fl_objs w') fv = Some (cur\<lparr>cfs_status := markWarmStatus h (fl_clock w) (cfs_status cur), cfs_version := cfs_version cur + 1\<rparr>)"
proof -
  have "he_api (fleetHook senv orderBy) = fleetApi" "he_now (fleetHook senv orderBy) = fl_clock" by (simp_all add: fleetHook_def)
  then show ?thesis
    using assms(1) fleet_write [OF assms(2), of "markWarmStatus h (fl_clock w)"] by (auto simp: stampCold_def markCFSWarmFromLookup_def)
qed

lemma fleet_cold_none:
  assumes "lookupContentAddressedMatch (fleetHook senv orderBy) pod w = (None, w)"
  shows "stampCold (fleetHook senv orderBy) fv pod w =
    ((annotate checkpointOnWarm ''true'' pod)\<lparr>wp_Labels := (wp_Labels pod)(captureLabel \<mapsto> ''true'')\<rparr>, w)"
  using assms by (simp add: stampCold_def)

lemma inferenceContainer_annotate [simp]: "inferenceContainer (Some (annotate k v pod)) = inferenceContainer (Some pod)"
  by (simp add: inferenceContainer_def split: option.split)

text \<open>The capture the state of a function names, while the function is warm and the server still has it.\<close>

definition ownCapture :: "'c server_env \<Rightarrow> (bool \<Rightarrow> catalog \<Rightarrow> catalog) \<Rightarrow> 'c fleet \<Rightarrow> CFS \<Rightarrow> string option" where
  "ownCapture senv orderBy w cfs =
     (let h = CheckpointHash (cfs_status cfs)
      in if h \<noteq> [] \<and> LocalCacheState (cfs_status cfs) = LocalCacheStateWarm \<and>
            getCheckpoint senv orderBy [] h (fl_cluster w) (fl_catalog w) \<noteq> None
         then Some h else None)"

text \<open>Without one the state is looked up in the catalog, after a reset where it is warm.\<close>

lemma fleet_no_own:
  assumes "ownCapture senv orderBy w cfs = None" and "\<not> cfs_optOut cfs" and "ms_objs (fl_objs w) fv = Some cfs"
  shows "\<exists>w1 cur. stampState (fleetHook senv orderBy) fv cfs pod w = stampCold (fleetHook senv orderBy) fv (annotate functionVersion fv pod) w1 \<and>
    fl_catalog w1 = fl_catalog w \<and> fl_cluster w1 = fl_cluster w \<and> ms_objs (fl_objs w1) fv = Some cur"
proof (cases "CheckpointHash (cfs_status cfs) \<noteq> [] \<and> LocalCacheState (cfs_status cfs) = LocalCacheStateWarm")
  case True
  then have "warmStale (fleetHook senv orderBy) (CheckpointHash (cfs_status cfs)) w = (True, w)"
    using assms(1) by (auto simp: ownCapture_def Let_def warmStale_def nvsnapArtifactExists_def fleetHook_def clientGetCheckpoint_def split: if_splits)
  moreover obtain w2 where "hookWrite fleetApi fv resetStatus w = (Inr (), w2)" "fl_catalog w2 = fl_catalog w" "fl_cluster w2 = fl_cluster w"
      "ms_objs (fl_objs w2) fv = Some (cfs\<lparr>cfs_status := resetStatus (cfs_status cfs), cfs_version := cfs_version cfs + 1\<rparr>)"
    using fleet_write [OF assms(3), of resetStatus] by blast
  moreover have "he_api (fleetHook senv orderBy) = fleetApi" by (simp add: fleetHook_def)
  ultimately show ?thesis using True assms(2) by (intro exI [of _ w2]) (simp add: stampState_def Let_def resetCFSToCold_def)
next
  case False
  then show ?thesis using assms(2,3) by (auto simp: stampState_def Let_def)
qed

lemma fleet_own:
  assumes "ownCapture senv orderBy w cfs = Some h" and "\<not> cfs_optOut cfs"
  shows "stampState (fleetHook senv orderBy) fv cfs pod w = (annotate restoreFrom h (annotate functionVersion fv pod), w)"
    and "LocalCacheState (cfs_status cfs) = LocalCacheStateWarm" and "CheckpointHash (cfs_status cfs) = h"
proof -
  have h: "CheckpointHash (cfs_status cfs) = h" "h \<noteq> []" "LocalCacheState (cfs_status cfs) = LocalCacheStateWarm"
    "getCheckpoint senv orderBy [] h (fl_cluster w) (fl_catalog w) \<noteq> None"
    using assms(1) by (auto simp: ownCapture_def Let_def split: if_splits)
  then have "warmStale (fleetHook senv orderBy) h w = (False, w)"
    by (auto simp: warmStale_def nvsnapArtifactExists_def fleetHook_def clientGetCheckpoint_def)
  with h assms(2) show "stampState (fleetHook senv orderBy) fv cfs pod w = (annotate restoreFrom h (annotate functionVersion fv pod), w)"
    by (simp add: stampState_def Let_def)
  show "LocalCacheState (cfs_status cfs) = LocalCacheStateWarm" and "CheckpointHash (cfs_status cfs) = h" by (fact h)+
qed


definition demo_register :: registerRequest where
  "demo_register =
     \<lparr>rg_CheckpointID = ''ck'', rg_Info = \<lparr>ci_Namespace = ''ns'', ci_PodName = ''p'', ci_ContainerName = [], ci_ContainerImage = [],
        ci_NodeName = ''n'', ci_HasGPU = True, ci_ModelName = [], ci_WorkloadType = []\<rparr>,
      rg_CheckpointPath = [], rg_CheckpointSize = 0, rg_Status = [], rg_DurationSecs = F64 0 0, rg_Hash = ''h'', rg_ImageRef = ''img'',
      rg_ModelID = ''m'', rg_EngineFlags = [''--x'', ''--model'', ''m''], rg_Identity = noIdentity\<rparr>"

lemma demo_registered: "\<exists>i t'. registerCheckpoint 5 demo_register [] = ((204, i), t')"
  by (simp add: registerCheckpoint_def demo_register_def UpsertCheckpoint_def upsertWith_def upsertExec_def insertRow_def
      adoptIDByHash_def Let_def split: sum.split)

lemma demo_container: "inferenceContainer (Some (demo_wpod args)) =
    Some \<lparr>ct_Name = ''inference'', ct_Image = ''img'', ct_GPU = True, ct_Env = [(''MODEL_NAME'', ''m'')], ct_Args = args\<rparr>"
  by (simp add: inferenceContainer_def demo_wpod_def)


text \<open>
  A pod without a capture is captured. While the server answers, a pod of a function that is not
  opted out, whose state is absent or not warm, or warm with a capture the server no longer has, and
  for whose image, model and flags the catalog has no capture, is stamped to be captured, with the
  function version and the label of the capture volume; and when the running pod becomes ready
  its key is among those the capture controller has to work on.
\<close>

theorem uncached_pod_reaches_capture:
  assumes "row_order orderBy" and "inferenceContainer (Some pod) = Some c" and "ct_Image c \<noteq> []"
    and "\<not> se_dbDown senv (fl_cluster w)" and "\<forall>r \<in> set (fl_catalog w). \<not> lookupMatches (podCriteria c) r"
    and "rq_FunctionVersionID rq \<noteq> []" and "\<not> modelServedFromCache pod rq" and "\<not> cfs_optOut (stateFor (rq_FunctionVersionID rq) w)"
    and "LocalCacheState (cfs_status (stateFor (rq_FunctionVersionID rq) w)) = LocalCacheStateWarm \<longrightarrow>
      getCheckpoint senv orderBy [] (CheckpointHash (cfs_status (stateFor (rq_FunctionVersionID rq) w))) (fl_cluster w) (fl_catalog w) = None"
    and "kp_Annotations p = kp_Annotations (fst (stampNvSnapAnnotations (fleetHook senv orderBy) rq pod w))" and "IsPodReady (Some p)" and "tq_ok q"
  shows "stampedCapture (rq_FunctionVersionID rq) pod (fst (stampNvSnapAnnotations (fleetHook senv orderBy) rq pod w)) \<and>
    MetaNamespaceKeyFunc p \<in> tq_dirty (enqueueIfEligible typedQueue p q)"
proof -
  let ?fv = "rq_FunctionVersionID rq" and ?env = "fleetHook senv orderBy" and ?pod = "annotate functionVersion (rq_FunctionVersionID rq) pod"
  obtain w1 where w1: "stampNvSnapAnnotations ?env rq pod w = stampState ?env ?fv (stateFor ?fv w) pod w1"
      "fl_catalog w1 = fl_catalog w" "fl_cluster w1 = fl_cluster w" "ms_objs (fl_objs w1) ?fv = Some (stateFor ?fv w)"
    using fleet_stamp [OF assms(6,7)] by blast
  have "ownCapture senv orderBy w1 (stateFor ?fv w) = None"
    using assms(9) w1(2,3) by (auto simp: ownCapture_def Let_def)
  then obtain w2 where s: "stampState ?env ?fv (stateFor ?fv w) pod w1 = stampCold ?env ?fv ?pod w2" "fl_catalog w2 = fl_catalog w1"
      "fl_cluster w2 = fl_cluster w1"
    using fleet_no_own [OF _ assms(8) w1(4)] by blast
  have "inferenceContainer (Some ?pod) = Some c" "\<not> se_dbDown senv (fl_cluster w2)" using assms(2,4) s(3) w1(3) by simp_all
  then have "lookupContentAddressedMatch ?env ?pod w2 = (None, w2)"
    using lookup_pod [OF assms(1) _ assms(3), of ?pod senv w2] assms(5) s(2) w1(2) by metis
  then have st: "stampedCapture ?fv pod (fst (stampState ?env ?fv (stateFor ?fv w) pod w1))"
    using s(1) by (simp add: fleet_cold_none stampedCapture_def)
  then have "kp_Annotations p checkpointOnWarm = Some ''true''" "kp_Annotations p functionVersion = Some ?fv"
    using assms(10) w1(1) by (simp_all add: stampedCapture_def)
  then have "enqueueIfEligible typedQueue p q = tq_Add (MetaNamespaceKeyFunc p) q"
    using assms(6,11) by (simp add: enqueueIfEligible_def PodEligibleForCheckpointOnWarm_def typedQueue_def)
  with tq_Add_law [OF assms(12)] st w1(1) show ?thesis by simp
qed

text \<open>
  C36. A failing database undoes a warm function. The hook resets a warm function only on a definite 404,
  and keeps it on any other error, but the server answers 404 also when its catalog query fails:
  while the database is down, every admission of a pod of a warm rootfs capture resets the function
  to cold, forgets its capture, and has the pod captured again.
\<close>

theorem database_error_resets_warm:
  assumes "se_dbDown senv (fl_cluster w)" and "ms_objs (fl_objs w) fv = Some cur" and "\<not> cfs_optOut cur"
    and "LocalCacheState (cfs_status cur) = LocalCacheStateWarm" and "CheckpointHash (cfs_status cur) = h" and "h \<noteq> []"
    and "\<forall>(i, node) \<in> set (se_agentCheckpoints senv (fl_cluster w)). i \<noteq> h" and "\<not> se_findCRD senv [] h (fl_cluster w)"
    and "rq_FunctionVersionID rq = fv" and "fv \<noteq> []" and "\<not> modelServedFromCache pod rq"
  shows "\<exists>pod' w' cfs. stampNvSnapAnnotations (fleetHook senv orderBy) rq pod w = (pod', w') \<and> stampedCapture fv pod pod' \<and>
    ms_objs (fl_objs w') fv = Some cfs \<and> LocalCacheState (cfs_status cfs) = LocalCacheStateCold \<and> CheckpointHash (cfs_status cfs) = [] \<and>
    fl_catalog w' = fl_catalog w"
proof -
  let ?env = "fleetHook senv orderBy"
  obtain w1 where w1: "stampNvSnapAnnotations ?env rq pod w = stampState ?env fv cur pod w1" "fl_catalog w1 = fl_catalog w"
      "fl_cluster w1 = fl_cluster w" "ms_objs (fl_objs w1) fv = Some cur"
    using fleet_stamp [of rq pod senv orderBy w] assms(2,9-11) by (auto simp: stateFor_def)
  have "getCheckpoint senv orderBy [] h (fl_cluster w1) (fl_catalog w1) = None"
    using assms(1,7,8) w1(3) by (auto simp: getCheckpoint_def)
  then have stale: "warmStale ?env h w1 = (True, w1)"
    using assms(6) by (simp add: warmStale_def nvsnapArtifactExists_def fleetHook_def clientGetCheckpoint_def)
  obtain w2 where w2: "hookWrite fleetApi fv resetStatus w1 = (Inr (), w2)" "fl_catalog w2 = fl_catalog w1" "fl_cluster w2 = fl_cluster w1"
      "ms_objs (fl_objs w2) fv = Some (cur\<lparr>cfs_status := resetStatus (cfs_status cur), cfs_version := cfs_version cur + 1\<rparr>)"
    using fleet_write [OF w1(4), of resetStatus] by blast
  have "lookupContentAddressedMatch ?env (annotate functionVersion fv pod) w2 = (None, w2)"
    using assms(1) w1(3) w2(3)
    by (simp add: lookupContentAddressedMatch_def fleetHook_def clientLookupCheckpoints_def split: option.split)
  from fleet_cold_none [OF this, of fv] show ?thesis
    using w1 w2 stale assms(3-6)
    by (simp add: stampState_def Let_def resetCFSToCold_def stampedCapture_def fleetHook_def resetStatus_def)
qed

theorem database_error_resets_warm_witness:
  "\<exists>pod' w'. stampNvSnapAnnotations (fleetHook memCluster_env scanOrder) demo_request (demo_wpod [])
       \<lparr>fl_objs = \<lparr>ms_objs = [''fv'' \<mapsto> warmCFS ''h''], ms_pods = []\<rparr>, fl_cluster = \<lparr>mc_agents = [], mc_down = True\<rparr>,
         fl_catalog = [demo_row ''h'' ''h'' 0], fl_clock = 9\<rparr> = (pod', w') \<and>
     stampedCapture ''fv'' (demo_wpod []) pod' \<and> map_option (\<lambda>cfs. CheckpointHash (cfs_status cfs)) (ms_objs (fl_objs w') ''fv'') = Some [] \<and>
     fl_catalog w' = [demo_row ''h'' ''h'' 0]"
proof -
  let ?w = "\<lparr>fl_objs = \<lparr>ms_objs = [''fv'' \<mapsto> warmCFS ''h''], ms_pods = []\<rparr>, fl_cluster = \<lparr>mc_agents = [], mc_down = True\<rparr>,
         fl_catalog = [demo_row ''h'' ''h'' 0], fl_clock = 9\<rparr>"
  have "se_dbDown memCluster_env (fl_cluster ?w)" "ms_objs (fl_objs ?w) ''fv'' = Some (warmCFS ''h'')" "\<not> cfs_optOut (warmCFS ''h'')"
      "LocalCacheState (cfs_status (warmCFS ''h'')) = LocalCacheStateWarm" "CheckpointHash (cfs_status (warmCFS ''h'')) = ''h''"
      "\<forall>(i, node) \<in> set (se_agentCheckpoints memCluster_env (fl_cluster ?w)). i \<noteq> ''h''"
      "\<not> se_findCRD memCluster_env [] ''h'' (fl_cluster ?w)" "rq_FunctionVersionID demo_request = ''fv''"
      "\<not> modelServedFromCache (demo_wpod []) demo_request"
    by (simp_all add: memCluster_env_def warmCFS_def freshCFS_def demo_request_def modelServedFromCache_def demo_wpod_def)
  from database_error_resets_warm [OF this(1-5) _ this(6-8) _ this(9), of scanOrder] show ?thesis by auto
qed

section \<open>Recovery over the fleet\<close>

lemma firstUsable_match: "firstUsable env ms w = (h, w') \<Longrightarrow> h \<noteq> [] \<Longrightarrow> \<exists>m \<in> set ms. lm_Hash m = h"
  by (induction env ms w rule: firstUsable.induct) (auto split: if_splits prod.splits sum.splits)

text \<open>
  Recovery takes captures of other flags. The reconciler looks for an existing capture by image and
  model only, and the server reads absent flags as no flags, not as any: every capture that recovery
  adopts has no engine flags. For a pod that runs with flags it is never one that the
  admission hook would restore the pod from, and a capture taken with the pod's flags is not found.
\<close>

theorem recovery_ignores_flags:
  assumes "row_order orderBy" and "findInferenceContainer (Some pod) (rc_InferenceContainerName rec0) = Some c"
    and "recoverExistingCapture (fleetRecovery senv orderBy env) rec0 pod w = (h, w')" and "h \<noteq> []"
  shows "\<exists>r \<in> set (fl_catalog w). cr_Hash r = h \<and> cr_EngineFlags r = [] \<and>
    (canonicalizeArgs (ct_Args c) \<noteq> [] \<longrightarrow> \<not> lookupMatches (podCriteria c) r)"
proof -
  let ?env = "fleetRecovery senv orderBy env" and ?crit = "\<lparr>lc_ImageRef = ct_Image c, lc_ModelID = extractModelID c, lc_EngineFlags = [],
      lc_DriverMajor = 0, lc_Limit = 0\<rparr>"
  let ?rows = "take 10 (orderBy False (filter (lookupMatches ?crit) (fl_catalog w)))"
  have img: "ct_Image c \<noteq> []" using assms(2-4) by (auto simp: recoverExistingCapture_def split: if_splits)
  then have rec: "recoverExistingCapture ?env rec0 pod w = findUsableCapture ?env (ct_Image c) (extractModelID c) w"
    using assms(2) by (simp add: recoverExistingCapture_def)
  have down: "\<not> se_dbDown senv (fl_cluster w)"
    using assms(3,4) rec img by (auto simp: findUsableCapture_def fleetRecovery_def clientLookupCheckpoints_def)
  have l: "ne_LookupCheckpoints ?env (ct_Image c) (extractModelID c) w = (Inr (map (\<lambda>r. \<lparr>lm_Hash = cr_Hash r\<rparr>) ?rows), w)"
    using img down by (simp add: fleetRecovery_def clientLookupCheckpoints_def lookupCheckpoint_def LookupCheckpoints_def Let_def comp_def)
  then have "firstUsable ?env (map (\<lambda>r. \<lparr>lm_Hash = cr_Hash r\<rparr>) ?rows) w = (h, w')"
    using assms(3) rec img by (simp add: findUsableCapture_def)
  from firstUsable_match [OF this assms(4)] obtain r where "r \<in> set ?rows" "cr_Hash r = h" by auto
  then have "r \<in> set (fl_catalog w)" "lookupMatches ?crit r" "cr_Hash r = h"
    using row_order.order_set [OF assms(1)] by (auto dest: in_set_takeD)
  then show ?thesis
    by (intro bexI [of _ r]) (auto simp: lookupMatches_def podCriteria_def canonicalizeArgs_agrees canonicalizeEngineFlags_def split: if_splits)
qed

text \<open>A pod that runs with a flag, and a capture taken without any.\<close>

end
