(* ===== verification/QueueManager.thy ===== *)
theory QueueManager
  imports GoString NvSnapState "HOL-Library.Word"
begin

text \<open>
  The queue manager of the cluster agent (\<open>nvca/queue_manager.go\<close>): it receives creation and termination
  messages of the control plane, decides by the free GPUs of the cluster what to accept, and records
  every accepted message as an \<open>ICMSRequest\<close> object (\<open>nvca/backendk8scache.go\<close>) that the other controllers of the
  agent act on.

  The queue client, the Kubernetes API, the health cache, the clock and the decoding of message bodies
  are an environment whose calls act on the world \<open>'w\<close>. A \<open>uint64\<close> is a 64-bit word. Logs, metrics and events
  are left out, and error texts are cut to their fixed part. A run that panics is \<open>None\<close>.
\<close>

type_synonym uint64 = "64 word"

section \<open>Messages and requests\<close>

record MessageQueueInfo =
  mq_GPU :: string
  mq_QueueURL :: string

record ReceiveMessageOutput =
  rm_MessageID :: string
  rm_ReceiptHandle :: string
  rm_Body :: "string option"

type_synonym queue_error = string

record 'w queue_client =
  qc_ReceiveMessage :: "MessageQueueInfo \<Rightarrow> int \<Rightarrow> int \<Rightarrow> 'w \<Rightarrow> (queue_error + ReceiveMessageOutput list) \<times> 'w"
  qc_DeleteMessage :: "MessageQueueInfo \<Rightarrow> string \<Rightarrow> 'w \<Rightarrow> queue_error option \<times> 'w"
  qc_ChangeMessageVisibility :: "MessageQueueInfo \<Rightarrow> string \<Rightarrow> int \<Rightarrow> 'w \<Rightarrow> queue_error option \<times> 'w"
  qc_IsMessageNotFoundError :: "queue_error \<Rightarrow> bool"

record GPUResource =
  gr_Capacity :: uint64
  gr_Allocated :: uint64

definition Available :: "GPUResource \<Rightarrow> uint64" where
  "Available res = (if gr_Allocated res > gr_Capacity res then 0 else gr_Capacity res - gr_Allocated res)"

definition HasCapacityForRequest :: "GPUResource \<Rightarrow> uint64 \<Rightarrow> bool" where
  "HasCapacityForRequest res request \<longleftrightarrow> gr_Allocated res + request \<le> gr_Capacity res"

record AgentHealth =
  ah_GPUUsage :: "string \<Rightarrow> GPUResource option"
  ah_Components :: "string \<Rightarrow> bool option"

record CreationQueueMessageMetadata =
  mm_RequestID :: string
  mm_Action :: string
  mm_InstanceCount :: uint64
  mm_GPUType :: string
  mm_RequestedGPUCount :: uint64

text \<open>A function or a task message; \<open>cq_Env\<close> is \<open>None\<close> where the launch specification is absent.\<close>

record CreationQueueMessage =
  cq_Meta :: CreationQueueMessageMetadata
  cq_IsTask :: bool
  cq_Env :: "string option"
  cq_Telemetries :: bool

record ICMSTerminationMessage =
  tm_RequestID :: string
  tm_InstanceIds :: "string list"

text \<open>
  The object of a request: a termination has no metadata, a rejected creation a reason. The annotation
  with the storage of the model cache is not part of it.
\<close>

record IcmsRequest =
  ir_Name :: string
  ir_MessageID :: string
  ir_RequestID :: string
  ir_Action :: string
  ir_MessageReceipt :: string
  ir_QueueURL :: string
  ir_Meta :: "CreationQueueMessageMetadata option"
  ir_Env :: "string option"
  ir_InstanceIds :: "string list"
  ir_Rejected :: string

abbreviation TerminationAction :: string where "TerminationAction \<equiv> ''TerminateInstances''"

record 'w backend =
  bk_List :: "string \<Rightarrow> 'w \<Rightarrow> api_error + IcmsRequest list"
  bk_Lister :: "'w \<Rightarrow> string + IcmsRequest list"
  bk_Create :: "IcmsRequest \<Rightarrow> 'w \<Rightarrow> (api_error + IcmsRequest) \<times> 'w"
  bk_newUUID :: "'w \<Rightarrow> string"
  bk_useUUID :: bool
  bk_Flag :: "string \<Rightarrow> bool"
  bk_functionEnvOverrides :: "(string \<times> string) list"
  bk_taskEnvOverrides :: "(string \<times> string) list"
  bk_ApplyEnvOverrides :: "string \<Rightarrow> (string \<times> string) list \<Rightarrow> string option"
  bk_persistStorage :: "IcmsRequest \<Rightarrow> 'w \<Rightarrow> string option \<times> 'w"

section \<open>Recording a message\<close>

definition checkICMSRequestExists :: "'w backend \<Rightarrow> string \<Rightarrow> string \<Rightarrow> 'w \<Rightarrow> string + bool" where
  "checkICMSRequestExists bk msgID requestID w =
     (case bk_List bk msgID w of
        Inl e \<Rightarrow> if e = NotFound then Inr False else Inl ''failed to list ICMS request''
      | Inr rs \<Rightarrow> Inr (\<exists>r \<in> set rs. requestID = [] \<or> ir_RequestID r = [] \<or> ir_RequestID r = requestID))"

fun commaJoin :: "string list \<Rightarrow> string" where
  "commaJoin [] = []"
| "commaJoin [s] = s"
| "commaJoin (s # ss) = s @ '', '' @ commaJoin ss"

definition byooDisabledReason :: "'w backend \<Rightarrow> string \<Rightarrow> string list \<Rightarrow> string" where
  "byooDisabledReason bk workload required =
     (let disabled = filter (\<lambda>ff. \<not> bk_Flag bk ff) required
      in if disabled = [] then []
         else ''Bring Your Own Observability (BYOO) is disabled on this cluster: the '' @ workload @
           '' requests telemetries, but these NVCA feature flags are not enabled: '' @ commaJoin disabled @
           ''. Enable them on the cluster, or deploy without telemetries.'')"

text \<open>The reason to reject a creation, or the environment it runs with.\<close>

definition creationEnv :: "'w backend \<Rightarrow> CreationQueueMessage \<Rightarrow> string + string option" where
  "creationEnv bk msg =
     (let byoo = (if cq_Telemetries msg \<and> cq_Env msg \<noteq> None
                  then (if cq_IsTask msg then byooDisabledReason bk ''task'' [''BYOObservability'']
                        else byooDisabledReason bk ''function'' [''BYOObservability'', ''UseFunctionTranslator''])
                  else []);
          overrides = (if cq_IsTask msg then bk_taskEnvOverrides bk else bk_functionEnvOverrides bk)
      in if byoo \<noteq> [] then Inl byoo
         else
           case cq_Env msg of
             None \<Rightarrow> Inr None
           | Some e \<Rightarrow>
               if overrides = [] then Inr (Some e)
               else (case bk_ApplyEnvOverrides bk e overrides of
                       None \<Rightarrow> Inl (''NVCA could not apply the cluster's '' @ (if cq_IsTask msg then ''task'' else ''function'') @ '' environment overrides'')
                     | Some e' \<Rightarrow> Inr (Some e')))"

definition requestName :: "'w backend \<Rightarrow> string \<Rightarrow> 'w \<Rightarrow> string" where
  "requestName bk requestID w = ''sr-'' @ (if bk_useUUID bk then bk_newUUID bk w else requestID)"

definition CreateICMSCreationMessageRequest ::
    "'w backend \<Rightarrow> CreationQueueMessage \<Rightarrow> string \<Rightarrow> string \<Rightarrow> string \<Rightarrow> 'w \<Rightarrow> (string + IcmsRequest option) \<times> 'w" where
  "CreateICMSCreationMessageRequest bk msg msgReceipt msgID queueURL w =
     (let m = cq_Meta msg
      in case checkICMSRequestExists bk msgID (mm_RequestID m) w of
           Inl e \<Rightarrow> (Inl ''failed precheck'', w)
         | Inr True \<Rightarrow> (Inr None, w)
         | Inr False \<Rightarrow>
             let o0 = \<lparr>ir_Name = requestName bk (mm_RequestID m) w, ir_MessageID = msgID, ir_RequestID = mm_RequestID m,
                       ir_Action = mm_Action m, ir_MessageReceipt = msgReceipt, ir_QueueURL = queueURL, ir_Meta = Some m,
                       ir_Env = cq_Env msg, ir_InstanceIds = [], ir_Rejected = []\<rparr>;
                 req = (case creationEnv bk msg of Inl reason \<Rightarrow> o0\<lparr>ir_Rejected := reason\<rparr> | Inr e \<Rightarrow> o0\<lparr>ir_Env := e\<rparr>);
                 (stored, w1) = (if ir_Rejected req \<noteq> [] then (None, w) else bk_persistStorage bk req w)
             in case stored of
                  Some e \<Rightarrow> (Inl e, w1)
                | None \<Rightarrow>
                    (case bk_Create bk req w1 of
                       (Inl e, w2) \<Rightarrow> (Inl ''failed to persist the ICMS request on the backend'', w2)
                     | (Inr obj, w2) \<Rightarrow> (Inr (Some obj), w2)))"

definition GetCreationRejectionReason :: "IcmsRequest option \<Rightarrow> string" where
  "GetCreationRejectionReason req = (case req of None \<Rightarrow> [] | Some r \<Rightarrow> ir_Rejected r)"

definition CreateICMSTerminationMessageRequest ::
    "'w backend \<Rightarrow> ICMSTerminationMessage \<Rightarrow> string \<Rightarrow> string \<Rightarrow> 'w \<Rightarrow> string option \<times> 'w" where
  "CreateICMSTerminationMessageRequest bk tm msgReceipt msgID w =
     (case checkICMSRequestExists bk msgID (tm_RequestID tm) w of
        Inl e \<Rightarrow> (Some ''failed precheck'', w)
      | Inr True \<Rightarrow> (None, w)
      | Inr False \<Rightarrow>
          (case bk_Create bk
                  \<lparr>ir_Name = requestName bk (tm_RequestID tm) w, ir_MessageID = msgID, ir_RequestID = tm_RequestID tm,
                   ir_Action = TerminationAction, ir_MessageReceipt = msgReceipt, ir_QueueURL = [], ir_Meta = None, ir_Env = None,
                   ir_InstanceIds = tm_InstanceIds tm, ir_Rejected = []\<rparr> w of
             (Inl e, w1) \<Rightarrow> (Some ''failed to persist the ICMS request on the backend'', w1)
           | (Inr _, w1) \<Rightarrow> (None, w1)))"

section \<open>The manager\<close>

datatype MaintenanceMode = MaintenanceModeNone | MaintenanceModeCordon | MaintenanceModeCordonAndDrain

text \<open>A Go map of queues is an association list with a GPU at most once.\<close>

type_synonym CreationQueueInfoSet = "(string \<times> MessageQueueInfo) list"

record QueueCredentials =
  qd_ClusterCreationQueues :: CreationQueueInfoSet
  qd_TaskClusterCreationQueues :: CreationQueueInfoSet
  qd_CreationQueues :: CreationQueueInfoSet
  qd_TerminationQueue :: MessageQueueInfo

record QueueManager =
  qm_qcreds :: QueueCredentials
  qm_queueRingStartIdxByGPU :: "string \<Rightarrow> nat option"
  qm_maxQueueMessages :: int
  qm_numSkipProcessCreation :: "string \<Rightarrow> uint64"
  qm_healthy :: bool
  qm_paused :: bool
  qm_gpuAtCapacityStore :: "string \<Rightarrow> bool option"
  qm_maintenanceMode :: MaintenanceMode

record 'w qm_env =
  qe_client :: "'w queue_client"
  qe_backend :: "'w backend"
  qe_RefreshStatus :: "'w \<Rightarrow> string option \<times> 'w"
  qe_GetStatus :: "'w \<Rightarrow> AgentHealth"
  qe_now :: "'w \<Rightarrow> int"
  qe_decodeCreation :: "string \<Rightarrow> CreationQueueMessage option"
  qe_decodeTermination :: "string \<Rightarrow> ICMSTerminationMessage option"
  qe_decodeRequestID :: "string \<Rightarrow> string option"

definition maxCreationSkip :: uint64 where "maxCreationSkip = 50"
definition defaultVisibilityTimeoutSeconds :: int where "defaultVisibilityTimeoutSeconds = 30"
definition creationQueueVisibilityTimeoutSeconds :: int where "creationQueueVisibilityTimeoutSeconds = 360"

definition getQueueManagerMaxQueueMessages :: "('w backend) \<Rightarrow> string option \<Rightarrow> int" where
  "getQueueManagerMaxQueueMessages bk env =
     (if bk_Flag bk ''MaxSQSBatchPull'' then 10
      else case env of None \<Rightarrow> 1 | Some v \<Rightarrow> (case ParseInt v of Some n \<Rightarrow> n | None \<Rightarrow> 1))"

text \<open>A nil map of creation queues panics.\<close>

definition NewQueueManager :: "bool \<Rightarrow> QueueCredentials \<Rightarrow> int \<Rightarrow> MaintenanceMode \<Rightarrow> QueueManager option" where
  "NewQueueManager nilQueues qcreds maxMessages mode =
     (if nilQueues then None else Some \<lparr>qm_qcreds = qcreds, qm_queueRingStartIdxByGPU = Map.empty, qm_maxQueueMessages = maxMessages,
      qm_numSkipProcessCreation = (\<lambda>_. 0), qm_healthy = True, qm_paused = False, qm_gpuAtCapacityStore = Map.empty,
      qm_maintenanceMode = mode\<rparr>)"

definition updateQueues :: "QueueCredentials \<Rightarrow> QueueManager \<Rightarrow> QueueManager" where
  "updateQueues creds qm = qm\<lparr>qm_qcreds := creds\<rparr>"

definition Pause :: "QueueManager \<Rightarrow> QueueManager" where "Pause qm = qm\<lparr>qm_paused := True\<rparr>"
definition Resume :: "QueueManager \<Rightarrow> QueueManager" where "Resume qm = qm\<lparr>qm_paused := False\<rparr>"
definition SetStatusOK :: "bool \<Rightarrow> QueueManager \<Rightarrow> QueueManager" where "SetStatusOK ok qm = qm\<lparr>qm_healthy := ok\<rparr>"

definition SetGPUAtCapacity :: "string \<Rightarrow> bool \<Rightarrow> QueueManager \<Rightarrow> bool \<times> QueueManager" where
  "SetGPUAtCapacity gpuName atCapacity qm =
     (case qm_gpuAtCapacityStore qm gpuName of Some prev \<Rightarrow> prev | None \<Rightarrow> False,
      qm\<lparr>qm_gpuAtCapacityStore := (qm_gpuAtCapacityStore qm)(gpuName \<mapsto> atCapacity)\<rparr>)"

definition IsGPUAtCapacity :: "string \<Rightarrow> QueueManager \<Rightarrow> bool \<times> QueueManager" where
  "IsGPUAtCapacity gpuName qm =
     (case qm_gpuAtCapacityStore qm gpuName of
        Some v \<Rightarrow> (v, qm)
      | None \<Rightarrow> (False, qm\<lparr>qm_gpuAtCapacityStore := (qm_gpuAtCapacityStore qm)(gpuName \<mapsto> False)\<rparr>))"

definition setNumSkipProcessCreation :: "string \<Rightarrow> uint64 \<Rightarrow> QueueManager \<Rightarrow> QueueManager" where
  "setNumSkipProcessCreation gpuName skip qm =
     qm\<lparr>qm_numSkipProcessCreation := (qm_numSkipProcessCreation qm)(gpuName := skip)\<rparr>"

text \<open>The self-hosted credentials: one stream for all GPUs of the health cache.\<close>

definition CreateStreamName :: string where "CreateStreamName = ''CreateNvcaFunctionTaskStream''"
definition TermStreamName :: string where "TermStreamName = ''TerminateNvcaStream''"

definition postProcessQueueCredentials :: "bool \<Rightarrow> string list \<Rightarrow> QueueCredentials \<Rightarrow> QueueCredentials" where
  "postProcessQueueCredentials selfHosted gpus creds =
     (if selfHosted \<and> qd_ClusterCreationQueues creds = [] \<and> qd_TaskClusterCreationQueues creds = [] \<and> qd_CreationQueues creds = [] \<and>
         qd_TerminationQueue creds = \<lparr>mq_GPU = [], mq_QueueURL = []\<rparr>
      then \<lparr>qd_ClusterCreationQueues = map (\<lambda>g. (g, \<lparr>mq_GPU = g, mq_QueueURL = CreateStreamName\<rparr>)) gpus,
            qd_TaskClusterCreationQueues = [], qd_CreationQueues = [],
            qd_TerminationQueue = \<lparr>mq_GPU = [], mq_QueueURL = TermStreamName\<rparr>\<rparr>
      else creds)"

section \<open>Which queues to fetch\<close>

definition gpuUsage :: "AgentHealth \<Rightarrow> string \<Rightarrow> GPUResource" where
  "gpuUsage h gpuName = (case ah_GPUUsage h gpuName of None \<Rightarrow> \<lparr>gr_Capacity = 0, gr_Allocated = 0\<rparr> | Some r \<Rightarrow> r)"

definition componentsHealthy :: "AgentHealth \<Rightarrow> bool" where
  "componentsHealthy h \<longleftrightarrow> (\<forall>c \<in> set [''kata'', ''host-isolation'']. ah_Components h c \<noteq> Some False)"

definition creationMessagesFetchable :: "AgentHealth \<Rightarrow> string \<Rightarrow> QueueManager \<Rightarrow> bool \<times> QueueManager" where
  "creationMessagesFetchable h gpuName qm =
     (let res = gpuUsage h gpuName
      in if gr_Capacity res \<le> gr_Allocated res then (False, snd (SetGPUAtCapacity gpuName True qm))
         else (componentsHealthy h, snd (SetGPUAtCapacity gpuName False qm)))"

definition mustSkipQueueForGPU :: "AgentHealth \<Rightarrow> string \<Rightarrow> QueueManager \<Rightarrow> bool \<times> QueueManager" where
  "mustSkipQueueForGPU h gpuName qm =
     (let n = qm_numSkipProcessCreation qm gpuName
      in if n > 0 then (True, setNumSkipProcessCreation gpuName (n - 1) qm)
         else case creationMessagesFetchable h gpuName qm of (ok, qm') \<Rightarrow> (\<not> ok, qm'))"

record queueWorkInput =
  qw_gpuName :: string
  qw_qi :: MessageQueueInfo
  qw_vtoSec :: int

fun getQueues :: "AgentHealth \<Rightarrow> CreationQueueInfoSet \<Rightarrow> QueueManager \<Rightarrow> queueWorkInput list \<times> QueueManager" where
  "getQueues h [] qm = ([], qm)"
| "getQueues h ((gpuName, qi) # qis) qm =
     (case mustSkipQueueForGPU h gpuName qm of
        (skip, qm1) \<Rightarrow>
          (case getQueues h qis qm1 of
             (rest, qm2) \<Rightarrow>
               (if skip then rest
                else \<lparr>qw_gpuName = gpuName, qw_qi = qi, qw_vtoSec = creationQueueVisibilityTimeoutSeconds\<rparr> # rest, qm2)))"

text \<open>Start index and size of the ring of a GPU.\<close>

type_synonym ringMetadata = "string \<Rightarrow> (nat \<times> nat) option"

definition addToRing :: "(string \<Rightarrow> nat option) \<Rightarrow> queueWorkInput \<Rightarrow> ringMetadata \<Rightarrow> ringMetadata" where
  "addToRing start qwi m =
     (case m (qw_gpuName qwi) of
        None \<Rightarrow> m(qw_gpuName qwi \<mapsto> (case start (qw_gpuName qwi) of None \<Rightarrow> 0 | Some i \<Rightarrow> i, 1))
      | Some (s, n) \<Rightarrow> m(qw_gpuName qwi \<mapsto> (s, n + 1)))"

text \<open>
  \<open>order\<close> is the order in which the code ranges over a map of queues. The start indices of GPUs
  without a queue are dropped.
\<close>

definition collectAvailableCreationQueues ::
    "(CreationQueueInfoSet \<Rightarrow> CreationQueueInfoSet) \<Rightarrow> AgentHealth \<Rightarrow> QueueManager \<Rightarrow> queueWorkInput list \<times> ringMetadata \<times> QueueManager" where
  "collectAvailableCreationQueues order h qm =
     (let creds = qm_qcreds qm;
          (q1, qm1) = getQueues h (order (qd_CreationQueues creds)) qm;
          (q2, qm2) = getQueues h (order (qd_ClusterCreationQueues creds)) qm1;
          (q3, qm3) = getQueues h (order (qd_TaskClusterCreationQueues creds)) qm2;
          inputs = q1 @ q2 @ q3;
          rings = fold (addToRing (qm_queueRingStartIdxByGPU qm3)) inputs Map.empty;
          meta = (\<lambda>g. map_option (\<lambda>(s, n). (s mod n, n)) (rings g))
      in (inputs, meta, qm3\<lparr>qm_queueRingStartIdxByGPU := (\<lambda>g. map_option (\<lambda>(s, n). (s + 1) mod n) (meta g))\<rparr>))"

section \<open>Keys of messages\<close>

definition queueRequestKey :: "string \<Rightarrow> string \<Rightarrow> string" where
  "queueRequestKey messageID requestID = (if requestID = [] then messageID else messageID @ [CHR 0x00] @ requestID)"

definition queueMessageKey :: "'w qm_env \<Rightarrow> ReceiveMessageOutput \<Rightarrow> string" where
  "queueMessageKey env m =
     (case rm_Body m of
        None \<Rightarrow> rm_MessageID m
      | Some body \<Rightarrow>
          (case qe_decodeRequestID env body of
             None \<Rightarrow> rm_MessageID m
           | Some requestID \<Rightarrow> queueRequestKey (rm_MessageID m) requestID))"

definition queueMessageExists :: "'w qm_env \<Rightarrow> string set \<Rightarrow> ReceiveMessageOutput \<Rightarrow> bool" where
  "queueMessageExists env existing m \<longleftrightarrow> queueMessageKey env m \<in> existing \<or> rm_MessageID m \<in> existing"

definition bodyOf :: "ReceiveMessageOutput \<Rightarrow> string" where
  "bodyOf m = (case rm_Body m of None \<Rightarrow> [] | Some b \<Rightarrow> b)"

text \<open>The messages that are new and have a body, with the keys known afterwards.\<close>

fun newMessages :: "'w qm_env \<Rightarrow> string set \<Rightarrow> ReceiveMessageOutput list \<Rightarrow> ReceiveMessageOutput list \<times> string set" where
  "newMessages env existing [] = ([], existing)"
| "newMessages env existing (m # ms) =
     (if queueMessageExists env existing m then newMessages env existing ms
      else
        case newMessages env (insert (queueMessageKey env m) existing) ms of
          (rest, existing') \<Rightarrow> (if rm_Body m = None then rest else m # rest, existing'))"

section \<open>Receiving\<close>

definition tryPopMessage :: "'w qm_env \<Rightarrow> QueueManager \<Rightarrow> MessageQueueInfo \<Rightarrow> int \<Rightarrow> 'w \<Rightarrow> (queue_error + ReceiveMessageOutput list) \<times> 'w" where
  "tryPopMessage env qm qi vtoSec w = qc_ReceiveMessage (qe_client env) qi (qm_maxQueueMessages qm) vtoSec w"

text \<open>The creation queues are fetched in parallel, each into a place of its own.\<close>

fun popAll :: "'w qm_env \<Rightarrow> QueueManager \<Rightarrow> queueWorkInput list \<Rightarrow> 'w \<Rightarrow> (queue_error + ReceiveMessageOutput list) list \<times> 'w" where
  "popAll env qm [] w = ([], w)"
| "popAll env qm (q # qs) w =
     (case tryPopMessage env qm (qw_qi q) (qw_vtoSec q) w of
        (out, w1) \<Rightarrow> (case popAll env qm qs w1 of (outs, w2) \<Rightarrow> (out # outs, w2)))"

record createMessageTuple =
  cmt_gpuName :: string
  cmt_message :: ReceiveMessageOutput
  cmt_queueInfo :: MessageQueueInfo

type_synonym messageMatrix = "createMessageTuple list list"

text \<open>
  One received batch goes to the column at the start index of the ring of its GPU, which then moves
  on. Writing outside the columns and a ring of no queues panic.
\<close>

definition placeBatch ::
    "'w qm_env \<Rightarrow> queueWorkInput \<Rightarrow> ReceiveMessageOutput list \<Rightarrow> (string \<Rightarrow> messageMatrix option) \<times> ringMetadata \<times> string set
       \<Rightarrow> ((string \<Rightarrow> messageMatrix option) \<times> ringMetadata \<times> string set) option" where
  "placeBatch env q messages st =
     (case st of (matrices, meta, existing) \<Rightarrow>
        let g = qw_gpuName q;
            (s, n) = (case meta g of None \<Rightarrow> (0, 0) | Some sn \<Rightarrow> sn);
            matrix = (case matrices g of None \<Rightarrow> replicate n [] | Some m \<Rightarrow> m);
            (fresh, existing') = newMessages env existing messages;
            tuples = map (\<lambda>m. \<lparr>cmt_gpuName = g, cmt_message = m, cmt_queueInfo = qw_qi q\<rparr>) fresh
        in if s < length matrix \<and> n \<noteq> 0
           then Some (matrices(g \<mapsto> matrix[s := tuples]), meta(g \<mapsto> ((s + 1) mod n, n)), existing')
           else None)"

fun createCreationMessageMatricesByGPU ::
    "'w qm_env \<Rightarrow> (queueWorkInput \<times> (queue_error + ReceiveMessageOutput list)) list
       \<Rightarrow> (string \<Rightarrow> messageMatrix option) \<times> ringMetadata \<times> string set \<Rightarrow> ((string \<Rightarrow> messageMatrix option) \<times> bool) option" where
  "createCreationMessageMatricesByGPU env [] st = Some (fst st, False)"
| "createCreationMessageMatricesByGPU env ((q, out) # rest) st =
     (case out of
        Inl _ \<Rightarrow> map_option (\<lambda>(m, _). (m, True)) (createCreationMessageMatricesByGPU env rest st)
      | Inr messages \<Rightarrow>
          (case placeBatch env q messages st of
             None \<Rightarrow> None
           | Some st' \<Rightarrow> createCreationMessageMatricesByGPU env rest st'))"

definition newIterCreationMessageMatrix :: "nat \<Rightarrow> messageMatrix \<Rightarrow> createMessageTuple list" where
  "newIterCreationMessageMatrix maxMessages matrix =
     concat (map (\<lambda>r. concat (map (\<lambda>column. if r \<ge> length column then [] else [column ! r]) matrix)) [0..<maxMessages])"

section \<open>Handling a message\<close>

definition creationRequestServiceable :: "AgentHealth \<Rightarrow> string \<Rightarrow> uint64 \<Rightarrow> uint64 \<Rightarrow> bool" where
  "creationRequestServiceable h gpuName cumGPURequest request \<longleftrightarrow>
     HasCapacityForRequest (gpuUsage h gpuName) (request + cumGPURequest) \<and> componentsHealthy h"

definition requestSize :: "CreationQueueMessageMetadata \<Rightarrow> uint64" where
  "requestSize m = mm_InstanceCount m * (if mm_RequestedGPUCount m = 0 then 1 else mm_RequestedGPUCount m)"

text \<open>
  The GPUs a message uses, an error, or a panic: the last statement logs the fields of the request,
  which is nil where \<open>CreateICMSCreationMessageRequest\<close> found one in the API server.
\<close>

definition doCreationMessage ::
    "'w qm_env \<Rightarrow> string \<Rightarrow> uint64 \<Rightarrow> MessageQueueInfo \<Rightarrow> ReceiveMessageOutput \<Rightarrow> QueueManager \<times> 'w
       \<Rightarrow> (string + uint64) option \<times> QueueManager \<times> 'w" where
  "doCreationMessage env gpuName cumGPUReq qi message s =
     (case s of (qm, w) \<Rightarrow>
        case qe_decodeCreation env (bodyOf message) of
          None \<Rightarrow> (Some (Inl ''decode creation message''), qm, w)
        | Some msg \<Rightarrow>
            let request = requestSize (cq_Meta msg);
                again = (\<lambda>qm w. (Some (Inl ''failed to apply creation message''), qm,
                  snd (qc_ChangeMessageVisibility (qe_client env) qi (rm_ReceiptHandle message) 0 w)))
            in if \<not> creationRequestServiceable (qe_GetStatus env w) gpuName cumGPUReq request then
                 again (setNumSkipProcessCreation gpuName ((word_of_int (qe_now env w) + maxCreationSkip + 1) mod maxCreationSkip) qm) w
               else
                 let qm1 = setNumSkipProcessCreation gpuName 0 qm
                 in (case CreateICMSCreationMessageRequest (qe_backend env) msg (rm_ReceiptHandle message) (rm_MessageID message)
                            (mq_QueueURL qi) w of
                       (Inl _, w1) \<Rightarrow> again qm1 w1
                     | (Inr icmsReq, w1) \<Rightarrow>
                         if GetCreationRejectionReason icmsReq \<noteq> [] then
                           (Some (Inr 0), qm1, snd (qc_DeleteMessage (qe_client env) qi (rm_ReceiptHandle message) w1))
                         else if icmsReq = None then (None, qm1, w1)
                         else (Some (Inr request), qm1, w1)))"

definition doTerminationMessage :: "'w qm_env \<Rightarrow> MessageQueueInfo \<Rightarrow> ReceiveMessageOutput \<Rightarrow> 'w \<Rightarrow> string option \<times> 'w" where
  "doTerminationMessage env qi message w =
     (case qe_decodeTermination env (bodyOf message) of
        None \<Rightarrow> (Some ''decode termination message'', w)
      | Some tm \<Rightarrow>
          (case CreateICMSTerminationMessageRequest (qe_backend env) tm (rm_ReceiptHandle message) (rm_MessageID message) w of
             (Some e, w1) \<Rightarrow> (Some ''failed to apply termination message'', w1)
           | (None, w1) \<Rightarrow>
               (case qc_DeleteMessage (qe_client env) qi (rm_ReceiptHandle message) w1 of
                  (Some e, w2) \<Rightarrow> (Some ''failed to delete the Message'', w2)
                | (None, w2) \<Rightarrow> (None, w2))))"

definition deleteRedelivered :: "'w qm_env \<Rightarrow> string set \<Rightarrow> MessageQueueInfo \<Rightarrow> ReceiveMessageOutput \<Rightarrow> 'w \<Rightarrow> 'w" where
  "deleteRedelivered env rejectedKeys qi m w =
     (if queueMessageKey env m \<in> rejectedKeys then snd (qc_DeleteMessage (qe_client env) qi (rm_ReceiptHandle m) w) else w)"

definition deleteRedeliveredRejectedMessages ::
    "'w qm_env \<Rightarrow> string set \<Rightarrow> (queueWorkInput \<times> (queue_error + ReceiveMessageOutput list)) list \<Rightarrow> 'w \<Rightarrow> 'w" where
  "deleteRedeliveredRejectedMessages env rejectedKeys batches w =
     fold (\<lambda>(q, out) w. case out of Inl _ \<Rightarrow> w | Inr ms \<Rightarrow> fold (deleteRedelivered env rejectedKeys (qw_qi q)) ms w) batches w"

section \<open>The jobs of a pass\<close>

text \<open>
  A goroutine per termination message and one per GPU; the latter works through its messages in order
  and adds up the GPUs they use. A step of a job handles one message.
\<close>

datatype job = TermJob "ReceiveMessageOutput list" | CreateJob uint64 "createMessageTuple list"

fun jobMessages :: "job \<Rightarrow> nat" where
  "jobMessages (TermJob ms) = length ms"
| "jobMessages (CreateJob _ ts) = length ts"

fun stepJob :: "'w qm_env \<Rightarrow> MessageQueueInfo \<Rightarrow> job \<Rightarrow> QueueManager \<times> 'w \<Rightarrow> (job \<times> QueueManager \<times> 'w) option" where
  "stepJob env termQueue (TermJob []) s = Some (TermJob [], s)"
| "stepJob env termQueue (TermJob (m # ms)) (qm, w) = Some (TermJob ms, qm, snd (doTerminationMessage env termQueue m w))"
| "stepJob env termQueue (CreateJob cum []) s = Some (CreateJob cum [], s)"
| "stepJob env termQueue (CreateJob cum (t # ts)) s =
     (case doCreationMessage env (cmt_gpuName t) cum (cmt_queueInfo t) (cmt_message t) s of
        (None, _) \<Rightarrow> None
      | (Some (Inl _), s') \<Rightarrow> Some (CreateJob cum ts, s')
      | (Some (Inr used), s') \<Rightarrow> Some (CreateJob (cum + used) ts, s'))"

text \<open>\<open>sched\<close> says which job takes the next step; when it ends the jobs are finished one by one.\<close>

fun runSchedule :: "'w qm_env \<Rightarrow> MessageQueueInfo \<Rightarrow> nat list \<Rightarrow> job list \<times> QueueManager \<times> 'w \<Rightarrow> (job list \<times> QueueManager \<times> 'w) option" where
  "runSchedule env termQueue [] st = Some st"
| "runSchedule env termQueue (i # is) (jobs, s) =
     (if i < length jobs then
        (case stepJob env termQueue (jobs ! i) s of
           None \<Rightarrow> None
         | Some (j, s') \<Rightarrow> runSchedule env termQueue is (jobs[i := j], s'))
      else runSchedule env termQueue is (jobs, s))"

definition finishing :: "job list \<Rightarrow> nat list" where
  "finishing jobs = concat (map (\<lambda>i. replicate (jobMessages (jobs ! i)) i) [0..<length jobs])"

definition runJobs :: "'w qm_env \<Rightarrow> MessageQueueInfo \<Rightarrow> nat list \<Rightarrow> job list \<times> QueueManager \<times> 'w \<Rightarrow> (job list \<times> QueueManager \<times> 'w) option" where
  "runJobs env termQueue sched st =
     (case runSchedule env termQueue sched st of
        None \<Rightarrow> None
      | Some (jobs, s) \<Rightarrow> runSchedule env termQueue (finishing jobs) (jobs, s))"

section \<open>A pass over the queues\<close>

definition requestKeys :: "IcmsRequest list \<Rightarrow> string set" where
  "requestKeys rs = (\<lambda>r. queueRequestKey (ir_MessageID r) (ir_RequestID r)) ` set rs"

text \<open>The loop over termination messages while creation is paused.\<close>

definition terminateEach :: "'w qm_env \<Rightarrow> MessageQueueInfo \<Rightarrow> string set \<Rightarrow> ReceiveMessageOutput list \<Rightarrow> 'w \<Rightarrow> 'w" where
  "terminateEach env termQueue existing ms w =
     fold (\<lambda>m w. if queueMessageExists env existing m \<or> rm_Body m = None then w else snd (doTerminationMessage env termQueue m w)) ms w"

definition terminationKeys :: "IcmsRequest list \<Rightarrow> string set" where
  "terminationKeys rs = requestKeys (filter (\<lambda>r. ir_Action r = TerminationAction) rs)"

definition syncPaused :: "'w qm_env \<Rightarrow> QueueManager \<Rightarrow> 'w \<Rightarrow> string option \<times> QueueManager \<times> 'w" where
  "syncPaused env qm w =
     (let termQueue = qd_TerminationQueue (qm_qcreds qm)
      in if mq_QueueURL termQueue = [] then (None, qm, w)
         else
           case tryPopMessage env qm termQueue defaultVisibilityTimeoutSeconds w of
             (Inl e, w1) \<Rightarrow> (Some e, qm, w1)
           | (Inr ms, w1) \<Rightarrow>
               (case bk_Lister (qe_backend env) w1 of
                  Inl e \<Rightarrow> (Some e, qm, w1)
                | Inr rs \<Rightarrow> (None, qm, terminateEach env termQueue (terminationKeys rs) ms w1)))"

definition syncMaintenance :: "'w qm_env \<Rightarrow> QueueManager \<Rightarrow> 'w \<Rightarrow> string option \<times> QueueManager \<times> 'w" where
  "syncMaintenance env qm w =
     (let termQueue = qd_TerminationQueue (qm_qcreds qm)
      in case tryPopMessage env qm termQueue defaultVisibilityTimeoutSeconds w of
           (Inl e, w1) \<Rightarrow> (Some e, SetStatusOK False qm, w1)
         | (Inr ms, w1) \<Rightarrow>
             (case bk_Lister (qe_backend env) w1 of
                Inl e \<Rightarrow> (Some e, qm, w1)
              | Inr rs \<Rightarrow> (None, SetStatusOK True qm, terminateEach env termQueue (terminationKeys rs) ms w1)))"

text \<open>The jobs of the received messages, and whether a queue failed.\<close>

definition planJobs ::
    "'w qm_env \<Rightarrow> nat \<Rightarrow> queueWorkInput list \<Rightarrow> ringMetadata \<Rightarrow> queue_error + ReceiveMessageOutput list
       \<Rightarrow> (queue_error + ReceiveMessageOutput list) list \<Rightarrow> string set \<Rightarrow> (job list \<times> bool) option" where
  "planJobs env maxMessages inputs meta termOut outs existing =
     (let (terms, existing1) = (case termOut of Inl _ \<Rightarrow> ([], existing) | Inr ms \<Rightarrow> newMessages env existing ms)
      in case createCreationMessageMatricesByGPU env (zip inputs outs) (Map.empty, meta, existing1) of
           None \<Rightarrow> None
         | Some (matrices, hasErrors) \<Rightarrow>
             Some (map (\<lambda>m. TermJob [m]) terms @
                   map (\<lambda>g. CreateJob 0 (newIterCreationMessageMatrix maxMessages (the (matrices g))))
                     (filter (\<lambda>g. matrices g \<noteq> None) (remdups (map qw_gpuName inputs))),
                   hasErrors \<or> isl termOut))"

definition syncActive ::
    "'w qm_env \<Rightarrow> (CreationQueueInfoSet \<Rightarrow> CreationQueueInfoSet) \<Rightarrow> nat list \<Rightarrow> QueueManager \<Rightarrow> 'w \<Rightarrow> (string option \<times> QueueManager \<times> 'w) option" where
  "syncActive env order sched qm w =
     (case collectAvailableCreationQueues order (qe_GetStatus env w) qm of (inputs, meta, qm1) \<Rightarrow>
      let termQueue = qd_TerminationQueue (qm_qcreds qm)
      in case tryPopMessage env qm1 termQueue defaultVisibilityTimeoutSeconds w of (termOut, w1) \<Rightarrow>
         case popAll env qm1 inputs w1 of (outs, w2) \<Rightarrow>
         case bk_Lister (qe_backend env) w2 of
           Inl e \<Rightarrow> Some (Some e, qm1, w2)
         | Inr rs \<Rightarrow>
             let w3 = deleteRedeliveredRejectedMessages env (requestKeys (filter (\<lambda>r. ir_Rejected r \<noteq> []) rs)) (zip inputs outs) w2
             in (case planJobs env (nat (qm_maxQueueMessages qm1)) inputs meta termOut outs (requestKeys rs) of
                   None \<Rightarrow> None
                 | Some (jobs, anyQueuePullError) \<Rightarrow>
                     (case runJobs env termQueue sched (jobs, qm1, w3) of
                        None \<Rightarrow> None
                      | Some (_, qm2, w4) \<Rightarrow> Some (None, SetStatusOK (\<not> anyQueuePullError) qm2, w4))))"

definition SyncQueues ::
    "'w qm_env \<Rightarrow> (CreationQueueInfoSet \<Rightarrow> CreationQueueInfoSet) \<Rightarrow> nat list \<Rightarrow> QueueManager \<Rightarrow> 'w \<Rightarrow> (string option \<times> QueueManager \<times> 'w) option" where
  "SyncQueues env order sched qm w =
     (case qe_RefreshStatus env w of
        (Some e, w1) \<Rightarrow> Some (Some e, qm, w1)
      | (None, w1) \<Rightarrow>
          if qm_paused qm then Some (syncPaused env qm w1)
          else if qm_maintenanceMode qm \<noteq> MaintenanceModeNone then Some (syncMaintenance env qm w1)
          else syncActive env order sched qm w1)"

section \<open>Later operations on a creation message\<close>

definition getCreateQueue :: "QueueManager \<Rightarrow> string \<Rightarrow> MessageQueueInfo" where
  "getCreateQueue qm gpuName =
     (case map_of (qd_CreationQueues (qm_qcreds qm)) gpuName of None \<Rightarrow> \<lparr>mq_GPU = [], mq_QueueURL = []\<rparr> | Some q \<Rightarrow> q)"

definition getCreationQueueInfo :: "(CreationQueueInfoSet \<Rightarrow> CreationQueueInfoSet) \<Rightarrow> QueueManager \<Rightarrow> string \<Rightarrow> MessageQueueInfo" where
  "getCreationQueueInfo order qm queueURL =
     (let creds = qm_qcreds qm
      in case List.find (\<lambda>q. mq_QueueURL q = queueURL)
                (map snd (order (qd_CreationQueues creds) @ order (qd_ClusterCreationQueues creds) @ order (qd_TaskClusterCreationQueues creds))) of
           None \<Rightarrow> \<lparr>mq_GPU = [], mq_QueueURL = []\<rparr>
         | Some q \<Rightarrow> q)"

definition DeleteCreationMessageV2 ::
    "'w qm_env \<Rightarrow> (CreationQueueInfoSet \<Rightarrow> CreationQueueInfoSet) \<Rightarrow> QueueManager \<Rightarrow> string \<Rightarrow> string \<Rightarrow> 'w \<Rightarrow> queue_error option \<times> 'w" where
  "DeleteCreationMessageV2 env order qm rhdl queueURL w = qc_DeleteMessage (qe_client env) (getCreationQueueInfo order qm queueURL) rhdl w"

definition DeleteCreationMessage :: "'w qm_env \<Rightarrow> QueueManager \<Rightarrow> string \<Rightarrow> string \<Rightarrow> 'w \<Rightarrow> queue_error option \<times> 'w" where
  "DeleteCreationMessage env qm gpuName rhdl w = qc_DeleteMessage (qe_client env) (getCreateQueue qm gpuName) rhdl w"

definition ExtendCreationMessableVisibilityTimeout :: "'w qm_env \<Rightarrow> QueueManager \<Rightarrow> string \<Rightarrow> string \<Rightarrow> 'w \<Rightarrow> queue_error option \<times> 'w" where
  "ExtendCreationMessableVisibilityTimeout env qm gpuName rhdl w =
     qc_ChangeMessageVisibility (qe_client env) (getCreateQueue qm gpuName) rhdl creationQueueVisibilityTimeoutSeconds w"

definition ExtendCreationMessableVisibilityTimeoutV2 ::
    "'w qm_env \<Rightarrow> (CreationQueueInfoSet \<Rightarrow> CreationQueueInfoSet) \<Rightarrow> QueueManager \<Rightarrow> string \<Rightarrow> string \<Rightarrow> 'w \<Rightarrow> queue_error option \<times> 'w" where
  "ExtendCreationMessableVisibilityTimeoutV2 env order qm rhdl queueURL w =
     qc_ChangeMessageVisibility (qe_client env) (getCreationQueueInfo order qm queueURL) rhdl creationQueueVisibilityTimeoutSeconds w"

end
