(* ===== verification/IcmsRequests.thy ===== *)
theory IcmsRequests
  imports QueueManager "HOL-Library.AList"
begin

text \<open>
  The life of a recorded request in the cluster agent. \<open>QueueManager\<close> records a message as an \<open>ICMSRequest\<close>; this
  theory has what happens to the object afterwards: it is acknowledged to the control plane and its message deleted
  (\<open>nvca/agent.go\<close>), its instances are terminated, their states are reported and compared with what the control plane
  believes, its status follows the aggregated state of the instances, and it is removed when all of them
  are gone (\<open>nvca/backendk8scache.go\<close>, \<open>nvca/k8scomputebackend.go\<close>).

  The API server, the pods, the control plane (ICMS), the clock and the helpers that create instances,
  parse durations or read pod logs are an environment. Reading an object may let other writers act, so
  it returns the world. The goroutines of a pass over the requests run one after the other. The Go map of instances
  is an association list, its order the order of iteration. Logs, metrics, events and spans are left out; the
  record that a span was started stays, it is written to the object. Addresses, the source of an error and the failure category of a report are left out.
\<close>

section \<open>The objects\<close>

datatype RequestStatus =
    NoRequestStatus
  | ICMSRequestStatusPending
  | ICMSRequestStatusInProgress
  | ICMSRequestStatusCachingInProgress
  | ICMSRequestStatusInstancesInProgress
  | ICMSRequestStatusCompleted
  | ICMSRequestStatusCompletionAcknowledged
  | ICMSRequestStatusFailed
  | ICMSRequestStatusFailureAcknowledged

datatype InstanceType = InstanceTypePod | InstanceTypeNGCJob | InstanceTypeMiniService

abbreviation ICMSInstanceStateNoStatus :: string where "ICMSInstanceStateNoStatus \<equiv> ''''"
abbreviation ICMSInstanceStarted :: string where "ICMSInstanceStarted \<equiv> ''starting''"
abbreviation ICMSInstanceRunning :: string where "ICMSInstanceRunning \<equiv> ''running''"
abbreviation ICMSInstanceShuttingDown :: string where "ICMSInstanceShuttingDown \<equiv> ''shutting-down''"
abbreviation ICMSInstanceTerminated :: string where "ICMSInstanceTerminated \<equiv> ''terminated''"
abbreviation ICMSInstanceFailed :: string where "ICMSInstanceFailed \<equiv> ''failed''"
abbreviation ICMSInstanceKilledNoCapacity :: string where "ICMSInstanceKilledNoCapacity \<equiv> ''instance-terminated-no-capacity''"
abbreviation ICMSInstanceKilledAdmissionError :: string where "ICMSInstanceKilledAdmissionError \<equiv> ''instance-terminated-admission-error''"
abbreviation ICMSInstanceFailedInitContainerStuck :: string where "ICMSInstanceFailedInitContainerStuck \<equiv> ''init-container-stuck''"
abbreviation ICMSInstanceFailedImagePullIssues :: string where "ICMSInstanceFailedImagePullIssues \<equiv> ''image-pull-issues''"
abbreviation ICMSInstanceFailedCreateContainerError :: string where "ICMSInstanceFailedCreateContainerError \<equiv> ''create-container-error''"
abbreviation ICMSInstanceFailedNotFound :: string where "ICMSInstanceFailedNotFound \<equiv> ''instance-not-found''"
abbreviation ICMSInstanceTerminatedPreconditionFailure :: string where
  "ICMSInstanceTerminatedPreconditionFailure \<equiv> ''instance-terminated-precondition-failure''"
abbreviation ICMSInstanceTerminatedTerminalError :: string where
  "ICMSInstanceTerminatedTerminalError \<equiv> ''instance-terminated-terminal-error''"
abbreviation ICMSInstanceDegradedWorker :: string where "ICMSInstanceDegradedWorker \<equiv> ''degraded-worker''"
abbreviation ICMSInstanceTerminatedDuetoSyncAction :: string where
  "ICMSInstanceTerminatedDuetoSyncAction \<equiv> ''instance-terminated-sync-action''"
abbreviation ICMSInstanceTerminatedServiceMaintenance :: string where
  "ICMSInstanceTerminatedServiceMaintenance \<equiv> ''instance-terminated-service-maintenance''"

abbreviation ICMSRequestFulfilled :: string where "ICMSRequestFulfilled \<equiv> ''fulfilled''"
abbreviation ICMSRequestInstanceTerminatedByUser :: string where
  "ICMSRequestInstanceTerminatedByUser \<equiv> ''instance-terminated-by-user''"
abbreviation ICMSRequestInstanceTerminatedByService :: string where
  "ICMSRequestInstanceTerminatedByService \<equiv> ''instance-terminated-by-service''"
abbreviation ICMSInstanceRequestActive :: string where "ICMSInstanceRequestActive \<equiv> ''active''"
abbreviation ICMSInstanceRequestClosed :: string where "ICMSInstanceRequestClosed \<equiv> ''closed''"

abbreviation FunctionCreationAction :: string where "FunctionCreationAction \<equiv> ''RequestICMSInstances''"
abbreviation TaskCreationAction :: string where "TaskCreationAction \<equiv> ''RequestICMSInstancesForTask''"

record InstanceStatus =
  ins_ID :: string
  ins_Type :: InstanceType
  ins_Status :: string
  ins_LastReportedStatus :: string
  ins_LastReportedTimestamp :: "int option"

type_synonym Instances = "(string \<times> InstanceStatus) list"

text \<open>The object with its metadata and status. Times are nanoseconds.\<close>

record AgentRequest = IcmsRequest +
  ar_MessageBatchID :: string
  ar_HelmChart :: bool
  ar_MaxRuntimeDuration :: string
  ar_CreationTimestamp :: "int option"
  ar_Deleting :: bool
  ar_Finalizers :: "string list"
  ar_ResourceVersion :: nat
  ar_RequestStatus :: RequestStatus
  ar_LastStatusUpdated :: "int option"
  ar_LastACKTimestamp :: "int option"
  ar_CacheReferenceName :: string
  ar_Instances :: Instances
  ar_ReconcileErrors :: uint64
  ar_LastReconcileError :: string
  ar_RequestStatusTraceContexts :: "(RequestStatus \<times> int) list"

text \<open>An update for the control plane, and what it believes of an instance.\<close>

record ICMSInstanceStatusUpdateRequest =
  su_Status :: string
  su_InstanceState :: string
  su_RequestState :: string
  su_Action :: string
  su_TerminationCause :: string
  su_SystemFailure :: string
  su_ErrorLog :: string

record ICMSRequestUpdateInfo =
  ui_RequestID :: string
  ui_InstanceID :: string
  ui_Payload :: ICMSInstanceStatusUpdateRequest

record ICMSServerInstanceState =
  ss_InstanceID :: string
  ss_RequestID :: string
  ss_InstanceState :: string

text \<open>
  A pod, as far as the decisions below see it: its phase and what the predicates of \<open>k8sutil\<close> answer
  (scheduled, ready, the reason it is stuck in initialization, degraded, launched longer ago than a bound).
\<close>

datatype PodPhase = PodPending | PodUnknown | PodRunning | PodSucceeded | PodFailed | PodNoPhase

record PodObject =
  po_Phase :: PodPhase
  po_Deleting :: bool
  po_IsPodScheduled :: bool
  po_IsPodReady :: bool
  po_createContainerError :: "string option"
  po_ImagePullIssuesReported :: bool
  po_IsPodAdmissionRejected :: bool
  po_IsPodStuckInitializing :: "string option"
  po_IsPodDegraded :: "string option"
  po_LaunchedLaterThan :: "int \<Rightarrow> bool"

datatype MiniServicePhase =
    MiniServiceNoPhase | MiniServiceCacheInProgress | MiniServiceInstalling | MiniServiceInstalled | MiniServiceStarting
  | MiniServiceRunning | MiniServiceCompleted | MiniServiceInstallFailed | MiniServiceFailed

datatype StoragePhase =
    StorageUnknown | StoragePending | StorageInitRunning | StorageCreating | StorageReady | StorageFailed | StorageRuntimeError

record StorageRequest =
  sq_ModelCache :: bool
  sq_Phase :: StoragePhase

record MiniServiceObject =
  mo_Phase :: MiniServicePhase
  mo_Deleting :: bool
  mo_Storage :: "string + StorageRequest list"

record TimeConfig =
  tc_MaxImagePullErrorThreshold :: int
  tc_PodLaunchThresholdMinutesOnInitFailure :: int
  tc_PodScheduledThreshold :: int
  tc_MaxRunningTimeout :: int

datatype SyncError = SyncTerminal string | SyncFinalizerRetained | SyncFailed string

text \<open>An error of the control plane is its HTTP status, 0 where there is none.\<close>

record 'w agent_env =
  ae_queue :: "'w qm_env"
  ae_queueOrder :: "CreationQueueInfoSet \<Rightarrow> CreationQueueInfoSet"
  ae_Lister :: "'w \<Rightarrow> string + AgentRequest list"
  ae_Get :: "string \<Rightarrow> 'w \<Rightarrow> (api_error + AgentRequest) \<times> 'w"
  ae_UpdateStatus :: "AgentRequest \<Rightarrow> 'w \<Rightarrow> api_error option \<times> 'w"
  ae_Update :: "AgentRequest \<Rightarrow> 'w \<Rightarrow> api_error option \<times> 'w"
  ae_Delete :: "string \<Rightarrow> 'w \<Rightarrow> api_error option \<times> 'w"
  ae_PodGet :: "string \<Rightarrow> 'w \<Rightarrow> api_error + PodObject"
  ae_PodLister :: "string \<Rightarrow> 'w \<Rightarrow> api_error + PodObject"
  ae_PodDelete :: "string \<Rightarrow> 'w \<Rightarrow> api_error option \<times> 'w"
  ae_MiniGet :: "string \<Rightarrow> 'w \<Rightarrow> api_error + MiniServiceObject"
  ae_MiniDelete :: "string \<Rightarrow> 'w \<Rightarrow> api_error option \<times> 'w"
  ae_PutRequestAcknowledgement :: "string \<Rightarrow> string \<Rightarrow> uint64 \<Rightarrow> 'w \<Rightarrow> nat option \<times> 'w"
  ae_PostInstanceStatusUpdate :: "string \<Rightarrow> string \<Rightarrow> ICMSInstanceStatusUpdateRequest \<Rightarrow> 'w \<Rightarrow> nat option \<times> 'w"
  ae_GetICMSServerInstanceStatuses :: "'w \<Rightarrow> (string + ICMSServerInstanceState list) \<times> 'w"
  ae_CleanupModelCachingSetupArtifacts :: "AgentRequest \<Rightarrow> 'w \<Rightarrow> 'w"
  ae_ApplyCreationMessage :: "AgentRequest \<Rightarrow> 'w \<Rightarrow> SyncError option \<times> 'w"
  ae_RetryFailedModelCacheCleanup :: "AgentRequest \<Rightarrow> 'w \<Rightarrow> (string \<times> bool) option \<times> 'w"
  ae_podLogs :: "string \<Rightarrow> string \<Rightarrow> 'w \<Rightarrow> string"
  ae_taskPurge :: "AgentRequest \<Rightarrow> PodObject \<Rightarrow> string \<Rightarrow> 'w \<Rightarrow> string + bool"
  ae_miniServiceUpdate :: "AgentRequest \<Rightarrow> InstanceStatus \<Rightarrow> 'w \<Rightarrow> (string + ICMSRequestUpdateInfo option) \<times> 'w"
  ae_schedulingTimeout :: "AgentRequest \<Rightarrow> int"
  ae_ParseMaxRuntimeDuration :: "string \<Rightarrow> int option"
  ae_now :: "'w \<Rightarrow> int"
  ae_TimeConfig :: TimeConfig
  ae_ClusterTargetingEnabled :: bool
  ae_ClusterID :: string
  ae_ICMSRequestACKInterval :: int
  ae_ICMSRequestAckRetryTimeout :: int
  ae_enablePeriodicInstanceStatusUpdate :: bool
  ae_periodicInstanceStatusUpdateInterval :: int
  ae_autoPurgeDegradedWorkers :: bool

definition ackTaskAfterScheduled :: "'w agent_env \<Rightarrow> bool" where
  "ackTaskAfterScheduled env = bk_Flag (qe_backend (ae_queue env)) ''AckTaskRequestAfterPodsScheduled''"

definition instanceCount :: "AgentRequest \<Rightarrow> uint64" where
  "instanceCount req = (case ir_Meta req of None \<Rightarrow> 0 | Some m \<Rightarrow> mm_InstanceCount m)"

definition gpuName :: "AgentRequest \<Rightarrow> string" where
  "gpuName req = (case ir_Meta req of None \<Rightarrow> [] | Some m \<Rightarrow> mm_GPUType m)"

definition rejectionReason :: "AgentRequest \<Rightarrow> string" where
  "rejectionReason req = GetCreationRejectionReason (Some (IcmsRequest.truncate req))"

section \<open>Actions\<close>

definition lower :: "char \<Rightarrow> char" where
  "lower c = (let n = (of_char c :: nat) in if 65 \<le> n \<and> n \<le> 90 then char_of (n + 32) else c)"

text \<open>\<open>strings.EqualFold\<close> on ASCII texts, and the first index of a substring.\<close>

definition EqualFold :: "string \<Rightarrow> string \<Rightarrow> bool" where
  "EqualFold s t \<longleftrightarrow> map lower s = map lower t"

fun IndexOf :: "string \<Rightarrow> string \<Rightarrow> nat option" where
  "IndexOf [] sub = (if sub = [] then Some 0 else None)"
| "IndexOf (c # s) sub = (if HasPrefix (c # s) sub then Some 0 else map_option Suc (IndexOf s sub))"

definition Normalize :: "string \<Rightarrow> string" where
  "Normalize a =
     (if a = ''RequestInstances'' then FunctionCreationAction
      else if a = ''RequestInstancesForTask'' then TaskCreationAction
      else if 20 \<le> length a \<and> HasPrefix a ''Request'' \<and> a ! 7 = CHR ''S'' \<and> a ! 8 = CHR ''p'' \<and> IndexOf a ''Instances'' = Some 11
      then (if HasSuffix a ''ForTask'' then TaskCreationAction else FunctionCreationAction)
      else a)"

definition toLegacyAction :: "string \<Rightarrow> string" where
  "toLegacyAction action =
     (if Normalize action = FunctionCreationAction then ''RequestSpotInstances''
      else if Normalize action = TaskCreationAction then ''RequestSpotInstancesForTask''
      else action)"

definition isTaskRequest :: "AgentRequest \<Rightarrow> bool" where
  "isTaskRequest req \<longleftrightarrow> ir_Action req = TaskCreationAction"

section \<open>Writing the status\<close>

text \<open>\<open>retry.RetryOnConflict\<close> with the number of steps of its backoff; \<open>lastErr\<close> is the last conflict.\<close>

fun RetryOnConflict :: "nat \<Rightarrow> api_error option \<Rightarrow> ('s \<Rightarrow> api_error option \<times> 's) \<Rightarrow> 's \<Rightarrow> api_error option \<times> 's" where
  "RetryOnConflict 0 lastErr fn s = (lastErr, s)"
| "RetryOnConflict (Suc n) lastErr fn s =
     (case fn s of
        (None, s1) \<Rightarrow> (None, s1)
      | (Some e, s1) \<Rightarrow> if e = Conflict then RetryOnConflict n (Some e) fn s1 else (Some e, s1))"

definition DefaultRetry :: nat where "DefaultRetry = 5"

type_synonym modification = "int \<Rightarrow> AgentRequest \<Rightarrow> AgentRequest"

definition updateLatest :: "'w agent_env \<Rightarrow> string \<Rightarrow> modification \<Rightarrow> RequestStatus \<times> 'w \<Rightarrow> api_error option \<times> RequestStatus \<times> 'w" where
  "updateLatest env name modify = (\<lambda>(nrs, w).
     case ae_Get env name w of
       (Inl e, w1) \<Rightarrow> (Some e, nrs, w1)
     | (Inr srLat, w1) \<Rightarrow>
         let sr = modify (ae_now env w1) srLat;
             (e, w2) = ae_UpdateStatus env (sr\<lparr>ar_LastStatusUpdated := Some (ae_now env w1)\<rparr>) w1
         in (e, ar_RequestStatus sr, w2))"

definition recordSpan :: "'w agent_env \<Rightarrow> string \<Rightarrow> RequestStatus \<Rightarrow> int \<Rightarrow> 'w \<Rightarrow> api_error option \<times> 'w" where
  "recordSpan env name newReqStatus start w =
     (case ae_Get env name w of
        (Inl e, w1) \<Rightarrow> (Some e, w1)
      | (Inr r, w1) \<Rightarrow>
          ae_UpdateStatus env
            (r\<lparr>ar_RequestStatusTraceContexts := AList.update newReqStatus start (ar_RequestStatusTraceContexts r)\<rparr>) w1)"

definition reconcileSpanRequestStatus :: "'w agent_env \<Rightarrow> RequestStatus \<Rightarrow> RequestStatus \<Rightarrow> AgentRequest \<Rightarrow> 'w \<Rightarrow> bool \<times> 'w" where
  "reconcileSpanRequestStatus env prevReqStatus newReqStatus sr w =
     (if prevReqStatus = newReqStatus then (True, w)
      else let (e, w1) = RetryOnConflict DefaultRetry None (recordSpan env (ir_Name sr) newReqStatus (ae_now env w)) w
           in (e = None, w1))"

definition applyICMSRequestStatusChange :: "'w agent_env \<Rightarrow> AgentRequest \<Rightarrow> modification \<Rightarrow> 'w \<Rightarrow> bool \<times> 'w" where
  "applyICMSRequestStatusChange env sr modify w =
     (case RetryOnConflict DefaultRetry None (updateLatest env (ir_Name sr) modify) (NoRequestStatus, w) of
        (Some e, _, w1) \<Rightarrow> (False, w1)
      | (None, newReqStatus, w1) \<Rightarrow> reconcileSpanRequestStatus env (ar_RequestStatus sr) newReqStatus sr w1)"

section \<open>Instances\<close>

definition podInstanceExists :: "'w agent_env \<Rightarrow> string \<Rightarrow> 'w \<Rightarrow> bool" where
  "podInstanceExists env i w \<longleftrightarrow> (case ae_PodLister env i w of Inl e \<Rightarrow> e \<noteq> NotFound | Inr _ \<Rightarrow> True)"

definition miniServiceInstanceExists :: "'w agent_env \<Rightarrow> string \<Rightarrow> 'w \<Rightarrow> bool" where
  "miniServiceInstanceExists env i w \<longleftrightarrow> (case ae_MiniGet env i w of Inl e \<Rightarrow> e \<noteq> NotFound | Inr _ \<Rightarrow> True)"

definition instanceObjectExists :: "'w agent_env \<Rightarrow> InstanceStatus \<Rightarrow> 'w \<Rightarrow> bool" where
  "instanceObjectExists env inst w =
     (case ins_Type inst of
        InstanceTypePod \<Rightarrow> podInstanceExists env (ins_ID inst) w
      | InstanceTypeMiniService \<Rightarrow> miniServiceInstanceExists env (ins_ID inst) w
      | InstanceTypeNGCJob \<Rightarrow> False)"

definition isMiniServiceInstance :: "string \<Rightarrow> bool" where
  "isMiniServiceInstance name = HasSuffix name ''-miniservice''"

definition newInstance :: "string \<Rightarrow> InstanceType \<Rightarrow> string \<Rightarrow> InstanceStatus" where
  "newInstance i t st =
     \<lparr>ins_ID = i, ins_Type = t, ins_Status = st, ins_LastReportedStatus = ICMSInstanceStateNoStatus, ins_LastReportedTimestamp = None\<rparr>"

definition purgeMiniService :: "'w agent_env \<Rightarrow> Instances \<Rightarrow> string \<Rightarrow> 'w \<Rightarrow> bool \<times> Instances \<times> 'w" where
  "purgeMiniService env terminatedInstances i w =
     (let confirm = (\<lambda>w'. if miniServiceInstanceExists env i w' then (False, terminatedInstances, w')
                      else (True, if i \<in> fst ` set terminatedInstances then terminatedInstances
                                  else terminatedInstances @ [(i, newInstance i InstanceTypeMiniService ICMSInstanceTerminated)], w'))
      in case ae_MiniGet env i w of
           Inl e \<Rightarrow> if e = NotFound then confirm w else (False, terminatedInstances, w)
         | Inr ms \<Rightarrow>
             if mo_Deleting ms then confirm w
             else (case ae_MiniDelete env i w of
                     (Some e, w1) \<Rightarrow> if e = NotFound then confirm w1 else (False, terminatedInstances, w1)
                   | (None, w1) \<Rightarrow> confirm w1))"

definition purgePod :: "'w agent_env \<Rightarrow> Instances \<Rightarrow> string \<Rightarrow> 'w \<Rightarrow> bool \<times> Instances \<times> 'w" where
  "purgePod env terminatedInstances i w =
     (let gone = (\<lambda>w'. if i \<in> fst ` set terminatedInstances then (False, terminatedInstances, w')
                   else (True, terminatedInstances @ [(i, newInstance i InstanceTypePod ICMSInstanceTerminated)], w'))
      in case ae_PodDelete env i w of
           (Some e, w1) \<Rightarrow> if e = NotFound then gone w1 else (False, terminatedInstances, w1)
         | (None, w1) \<Rightarrow> if podInstanceExists env i w1 then (False, terminatedInstances, w1) else gone w1)"

definition purgeInstanceID :: "'w agent_env \<Rightarrow> Instances \<Rightarrow> string \<Rightarrow> 'w \<Rightarrow> bool \<times> Instances \<times> 'w" where
  "purgeInstanceID env terminatedInstances i w =
     (if isMiniServiceInstance i then purgeMiniService env terminatedInstances i w else purgePod env terminatedInstances i w)"

fun purgeEach :: "'w agent_env \<Rightarrow> string list \<Rightarrow> Instances \<Rightarrow> 'w \<Rightarrow> string list \<times> Instances \<times> 'w" where
  "purgeEach env [] terminatedInstances w = ([], terminatedInstances, w)"
| "purgeEach env (i # is) terminatedInstances w =
     (let (ok, ti, w1) = purgeInstanceID env terminatedInstances i w;
          (purged, ti', w2) = purgeEach env is ti w1
      in (if ok then i # purged else purged, ti', w2))"

definition HandleInstanceStatusPreconditionFailure :: "'w agent_env \<Rightarrow> AgentRequest \<Rightarrow> string \<Rightarrow> 'w \<Rightarrow> bool \<times> 'w" where
  "HandleInstanceStatusPreconditionFailure env req instID w =
     (let (ok, ti, w1) = purgeInstanceID env (ar_Instances req) instID w
      in if ok then applyICMSRequestStatusChange env req (\<lambda>_ sr. sr\<lparr>ar_Instances := ti\<rparr>) w1 else (True, w1))"

definition ApplyTerminationMessage :: "'w agent_env \<Rightarrow> AgentRequest \<Rightarrow> 'w \<Rightarrow> string option \<times> 'w" where
  "ApplyTerminationMessage env req w =
     (let instanceIDs = ir_InstanceIds req
      in if \<forall>i \<in> set instanceIDs. i \<in> fst ` set (ar_Instances req)
         then let (ok, w1) = applyICMSRequestStatusChange env req
                    (\<lambda>now sr. sr\<lparr>ar_RequestStatus := ICMSRequestStatusCompleted, ar_LastStatusUpdated := Some now\<rparr>) w
              in (if ok then None else Some ''failed to update status'', w1)
         else let (purged, ti, w1) = purgeEach env instanceIDs (ar_Instances req) w;
                  now = ae_now env w1;
                  (ok, w2) = applyICMSRequestStatusChange env (req\<lparr>ar_RequestStatus := ICMSRequestStatusInProgress\<rparr>)
                    (\<lambda>_ sr. sr\<lparr>ar_RequestStatus := ICMSRequestStatusInProgress, ar_LastStatusUpdated := Some now, ar_Instances := ti\<rparr>) w1
              in (if length ti \<noteq> length instanceIDs then Some ''terminated only some of the requested instances'' else None, w2))"

definition FailedRequestCleanupWindow :: int where "FailedRequestCleanupWindow = 3600000000000"

definition AllInstancesTerminatedAndReported :: "'w agent_env \<Rightarrow> AgentRequest \<Rightarrow> 'w \<Rightarrow> bool" where
  "AllInstancesTerminatedAndReported env req w =
     (if ar_Instances req = []
      then ar_RequestStatus req = ICMSRequestStatusFailureAcknowledged \<or>
           (ar_RequestStatus req = ICMSRequestStatusPending \<and>
            (case ar_LastStatusUpdated req of None \<Rightarrow> False | Some t \<Rightarrow> ae_now env w - t > FailedRequestCleanupWindow))
      else \<forall>(i, inst) \<in> set (ar_Instances req).
             \<not> instanceObjectExists env inst w \<and> ins_LastReportedStatus inst = ICMSInstanceTerminated)"

section \<open>What is reported of an instance\<close>

definition shouldReportInstanceStatusHeartbeat ::
    "'w agent_env \<Rightarrow> AgentRequest \<Rightarrow> string \<Rightarrow> string \<Rightarrow> int option \<Rightarrow> 'w \<Rightarrow> bool" where
  "shouldReportInstanceStatusHeartbeat env req currentStatus lastReportedStatus lastReportedTimestamp w =
     (case lastReportedTimestamp of
        None \<Rightarrow> True
      | Some t \<Rightarrow>
          if \<not> EqualFold currentStatus lastReportedStatus then True
          else if \<not> ae_enablePeriodicInstanceStatusUpdate env then False
          else if AllInstancesTerminatedAndReported env req w then False
          else ae_now env w - t \<ge> ae_periodicInstanceStatusUpdateInterval env)"

definition reportDue :: "'w agent_env \<Rightarrow> AgentRequest \<Rightarrow> InstanceStatus \<Rightarrow> string \<Rightarrow> 'w \<Rightarrow> bool" where
  "reportDue env req st currentStatus w =
     shouldReportInstanceStatusHeartbeat env req currentStatus (ins_LastReportedStatus st) (ins_LastReportedTimestamp st) w"

definition podPhaseToInstanceState :: "PodObject \<Rightarrow> TimeConfig \<Rightarrow> string \<times> string" where
  "podPhaseToInstanceState pod tc =
     (case po_Phase pod of
        PodRunning \<Rightarrow>
          if po_IsPodReady pod then (ICMSInstanceRunning, [])
          else (case po_createContainerError pod of
                  Some msg \<Rightarrow> (ICMSInstanceFailedCreateContainerError, msg)
                | None \<Rightarrow>
                    (case po_IsPodStuckInitializing pod of
                       Some reason \<Rightarrow> (reason, [])
                     | None \<Rightarrow>
                         (case po_IsPodDegraded pod of
                            Some reason \<Rightarrow> (ICMSInstanceDegradedWorker, reason)
                          | None \<Rightarrow> (ICMSInstanceStarted, []))))
      | PodSucceeded \<Rightarrow> (ICMSInstanceRunning, [])
      | PodFailed \<Rightarrow> (if po_IsPodAdmissionRejected pod then ICMSInstanceKilledAdmissionError else ICMSInstanceFailed, [])
      | PodNoPhase \<Rightarrow> (ICMSInstanceStarted, [])
      | _ \<Rightarrow>
          if po_IsPodScheduled pod
          then (case po_createContainerError pod of
                  Some msg \<Rightarrow> (ICMSInstanceFailedCreateContainerError, msg)
                | None \<Rightarrow>
                    if po_LaunchedLaterThan pod (tc_MaxImagePullErrorThreshold tc) \<and> po_ImagePullIssuesReported pod
                    then (ICMSInstanceFailedImagePullIssues, [])
                    else (case po_IsPodStuckInitializing pod of
                            Some reason \<Rightarrow> (reason, [])
                          | None \<Rightarrow>
                              if po_LaunchedLaterThan pod (tc_PodLaunchThresholdMinutesOnInitFailure tc)
                              then (ICMSInstanceFailedInitContainerStuck, []) else (ICMSInstanceStarted, [])))
          else if po_LaunchedLaterThan pod (tc_PodScheduledThreshold tc) then (ICMSInstanceKilledNoCapacity, [])
          else (ICMSInstanceStarted, []))"

definition badICMSInstanceStates :: "string list" where
  "badICMSInstanceStates =
     [ICMSInstanceFailed, ICMSInstanceKilledNoCapacity, ICMSInstanceKilledAdmissionError, ICMSInstanceFailedInitContainerStuck,
      ''container-restart-loop'', ''init-container-restart-loop'', ICMSInstanceFailedImagePullIssues,
      ICMSInstanceFailedCreateContainerError, ICMSInstanceDegradedWorker]"

definition reqStatusToState :: "RequestStatus \<Rightarrow> string" where
  "reqStatusToState s = (if s = ICMSRequestStatusFailed then ICMSInstanceRequestClosed else ICMSInstanceRequestActive)"

definition isStartupArgsMalformed :: "string \<Rightarrow> bool" where
  "isStartupArgsMalformed e \<longleftrightarrow> IndexOf e ''EOF found when expecting closing quote'' \<noteq> None"

definition terminatedUpdate :: "string \<Rightarrow> string \<Rightarrow> string \<Rightarrow> ICMSInstanceStatusUpdateRequest" where
  "terminatedUpdate cause failure errorLog =
     \<lparr>su_Status = ICMSRequestInstanceTerminatedByService, su_InstanceState = ICMSInstanceTerminated,
      su_RequestState = ICMSInstanceRequestClosed, su_Action = TerminationAction, su_TerminationCause = cause,
      su_SystemFailure = failure, su_ErrorLog = errorLog\<rparr>"

definition updateFor :: "AgentRequest \<Rightarrow> string \<Rightarrow> ICMSInstanceStatusUpdateRequest \<Rightarrow> ICMSRequestUpdateInfo" where
  "updateFor req i p = \<lparr>ui_RequestID = ir_RequestID req, ui_InstanceID = i, ui_Payload = p\<rparr>"

text \<open>Whether a pod is to be removed: a bad state of a function, a runtime limit of a task. \<open>Inl\<close> where the limits do not parse.\<close>

definition needsPurge :: "'w agent_env \<Rightarrow> AgentRequest \<Rightarrow> PodObject \<Rightarrow> string \<Rightarrow> 'w \<Rightarrow> string + bool" where
  "needsPurge env req pod is w =
     (if isTaskRequest req then ae_taskPurge env req pod is w
      else Inr (is \<in> set badICMSInstanceStates \<and> \<not> (is = ICMSInstanceDegradedWorker \<and> \<not> ae_autoPurgeDegradedWorkers env)))"

definition GetICMSRequestUpdatesForCreatePodRequest ::
    "'w agent_env \<Rightarrow> InstanceStatus \<Rightarrow> AgentRequest \<Rightarrow> 'w \<Rightarrow> (string + ICMSRequestUpdateInfo option) \<times> 'w" where
  "GetICMSRequestUpdatesForCreatePodRequest env st req w =
     (let i = ins_ID st
      in case ae_PodGet env i w of
           Inl e \<Rightarrow>
             if e \<noteq> NotFound then (Inl ''failed to get pod'', w)
             else if reportDue env req st ICMSInstanceTerminated w
             then (Inr (Some (updateFor req i
                     (if isStartupArgsMalformed (ar_LastReconcileError req)
                      then terminatedUpdate ICMSInstanceTerminatedTerminalError ICMSInstanceTerminatedTerminalError
                             (''Container arguments are malformed: '' @ ''EOF found when expecting closing quote'')
                      else terminatedUpdate ICMSInstanceFailedNotFound ICMSInstanceFailedNotFound []))), w)
             else (Inr None, w)
         | Inr pod \<Rightarrow>
             if po_Deleting pod then (Inr None, w)
             else let (is, dReason) = podPhaseToInstanceState pod (ae_TimeConfig env)
                  in case needsPurge env req pod is w of
                       Inl e \<Rightarrow> (Inl e, w)
                     | Inr purge \<Rightarrow>
                         let w1 = (if purge then snd (ae_PodDelete env i w) else w);
                             is' = (if purge then ICMSInstanceTerminated else is)
                         in if reportDue env req st is' w1
                            then (Inr (Some (updateFor req i
                                    (if purge then terminatedUpdate is is (ae_podLogs env i dReason w)
                                     else \<lparr>su_Status = ICMSRequestFulfilled, su_InstanceState = is,
                                           su_RequestState = reqStatusToState (ar_RequestStatus req),
                                           su_Action = toLegacyAction (ir_Action req), su_TerminationCause = ICMSInstanceStateNoStatus,
                                           su_SystemFailure = [], su_ErrorLog = []\<rparr>))), w1)
                            else (Inr None, w1))"

fun createRequestUpdates ::
    "'w agent_env \<Rightarrow> AgentRequest \<Rightarrow> Instances \<Rightarrow> 'w \<Rightarrow> ICMSRequestUpdateInfo list \<times> 'w" where
  "createRequestUpdates env req [] w = ([], w)"
| "createRequestUpdates env req ((i, st) # insts) w =
     (let (u, w1) = (case ins_Type st of
                       InstanceTypePod \<Rightarrow> GetICMSRequestUpdatesForCreatePodRequest env st req w
                     | InstanceTypeMiniService \<Rightarrow> ae_miniServiceUpdate env req st w
                     | InstanceTypeNGCJob \<Rightarrow> (Inr None, w));
          (us, w2) = createRequestUpdates env req insts w1
      in (case u of Inr (Some x) \<Rightarrow> x # us | _ \<Rightarrow> us, w2))"

definition getICMSRequestUpdatesForRejectedCreateRequest :: "'w agent_env \<Rightarrow> AgentRequest \<Rightarrow> string \<Rightarrow> 'w \<Rightarrow> ICMSRequestUpdateInfo list" where
  "getICMSRequestUpdatesForRejectedCreateRequest env req reason w =
     map (\<lambda>(i, st). updateFor req (ins_ID st) (terminatedUpdate ICMSInstanceTerminatedTerminalError ICMSInstanceTerminatedTerminalError reason))
       (filter (\<lambda>(i, st). reportDue env req st ICMSInstanceTerminated w) (ar_Instances req))"

definition GetICMSRequestUpdatesForCreateRequest :: "'w agent_env \<Rightarrow> AgentRequest \<Rightarrow> 'w \<Rightarrow> ICMSRequestUpdateInfo list \<times> 'w" where
  "GetICMSRequestUpdatesForCreateRequest env req w =
     (if rejectionReason req \<noteq> [] then (getICMSRequestUpdatesForRejectedCreateRequest env req (rejectionReason req) w, w)
      else createRequestUpdates env req (ar_Instances req) w)"

definition GetICMSRequestUpdatesForTerminationRequest :: "AgentRequest \<Rightarrow> ICMSRequestUpdateInfo list" where
  "GetICMSRequestUpdatesForTerminationRequest req =
     (let maint = HasPrefix (ir_MessageID req) ''evict-maint-''
      in map (\<lambda>(i, st). updateFor req i
           \<lparr>su_Status = (if maint then ICMSRequestInstanceTerminatedByService else ICMSRequestInstanceTerminatedByUser),
            su_InstanceState = ICMSInstanceTerminated, su_RequestState = ICMSInstanceRequestClosed,
            su_Action = toLegacyAction (ir_Action req),
            su_TerminationCause = (if maint then ICMSInstanceTerminatedServiceMaintenance else ICMSInstanceStateNoStatus),
            su_SystemFailure = (if maint then ICMSInstanceTerminatedServiceMaintenance else []), su_ErrorLog = []\<rparr>)
         (filter (\<lambda>(i, st). \<not> EqualFold ICMSInstanceTerminated (ins_LastReportedStatus st)) (ar_Instances req)))"

definition GetICMSRequestStatusUpdatesForRequest :: "'w agent_env \<Rightarrow> AgentRequest \<Rightarrow> 'w \<Rightarrow> ICMSRequestUpdateInfo list \<times> 'w" where
  "GetICMSRequestStatusUpdatesForRequest env req w =
     (if ir_Action req = FunctionCreationAction \<or> ir_Action req = TaskCreationAction
      then GetICMSRequestUpdatesForCreateRequest env req w
      else if ir_Action req = TerminationAction then (GetICMSRequestUpdatesForTerminationRequest req, w)
      else ([], w))"

section \<open>The status of a request\<close>

datatype AggregatedInstanceStatus =
    AggregatedInstanceStatusUnknown | AggregatedInstanceStatusModelCachingInProgress | AggregatedInstanceStatusScheduling
  | AggregatedInstanceStatusPending | AggregatedInstanceStatusSucceeded | AggregatedInstanceStatusFailed

definition podPhaseToAggregatedInstanceStatus :: "PodObject \<Rightarrow> TimeConfig \<Rightarrow> int \<Rightarrow> AggregatedInstanceStatus" where
  "podPhaseToAggregatedInstanceStatus p tc schedulingTimeout =
     (case po_Phase p of
        PodRunning \<Rightarrow>
          if po_IsPodReady p then AggregatedInstanceStatusSucceeded
          else if po_IsPodStuckInitializing p \<noteq> None \<or> po_IsPodDegraded p \<noteq> None then AggregatedInstanceStatusFailed
          else AggregatedInstanceStatusPending
      | PodSucceeded \<Rightarrow> AggregatedInstanceStatusSucceeded
      | PodFailed \<Rightarrow> if po_IsPodAdmissionRejected p then AggregatedInstanceStatusFailed else AggregatedInstanceStatusSucceeded
      | _ \<Rightarrow>
          if po_IsPodScheduled p
          then (if po_LaunchedLaterThan p (tc_MaxImagePullErrorThreshold tc) \<and> po_ImagePullIssuesReported p \<or>
                   po_IsPodStuckInitializing p \<noteq> None \<or>
                   po_LaunchedLaterThan p (tc_PodLaunchThresholdMinutesOnInitFailure tc)
                then AggregatedInstanceStatusFailed else AggregatedInstanceStatusPending)
          else if po_LaunchedLaterThan p schedulingTimeout then AggregatedInstanceStatusFailed
          else AggregatedInstanceStatusScheduling)"

definition AggregatePodInstanceStatus :: "'w agent_env \<Rightarrow> AgentRequest \<Rightarrow> string \<Rightarrow> 'w \<Rightarrow> AggregatedInstanceStatus" where
  "AggregatePodInstanceStatus env req instanceID w =
     (case ae_PodLister env instanceID w of
        Inl e \<Rightarrow> AggregatedInstanceStatusUnknown
      | Inr p \<Rightarrow> podPhaseToAggregatedInstanceStatus p (ae_TimeConfig env) (ae_schedulingTimeout env req))"

text \<open>The storage of a mini service: the first failure of a mandatory request decides; a failed model cache counts as ready.\<close>

fun storageFailed :: "StorageRequest \<Rightarrow> bool" where
  "storageFailed r = (\<not> sq_ModelCache r \<and> sq_Phase r \<in> {StorageFailed, StorageRuntimeError})"

fun storagePending :: "StorageRequest \<Rightarrow> bool" where
  "storagePending r = (sq_Phase r \<notin> {StorageReady, StorageFailed, StorageRuntimeError})"

definition getStorageRequestsAggregatedInstanceStatus :: "string + StorageRequest list \<Rightarrow> AggregatedInstanceStatus" where
  "getStorageRequestsAggregatedInstanceStatus lister =
     (case lister of
        Inl e \<Rightarrow> AggregatedInstanceStatusUnknown
      | Inr rs \<Rightarrow>
          if list_ex storageFailed rs then AggregatedInstanceStatusFailed
          else if list_ex storagePending rs then AggregatedInstanceStatusPending
          else AggregatedInstanceStatusSucceeded)"

definition miniServicePhaseStatus :: "MiniServicePhase \<Rightarrow> AggregatedInstanceStatus" where
  "miniServicePhaseStatus ph =
     (case ph of
        MiniServiceNoPhase \<Rightarrow> AggregatedInstanceStatusUnknown
      | MiniServiceCacheInProgress \<Rightarrow> AggregatedInstanceStatusModelCachingInProgress
      | MiniServiceInstalling \<Rightarrow> AggregatedInstanceStatusScheduling
      | MiniServiceInstalled \<Rightarrow> AggregatedInstanceStatusScheduling
      | MiniServiceStarting \<Rightarrow> AggregatedInstanceStatusPending
      | MiniServiceRunning \<Rightarrow> AggregatedInstanceStatusSucceeded
      | MiniServiceCompleted \<Rightarrow> AggregatedInstanceStatusSucceeded
      | MiniServiceInstallFailed \<Rightarrow> AggregatedInstanceStatusFailed
      | MiniServiceFailed \<Rightarrow> AggregatedInstanceStatusFailed)"

definition instanceAggregates :: "'w agent_env \<Rightarrow> AgentRequest \<Rightarrow> string \<times> InstanceStatus \<Rightarrow> 'w \<Rightarrow> AggregatedInstanceStatus list" where
  "instanceAggregates env req x w =
     (case ins_Type (snd x) of
        InstanceTypePod \<Rightarrow> [AggregatePodInstanceStatus env req (fst x) w]
      | InstanceTypeMiniService \<Rightarrow>
          (case ae_MiniGet env (fst x) w of
             Inl e \<Rightarrow> [AggregatedInstanceStatusUnknown]
           | Inr ms \<Rightarrow> [miniServicePhaseStatus (mo_Phase ms), getStorageRequestsAggregatedInstanceStatus (mo_Storage ms)])
      | InstanceTypeNGCJob \<Rightarrow> [])"

definition AggregateInstanceStatuses :: "'w agent_env \<Rightarrow> AgentRequest \<Rightarrow> 'w \<Rightarrow> AggregatedInstanceStatus" where
  "AggregateInstanceStatuses env req w =
     (let sts = concat (map (\<lambda>x. instanceAggregates env req x w) (ar_Instances req))
      in if AggregatedInstanceStatusFailed \<in> set sts then AggregatedInstanceStatusFailed
         else if AggregatedInstanceStatusModelCachingInProgress \<in> set sts then AggregatedInstanceStatusModelCachingInProgress
         else if AggregatedInstanceStatusUnknown \<in> set sts then AggregatedInstanceStatusUnknown
         else if AggregatedInstanceStatusScheduling \<in> set sts then AggregatedInstanceStatusScheduling
         else if AggregatedInstanceStatusPending \<in> set sts then AggregatedInstanceStatusPending
         else AggregatedInstanceStatusSucceeded)"

definition pendingStatus :: "'w agent_env \<Rightarrow> AgentRequest \<Rightarrow> 'w \<Rightarrow> RequestStatus" where
  "pendingStatus env req w =
     (case ar_CreationTimestamp req of
        None \<Rightarrow> ICMSRequestStatusInstancesInProgress
      | Some t \<Rightarrow>
          if ar_RequestStatus req \<noteq> ICMSRequestStatusCachingInProgress \<and> ae_now env w - t \<ge> tc_MaxRunningTimeout (ae_TimeConfig env)
          then ICMSRequestStatusFailed else ICMSRequestStatusInstancesInProgress)"

definition aggregatedRequestStatus :: "'w agent_env \<Rightarrow> AgentRequest \<Rightarrow> 'w \<Rightarrow> RequestStatus option" where
  "aggregatedRequestStatus env req w =
     (case AggregateInstanceStatuses env req w of
        AggregatedInstanceStatusSucceeded \<Rightarrow> Some ICMSRequestStatusCompleted
      | AggregatedInstanceStatusFailed \<Rightarrow> Some ICMSRequestStatusFailed
      | AggregatedInstanceStatusModelCachingInProgress \<Rightarrow> None
      | AggregatedInstanceStatusScheduling \<Rightarrow> if ackTaskAfterScheduled env then None else Some (pendingStatus env req w)
      | AggregatedInstanceStatusPending \<Rightarrow> Some (pendingStatus env req w)
      | AggregatedInstanceStatusUnknown \<Rightarrow> None)"

definition ApplyICMSRequestStatusChange :: "'w agent_env \<Rightarrow> AgentRequest \<Rightarrow> 'w \<Rightarrow> string option \<times> 'w" where
  "ApplyICMSRequestStatusChange env req w =
     (case aggregatedRequestStatus env req w of
        None \<Rightarrow> (None, w)
      | Some s \<Rightarrow>
          let now = ae_now env w;
              (ok, w1) = applyICMSRequestStatusChange env req (\<lambda>_ sr. sr\<lparr>ar_RequestStatus := s, ar_LastStatusUpdated := Some now\<rparr>) w
          in (if ok then None else Some ''error updating ICMS request status'', w1))"

section \<open>Synchronizing a request\<close>

definition CleanupCreationRequestResources :: "'w agent_env \<Rightarrow> AgentRequest \<Rightarrow> 'w \<Rightarrow> SyncError option \<times> 'w" where
  "CleanupCreationRequestResources env req w =
     (if ar_CacheReferenceName req = [] \<and> AllInstancesTerminatedAndReported env req w
      then (case ae_Delete env (ir_Name req) w of
              (None, w1) \<Rightarrow> (None, w1)
            | (Some e, w1) \<Rightarrow> (if e = NotFound then None else Some (SyncFailed ''failed to delete request''), w1))
      else (None, w))"

text \<open>The flag tells that the request was old enough for a cleanup.\<close>

definition cleanupOldICMSRequest :: "'w agent_env \<Rightarrow> AgentRequest \<Rightarrow> 'w \<Rightarrow> (SyncError option \<times> bool) \<times> 'w" where
  "cleanupOldICMSRequest env req w =
     (case ar_LastStatusUpdated req of
        None \<Rightarrow> ((None, False), w)
      | Some t \<Rightarrow>
          if ae_now env w - t > FailedRequestCleanupWindow
          then (let (e, w1) = CleanupCreationRequestResources env req w in ((e, True), w1))
          else ((None, False), w))"

definition NVCAFinalizer :: string where "NVCAFinalizer = ''nvca.finalizers.nvidia.io''"

definition updateFinalizers :: "'w agent_env \<Rightarrow> string \<Rightarrow> (string list \<Rightarrow> string list) \<Rightarrow> 'w \<Rightarrow> api_error option \<times> 'w" where
  "updateFinalizers env name f w =
     (case ae_Get env name w of
        (Inl e, w1) \<Rightarrow> (Some e, w1)
      | (Inr r, w1) \<Rightarrow> ae_Update env (r\<lparr>ar_Finalizers := f (ar_Finalizers r)\<rparr>) w1)"

definition finalizerStep :: "'w agent_env \<Rightarrow> AgentRequest \<Rightarrow> (string list \<Rightarrow> string list) \<Rightarrow> 'w \<Rightarrow> SyncError option \<times> 'w" where
  "finalizerStep env req f w =
     (case RetryOnConflict DefaultRetry None (updateFinalizers env (ir_Name req) f) w of
        (None, w1) \<Rightarrow> (None, w1)
      | (Some e, w1) \<Rightarrow> (if e = NotFound then None else Some (SyncFailed ''failed to change the finalizer''), w1))"

definition requeued :: "string option \<times> 'w \<Rightarrow> SyncError option \<times> 'w" where
  "requeued = (\<lambda>(e, w). (map_option SyncFailed e, w))"

text \<open>The branches of \<open>syncICMSRequest\<close> by the status of the request.\<close>

definition syncWorking :: "'w agent_env \<Rightarrow> AgentRequest \<Rightarrow> 'w \<Rightarrow> SyncError option \<times> 'w" where
  "syncWorking env req w =
     (let action = Normalize (ir_Action req)
      in if action = FunctionCreationAction \<or> action = TaskCreationAction
         then (if rejectionReason req \<noteq> [] then (Some (SyncTerminal (rejectionReason req)), w)
               else if AllInstancesTerminatedAndReported env req w then CleanupCreationRequestResources env req w
               else ae_ApplyCreationMessage env req w)
         else if action = TerminationAction then requeued (ApplyTerminationMessage env req w)
         else (None, w))"

definition syncPending :: "'w agent_env \<Rightarrow> AgentRequest \<Rightarrow> 'w \<Rightarrow> SyncError option \<times> 'w" where
  "syncPending env req w =
     (case cleanupOldICMSRequest env req w of
        ((e, True), w1) \<Rightarrow> (e, w1)
      | ((e, False), w1) \<Rightarrow> syncWorking env req w1)"

definition syncServing :: "'w agent_env \<Rightarrow> AgentRequest \<Rightarrow> 'w \<Rightarrow> SyncError option \<times> 'w" where
  "syncServing env req w =
     (let (e, w1) = (if ar_RequestStatus req = ICMSRequestStatusInstancesInProgress then ApplyICMSRequestStatusChange env req w else (None, w));
          action = Normalize (ir_Action req)
      in case e of
           Some x \<Rightarrow> (Some (SyncFailed x), w1)
         | None \<Rightarrow>
             (case (if action = FunctionCreationAction \<or> action = TaskCreationAction then ae_RetryFailedModelCacheCleanup env req w1 else (None, w1)) of
                (Some (x, True), w2) \<Rightarrow> (Some (SyncFailed x), w2)
              | (_, w2) \<Rightarrow> CleanupCreationRequestResources env req w2))"

definition syncFailureAcknowledged :: "'w agent_env \<Rightarrow> AgentRequest \<Rightarrow> 'w \<Rightarrow> SyncError option \<times> 'w" where
  "syncFailureAcknowledged env req w =
     (if ar_Instances req \<noteq> [] \<and> \<not> AllInstancesTerminatedAndReported env req w
      then (if \<exists>(i, st) \<in> set (ar_Instances req). ins_Status st = ICMSInstanceRunning \<and> ins_LastReportedStatus st = ins_Status st
            then requeued (ApplyICMSRequestStatusChange env req w) else (None, w))
      else (let ((e, _), w1) = cleanupOldICMSRequest env req w in (e, w1)))"

definition syncByStatus :: "'w agent_env \<Rightarrow> AgentRequest \<Rightarrow> 'w \<Rightarrow> SyncError option \<times> 'w" where
  "syncByStatus env req w =
     (case ar_RequestStatus req of
        ICMSRequestStatusPending \<Rightarrow> syncPending env req w
      | ICMSRequestStatusInProgress \<Rightarrow> syncWorking env req w
      | ICMSRequestStatusCachingInProgress \<Rightarrow> syncWorking env req w
      | ICMSRequestStatusCompletionAcknowledged \<Rightarrow> syncServing env req w
      | ICMSRequestStatusInstancesInProgress \<Rightarrow> syncServing env req w
      | ICMSRequestStatusFailureAcknowledged \<Rightarrow> syncFailureAcknowledged env req w
      | _ \<Rightarrow> (None, w))"

definition syncICMSRequest :: "'w agent_env \<Rightarrow> AgentRequest \<Rightarrow> 'w \<Rightarrow> SyncError option \<times> 'w" where
  "syncICMSRequest env req w =
     (if ar_Deleting req
      then (if NVCAFinalizer \<notin> set (ar_Finalizers req) then (None, w)
            else if \<not> AllInstancesTerminatedAndReported env req w then (Some SyncFinalizerRetained, w)
            else finalizerStep env req (filter (\<lambda>f. f \<noteq> NVCAFinalizer)) w)
      else case (if NVCAFinalizer \<in> set (ar_Finalizers req) then (None, w)
                 else finalizerStep env req (\<lambda>fs. fs @ [NVCAFinalizer]) w) of
             (Some e, w1) \<Rightarrow> (Some e, w1)
           | (None, w1) \<Rightarrow> syncByStatus env req w1)"

text \<open>
  What the worker does with the result: a terminal error marks the request as failed, with an instance
  for each that was promised where it has none, so that the failure is reported. The flag is whether the request is
  queued again.
\<close>

definition trimDNS1123Label :: "string \<Rightarrow> int \<Rightarrow> string" where
  "trimDNS1123Label s extra =
     (let extra' = (if extra < 0 \<or> extra \<ge> 63 then 0 else extra); n = nat (63 - extra');
          dash = (\<lambda>c. c = CHR ''-'')
      in if length s > n then rev (dropWhile dash (rev (dropWhile dash (take n s)))) else s)"

definition getPodName :: "string \<Rightarrow> string" where
  "getPodName s = trimDNS1123Label s 0"

definition getMiniServiceInstanceID :: "string \<Rightarrow> string" where
  "getMiniServiceInstanceID name = trimDNS1123Label name 12 @ ''-miniservice''"

definition placeholders :: "AgentRequest \<Rightarrow> Instances" where
  "placeholders sr =
     (if ar_HelmChart sr
      then [(getMiniServiceInstanceID (ir_Name sr),
             newInstance (getMiniServiceInstanceID (ir_Name sr)) InstanceTypeMiniService ICMSInstanceStarted)]
      else if ir_Action sr = FunctionCreationAction \<or> ir_Action sr = TaskCreationAction
      then fold (\<lambda>k. let i = getPodName (show_nat k @ ''-'' @ ir_Name sr) in AList.update i (newInstance i InstanceTypePod ICMSInstanceStarted))
             [0 ..< (if instanceCount sr > 0 then unat (instanceCount sr) else 1)] []
      else [])"

definition markFailed :: "AgentRequest \<Rightarrow> string \<Rightarrow> int \<Rightarrow> modification" where
  "markFailed req reason now = (\<lambda>_ sr.
     sr\<lparr>ar_Instances := (if ar_Instances sr = [] then placeholders sr else ar_Instances sr),
        ar_RequestStatus := ICMSRequestStatusFailed,
        ar_ReconcileErrors := ar_ReconcileErrors req + 1,
        ar_LastReconcileError := reason,
        ar_LastStatusUpdated := Some now\<rparr>)"

definition dropMiniService :: "'w agent_env \<Rightarrow> string \<Rightarrow> 'w \<Rightarrow> bool \<times> 'w" where
  "dropMiniService env name w =
     (case ae_MiniGet env (getMiniServiceInstanceID name) w of
        Inl e \<Rightarrow> (False, w)
      | Inr ms \<Rightarrow> (let (e, w1) = ae_MiniDelete env (getMiniServiceInstanceID name) w in (e \<noteq> Some NotFound, w1)))"

definition failRequest :: "'w agent_env \<Rightarrow> string \<Rightarrow> string \<Rightarrow> 'w \<Rightarrow> bool \<times> 'w" where
  "failRequest env name reason w =
     (case ae_Get env name w of
        (Inl e, w1) \<Rightarrow> if e = NotFound then dropMiniService env name w1 else (True, w1)
      | (Inr req, w1) \<Rightarrow>
          (let (ok, w2) = applyICMSRequestStatusChange env req (markFailed req reason (ae_now env w1)) w1 in (\<not> ok, w2)))"

definition findRequest :: "string \<Rightarrow> AgentRequest list \<Rightarrow> AgentRequest option" where
  "findRequest name = List.find (\<lambda>r. ir_Name r = name)"

definition processICMSRequest :: "'w agent_env \<Rightarrow> string \<Rightarrow> 'w \<Rightarrow> bool \<times> 'w" where
  "processICMSRequest env name w =
     (case (case ae_Lister env w of
              Inl e \<Rightarrow> (Some (SyncFailed e), w)
            | Inr rs \<Rightarrow> (case findRequest name rs of None \<Rightarrow> (Some (SyncTerminal ''not found''), w) | Some req \<Rightarrow> syncICMSRequest env req w)) of
        (None, w1) \<Rightarrow> (False, w1)
      | (Some (SyncTerminal reason), w1) \<Rightarrow> failRequest env name reason w1
      | (Some SyncFinalizerRetained, w1) \<Rightarrow> (False, w1)
      | (Some (SyncFailed x), w1) \<Rightarrow> (True, w1))"

section \<open>Acknowledging requests\<close>

abbreviation postTo :: "'w agent_env \<Rightarrow> AgentRequest \<Rightarrow> string \<Rightarrow> ICMSInstanceStatusUpdateRequest \<Rightarrow> 'w \<Rightarrow> nat option \<times> 'w" where
  "postTo env req i u w \<equiv> ae_PostInstanceStatusUpdate env (ir_RequestID req) i u w"

definition deleteMessageV2 :: "'w agent_env \<Rightarrow> QueueManager \<Rightarrow> AgentRequest \<Rightarrow> 'w \<Rightarrow> 'w" where
  "deleteMessageV2 env qm req w =
     snd (DeleteCreationMessageV2 (ae_queue env) (ae_queueOrder env) qm (ir_MessageReceipt req) (ir_QueueURL req) w)"

definition deleteMessage :: "'w agent_env \<Rightarrow> QueueManager \<Rightarrow> AgentRequest \<Rightarrow> 'w \<Rightarrow> 'w" where
  "deleteMessage env qm req w = snd (DeleteCreationMessage (ae_queue env) qm (gpuName req) (ir_MessageReceipt req) w)"

definition handleInstanceStatusPreconditionFailure :: "'w agent_env \<Rightarrow> AgentRequest \<Rightarrow> string \<Rightarrow> 'w \<Rightarrow> 'w" where
  "handleInstanceStatusPreconditionFailure env req instID w =
     (let (ok, w1) = HandleInstanceStatusPreconditionFailure env req instID w
      in if ok then snd (postTo env req instID (terminatedUpdate ICMSInstanceTerminatedPreconditionFailure [] []) w1) else w1)"

definition handleStatusPreconditionFailed :: "'w agent_env \<Rightarrow> QueueManager \<Rightarrow> AgentRequest \<Rightarrow> 'w \<Rightarrow> 'w" where
  "handleStatusPreconditionFailed env qm req w =
     (let w1 = (if ackTaskAfterScheduled env
                then fold (handleInstanceStatusPreconditionFailure env req) (map fst (ar_Instances req)) w else w);
          (ok, w2) = applyICMSRequestStatusChange env req (\<lambda>_ sr. sr\<lparr>ar_RequestStatus := ICMSRequestStatusFailureAcknowledged\<rparr>) w1
      in if \<not> ok then w2
         else let w3 = ae_CleanupModelCachingSetupArtifacts env req w2
              in if ae_ClusterTargetingEnabled env then deleteMessageV2 env qm req w3 else deleteMessage env qm req w3)"

definition isICMSRequestAcknowledgementErrorRetryable :: "'w agent_env \<Rightarrow> nat \<Rightarrow> AgentRequest \<Rightarrow> 'w \<Rightarrow> bool" where
  "isICMSRequestAcknowledgementErrorRetryable env code req w \<longleftrightarrow>
     code = 404 \<and> (case ar_CreationTimestamp req of None \<Rightarrow> False | Some t \<Rightarrow> ae_now env w - t < ae_ICMSRequestAckRetryTimeout env)"

definition ackSR :: "'w agent_env \<Rightarrow> QueueManager \<Rightarrow> AgentRequest \<Rightarrow> 'w \<Rightarrow> bool \<times> 'w" where
  "ackSR env qm req w =
     (case ae_PutRequestAcknowledgement env (ir_RequestID req) (ar_MessageBatchID req) (instanceCount req) w of
        (None, w1) \<Rightarrow> (True, w1)
      | (Some code, w1) \<Rightarrow>
          (False, if isICMSRequestAcknowledgementErrorRetryable env code req w1 then w1 else handleStatusPreconditionFailed env qm req w1))"

definition sinceACK :: "'w agent_env \<Rightarrow> AgentRequest \<Rightarrow> 'w \<Rightarrow> int option" where
  "sinceACK env req w = map_option (\<lambda>t. ae_now env w - t) (ar_LastACKTimestamp req)"

definition recentACK :: "'w agent_env \<Rightarrow> AgentRequest \<Rightarrow> 'w \<Rightarrow> bool" where
  "recentACK env req w = (case sinceACK env req w of None \<Rightarrow> False | Some d \<Rightarrow> d < ae_ICMSRequestACKInterval env)"

definition acknowledgeAndPurge :: "'w agent_env \<Rightarrow> QueueManager \<Rightarrow> AgentRequest \<Rightarrow> 'w \<Rightarrow> 'w" where
  "acknowledgeAndPurge env qm req w =
     (case ackSR env qm req w of
        (False, w1) \<Rightarrow> w1
      | (True, w1) \<Rightarrow>
          snd (applyICMSRequestStatusChange env req
            (\<lambda>now sr. (if ar_RequestStatus req = NoRequestStatus
                       then sr\<lparr>ar_RequestStatus := ICMSRequestStatusPending, ar_LastStatusUpdated := Some now\<rparr> else sr)
                      \<lparr>ar_LastACKTimestamp := Some now\<rparr>)
            (deleteMessageV2 env qm req w1)))"

definition nearVisTimeout :: int where "nearVisTimeout = 252000000000"

definition acknowledgeScheduledTask :: "'w agent_env \<Rightarrow> QueueManager \<Rightarrow> AgentRequest \<Rightarrow> 'w \<Rightarrow> 'w" where
  "acknowledgeScheduledTask env qm req w =
     (if ar_LastACKTimestamp req = None \<or> recentACK env req w
      then (case ackSR env qm req w of
              (False, w1) \<Rightarrow> w1
            | (True, w1) \<Rightarrow>
                deleteMessageV2 env qm req (snd (applyICMSRequestStatusChange env req (\<lambda>now sr. sr\<lparr>ar_LastACKTimestamp := Some now\<rparr>) w1)))
      else deleteMessageV2 env qm req w)"

text \<open>A task that waits for its pods: its message stays invisible, at most for its maximal runtime unless it is caching. \<open>None\<close> where the extension failed.\<close>

definition extendWaitingTask :: "'w agent_env \<Rightarrow> QueueManager \<Rightarrow> AgentRequest \<Rightarrow> bool \<Rightarrow> 'w \<Rightarrow> bool \<times> 'w" where
  "extendWaitingTask env qm req isCaching w =
     (let mrd = (case ae_ParseMaxRuntimeDuration env (ar_MaxRuntimeDuration req) of None \<Rightarrow> tc_MaxRunningTimeout (ae_TimeConfig env) | Some d \<Rightarrow> d)
      in case ar_LastStatusUpdated req of
           None \<Rightarrow> (True, w)
         | Some t \<Rightarrow>
             if ae_now env w - t \<ge> nearVisTimeout \<and> (isCaching \<or> ae_now env w - t < mrd)
             then (case ExtendCreationMessableVisibilityTimeoutV2 (ae_queue env) (ae_queueOrder env) qm (ir_MessageReceipt req) (ir_QueueURL req) w of
                     (Some e, w1) \<Rightarrow> (False, w1)
                   | (None, w1) \<Rightarrow>
                       (True, snd (applyICMSRequestStatusChange env req (\<lambda>now sr. sr\<lparr>ar_LastStatusUpdated := Some now\<rparr>) w1)))
             else (True, w))"

definition acknowledgeWaitingTask :: "'w agent_env \<Rightarrow> QueueManager \<Rightarrow> AgentRequest \<Rightarrow> 'w \<Rightarrow> 'w" where
  "acknowledgeWaitingTask env qm req w =
     (let isCaching = (ar_RequestStatus req = ICMSRequestStatusCachingInProgress)
      in case extendWaitingTask env qm req isCaching w of
           (False, w1) \<Rightarrow> w1
         | (True, w1) \<Rightarrow>
             if isCaching \<and> (ar_LastACKTimestamp req = None \<or> recentACK env req w1)
             then (case ackSR env qm req w1 of
                     (False, w2) \<Rightarrow> w2
                   | (True, w2) \<Rightarrow> snd (applyICMSRequestStatusChange env req (\<lambda>now sr. sr\<lparr>ar_LastACKTimestamp := Some now\<rparr>) w2))
             else w1)"

definition markPending :: "'w agent_env \<Rightarrow> AgentRequest \<Rightarrow> 'w \<Rightarrow> 'w" where
  "markPending env req w =
     snd (applyICMSRequestStatusChange env req
       (\<lambda>now sr. sr\<lparr>ar_RequestStatus := ICMSRequestStatusPending, ar_LastStatusUpdated := Some now\<rparr>) w)"

definition putTaskICMSRequestAcknowledgementAfterScheduled :: "'w agent_env \<Rightarrow> QueueManager \<Rightarrow> AgentRequest \<Rightarrow> 'w \<Rightarrow> 'w" where
  "putTaskICMSRequestAcknowledgementAfterScheduled env qm req w =
     (case ar_RequestStatus req of
        NoRequestStatus \<Rightarrow> markPending env req w
      | ICMSRequestStatusInstancesInProgress \<Rightarrow> acknowledgeScheduledTask env qm req w
      | ICMSRequestStatusCachingInProgress \<Rightarrow> acknowledgeWaitingTask env qm req w
      | ICMSRequestStatusPending \<Rightarrow> acknowledgeWaitingTask env qm req w
      | ICMSRequestStatusInProgress \<Rightarrow> acknowledgeWaitingTask env qm req w
      | _ \<Rightarrow> w)"

definition acknowledgeRequest :: "'w agent_env \<Rightarrow> QueueManager \<Rightarrow> AgentRequest \<Rightarrow> 'w \<Rightarrow> 'w" where
  "acknowledgeRequest env qm req w =
     (if ir_Action req = TerminationAction
      then (if ar_RequestStatus req = NoRequestStatus then markPending env req w else w)
      else if isTaskRequest req \<and> ackTaskAfterScheduled env then putTaskICMSRequestAcknowledgementAfterScheduled env qm req w
      else case ar_RequestStatus req of
             NoRequestStatus \<Rightarrow> acknowledgeAndPurge env qm req w
           | ICMSRequestStatusCachingInProgress \<Rightarrow> if recentACK env req w then w else acknowledgeAndPurge env qm req w
           | _ \<Rightarrow> w)"

definition forEachRequest :: "'w agent_env \<Rightarrow> (AgentRequest \<Rightarrow> 'w \<Rightarrow> 'w) \<Rightarrow> 'w \<Rightarrow> string option \<times> 'w" where
  "forEachRequest env f w = (case ae_Lister env w of Inl e \<Rightarrow> (Some e, w) | Inr rs \<Rightarrow> (None, fold f rs w))"

definition PutICMSRequestAcknowledgement :: "'w agent_env \<Rightarrow> QueueManager \<Rightarrow> 'w \<Rightarrow> string option \<times> 'w" where
  "PutICMSRequestAcknowledgement env qm = forEachRequest env (acknowledgeRequest env qm)"

section \<open>Reporting instances\<close>

definition IsRequestFromClusterQueue :: "'w agent_env \<Rightarrow> AgentRequest \<Rightarrow> bool" where
  "IsRequestFromClusterQueue env req \<longleftrightarrow> IndexOf (ir_QueueURL req) (ae_ClusterID env) \<noteq> None"

definition purgeMessage :: "'w agent_env \<Rightarrow> QueueManager \<Rightarrow> AgentRequest \<Rightarrow> 'w \<Rightarrow> 'w" where
  "purgeMessage env qm req w =
     (if (ir_Action req = FunctionCreationAction \<or> (isTaskRequest req \<and> \<not> ackTaskAfterScheduled env)) \<and>
         ar_RequestStatus req \<in> {ICMSRequestStatusFailed, ICMSRequestStatusInstancesInProgress, ICMSRequestStatusCachingInProgress}
      then (if ae_ClusterTargetingEnabled env
            then (if IsRequestFromClusterQueue env req then w else deleteMessageV2 env qm req w)
            else deleteMessage env qm req w)
      else w)"

definition reqNotAcked :: "'w agent_env \<Rightarrow> AgentRequest \<Rightarrow> bool" where
  "reqNotAcked env req \<longleftrightarrow>
     isTaskRequest req \<and> ackTaskAfterScheduled env \<and>
     (ar_RequestStatus req \<in> {ICMSRequestStatusCachingInProgress, ICMSRequestStatusPending, ICMSRequestStatusInProgress} \<or>
      (ar_RequestStatus req = ICMSRequestStatusInstancesInProgress \<and> ar_LastACKTimestamp req = None))"

text \<open>The state and the time of an instance whose update was accepted.\<close>

type_synonym Posted = "(string \<times> string \<times> int) list"

fun postUpdates :: "'w agent_env \<Rightarrow> AgentRequest \<Rightarrow> ICMSRequestUpdateInfo list \<Rightarrow> Posted \<Rightarrow> 'w \<Rightarrow> Posted \<times> 'w" where
  "postUpdates env req [] posted w = (posted, w)"
| "postUpdates env req (ru # rus) posted w =
     (if su_Status (ui_Payload ru) = ICMSRequestFulfilled \<and> reqNotAcked env req then postUpdates env req rus posted w
      else case ae_PostInstanceStatusUpdate env (ui_RequestID ru) (ui_InstanceID ru) (ui_Payload ru) w of
             (Some code, w1) \<Rightarrow>
               postUpdates env req rus posted
                 (if code = 412 then handleInstanceStatusPreconditionFailure env req (ui_InstanceID ru) w1 else w1)
           | (None, w1) \<Rightarrow>
               postUpdates env req rus
                 (AList.update (ui_InstanceID ru) (su_InstanceState (ui_Payload ru), ae_now env w1) posted) w1)"

fun getUpdatedInstanceStatusMap :: "Instances \<Rightarrow> Posted \<Rightarrow> Instances" where
  "getUpdatedInstanceStatusMap [] posted = []"
| "getUpdatedInstanceStatusMap ((i, cis) # insts) posted =
     (case map_of posted i of
        None \<Rightarrow> getUpdatedInstanceStatusMap insts posted
      | Some (st, t) \<Rightarrow>
          (i, cis\<lparr>ins_Status := st, ins_LastReportedStatus := st, ins_LastReportedTimestamp := Some t\<rparr>) # getUpdatedInstanceStatusMap insts posted)"

definition acknowledgedStatus :: "RequestStatus \<Rightarrow> RequestStatus" where
  "acknowledgedStatus crs =
     (case crs of
        ICMSRequestStatusCompleted \<Rightarrow> ICMSRequestStatusCompletionAcknowledged
      | ICMSRequestStatusFailed \<Rightarrow> ICMSRequestStatusFailureAcknowledged
      | _ \<Rightarrow> crs)"

definition recordPosted :: "'w agent_env \<Rightarrow> AgentRequest \<Rightarrow> Posted \<Rightarrow> 'w \<Rightarrow> 'w" where
  "recordPosted env req posted w =
     (let crs = ar_RequestStatus req;
          nrs = acknowledgedStatus crs;
          instanceStatusMap = (if posted \<noteq> [] then getUpdatedInstanceStatusMap (ar_Instances req) posted else ar_Instances req)
      in if crs \<noteq> nrs \<or> posted \<noteq> []
         then snd (applyICMSRequestStatusChange env req (\<lambda>_ sr. sr\<lparr>ar_Instances := instanceStatusMap, ar_RequestStatus := nrs\<rparr>) w)
         else w)"

definition reportRequest :: "'w agent_env \<Rightarrow> QueueManager \<Rightarrow> AgentRequest \<Rightarrow> 'w \<Rightarrow> 'w" where
  "reportRequest env qm req w =
     (let (rus, w1) = GetICMSRequestStatusUpdatesForRequest env req (purgeMessage env qm req w);
          (posted, w2) = postUpdates env req rus [] w1
      in recordPosted env req posted w2)"

definition PostICMSInstanceRequestStatusUpdates :: "'w agent_env \<Rightarrow> QueueManager \<Rightarrow> 'w \<Rightarrow> string option \<times> 'w" where
  "PostICMSInstanceRequestStatusUpdates env qm = forEachRequest env (reportRequest env qm)"

section \<open>Comparing with the control plane\<close>

datatype ICMSInstanceReconcileState = ICMSInstanceReconcileNoAction | ICMSInstanceReconcileUpdateOnly | ICMSInstanceReconcileTerminateAndUpdate

definition instanceStatusReconcileAction :: "string \<Rightarrow> string \<Rightarrow> ICMSInstanceReconcileState" where
  "instanceStatusReconcileAction spotState localState =
     (if localState \<notin> {ICMSInstanceStarted, ICMSInstanceRunning, ICMSInstanceTerminated} then ICMSInstanceReconcileNoAction
      else if spotState = ICMSInstanceShuttingDown then ICMSInstanceReconcileTerminateAndUpdate
      else if spotState \<in> {ICMSInstanceStarted, ICMSInstanceRunning, ICMSInstanceTerminated} \<and> spotState \<noteq> localState
      then ICMSInstanceReconcileUpdateOnly
      else ICMSInstanceReconcileNoAction)"

definition ReconcileInstanceStatus ::
    "'w agent_env \<Rightarrow> ICMSServerInstanceState \<Rightarrow> 'w \<Rightarrow> ICMSInstanceReconcileState \<times> (AgentRequest \<times> InstanceStatus) option" where
  "ReconcileInstanceStatus env is w =
     (case ae_Lister env w of
        Inl e \<Rightarrow> (ICMSInstanceReconcileNoAction, None)
      | Inr rs \<Rightarrow>
          let icmsRequests = filter (\<lambda>r. ir_RequestID r = ss_RequestID is) rs
          in if icmsRequests = [] then (ICMSInstanceReconcileNoAction, None)
             else case List.find (\<lambda>r. map_of (ar_Instances r) (ss_InstanceID is) \<noteq> None) icmsRequests of
                    None \<Rightarrow> (ICMSInstanceReconcileTerminateAndUpdate, None)
                  | Some r \<Rightarrow>
                      let lis = the (map_of (ar_Instances r) (ss_InstanceID is))
                      in (instanceStatusReconcileAction (ss_InstanceState is) (ins_Status lis), Some (r, lis)))"

definition syncActionUpdate :: "InstanceStatus \<Rightarrow> ICMSInstanceReconcileState \<Rightarrow> ICMSInstanceStatusUpdateRequest" where
  "syncActionUpdate is ra =
     (if ra = ICMSInstanceReconcileUpdateOnly
      then \<lparr>su_Status = ICMSRequestInstanceTerminatedByService, su_InstanceState = ins_Status is,
            su_RequestState = ICMSInstanceRequestActive, su_Action = FunctionCreationAction,
            su_TerminationCause = ICMSInstanceStateNoStatus, su_SystemFailure = [], su_ErrorLog = []\<rparr>
      else terminatedUpdate ICMSInstanceTerminatedDuetoSyncAction [] [])"

definition syncInstance :: "'w agent_env \<Rightarrow> ICMSServerInstanceState \<Rightarrow> 'w \<Rightarrow> 'w" where
  "syncInstance env is w =
     (case ReconcileInstanceStatus env is w of
        (ra, None) \<Rightarrow>
          if ra = ICMSInstanceReconcileTerminateAndUpdate
          then snd (ae_PostInstanceStatusUpdate env (ss_RequestID is) (ss_InstanceID is)
                      (terminatedUpdate ICMSInstanceTerminatedDuetoSyncAction [] []) w)
          else w
      | (ra, Some (req, reqIS)) \<Rightarrow>
          if ra = ICMSInstanceReconcileNoAction then w
          else let w1 = (if ra = ICMSInstanceReconcileTerminateAndUpdate
                         then snd (HandleInstanceStatusPreconditionFailure env req (ins_ID reqIS) w) else w)
               in snd (postTo env req (ins_ID reqIS) (syncActionUpdate reqIS ra) w1))"

definition SyncPeriodicInstanceStatuses :: "'w agent_env \<Rightarrow> 'w \<Rightarrow> string option \<times> 'w" where
  "SyncPeriodicInstanceStatuses env w =
     (case ae_GetICMSServerInstanceStatuses env w of
        (Inl e, w1) \<Rightarrow> (Some e, w1)
      | (Inr iss, w1) \<Rightarrow> (None, fold (syncInstance env) iss w1))"

section \<open>Evicting everything\<close>

definition evictable :: "AgentRequest \<Rightarrow> bool" where
  "evictable req \<longleftrightarrow>
     ar_RequestStatus req \<notin> {ICMSRequestStatusFailed, ICMSRequestStatusFailureAcknowledged} \<and> ar_Instances req \<noteq> []"

definition allWorkloadsConfirmedTerminated :: "'w agent_env \<Rightarrow> 'w \<Rightarrow> bool" where
  "allWorkloadsConfirmedTerminated env w =
     (case ae_Lister env w of
        Inl e \<Rightarrow> False
      | Inr rs \<Rightarrow> \<forall>req \<in> set rs. evictable req \<longrightarrow> AllInstancesTerminatedAndReported env req w)"

text \<open>The number of errors met, and the world.\<close>

definition reportPurged :: "'w agent_env \<Rightarrow> AgentRequest \<Rightarrow> string \<Rightarrow> nat \<times> 'w \<Rightarrow> nat \<times> 'w" where
  "reportPurged env req i = (\<lambda>(errs, w).
     case postTo env req i (terminatedUpdate ICMSInstanceTerminatedServiceMaintenance [] []) w of
       (None, w1) \<Rightarrow> (errs, w1)
     | (Some code, w1) \<Rightarrow> (Suc errs, w1))"

definition evictRequest :: "'w agent_env \<Rightarrow> AgentRequest \<Rightarrow> nat \<times> 'w \<Rightarrow> nat \<times> 'w" where
  "evictRequest env req = (\<lambda>(errs, w).
     if \<not> evictable req then (errs, w)
     else let (purged, terminatedInstances, w1) = purgeEach env (map fst (ar_Instances req)) [] w;
              now = ae_now env w1;
              updatedInstances = fold (\<lambda>(i, st). AList.update i st) terminatedInstances (ar_Instances req);
              (ok, w2) = (if purged = [] then (True, w1)
                    else applyICMSRequestStatusChange env
                           (req\<lparr>ar_RequestStatus := ICMSRequestStatusInProgress, ar_LastStatusUpdated := Some now, ar_Instances := updatedInstances\<rparr>)
                           (\<lambda>_ sr. sr\<lparr>ar_RequestStatus := ICMSRequestStatusInProgress, ar_LastStatusUpdated := Some now, ar_Instances := updatedInstances\<rparr>)
                           w1)
          in fold (reportPurged env req) purged (if ok then errs else Suc errs, w2))"

definition evictAllWorkloads :: "'w agent_env \<Rightarrow> 'w \<Rightarrow> string option \<times> 'w" where
  "evictAllWorkloads env w =
     (case ae_Lister env w of
        Inl e \<Rightarrow> (Some ''failed to list ICMS requests'', w)
      | Inr rs \<Rightarrow>
          (let (errs, w1) = fold (evictRequest env) rs (0, w)
           in (if errs > 0 then Some ''encountered errors during workload eviction'' else None, w1)))"

definition selfDestructEvictionRetries :: nat where "selfDestructEvictionRetries = 3"

text \<open>The attempts of \<open>handleSelfDestruct\<close>; the pause between two of them lets others act. The flag is whether the eviction was confirmed.\<close>

fun evictionAttempts :: "'w agent_env \<Rightarrow> ('w \<Rightarrow> 'w) \<Rightarrow> nat \<Rightarrow> 'w \<Rightarrow> bool \<times> 'w" where
  "evictionAttempts env pause 0 w = (False, w)"
| "evictionAttempts env pause (Suc n) w =
     (let w1 = snd (evictAllWorkloads env w)
      in if allWorkloadsConfirmedTerminated env w1 then (True, w1)
         else if n = 0 then (False, w1)
         else evictionAttempts env pause n (pause w1))"

definition handleSelfDestruct :: "'w agent_env \<Rightarrow> ('w \<Rightarrow> 'w) \<Rightarrow> 'w \<Rightarrow> bool \<times> 'w" where
  "handleSelfDestruct env pause = evictionAttempts env pause selfDestructEvictionRetries"

end
