(* ===== verification/QueueBatch.thy ===== *)
theory QueueBatch
  imports QueueManager "HOL-Library.Multiset" "HOL-Library.Sublist"
begin

text \<open>
  The messages of a pass of the queue manager: the matrix a GPU's batches are put into is the ring of its
  queues, turned by the start index of the pass (\<open>matrices_rotated\<close>); the iterator takes every message of it
  once and keeps the order of each queue; and the start index gives every queue of a GPU its turn. The last
  section but one is an environment in memory, for the runs on concrete queues.
\<close>

section \<open>The order of the iterator\<close>

lemma mset_concat_map_append:
  "mset (concat (map (\<lambda>r. f r @ g r) rs)) = mset (concat (map f rs)) + mset (concat (map g rs))"
  by (induction rs) auto

lemma subseq_concat_map: "(\<And>r. subseq (f r) (g r)) \<Longrightarrow> subseq (concat (map f rs)) (concat (map g rs))"
  by (induction rs) (auto intro: list_emb_append_mono)

lemma take_rows: "concat (map (\<lambda>r. if r \<ge> length c then [] else [c ! r]) [0..<n]) = take n c"
  by (induction n) (auto simp: take_Suc_conv_app_nth)

lemma subseq_concat_member: "c \<in> set cs \<Longrightarrow> subseq (f c) (concat (map f cs))"
proof (induction cs)
  case (Cons d cs)
  then show ?case
    by (cases "c = d") (auto intro: list_emb_append2 subseq_order.order_trans)
qed simp

lemma iter_mset:
  assumes "\<forall>c \<in> set matrix. length c \<le> n"
  shows "mset (newIterCreationMessageMatrix n matrix) = mset (concat matrix)"
  using assms
proof (induction matrix)
  case Nil
  then show ?case by (simp add: newIterCreationMessageMatrix_def)
next
  case (Cons c cs)
  have "mset (newIterCreationMessageMatrix n (c # cs)) = mset (take n c) + mset (newIterCreationMessageMatrix n cs)"
    unfolding newIterCreationMessageMatrix_def list.map concat.simps mset_concat_map_append take_rows ..
  then show ?case using Cons by simp
qed

lemma iter_column_order:
  assumes "c \<in> set matrix" and "length c \<le> n"
  shows "subseq c (newIterCreationMessageMatrix n matrix)"
proof -
  have "subseq (concat (map (\<lambda>r. if r \<ge> length c then [] else [c ! r]) [0..<n])) (newIterCreationMessageMatrix n matrix)"
    unfolding newIterCreationMessageMatrix_def
    by (rule subseq_concat_map)
      (rule subseq_concat_member [OF assms(1), of "\<lambda>column. if _ \<ge> length column then [] else [column ! _]"])
  then show ?thesis using assms(2) by (simp add: take_rows)
qed

section \<open>The matrix of a GPU\<close>

text \<open>The new messages of each batch that was received, in the order of the batches.\<close>

fun receivedNew ::
    "'w qm_env \<Rightarrow> (queueWorkInput \<times> (queue_error + ReceiveMessageOutput list)) list \<Rightarrow> string set
       \<Rightarrow> (queueWorkInput \<times> ReceiveMessageOutput list) list" where
  "receivedNew env [] existing = []"
| "receivedNew env ((q, out) # rest) existing =
     (case out of
        Inl _ \<Rightarrow> receivedNew env rest existing
      | Inr ms \<Rightarrow> (case newMessages env existing ms of (fresh, existing') \<Rightarrow> (q, fresh) # receivedNew env rest existing'))"

definition tuplesOf :: "queueWorkInput \<times> ReceiveMessageOutput list \<Rightarrow> createMessageTuple list" where
  "tuplesOf b = map (\<lambda>m. \<lparr>cmt_gpuName = qw_gpuName (fst b), cmt_message = m, cmt_queueInfo = qw_qi (fst b)\<rparr>) (snd b)"

definition columnsOf :: "string \<Rightarrow> (queueWorkInput \<times> ReceiveMessageOutput list) list \<Rightarrow> messageMatrix" where
  "columnsOf g bs = map tuplesOf (filter (\<lambda>b. qw_gpuName (fst b) = g) bs)"

text \<open>The columns of a ring of \<open>n\<close> places that was filled from place \<open>s\<close> on.\<close>

definition ringOf :: "nat \<Rightarrow> nat \<Rightarrow> messageMatrix \<Rightarrow> messageMatrix" where
  "ringOf s n cols = rotate (n - s) (cols @ replicate (n - length cols) [])"

lemma rotate_update:
  assumes "s < length xs" and "k < length xs"
  shows "(rotate (length xs - s) xs)[(s + k) mod length xs := v] = rotate (length xs - s) (xs[k := v])" (is "?l = ?r")
proof (rule nth_equalityI)
  show "length ?l = length ?r" by simp
next
  fix i assume "i < length ?l"
  then have i: "i < length xs" by simp
  define n where "n = length xs"
  have key: "(s + k) mod n = i \<longleftrightarrow> (n - s + i) mod n = k"
    using assms i unfolding n_def [symmetric]
    by (cases "s + k < n"; cases "n - s + i < n") (auto simp: mod_if)
  have len: "(n - s + i) mod n < n" by (rule mod_less_divisor) (use i in \<open>auto simp: n_def\<close>)
  have "(s + k) mod n < n" by (rule mod_less_divisor) (use i in \<open>auto simp: n_def\<close>)
  then show "?l ! i = ?r ! i"
    using i key len assms(2) by (simp add: nth_rotate nth_list_update n_def)
qed

lemma ringOf_push:
  assumes "s < n" and "length cols < n"
  shows "(ringOf s n cols)[(s + length cols) mod n := v] = ringOf s n (cols @ [v])"
proof -
  let ?xs = "cols @ replicate (n - length cols) []"
  have "n - length cols = Suc (n - length (cols @ [v]))" using assms(2) by simp
  then have "?xs[length cols := v] = cols @ [v] @ replicate (n - length (cols @ [v])) []" by (simp add: list_update_append)
  moreover have "length ?xs = n" using assms(2) by simp
  ultimately show ?thesis
    using rotate_update [of s ?xs "length cols" v] assms by (simp add: ringOf_def)
qed

lemma ringOf_length: "length cols \<le> n \<Longrightarrow> length (ringOf s n cols) = n"
  by (simp add: ringOf_def)

lemma ringOf_Nil: "ringOf s n [] = replicate n []"
  by (simp add: ringOf_def rotate_drop_take flip: replicate_add)

lemma mset_rotate_list: "mset (rotate k xs) = mset xs"
  by (metis add.commute append_take_drop_id mset_append rotate_drop_take)

lemma mset_ringOf: "mset (ringOf s n cols) = mset cols + replicate_mset (n - length cols) []"
  by (simp add: ringOf_def mset_rotate_list)

lemma concat_ringOf: "mset (concat (ringOf s n cols)) = mset (concat cols)"
proof -
  have "mset (concat (ringOf s n cols)) = \<Sum>\<^sub># (image_mset mset (mset (ringOf s n cols)))"
    by (simp add: mset_concat sum_mset_sum_list flip: mset_map)
  also have "\<dots> = mset (concat cols)"
    by (simp add: mset_ringOf mset_concat sum_mset_sum_list flip: mset_map)
  finally show ?thesis .
qed

lemma set_ringOf: "set (ringOf s n cols) \<subseteq> insert [] (set cols)" and set_ringOf_cols: "set cols \<subseteq> set (ringOf s n cols)"
  by (auto simp: ringOf_def)

text \<open>How many of the inputs are queues of \<open>g\<close>.\<close>

definition queueCount :: "string \<Rightarrow> queueWorkInput list \<Rightarrow> nat" where
  "queueCount g qs = length (filter (\<lambda>q. qw_gpuName q = g) qs)"

text \<open>
  The state of the loop over the batches: each GPU's ring holds what was placed so far, the next place is
  free, and there is room for the queues still to come.
\<close>

definition placed ::
    "(string \<Rightarrow> nat) \<Rightarrow> (string \<Rightarrow> nat) \<Rightarrow> (string \<Rightarrow> messageMatrix) \<Rightarrow> queueWorkInput list
       \<Rightarrow> (string \<Rightarrow> messageMatrix option) \<Rightarrow> ringMetadata \<Rightarrow> bool" where
  "placed start n cols rest matrices meta \<longleftrightarrow>
     (\<forall>g. matrices g = (if cols g = [] then None else Some (ringOf (start g) (n g) (cols g))) \<and>
          length (cols g) + queueCount g rest \<le> n g) \<and>
     (\<forall>q \<in> set rest. start (qw_gpuName q) < n (qw_gpuName q) \<and>
          meta (qw_gpuName q) = Some ((start (qw_gpuName q) + length (cols (qw_gpuName q))) mod n (qw_gpuName q), n (qw_gpuName q)))"

lemma placed_skip: "placed start n cols (q # rest) matrices meta \<Longrightarrow> placed start n cols rest matrices meta"
  unfolding placed_def queueCount_def
  by (intro conjI allI ballI; (erule conjE, drule_tac x = g in spec)?) (auto split: if_splits)

lemma placeBatch_placed:
  assumes "placed start n cols (q # rest) matrices meta" and "newMessages env existing ms = (fresh, existing')"
  shows "\<exists>matrices' meta'. placeBatch env q ms (matrices, meta, existing) = Some (matrices', meta', existing') \<and>
           placed start n (cols(qw_gpuName q := cols (qw_gpuName q) @ [tuplesOf (q, fresh)])) rest matrices' meta'"
proof -
  let ?g = "qw_gpuName q"
  let ?s = "start ?g" and ?n = "n ?g" and ?c = "cols ?g"
  let ?k = "(?s + length ?c) mod ?n"
  have s: "?s < ?n" and meta: "meta ?g = Some (?k, ?n)" and room: "length ?c < ?n"
    using assms(1) by (auto simp: placed_def queueCount_def dest: spec [of _ ?g])
  have mat: "(case matrices ?g of None \<Rightarrow> replicate ?n [] | Some m \<Rightarrow> m) = ringOf ?s ?n ?c"
    using assms(1) by (auto simp: placed_def ringOf_Nil dest: spec [of _ ?g])
  have inside: "?k < length (ringOf ?s ?n ?c) \<and> ?n \<noteq> 0"
    using s room by (simp add: ringOf_length)
  let ?m = "matrices(?g \<mapsto> ringOf ?s ?n (?c @ [tuplesOf (q, fresh)]))"
  let ?meta = "meta(?g \<mapsto> ((?k + 1) mod ?n, ?n))"
  have "placeBatch env q ms (matrices, meta, existing) = Some (?m, ?meta, existing')"
    using inside meta mat ringOf_push [OF s room, of "tuplesOf (q, fresh)"]
    by (simp add: placeBatch_def Let_def assms(2) tuplesOf_def)
  moreover have "placed start n (cols(?g := ?c @ [tuplesOf (q, fresh)])) rest ?m ?meta"
  proof -
    have rest: "placed start n cols rest matrices meta" using assms(1) by (rule placed_skip)
    have one: "length ?c + Suc (queueCount ?g rest) \<le> ?n"
    proof -
      have "length ?c + queueCount ?g (q # rest) \<le> ?n" using assms(1) unfolding placed_def by blast
      then show ?thesis by (simp add: queueCount_def)
    qed
    have mats: "matrices g = (if cols g = [] then None else Some (ringOf (start g) (n g) (cols g)))"
      and fits: "length (cols g) + queueCount g rest \<le> n g" for g
      using rest unfolding placed_def by blast+
    have next_place: "start (qw_gpuName p) < n (qw_gpuName p)"
        "qw_gpuName p \<noteq> ?g \<Longrightarrow> meta (qw_gpuName p) =
           Some ((start (qw_gpuName p) + length (cols (qw_gpuName p))) mod n (qw_gpuName p), n (qw_gpuName p))"
      if "p \<in> set rest" for p
      using rest that unfolding placed_def by blast+
    show ?thesis
      unfolding placed_def
    proof (intro conjI allI ballI)
      fix g
      show "?m g = (if (cols(?g := ?c @ [tuplesOf (q, fresh)])) g = [] then None
              else Some (ringOf (start g) (n g) ((cols(?g := ?c @ [tuplesOf (q, fresh)])) g)))"
        by (cases "g = ?g") (simp_all add: mats)
      show "length ((cols(?g := ?c @ [tuplesOf (q, fresh)])) g) + queueCount g rest \<le> n g"
        using one fits [of g] by simp
    next
      fix p assume p: "p \<in> set rest"
      show "start (qw_gpuName p) < n (qw_gpuName p)" using p by (rule next_place(1))
      show "?meta (qw_gpuName p) = Some ((start (qw_gpuName p) +
              length ((cols(?g := ?c @ [tuplesOf (q, fresh)])) (qw_gpuName p))) mod n (qw_gpuName p), n (qw_gpuName p))"
        using next_place(2) [OF p] by (cases "qw_gpuName p = ?g") (simp_all add: mod_Suc_eq)
    qed
  qed
  ultimately show ?thesis by blast
qed

lemma matrices_rotated:
  assumes "placed start n cols (map fst batches) matrices meta"
  shows "\<exists>m. createCreationMessageMatricesByGPU env batches (matrices, meta, existing) =
             Some (m, \<exists>b \<in> set batches. isl (snd b)) \<and>
           (\<forall>g. let c = cols g @ columnsOf g (receivedNew env batches existing)
                in m g = (if c = [] then None else Some (ringOf (start g) (n g) c)))"
  using assms
proof (induction batches arbitrary: cols matrices meta existing)
  case Nil
  then show ?case by (simp add: placed_def columnsOf_def)
next
  case (Cons b rest)
  obtain q out where b: "b = (q, out)" by force
  show ?case
  proof (cases out)
    case (Inl e)
    from Cons.IH [OF placed_skip, of cols q matrices meta existing] Cons.prems
    show ?thesis by (auto simp: b Inl)
  next
    case (Inr ms)
    obtain fresh existing' where new: "newMessages env existing ms = (fresh, existing')" by force
    obtain matrices' meta' where
      p: "placeBatch env q ms (matrices, meta, existing) = Some (matrices', meta', existing')"
         "placed start n (cols(qw_gpuName q := cols (qw_gpuName q) @ [tuplesOf (q, fresh)])) (map fst rest) matrices' meta'"
      using placeBatch_placed [OF _ new, of start n cols q "map fst rest" matrices meta] Cons.prems by (auto simp: b)
    from Cons.IH [OF p(2), of existing'] p(1) show ?thesis
      by (auto simp: b Inr new columnsOf_def Let_def fun_upd_def)
  qed
qed

section \<open>The rings of a pass\<close>

lemma addToRing_fold:
  "fold (addToRing start) qs m g =
     (case m g of
        None \<Rightarrow> if queueCount g qs = 0 then None else Some (case start g of None \<Rightarrow> 0 | Some i \<Rightarrow> i, queueCount g qs)
      | Some (s, n) \<Rightarrow> Some (s, n + queueCount g qs))"
  by (induction qs arbitrary: m) (auto simp: queueCount_def addToRing_def split: option.splits)

definition ringStart :: "QueueManager \<Rightarrow> string \<Rightarrow> nat" where
  "ringStart qm g = (case qm_queueRingStartIdxByGPU qm g of None \<Rightarrow> 0 | Some i \<Rightarrow> i)"

lemma setNumSkip_ring [simp]:
  "qm_queueRingStartIdxByGPU (setNumSkipProcessCreation g k qm) = qm_queueRingStartIdxByGPU qm"
  "qm_qcreds (setNumSkipProcessCreation g k qm) = qm_qcreds qm"
  by (simp_all add: setNumSkipProcessCreation_def)

lemma mustSkip_frame:
  "mustSkipQueueForGPU h g qm = (b, qm') \<Longrightarrow>
     qm_queueRingStartIdxByGPU qm' = qm_queueRingStartIdxByGPU qm \<and> qm_qcreds qm' = qm_qcreds qm \<and>
     qm_maxQueueMessages qm' = qm_maxQueueMessages qm"
  by (auto simp: mustSkipQueueForGPU_def creationMessagesFetchable_def SetGPUAtCapacity_def setNumSkipProcessCreation_def
      Let_def split: if_splits)

lemma getQueues_frame:
  "getQueues h qis qm = (qs, qm') \<Longrightarrow>
     qm_queueRingStartIdxByGPU qm' = qm_queueRingStartIdxByGPU qm \<and> qm_qcreds qm' = qm_qcreds qm \<and>
     qm_maxQueueMessages qm' = qm_maxQueueMessages qm"
proof (induction qis arbitrary: qm qs)
  case (Cons p qis)
  obtain g qi where p: "p = (g, qi)" by force
  obtain b qm1 where skip: "mustSkipQueueForGPU h g qm = (b, qm1)" by force
  obtain qs2 qm2 where "getQueues h qis qm1 = (qs2, qm2)" by force
  with Cons skip mustSkip_frame [OF skip] show ?case by (auto simp: p)
qed simp

text \<open>What a pass collects: the start of the ring of each GPU and its size.\<close>

lemma collect_rings:
  assumes "collectAvailableCreationQueues order h qm = (inputs, meta, qm')"
  defines "n \<equiv> \<lambda>g. queueCount g inputs"
  shows "meta g = (if n g = 0 then None else Some (ringStart qm g mod n g, n g))"
    and "n g \<noteq> 0 \<Longrightarrow> ringStart qm' g = (ringStart qm g mod n g + 1) mod n g"
    and "qm_qcreds qm' = qm_qcreds qm" and "qm_maxQueueMessages qm' = qm_maxQueueMessages qm"
proof -
  obtain q1 qm1 where g1: "getQueues h (order (qd_CreationQueues (qm_qcreds qm))) qm = (q1, qm1)" by force
  obtain q2 qm2 where g2: "getQueues h (order (qd_ClusterCreationQueues (qm_qcreds qm))) qm1 = (q2, qm2)" by force
  obtain q3 qm3 where g3: "getQueues h (order (qd_TaskClusterCreationQueues (qm_qcreds qm))) qm2 = (q3, qm3)" by force
  note frames = getQueues_frame [OF g1] getQueues_frame [OF g2] getQueues_frame [OF g3]
  have inputs: "inputs = q1 @ q2 @ q3"
    and meta: "meta = (\<lambda>g. map_option (\<lambda>(s, n). (s mod n, n)) (fold (addToRing (qm_queueRingStartIdxByGPU qm3)) inputs Map.empty g))"
    and qm': "qm' = qm3\<lparr>qm_queueRingStartIdxByGPU := (\<lambda>g. map_option (\<lambda>(s, n). (s + 1) mod n) (meta g))\<rparr>"
    using assms(1) by (auto simp: collectAvailableCreationQueues_def Let_def g1 g2 g3)
  show m: "meta g = (if n g = 0 then None else Some (ringStart qm g mod n g, n g))" for g
    using frames by (simp add: meta addToRing_fold n_def ringStart_def)
  show "n g \<noteq> 0 \<Longrightarrow> ringStart qm' g = (ringStart qm g mod n g + 1) mod n g"
    by (simp add: qm' m) (simp add: ringStart_def)
  show "qm_qcreds qm' = qm_qcreds qm" "qm_maxQueueMessages qm' = qm_maxQueueMessages qm"
    using frames by (simp_all add: qm')
qed

lemma collect_placed:
  assumes "collectAvailableCreationQueues order h qm = (inputs, meta, qm')"
  shows "placed (\<lambda>g. ringStart qm g mod queueCount g inputs) (\<lambda>g. queueCount g inputs) (\<lambda>_. []) inputs Map.empty meta"
proof -
  have "queueCount (qw_gpuName q) inputs \<noteq> 0" if "q \<in> set inputs" for q
    using that by (auto simp: queueCount_def filter_empty_conv)
  then show ?thesis
    using collect_rings(1) [OF assms] by (simp add: placed_def)
qed

section \<open>The messages of a pass\<close>

lemma newMessages_new:
  assumes "newMessages env existing ms = (fresh, known)"
  shows "distinct (map (queueMessageKey env) fresh) \<and> existing \<subseteq> known \<and> subseq fresh ms \<and>
         (\<forall>m \<in> set fresh. \<not> queueMessageExists env existing m \<and> queueMessageKey env m \<in> known \<and> rm_Body m \<noteq> None)"
  using assms
proof (induction ms arbitrary: existing fresh known)
  case (Cons m ms)
  show ?case
  proof (cases "queueMessageExists env existing m")
    case True
    then show ?thesis using Cons.IH [of existing fresh known] Cons.prems by auto
  next
    case False
    obtain rest known' where r: "newMessages env (insert (queueMessageKey env m) existing) ms = (rest, known')" by force
    show ?thesis using Cons.IH [OF r] Cons.prems False r by (fastforce simp: queueMessageExists_def split: if_splits)
  qed
qed simp

text \<open>A message that is passed over is known, or another message of the batch stands for it.\<close>

lemma newMessages_complete:
  assumes "newMessages env existing ms = (fresh, known)"
  shows "(\<forall>k \<in> known. k \<in> existing \<or> (\<exists>m \<in> set ms. queueMessageKey env m = k \<and> (m \<in> set fresh \<or> rm_Body m = None))) \<and>
         (\<forall>m \<in> set ms. queueMessageExists env known m)"
  using assms
proof (induction ms arbitrary: existing fresh known)
  case (Cons m ms)
  show ?case
  proof (cases "queueMessageExists env existing m")
    case True
    have "existing \<subseteq> known" using newMessages_new [OF Cons.prems] by blast
    then show ?thesis using Cons.IH [of existing fresh known] Cons.prems True by (fastforce simp: queueMessageExists_def)
  next
    case False
    obtain rest known' where r: "newMessages env (insert (queueMessageKey env m) existing) ms = (rest, known')" by force
    then have "known' = known" and fresh: "fresh = (if rm_Body m = None then rest else m # rest)" using Cons.prems False by auto
    then show ?thesis
      using Cons.IH [OF r] newMessages_new [OF r] by (fastforce simp: queueMessageExists_def)
  qed
qed simp

text \<open>A key is taken when a request has it or a received message that is handled, or has no body, has it.\<close>

definition taken :: "'w qm_env \<Rightarrow> string set \<Rightarrow> ReceiveMessageOutput set \<Rightarrow> ReceiveMessageOutput set \<Rightarrow> string \<Rightarrow> bool" where
  "taken env existing received handled k \<longleftrightarrow>
     k \<in> existing \<or> (\<exists>m \<in> received. queueMessageKey env m = k \<and> (m \<in> handled \<or> rm_Body m = None))"

definition accountedFor :: "'w qm_env \<Rightarrow> string set \<Rightarrow> ReceiveMessageOutput set \<Rightarrow> ReceiveMessageOutput set \<Rightarrow> ReceiveMessageOutput \<Rightarrow> bool" where
  "accountedFor env existing received handled m \<longleftrightarrow>
     taken env existing received handled (queueMessageKey env m) \<or> taken env existing received handled (rm_MessageID m)"

definition receivedMessages :: "(queueWorkInput \<times> (queue_error + ReceiveMessageOutput list)) list \<Rightarrow> ReceiveMessageOutput set" where
  "receivedMessages batches = \<Union> {set ms |q ms. (q, Inr ms) \<in> set batches}"

lemma newMessages_taken:
  assumes "newMessages env existing ms = (fresh, known)" and "set ms \<subseteq> received" and "set fresh \<subseteq> handled"
  shows "k \<in> known \<Longrightarrow> taken env existing received handled k"
    and "m \<in> set ms \<Longrightarrow> accountedFor env existing received handled m"
proof -
  show *: "k \<in> known \<Longrightarrow> taken env existing received handled k" for k
    using newMessages_complete [OF assms(1)] assms(2,3) unfolding taken_def by blast
  show "m \<in> set ms \<Longrightarrow> accountedFor env existing received handled m"
    using newMessages_complete [OF assms(1)] * unfolding accountedFor_def queueMessageExists_def by blast
qed

lemma taken_trans: "taken env known received handled k \<Longrightarrow> \<forall>k \<in> known. taken env existing received handled k \<Longrightarrow> taken env existing received handled k"
  by (auto simp: taken_def)

lemma receivedNew_complete:
  assumes "receivedMessages batches \<subseteq> received" and "set (concat (map snd (receivedNew env batches existing))) \<subseteq> handled"
    and "m \<in> receivedMessages batches"
  shows "accountedFor env existing received handled m"
  using assms
proof (induction batches arbitrary: existing)
  case Nil
  then show ?case by (simp add: receivedMessages_def)
next
  case (Cons b rest)
  obtain q out where b: "b = (q, out)" by force
  have sub: "receivedMessages rest \<subseteq> received" using Cons.prems(1) by (auto simp: receivedMessages_def)
  show ?case
  proof (cases out)
    case (Inl e)
    then show ?thesis using Cons.IH [OF sub, of existing] Cons.prems by (auto simp: b receivedMessages_def)
  next
    case (Inr ms)
    obtain fresh known where new: "newMessages env existing ms = (fresh, known)" by force
    have ms: "set ms \<subseteq> received" using Cons.prems(1) by (auto simp: b Inr receivedMessages_def)
    have h: "set fresh \<subseteq> handled" "set (concat (map snd (receivedNew env rest known))) \<subseteq> handled"
      using Cons.prems(2) by (auto simp: b Inr new)
    note N = newMessages_taken [OF new ms h(1)]
    consider "m \<in> set ms" | "m \<in> receivedMessages rest"
      using Cons.prems(3) by (auto simp: b Inr receivedMessages_def)
    then show ?thesis
    proof cases
      case 1
      then show ?thesis by (rule N(2))
    next
      case 2
      from Cons.IH [OF sub h(2) this] N(1) show ?thesis
        unfolding accountedFor_def by (blast intro: taken_trans)
    qed
  qed
qed

lemma receivedNew_new:
  assumes "R = receivedNew env batches existing"
  shows "distinct (map (queueMessageKey env) (concat (map snd R))) \<and>
         (\<forall>m \<in> set (concat (map snd R)). \<not> queueMessageExists env existing m) \<and>
         (\<forall>b \<in> set R. \<exists>ms. (fst b, Inr ms) \<in> set batches \<and> subseq (snd b) ms)"
  using assms
proof (induction batches arbitrary: existing R)
  case (Cons b rest)
  obtain q out where b: "b = (q, out)" by force
  show ?case
  proof (cases out)
    case (Inl e)
    then show ?thesis using Cons.IH [OF refl, of existing] Cons.prems by (fastforce simp: b)
  next
    case (Inr ms)
    obtain fresh known where new: "newMessages env existing ms = (fresh, known)" by force
    have R: "R = (q, fresh) # receivedNew env rest known" using Cons.prems by (simp add: b Inr new)
    note IH = Cons.IH [OF refl, of known] and N = newMessages_new [OF new]
    have "distinct (map (queueMessageKey env) (concat (map snd R)))"
      using IH N by (fastforce simp: R queueMessageExists_def)
    moreover have "\<forall>m \<in> set (concat (map snd R)). \<not> queueMessageExists env existing m"
      using IH N by (simp add: R queueMessageExists_def) blast
    moreover have "\<forall>b \<in> set R. \<exists>ms. (fst b, Inr ms) \<in> set ((q, out) # rest) \<and> subseq (snd b) ms"
      using IH N Inr by (auto simp: R)
    ultimately show ?thesis by (simp only: b)
  qed
qed simp

section \<open>The jobs of a pass\<close>

fun jobTuples :: "job \<Rightarrow> createMessageTuple list" where
  "jobTuples (TermJob _) = []"
| "jobTuples (CreateJob _ ts) = ts"

lemma concat_one: "distinct gs \<Longrightarrow> g \<in> set gs \<Longrightarrow> concat (map (\<lambda>x. if g = x then t else []) gs) = t"
proof (induction gs)
  case (Cons x gs)
  have "g \<notin> set gs \<Longrightarrow> concat (map (\<lambda>x. if g = x then t else []) gs) = []" by auto
  then show ?case using Cons by auto
qed simp

lemma mset_columns:
  assumes "distinct gs" and "\<forall>b \<in> set R. qw_gpuName (fst b) \<in> set gs"
  shows "mset (concat (map (\<lambda>g. concat (columnsOf g R)) gs)) = mset (concat (map tuplesOf R))"
  using assms(2)
proof (induction R)
  case Nil
  show ?case by (induction gs) (simp_all add: columnsOf_def)
next
  case (Cons b R)
  have "concat (columnsOf g (b # R)) = (if qw_gpuName (fst b) = g then tuplesOf b else []) @ concat (columnsOf g R)" for g
    by (simp add: columnsOf_def)
  then show ?case
    using Cons concat_one [OF assms(1), of "qw_gpuName (fst b)" "tuplesOf b"] by (simp add: mset_concat_map_append)
qed

lemma mset_concat_map_cong:
  "(\<And>g. g \<in> set gs \<Longrightarrow> mset (f g) = mset (f' g)) \<Longrightarrow> mset (concat (map f gs)) = mset (concat (map f' gs))"
  by (induction gs) auto

text \<open>The termination messages to handle, and the keys known after them.\<close>

definition newTerminations :: "'w qm_env \<Rightarrow> queue_error + ReceiveMessageOutput list \<Rightarrow> string set \<Rightarrow> ReceiveMessageOutput list \<times> string set" where
  "newTerminations env termOut existing = (case termOut of Inl _ \<Rightarrow> ([], existing) | Inr ms \<Rightarrow> newMessages env existing ms)"

lemma planJobs_collected:
  assumes "collectAvailableCreationQueues order h qm = (inputs, meta, qm')" and "length outs = length inputs"
    and "newTerminations env termOut existing = (terms, known)"
  defines "R \<equiv> receivedNew env (zip inputs outs) known"
  defines "gs \<equiv> filter (\<lambda>g. columnsOf g R \<noteq> []) (remdups (map qw_gpuName inputs))"
  shows "planJobs env k inputs meta termOut outs existing =
           Some (map (\<lambda>m. TermJob [m]) terms @
                 map (\<lambda>g. CreateJob 0 (newIterCreationMessageMatrix k
                       (ringOf (ringStart qm g mod queueCount g inputs) (queueCount g inputs) (columnsOf g R)))) gs,
                 (\<exists>out \<in> set outs. isl out) \<or> isl termOut)"
proof -
  have fst: "map fst (zip inputs outs) = inputs" and snd: "snd ` set (zip inputs outs) = set outs"
    using assms(2) by (simp_all flip: set_map)
  obtain m where m: "createCreationMessageMatricesByGPU env (zip inputs outs) (Map.empty, meta, known) =
        Some (m, \<exists>b \<in> set (zip inputs outs). isl (snd b))"
    and mg: "m g = (if columnsOf g R = [] then None
        else Some (ringOf (ringStart qm g mod queueCount g inputs) (queueCount g inputs) (columnsOf g R)))" for g
    using matrices_rotated [of _ _ _ "zip inputs outs", unfolded fst, OF collect_placed [OF assms(1)], of env known]
    unfolding R_def Let_def by auto
  have sel: "filter (\<lambda>g. m g \<noteq> None) (remdups (map qw_gpuName inputs)) = gs"
    unfolding gs_def by (intro filter_cong) (simp_all add: mg)
  have err: "(\<exists>b \<in> set (zip inputs outs). isl (snd b)) \<longleftrightarrow> (\<exists>out \<in> set outs. isl out)"
    unfolding snd [symmetric] by simp
  have jobs: "map (\<lambda>g. CreateJob 0 (newIterCreationMessageMatrix k (the (m g)))) gs =
      map (\<lambda>g. CreateJob 0 (newIterCreationMessageMatrix k
         (ringOf (ringStart qm g mod queueCount g inputs) (queueCount g inputs) (columnsOf g R)))) gs"
    by (intro map_cong) (auto simp: mg gs_def)
  have terms: "(case termOut of Inl _ \<Rightarrow> ([], existing) | Inr ms \<Rightarrow> newMessages env existing ms) = (terms, known)"
    using assms(3) by (simp add: newTerminations_def)
  show ?thesis
    unfolding planJobs_def Let_def terms prod.case m option.case sel err jobs ..
qed

lemma columnsOf_length:
  assumes "c \<in> set (columnsOf g (receivedNew env batches existing))" and "\<forall>b \<in> set batches. \<forall>ms. snd b = Inr ms \<longrightarrow> length ms \<le> k"
  shows "length c \<le> k"
proof -
  obtain b where b: "b \<in> set (receivedNew env batches existing)" "c = tuplesOf b"
    using assms(1) by (auto simp: columnsOf_def)
  then obtain ms where "(fst b, Inr ms) \<in> set batches" "subseq (snd b) ms"
    using receivedNew_new [OF refl] by blast
  then show ?thesis using b(2) assms(2) list_emb_length by (fastforce simp: tuplesOf_def)
qed

lemma messages_tuplesOf: "map cmt_message (concat (map tuplesOf R)) = concat (map snd R)"
  by (induction R) (simp_all add: tuplesOf_def comp_def)

lemma tuplesOf_column: "b \<in> set R \<Longrightarrow> tuplesOf b \<in> set (columnsOf (qw_gpuName (fst b)) R)"
  by (auto simp: columnsOf_def)

text \<open>A pass makes one job per GPU, and the jobs hold the new messages of the received batches.\<close>

lemma planned_messages:
  assumes "collectAvailableCreationQueues order h qm = (inputs, meta, qm')" and "length outs = length inputs"
    and "\<forall>ms. Inr ms \<in> set outs \<longrightarrow> length ms \<le> k"
    and "newTerminations env termOut existing = (terms, known)"
    and "planJobs env k inputs meta termOut outs existing = Some (jobs, err)"
  defines "R \<equiv> receivedNew env (zip inputs outs) known"
  shows "mset (concat (map jobTuples jobs)) = mset (concat (map tuplesOf R))"
    and "b \<in> set R \<Longrightarrow> \<exists>ts. CreateJob 0 ts \<in> set jobs \<and> subseq (tuplesOf b) ts"
proof -
  define ring where "ring g = ringOf (ringStart qm g mod queueCount g inputs) (queueCount g inputs) (columnsOf g R)" for g
  define gs where "gs = filter (\<lambda>g. columnsOf g R \<noteq> []) (remdups (map qw_gpuName inputs))"
  have jobs: "jobs = map (\<lambda>m. TermJob [m]) terms @ map (\<lambda>g. CreateJob 0 (newIterCreationMessageMatrix k (ring g))) gs"
    using planJobs_collected [OF assms(1,2,4), of k] assms(5) by (simp add: ring_def gs_def R_def)
  have "\<forall>b \<in> set (zip inputs outs). \<forall>ms. snd b = Inr ms \<longrightarrow> length ms \<le> k"
    using assms(3) by (metis prod.collapse set_zip_rightD)
  then have len: "length c \<le> k" if "c \<in> set (ring g)" for c g
    using that set_ringOf [of "ringStart qm g mod queueCount g inputs" "queueCount g inputs" "columnsOf g R"]
      columnsOf_length [of c g env "zip inputs outs" known k]
    by (auto simp: ring_def R_def)
  have known_gpu: "qw_gpuName (fst b) \<in> set gs" if "b \<in> set R" for b
  proof -
    have "fst b \<in> set inputs"
      using receivedNew_new [of R] that by (fastforce simp: R_def dest: set_zip_leftD)
    then show ?thesis using tuplesOf_column [OF that] by (auto simp: gs_def)
  qed
  have "mset (concat (map jobTuples jobs)) = mset (concat (map (\<lambda>g. newIterCreationMessageMatrix k (ring g)) gs))"
    by (simp add: jobs comp_def)
  also have "\<dots> = mset (concat (map (\<lambda>g. concat (columnsOf g R)) gs))"
    using len by (intro mset_concat_map_cong) (simp add: iter_mset, simp add: ring_def concat_ringOf)
  also have "\<dots> = mset (concat (map tuplesOf R))"
    using known_gpu by (intro mset_columns) (simp_all add: gs_def)
  finally show "mset (concat (map jobTuples jobs)) = mset (concat (map tuplesOf R))" .
  assume b: "b \<in> set R"
  let ?g = "qw_gpuName (fst b)"
  have "tuplesOf b \<in> set (ring ?g)"
    using tuplesOf_column [OF b] set_ringOf_cols unfolding ring_def by blast
  then have "subseq (tuplesOf b) (newIterCreationMessageMatrix k (ring ?g))"
    by (intro iter_column_order len)
  then show "\<exists>ts. CreateJob 0 ts \<in> set jobs \<and> subseq (tuplesOf b) ts"
    using known_gpu [OF b] by (auto simp: jobs)
qed

section \<open>The rotation of the queues of a GPU\<close>

definition gpuFree :: "AgentHealth \<Rightarrow> string \<Rightarrow> bool" where
  "gpuFree h g \<longleftrightarrow> gr_Allocated (gpuUsage h g) < gr_Capacity (gpuUsage h g) \<and> componentsHealthy h"

definition creationInput :: "string \<Rightarrow> MessageQueueInfo \<Rightarrow> queueWorkInput" where
  "creationInput g qi = \<lparr>qw_gpuName = g, qw_qi = qi, qw_vtoSec = creationQueueVisibilityTimeoutSeconds\<rparr>"

definition queueIn :: "string \<Rightarrow> CreationQueueInfoSet \<Rightarrow> queueWorkInput list" where
  "queueIn g qis = (case map_of qis g of None \<Rightarrow> [] | Some qi \<Rightarrow> [creationInput g qi])"

text \<open>The queues of a GPU in the order the code collects them.\<close>

definition queuesOf :: "string \<Rightarrow> QueueCredentials \<Rightarrow> queueWorkInput list" where
  "queuesOf g creds = queueIn g (qd_CreationQueues creds) @ queueIn g (qd_ClusterCreationQueues creds) @ queueIn g (qd_TaskClusterCreationQueues creds)"

definition wf_creds :: "QueueCredentials \<Rightarrow> bool" where
  "wf_creds creds \<longleftrightarrow> distinct (map fst (qd_CreationQueues creds)) \<and> distinct (map fst (qd_ClusterCreationQueues creds)) \<and>
     distinct (map fst (qd_TaskClusterCreationQueues creds))"

definition map_order :: "(CreationQueueInfoSet \<Rightarrow> CreationQueueInfoSet) \<Rightarrow> bool" where
  "map_order order \<longleftrightarrow> (\<forall>qis. mset (order qis) = mset qis)"

lemma mustSkip_other:
  "mustSkipQueueForGPU h g' qm = (b, qm') \<Longrightarrow> g' \<noteq> g \<Longrightarrow> qm_numSkipProcessCreation qm' g = qm_numSkipProcessCreation qm g"
  by (auto simp: mustSkipQueueForGPU_def creationMessagesFetchable_def SetGPUAtCapacity_def setNumSkipProcessCreation_def
      Let_def split: if_splits)

lemma mustSkip_free:
  "gpuFree h g \<Longrightarrow> qm_numSkipProcessCreation qm g = 0 \<Longrightarrow>
     \<exists>qm'. mustSkipQueueForGPU h g qm = (False, qm') \<and> qm_numSkipProcessCreation qm' g = 0"
  by (auto simp: mustSkipQueueForGPU_def creationMessagesFetchable_def SetGPUAtCapacity_def gpuFree_def Let_def)

lemma getQueues_free:
  assumes "gpuFree h g" and "qm_numSkipProcessCreation qm g = 0" and "getQueues h qis qm = (qs, qm')"
  shows "filter (\<lambda>q. qw_gpuName q = g) qs = map (\<lambda>p. creationInput g (snd p)) (filter (\<lambda>p. fst p = g) qis) \<and>
         qm_numSkipProcessCreation qm' g = 0"
  using assms(2,3)
proof (induction qis arbitrary: qm qs qm')
  case (Cons p qis)
  obtain g' qi where p: "p = (g', qi)" by force
  obtain b qm1 where skip: "mustSkipQueueForGPU h g' qm = (b, qm1)" by force
  obtain qs2 qm2 where rest: "getQueues h qis qm1 = (qs2, qm2)" by force
  have free: "qm_numSkipProcessCreation qm1 g = 0"
    using mustSkip_other [OF skip] mustSkip_free [OF assms(1) Cons.prems(1)] Cons.prems(1) skip by (cases "g' = g") auto
  have "g' = g \<Longrightarrow> \<not> b" using mustSkip_free [OF assms(1) Cons.prems(1)] skip by auto
  then show ?case using Cons.IH [OF free rest] Cons.prems(2) skip rest by (auto simp: p creationInput_def)
qed simp

lemma filter_key: "distinct (map fst qis) \<Longrightarrow>
    map (\<lambda>p. creationInput g (snd p)) (filter (\<lambda>p. fst p = g) qis) = queueIn g qis"
proof (induction qis)
  case (Cons p qis)
  have "filter (\<lambda>p. fst p = g) qis = []" if "fst p = g"
    using Cons.prems that by (auto simp: filter_empty_conv image_iff)
  then show ?case using Cons by (cases p) (auto simp: queueIn_def)
qed (simp add: queueIn_def)

lemma queueIn_order:
  assumes "map_order order" and "distinct (map fst qis)"
  shows "map (\<lambda>p. creationInput g (snd p)) (filter (\<lambda>p. fst p = g) (order qis)) = queueIn g qis"
proof -
  have m: "mset (order qis) = mset qis" using assms(1) by (simp add: map_order_def)
  then have d: "distinct (map fst (order qis))" using assms(2) by (metis mset_eq_imp_distinct_iff mset_map)
  have "map_of (order qis) = map_of qis"
    using map_of_inject_set [OF d assms(2)] mset_eq_setD [OF m] by simp
  then show ?thesis using filter_key [OF d] by (simp add: queueIn_def)
qed

lemma collect_free:
  assumes "collectAvailableCreationQueues order h qm = (inputs, meta, qm')"
    and "map_order order" and "wf_creds (qm_qcreds qm)" and "gpuFree h g" and "qm_numSkipProcessCreation qm g = 0"
  shows "filter (\<lambda>q. qw_gpuName q = g) inputs = queuesOf g (qm_qcreds qm) \<and> qm_numSkipProcessCreation qm' g = 0"
proof -
  obtain q1 qm1 where g1: "getQueues h (order (qd_CreationQueues (qm_qcreds qm))) qm = (q1, qm1)" by force
  obtain q2 qm2 where g2: "getQueues h (order (qd_ClusterCreationQueues (qm_qcreds qm))) qm1 = (q2, qm2)" by force
  obtain q3 qm3 where g3: "getQueues h (order (qd_TaskClusterCreationQueues (qm_qcreds qm))) qm2 = (q3, qm3)" by force
  note f1 = getQueues_free [OF assms(4,5) g1]
  note f2 = getQueues_free [OF assms(4) conjunct2 [OF f1] g2]
  note f3 = getQueues_free [OF assms(4) conjunct2 [OF f2] g3]
  have "inputs = q1 @ q2 @ q3" and "qm_numSkipProcessCreation qm' = qm_numSkipProcessCreation qm3"
    using assms(1) by (auto simp: collectAvailableCreationQueues_def Let_def g1 g2 g3)
  then show ?thesis
    using f1 f2 f3 assms(3) by (simp add: queueIn_order [OF assms(2)] queuesOf_def wf_creds_def)
qed

text \<open>The queue whose messages a pass handles first: the one in the first column of the ring.\<close>

definition leadingQueue :: "string \<Rightarrow> queueWorkInput list \<times> ringMetadata \<Rightarrow> queueWorkInput" where
  "leadingQueue g p = (case snd p g of Some (s, n) \<Rightarrow> hd (rotate (n - s) (filter (\<lambda>q. qw_gpuName q = g) (fst p))))"

text \<open>What consecutive passes collect.\<close>

fun collectPasses :: "((CreationQueueInfoSet \<Rightarrow> CreationQueueInfoSet) \<times> AgentHealth) list \<Rightarrow> QueueManager \<Rightarrow> (queueWorkInput list \<times> ringMetadata) list" where
  "collectPasses [] qm = []"
| "collectPasses ((order, h) # ps) qm =
     (case collectAvailableCreationQueues order h qm of (inputs, meta, qm') \<Rightarrow> (inputs, meta) # collectPasses ps qm')"

lemma leading_of_start:
  assumes "Q \<noteq> []" and "s < length Q"
  shows "hd (rotate (length Q - s) Q) = Q ! ((length Q - s) mod length Q)"
  using assms by (simp add: hd_rotate_conv_nth)

lemma collectPasses_leading:
  assumes "wf_creds (qm_qcreds qm)" and "qm_numSkipProcessCreation qm g = 0"
    and "\<forall>(order, h) \<in> set ps. map_order order \<and> gpuFree h g" and "queuesOf g (qm_qcreds qm) \<noteq> []"
  defines "Q \<equiv> queuesOf g (qm_qcreds qm)"
  defines "n \<equiv> length Q"
  shows "map (leadingQueue g) (collectPasses ps qm) = map (\<lambda>k. Q ! ((n - (ringStart qm g + k) mod n) mod n)) [0..<length ps]"
  using assms(1-4) unfolding n_def Q_def
proof (induction ps arbitrary: qm)
  case (Cons p ps)
  let ?Q = "queuesOf g (qm_qcreds qm)" and ?n = "length (queuesOf g (qm_qcreds qm))"
  obtain order h where p: "p = (order, h)" by force
  obtain inputs meta qm' where c: "collectAvailableCreationQueues order h qm = (inputs, meta, qm')" by (metis prod_cases3)
  note free = collect_free [OF c, of g]
  have Q: "filter (\<lambda>q. qw_gpuName q = g) inputs = ?Q" and skip: "qm_numSkipProcessCreation qm' g = 0"
    using free Cons.prems by (auto simp: p)
  have n: "queueCount g inputs = ?n" and pos: "0 < ?n" using Q Cons.prems(4) by (simp_all add: queueCount_def)
  have meta: "meta g = Some (ringStart qm g mod ?n, ?n)" using collect_rings(1) [OF c, of g] n pos by simp
  have start: "ringStart qm' g = Suc (ringStart qm g) mod ?n"
    using collect_rings(2) [OF c, of g] n pos by (simp add: mod_Suc_eq)
  have creds: "qm_qcreds qm' = qm_qcreds qm" by (rule collect_rings(3) [OF c])
  have lead: "leadingQueue g (inputs, meta) = ?Q ! ((?n - ringStart qm g mod ?n) mod ?n)"
    using leading_of_start [OF Cons.prems(4), of "ringStart qm g mod ?n"] pos by (simp add: leadingQueue_def meta Q)
  have "map (leadingQueue g) (collectPasses ps qm') =
      map (\<lambda>k. ?Q ! ((?n - (ringStart qm' g + k) mod ?n) mod ?n)) [0..<length ps]"
    using Cons.IH [of qm'] Cons.prems skip by (simp add: p creds)
  also have "\<dots> = map (\<lambda>k. ?Q ! ((?n - (ringStart qm g + Suc k) mod ?n) mod ?n)) [0..<length ps]"
    unfolding start by (simp add: mod_add_left_eq)
  finally show ?case
    using lead by (simp add: p c map_upt_Suc del: upt_Suc)
qed simp

lemma mset_permuted_nth:
  assumes "inj_on f {..<length xs}" and "f ` {..<length xs} \<subseteq> {..<length xs}"
  shows "mset (map (\<lambda>k. xs ! f k) [0..<length xs]) = mset xs"
proof -
  have surj: "f ` {..<length xs} = {..<length xs}" by (rule endo_inj_surj) (use assms in auto)
  have "image_mset f (mset_set {..<length xs}) = mset_set (f ` {..<length xs})" by (rule image_mset_mset_set [OF assms(1)])
  then have "image_mset (nth xs) (image_mset f (mset [0..<length xs])) = image_mset (nth xs) (mset [0..<length xs])"
    by (simp add: surj [unfolded lessThan_atLeast0] lessThan_atLeast0)
  moreover have "mset (map (\<lambda>k. xs ! f k) [0..<length xs]) = image_mset (nth xs) (image_mset f (mset [0..<length xs]))"
    by (simp add: multiset.map_comp comp_def)
  moreover have "image_mset (nth xs) (mset [0..<length xs]) = mset xs"
    unfolding mset_map [symmetric] map_nth ..
  ultimately show ?thesis by simp
qed

lemma ring_positions:
  assumes "0 < (n :: nat)"
  shows "inj_on (\<lambda>k. (n - (s + k) mod n) mod n) {..<n}"
proof (rule inj_onI)
  fix k l assume k: "k \<in> {..<n}" and l: "l \<in> {..<n}" and eq: "(n - (s + k) mod n) mod n = (n - (s + l) mod n) mod n"
  have undo: "(n - b) mod n = (n - a) mod n \<Longrightarrow> a = b" if "a < n" "b < n" for a b
    using that by (cases "a = 0"; cases "b = 0") auto
  have "(s + k) mod n = (s + l) mod n" by (rule undo) (use assms eq in simp_all)
  then have "k mod n = l mod n" unfolding nat_mod_eq_iff by (simp add: add.assoc)
  then show "k = l" using k l by simp
qed

section \<open>An environment in memory\<close>

text \<open>
  The queues, the API server and the cache of its objects as lists. A body is the letter of a GPU followed by
  one character per instance, eight at most, and the body is the request ID. \<open>belongs\<close> says which messages of a stream a
  queue delivers.
\<close>

record memWorld =
  wd_queue :: "string \<Rightarrow> ReceiveMessageOutput list"
  wd_requests :: "IcmsRequest list"
  wd_cached :: "IcmsRequest list"
  wd_removed :: "string list"

fun letters :: "string \<Rightarrow> uint64" where
  "letters [] = 0"
| "letters (_ # cs) = letters cs + 1"

definition memDecode :: "string \<Rightarrow> CreationQueueMessage option" where
  "memDecode body =
     (case body of
        [] \<Rightarrow> None
      | g # cs \<Rightarrow> if length cs > 8 then None else Some \<lparr>cq_Meta = \<lparr>mm_RequestID = body, mm_Action = ''FunctionCreation'', mm_InstanceCount = letters cs, mm_GPUType = [g],
            mm_RequestedGPUCount = 0\<rparr>, cq_IsTask = False, cq_Env = None, cq_Telemetries = False\<rparr>)"

definition byGPU :: "MessageQueueInfo \<Rightarrow> ReceiveMessageOutput \<Rightarrow> bool" where
  "byGPU q m \<longleftrightarrow> mq_GPU q = [] \<or> take 1 (bodyOf m) = mq_GPU q"

definition memClient :: "(MessageQueueInfo \<Rightarrow> ReceiveMessageOutput \<Rightarrow> bool) \<Rightarrow> memWorld queue_client" where
  "memClient belongs = \<lparr>
     qc_ReceiveMessage = (\<lambda>q n v w.
        let all = wd_queue w (mq_QueueURL q); mine = filter (belongs q) all
        in (Inr (take (nat n) mine),
            w\<lparr>wd_queue := (wd_queue w)(mq_QueueURL q := drop (nat n) mine @ filter (\<lambda>m. \<not> belongs q m) all)\<rparr>)),
     qc_DeleteMessage = (\<lambda>q r w. (None, w\<lparr>wd_removed := r # wd_removed w\<rparr>)),
     qc_ChangeMessageVisibility = (\<lambda>q r v w. (None, w)),
     qc_IsMessageNotFoundError = (\<lambda>_. False)\<rparr>"

definition memBackend :: "memWorld backend" where
  "memBackend = \<lparr>
     bk_List = (\<lambda>i w. Inr (filter (\<lambda>r. ir_MessageID r = i) (wd_requests w))),
     bk_Lister = (\<lambda>w. Inr (wd_cached w)),
     bk_Create = (\<lambda>r w. (Inr r, w\<lparr>wd_requests := wd_requests w @ [r]\<rparr>)),
     bk_newUUID = (\<lambda>_. []), bk_useUUID = False, bk_Flag = (\<lambda>_. False), bk_functionEnvOverrides = [], bk_taskEnvOverrides = [],
     bk_ApplyEnvOverrides = (\<lambda>e _. Some e), bk_persistStorage = (\<lambda>r w. (None, w))\<rparr>"

definition memEnv :: "(MessageQueueInfo \<Rightarrow> ReceiveMessageOutput \<Rightarrow> bool) \<Rightarrow> AgentHealth \<Rightarrow> memWorld qm_env" where
  "memEnv belongs h = \<lparr>qe_client = memClient belongs, qe_backend = memBackend, qe_RefreshStatus = (\<lambda>w. (None, w)), qe_GetStatus = (\<lambda>_. h),
     qe_now = (\<lambda>_. 0), qe_decodeCreation = memDecode,
     qe_decodeTermination = (\<lambda>b. if b = [] then None else Some \<lparr>tm_RequestID = b, tm_InstanceIds = []\<rparr>), qe_decodeRequestID = Some\<rparr>"

text \<open>Two queues of the GPU \<open>A\<close>, which has four places, one of them taken.\<close>

definition twoQueues :: QueueCredentials where
  "twoQueues = \<lparr>qd_ClusterCreationQueues = [(''A'', \<lparr>mq_GPU = ''A'', mq_QueueURL = ''c''\<rparr>)], qd_TaskClusterCreationQueues = [(''A'', \<lparr>mq_GPU = ''A'', mq_QueueURL = ''t''\<rparr>)],
     qd_CreationQueues = [], qd_TerminationQueue = \<lparr>mq_GPU = [], mq_QueueURL = ''x''\<rparr>\<rparr>"

definition roomFor :: "uint64 \<Rightarrow> AgentHealth" where
  "roomFor k = \<lparr>ah_GPUUsage = [''A'' \<mapsto> \<lparr>gr_Capacity = k, gr_Allocated = 1\<rparr>], ah_Components = Map.empty\<rparr>"

definition freshManager :: "QueueCredentials \<Rightarrow> QueueManager" where
  "freshManager creds = the (NewQueueManager False creds 2 MaintenanceModeNone)"

definition aMessage :: "string \<Rightarrow> string \<Rightarrow> ReceiveMessageOutput" where
  "aMessage i body = \<lparr>rm_MessageID = i, rm_ReceiptHandle = i, rm_Body = Some body\<rparr>"

section \<open>Properties\<close>

text \<open>
  C15. (\<open>SyncQueues\<close>, \<open>createCreationMessageMatricesByGPU\<close>, \<open>newIterCreationMessageMatrix\<close>) For every set of queues a
  pass collects and every outcome of their fetches, with batches of at most the size asked for: the
  jobs are planned without a write outside the ring; they hold exactly the new messages of the batches
  that were received, each once, no two with the same key and none with the key of a known request; the
  messages of a queue keep their order; and a message that was left out has a body-less twin, a twin that
  is handled, or a request.
\<close>

theorem pass_handles_each_message_once:
  assumes "collectAvailableCreationQueues order h qm = (inputs, meta, qm')" and "length outs = length inputs"
    and "\<forall>ms. Inr ms \<in> set outs \<longrightarrow> length ms \<le> k"
  shows "\<exists>jobs. planJobs env k inputs meta termOut outs existing = Some (jobs, (\<exists>out \<in> set outs. isl out) \<or> isl termOut) \<and>
     (let known = snd (newTerminations env termOut existing);
          R = receivedNew env (zip inputs outs) known;
          handled = map cmt_message (concat (map jobTuples jobs))
      in mset (concat (map jobTuples jobs)) = mset (concat (map tuplesOf R)) \<and>
         (\<forall>b \<in> set R. \<exists>ts. CreateJob 0 ts \<in> set jobs \<and> subseq (tuplesOf b) ts) \<and>
         distinct (map (queueMessageKey env) handled) \<and>
         (\<forall>m \<in> set handled. \<not> queueMessageExists env existing m) \<and>
         (\<forall>m \<in> receivedMessages (zip inputs outs).
            accountedFor env known (receivedMessages (zip inputs outs)) (set handled) m))"
proof -
  obtain terms known where t: "newTerminations env termOut existing = (terms, known)" by force
  define R where "R = receivedNew env (zip inputs outs) known"
  obtain jobs where j: "planJobs env k inputs meta termOut outs existing = Some (jobs, (\<exists>out \<in> set outs. isl out) \<or> isl termOut)"
    using planJobs_collected [OF assms(1,2) t, of k] by blast
  note P = planned_messages [OF assms t j, folded R_def]
  define handled where "handled = map cmt_message (concat (map jobTuples jobs))"
  have same: "mset handled = mset (concat (map snd R))" using P(1) messages_tuplesOf by (metis handled_def mset_map)
  then have keys: "mset (map (queueMessageKey env) handled) = mset (map (queueMessageKey env) (concat (map snd R)))" by simp
  note N = receivedNew_new [of R env "zip inputs outs" known, OF R_def]
  have "existing \<subseteq> known"
    using t newMessages_new by (force simp: newTerminations_def split: sum.splits)
  then have "\<forall>m \<in> set handled. \<not> queueMessageExists env existing m"
    using N mset_eq_setD [OF same] unfolding queueMessageExists_def by blast
  moreover have "distinct (map (queueMessageKey env) handled)"
    using N mset_eq_imp_distinct_iff [OF keys] by blast
  moreover have "\<forall>m \<in> receivedMessages (zip inputs outs). accountedFor env known (receivedMessages (zip inputs outs)) (set handled) m"
    using receivedNew_complete [OF order_refl] mset_eq_setD [OF same] by (metis R_def order_refl)
  ultimately show ?thesis
    using j P unfolding handled_def t snd_conv Let_def R_def [symmetric] by blast
qed

lemma twoQueues_collect:
  "collectAvailableCreationQueues id (roomFor 4) (freshManager twoQueues) =
     ([creationInput ''A'' \<lparr>mq_GPU = ''A'', mq_QueueURL = ''c''\<rparr>, creationInput ''A'' \<lparr>mq_GPU = ''A'', mq_QueueURL = ''t''\<rparr>],
      [''A'' \<mapsto> (0, 2)],
      (freshManager twoQueues)\<lparr>qm_queueRingStartIdxByGPU := [''A'' \<mapsto> 1], qm_gpuAtCapacityStore := [''A'' \<mapsto> False]\<rparr>)"
  by (simp add: collectAvailableCreationQueues_def freshManager_def NewQueueManager_def twoQueues_def roomFor_def creationInput_def
      mustSkipQueueForGPU_def creationMessagesFetchable_def SetGPUAtCapacity_def gpuUsage_def componentsHealthy_def addToRing_def Let_def fun_eq_iff word_le_nat_alt)

theorem pass_handles_each_message_once_witness:
  "\<exists>jobs. planJobs (memEnv byGPU (roomFor 4)) 2
       [creationInput ''A'' \<lparr>mq_GPU = ''A'', mq_QueueURL = ''c''\<rparr>, creationInput ''A'' \<lparr>mq_GPU = ''A'', mq_QueueURL = ''t''\<rparr>]
       [''A'' \<mapsto> (0, 2)] (Inr []) [Inr [aMessage ''1'' ''Ax'', aMessage ''2'' ''Axx''], Inr [aMessage ''1'' ''Ax'', aMessage ''3'' ''Ax'']] {} =
     Some (jobs, False)"
  using pass_handles_each_message_once [OF twoQueues_collect,
      of "[Inr [aMessage ''1'' ''Ax'', aMessage ''2'' ''Axx''], Inr [aMessage ''1'' ''Ax'', aMessage ''3'' ''Ax'']]" 2 "memEnv byGPU (roomFor 4)" "Inr []" "{}"]
  by (auto simp: numeral_2_eq_2)

text \<open>
  C28. (\<open>collectAvailableCreationQueues\<close>) The queues of a GPU take turns: over as many consecutive passes as the
  GPU has queues, in which it has room and is not backing off, each of its queues is the one whose
  messages come first in exactly one pass, in whatever order Go ranges over the maps of queues.
\<close>

theorem queues_take_turns:
  assumes "wf_creds (qm_qcreds qm)" and "qm_numSkipProcessCreation qm g = 0"
    and "\<forall>(order, h) \<in> set passes. map_order order \<and> gpuFree h g"
    and "length passes = length (queuesOf g (qm_qcreds qm))"
  shows "mset (map (leadingQueue g) (collectPasses passes qm)) = mset (queuesOf g (qm_qcreds qm))"
proof (cases "queuesOf g (qm_qcreds qm) = []")
  case False
  let ?n = "length (queuesOf g (qm_qcreds qm))"
  have "map (leadingQueue g) (collectPasses passes qm) =
      map (\<lambda>k. queuesOf g (qm_qcreds qm) ! ((?n - (ringStart qm g + k) mod ?n) mod ?n)) [0..<?n]"
    using collectPasses_leading [OF assms(1-3) False] assms(4) by simp
  also have "mset \<dots> = mset (queuesOf g (qm_qcreds qm))"
    using False ring_positions [of ?n "ringStart qm g"] by (intro mset_permuted_nth) auto
  finally show ?thesis .
qed (use assms(4) in simp)

theorem queues_take_turns_witness:
  "mset (map (leadingQueue ''A'') (collectPasses [(id, roomFor 4), (rev, roomFor 2)] (freshManager twoQueues))) =
     {#creationInput ''A'' \<lparr>mq_GPU = ''A'', mq_QueueURL = ''c''\<rparr>, creationInput ''A'' \<lparr>mq_GPU = ''A'', mq_QueueURL = ''t''\<rparr>#}"
proof -
  have Q: "queuesOf ''A'' (qm_qcreds (freshManager twoQueues)) =
      [creationInput ''A'' \<lparr>mq_GPU = ''A'', mq_QueueURL = ''c''\<rparr>, creationInput ''A'' \<lparr>mq_GPU = ''A'', mq_QueueURL = ''t''\<rparr>]"
    by (simp add: queuesOf_def queueIn_def freshManager_def NewQueueManager_def twoQueues_def)
  show ?thesis
    using queues_take_turns [of "freshManager twoQueues" "''A''" "[(id, roomFor 4), (rev, roomFor 2)]"]
    unfolding Q
    by (simp add: wf_creds_def freshManager_def NewQueueManager_def twoQueues_def map_order_def gpuFree_def gpuUsage_def roomFor_def
        componentsHealthy_def)
qed

end
