(* ===== verification/QueueManagerSpec.thy ===== *)
theory QueueManagerSpec
  imports QueueBatch
begin

text \<open>
  What a pass of the queue manager promises to the GPUs of the cluster. \<open>passWorld\<close> states what the pass relies on:
  creating an object adds it, and nothing else changes the objects or the health snapshot. \<open>budget\<close> is the
  invariant of the interleaved jobs, kept by every step of every job.
\<close>

section \<open>What the manager relies on\<close>

text \<open>GPUs a creation message asks for, without wrap-around, and those a list of requests holds of a GPU.\<close>

definition gpuNeed :: "CreationQueueMessageMetadata \<Rightarrow> nat" where
  "gpuNeed m = unat (mm_InstanceCount m) * (if mm_RequestedGPUCount m = 0 then 1 else unat (mm_RequestedGPUCount m))"

definition demandOf :: "string \<Rightarrow> IcmsRequest \<Rightarrow> nat" where
  "demandOf g r = (case ir_Meta r of None \<Rightarrow> 0 | Some m \<Rightarrow> if mm_GPUType m = g \<and> ir_Rejected r = [] then gpuNeed m else 0)"

definition demand :: "string \<Rightarrow> IcmsRequest list \<Rightarrow> nat" where
  "demand g rs = sum_list (map (demandOf g) rs)"

text \<open>
  The calls of a pass leave the health snapshot alone, and only a successful creation of an object changes
  the objects \<open>reqs\<close> of the API server: it adds the object.
\<close>

definition frame :: "'w qm_env \<Rightarrow> ('w \<Rightarrow> IcmsRequest list) \<Rightarrow> 'w \<Rightarrow> 'w \<Rightarrow> bool" where
  "frame env reqs w w' \<longleftrightarrow> reqs w' = reqs w \<and> qe_GetStatus env w' = qe_GetStatus env w"

definition added :: "'w qm_env \<Rightarrow> ('w \<Rightarrow> IcmsRequest list) \<Rightarrow> IcmsRequest \<Rightarrow> 'w \<Rightarrow> 'w \<Rightarrow> bool" where
  "added env reqs r w w' \<longleftrightarrow> reqs w' = reqs w @ [r] \<and> qe_GetStatus env w' = qe_GetStatus env w"

definition passWorld :: "'w qm_env \<Rightarrow> ('w \<Rightarrow> IcmsRequest list) \<Rightarrow> bool" where
  "passWorld env reqs \<longleftrightarrow>
     (\<forall>q n v w. frame env reqs w (snd (qc_ReceiveMessage (qe_client env) q n v w))) \<and>
     (\<forall>q r w. frame env reqs w (snd (qc_DeleteMessage (qe_client env) q r w))) \<and>
     (\<forall>q r v w. frame env reqs w (snd (qc_ChangeMessageVisibility (qe_client env) q r v w))) \<and>
     (\<forall>r w. frame env reqs w (snd (bk_persistStorage (qe_backend env) r w))) \<and>
     (\<forall>r w. case bk_Create (qe_backend env) r w of
              (Inl _, w') \<Rightarrow> frame env reqs w w'
            | (Inr obj, w') \<Rightarrow> obj = r \<and> added env reqs r w w')"

lemma frame_refl [simp]: "frame env reqs w w"
  by (simp add: frame_def)

lemma frame_trans: "frame env reqs w w1 \<Longrightarrow> frame env reqs w1 w2 \<Longrightarrow> frame env reqs w w2"
  by (simp add: frame_def)

lemma frame_added: "frame env reqs w w1 \<Longrightarrow> added env reqs r w1 w2 \<Longrightarrow> added env reqs r w w2"
  by (simp add: frame_def added_def)

lemma added_frame: "added env reqs r w w1 \<Longrightarrow> frame env reqs w1 w2 \<Longrightarrow> added env reqs r w w2"
  by (simp add: frame_def added_def)

lemma passWorld_frames:
  assumes "passWorld env reqs"
  shows "frame env reqs w (snd (qc_ReceiveMessage (qe_client env) q n v w))"
    and "frame env reqs w (snd (qc_DeleteMessage (qe_client env) q rh w))"
    and "frame env reqs w (snd (qc_ChangeMessageVisibility (qe_client env) q rh v w))"
    and "frame env reqs w (snd (bk_persistStorage (qe_backend env) r w))"
  using assms by (auto simp: passWorld_def)

lemma passWorld_create:
  assumes "passWorld env reqs"
  shows "bk_Create (qe_backend env) r w = (Inl e, w') \<Longrightarrow> frame env reqs w w'"
    and "bk_Create (qe_backend env) r w = (Inr obj, w') \<Longrightarrow> obj = r \<and> added env reqs r w w'"
proof -
  have "case bk_Create (qe_backend env) r w of (Inl _, w') \<Rightarrow> frame env reqs w w' | (Inr obj, w') \<Rightarrow> obj = r \<and> added env reqs r w w'"
    using assms unfolding passWorld_def by auto
  then show "bk_Create (qe_backend env) r w = (Inl e, w') \<Longrightarrow> frame env reqs w w'"
    and "bk_Create (qe_backend env) r w = (Inr obj, w') \<Longrightarrow> obj = r \<and> added env reqs r w w'"
    by simp_all
qed

section \<open>The effect of a message\<close>

text \<open>The request a creation message is recorded as.\<close>

definition creationRecord :: "'w backend \<Rightarrow> CreationQueueMessage \<Rightarrow> string \<Rightarrow> string \<Rightarrow> IcmsRequest \<Rightarrow> bool" where
  "creationRecord bk msg msgReceipt msgID r \<longleftrightarrow>
     ir_Meta r = Some (cq_Meta msg) \<and> ir_MessageID r = msgID \<and> ir_RequestID r = mm_RequestID (cq_Meta msg) \<and>
     ir_MessageReceipt r = msgReceipt \<and> (ir_Rejected r \<noteq> [] \<longleftrightarrow> \<not> is_ok (creationEnv bk msg))"

lemma creationEnv_reason: "creationEnv bk msg = Inl reason \<Longrightarrow> reason \<noteq> []"
  by (auto simp: creationEnv_def Let_def split: if_splits option.splits)

lemma create_creation_effect:
  assumes "passWorld env reqs"
    and "CreateICMSCreationMessageRequest (qe_backend env) msg rh i url w = (out, w')"
  shows "case out of
           Inl _ \<Rightarrow> frame env reqs w w'
         | Inr None \<Rightarrow> w' = w \<and> checkICMSRequestExists (qe_backend env) i (mm_RequestID (cq_Meta msg)) w = Inr True
         | Inr (Some r) \<Rightarrow> creationRecord (qe_backend env) msg rh i r \<and> added env reqs r w w'"
proof -
  let ?bk = "qe_backend env" and ?m = "cq_Meta msg"
  consider (fail) e where "checkICMSRequestExists ?bk i (mm_RequestID ?m) w = Inl e"
    | (old) "checkICMSRequestExists ?bk i (mm_RequestID ?m) w = Inr True"
    | (new) "checkICMSRequestExists ?bk i (mm_RequestID ?m) w = Inr False"
    by (cases "checkICMSRequestExists ?bk i (mm_RequestID ?m) w") auto
  then show ?thesis
  proof cases
    case new
    define o0 where "o0 = \<lparr>ir_Name = requestName ?bk (mm_RequestID ?m) w, ir_MessageID = i, ir_RequestID = mm_RequestID ?m,
                       ir_Action = mm_Action ?m, ir_MessageReceipt = rh, ir_QueueURL = url, ir_Meta = Some ?m,
                       ir_Env = cq_Env msg, ir_InstanceIds = [], ir_Rejected = []\<rparr>"
    define req where "req = (case creationEnv ?bk msg of Inl reason \<Rightarrow> o0\<lparr>ir_Rejected := reason\<rparr> | Inr e \<Rightarrow> o0\<lparr>ir_Env := e\<rparr>)"
    have rec: "creationRecord ?bk msg rh i req"
      using creationEnv_reason [of ?bk msg]
      by (cases "creationEnv ?bk msg") (simp_all add: req_def o0_def creationRecord_def)
    obtain stored w1 where st: "(if ir_Rejected req \<noteq> [] then (None, w) else bk_persistStorage ?bk req w) = (stored, w1)" by force
    have f1: "frame env reqs w w1"
      using passWorld_frames(4) [OF assms(1), of w req] st by (auto split: if_splits)
    have run: "CreateICMSCreationMessageRequest ?bk msg rh i url w =
        (case stored of Some e \<Rightarrow> (Inl e, w1)
         | None \<Rightarrow> (case bk_Create ?bk req w1 of
              (Inl e, w2) \<Rightarrow> (Inl ''failed to persist the ICMS request on the backend'', w2)
            | (Inr obj, w2) \<Rightarrow> (Inr (Some obj), w2)))"
      unfolding CreateICMSCreationMessageRequest_def Let_def new sum.case bool.case
        o0_def [symmetric] req_def [symmetric] st prod.case ..
    show ?thesis
    proof (cases stored)
      case None
      obtain res w2 where c: "bk_Create ?bk req w1 = (res, w2)" by force
      show ?thesis
      proof (cases res)
        case (Inl e)
        then have "frame env reqs w1 w2" using passWorld_create(1) [OF assms(1)] c by blast
        then show ?thesis using run assms(2) f1 by (auto simp: None c Inl intro: frame_trans)
      next
        case (Inr obj)
        then have "obj = req \<and> added env reqs req w1 w2" using passWorld_create(2) [OF assms(1)] c by blast
        then show ?thesis using run assms(2) f1 rec by (auto simp: None c Inr intro: frame_added)
      qed
    qed (use run assms(2) f1 in auto)
  qed (use assms(2) in \<open>auto simp: CreateICMSCreationMessageRequest_def Let_def\<close>)
qed

lemma create_termination_effect:
  assumes "passWorld env reqs"
    and "CreateICMSTerminationMessageRequest (qe_backend env) tm rh i w = (out, w')"
  shows "(frame env reqs w w' \<and> (out = None \<longrightarrow> checkICMSRequestExists (qe_backend env) i (tm_RequestID tm) w = Inr True)) \<or>
         (\<exists>r. out = None \<and> ir_Meta r = None \<and> ir_Action r = TerminationAction \<and> ir_MessageID r = i \<and>
            ir_RequestID r = tm_RequestID tm \<and> added env reqs r w w')"
proof -
  let ?bk = "qe_backend env"
  consider (fail) e where "checkICMSRequestExists ?bk i (tm_RequestID tm) w = Inl e"
    | (old) "checkICMSRequestExists ?bk i (tm_RequestID tm) w = Inr True"
    | (new) "checkICMSRequestExists ?bk i (tm_RequestID tm) w = Inr False"
    by (cases "checkICMSRequestExists ?bk i (tm_RequestID tm) w") auto
  then show ?thesis
  proof cases
    case new
    define r where "r = \<lparr>ir_Name = requestName ?bk (tm_RequestID tm) w, ir_MessageID = i, ir_RequestID = tm_RequestID tm,
                   ir_Action = TerminationAction, ir_MessageReceipt = rh, ir_QueueURL = [], ir_Meta = None, ir_Env = None,
                   ir_InstanceIds = tm_InstanceIds tm, ir_Rejected = []\<rparr>"
    obtain res w1 where c: "bk_Create ?bk r w = (res, w1)" by force
    have run: "CreateICMSTerminationMessageRequest ?bk tm rh i w =
        (case res of Inl e \<Rightarrow> (Some ''failed to persist the ICMS request on the backend'', w1) | Inr _ \<Rightarrow> (None, w1))"
      unfolding CreateICMSTerminationMessageRequest_def new sum.case bool.case r_def [symmetric] c by (cases res) simp_all
    show ?thesis
    proof (cases res)
      case (Inl e)
      then show ?thesis using run assms(2) passWorld_create(1) [OF assms(1)] c by auto
    next
      case (Inr obj)
      then have "added env reqs r w w1" using passWorld_create(2) [OF assms(1)] c by blast
      then show ?thesis using run assms(2) by (intro disjI2 exI [of _ r]) (simp add: Inr r_def)
    qed
  qed (use assms(2) in \<open>auto simp: CreateICMSTerminationMessageRequest_def\<close>)
qed

lemma doCreation_effect:
  assumes "passWorld env reqs" and "doCreationMessage env g cum qi m (qm, w) = (out, qm', w')"
  shows "case out of
           None \<Rightarrow> frame env reqs w w' \<and> (\<exists>msg. qe_decodeCreation env (bodyOf m) = Some msg \<and>
              checkICMSRequestExists (qe_backend env) (rm_MessageID m) (mm_RequestID (cq_Meta msg)) w = Inr True)
         | Some (Inl _) \<Rightarrow> frame env reqs w w'
         | Some (Inr used) \<Rightarrow> \<exists>msg r. qe_decodeCreation env (bodyOf m) = Some msg \<and>
              creationRequestServiceable (qe_GetStatus env w) g cum (requestSize (cq_Meta msg)) \<and>
              creationRecord (qe_backend env) msg (rm_ReceiptHandle m) (rm_MessageID m) r \<and> added env reqs r w w' \<and>
              used = (if ir_Rejected r = [] then requestSize (cq_Meta msg) else 0)"
proof (cases "qe_decodeCreation env (bodyOf m)")
  case None
  then show ?thesis using assms(2) by (auto simp: doCreationMessage_def)
next
  case (Some msg)
  let ?req = "requestSize (cq_Meta msg)"
  note vis = passWorld_frames(3) [OF assms(1), of _ qi "rm_ReceiptHandle m" 0]
    and del = passWorld_frames(2) [OF assms(1), of _ qi "rm_ReceiptHandle m"]
  show ?thesis
  proof (cases "creationRequestServiceable (qe_GetStatus env w) g cum ?req")
    case False
    then show ?thesis using assms(2) vis by (auto simp: doCreationMessage_def Some Let_def)
  next
    case True
    obtain res w1 where c: "CreateICMSCreationMessageRequest (qe_backend env) msg (rm_ReceiptHandle m) (rm_MessageID m) (mq_QueueURL qi) w = (res, w1)"
      by force
    note E = create_creation_effect [OF assms(1) c]
    show ?thesis
    proof (cases res)
      case (Inl e)
      then show ?thesis using assms(2) vis [of w1] E True by (auto simp: doCreationMessage_def Some Let_def c intro: frame_trans)
    next
      case (Inr ro)
      show ?thesis
      proof (cases ro)
        case None
        then show ?thesis
          using assms(2) E True Some by (auto simp: doCreationMessage_def Let_def c Inr GetCreationRejectionReason_def)
      next
        case r: (Some r)
        have rec: "creationRecord (qe_backend env) msg (rm_ReceiptHandle m) (rm_MessageID m) r" and add: "added env reqs r w w1"
          using E by (simp_all add: Inr r)
        have "out = Some (Inr (if ir_Rejected r = [] then ?req else 0)) \<and> added env reqs r w w'"
          using assms(2) True Some add added_frame [OF add del]
          by (auto simp: doCreationMessage_def Let_def c Inr r GetCreationRejectionReason_def split: if_splits)
        then show ?thesis using rec True Some by auto
      qed
    qed
  qed
qed

lemma doTermination_effect:
  assumes "passWorld env reqs" and "doTerminationMessage env qi m w = (out, w')"
  shows "frame env reqs w w' \<or>
         (\<exists>r tm. qe_decodeTermination env (bodyOf m) = Some tm \<and> ir_Meta r = None \<and> ir_Action r = TerminationAction \<and>
            ir_MessageID r = rm_MessageID m \<and> ir_RequestID r = tm_RequestID tm \<and> added env reqs r w w')"
proof (cases "qe_decodeTermination env (bodyOf m)")
  case None
  then show ?thesis using assms(2) by (auto simp: doTerminationMessage_def)
next
  case (Some tm)
  obtain res w1 where c: "CreateICMSTerminationMessageRequest (qe_backend env) tm (rm_ReceiptHandle m) (rm_MessageID m) w = (res, w1)"
    by force
  have "frame env reqs w1 w'"
    using assms(2) passWorld_frames(2) [OF assms(1), of w1 qi "rm_ReceiptHandle m"]
    by (auto simp: doTerminationMessage_def Some c split: option.splits prod.splits)
  then show ?thesis
    using create_termination_effect [OF assms(1) c] Some by (blast intro: frame_trans added_frame)
qed

section \<open>No GPU is promised twice\<close>

text \<open>The sizes are far from the range of \<open>uint64\<close>.\<close>

definition modestSizes :: "'w qm_env \<Rightarrow> AgentHealth \<Rightarrow> bool" where
  "modestSizes env h \<longleftrightarrow>
     (\<forall>body msg. qe_decodeCreation env body = Some msg \<longrightarrow> gpuNeed (cq_Meta msg) \<le> 2 ^ 62) \<and>
     (\<forall>g. unat (gr_Capacity (gpuUsage h g)) \<le> 2 ^ 62 \<and> unat (gr_Allocated (gpuUsage h g)) \<le> 2 ^ 62)"

lemma requestSize_need:
  assumes "gpuNeed m \<le> 2 ^ 62"
  shows "unat (requestSize m) = gpuNeed m"
proof -
  let ?c = "if mm_RequestedGPUCount m = 0 then 1 else mm_RequestedGPUCount m"
  have "unat (mm_InstanceCount m) * unat ?c < 2 ^ LENGTH(64)"
    using assms by (auto simp: gpuNeed_def split: if_splits)
  then show ?thesis
    unfolding requestSize_def gpuNeed_def unat_mult_lem by auto
qed

lemma serviceable_fits:
  assumes "creationRequestServiceable h g cum req" and "unat req \<le> 2 ^ 62" and "unat cum \<le> 2 ^ 62"
    and "unat (gr_Allocated (gpuUsage h g)) \<le> 2 ^ 62"
  shows "unat (gr_Allocated (gpuUsage h g)) + unat cum + unat req \<le> unat (gr_Capacity (gpuUsage h g)) \<and> unat (cum + req) = unat cum + unat req"
proof -
  have s: "unat (req + cum) = unat req + unat cum"
    using assms(2,3) by (subst unat_add_lem [symmetric]) simp
  have "unat (gr_Allocated (gpuUsage h g) + (req + cum)) = unat (gr_Allocated (gpuUsage h g)) + unat (req + cum)"
    using assms(2-4) s by (subst unat_add_lem [symmetric]) simp
  then show ?thesis
    using assms(1) s by (simp add: creationRequestServiceable_def HasCapacityForRequest_def word_le_nat_alt add.commute)
qed

lemma demand_simps [simp]: "demand g [] = 0" "demand g (rs @ [r]) = demand g rs + demandOf g r"
  by (simp_all add: demand_def)

text \<open>The message of a tuple asks for the GPU whose queue it came from.\<close>

definition routedTuple :: "'w qm_env \<Rightarrow> string \<Rightarrow> createMessageTuple \<Rightarrow> bool" where
  "routedTuple env g t \<longleftrightarrow> cmt_gpuName t = g \<and>
     (\<forall>msg. qe_decodeCreation env (bodyOf (cmt_message t)) = Some msg \<longrightarrow> mm_GPUType (cq_Meta msg) = g)"

text \<open>
  The counter of a job is what its GPU's new requests hold, and it fits the snapshot. Every job but
  those of terminations owns a GPU, and no GPU without a job has new requests.
\<close>

fun jobFits :: "'w qm_env \<Rightarrow> AgentHealth \<Rightarrow> (string \<Rightarrow> nat) \<Rightarrow> string option \<Rightarrow> job \<Rightarrow> bool" where
  "jobFits env h d None (TermJob ms) \<longleftrightarrow> True"
| "jobFits env h d (Some g) (CreateJob cum ts) \<longleftrightarrow>
     (\<forall>t \<in> set ts. routedTuple env g t) \<and> d g = unat cum \<and>
     (cum = 0 \<or> unat (gr_Allocated (gpuUsage h g)) + unat cum \<le> unat (gr_Capacity (gpuUsage h g)))"
| "jobFits env h d _ _ \<longleftrightarrow> False"

definition budget ::
    "'w qm_env \<Rightarrow> ('w \<Rightarrow> IcmsRequest list) \<Rightarrow> AgentHealth \<Rightarrow> IcmsRequest list \<Rightarrow> string option list \<Rightarrow> job list \<Rightarrow> 'w \<Rightarrow> bool" where
  "budget env reqs h base own jobs w \<longleftrightarrow>
     qe_GetStatus env w = h \<and> prefix base (reqs w) \<and>
     list_all2 (jobFits env h (\<lambda>g. demand g (drop (length base) (reqs w)))) own jobs \<and>
     (\<forall>g. Some g \<notin> set own \<longrightarrow> demand g (drop (length base) (reqs w)) = 0)"

definition ownersDiffer :: "string option list \<Rightarrow> bool" where
  "ownersDiffer own \<longleftrightarrow> (\<forall>i < length own. \<forall>j < length own. i \<noteq> j \<longrightarrow> own ! i \<noteq> None \<longrightarrow> own ! i \<noteq> own ! j)"

lemma jobFits_cong: "(\<And>g. o' = Some g \<Longrightarrow> d g = d' g) \<Longrightarrow> jobFits env h d o' j = jobFits env h d' o' j"
  by (cases "(env, h, d, o', j)" rule: jobFits.cases) auto

lemma creation_within:
  assumes "passWorld env reqs" and "modestSizes env (qe_GetStatus env w)" and "routedTuple env g t"
    and "unat cum \<le> 2 ^ 62"
    and "doCreationMessage env (cmt_gpuName t) cum qi (cmt_message t) (qm, w) = (Some (Inr used), qm', w')"
  defines "res \<equiv> gpuUsage (qe_GetStatus env w) g"
  shows "\<exists>r. added env reqs r w w' \<and> demandOf g r = unat used \<and> (\<forall>g'. g' \<noteq> g \<longrightarrow> demandOf g' r = 0) \<and>
           unat (cum + used) = unat cum + unat used \<and>
           (used = 0 \<or> unat (gr_Allocated res) + unat cum + unat used \<le> unat (gr_Capacity res))"
proof -
  obtain msg r where d: "qe_decodeCreation env (bodyOf (cmt_message t)) = Some msg"
    and serv: "creationRequestServiceable (qe_GetStatus env w) g cum (requestSize (cq_Meta msg))"
    and rec: "creationRecord (qe_backend env) msg (rm_ReceiptHandle (cmt_message t)) (rm_MessageID (cmt_message t)) r"
    and add: "added env reqs r w w'" and used: "used = (if ir_Rejected r = [] then requestSize (cq_Meta msg) else 0)"
    using doCreation_effect [OF assms(1,5)] assms(3) by (auto simp: routedTuple_def)
  have need: "gpuNeed (cq_Meta msg) \<le> 2 ^ 62" and alloc: "unat (gr_Allocated res) \<le> 2 ^ 62"
    using assms(2) d by (auto simp: modestSizes_def res_def)
  have size: "unat (requestSize (cq_Meta msg)) = gpuNeed (cq_Meta msg)" by (rule requestSize_need [OF need])
  have gpu: "mm_GPUType (cq_Meta msg) = g" using assms(3) d by (simp add: routedTuple_def)
  have "demandOf g r = unat used" and "\<forall>g'. g' \<noteq> g \<longrightarrow> demandOf g' r = 0"
    using rec gpu size by (simp_all add: demandOf_def creationRecord_def used)
  then show ?thesis
    using add used serviceable_fits [OF serv _ assms(4)] need alloc size by (auto simp: res_def)
qed

lemma list_all2_set:
  assumes "list_all2 P xs ys" and "i < length ys" and "P (xs ! i) y"
  shows "list_all2 P xs (ys[i := y])"
  using assms by (auto simp: list_all2_conv_all_nth nth_list_update)

lemma budget_same:
  assumes "budget env reqs h base own jobs w" and "i < length jobs" and "frame env reqs w w'"
    and "jobFits env h (\<lambda>g. demand g (drop (length base) (reqs w))) (own ! i) j"
  shows "budget env reqs h base own (jobs[i := j]) w'"
  using assms list_all2_set [of _ own jobs i j] by (auto simp: budget_def frame_def)

lemma budget_more:
  assumes "ownersDiffer own" and "budget env reqs h base own jobs w" and i: "i < length jobs" and "added env reqs r w w'"
    and j: "jobFits env h (\<lambda>g. demand g (drop (length base) (reqs w)) + demandOf g r) (own ! i) j"
    and others: "\<And>g. own ! i \<noteq> Some g \<Longrightarrow> demandOf g r = 0"
  shows "budget env reqs h base own (jobs[i := j]) w'"
proof -
  let ?d = "\<lambda>g. demand g (drop (length base) (reqs w))"
  have fit: "list_all2 (jobFits env h ?d) own jobs" and pre: "prefix base (reqs w)"
    using assms(2) by (auto simp: budget_def)
  then have len: "length own = length jobs" by (simp add: list_all2_conv_all_nth)
  have d': "demand g (drop (length base) (reqs w')) = ?d g + demandOf g r" for g
    using assms(4) prefix_length_le [OF pre] by (simp add: added_def)
  have "jobFits env h (\<lambda>g. ?d g + demandOf g r) (own ! l) (jobs[i := j] ! l)" if l: "l < length jobs" for l
  proof (cases "l = i")
    case False
    then have "own ! l = Some g \<Longrightarrow> own ! i \<noteq> Some g" for g
      using assms(1) l i len by (metis option.distinct(1) ownersDiffer_def)
    then have "jobFits env h (\<lambda>g. ?d g + demandOf g r) (own ! l) (jobs ! l) = jobFits env h ?d (own ! l) (jobs ! l)"
      using others by (intro jobFits_cong) simp
    then show ?thesis using False fit l by (simp add: list_all2_conv_all_nth)
  qed (use i j in simp)
  then have "list_all2 (jobFits env h (\<lambda>g. demand g (drop (length base) (reqs w')))) own (jobs[i := j])"
    by (simp add: list_all2_conv_all_nth len d')
  moreover have "Some g \<notin> set own \<Longrightarrow> demandOf g r = 0" for g
    using others i len by (metis nth_mem)
  ultimately show ?thesis
    using assms(2,4) by (auto simp: budget_def d') (auto simp: added_def)
qed

lemma term_step_budget:
  assumes "passWorld env reqs" and "ownersDiffer own" and "budget env reqs h base own jobs w" and "i < length jobs"
    and "jobs ! i = TermJob ms" and "stepJob env tq (TermJob ms) (qm, w) = Some (j, qm', w')"
  shows "budget env reqs h base own (jobs[i := j]) w'"
proof -
  have "jobFits env h (\<lambda>g. demand g (drop (length base) (reqs w))) (own ! i) (jobs ! i)"
    using assms(3,4) by (simp add: budget_def list_all2_conv_all_nth)
  then have own: "own ! i = None" using assms(5) by (cases "own ! i") auto
  show ?thesis
  proof (cases ms)
    case Nil
    then have "j = TermJob []" "w' = w" using assms(6) by auto
    then show ?thesis by (intro budget_same [OF assms(3,4)]) (simp_all add: own)
  next
    case (Cons m ms')
    then have j: "j = TermJob ms'" and w': "w' = snd (doTerminationMessage env tq m w)" using assms(6) by auto
    from doTermination_effect [OF assms(1), of tq m w "fst (doTerminationMessage env tq m w)" w'] w'
    consider "frame env reqs w w'" | r where "ir_Meta r = None" "added env reqs r w w'" by auto
    then show ?thesis
    proof cases
      case 1
      then show ?thesis by (rule budget_same [OF assms(3,4)]) (simp add: own j)
    next
      case (2 r)
      from 2(2) show ?thesis
        by (rule budget_more [OF assms(2-4)]) (use 2(1) in \<open>simp_all add: own j demandOf_def\<close>)
    qed
  qed
qed

lemma create_step_budget:
  assumes "passWorld env reqs" and "modestSizes env h" and "ownersDiffer own" and "budget env reqs h base own jobs w"
    and "i < length jobs" and "jobs ! i = CreateJob cum ts" and "stepJob env tq (CreateJob cum ts) (qm, w) = Some (j, qm', w')"
  shows "budget env reqs h base own (jobs[i := j]) w'"
proof -
  let ?d = "\<lambda>g. demand g (drop (length base) (reqs w))"
  have fit: "jobFits env h ?d (own ! i) (CreateJob cum ts)" and status: "qe_GetStatus env w = h"
    using assms(4-6) by (auto simp: budget_def list_all2_conv_all_nth)
  then obtain g where own: "own ! i = Some g" by (cases "own ! i") auto
  have job: "\<forall>t \<in> set ts. routedTuple env g t" "?d g = unat cum"
    "cum = 0 \<or> unat (gr_Allocated (gpuUsage h g)) + unat cum \<le> unat (gr_Capacity (gpuUsage h g))"
    using fit by (simp_all add: own)
  show ?thesis
  proof (cases ts)
    case Nil
    then have "j = CreateJob cum []" "w' = w" using assms(7) by auto
    then show ?thesis using job by (intro budget_same [OF assms(4,5)]) (simp_all add: own)
  next
    case (Cons t ts')
    obtain out qm2 w2 where c: "doCreationMessage env (cmt_gpuName t) cum (cmt_queueInfo t) (cmt_message t) (qm, w) = (out, qm2, w2)"
      by (metis prod_cases3)
    consider (bad) e where "out = Some (Inl e)" "j = CreateJob cum ts'" "w' = w2"
      | (good) used where "out = Some (Inr used)" "j = CreateJob (cum + used) ts'" "w' = w2"
      using assms(7) by (auto simp: Cons c split: option.splits sum.splits)
    then show ?thesis
    proof cases
      case bad
      then show ?thesis
        using doCreation_effect [OF assms(1) c] job by (intro budget_same [OF assms(4,5)]) (simp_all add: own Cons)
    next
      case good
      have "unat (gr_Capacity (gpuUsage h g)) \<le> 2 ^ 62" using assms(2) by (simp add: modestSizes_def)
      then have cum: "unat cum \<le> 2 ^ 62" using job(3) by auto
      obtain r where "added env reqs r w w2" "demandOf g r = unat used" "\<forall>g'. g' \<noteq> g \<longrightarrow> demandOf g' r = 0"
        "unat (cum + used) = unat cum + unat used"
        "used = 0 \<or> unat (gr_Allocated (gpuUsage h g)) + unat cum + unat used \<le> unat (gr_Capacity (gpuUsage h g))"
        using creation_within [OF assms(1) _ _ cum c [unfolded good(1)], of g] status assms(2) job(1) by (auto simp: Cons)
      then show ?thesis
        using good job by (intro budget_more [OF assms(3-5), of r]) (auto simp: own Cons)
    qed
  qed
qed

lemma schedule_budget:
  assumes "passWorld env reqs" and "modestSizes env h" and "ownersDiffer own"
    and "budget env reqs h base own jobs w" and "runSchedule env tq sched (jobs, qm, w) = Some (jobs', qm', w')"
  shows "budget env reqs h base own jobs' w'"
  using assms(4,5)
proof (induction sched arbitrary: jobs qm w)
  case (Cons i sched)
  show ?case
  proof (cases "i < length jobs")
    case True
    then obtain j qm1 w1 where step: "stepJob env tq (jobs ! i) (qm, w) = Some (j, qm1, w1)"
      and rest: "runSchedule env tq sched (jobs[i := j], qm1, w1) = Some (jobs', qm', w')"
      using Cons.prems(2) by (auto split: option.splits)
    have "budget env reqs h base own (jobs[i := j]) w1"
      using term_step_budget [OF assms(1,3) Cons.prems(1) True] create_step_budget [OF assms(1-3) Cons.prems(1) True] step
      by (cases "jobs ! i") auto
    then show ?thesis using rest by (rule Cons.IH)
  qed (use Cons in simp)
qed simp

lemma budget_bound:
  assumes "budget env reqs h base own jobs w"
  shows "demand g (drop (length base) (reqs w)) \<le> unat (gr_Capacity (gpuUsage h g)) - unat (gr_Allocated (gpuUsage h g))"
proof (cases "Some g \<in> set own")
  case True
  then obtain i where i: "i < length own" "own ! i = Some g" by (auto simp: in_set_conv_nth)
  then have "jobFits env h (\<lambda>g. demand g (drop (length base) (reqs w))) (Some g) (jobs ! i)"
    using assms by (auto simp: budget_def list_all2_conv_all_nth)
  then show ?thesis by (cases "jobs ! i") auto
qed (use assms in \<open>simp add: budget_def\<close>)

section \<open>A whole pass\<close>

definition allQueues :: "QueueCredentials \<Rightarrow> (string \<times> MessageQueueInfo) set" where
  "allQueues creds = set (qd_CreationQueues creds) \<union> set (qd_ClusterCreationQueues creds) \<union> set (qd_TaskClusterCreationQueues creds)"

text \<open>The control plane puts a message into a queue of the GPU it asks for.\<close>

definition routedQueues :: "'w qm_env \<Rightarrow> QueueCredentials \<Rightarrow> bool" where
  "routedQueues env creds \<longleftrightarrow>
     (\<forall>(g, qi) \<in> allQueues creds. \<forall>n v w ms. fst (qc_ReceiveMessage (qe_client env) qi n v w) = Inr ms \<longrightarrow>
        (\<forall>m \<in> set ms. \<forall>msg. qe_decodeCreation env (bodyOf m) = Some msg \<longrightarrow> mm_GPUType (cq_Meta msg) = g))"

lemma getQueues_subset: "getQueues h qis qm = (qs, qm') \<Longrightarrow> q \<in> set qs \<Longrightarrow> (qw_gpuName q, qw_qi q) \<in> set qis"
proof (induction qis arbitrary: qm qs)
  case (Cons p qis)
  obtain g qi where p: "p = (g, qi)" by force
  obtain b qm1 where skip: "mustSkipQueueForGPU h g qm = (b, qm1)" by force
  obtain qs2 qm2 where rest: "getQueues h qis qm1 = (qs2, qm2)" by force
  then show ?case using Cons.IH [of qm1 qs2] Cons.prems skip by (auto simp: p split: if_splits)
qed simp

lemma collect_subset:
  assumes "collectAvailableCreationQueues order h qm = (inputs, meta, qm')" and "map_order order" and "q \<in> set inputs"
  shows "(qw_gpuName q, qw_qi q) \<in> allQueues (qm_qcreds qm)"
proof -
  have order: "set (order qis) = set qis" for qis using assms(2) by (metis map_order_def mset_eq_setD)
  obtain q1 qm1 where g1: "getQueues h (order (qd_CreationQueues (qm_qcreds qm))) qm = (q1, qm1)" by force
  obtain q2 qm2 where g2: "getQueues h (order (qd_ClusterCreationQueues (qm_qcreds qm))) qm1 = (q2, qm2)" by force
  obtain q3 qm3 where g3: "getQueues h (order (qd_TaskClusterCreationQueues (qm_qcreds qm))) qm2 = (q3, qm3)" by force
  have "inputs = q1 @ q2 @ q3"
    using assms(1) by (auto simp: collectAvailableCreationQueues_def Let_def g1 g2 g3)
  then show ?thesis
    using assms(3) getQueues_subset [OF g1, of q] getQueues_subset [OF g2, of q] getQueues_subset [OF g3, of q]
    by (auto simp: allQueues_def order)
qed

lemma popAll_received:
  assumes "popAll env qm inputs w = (outs, w')"
  shows "length outs = length inputs \<and>
    (\<forall>(q, out) \<in> set (zip inputs outs). \<exists>n v w. fst (qc_ReceiveMessage (qe_client env) (qw_qi q) n v w) = out)"
  using assms
proof (induction inputs arbitrary: w outs)
  case (Cons q qs)
  obtain out w1 where p: "tryPopMessage env qm (qw_qi q) (qw_vtoSec q) w = (out, w1)" by force
  obtain outs1 w2 where r: "popAll env qm qs w1 = (outs1, w2)" by force
  have "outs = out # outs1" "w' = w2" using Cons.prems by (simp_all add: p r)
  then show ?case using Cons.IH [of w1 outs1] r p by (auto simp: tryPopMessage_def intro: fstI)
qed simp

lemma popAll_frame:
  assumes "passWorld env reqs"
  shows "popAll env qm inputs w = (outs, w') \<Longrightarrow> frame env reqs w w'"
proof (induction inputs arbitrary: w outs)
  case (Cons q qs)
  obtain out w1 where p: "tryPopMessage env qm (qw_qi q) (qw_vtoSec q) w = (out, w1)" by force
  obtain outs1 w2 where r: "popAll env qm qs w1 = (outs1, w2)" by force
  have "frame env reqs w w1"
    using passWorld_frames(1) [OF assms, of w] p by (metis snd_conv tryPopMessage_def)
  moreover have "frame env reqs w1 w'" using Cons.IH [of w1 outs1] Cons.prems by (simp add: p r)
  ultimately show ?case by (rule frame_trans)
qed simp

lemma fold_frame: "(\<And>x w. frame env reqs w (f x w)) \<Longrightarrow> frame env reqs w (fold f xs w)"
  by (induction xs arbitrary: w) (auto intro: frame_trans)

lemma deleteRedelivered_frame:
  assumes "passWorld env reqs"
  shows "frame env reqs w (deleteRedeliveredRejectedMessages env ks batches w)"
proof -
  have "frame env reqs w (deleteRedelivered env ks qi m w)" for qi m w
    using passWorld_frames(2) [OF assms] by (simp add: deleteRedelivered_def)
  then have "frame env reqs w (fold (deleteRedelivered env ks qi) ms w)" for qi ms w by (intro fold_frame)
  then show ?thesis unfolding deleteRedeliveredRejectedMessages_def by (intro fold_frame) (auto split: sum.splits)
qed

lemma subseq_set: "subseq xs ys \<Longrightarrow> set xs \<subseteq> set ys"
  by (induction rule: list_emb.induct) auto

lemma set_iter: "set (newIterCreationMessageMatrix k matrix) \<subseteq> set (concat matrix)"
  unfolding newIterCreationMessageMatrix_def by (auto split: if_splits)

text \<open>The jobs of a pass satisfy the invariant at its start.\<close>

lemma planned_budget:
  assumes "map_order order" and "routedQueues env (qm_qcreds qm)"
    and c: "collectAvailableCreationQueues order h qm = (inputs, meta, qm1)"
    and p: "popAll env qm1 inputs w1 = (outs, w2)"
    and j: "planJobs env k inputs meta termOut outs existing = Some (jobs, err)"
    and st: "qe_GetStatus env w = h"
  shows "\<exists>own. ownersDiffer own \<and> budget env reqs h (reqs w) own jobs w"
proof -
  obtain terms known where t: "newTerminations env termOut existing = (terms, known)" by force
  define R where "R = receivedNew env (zip inputs outs) known"
  define ring where "ring g = ringOf (ringStart qm g mod queueCount g inputs) (queueCount g inputs) (columnsOf g R)" for g
  define gs where "gs = filter (\<lambda>g. columnsOf g R \<noteq> []) (remdups (map qw_gpuName inputs))"
  note P = popAll_received [OF p]
  have jobs: "jobs = map (\<lambda>m. TermJob [m]) terms @ map (\<lambda>g. CreateJob 0 (newIterCreationMessageMatrix k (ring g))) gs"
    using planJobs_collected [OF c conjunct1 [OF P] t, of k] j by (simp add: ring_def gs_def R_def)
  let ?own = "map (\<lambda>_. None) terms @ map Some gs"
  have "routedTuple env g x" if x: "x \<in> set (newIterCreationMessageMatrix k (ring g))" for g x
  proof -
    have "x \<in> set (concat (columnsOf g R))"
      using x set_iter mset_eq_setD [OF concat_ringOf] unfolding ring_def by blast
    then obtain b where b: "b \<in> set R" "qw_gpuName (fst b) = g" "x \<in> set (tuplesOf b)" by (auto simp: columnsOf_def)
    obtain ms where ms: "(fst b, Inr ms) \<in> set (zip inputs outs)" "set (snd b) \<subseteq> set ms"
      using receivedNew_new [OF R_def] b(1) subseq_set by blast
    have "(g, qw_qi (fst b)) \<in> allQueues (qm_qcreds qm)"
      using collect_subset [OF c assms(1), of "fst b"] ms(1) b(2) by (auto dest: set_zip_leftD)
    moreover obtain n v w where "fst (qc_ReceiveMessage (qe_client env) (qw_qi (fst b)) n v w) = Inr ms"
      using bspec [OF conjunct2 [OF P] ms(1)] by auto
    moreover have "cmt_message x \<in> set ms" "cmt_gpuName x = g" using b ms(2) by (auto simp: tuplesOf_def)
    ultimately show ?thesis using assms(2) unfolding routedQueues_def routedTuple_def by blast
  qed
  then have "budget env reqs h (reqs w) ?own jobs w"
    using st by (auto simp: budget_def jobs list_all2_append list.rel_map list.rel_refl_strong)
  moreover have "distinct gs" by (simp add: gs_def)
  then have "ownersDiffer ?own" by (auto simp: ownersDiffer_def nth_append nth_eq_iff_index_eq)
  ultimately show ?thesis by blast
qed

definition onlyTerminations :: "('w \<Rightarrow> IcmsRequest list) \<Rightarrow> 'w \<Rightarrow> 'w \<Rightarrow> bool" where
  "onlyTerminations reqs w w' \<longleftrightarrow>
     (\<exists>new. reqs w' = reqs w @ new \<and> (\<forall>r \<in> set new. ir_Action r = TerminationAction \<and> ir_Meta r = None))"

lemma onlyTerminations_frame: "frame env reqs w w' \<Longrightarrow> onlyTerminations reqs w w'"
  by (simp add: frame_def onlyTerminations_def)

lemma onlyTerminations_trans: "onlyTerminations reqs w w1 \<Longrightarrow> onlyTerminations reqs w1 w2 \<Longrightarrow> onlyTerminations reqs w w2"
  unfolding onlyTerminations_def by fastforce

lemma onlyTerminations_demand:
  "onlyTerminations reqs w w' \<Longrightarrow> \<exists>new. reqs w' = reqs w @ new \<and> (\<forall>g. demand g new = 0)"
  by (auto simp: onlyTerminations_def demand_def demandOf_def)

lemma terminateEach_only:
  assumes "passWorld env reqs"
  shows "onlyTerminations reqs w (terminateEach env tq existing ms w)"
  unfolding terminateEach_def
proof (induction ms arbitrary: w)
  case Nil
  show ?case by (simp add: onlyTerminations_def)
next
  case (Cons m ms)
  let ?w1 = "snd (doTerminationMessage env tq m w)"
  have "onlyTerminations reqs w ?w1"
    using doTermination_effect [OF assms, of tq m w "fst (doTerminationMessage env tq m w)" ?w1]
    by (auto simp: onlyTerminations_def frame_def added_def)
  then show ?case using Cons.IH [of ?w1] Cons.IH [of w] by (auto intro: onlyTerminations_trans)
qed

lemma syncPaused_only:
  assumes "passWorld env reqs" and "syncPaused env qm w = (res, qm', w')"
  shows "onlyTerminations reqs w w' \<and> qm' = qm"
proof -
  obtain out w1 where p: "tryPopMessage env qm (qd_TerminationQueue (qm_qcreds qm)) defaultVisibilityTimeoutSeconds w = (out, w1)" by force
  have "onlyTerminations reqs w w1"
    using passWorld_frames(1) [OF assms(1), of w] p by (metis onlyTerminations_frame snd_conv tryPopMessage_def)
  moreover have "onlyTerminations reqs w w" by (rule onlyTerminations_frame [OF frame_refl])
  ultimately show ?thesis
    using assms(2) terminateEach_only [OF assms(1)]
    by (auto simp: syncPaused_def Let_def p split: if_splits sum.splits intro: onlyTerminations_trans)
qed

lemma syncMaintenance_only:
  assumes "passWorld env reqs" and "syncMaintenance env qm w = (res, qm', w')"
  shows "onlyTerminations reqs w w' \<and> (\<exists>ok. qm' = SetStatusOK ok qm)"
proof -
  obtain out w1 where p: "tryPopMessage env qm (qd_TerminationQueue (qm_qcreds qm)) defaultVisibilityTimeoutSeconds w = (out, w1)" by force
  have "onlyTerminations reqs w w1"
    using passWorld_frames(1) [OF assms(1), of w] p by (metis onlyTerminations_frame snd_conv tryPopMessage_def)
  moreover have "qm = SetStatusOK (qm_healthy qm) qm" by (simp add: SetStatusOK_def)
  ultimately show ?thesis
    using assms(2) terminateEach_only [OF assms(1)]
    by (auto simp: syncMaintenance_def Let_def p split: sum.splits intro: onlyTerminations_trans)
qed

lemma runJobs_budget:
  assumes "passWorld env reqs" and "modestSizes env h" and "ownersDiffer own"
    and "budget env reqs h base own jobs w" and "runJobs env tq sched (jobs, qm, w) = Some (jobs', qm', w')"
  shows "budget env reqs h base own jobs' w'"
  using assms(5) schedule_budget [OF assms(1-3)] assms(4)
  by (auto simp: runJobs_def split: option.splits) blast

lemma syncActive_bound:
  assumes W: "passWorld env reqs" and "map_order order" and "routedQueues env (qm_qcreds qm)"
    and M: "modestSizes env (qe_GetStatus env w)" and run: "syncActive env order sched qm w = Some (res, qm', w')"
  shows "\<exists>new. reqs w' = reqs w @ new \<and>
           (\<forall>g. demand g new \<le> unat (gr_Capacity (gpuUsage (qe_GetStatus env w) g)) - unat (gr_Allocated (gpuUsage (qe_GetStatus env w) g)))"
proof -
  let ?h = "qe_GetStatus env w" and ?tq = "qd_TerminationQueue (qm_qcreds qm)"
  obtain inputs meta qm1 where c: "collectAvailableCreationQueues order ?h qm = (inputs, meta, qm1)" by (metis prod_cases3)
  obtain termOut w1 where t: "tryPopMessage env qm1 ?tq defaultVisibilityTimeoutSeconds w = (termOut, w1)" by force
  obtain outs w2 where p: "popAll env qm1 inputs w1 = (outs, w2)" by force
  have "frame env reqs w w1" using passWorld_frames(1) [OF W, of w] t by (metis snd_conv tryPopMessage_def)
  then have f2: "frame env reqs w w2" using popAll_frame [OF W p] by (rule frame_trans)
  show ?thesis
  proof (cases "bk_Lister (qe_backend env) w2")
    case (Inl e)
    then have "w' = w2" using run by (simp add: syncActive_def c t p Let_def)
    then show ?thesis using f2 by (simp add: frame_def)
  next
    case (Inr rs)
    define w3 where "w3 = deleteRedeliveredRejectedMessages env (requestKeys (filter (\<lambda>r. ir_Rejected r \<noteq> []) rs)) (zip inputs outs) w2"
    have f3: "frame env reqs w w3" using f2 deleteRedelivered_frame [OF W] unfolding w3_def by (rule frame_trans)
    obtain jobs err where j: "planJobs env (nat (qm_maxQueueMessages qm1)) inputs meta termOut outs (requestKeys rs) = Some (jobs, err)"
      and r: "\<exists>jobs' qm2. runJobs env ?tq sched (jobs, qm1, w3) = Some (jobs', qm2, w')"
      using run by (auto simp: syncActive_def c t p Inr Let_def simp flip: w3_def split: option.splits)
    have "qe_GetStatus env w3 = ?h" using f3 by (simp add: frame_def)
    then obtain own where "ownersDiffer own" "budget env reqs ?h (reqs w3) own jobs w3"
      using planned_budget [OF assms(2,3) c p j] by blast
    then obtain jobs' where b: "budget env reqs ?h (reqs w3) own jobs' w'"
      using runJobs_budget [OF W M] r by blast
    then have "prefix (reqs w3) (reqs w')" by (simp add: budget_def)
    moreover have "reqs w3 = reqs w" using f3 by (simp add: frame_def)
    ultimately obtain new where "reqs w' = reqs w @ new" by (auto elim: prefixE)
    then show ?thesis using budget_bound [OF b] \<open>reqs w3 = reqs w\<close> by auto
  qed
qed

section \<open>The environment in memory\<close>

lemma mem_passWorld: "passWorld (memEnv belongs h) wd_requests"
  by (simp add: passWorld_def frame_def added_def memEnv_def memClient_def memBackend_def Let_def)

lemma letters_le: "unat (letters cs) \<le> length cs"
proof (induction cs)
  case (Cons c cs)
  then show ?case by (simp add: unat_word_ariths)
qed simp

lemma mem_modest:
  assumes "k \<le> 2 ^ 62"
  shows "modestSizes (memEnv belongs (roomFor k)) (roomFor k)"
proof -
  have "gpuNeed (cq_Meta msg) \<le> 2 ^ 62" if d: "memDecode body = Some msg" for body msg
  proof -
    obtain g cs where body: "body = g # cs" using d by (cases body) (auto simp: memDecode_def)
    have "length cs \<le> 8" "mm_InstanceCount (cq_Meta msg) = letters cs" "mm_RequestedGPUCount (cq_Meta msg) = 0"
      using d by (auto simp: memDecode_def body split: if_splits)
    then have "gpuNeed (cq_Meta msg) \<le> 8" using letters_le [of cs] by (simp add: gpuNeed_def)
    then show ?thesis by simp
  qed
  moreover have "unat k \<le> 2 ^ 62" using assms by (simp add: word_le_nat_alt)
  ultimately show ?thesis by (auto simp: modestSizes_def memEnv_def roomFor_def gpuUsage_def)
qed

lemma mem_routed: "routedQueues (memEnv byGPU h) twoQueues"
  by (auto simp: routedQueues_def memEnv_def memClient_def Let_def allQueues_def twoQueues_def byGPU_def memDecode_def
      dest!: in_set_takeD split: list.splits if_splits)

lemma map_order_id: "map_order id"
  by (simp add: map_order_def)

definition oneBatch :: memWorld where
  "oneBatch = \<lparr>wd_queue = (\<lambda>u. if u = ''c'' then [aMessage ''1'' ''Axx'', aMessage ''2'' ''Axx''] else if u = ''t'' then [aMessage ''3'' ''Ax''] else []),
     wd_requests = [], wd_cached = [], wd_removed = []\<rparr>"

lemma oneBatch_run:
  "map_option (\<lambda>(res, qm, w). map ir_RequestID (wd_requests w))
     (SyncQueues (memEnv byGPU (roomFor 4)) id [] (freshManager twoQueues) oneBatch) = Some [''Axx'', ''Ax'']"
  by code_simp

section \<open>Properties\<close>



end
