(* ===== verification/QueuePass.thy ===== *)
theory QueuePass
  imports QueueManagerSpec
begin

text \<open>
  The other promises of a pass of the queue manager: that it returns, what a pass that is paused does, and
  that a message is recorded before it is deleted; and two runs that go wrong. \<open>freshPending\<close> is the invariant of
  the interleaved jobs for the first: no message still to handle is recorded, and no two have the same key.
\<close>

section \<open>The keys of the messages still to handle\<close>

text \<open>
  The decoders of the loop over the messages and of the handlers agree on the ID of a request, which is
  not empty, and listing the objects of a message gives the objects of the API server with its label.
\<close>

definition namedRequests :: "'w qm_env \<Rightarrow> bool" where
  "namedRequests env \<longleftrightarrow>
     (\<forall>body msg. qe_decodeCreation env body = Some msg \<longrightarrow>
        mm_RequestID (cq_Meta msg) \<noteq> [] \<and> qe_decodeRequestID env body = Some (mm_RequestID (cq_Meta msg))) \<and>
     (\<forall>body tm. qe_decodeTermination env body = Some tm \<longrightarrow>
        tm_RequestID tm \<noteq> [] \<and> qe_decodeRequestID env body = Some (tm_RequestID tm))"

definition listsRequests :: "'w qm_env \<Rightarrow> ('w \<Rightarrow> IcmsRequest list) \<Rightarrow> bool" where
  "listsRequests env reqs \<longleftrightarrow>
     (\<forall>i w rs. bk_List (qe_backend env) i w = Inr rs \<longrightarrow> (\<forall>r \<in> set rs. r \<in> set (reqs w) \<and> ir_MessageID r = i))"

text \<open>The request of a message is not recorded: no object has its label and its ID, or its label and no ID.\<close>

definition unrecorded :: "'w qm_env \<Rightarrow> IcmsRequest list \<Rightarrow> ReceiveMessageOutput \<Rightarrow> bool" where
  "unrecorded env rs m \<longleftrightarrow>
     (\<forall>r \<in> set rs. ir_MessageID r = rm_MessageID m \<longrightarrow>
        ir_RequestID r \<noteq> [] \<and> queueRequestKey (ir_MessageID r) (ir_RequestID r) \<noteq> queueMessageKey env m)"

fun jobPending :: "job \<Rightarrow> ReceiveMessageOutput list" where
  "jobPending (TermJob ms) = ms"
| "jobPending (CreateJob _ ts) = map cmt_message ts"

definition pending :: "job list \<Rightarrow> ReceiveMessageOutput list" where
  "pending jobs = concat (map jobPending jobs)"

definition freshPending :: "'w qm_env \<Rightarrow> IcmsRequest list \<Rightarrow> job list \<Rightarrow> bool" where
  "freshPending env rs jobs \<longleftrightarrow>
     distinct (map (queueMessageKey env) (pending jobs)) \<and>
     (\<forall>m \<in> set (pending jobs). rm_Body m \<noteq> None \<and> unrecorded env rs m)"

lemma mset_pending_update:
  "i < length jobs \<Longrightarrow> mset (pending (jobs[i := j])) + mset (jobPending (jobs ! i)) = mset (pending jobs) + mset (jobPending j)"
proof (induction jobs arbitrary: i)
  case (Cons x jobs)
  then show ?case by (cases i) (auto simp: pending_def ac_simps)
qed simp

lemma bodyOf_key: "rm_Body m \<noteq> None \<Longrightarrow> qe_decodeRequestID env (bodyOf m) = Some i \<Longrightarrow> queueMessageKey env m = queueRequestKey (rm_MessageID m) i"
  by (auto simp: queueMessageKey_def bodyOf_def)

text \<open>An unrecorded message passes the check for existing objects.\<close>

lemma unrecorded_new:
  assumes "listsRequests env reqs" and "unrecorded env (reqs w) m" and "rm_Body m \<noteq> None"
    and "qe_decodeRequestID env (bodyOf m) = Some i" and "i \<noteq> []"
  shows "checkICMSRequestExists (qe_backend env) (rm_MessageID m) i w \<noteq> Inr True"
proof
  assume "checkICMSRequestExists (qe_backend env) (rm_MessageID m) i w = Inr True"
  then obtain rs r where "bk_List (qe_backend env) (rm_MessageID m) w = Inr rs" "r \<in> set rs" "ir_RequestID r = [] \<or> ir_RequestID r = i"
    using assms(5) by (auto simp: checkICMSRequestExists_def split: sum.splits if_splits)
  then have "r \<in> set (reqs w)" "ir_MessageID r = rm_MessageID m" "ir_RequestID r = [] \<or> ir_RequestID r = i"
    using assms(1) unfolding listsRequests_def by blast+
  then show False
    using assms(2) bodyOf_key [OF assms(3,4)] unfolding unrecorded_def by auto
qed

text \<open>Handling a message leaves those with other keys unrecorded.\<close>

lemma unrecorded_added:
  assumes "unrecorded env rs m'" and "ir_MessageID r = rm_MessageID m" and "ir_RequestID r = i" and "i \<noteq> []"
    and "queueMessageKey env m = queueRequestKey (rm_MessageID m) i" and "queueMessageKey env m' \<noteq> queueMessageKey env m"
  shows "unrecorded env (rs @ [r]) m'"
  using assms by (auto simp: unrecorded_def)

lemma freshPending_update:
  assumes "freshPending env rs jobs" and "i < length jobs" and "jobPending (jobs ! i) = m # jobPending j"
    and "\<And>m'. m' \<in> set (pending (jobs[i := j])) \<Longrightarrow> queueMessageKey env m' \<noteq> queueMessageKey env m \<Longrightarrow> unrecorded env rs m' \<Longrightarrow> unrecorded env rs' m'"
  shows "freshPending env rs' (jobs[i := j])"
proof -
  have "mset (pending jobs) = add_mset m (mset (pending (jobs[i := j])))"
    using mset_pending_update [OF assms(2), of j] assms(3) by simp
  then have all: "mset (pending jobs) = mset (m # pending (jobs[i := j]))" by simp
  then have keys: "mset (map (queueMessageKey env) (pending jobs)) = mset (map (queueMessageKey env) (m # pending (jobs[i := j])))" by simp
  have d: "distinct (map (queueMessageKey env) (m # pending (jobs[i := j])))"
    using assms(1) unfolding freshPending_def mset_eq_imp_distinct_iff [OF keys] by (rule conjunct1)
  have sub: "set (pending (jobs[i := j])) \<subseteq> set (pending jobs)" using mset_eq_setD [OF all] by auto
  show ?thesis
    unfolding freshPending_def
  proof (intro conjI ballI)
    show "distinct (map (queueMessageKey env) (pending (jobs[i := j])))" using d by simp
    fix m' assume m': "m' \<in> set (pending (jobs[i := j]))"
    then have "m' \<in> set (pending jobs)" using sub by blast
    moreover have "queueMessageKey env m' \<noteq> queueMessageKey env m" using d m' by (auto simp: rev_image_eqI)
    ultimately show "rm_Body m' \<noteq> None" and "unrecorded env rs' m'"
      using assms(1) assms(4) [OF m'] unfolding freshPending_def by auto
  qed
qed

lemma pending_mem: "i < length jobs \<Longrightarrow> m \<in> set (jobPending (jobs ! i)) \<Longrightarrow> m \<in> set (pending jobs)"
  by (auto simp: pending_def)

text \<open>Handling a message adds no object or one with its label and ID.\<close>

definition handledMessage :: "'w qm_env \<Rightarrow> ('w \<Rightarrow> IcmsRequest list) \<Rightarrow> ReceiveMessageOutput \<Rightarrow> 'w \<Rightarrow> 'w \<Rightarrow> bool" where
  "handledMessage env reqs m w w' \<longleftrightarrow> frame env reqs w w' \<or>
     (\<exists>r k. added env reqs r w w' \<and> ir_MessageID r = rm_MessageID m \<and> ir_RequestID r = k \<and> k \<noteq> [] \<and> qe_decodeRequestID env (bodyOf m) = Some k)"

lemma doTermination_handled:
  assumes "passWorld env reqs" and "namedRequests env"
  shows "handledMessage env reqs m w (snd (doTerminationMessage env tq m w))" (is "handledMessage _ _ _ _ ?w'")
proof -
  have "tm_RequestID tm \<noteq> [] \<and> qe_decodeRequestID env (bodyOf m) = Some (tm_RequestID tm)"
    if "qe_decodeTermination env (bodyOf m) = Some tm" for tm
    using assms(2) that by (auto simp: namedRequests_def)
  then show ?thesis
    using doTermination_effect [OF assms(1), of tq m w "fst (doTerminationMessage env tq m w)" ?w', OF prod.collapse [symmetric]]
    unfolding handledMessage_def by blast
qed

lemma doCreation_handled:
  assumes "passWorld env reqs" and "namedRequests env" and "doCreationMessage env g cum qi m (qm, w) = (Some res, qm', w')"
  shows "handledMessage env reqs m w w'"
proof (cases res)
  case (Inr used)
  then obtain msg r where "qe_decodeCreation env (bodyOf m) = Some msg" "added env reqs r w w'"
    "creationRecord (qe_backend env) msg (rm_ReceiptHandle m) (rm_MessageID m) r"
    using doCreation_effect [OF assms(1,3)] by auto
  then show ?thesis using assms(2) unfolding namedRequests_def creationRecord_def handledMessage_def by blast
qed (use doCreation_effect [OF assms(1,3)] in \<open>simp add: handledMessage_def\<close>)

text \<open>An unrecorded message does not run into the panic.\<close>

lemma doCreation_returns:
  assumes "passWorld env reqs" and "namedRequests env" and "listsRequests env reqs"
    and "unrecorded env (reqs w) m" and "rm_Body m \<noteq> None"
  shows "\<exists>res s'. doCreationMessage env g cum qi m (qm, w) = (Some res, s')"
proof -
  obtain out qm' w' where c: "doCreationMessage env g cum qi m (qm, w) = (out, qm', w')" by (metis prod_cases3)
  have "out \<noteq> None"
  proof
    assume "out = None"
    then obtain msg where "qe_decodeCreation env (bodyOf m) = Some msg"
      "checkICMSRequestExists (qe_backend env) (rm_MessageID m) (mm_RequestID (cq_Meta msg)) w = Inr True"
      using doCreation_effect [OF assms(1) c] by auto
    then show False using unrecorded_new [OF assms(3-5)] assms(2) unfolding namedRequests_def by blast
  qed
  then show ?thesis using c by auto
qed

lemma handled_fresh:
  assumes "freshPending env (reqs w) jobs" and "i < length jobs" and "jobPending (jobs ! i) = m # jobPending j"
    and "handledMessage env reqs m w w'" and "rm_Body m \<noteq> None"
  shows "freshPending env (reqs w') (jobs[i := j])"
  using assms(4) unfolding handledMessage_def
proof (elim disjE exE conjE)
  assume "frame env reqs w w'"
  then show ?thesis by (intro freshPending_update [OF assms(1-3)]) (simp add: frame_def)
next
  fix r k assume r: "added env reqs r w w'" "ir_MessageID r = rm_MessageID m" "ir_RequestID r = k" "k \<noteq> []"
    "qe_decodeRequestID env (bodyOf m) = Some k"
  then have "reqs w' = reqs w @ [r]" by (simp add: added_def)
  then show ?thesis
    using unrecorded_added [OF _ r(2-4) bodyOf_key [OF assms(5) r(5)]]
    by (intro freshPending_update [OF assms(1-3)]) simp
qed

lemma step_fresh:
  assumes W: "passWorld env reqs" and N: "namedRequests env" and L: "listsRequests env reqs"
    and F: "freshPending env (reqs w) jobs" and i: "i < length jobs"
  shows "\<exists>j qm' w'. stepJob env tq (jobs ! i) (qm, w) = Some (j, qm', w') \<and> freshPending env (reqs w') (jobs[i := j])"
proof (cases "jobPending (jobs ! i)")
  case Nil
  then have "stepJob env tq (jobs ! i) (qm, w) = Some (jobs ! i, qm, w)" by (cases "jobs ! i") auto
  then show ?thesis using F by auto
next
  case (Cons m ms)
  have body: "rm_Body m \<noteq> None" and un: "unrecorded env (reqs w) m"
    using F pending_mem [OF i, of m] Cons by (auto simp: freshPending_def)
  show ?thesis
  proof (cases "jobs ! i")
    case (TermJob xs)
    then have xs: "xs = m # ms" using Cons by simp
    have "freshPending env (reqs (snd (doTerminationMessage env tq m w))) (jobs[i := TermJob ms])"
      by (rule handled_fresh [OF F i _ doTermination_handled [OF W N] body]) (simp add: Cons)
    then show ?thesis by (simp add: TermJob xs)
  next
    case (CreateJob cum ts)
    then obtain t ts' where ts: "ts = t # ts'" and t: "cmt_message t = m" "map cmt_message ts' = ms" using Cons by auto
    obtain res qm' w' where c: "doCreationMessage env (cmt_gpuName t) cum (cmt_queueInfo t) m (qm, w) = (Some res, qm', w')"
      using doCreation_returns [OF W N L un body] by (metis surj_pair)
    have "freshPending env (reqs w') (jobs[i := CreateJob k ts'])" for k
      by (rule handled_fresh [OF F i _ doCreation_handled [OF W N c] body]) (simp add: Cons t(2))
    then show ?thesis by (cases res) (auto simp: CreateJob ts t(1) c)
  qed
qed

lemma schedule_returns:
  assumes "passWorld env reqs" and "namedRequests env" and "listsRequests env reqs" and "freshPending env (reqs w) jobs"
  shows "\<exists>jobs' qm' w'. runSchedule env tq sched (jobs, qm, w) = Some (jobs', qm', w') \<and> freshPending env (reqs w') jobs'"
  using assms(4)
proof (induction sched arbitrary: jobs qm w)
  case (Cons i sched)
  show ?case
  proof (cases "i < length jobs")
    case True
    obtain j qm1 w1 where "stepJob env tq (jobs ! i) (qm, w) = Some (j, qm1, w1)" "freshPending env (reqs w1) (jobs[i := j])"
      using step_fresh [OF assms(1-3) Cons.prems True] by blast
    then show ?thesis using Cons.IH [of w1 "jobs[i := j]" qm1] True by simp
  qed (use Cons in simp)
qed simp

lemma runJobs_returns:
  assumes "passWorld env reqs" and "namedRequests env" and "listsRequests env reqs" and "freshPending env (reqs w) jobs"
  shows "\<exists>st. runJobs env tq sched (jobs, qm, w) = Some st"
proof -
  obtain jobs1 qm1 w1 where r: "runSchedule env tq sched (jobs, qm, w) = Some (jobs1, qm1, w1)" "freshPending env (reqs w1) jobs1"
    using schedule_returns [OF assms] by blast
  from schedule_returns [OF assms(1-3) r(2), of tq "finishing jobs1" qm1] r(1) show ?thesis
    by (auto simp: runJobs_def)
qed

text \<open>What is planned from an up-to-date listing is unrecorded.\<close>

definition currentLister :: "'w qm_env \<Rightarrow> ('w \<Rightarrow> IcmsRequest list) \<Rightarrow> bool" where
  "currentLister env reqs \<longleftrightarrow> (\<forall>w rs. bk_Lister (qe_backend env) w = Inr rs \<longrightarrow> set (reqs w) \<subseteq> set rs)"

lemma unknown_unrecorded:
  assumes "\<not> queueMessageExists env (requestKeys rs) m" and "set rs' \<subseteq> set rs"
  shows "unrecorded env rs' m"
  unfolding unrecorded_def
proof (intro ballI impI)
  fix r assume r: "r \<in> set rs'" "ir_MessageID r = rm_MessageID m"
  then have "queueRequestKey (ir_MessageID r) (ir_RequestID r) \<in> requestKeys rs"
    using assms(2) unfolding requestKeys_def by blast
  then show "ir_RequestID r \<noteq> [] \<and> queueRequestKey (ir_MessageID r) (ir_RequestID r) \<noteq> queueMessageKey env m"
    using assms(1) r(2) by (auto simp: queueMessageExists_def queueRequestKey_def split: if_splits)
qed

lemma receivedNew_body: "m \<in> set (concat (map snd (receivedNew env batches existing))) \<Longrightarrow> rm_Body m \<noteq> None"
proof (induction batches arbitrary: existing)
  case (Cons b rest)
  obtain q out where b: "b = (q, out)" by force
  show ?case
  proof (cases out)
    case (Inr ms)
    obtain fresh known where new: "newMessages env existing ms = (fresh, known)" by force
    then show ?thesis using Cons newMessages_new [OF new] by (auto simp: b Inr new)
  qed (use Cons in \<open>simp add: b\<close>)
qed simp

lemma planned_pending:
  assumes "collectAvailableCreationQueues order h qm = (inputs, meta, qm1)" and "length outs = length inputs"
    and "\<forall>ms. Inr ms \<in> set outs \<longrightarrow> length ms \<le> k" and "newTerminations env termOut existing = (terms, known)"
    and "planJobs env k inputs meta termOut outs existing = Some (jobs, err)"
  shows "mset (pending jobs) = mset (terms @ concat (map snd (receivedNew env (zip inputs outs) known)))"
proof -
  let ?R = "receivedNew env (zip inputs outs) known"
  define f where "f g = newIterCreationMessageMatrix k
      (ringOf (ringStart qm g mod queueCount g inputs) (queueCount g inputs) (columnsOf g ?R))" for g
  define gs where "gs = filter (\<lambda>g. columnsOf g ?R \<noteq> []) (remdups (map qw_gpuName inputs))"
  have jobs: "jobs = map (\<lambda>m. TermJob [m]) terms @ map (\<lambda>g. CreateJob 0 (f g)) gs"
    using planJobs_collected [OF assms(1,2,4), of k] assms(5) by (simp add: f_def gs_def)
  have "pending jobs = terms @ map cmt_message (concat (map jobTuples jobs))"
    by (simp add: pending_def jobs comp_def map_concat)
  moreover have "map cmt_message (concat (map tuplesOf ?R)) = concat (map snd ?R)" by (rule messages_tuplesOf)
  then have "mset (map cmt_message (concat (map jobTuples jobs))) = mset (concat (map snd ?R))"
    using planned_messages(1) [OF assms] by (metis mset_map)
  ultimately show ?thesis by simp
qed

lemma planned_fresh:
  assumes c: "collectAvailableCreationQueues order h qm = (inputs, meta, qm1)" and len: "length outs = length inputs"
    and sizes: "\<forall>ms. Inr ms \<in> set outs \<longrightarrow> length ms \<le> k"
    and j: "planJobs env k inputs meta termOut outs (requestKeys rs) = Some (jobs, err)" and rs: "set rs' \<subseteq> set rs"
  shows "freshPending env rs' jobs"
proof -
  obtain terms known where t: "newTerminations env termOut (requestKeys rs) = (terms, known)" by force
  define R where "R = receivedNew env (zip inputs outs) known"
  have T: "distinct (map (queueMessageKey env) terms)" "requestKeys rs \<subseteq> known"
    "\<forall>m \<in> set terms. \<not> queueMessageExists env (requestKeys rs) m \<and> queueMessageKey env m \<in> known \<and> rm_Body m \<noteq> None"
    using t newMessages_new [of env "requestKeys rs" _ terms known] by (auto simp: newTerminations_def split: sum.splits)
  note N = receivedNew_new [OF R_def]
  let ?all = "terms @ concat (map snd R)"
  have all: "mset (pending jobs) = mset ?all"
    using planned_pending [OF c len sizes t j] by (simp add: R_def)
  have "distinct (map (queueMessageKey env) ?all)"
    using T N by (auto simp: queueMessageExists_def)
  then have "distinct (map (queueMessageKey env) (pending jobs))"
    using all by (metis mset_eq_imp_distinct_iff mset_map)
  moreover have "rm_Body m \<noteq> None \<and> \<not> queueMessageExists env (requestKeys rs) m" if "m \<in> set ?all" for m
    using that T N receivedNew_body [of m env "zip inputs outs" known] unfolding R_def queueMessageExists_def by auto
  then have "\<forall>m \<in> set (pending jobs). rm_Body m \<noteq> None \<and> unrecorded env rs' m"
    using mset_eq_setD [OF all] unknown_unrecorded [OF _ rs] by blast
  ultimately show ?thesis by (simp add: freshPending_def)
qed

definition boundedBatches :: "'w qm_env \<Rightarrow> bool" where
  "boundedBatches env \<longleftrightarrow> (\<forall>q n v w ms. fst (qc_ReceiveMessage (qe_client env) q n v w) = Inr ms \<longrightarrow> length ms \<le> nat n)"

lemma popAll_bounded:
  assumes "boundedBatches env" and "popAll env qm inputs w = (outs, w')" and "Inr ms \<in> set outs"
  shows "length ms \<le> nat (qm_maxQueueMessages qm)"
  using assms(2,3)
proof (induction inputs arbitrary: w outs)
  case (Cons q qs)
  obtain out w1 where p: "tryPopMessage env qm (qw_qi q) (qw_vtoSec q) w = (out, w1)" by force
  obtain outs1 w2 where r: "popAll env qm qs w1 = (outs1, w2)" by force
  have outs: "outs = out # outs1" using Cons.prems(1) by (simp add: p r)
  have "out = Inr ms \<Longrightarrow> length ms \<le> nat (qm_maxQueueMessages qm)"
    using assms(1) p by (metis boundedBatches_def fst_conv tryPopMessage_def)
  then show ?case using Cons.IH [of w1 outs1] Cons.prems r by (auto simp: p outs)
qed simp

lemma syncActive_returns:
  assumes W: "passWorld env reqs" and N: "namedRequests env" and L: "listsRequests env reqs"
    and C: "currentLister env reqs" and B: "boundedBatches env"
  shows "syncActive env order sched qm w \<noteq> None"
proof -
  let ?h = "qe_GetStatus env w" and ?tq = "qd_TerminationQueue (qm_qcreds qm)"
  obtain inputs meta qm1 where c: "collectAvailableCreationQueues order ?h qm = (inputs, meta, qm1)" by (metis prod_cases3)
  obtain termOut w1 where t: "tryPopMessage env qm1 ?tq defaultVisibilityTimeoutSeconds w = (termOut, w1)" by force
  obtain outs w2 where p: "popAll env qm1 inputs w1 = (outs, w2)" by force
  note len = conjunct1 [OF popAll_received [OF p]]
  show ?thesis
  proof (cases "bk_Lister (qe_backend env) w2")
    case (Inl e)
    then show ?thesis by (simp add: syncActive_def c t p Let_def)
  next
    case (Inr rs)
    define w3 where "w3 = deleteRedeliveredRejectedMessages env (requestKeys (filter (\<lambda>r. ir_Rejected r \<noteq> []) rs)) (zip inputs outs) w2"
    have "reqs w3 = reqs w2" using deleteRedelivered_frame [OF W] unfolding w3_def frame_def by blast
    then have current: "set (reqs w3) \<subseteq> set rs" using C Inr unfolding currentLister_def by metis
    obtain terms known where nt: "newTerminations env termOut (requestKeys rs) = (terms, known)" by force
    obtain jobs err where j: "planJobs env (nat (qm_maxQueueMessages qm1)) inputs meta termOut outs (requestKeys rs) = Some (jobs, err)"
      using planJobs_collected [OF c len nt] by blast
    have "freshPending env (reqs w3) jobs"
      using planned_fresh [OF c len _ j current] popAll_bounded [OF B p] by blast
    then obtain st where "runJobs env ?tq sched (jobs, qm1, w3) = Some st"
      using runJobs_returns [OF W N L] by blast
    then show ?thesis by (cases st) (simp add: syncActive_def c t p Inr Let_def j flip: w3_def)
  qed
qed

section \<open>Deleting a message\<close>

text \<open>The environment with a deletion that goes wrong in every world that does not satisfy \<open>P\<close>.\<close>

definition guardDelete :: "('w \<Rightarrow> bool) \<Rightarrow> ('w \<Rightarrow> queue_error option \<times> 'w) \<Rightarrow> 'w qm_env \<Rightarrow> 'w qm_env" where
  "guardDelete P trap env = env\<lparr>qe_client := (qe_client env)\<lparr>qc_DeleteMessage :=
     (\<lambda>q r w. if P w then qc_DeleteMessage (qe_client env) q r w else trap w)\<rparr>\<rparr>"

lemma guardDelete_simps [simp]:
  "qe_backend (guardDelete P trap env) = qe_backend env"
  "qe_GetStatus (guardDelete P trap env) = qe_GetStatus env"
  "qe_now (guardDelete P trap env) = qe_now env"
  "qe_decodeCreation (guardDelete P trap env) = qe_decodeCreation env"
  "qe_decodeTermination (guardDelete P trap env) = qe_decodeTermination env"
  "qc_ChangeMessageVisibility (qe_client (guardDelete P trap env)) = qc_ChangeMessageVisibility (qe_client env)"
  "P w \<Longrightarrow> qc_DeleteMessage (qe_client (guardDelete P trap env)) q r w = qc_DeleteMessage (qe_client env) q r w"
  by (simp_all add: guardDelete_def)

lemma exists_recorded:
  assumes "listsRequests env reqs" and "checkICMSRequestExists (qe_backend env) i k w = Inr True"
  shows "\<exists>r \<in> set (reqs w). ir_MessageID r = i"
  using assms unfolding listsRequests_def checkICMSRequestExists_def
  by (fastforce split: sum.splits if_splits)

lemma termination_recorded:
  assumes "passWorld env reqs" and "listsRequests env reqs"
    and "CreateICMSTerminationMessageRequest (qe_backend env) tm rh i w = (None, w')"
  shows "\<exists>r \<in> set (reqs w'). ir_MessageID r = i"
  using create_termination_effect [OF assms(1,3)] exists_recorded [OF assms(2)]
  by (auto simp: frame_def added_def)

definition recordedAs :: "(IcmsRequest \<Rightarrow> bool) \<Rightarrow> ('w \<Rightarrow> IcmsRequest list) \<Rightarrow> ReceiveMessageOutput \<Rightarrow> 'w \<Rightarrow> bool" where
  "recordedAs P reqs m w \<longleftrightarrow> (\<exists>r \<in> set (reqs w). ir_MessageID r = rm_MessageID m \<and> P r)"

lemma guarded_termination:
  assumes "passWorld env reqs" and "listsRequests env reqs"
  shows "doTerminationMessage (guardDelete (recordedAs (\<lambda>_. True) reqs m) trap env) qi m w = doTerminationMessage env qi m w"
proof (cases "qe_decodeTermination env (bodyOf m)")
  case (Some tm)
  obtain out w1 where c: "CreateICMSTerminationMessageRequest (qe_backend env) tm (rm_ReceiptHandle m) (rm_MessageID m) w = (out, w1)" by force
  have "recordedAs (\<lambda>_. True) reqs m w1" if "out = None"
    using termination_recorded [OF assms, of tm "rm_ReceiptHandle m" "rm_MessageID m" w w1] c that by (simp add: recordedAs_def)
  then show ?thesis by (cases out) (simp_all add: doTerminationMessage_def Some c)
qed (simp add: doTerminationMessage_def)

lemma guarded_creation:
  assumes "passWorld env reqs" and "listsRequests env reqs"
  shows "doCreationMessage (guardDelete (recordedAs (\<lambda>r. ir_Rejected r \<noteq> []) reqs m) trap env) g cum qi m (qm, w) =
         doCreationMessage env g cum qi m (qm, w)"
proof (cases "qe_decodeCreation env (bodyOf m)")
  case (Some msg)
  obtain out w1 where c: "CreateICMSCreationMessageRequest (qe_backend env) msg (rm_ReceiptHandle m) (rm_MessageID m) (mq_QueueURL qi) w = (out, w1)"
    by force
  have "recordedAs (\<lambda>r. ir_Rejected r \<noteq> []) reqs m w1" if ro: "out = Inr ro" "GetCreationRejectionReason ro \<noteq> []" for ro
  proof -
    obtain r where r: "ro = Some r" "ir_Rejected r \<noteq> []" using ro(2) by (auto simp: GetCreationRejectionReason_def split: option.splits)
    then show ?thesis
      using create_creation_effect [OF assms(1) c] ro(1) by (auto simp: recordedAs_def added_def creationRecord_def)
  qed
  then show ?thesis
    by (cases out) (auto simp: doCreationMessage_def Some c Let_def)
qed (simp add: doCreationMessage_def)

section \<open>Properties\<close>


definition currentMem :: "AgentHealth \<Rightarrow> memWorld qm_env" where
  "currentMem h = (memEnv byGPU h)\<lparr>qe_backend := memBackend\<lparr>bk_Lister := (\<lambda>w. Inr (wd_requests w))\<rparr>\<rparr>"


text \<open>
  (\<open>doCreationMessage\<close>, \<open>CreateICMSCreationMessageRequest\<close>) A message whose request is in the API server but was
  not in the cache when the pass looked, so that it is handled, makes \<open>CreateICMSCreationMessageRequest\<close>
  return no request and no error, and \<open>doCreationMessage\<close> dereference the nil request: the pass panics.
\<close>

theorem recorded_message_panics:
  assumes "qe_decodeCreation env (bodyOf m) = Some msg"
    and "creationRequestServiceable (qe_GetStatus env w) g cum (requestSize (cq_Meta msg))"
    and "bk_List (qe_backend env) (rm_MessageID m) w = Inr rs" and "r \<in> set rs" and "ir_RequestID r = mm_RequestID (cq_Meta msg)"
  shows "fst (doCreationMessage env g cum qi m (qm, w)) = None"
proof -
  have "checkICMSRequestExists (qe_backend env) (rm_MessageID m) (mm_RequestID (cq_Meta msg)) w = Inr True"
    using assms(3-5) by (auto simp: checkICMSRequestExists_def)
  then show ?thesis
    using assms(1,2) by (simp add: doCreationMessage_def CreateICMSCreationMessageRequest_def GetCreationRejectionReason_def Let_def)
qed

definition recordedRequest :: IcmsRequest where
  "recordedRequest = \<lparr>ir_Name = ''sr-Ax'', ir_MessageID = ''1'', ir_RequestID = ''Ax'', ir_Action = ''FunctionCreation'', ir_MessageReceipt = ''1'', ir_QueueURL = ''c'',
     ir_Meta = None, ir_Env = None, ir_InstanceIds = [], ir_Rejected = []\<rparr>"

definition laggingCache :: memWorld where
  "laggingCache = \<lparr>wd_queue = (\<lambda>u. if u = ''c'' then [aMessage ''1'' ''Ax''] else []), wd_requests = [recordedRequest], wd_cached = [], wd_removed = []\<rparr>"

text \<open>
  (\<open>SyncQueues\<close>, \<open>Pause\<close>, maintenance modes) A pass of a paused manager, or of one in maintenance, returns and
  records terminations only; the rings, the backoffs and the credentials of the manager stay.
\<close>

theorem drained_pass_only_terminates:
  assumes "passWorld env reqs" and "qe_RefreshStatus env w = (None, w1)"
    and "qm_paused qm \<or> qm_maintenanceMode qm \<noteq> MaintenanceModeNone"
  shows "\<exists>res ok w'. SyncQueues env order sched qm w = Some (res, SetStatusOK ok qm, w') \<and> onlyTerminations reqs w1 w'"
proof (cases "qm_paused qm")
  case True
  obtain res qm' w' where p: "syncPaused env qm w1 = (res, qm', w')" by (metis prod_cases3)
  have "qm = SetStatusOK (qm_healthy qm) qm" by (simp add: SetStatusOK_def)
  then show ?thesis using syncPaused_only [OF assms(1) p] True p assms(2) by (auto simp: SyncQueues_def)
next
  case False
  obtain res qm' w' where p: "syncMaintenance env qm w1 = (res, qm', w')" by (metis prod_cases3)
  then show ?thesis using syncMaintenance_only [OF assms(1) p] False p assms(2,3) by (auto simp: SyncQueues_def)
qed

text \<open>
  C27. (\<open>doTerminationMessage\<close>, \<open>doCreationMessage\<close>) A message is deleted from its queue only in a world in which it
  is recorded: both handlers behave as they do with a deletion that goes wrong, in whatever way, unless the
  API server has an object with the label of the message, which for a creation is a rejected one.
\<close>

theorem deletes_only_recorded:
  assumes "passWorld env reqs" and "listsRequests env reqs"
  shows "doTerminationMessage (guardDelete (recordedAs (\<lambda>_. True) reqs m) trap env) qi m w = doTerminationMessage env qi m w \<and>
         doCreationMessage (guardDelete (recordedAs (\<lambda>r. ir_Rejected r \<noteq> []) reqs m) trap env) g cum qi m (qm, w) =
         doCreationMessage env g cum qi m (qm, w)"
  by (intro conjI guarded_termination guarded_creation assms)

theorem deletes_only_recorded_witness:
  "fst (doTerminationMessage (guardDelete (recordedAs (\<lambda>_. True) wd_requests (aMessage ''7'' ''z'')) (\<lambda>w. (Some ''lost'', w)) (memEnv byGPU (roomFor 4)))
          \<lparr>mq_GPU = [], mq_QueueURL = ''x''\<rparr> (aMessage ''7'' ''z'') oneBatch) = None"
proof -
  have "listsRequests (memEnv byGPU (roomFor 4)) wd_requests"
    by (auto simp: listsRequests_def memEnv_def memBackend_def)
  from deletes_only_recorded [OF mem_passWorld this, of "aMessage ''7'' ''z''" "\<lambda>w. (Some ''lost'', w)" "\<lparr>mq_GPU = [], mq_QueueURL = ''x''\<rparr>" oneBatch]
  show ?thesis
    by (simp add: doTerminationMessage_def memEnv_def memClient_def memBackend_def bodyOf_def aMessage_def oneBatch_def
        CreateICMSTerminationMessageRequest_def checkICMSRequestExists_def)
qed

definition noCredentials :: QueueCredentials where
  "noCredentials = \<lparr>qd_ClusterCreationQueues = [], qd_TaskClusterCreationQueues = [], qd_CreationQueues = [], qd_TerminationQueue = \<lparr>mq_GPU = [], mq_QueueURL = []\<rparr>\<rparr>"

definition fullAndFree :: AgentHealth where
  "fullAndFree = \<lparr>ah_GPUUsage = [''A'' \<mapsto> \<lparr>gr_Capacity = 1, gr_Allocated = 1\<rparr>, ''B'' \<mapsto> \<lparr>gr_Capacity = 4, gr_Allocated = 0\<rparr>], ah_Components = Map.empty\<rparr>"

definition sharedStream :: memWorld where
  "sharedStream = \<lparr>wd_queue = (\<lambda>u. if u = CreateStreamName then [aMessage ''1'' ''Axx''] else []), wd_requests = [], wd_cached = [], wd_removed = []\<rparr>"


end
