(* ===== verification/IcmsRequestsSpec.thy ===== *)
theory IcmsRequestsSpec
  imports IcmsRequests QueuePass "HOL-Library.Sublist"
begin

text \<open>
  What the handling of recorded requests promises, and an in-memory cluster to run it on.
  \<open>request_api\<close> is what the agent relies on of the API server.
\<close>

section \<open>A change is made to the version it replaces\<close>

text \<open>
  The versions of an object, the oldest first. A read returns the newest one; a write succeeds only if
  the object still has the version that was read, and appends the new one; other writers may act before
  and after it. Versions are never used twice.
\<close>

lemma retry_invariant:
  assumes "RetryOnConflict n lastErr fn s = (e, s')" and "I s"
    and "\<And>s1 e1 s2. I s1 \<Longrightarrow> fn s1 = (e1, s2) \<Longrightarrow> I s2"
  shows "I s'"
  using assms(1,2)
proof (induction n arbitrary: lastErr s)
  case (Suc n)
  obtain e1 s1 where f: "fn s = (e1, s1)" by force
  with assms(3) Suc.prems(2) have "I s1" by blast
  with Suc f show ?case by (auto split: option.splits if_splits)
qed simp

lemma retry_success:
  assumes "RetryOnConflict n lastErr fn s = (None, s')" and "I s" and "lastErr = None \<Longrightarrow> 0 < n"
    and "\<And>s1 e1 s2. I s1 \<Longrightarrow> fn s1 = (Some e1, s2) \<Longrightarrow> I s2"
  shows "\<exists>s1. I s1 \<and> fn s1 = (None, s')"
  using assms(1-3)
proof (induction n arbitrary: lastErr s)
  case (Suc n)
  obtain e1 s1 where f: "fn s = (e1, s1)" by force
  show ?case
  proof (cases e1)
    case None
    with Suc.prems f show ?thesis by auto
  next
    case (Some x)
    with assms(4) Suc.prems(2) f have "I s1" by blast
    with Suc.IH [of "Some x" s1] Suc.prems(1) f Some show ?thesis by (auto split: if_splits)
  qed
qed auto

text \<open>The changes of a status touch neither the name of the object nor its version.\<close>

definition keepsIdentity :: "modification \<Rightarrow> bool" where
  "keepsIdentity modify \<longleftrightarrow> (\<forall>now r. ir_Name (modify now r) = ir_Name r \<and> ar_ResourceVersion (modify now r) = ar_ResourceVersion r)"

locale request_api =
  fixes env :: "'w agent_env" and log :: "'w \<Rightarrow> string \<Rightarrow> AgentRequest list"
  assumes get: "ae_Get env n w = (Inr r, w') \<Longrightarrow> prefix (log w n) (log w' n) \<and> log w' n \<noteq> [] \<and> last (log w' n) = r \<and> ir_Name r = n"
    and get_error: "ae_Get env n w = (Inl e, w') \<Longrightarrow> prefix (log w n) (log w' n)"
    and write_ok: "ae_UpdateStatus env r w = (None, w') \<Longrightarrow>
      \<exists>h old v rest. log w' (ir_Name r) = h @ old # r\<lparr>ar_ResourceVersion := v\<rparr> # rest \<and>
        ar_ResourceVersion old = ar_ResourceVersion r \<and> prefix (log w (ir_Name r)) (h @ [old])"
    and write_error: "ae_UpdateStatus env r w = (Some e, w') \<Longrightarrow> prefix (log w n) (log w' n)"
    and versions: "distinct (map ar_ResourceVersion (log w n))"
begin

text \<open>A write of what was read, changed but for its name and version, lands on the version read.\<close>

lemma write_on_read:
  assumes g: "ae_Get env n w = (Inr r, w1)" and u: "ae_UpdateStatus env r' w1 = (None, w2)"
    and r': "ir_Name r' = n" "ar_ResourceVersion r' = ar_ResourceVersion r"
  shows "\<exists>h v rest. log w2 n = h @ r # r'\<lparr>ar_ResourceVersion := v\<rparr> # rest \<and> prefix (log w n) (h @ [r])"
proof -
  have l1: "prefix (log w n) (log w1 n)" "log w1 n \<noteq> []" "last (log w1 n) = r" using get [OF g] by auto
  obtain h old v rest where l2: "log w2 n = h @ old # r'\<lparr>ar_ResourceVersion := v\<rparr> # rest"
    "ar_ResourceVersion old = ar_ResourceVersion r" "prefix (log w1 n) (h @ [old])"
    using write_ok [OF u] r' by auto
  have "r \<in> set (h @ [old])" using l1(2,3) set_mono_prefix [OF l2(3)] last_in_set by fastforce
  moreover have "distinct (map ar_ResourceVersion (h @ [old]))"
    using versions [of w2 n] by (simp add: l2(1))
  ultimately have "r = old" using l2(2) by (auto dest: image_eqI [where f = ar_ResourceVersion])
  then show ?thesis using l1(1) l2 prefix_order.trans by blast
qed

lemma write_grows:
  assumes "ae_UpdateStatus env r w = (e, w')" and "ir_Name r = n"
  shows "prefix (log w n) (log w' n)"
proof (cases e)
  case None
  then obtain h old v rest where "log w' n = (h @ [old]) @ r\<lparr>ar_ResourceVersion := v\<rparr> # rest" "prefix (log w n) (h @ [old])"
    using write_ok assms by (metis append.assoc append_Cons append_Nil)
  then show ?thesis by (metis prefix_prefix)
qed (use assms write_error in blast)

lemma recordSpan_grows:
  assumes "recordSpan env n s t w = (e, w')" shows "prefix (log w n) (log w' n)"
proof -
  obtain g w1 where g: "ae_Get env n w = (g, w1)" by force
  show ?thesis
  proof (cases g)
    case (Inl x)
    with assms g get_error show ?thesis by (auto simp: recordSpan_def)
  next
    case (Inr r)
    with assms g get [of n w r w1] write_grows [of _ w1 e w' n] show ?thesis
      by (auto simp: recordSpan_def intro: prefix_order.trans)
  qed
qed

lemma updateLatest_failure_grows:
  assumes "updateLatest env n modify (s, w) = (Some e, s', w')"
  shows "prefix (log w n) (log w' n)"
proof -
  obtain g w1 where g: "ae_Get env n w = (g, w1)" by force
  show ?thesis
  proof (cases g)
    case (Inl x)
    with assms g get_error show ?thesis by (auto simp: updateLatest_def)
  next
    case (Inr r)
    with assms g get [of n w r w1] write_error show ?thesis
      by (auto simp: updateLatest_def Let_def split: prod.splits intro: prefix_order.trans)
  qed
qed

lemma updateLatest_writes:
  assumes "updateLatest env n modify (s, w) = (None, s', w')" and "keepsIdentity modify"
  shows "\<exists>h old now v rest. log w' n = h @ old # (modify now old)\<lparr>ar_LastStatusUpdated := Some now, ar_ResourceVersion := v\<rparr> # rest \<and>
           prefix (log w n) (h @ [old]) \<and> s' = ar_RequestStatus (modify now old)"
proof -
  obtain r w1 where g: "ae_Get env n w = (Inr r, w1)"
    using assms(1) by (auto simp: updateLatest_def split: prod.splits sum.splits)
  let ?new = "(modify (ae_now env w1) r)\<lparr>ar_LastStatusUpdated := Some (ae_now env w1)\<rparr>"
  have u: "ae_UpdateStatus env ?new w1 = (None, w')" and s': "s' = ar_RequestStatus (modify (ae_now env w1) r)"
    using assms(1) g by (auto simp: updateLatest_def Let_def split: prod.splits)
  have "ir_Name ?new = n" "ar_ResourceVersion ?new = ar_ResourceVersion r"
    using get [OF g] assms(2) by (auto simp: keepsIdentity_def)
  from write_on_read [OF g u this] s' show ?thesis by (auto simp del: prefix_snoc) blast
qed

lemma change_lands_on_latest:
  assumes "applyICMSRequestStatusChange env sr modify w = (True, w')" and "keepsIdentity modify"
  shows "\<exists>h old now v rest.
           log w' (ir_Name sr) = h @ old # (modify now old)\<lparr>ar_LastStatusUpdated := Some now, ar_ResourceVersion := v\<rparr> # rest \<and>
           prefix (log w (ir_Name sr)) (h @ [old])"
proof -
  let ?n = "ir_Name sr"
  obtain s w1 where r: "RetryOnConflict DefaultRetry None (updateLatest env ?n modify) (NoRequestStatus, w) = (None, s, w1)"
    and span: "reconcileSpanRequestStatus env (ar_RequestStatus sr) s sr w1 = (True, w')"
    using assms(1) by (auto simp: applyICMSRequestStatusChange_def split: prod.splits option.splits)
  have "\<exists>x. prefix (log w ?n) (log (snd x) ?n) \<and> updateLatest env ?n modify x = (None, s, w1)"
    using r by (rule retry_success) (auto simp: DefaultRetry_def dest!: updateLatest_failure_grows intro: prefix_order.trans)
  then obtain s0 w0 where p: "prefix (log w ?n) (log w0 ?n)" and u: "updateLatest env ?n modify (s0, w0) = (None, s, w1)" by auto
  from updateLatest_writes [OF u assms(2)] obtain h old now v rest where
    l: "log w1 ?n = h @ old # (modify now old)\<lparr>ar_LastStatusUpdated := Some now, ar_ResourceVersion := v\<rparr> # rest" "prefix (log w0 ?n) (h @ [old])"
    by blast
  have "prefix (log w1 ?n) (log w' ?n)"
  proof (cases "ar_RequestStatus sr = s")
    case False
    with span obtain e where "RetryOnConflict DefaultRetry None (recordSpan env ?n s (ae_now env w1)) w1 = (e, w')"
      by (auto simp: reconcileSpanRequestStatus_def split: prod.splits)
    then show ?thesis
      by (rule retry_invariant [where I = "\<lambda>x. prefix (log w1 ?n) (log x ?n)"])
         (auto dest: recordSpan_grows intro: prefix_order.trans)
  qed (use span in \<open>simp add: reconcileSpanRequestStatus_def\<close>)
  with l p show ?thesis by (fastforce simp: prefix_def intro: prefix_order.trans)
qed

end

section \<open>An in-memory cluster\<close>

text \<open>
  An object is kept with all its versions, the position is its version; none means that it does not exist. \<open>cl_rivals\<close> are writes of
  others, one of which comes before each write of a status. A pod in \<open>cl_lingering\<close> stays after its deletion, as
  one held by a finalizer does. The control plane keeps what it believes of the instances and refuses
  updates of those in \<open>cl_refused\<close>.
\<close>

record cluster =
  cl_names :: "string list"
  cl_objects :: "string \<Rightarrow> AgentRequest list"
  cl_rivals :: "(AgentRequest \<Rightarrow> AgentRequest) list"
  cl_pods :: "(string \<times> PodObject) list"
  cl_minis :: "(string \<times> MiniServiceObject) list"
  cl_lingering :: "string list"
  cl_acked :: "string list"
  cl_ackError :: "nat option"
  cl_posts :: "(string \<times> string \<times> ICMSInstanceStatusUpdateRequest) list"
  cl_refused :: "string list"
  cl_believed :: "ICMSServerInstanceState list"
  cl_deleted :: "string list"
  cl_now :: int

definition versioned :: "string \<Rightarrow> AgentRequest list \<Rightarrow> AgentRequest list" where
  "versioned n rs = map (\<lambda>k. (rs ! k)\<lparr>ir_Name := n, ar_ResourceVersion := k\<rparr>) [0 ..< length rs]"

abbreviation cl_log :: "cluster \<Rightarrow> string \<Rightarrow> AgentRequest list" where
  "cl_log w n \<equiv> versioned n (cl_objects w n)"

definition clusterGet :: "string \<Rightarrow> cluster \<Rightarrow> (api_error + AgentRequest) \<times> cluster" where
  "clusterGet n w = (if cl_objects w n = [] then Inl NotFound else Inr (last (cl_log w n)), w)"

definition rivalWrite :: "string \<Rightarrow> cluster \<Rightarrow> cluster" where
  "rivalWrite n w =
     (case cl_rivals w of
        [] \<Rightarrow> w
      | f # fs \<Rightarrow> w\<lparr>cl_rivals := fs,
                   cl_objects := (if cl_objects w n = [] then cl_objects w
                                  else (cl_objects w)(n := cl_objects w n @ [f (last (cl_objects w n))]))\<rparr>)"

definition clusterWrite :: "AgentRequest \<Rightarrow> cluster \<Rightarrow> api_error option \<times> cluster" where
  "clusterWrite r w0 =
     (let n = ir_Name r; w = rivalWrite n w0; rs = cl_objects w n
      in if rs = [] then (Some NotFound, w)
         else if Suc (ar_ResourceVersion r) \<noteq> length rs then (Some Conflict, w)
         else (None, w\<lparr>cl_objects := (cl_objects w)(n := rs @ [r])\<rparr>))"

definition clusterDelete :: "string \<Rightarrow> cluster \<Rightarrow> api_error option \<times> cluster" where
  "clusterDelete n w =
     (if cl_objects w n = [] then (Some NotFound, w) else (None, w\<lparr>cl_objects := (cl_objects w)(n := [])\<rparr>))"

definition clusterPod :: "string \<Rightarrow> cluster \<Rightarrow> api_error + PodObject" where
  "clusterPod i w = (case map_of (cl_pods w) i of None \<Rightarrow> Inl NotFound | Some p \<Rightarrow> Inr p)"

definition clusterPodDelete :: "string \<Rightarrow> cluster \<Rightarrow> api_error option \<times> cluster" where
  "clusterPodDelete i w =
     (if i \<notin> fst ` set (cl_pods w) then (Some NotFound, w)
      else if i \<in> set (cl_lingering w) then (None, w)
      else (None, w\<lparr>cl_pods := AList.delete i (cl_pods w)\<rparr>))"

definition clusterMini :: "string \<Rightarrow> cluster \<Rightarrow> api_error + MiniServiceObject" where
  "clusterMini i w = (case map_of (cl_minis w) i of None \<Rightarrow> Inl NotFound | Some m \<Rightarrow> Inr m)"

definition clusterMiniDelete :: "string \<Rightarrow> cluster \<Rightarrow> api_error option \<times> cluster" where
  "clusterMiniDelete i w =
     (if map_of (cl_minis w) i = None then (Some NotFound, w) else (None, w\<lparr>cl_minis := AList.delete i (cl_minis w)\<rparr>))"

definition clusterPost :: "string \<Rightarrow> string \<Rightarrow> ICMSInstanceStatusUpdateRequest \<Rightarrow> cluster \<Rightarrow> nat option \<times> cluster" where
  "clusterPost req i u w =
     (if i \<in> set (cl_refused w) then (Some 500, w)
      else (None, w\<lparr>cl_posts := cl_posts w @ [(req, i, u)],
                    cl_believed := map (\<lambda>b. if ss_RequestID b = req \<and> ss_InstanceID b = i then b\<lparr>ss_InstanceState := su_InstanceState u\<rparr> else b)
                                     (cl_believed w)\<rparr>))"

definition clusterQueue :: "(string \<Rightarrow> bool) \<Rightarrow> cluster qm_env" where
  "clusterQueue flags =
     \<lparr>qe_client = \<lparr>qc_ReceiveMessage = (\<lambda>_ _ _ w. (Inr [], w)),
                   qc_DeleteMessage = (\<lambda>_ r w. (None, w\<lparr>cl_deleted := cl_deleted w @ [r]\<rparr>)),
                   qc_ChangeMessageVisibility = (\<lambda>_ _ _ w. (None, w)),
                   qc_IsMessageNotFoundError = (\<lambda>_. False)\<rparr>,
      qe_backend = \<lparr>bk_List = (\<lambda>_ _. Inr []), bk_Lister = (\<lambda>_. Inr []), bk_Create = (\<lambda>r w. (Inl MethodNotSupported, w)),
                    bk_newUUID = (\<lambda>_. []), bk_useUUID = False, bk_Flag = flags,
                    bk_functionEnvOverrides = [], bk_taskEnvOverrides = [], bk_ApplyEnvOverrides = (\<lambda>e _. Some e),
                    bk_persistStorage = (\<lambda>_ w. (None, w))\<rparr>,
      qe_RefreshStatus = (\<lambda>w. (None, w)), qe_GetStatus = (\<lambda>_. \<lparr>ah_GPUUsage = (\<lambda>_. None), ah_Components = (\<lambda>_. None)\<rparr>),
      qe_now = cl_now, qe_decodeCreation = (\<lambda>_. None), qe_decodeTermination = (\<lambda>_. None), qe_decodeRequestID = (\<lambda>_. None)\<rparr>"

definition currentObjects :: "cluster \<Rightarrow> AgentRequest list" where
  "currentObjects w = map (\<lambda>n. last (cl_log w n)) (filter (\<lambda>n. cl_objects w n \<noteq> []) (cl_names w))"

definition clusterEnv :: "(string \<Rightarrow> bool) \<Rightarrow> cluster agent_env" where
  "clusterEnv flags =
     \<lparr>ae_queue = clusterQueue flags, ae_queueOrder = (\<lambda>qs. qs), ae_Lister = (\<lambda>w. Inr (currentObjects w)),
      ae_Get = clusterGet, ae_UpdateStatus = clusterWrite, ae_Update = clusterWrite, ae_Delete = clusterDelete,
      ae_PodGet = clusterPod, ae_PodLister = clusterPod, ae_PodDelete = clusterPodDelete,
      ae_MiniGet = clusterMini, ae_MiniDelete = clusterMiniDelete,
      ae_PutRequestAcknowledgement = (\<lambda>r _ _ w. case cl_ackError w of None \<Rightarrow> (None, w\<lparr>cl_acked := cl_acked w @ [r]\<rparr>) | Some c \<Rightarrow> (Some c, w)),
      ae_PostInstanceStatusUpdate = clusterPost,
      ae_GetICMSServerInstanceStatuses = (\<lambda>w. (Inr (cl_believed w), w)),
      ae_CleanupModelCachingSetupArtifacts = (\<lambda>_ w. w), ae_ApplyCreationMessage = (\<lambda>_ w. (None, w)),
      ae_RetryFailedModelCacheCleanup = (\<lambda>_ w. (None, w)), ae_podLogs = (\<lambda>_ _ _. []), ae_taskPurge = (\<lambda>_ _ _ _. Inr False),
      ae_miniServiceUpdate = (\<lambda>_ _ w. (Inr None, w)), ae_schedulingTimeout = (\<lambda>_. 600000000000),
      ae_ParseMaxRuntimeDuration = (\<lambda>_. None), ae_now = cl_now,
      ae_TimeConfig = \<lparr>tc_MaxImagePullErrorThreshold = 300000000000, tc_PodLaunchThresholdMinutesOnInitFailure = 1800000000000,
                       tc_PodScheduledThreshold = 600000000000, tc_MaxRunningTimeout = 7200000000000\<rparr>,
      ae_ClusterTargetingEnabled = True, ae_ClusterID = ''c'', ae_ICMSRequestACKInterval = 60000000000,
      ae_ICMSRequestAckRetryTimeout = 300000000000, ae_enablePeriodicInstanceStatusUpdate = True,
      ae_periodicInstanceStatusUpdateInterval = 60000000000, ae_autoPurgeDegradedWorkers = False\<rparr>"

lemma clusterEnv_simps [simp]:
  "ae_queue (clusterEnv flags) = clusterQueue flags"
  "ae_Lister (clusterEnv flags) = (\<lambda>w. Inr (currentObjects w))"
  "ae_Get (clusterEnv flags) = clusterGet"
  "ae_UpdateStatus (clusterEnv flags) = clusterWrite"
  "ae_Update (clusterEnv flags) = clusterWrite"
  "ae_Delete (clusterEnv flags) = clusterDelete"
  "ae_PodGet (clusterEnv flags) = clusterPod"
  "ae_PodLister (clusterEnv flags) = clusterPod"
  "ae_PodDelete (clusterEnv flags) = clusterPodDelete"
  "ae_MiniGet (clusterEnv flags) = clusterMini"
  "ae_MiniDelete (clusterEnv flags) = clusterMiniDelete"
  "ae_PostInstanceStatusUpdate (clusterEnv flags) = clusterPost"
  "ae_GetICMSServerInstanceStatuses (clusterEnv flags) = (\<lambda>w. (Inr (cl_believed w), w))"
  "ae_now (clusterEnv flags) = cl_now"
  by (simp_all add: clusterEnv_def)

lemma versioned_simps [simp]:
  "versioned n [] = []"
  "versioned n (rs @ [r]) = versioned n rs @ [r\<lparr>ir_Name := n, ar_ResourceVersion := length rs\<rparr>]"
  by (auto simp: versioned_def nth_append)

lemma length_versioned [simp]: "length (versioned n rs) = length rs" "versioned n rs = [] \<longleftrightarrow> rs = []"
  by (auto simp: versioned_def)

lemma versioned_last: "rs \<noteq> [] \<Longrightarrow> last (versioned n rs) = (last rs)\<lparr>ir_Name := n, ar_ResourceVersion := length rs - 1\<rparr>"
  by (cases rs rule: rev_cases) auto

lemma versions_distinct: "distinct (map ar_ResourceVersion (versioned n rs))"
  by (simp add: versioned_def comp_def)

lemma rivalWrite_grows: "prefix (cl_log w n) (cl_log (rivalWrite m w) n)"
  by (auto simp: rivalWrite_def split: list.splits)

interpretation cluster: request_api "clusterEnv flags" cl_log for flags
proof (unfold_locales, goal_cases)
  case (3 r w w')
  let ?n = "ir_Name r" and ?w = "rivalWrite (ir_Name r) w"
  from 3 have ok: "cl_objects ?w ?n \<noteq> []" "Suc (ar_ResourceVersion r) = length (cl_objects ?w ?n)"
    and w': "cl_objects w' ?n = cl_objects ?w ?n @ [r]"
    by (auto simp: clusterWrite_def Let_def split: if_splits)
  obtain hs old where rs: "cl_objects ?w ?n = hs @ [old]" using ok(1) by (cases "cl_objects ?w ?n" rule: rev_cases) auto
  have "cl_log w' ?n = versioned ?n hs @ old\<lparr>ir_Name := ?n, ar_ResourceVersion := length hs\<rparr> # r\<lparr>ar_ResourceVersion := Suc (length hs)\<rparr> # []"
    using versioned_simps(2) [of ?n "hs @ [old]" r] by (simp add: w' rs)
  moreover have "prefix (cl_log w ?n) (versioned ?n hs @ [old\<lparr>ir_Name := ?n, ar_ResourceVersion := length hs\<rparr>])"
    using rivalWrite_grows [of ?n w ?n] by (simp add: rs)
  ultimately show ?case using ok(2) rs by fastforce
qed (auto simp: clusterGet_def versioned_last versions_distinct clusterWrite_def Let_def rivalWrite_grows split: if_splits)

section \<open>When a message is deleted\<close>

text \<open>
  \<open>settled\<close> is a fact of the world that an accepted acknowledgement of the request establishes, and a status of its
  object that says that the failure is acknowledged, and that no later call undoes.
\<close>

definition settles :: "'w agent_env \<Rightarrow> ('w \<Rightarrow> bool) \<Rightarrow> AgentRequest \<Rightarrow> bool" where
  "settles env settled req \<longleftrightarrow>
     (\<forall>b c w w'. ae_PutRequestAcknowledgement env (ir_RequestID req) b c w = (None, w') \<longrightarrow> settled w') \<and>
     (\<forall>r w w'. ir_Name r = ir_Name req \<longrightarrow> ar_RequestStatus r = ICMSRequestStatusFailureAcknowledged \<longrightarrow>
        ae_UpdateStatus env r w = (None, w') \<longrightarrow> settled w') \<and>
     (\<forall>n w r w'. ae_Get env n w = (Inr r, w') \<longrightarrow> ir_Name r = n) \<and>
     (\<forall>w. settled w \<longrightarrow> (\<forall>n. settled (snd (ae_Get env n w))) \<and> (\<forall>r. settled (snd (ae_UpdateStatus env r w))) \<and>
        settled (ae_CleanupModelCachingSetupArtifacts env req w))"

definition guardMessages :: "('w \<Rightarrow> bool) \<Rightarrow> ('w \<Rightarrow> queue_error option \<times> 'w) \<Rightarrow> 'w agent_env \<Rightarrow> 'w agent_env" where
  "guardMessages P trap env = env\<lparr>ae_queue := guardDelete P trap (ae_queue env)\<rparr>"

lemma settledD:
  assumes "settles env settled req"
  shows "ae_PutRequestAcknowledgement env (ir_RequestID req) b c w = (None, w') \<Longrightarrow> settled w'"
    and "ir_Name r = ir_Name req \<Longrightarrow> ar_RequestStatus r = ICMSRequestStatusFailureAcknowledged \<Longrightarrow> ae_UpdateStatus env r w = (None, w') \<Longrightarrow> settled w'"
    and "ae_Get env n w = (Inr r, w') \<Longrightarrow> ir_Name r = n"
    and "settled w \<Longrightarrow> ae_Get env n w = (g, w') \<Longrightarrow> settled w'"
    and "settled w \<Longrightarrow> ae_UpdateStatus env r w = (e, w') \<Longrightarrow> settled w'"
    and "settled w \<Longrightarrow> settled (ae_CleanupModelCachingSetupArtifacts env req w)"
  using assms unfolding settles_def by (metis snd_conv)+

lemma updateLatest_settled:
  assumes "settles env settled req" and "settled (snd x)" and "updateLatest env n modify x = (e, y)"
  shows "settled (snd y)"
  using assms(2,3)
  by (auto simp: updateLatest_def Let_def split: prod.splits sum.splits intro: settledD(4,5) [OF assms(1)])

lemma recordSpan_settled:
  assumes "settles env settled req" and "settled w" and "recordSpan env n s t w = (e, w')"
  shows "settled w'"
  using assms(2,3) by (auto simp: recordSpan_def split: prod.splits sum.splits intro: settledD(4,5) [OF assms(1)])

lemma span_settled:
  assumes "settles env settled req" and "settled w" and "reconcileSpanRequestStatus env s s' sr w = (ok, w')"
  shows "settled w'"
proof (cases "s = s'")
  case False
  with assms(3) obtain e where "RetryOnConflict DefaultRetry None (recordSpan env (ir_Name sr) s' (ae_now env w)) w = (e, w')"
    by (auto simp: reconcileSpanRequestStatus_def split: prod.splits)
  then show ?thesis using assms(2) recordSpan_settled [OF assms(1)] by (rule retry_invariant)
qed (use assms in \<open>simp add: reconcileSpanRequestStatus_def\<close>)

lemma change_settled:
  assumes "settles env settled req" and "settled w"
  shows "settled (snd (applyICMSRequestStatusChange env sr modify w))"
proof -
  obtain e s w1 where r: "RetryOnConflict DefaultRetry None (updateLatest env (ir_Name sr) modify) (NoRequestStatus, w) = (e, s, w1)" by (metis prod.exhaust)
  then have "settled (snd (s, w1))"
    by (rule retry_invariant [where I = "\<lambda>x. settled (snd x)"]) (use assms updateLatest_settled in auto)
  with r span_settled [OF assms(1), of w1 "ar_RequestStatus sr" s sr] show ?thesis
    by (auto simp: applyICMSRequestStatusChange_def split: option.splits prod.splits) (metis eq_snd_iff)
qed

lemma failure_settles:
  assumes "settles env settled req"
    and "applyICMSRequestStatusChange env req (\<lambda>_ sr. sr\<lparr>ar_RequestStatus := ICMSRequestStatusFailureAcknowledged\<rparr>) w = (True, w')"
  shows "settled w'"
proof -
  let ?m = "\<lambda>_ sr. sr\<lparr>ar_RequestStatus := ICMSRequestStatusFailureAcknowledged\<rparr>"
  obtain s w1 where r: "RetryOnConflict DefaultRetry None (updateLatest env (ir_Name req) ?m) (NoRequestStatus, w) = (None, s, w1)"
    and span: "reconcileSpanRequestStatus env (ar_RequestStatus req) s req w1 = (True, w')"
    using assms(2) by (auto simp: applyICMSRequestStatusChange_def split: prod.splits option.splits)
  obtain x where "updateLatest env (ir_Name req) ?m x = (None, s, w1)"
    using retry_success [where I = "\<lambda>_. True", OF r] by (auto simp: DefaultRetry_def)
  then obtain w0 r w2 where g: "ae_Get env (ir_Name req) w0 = (Inr r, w2)"
    and u: "ae_UpdateStatus env (r\<lparr>ar_RequestStatus := ICMSRequestStatusFailureAcknowledged, ar_LastStatusUpdated := Some (ae_now env w2)\<rparr>) w2 = (None, w1)"
    by (auto simp: updateLatest_def Let_def split: prod.splits sum.splits)
  have "settled w1" using settledD(2) [OF assms(1) _ _ u] settledD(3) [OF assms(1) g] by simp
  then show ?thesis using span span_settled [OF assms(1)] by blast
qed

lemma guardMessages_simps [simp]:
  "ae_Get (guardMessages P trap env) = ae_Get env"
  "ae_UpdateStatus (guardMessages P trap env) = ae_UpdateStatus env"
  "ae_now (guardMessages P trap env) = ae_now env"
  "ae_PodLister (guardMessages P trap env) = ae_PodLister env"
  "ae_PodDelete (guardMessages P trap env) = ae_PodDelete env"
  "ae_MiniGet (guardMessages P trap env) = ae_MiniGet env"
  "ae_MiniDelete (guardMessages P trap env) = ae_MiniDelete env"
  "ae_PutRequestAcknowledgement (guardMessages P trap env) = ae_PutRequestAcknowledgement env"
  "ae_PostInstanceStatusUpdate (guardMessages P trap env) = ae_PostInstanceStatusUpdate env"
  "ae_CleanupModelCachingSetupArtifacts (guardMessages P trap env) = ae_CleanupModelCachingSetupArtifacts env"
  "ae_ParseMaxRuntimeDuration (guardMessages P trap env) = ae_ParseMaxRuntimeDuration env"
  "ae_TimeConfig (guardMessages P trap env) = ae_TimeConfig env"
  "ae_ClusterTargetingEnabled (guardMessages P trap env) = ae_ClusterTargetingEnabled env"
  "ae_ICMSRequestACKInterval (guardMessages P trap env) = ae_ICMSRequestACKInterval env"
  "ae_ICMSRequestAckRetryTimeout (guardMessages P trap env) = ae_ICMSRequestAckRetryTimeout env"
  "ae_queueOrder (guardMessages P trap env) = ae_queueOrder env"
  "ae_queue (guardMessages P trap env) = guardDelete P trap (ae_queue env)"
  by (simp_all add: guardMessages_def)

text \<open>The operations that do not touch the queue.\<close>

lemma guarded_change [simp]:
  "updateLatest (guardMessages P trap env) = updateLatest env"
  "recordSpan (guardMessages P trap env) = recordSpan env"
  "reconcileSpanRequestStatus (guardMessages P trap env) = reconcileSpanRequestStatus env"
  "applyICMSRequestStatusChange (guardMessages P trap env) = applyICMSRequestStatusChange env"
proof -
  show u: "updateLatest (guardMessages P trap env) = updateLatest env"
    by (intro ext) (unfold updateLatest_def guardMessages_simps, rule refl)
  show r: "recordSpan (guardMessages P trap env) = recordSpan env"
    by (intro ext) (unfold recordSpan_def guardMessages_simps, rule refl)
  show s: "reconcileSpanRequestStatus (guardMessages P trap env) = reconcileSpanRequestStatus env"
    by (intro ext) (unfold reconcileSpanRequestStatus_def guardMessages_simps r, rule refl)
  show "applyICMSRequestStatusChange (guardMessages P trap env) = applyICMSRequestStatusChange env"
    by (intro ext) (unfold applyICMSRequestStatusChange_def u s, rule refl)
qed

lemma guarded_instances [simp]:
  "purgeInstanceID (guardMessages P trap env) = purgeInstanceID env"
  "handleInstanceStatusPreconditionFailure (guardMessages P trap env) = handleInstanceStatusPreconditionFailure env"
proof -
  show p: "purgeInstanceID (guardMessages P trap env) = purgeInstanceID env"
    by (intro ext)
       (unfold purgeInstanceID_def purgeMiniService_def purgePod_def miniServiceInstanceExists_def podInstanceExists_def guardMessages_simps, rule refl)
  show "handleInstanceStatusPreconditionFailure (guardMessages P trap env) = handleInstanceStatusPreconditionFailure env"
    by (intro ext) (unfold handleInstanceStatusPreconditionFailure_def HandleInstanceStatusPreconditionFailure_def guardMessages_simps guarded_change p, rule refl)
qed

lemma guarded_queries [simp]:
  "ackTaskAfterScheduled (guardMessages P trap env) = ackTaskAfterScheduled env"
  "recentACK (guardMessages P trap env) = recentACK env"
  "markPending (guardMessages P trap env) = markPending env"
  "extendWaitingTask (guardMessages P trap env) = extendWaitingTask env"
  "isICMSRequestAcknowledgementErrorRetryable (guardMessages P trap env) = isICMSRequestAcknowledgementErrorRetryable env"
  unfolding ackTaskAfterScheduled_def recentACK_def sinceACK_def markPending_def extendWaitingTask_def
      isICMSRequestAcknowledgementErrorRetryable_def ExtendCreationMessableVisibilityTimeoutV2_def guardMessages_simps guarded_change guardDelete_simps
  by (rule refl)+

lemma guarded_delete:
  assumes "P w"
  shows "deleteMessageV2 (guardMessages P trap env) qm req w = deleteMessageV2 env qm req w"
    and "deleteMessage (guardMessages P trap env) qm req w = deleteMessage env qm req w"
  using assms by (simp_all add: deleteMessageV2_def deleteMessage_def DeleteCreationMessageV2_def DeleteCreationMessage_def)

definition mayPurge :: "('w \<Rightarrow> bool) \<Rightarrow> AgentRequest \<Rightarrow> 'w \<Rightarrow> bool" where
  "mayPurge settled req w \<longleftrightarrow> settled w \<or> ar_LastACKTimestamp req \<noteq> None"

lemma mayPurgeI [intro, simp]:
  "settled w \<Longrightarrow> mayPurge settled req w" "ar_LastACKTimestamp req = Some t \<Longrightarrow> mayPurge settled req w"
  by (auto simp: mayPurge_def)

lemma guarded_precondition_failed:
  assumes "settles env settled req"
  shows "handleStatusPreconditionFailed (guardMessages (mayPurge settled req) trap env) qm req w = handleStatusPreconditionFailed env qm req w"
proof -
  let ?g = "guardMessages (mayPurge settled req) trap env"
  have "settled (ae_CleanupModelCachingSetupArtifacts env req w2)"
    if "applyICMSRequestStatusChange env req (\<lambda>_ sr. sr\<lparr>ar_RequestStatus := ICMSRequestStatusFailureAcknowledged\<rparr>) w1 = (True, w2)" for w1 w2
    using that failure_settles [OF assms] settledD(6) [OF assms] by blast
  then show ?thesis
    by (auto simp: handleStatusPreconditionFailed_def Let_def guarded_delete split: prod.splits)
qed

lemma guarded_ackSR:
  assumes "settles env settled req"
  shows "ackSR (guardMessages (mayPurge settled req) trap env) qm req w = ackSR env qm req w"
  by (simp add: ackSR_def guarded_precondition_failed [OF assms] split: prod.split option.split)

lemma ack_settles: "settles env settled req \<Longrightarrow> ackSR env qm req w = (True, w') \<Longrightarrow> settled w'"
  by (auto simp: ackSR_def split: prod.splits option.splits dest: settledD(1))

lemma guarded_acknowledge:
  assumes "settles env settled req"
  shows "acknowledgeRequest (guardMessages (mayPurge settled req) trap env) qm req w = acknowledgeRequest env qm req w"
proof -
  let ?g = "guardMessages (mayPurge settled req) trap env"
  have "acknowledgeAndPurge ?g qm req w = acknowledgeAndPurge env qm req w"
    by (auto simp: acknowledgeAndPurge_def guarded_ackSR [OF assms] guarded_delete dest: ack_settles [OF assms] split: prod.splits bool.splits)
  moreover have "acknowledgeScheduledTask ?g qm req w = acknowledgeScheduledTask env qm req w"
    by (auto simp: acknowledgeScheduledTask_def guarded_ackSR [OF assms] guarded_delete change_settled [OF assms]
        dest: ack_settles [OF assms] split: prod.splits bool.splits)
  moreover have "acknowledgeWaitingTask ?g qm req w = acknowledgeWaitingTask env qm req w"
    unfolding acknowledgeWaitingTask_def guarded_ackSR [OF assms] guarded_queries guarded_change by (rule refl)
  ultimately show ?thesis
    by (simp add: acknowledgeRequest_def putTaskICMSRequestAcknowledgementAfterScheduled_def split: RequestStatus.split)
qed

section \<open>When a request is removed\<close>

text \<open>Nothing is left of a request: every instance it records is gone and was reported as terminated, and it holds no cache.\<close>

definition nothingLeft :: "'w agent_env \<Rightarrow> AgentRequest \<Rightarrow> 'w \<Rightarrow> bool" where
  "nothingLeft env req w \<longleftrightarrow>
     ar_CacheReferenceName req = [] \<and>
     (\<forall>(i, st) \<in> set (ar_Instances req). \<not> instanceObjectExists env st w \<and> ins_LastReportedStatus st = ICMSInstanceTerminated)"

definition guardRemoval :: "('w \<Rightarrow> bool) \<Rightarrow> ('w \<Rightarrow> api_error option \<times> 'w) \<Rightarrow> 'w agent_env \<Rightarrow> 'w agent_env" where
  "guardRemoval P trap env = env\<lparr>ae_Delete := (\<lambda>n w. if P w then ae_Delete env n w else trap w)\<rparr>"

lemma guardRemoval_simps [simp]:
  "ae_queue (guardRemoval P trap env) = ae_queue env"
  "ae_Get (guardRemoval P trap env) = ae_Get env"
  "ae_UpdateStatus (guardRemoval P trap env) = ae_UpdateStatus env"
  "ae_Update (guardRemoval P trap env) = ae_Update env"
  "ae_now (guardRemoval P trap env) = ae_now env"
  "ae_PodLister (guardRemoval P trap env) = ae_PodLister env"
  "ae_PodDelete (guardRemoval P trap env) = ae_PodDelete env"
  "ae_MiniGet (guardRemoval P trap env) = ae_MiniGet env"
  "ae_MiniDelete (guardRemoval P trap env) = ae_MiniDelete env"
  "ae_TimeConfig (guardRemoval P trap env) = ae_TimeConfig env"
  "ae_schedulingTimeout (guardRemoval P trap env) = ae_schedulingTimeout env"
  "ae_ApplyCreationMessage (guardRemoval P trap env) = ae_ApplyCreationMessage env"
  "ae_RetryFailedModelCacheCleanup (guardRemoval P trap env) = ae_RetryFailedModelCacheCleanup env"
  by (simp_all add: guardRemoval_def)

lemma removal_change [simp]: "applyICMSRequestStatusChange (guardRemoval P trap env) = applyICMSRequestStatusChange env"
proof -
  have u: "updateLatest (guardRemoval P trap env) = updateLatest env" and r: "recordSpan (guardRemoval P trap env) = recordSpan env"
    by ((intro ext, unfold updateLatest_def guardRemoval_simps, rule refl), intro ext, unfold recordSpan_def guardRemoval_simps, rule refl)
  show ?thesis
    by (intro ext) (unfold applyICMSRequestStatusChange_def reconcileSpanRequestStatus_def guardRemoval_simps u r, rule refl)
qed

lemma removal_queries [simp]:
  "instanceObjectExists (guardRemoval P trap env) = instanceObjectExists env"
  "AllInstancesTerminatedAndReported (guardRemoval P trap env) = AllInstancesTerminatedAndReported env"
  "AggregateInstanceStatuses (guardRemoval P trap env) = AggregateInstanceStatuses env"
  "ackTaskAfterScheduled (guardRemoval P trap env) = ackTaskAfterScheduled env"
  unfolding AllInstancesTerminatedAndReported_def instanceObjectExists_def podInstanceExists_def miniServiceInstanceExists_def
    AggregateInstanceStatuses_def instanceAggregates_def AggregatePodInstanceStatus_def ackTaskAfterScheduled_def guardRemoval_simps
  by (rule refl)+

lemma removal_purge [simp]: "purgeEach (guardRemoval P trap env) is ti w = purgeEach env is ti w"
proof -
  have p: "purgeInstanceID (guardRemoval P trap env) = purgeInstanceID env"
    by (intro ext)
       (unfold purgeInstanceID_def purgeMiniService_def purgePod_def miniServiceInstanceExists_def podInstanceExists_def guardRemoval_simps, rule refl)
  show ?thesis by (induction "is" arbitrary: ti w) (simp_all add: p Let_def split_beta)
qed

lemma removal_steps [simp]:
  "ApplyTerminationMessage (guardRemoval P trap env) = ApplyTerminationMessage env"
  "ApplyICMSRequestStatusChange (guardRemoval P trap env) = ApplyICMSRequestStatusChange env"
  "finalizerStep (guardRemoval P trap env) = finalizerStep env"
proof -
  show "ApplyTerminationMessage (guardRemoval P trap env) = ApplyTerminationMessage env"
    by (intro ext) (unfold ApplyTerminationMessage_def guardRemoval_simps removal_purge removal_change, rule refl)
  show "ApplyICMSRequestStatusChange (guardRemoval P trap env) = ApplyICMSRequestStatusChange env"
    by (intro ext) (unfold ApplyICMSRequestStatusChange_def aggregatedRequestStatus_def pendingStatus_def guardRemoval_simps removal_change removal_queries, rule refl)
  have "updateFinalizers (guardRemoval P trap env) = updateFinalizers env"
    by (intro ext) (unfold updateFinalizers_def guardRemoval_simps, rule refl)
  then show "finalizerStep (guardRemoval P trap env) = finalizerStep env"
    by (intro ext) (simp add: finalizerStep_def)
qed

lemma all_reported_nothing_left:
  "AllInstancesTerminatedAndReported env req w \<Longrightarrow> ar_CacheReferenceName req = [] \<Longrightarrow> nothingLeft env req w"
  by (auto simp: AllInstancesTerminatedAndReported_def nothingLeft_def split: if_splits)

lemma removal_cleanup [simp]:
  "CleanupCreationRequestResources (guardRemoval (nothingLeft env req) trap env) req w = CleanupCreationRequestResources env req w"
  by (simp add: CleanupCreationRequestResources_def all_reported_nothing_left)
     (simp add: guardRemoval_def all_reported_nothing_left)

lemma guarded_sync:
  "syncICMSRequest (guardRemoval (nothingLeft env req) trap env) req w = syncICMSRequest env req w"
proof -
  let ?g = "guardRemoval (nothingLeft env req) trap env"
  have old: "cleanupOldICMSRequest ?g req w = cleanupOldICMSRequest env req w" for w
    unfolding cleanupOldICMSRequest_def guardRemoval_simps removal_cleanup by (rule refl)
  have work: "syncWorking ?g req w = syncWorking env req w" for w
    unfolding syncWorking_def guardRemoval_simps removal_cleanup removal_queries removal_steps by (rule refl)
  have st: "syncByStatus ?g req w = syncByStatus env req w" for w
    unfolding syncByStatus_def syncPending_def syncServing_def syncFailureAcknowledged_def guardRemoval_simps removal_cleanup
      removal_queries removal_steps old work by (rule refl)
  show ?thesis unfolding syncICMSRequest_def removal_queries removal_steps st by (rule refl)
qed

section \<open>Agreement with the control plane\<close>

text \<open>
  What the control plane should believe of an instance: nothing changes if no object has the request; an
  instance that no object of the request records is terminated; otherwise it has the state recorded, where both states are known.
\<close>

definition knownStates :: "string set" where
  "knownStates = {ICMSInstanceStarted, ICMSInstanceRunning, ICMSInstanceTerminated}"

definition agreed :: "AgentRequest list \<Rightarrow> ICMSServerInstanceState \<Rightarrow> string" where
  "agreed rs b =
     (let mine = filter (\<lambda>r. ir_RequestID r = ss_RequestID b) rs
      in if mine = [] then ss_InstanceState b
         else case List.find (\<lambda>r. map_of (ar_Instances r) (ss_InstanceID b) \<noteq> None) mine of
                None \<Rightarrow> ICMSInstanceTerminated
              | Some r \<Rightarrow>
                  let st = ins_Status (the (map_of (ar_Instances r) (ss_InstanceID b)))
                  in if ss_InstanceState b \<in> knownStates \<and> st \<in> knownStates then st else ss_InstanceState b)"

definition agree :: "AgentRequest list \<Rightarrow> ICMSServerInstanceState \<Rightarrow> ICMSServerInstanceState" where
  "agree rs b = b\<lparr>ss_InstanceState := agreed rs b\<rparr>"

abbreviation instanceKey :: "ICMSServerInstanceState \<Rightarrow> string \<times> string" where
  "instanceKey b \<equiv> (ss_RequestID b, ss_InstanceID b)"

definition instancesNamed :: "cluster \<Rightarrow> bool" where
  "instancesNamed w \<longleftrightarrow> (\<forall>r \<in> set (currentObjects w). \<forall>(i, st) \<in> set (ar_Instances r). ins_ID st = i)"

lemma currentObjects_simps [simp]:
  "currentObjects (w\<lparr>cl_posts := ps\<rparr>) = currentObjects w"
  "currentObjects (w\<lparr>cl_believed := bs\<rparr>) = currentObjects w"
  by (simp_all add: currentObjects_def)

lemma find_member: "List.find P xs = Some x \<Longrightarrow> x \<in> set xs \<and> P x"
  unfolding find_Some_iff by (metis nth_mem)

text \<open>Where the control plane knows an instance once, comparing it makes its belief the one agreed on and changes nothing else.\<close>

lemma syncInstance_agrees:
  assumes "cl_refused w = []" and "instancesNamed w" and "ss_InstanceState b \<noteq> ICMSInstanceShuttingDown"
    and b: "cl_believed w = p @ b # q" and "instanceKey b \<notin> instanceKey ` set (p @ q)"
  shows "\<exists>ps. syncInstance (clusterEnv flags) b w = w\<lparr>cl_posts := ps, cl_believed := p @ agree (currentObjects w) b # q\<rparr>"
proof -
  let ?rs = "currentObjects w"
  let ?mine = "filter (\<lambda>r. ir_RequestID r = ss_RequestID b) ?rs"
  let ?has = "\<lambda>r. map_of (ar_Instances r) (ss_InstanceID b) \<noteq> None"
  have only: "map (\<lambda>x. if ss_RequestID x = ss_RequestID b \<and> ss_InstanceID x = ss_InstanceID b then x\<lparr>ss_InstanceState := s\<rparr> else x) l = l"
    if "set l \<subseteq> set (p @ q)" for s l
  proof (rule map_idI)
    fix x assume "x \<in> set l"
    with that have "x \<in> set (p @ q)" by blast
    then have "instanceKey x \<in> instanceKey ` set (p @ q)" by (rule imageI)
    with assms(5) have "instanceKey x \<noteq> instanceKey b" by metis
    then show "(if ss_RequestID x = ss_RequestID b \<and> ss_InstanceID x = ss_InstanceID b then x\<lparr>ss_InstanceState := s\<rparr> else x) = x" by auto
  qed
  have post: "snd (clusterPost (ss_RequestID b) (ss_InstanceID b) u w) =
      w\<lparr>cl_posts := cl_posts w @ [(ss_RequestID b, ss_InstanceID b, u)], cl_believed := p @ b\<lparr>ss_InstanceState := su_InstanceState u\<rparr> # q\<rparr>" for u
    using only [of p] only [of q] by (simp add: clusterPost_def assms(1) b)
  have quiet: "\<exists>ps. w = w\<lparr>cl_posts := ps, cl_believed := p @ agree ?rs b # q\<rparr>" if "agreed ?rs b = ss_InstanceState b"
    using that b by (intro exI [of _ "cl_posts w"]) (simp add: agree_def)
  show ?thesis
  proof (cases "?mine = []")
    case True
    then show ?thesis using quiet by (simp add: syncInstance_def ReconcileInstanceStatus_def agreed_def)
  next
    case mine: False
    show ?thesis
    proof (cases "List.find ?has ?mine")
      case None
      then show ?thesis using mine post [of "terminatedUpdate ICMSInstanceTerminatedDuetoSyncAction [] []"]
        by (auto simp: syncInstance_def ReconcileInstanceStatus_def agreed_def agree_def terminatedUpdate_def)
    next
      case (Some r)
      then have r: "r \<in> set ?rs" "ir_RequestID r = ss_RequestID b" and "?has r"
        using find_member [of ?has ?mine r] by simp_all
      then obtain st where st: "map_of (ar_Instances r) (ss_InstanceID b) = Some st" by auto
      then have i: "ins_ID st = ss_InstanceID b" using assms(2) r(1) by (auto simp: instancesNamed_def dest!: map_of_SomeD)
      have rec: "ReconcileInstanceStatus (clusterEnv flags) b w = (instanceStatusReconcileAction (ss_InstanceState b) (ins_Status st), Some (r, st))"
        using mine Some st by (simp add: ReconcileInstanceStatus_def)
      have ag: "agreed ?rs b = (if ss_InstanceState b \<in> knownStates \<and> ins_Status st \<in> knownStates then ins_Status st else ss_InstanceState b)"
        using mine Some st by (simp add: agreed_def Let_def)
      show ?thesis
      proof (cases "instanceStatusReconcileAction (ss_InstanceState b) (ins_Status st)")
        case ICMSInstanceReconcileNoAction
        then have "agreed ?rs b = ss_InstanceState b"
          using assms(3) unfolding ag instanceStatusReconcileAction_def knownStates_def by (auto split: if_splits)
        then show ?thesis using quiet by (simp add: syncInstance_def rec ICMSInstanceReconcileNoAction)
      next
        case ICMSInstanceReconcileUpdateOnly
        then have "agreed ?rs b = ins_Status st"
          unfolding ag instanceStatusReconcileAction_def knownStates_def by (auto split: if_splits)
        then show ?thesis using post [of "syncActionUpdate st ICMSInstanceReconcileUpdateOnly"]
          by (auto simp: syncInstance_def rec ICMSInstanceReconcileUpdateOnly r(2) i agree_def syncActionUpdate_def)
      next
        case ICMSInstanceReconcileTerminateAndUpdate
        then show ?thesis using assms(3) by (auto simp: instanceStatusReconcileAction_def split: if_splits)
      qed
    qed
  qed
qed

lemma sync_all_agree:
  assumes "cl_refused w = []" and "instancesNamed w" and "ICMSInstanceShuttingDown \<notin> ss_InstanceState ` set bs"
    and "cl_believed w = p @ bs" and "distinct (map instanceKey (p @ bs))"
  shows "\<exists>ps. fold (syncInstance (clusterEnv flags)) bs w = w\<lparr>cl_posts := ps, cl_believed := p @ map (agree (currentObjects w)) bs\<rparr>"
  using assms
proof (induction bs arbitrary: w p)
  case Nil
  then show ?case by (auto intro: exI [of _ "cl_posts w"])
next
  case (Cons b bs)
  have "\<exists>ps. syncInstance (clusterEnv flags) b w = w\<lparr>cl_posts := ps, cl_believed := p @ agree (currentObjects w) b # bs\<rparr>"
    using Cons.prems by (intro syncInstance_agrees) (auto simp: image_iff)
  then obtain ps where s: "syncInstance (clusterEnv flags) b w = w\<lparr>cl_posts := ps, cl_believed := p @ agree (currentObjects w) b # bs\<rparr>" ..
  let ?w = "w\<lparr>cl_posts := ps, cl_believed := p @ agree (currentObjects w) b # bs\<rparr>"
  have "instanceKey (agree rs b) = instanceKey b" for rs by (simp add: agree_def)
  then have "\<exists>ps'. fold (syncInstance (clusterEnv flags)) bs ?w =
      ?w\<lparr>cl_posts := ps', cl_believed := (p @ [agree (currentObjects w) b]) @ map (agree (currentObjects ?w)) bs\<rparr>"
    using Cons.prems by (intro Cons.IH) (auto simp: instancesNamed_def agree_def)
  then show ?case by (simp add: s)
qed

section \<open>The properties\<close>

definition sampleRequest :: "RequestStatus \<Rightarrow> Instances \<Rightarrow> AgentRequest" where
  "sampleRequest st insts =
     \<lparr>ir_Name = ''sr-r'', ir_MessageID = ''m'', ir_RequestID = ''r'', ir_Action = FunctionCreationAction, ir_MessageReceipt = ''rh'',
      ir_QueueURL = ''q'', ir_Meta = None, ir_Env = None, ir_InstanceIds = [], ir_Rejected = [], ar_MessageBatchID = ''b'',
      ar_HelmChart = False, ar_MaxRuntimeDuration = [], ar_CreationTimestamp = Some 0, ar_Deleting = False, ar_Finalizers = [NVCAFinalizer],
      ar_ResourceVersion = 0, ar_RequestStatus = st, ar_LastStatusUpdated = None, ar_LastACKTimestamp = None, ar_CacheReferenceName = [],
      ar_Instances = insts, ar_ReconcileErrors = 0, ar_LastReconcileError = [], ar_RequestStatusTraceContexts = []\<rparr>"

definition sampleCluster :: "AgentRequest \<Rightarrow> (string \<times> PodObject) list \<Rightarrow> cluster" where
  "sampleCluster req pods =
     \<lparr>cl_names = [ir_Name req], cl_objects = (\<lambda>n. if n = ir_Name req then [req] else []), cl_rivals = [], cl_pods = pods, cl_minis = [],
      cl_lingering = [], cl_acked = [], cl_ackError = None, cl_posts = [], cl_refused = [], cl_believed = [], cl_deleted = [],
      cl_now = 100000000000\<rparr>"

lemma clusterWrite_keeps:
  "set (cl_objects w n) \<subseteq> set (cl_objects (snd (clusterWrite r w)) n)"
  "cl_acked (snd (clusterWrite r w)) = cl_acked w"
  by (auto simp: clusterWrite_def rivalWrite_def Let_def split: list.splits)

definition clusterSettled :: "AgentRequest \<Rightarrow> cluster \<Rightarrow> bool" where
  "clusterSettled req w \<longleftrightarrow>
     ir_RequestID req \<in> set (cl_acked w) \<or> ICMSRequestStatusFailureAcknowledged \<in> ar_RequestStatus ` set (cl_objects w (ir_Name req))"

lemma cluster_settles: "settles (clusterEnv flags) (clusterSettled req) req"
proof -
  have put: "clusterSettled req w'" if "ae_PutRequestAcknowledgement (clusterEnv flags) (ir_RequestID req) b c w = (None, w')" for b c w w'
    using that by (auto simp: clusterEnv_def clusterSettled_def split: option.splits)
  have upd: "clusterSettled req w'"
    if "ir_Name r = ir_Name req" "ar_RequestStatus r = ICMSRequestStatusFailureAcknowledged" "clusterWrite r w = (None, w')" for r w w'
    using that by (auto simp: clusterSettled_def clusterWrite_def Let_def split: if_splits)
  have get: "ir_Name r = n" if "clusterGet n w = (Inr r, w')" for n w r w'
    using that by (auto simp: clusterGet_def versioned_last split: if_splits)
  have keep: "clusterSettled req (snd (clusterWrite r w))" if "clusterSettled req w" for r w
    using that image_mono [OF clusterWrite_keeps(1) [of w "ir_Name req" r], of ar_RequestStatus]
    unfolding clusterSettled_def clusterWrite_keeps(2) by blast
  have clean: "ae_CleanupModelCachingSetupArtifacts (clusterEnv flags) req w = w" for w by (simp add: clusterEnv_def)
  have "snd (clusterGet n w) = w" for n w by (simp add: clusterGet_def)
  then show ?thesis unfolding settles_def clusterEnv_simps clean
    by (intro conjI allI impI) (erule put, erule (2) upd, erule get, simp, erule keep, assumption)
qed


definition contended :: cluster where
  "contended = (sampleCluster (sampleRequest NoRequestStatus []) [])
     \<lparr>cl_rivals := [\<lambda>r. r\<lparr>ar_CacheReferenceName := ''pvc''\<rparr>, \<lambda>r. r\<lparr>ar_LastACKTimestamp := Some 7\<rparr>]\<rparr>"


text \<open>
  C6. A message leaves the queue only after its request was acknowledged. Handling a request in
  \<open>PutICMSRequestAcknowledgement\<close> deletes its message only in a world where the control plane has accepted an acknowledgement of it, or
  its object was marked as a failure that is acknowledged, or the object records an earlier acknowledgement: with a
  client that fails any other deletion it does exactly the same.
\<close>

theorem acked_before_deleted:
  assumes "settles env settled req"
  shows "acknowledgeRequest (guardMessages (mayPurge settled req) trap env) qm req w = acknowledgeRequest env qm req w"
  using guarded_acknowledge [OF assms] .

theorem acked_before_deleted_witness:
  "cl_deleted (acknowledgeRequest (guardMessages (mayPurge (clusterSettled (sampleRequest NoRequestStatus [])) (sampleRequest NoRequestStatus []))
       (\<lambda>w. (Some ''early'', w)) (clusterEnv (\<lambda>_. False))) (the (NewQueueManager False noCredentials 10 MaintenanceModeNone)) (sampleRequest NoRequestStatus [])
       (sampleCluster (sampleRequest NoRequestStatus []) [])) = [''rh'']"
  unfolding acked_before_deleted [OF cluster_settles] by code_simp

text \<open>
  C7. A request is removed only when nothing is left of it. A synchronization deletes the object only
  while every instance it records is gone, was reported as terminated, and no model cache is held: with an API server that fails any other deletion
  it does exactly the same, in every status and for every result of the calls before.
\<close>

theorem removed_only_when_gone:
  "syncICMSRequest (guardRemoval (nothingLeft env req) trap env) req w = syncICMSRequest env req w"
  by (rule guarded_sync)


definition agreeing :: cluster where
  "agreeing = (sampleCluster (sampleRequest ICMSRequestStatusInstancesInProgress [(''a'', newInstance ''a'' InstanceTypePod ICMSInstanceRunning)]) [])
     \<lparr>cl_believed := [\<lparr>ss_InstanceID = ''a'', ss_RequestID = ''r'', ss_InstanceState = ICMSInstanceStarted\<rparr>,
                      \<lparr>ss_InstanceID = ''z'', ss_RequestID = ''r'', ss_InstanceState = ICMSInstanceRunning\<rparr>,
                      \<lparr>ss_InstanceID = ''a'', ss_RequestID = ''s'', ss_InstanceState = ICMSInstanceStarted\<rparr>]\<rparr>"


end
