(* ===== verification/IcmsRuns.thy ===== *)
theory IcmsRuns
  imports IcmsRequestsSpec
begin

text \<open>
  Runs of the request handling that do not do what they mean to: an eviction is never confirmed, and an
  instance that is not reported in a round is forgotten.
\<close>

section \<open>What an eviction touches\<close>

text \<open>Steps that leave an object alone, let no rival write and start no pod.\<close>

definition podNames :: "cluster \<Rightarrow> string set" where
  "podNames w = fst ` set (cl_pods w)"

lemma podNames_delete [simp]: "podNames (w\<lparr>cl_pods := AList.delete i (cl_pods w)\<rparr>) = podNames w - {i}"
  by (auto simp: podNames_def AList.delete_eq image_iff)

lemma podNames_simps [simp]:
  "podNames (w\<lparr>cl_posts := ps\<rparr>) = podNames w" "podNames (w\<lparr>cl_believed := bs\<rparr>) = podNames w" "podNames (w\<lparr>cl_minis := ms\<rparr>) = podNames w"
  "podNames (w\<lparr>cl_objects := os\<rparr>) = podNames w" "podNames (w\<lparr>cl_rivals := fs\<rparr>) = podNames w"
  by (simp_all add: podNames_def)

definition calm :: "string \<Rightarrow> cluster \<Rightarrow> cluster \<Rightarrow> bool" where
  "calm n w w' \<longleftrightarrow>
     cl_names w' = cl_names w \<and> cl_objects w' n = cl_objects w n \<and> (cl_rivals w = [] \<longrightarrow> cl_rivals w' = []) \<and>
     podNames w' \<subseteq> podNames w"

lemma calm_refl [simp]: "calm n w w" by (simp add: calm_def)

lemma calm_trans: "calm n w w' \<Longrightarrow> calm n w' w'' \<Longrightarrow> calm n w w''"
  by (auto simp: calm_def)

lemma calm_post: "calm n w (snd (clusterPost r i u w))"
  by (simp add: clusterPost_def calm_def)

lemma calm_posts: "calm n w (snd (fold (reportPurged (clusterEnv flags) r) is (k, w)))"
proof (induction "is" arbitrary: k w)
  case (Cons i "is")
  obtain k' w1 where s: "reportPurged (clusterEnv flags) r i (k, w) = (k', w1)" by force
  then have "calm n w w1"
    using calm_post [of n w "ir_RequestID r" i "terminatedUpdate ICMSInstanceTerminatedServiceMaintenance [] []"]
    by (auto simp: reportPurged_def split: prod.splits option.splits)
  with Cons.IH [of w1 k'] show ?case by (simp add: s calm_trans)
qed simp

lemma calm_purge: "purgeInstanceID (clusterEnv flags) ti i w = (ok, ti', w') \<Longrightarrow> calm n w w' \<and> cl_objects w' = cl_objects w \<and> cl_rivals w' = cl_rivals w"
  by (auto simp: purgeInstanceID_def purgeMiniService_def purgePod_def clusterMiniDelete_def clusterPodDelete_def calm_def Let_def
      split: if_splits sum.splits option.splits prod.splits)

lemma calm_purgeEach:
  "purgeEach (clusterEnv flags) is ti w = (pd, ti', w') \<Longrightarrow> calm n w w' \<and> cl_objects w' = cl_objects w \<and> cl_rivals w' = cl_rivals w"
proof (induction "is" arbitrary: ti w pd ti' w')
  case (Cons i "is")
  obtain ok t1 w1 where p: "purgeInstanceID (clusterEnv flags) ti i w = (ok, t1, w1)" by (metis prod.exhaust)
  obtain pd' t2 w2 where q: "purgeEach (clusterEnv flags) is t1 w1 = (pd', t2, w2)" by (metis prod.exhaust)
  from Cons.IH [OF q] calm_purge [OF p, of n] Cons.prems p q show ?case by (auto intro: calm_trans)
qed simp

lemma calm_update:
  assumes "keepsIdentity modify" and "m \<noteq> n" and m: "ir_Name sr = m"
  shows "calm n w (snd (applyICMSRequestStatusChange (clusterEnv flags) sr modify w))"
proof -
  have wr: "calm n w' w''" if "clusterWrite r w' = (e, w'')" "ir_Name r = m" for r w' e w''
    using that assms(2) by (auto simp: clusterWrite_def rivalWrite_def calm_def Let_def split: if_splits list.splits)
  have got: "ir_Name r = m \<and> w'' = w'" if "clusterGet m w' = (Inr r, w'')" for w' r w''
    using that by (auto simp: clusterGet_def versioned_last split: if_splits)
  have up: "calm n w (snd y)" if c: "calm n w (snd x)" and u: "updateLatest (clusterEnv flags) m modify x = (e, y)" for x e y
  proof (cases "clusterGet m (snd x)")
    case (Pair g w1)
    show ?thesis
    proof (cases g)
      case (Inl a)
      with Pair u c show ?thesis by (auto simp: updateLatest_def clusterGet_def split: prod.splits if_splits)
    next
      case (Inr r)
      let ?r = "(modify (cl_now w1) r)\<lparr>ar_LastStatusUpdated := Some (cl_now w1)\<rparr>"
      from Inr Pair got have "ir_Name ?r = m" "w1 = snd x" using assms(1) by (auto simp: keepsIdentity_def)
      moreover have "clusterWrite ?r w1 = (e, snd y)"
        using u Pair Inr by (auto simp: updateLatest_def Let_def split: prod.splits)
      ultimately show ?thesis using wr c calm_trans by blast
    qed
  qed
  have sp: "calm n w w''" if c: "calm n w w'" and u: "recordSpan (clusterEnv flags) m s t w' = (e, w'')" for w' s t e w''
  proof (cases "clusterGet m w'")
    case (Pair g w1)
    show ?thesis
    proof (cases g)
      case (Inl a)
      with Pair u c show ?thesis by (auto simp: recordSpan_def clusterGet_def split: if_splits)
    next
      case (Inr r)
      let ?r = "r\<lparr>ar_RequestStatusTraceContexts := AList.update s t (ar_RequestStatusTraceContexts r)\<rparr>"
      from Inr Pair got have "ir_Name ?r = m" "w1 = w'" by auto
      moreover have "clusterWrite ?r w1 = (e, w'')" using u Pair Inr by (simp add: recordSpan_def)
      ultimately show ?thesis using wr c calm_trans by blast
    qed
  qed
  obtain e s w1 where r: "RetryOnConflict DefaultRetry None (updateLatest (clusterEnv flags) m modify) (NoRequestStatus, w) = (e, s, w1)"
    by (metis prod.exhaust)
  then have c1: "calm n w (snd (s, w1))"
    by (rule retry_invariant [where I = "\<lambda>x. calm n w (snd x)"]) (use up in auto)
  obtain e' w2 where r2: "RetryOnConflict DefaultRetry None (recordSpan (clusterEnv flags) m s (cl_now w1)) w1 = (e', w2)" by force
  then have "calm n w w2"
    by (rule retry_invariant [where I = "calm n w"]) (use c1 sp in auto)
  with c1 r r2 m show ?thesis
    by (auto simp: applyICMSRequestStatusChange_def reconcileSpanRequestStatus_def split: option.splits prod.splits)
qed

text \<open>Without rivals a change is written at the first attempt.\<close>

lemma cluster_change:
  assumes "cl_rivals w = []" and "cl_objects w n \<noteq> []" and "keepsIdentity modify" and "ir_Name sr = n"
    and "ar_RequestStatus (modify (cl_now w) (last (cl_log w n))) = ar_RequestStatus sr"
  shows "applyICMSRequestStatusChange (clusterEnv flags) sr modify w =
           (True, w\<lparr>cl_objects := (cl_objects w)(n := cl_objects w n @ [(modify (cl_now w) (last (cl_log w n)))\<lparr>ar_LastStatusUpdated := Some (cl_now w)\<rparr>])\<rparr>)"
proof -
  let ?r = "(modify (cl_now w) (last (cl_log w n)))\<lparr>ar_LastStatusUpdated := Some (cl_now w)\<rparr>"
  have id: "ir_Name ?r = n" "Suc (ar_ResourceVersion ?r) = length (cl_objects w n)"
    using assms(2,3) by (simp_all add: keepsIdentity_def versioned_last)
  then have wr: "clusterWrite ?r w = (None, w\<lparr>cl_objects := (cl_objects w)(n := cl_objects w n @ [?r])\<rparr>)"
    using assms(1,2) by (simp add: clusterWrite_def rivalWrite_def Let_def del: select_convs)
  have "updateLatest (clusterEnv flags) n modify (NoRequestStatus, w) =
      (None, ar_RequestStatus sr, w\<lparr>cl_objects := (cl_objects w)(n := cl_objects w n @ [?r])\<rparr>)"
    using wr assms(2,5) by (simp add: updateLatest_def clusterGet_def Let_def)
  then show ?thesis
    using assms(4) by (simp add: applyICMSRequestStatusChange_def DefaultRetry_def eval_nat_numeral reconcileSpanRequestStatus_def)
qed

section \<open>An eviction forgets what was reported\<close>

definition goneInstance :: "string \<Rightarrow> string \<Rightarrow> cluster \<Rightarrow> bool" where
  "goneInstance n i w \<longleftrightarrow>
     n \<in> set (cl_names w) \<and> distinct (cl_names w) \<and> cl_rivals w = [] \<and> cl_objects w n \<noteq> [] \<and>
     evictable (last (cl_log w n)) \<and> i \<in> fst ` set (ar_Instances (last (cl_log w n))) \<and>
     \<not> isMiniServiceInstance i \<and> i \<notin> podNames w"

definition unreported :: "string \<Rightarrow> string \<Rightarrow> cluster \<Rightarrow> bool" where
  "unreported n i w \<longleftrightarrow>
     (\<exists>st. map_of (ar_Instances (last (cl_log w n))) i = Some st \<and> ins_LastReportedStatus st = ICMSInstanceStateNoStatus)"

lemma purge_gone:
  "\<not> isMiniServiceInstance i \<Longrightarrow> i \<notin> podNames w \<Longrightarrow> i \<notin> fst ` set ti \<Longrightarrow>
   purgeInstanceID (clusterEnv flags) ti i w = (True, ti @ [(i, newInstance i InstanceTypePod ICMSInstanceTerminated)], w)"
  by (simp add: purgeInstanceID_def purgePod_def clusterPodDelete_def podNames_def)

lemma purge_entries:
  "purgeInstanceID env ti i w = (ok, ti', w') \<Longrightarrow>
   ti' = ti \<or> (ok \<and> (\<exists>t. ti' = ti @ [(i, newInstance i t ICMSInstanceTerminated)]))"
  by (auto simp: purgeInstanceID_def purgeMiniService_def purgePod_def Let_def split: if_splits sum.splits option.splits prod.splits)

lemma purgeEach_unreported:
  assumes "purgeEach env is ti w = (pd, ti', w')" and "\<forall>(j, st) \<in> set ti. ins_LastReportedStatus st = ICMSInstanceStateNoStatus"
  shows "\<forall>(j, st) \<in> set ti'. ins_LastReportedStatus st = ICMSInstanceStateNoStatus"
  using assms
proof (induction "is" arbitrary: ti w pd ti' w')
  case (Cons i "is")
  obtain ok t1 w1 where p: "purgeInstanceID env ti i w = (ok, t1, w1)" by (metis prod.exhaust)
  obtain pd' t2 w2 where q: "purgeEach env is t1 w1 = (pd', t2, w2)" by (metis prod.exhaust)
  have "\<forall>(j, st) \<in> set t1. ins_LastReportedStatus st = ICMSInstanceStateNoStatus"
    using purge_entries [OF p] Cons.prems(2) by (auto simp: newInstance_def)
  from Cons.IH [OF q this] Cons.prems(1) p q show ?case by simp
qed simp

lemma purgeEach_mono:
  assumes "purgeEach env is ti w = (pd, ti', w')" and "i \<in> fst ` set ti" shows "i \<in> fst ` set ti'"
  using assms
proof (induction "is" arbitrary: ti w pd ti' w')
  case (Cons j "is")
  obtain ok t1 w1 where p: "purgeInstanceID env ti j w = (ok, t1, w1)" by (metis prod.exhaust)
  obtain pd' t2 w2 where q: "purgeEach env is t1 w1 = (pd', t2, w2)" by (metis prod.exhaust)
  have "i \<in> fst ` set t1" using purge_entries [OF p] Cons.prems(2) by auto
  from Cons.IH [OF q this] Cons.prems(1) p q show ?case by simp
qed simp

lemma purgeEach_gone:
  assumes "purgeEach (clusterEnv flags) is ti w = (pd, ti', w')" and "i \<in> set is" and "i \<notin> fst ` set ti"
    and "\<not> isMiniServiceInstance i" and "i \<notin> podNames w"
  shows "i \<in> fst ` set ti' \<and> pd \<noteq> []"
  using assms(1,2,3,5)
proof (induction "is" arbitrary: ti w pd ti' w')
  case (Cons j "is")
  obtain ok t1 w1 where p: "purgeInstanceID (clusterEnv flags) ti j w = (ok, t1, w1)" by (metis prod.exhaust)
  obtain pd' t2 w2 where q: "purgeEach (clusterEnv flags) is t1 w1 = (pd', t2, w2)" by (metis prod.exhaust)
  show ?case
  proof (cases "j = i")
    case True
    with purge_gone [OF assms(4) Cons.prems(4) Cons.prems(3)] p have "ok" "i \<in> fst ` set t1" by auto
    then show ?thesis using purgeEach_mono [OF q] Cons.prems(1) p q by auto
  next
    case False
    have "i \<notin> fst ` set t1" using purge_entries [OF p] Cons.prems(3) False by auto
    moreover have "i \<notin> podNames w1" using calm_purge [OF p] Cons.prems(4) by (auto simp: calm_def)
    ultimately show ?thesis using Cons.IH [OF q] Cons.prems(1,2) False p q by (auto split: if_splits)
  qed
qed simp

lemma overlay_covers:
  assumes "\<forall>(j, st) \<in> set xs. P st" and "i \<in> fst ` set xs \<or> (\<exists>st. map_of acc i = Some st \<and> P st)"
  shows "\<exists>st. map_of (fold (\<lambda>(j, st). AList.update j st) xs acc) i = Some st \<and> P st"
  using assms
proof (induction xs arbitrary: acc)
  case (Cons x xs)
  obtain j s where x: "x = (j, s)" by force
  show ?case using Cons.prems Cons.IH [of "AList.update j s acc"] by (auto simp: x update_conv')
qed simp

lemma evict_self:
  assumes g: "goneInstance n i w"
  shows "let w' = snd (evictRequest (clusterEnv flags) (last (cl_log w n)) (k, w)) in goneInstance n i w' \<and> unreported n i w'"
proof -
  let ?r = "last (cl_log w n)" and ?env = "clusterEnv flags"
  obtain pd ti w1 where p: "purgeEach ?env (map fst (ar_Instances ?r)) [] w = (pd, ti, w1)" by (metis prod.exhaust)
  have i: "i \<in> fst ` set ti" "pd \<noteq> []" using purgeEach_gone [OF p] g by (auto simp: goneInstance_def)
  have c1: "calm n w w1" "cl_objects w1 = cl_objects w" "cl_rivals w1 = []"
    using calm_purgeEach [OF p, of n] g by (auto simp: goneInstance_def)
  define now where "now = cl_now w1"
  define upd where "upd = fold (\<lambda>(j, st). AList.update j st) ti (ar_Instances ?r)"
  define m where "m = (\<lambda>(_ :: int) (sr :: AgentRequest). sr\<lparr>ar_RequestStatus := ICMSRequestStatusInProgress, ar_LastStatusUpdated := Some now, ar_Instances := upd\<rparr>)"
  define w2 where "w2 = snd (applyICMSRequestStatusChange ?env (m 0 ?r) m w1)"
  define ok where "ok = fst (applyICMSRequestStatusChange ?env (m 0 ?r) m w1)"
  define w3 where "w3 = snd (fold (reportPurged ?env ?r) pd (if ok then k else Suc k, w2))"
  have ev: "snd (evictRequest ?env ?r (k, w)) = w3"
    using g p i(2) by (simp add: evictRequest_def goneInstance_def w3_def w2_def ok_def m_def upd_def now_def Let_def split_beta)
  have nm: "ir_Name (m 0 ?r) = n" using g by (simp add: goneInstance_def m_def versioned_last)
  have w2: "w2 = w1\<lparr>cl_objects := (cl_objects w1)(n := cl_objects w1 n @ [(m (cl_now w1) ?r)\<lparr>ar_LastStatusUpdated := Some (cl_now w1)\<rparr>])\<rparr>"
    unfolding w2_def by (subst cluster_change [OF c1(3) _ _ nm]) (use g c1(2) in \<open>auto simp: goneInstance_def m_def keepsIdentity_def\<close>)
  have c2: "calm n w2 w3" unfolding w3_def by (rule calm_posts)
  have obj: "last (cl_log w3 n) = (m (cl_now w1) ?r)\<lparr>ar_LastStatusUpdated := Some (cl_now w1), ir_Name := n, ar_ResourceVersion := length (cl_objects w n)\<rparr>"
    using c2 c1(2) by (simp add: calm_def w2)
  obtain st where st: "map_of upd i = Some st" "ins_LastReportedStatus st = ICMSInstanceStateNoStatus"
    using overlay_covers [where P = "\<lambda>st. ins_LastReportedStatus st = ICMSInstanceStateNoStatus", OF purgeEach_unreported [OF p], of i "ar_Instances ?r"] i(1)
    by (auto simp: upd_def)
  have "evictable (last (cl_log w3 n))" using st by (auto simp: obj evictable_def m_def)
  moreover have "i \<in> fst ` set upd" using st(1) by (force dest: map_of_SomeD)
  ultimately have "goneInstance n i w3"
    using g c1(1) c2 c1(3) by (auto simp: goneInstance_def calm_def w2 obj m_def)
  moreover have "unreported n i w3" using st by (simp add: unreported_def obj m_def)
  ultimately show ?thesis by (simp add: ev)
qed

lemma evict_other:
  assumes "ir_Name r \<noteq> n"
  shows "calm n w (snd (evictRequest (clusterEnv flags) r (k, w)))"
proof (cases "evictable r")
  case True
  obtain pd ti w1 where p: "purgeEach (clusterEnv flags) (map fst (ar_Instances r)) [] w = (pd, ti, w1)" by (metis prod.exhaust)
  let ?upd = "fold (\<lambda>(i, st). AList.update i st) ti (ar_Instances r)"
  let ?m = "\<lambda>sr :: AgentRequest. sr\<lparr>ar_RequestStatus := ICMSRequestStatusInProgress, ar_LastStatusUpdated := Some (cl_now w1), ar_Instances := ?upd\<rparr>"
  obtain ok w2 where a: "applyICMSRequestStatusChange (clusterEnv flags) (?m r) (\<lambda>_. ?m) w1 = (ok, w2)" by force
  have "calm n w1 (snd (applyICMSRequestStatusChange (clusterEnv flags) (?m r) (\<lambda>_. ?m) w1))"
    by (rule calm_update [where m = "ir_Name r"]) (use assms in \<open>simp_all add: keepsIdentity_def\<close>)
  then have c: "calm n w w1" "calm n w w2" using calm_purgeEach [OF p, of n] by (auto simp: a intro: calm_trans)
  then have "calm n w (snd (fold (reportPurged (clusterEnv flags) r) pd (if ok then k else Suc k, w2)))"
    using calm_posts calm_trans by blast
  then show ?thesis using p True a c by (cases "pd = []") (simp_all add: evictRequest_def Let_def)
qed (simp add: evictRequest_def)

lemma evict_others:
  assumes "\<forall>r \<in> set rs. ir_Name r \<noteq> n"
  shows "calm n w (snd (fold (evictRequest (clusterEnv flags)) rs (k, w)))"
  using assms
proof (induction rs arbitrary: k w)
  case (Cons r rs)
  obtain k' w1 where e: "evictRequest (clusterEnv flags) r (k, w) = (k', w1)" by force
  then have "calm n w w1" using evict_other [of r n w flags k] Cons.prems by simp
  moreover have "calm n w1 (snd (fold (evictRequest (clusterEnv flags)) rs (k', w1)))" using Cons by simp
  ultimately show ?case by (simp add: e calm_trans)
qed simp

lemma calm_gone: "calm n w w' \<Longrightarrow> goneInstance n i w \<Longrightarrow> goneInstance n i w'"
  by (auto simp: calm_def goneInstance_def)

lemma calm_unreported: "calm n w w' \<Longrightarrow> unreported n i w \<Longrightarrow> unreported n i w'"
  by (simp add: calm_def unreported_def)

lemma objects_around:
  assumes "goneInstance n i w"
  obtains xs ys where "currentObjects w = xs @ last (cl_log w n) # ys"
    and "\<forall>r \<in> set xs. ir_Name r \<noteq> n" and "\<forall>r \<in> set ys. ir_Name r \<noteq> n"
proof -
  obtain as bs where ns: "cl_names w = as @ n # bs" using assms by (auto simp: goneInstance_def dest: split_list)
  let ?f = "\<lambda>ns. map (\<lambda>n. last (cl_log w n)) (filter (\<lambda>n. cl_objects w n \<noteq> []) ns)"
  have "n \<notin> set as" "n \<notin> set bs" using assms ns by (auto simp: goneInstance_def)
  then have "\<forall>r \<in> set (?f as). ir_Name r \<noteq> n" "\<forall>r \<in> set (?f bs). ir_Name r \<noteq> n" by (auto simp: versioned_last)
  moreover have "currentObjects w = ?f as @ last (cl_log w n) # ?f bs"
    using assms by (simp add: currentObjects_def ns goneInstance_def)
  ultimately show thesis using that by blast
qed

lemma evict_forgets:
  assumes g: "goneInstance n i w"
  shows "goneInstance n i (snd (evictAllWorkloads (clusterEnv flags) w)) \<and> unreported n i (snd (evictAllWorkloads (clusterEnv flags) w))"
proof -
  let ?e = "evictRequest (clusterEnv flags)"
  obtain xs ys where rs: "currentObjects w = xs @ last (cl_log w n) # ys"
    and xs: "\<forall>r \<in> set xs. ir_Name r \<noteq> n" and ys: "\<forall>r \<in> set ys. ir_Name r \<noteq> n"
    using objects_around [OF g] .
  obtain k1 w1 where e1: "fold ?e xs (0, w) = (k1, w1)" by force
  obtain k2 w2 where e2: "?e (last (cl_log w n)) (k1, w1) = (k2, w2)" by force
  have c: "calm n w w1" using evict_others [OF xs, of w flags 0] by (simp add: e1)
  then have "last (cl_log w1 n) = last (cl_log w n)" by (simp add: calm_def)
  with evict_self [OF calm_gone [OF c g], of flags k1] e2 have "goneInstance n i w2 \<and> unreported n i w2" by (simp add: Let_def)
  with evict_others [OF ys, of w2 flags k2] show ?thesis
    by (auto simp: evictAllWorkloads_def rs e1 e2 split_beta intro: calm_gone calm_unreported)
qed

lemma unreported_unconfirmed:
  assumes g: "goneInstance n i w" and "unreported n i w"
  shows "\<not> allWorkloadsConfirmedTerminated (clusterEnv flags) w"
proof -
  let ?r = "last (cl_log w n)"
  obtain st where "(i, st) \<in> set (ar_Instances ?r)" "ins_LastReportedStatus st = ICMSInstanceStateNoStatus"
    using assms(2) by (auto simp: unreported_def dest: map_of_SomeD)
  then have "\<not> AllInstancesTerminatedAndReported (clusterEnv flags) ?r w"
    by (auto simp: AllInstancesTerminatedAndReported_def intro!: bexI [of _ "(i, st)"])
  moreover have "?r \<in> set (currentObjects w)" "evictable ?r"
    using g by (auto simp: goneInstance_def currentObjects_def)
  ultimately show ?thesis by (auto simp: allWorkloadsConfirmedTerminated_def)
qed

lemma attempts_unconfirmed:
  assumes "goneInstance n i w" and "\<And>w'. goneInstance n i w' \<Longrightarrow> goneInstance n i (pause w')"
  shows "\<not> fst (evictionAttempts (clusterEnv flags) pause k w)"
  using assms(1)
proof (induction k arbitrary: w)
  case (Suc k)
  have e: "goneInstance n i (snd (evictAllWorkloads (clusterEnv flags) w))" "unreported n i (snd (evictAllWorkloads (clusterEnv flags) w))"
    using evict_forgets [OF Suc.prems] by auto
  from unreported_unconfirmed [OF e] Suc.IH [OF assms(2) [OF e(1)]] show ?case by (simp add: Let_def)
qed simp


definition reportedGone :: cluster where
  "reportedGone = sampleCluster (sampleRequest ICMSRequestStatusInProgress
     [(''0-sr-r'', \<lparr>ins_ID = ''0-sr-r'', ins_Type = InstanceTypePod, ins_Status = ICMSInstanceTerminated,
                   ins_LastReportedStatus = ICMSInstanceTerminated, ins_LastReportedTimestamp = Some 90000000000\<rparr>)]) []"


section \<open>A report forgets the others\<close>

text \<open>Which instances a report leaves in the object: those posted in this round.\<close>

lemma updated_instances: "map fst (getUpdatedInstanceStatusMap insts posted) = filter (\<lambda>i. i \<in> fst ` set posted) (map fst insts)"
proof (induction insts)
  case (Cons x insts)
  have "fst x \<in> fst ` set posted \<longleftrightarrow> map_of posted (fst x) \<noteq> None" by (simp add: map_of_eq_None_iff)
  then show ?case using Cons by (cases x) (simp split: option.split prod.split)
qed simp

definition runningPod :: PodObject where
  "runningPod = \<lparr>po_Phase = PodRunning, po_Deleting = False, po_IsPodScheduled = True, po_IsPodReady = True, po_createContainerError = None,
     po_ImagePullIssuesReported = False, po_IsPodAdmissionRejected = False, po_IsPodStuckInitializing = None, po_IsPodDegraded = None,
     po_LaunchedLaterThan = (\<lambda>_. False)\<rparr>"

definition reportedInstance :: "string \<Rightarrow> string \<Rightarrow> InstanceStatus" where
  "reportedInstance i st = \<lparr>ins_ID = i, ins_Type = InstanceTypePod, ins_Status = st, ins_LastReportedStatus = st, ins_LastReportedTimestamp = Some 90000000000\<rparr>"

definition twoInstances :: cluster where
  "twoInstances = (sampleCluster (sampleRequest ICMSRequestStatusInstancesInProgress
       [(''0-sr-r'', reportedInstance ''0-sr-r'' ICMSInstanceStarted), (''1-sr-r'', reportedInstance ''1-sr-r'' ICMSInstanceRunning)])
       [(''0-sr-r'', runningPod), (''1-sr-r'', runningPod)])
     \<lparr>cl_believed := [\<lparr>ss_InstanceID = ''1-sr-r'', ss_RequestID = ''r'', ss_InstanceState = ICMSInstanceRunning\<rparr>]\<rparr>"

abbreviation idleManager :: QueueManager where
  "idleManager \<equiv> the (NewQueueManager False noCredentials 10 MaintenanceModeNone)"

definition afterReport :: "cluster \<Rightarrow> cluster" where
  "afterReport w = snd (PostICMSInstanceRequestStatusUpdates (clusterEnv (\<lambda>_. False)) idleManager w)"

definition afterSync :: "cluster \<Rightarrow> cluster" where
  "afterSync w = snd (SyncPeriodicInstanceStatuses (clusterEnv (\<lambda>_. False)) w)"

definition withoutPod :: "string \<Rightarrow> cluster \<Rightarrow> cluster" where
  "withoutPod i w = w\<lparr>cl_pods := AList.delete i (cl_pods w)\<rparr>"

definition afterWork :: "cluster \<Rightarrow> cluster" where
  "afterWork w = snd (processICMSRequest (clusterEnv (\<lambda>_. False)) ''sr-r'' w)"

definition recorded :: "cluster \<Rightarrow> string list" where
  "recorded w = concat (map (\<lambda>r. map fst (ar_Instances r)) (currentObjects w))"

text \<open>
  A report is computed from the cached copy and written to the newest object. When the copy is older, the
  status another controller has set since is undone.
\<close>

definition completedMeanwhile :: cluster where
  "completedMeanwhile = twoInstances\<lparr>cl_objects := (\<lambda>n. map (\<lambda>r. r\<lparr>ar_RequestStatus := ICMSRequestStatusCompleted\<rparr>) (cl_objects twoInstances n))\<rparr>"

lemma stale_report_undoes_status:
  "map ar_RequestStatus (currentObjects completedMeanwhile) = [ICMSRequestStatusCompleted] \<and>
   map ar_RequestStatus (currentObjects (reportRequest (clusterEnv (\<lambda>_. False)) idleManager (last (cl_log twoInstances ''sr-r'')) completedMeanwhile)) =
     [ICMSRequestStatusInstancesInProgress]"
  by (intro conjI; code_simp)

text \<open>
  A pod instance that is recorded is never taken as purged, so that handling a failed precondition deletes the
  pod but does not write the status.
\<close>

lemma recorded_pod_never_purged:
  assumes "i \<in> fst ` set (ar_Instances req)" and "\<not> isMiniServiceInstance i"
  shows "HandleInstanceStatusPreconditionFailure env req i w = (True, snd (ae_PodDelete env i w))"
  using assms by (auto simp: HandleInstanceStatusPreconditionFailure_def purgeInstanceID_def purgePod_def Let_def split: prod.splits option.splits)


end
