(* ===== verification/TimingWheel.thy ===== *)
theory TimingWheel
  imports GoInt "HOL-Library.Product_Lexorder" "HOL-Library.List_Lexorder" "HOL-Library.Char_ord"
begin

text \<open>
  The timing wheel of the event ledger's write cache (\<open>internal/cache/timing_wheel.go\<close>).

  A slot is a Go map used as a set of keys. The order in which a map is iterated is not fixed, so
  \<open>takeDueKeys\<close> takes it as an argument, a function from the slot to a list of its keys. The
  wheel's lock is held for each operation, so operations are atomic. The background goroutine and
  \<open>start\<close> and \<open>stop\<close> are a step relation at the end.
\<close>

section \<open>The wheel\<close>

record key =
  k_namespace :: string
  k_context :: string
  k_eventName :: string

text \<open>Keys are ordered by their fields, so that a set of keys has a canonical list.\<close>

instantiation key_ext :: (linorder) linorder
begin

definition less_eq_key_ext :: "'a key_scheme \<Rightarrow> 'a key_scheme \<Rightarrow> bool" where
  "less_eq_key_ext x y \<longleftrightarrow>
     (k_namespace x, k_context x, k_eventName x, key.more x) \<le> (k_namespace y, k_context y, k_eventName y, key.more y)"

definition less_key_ext :: "'a key_scheme \<Rightarrow> 'a key_scheme \<Rightarrow> bool" where
  "less_key_ext x y \<longleftrightarrow>
     (k_namespace x, k_context x, k_eventName x, key.more x) < (k_namespace y, k_context y, k_eventName y, key.more y)"

instance
proof
  fix x y z :: "'a key_scheme"
  show "x < y \<longleftrightarrow> x \<le> y \<and> \<not> y \<le> x" unfolding less_eq_key_ext_def less_key_ext_def by (rule less_le_not_le)
  show "x \<le> x" unfolding less_eq_key_ext_def by (rule order_refl)
  show "x \<le> y \<Longrightarrow> y \<le> z \<Longrightarrow> x \<le> z" unfolding less_eq_key_ext_def by (rule order_trans)
  show "x \<le> y \<Longrightarrow> y \<le> x \<Longrightarrow> x = y"
    unfolding less_eq_key_ext_def by (drule (1) order_antisym) (simp add: key.equality)
  show "x \<le> y \<or> y \<le> x" unfolding less_eq_key_ext_def by (rule linear)
qed

end

record timingWheel =
  slotCount :: int
  tickDuration :: i64
  slots :: "key set list"
  keyLookup :: "key \<Rightarrow> int option"
  cursor :: int

datatype wheel_error = errInvalidSlotCount | errInvalidTick | errNilOnFire

definition newTimingWheel :: "int \<Rightarrow> i64 \<Rightarrow> bool \<Rightarrow> wheel_error + timingWheel" where
  "newTimingWheel count tick onFireNil =
     (if count \<le> 0 then Inl errInvalidSlotCount
      else if tick \<le> 0 then Inl errInvalidTick
      else if onFireNil then Inl errNilOnFire
      else Inr \<lparr>slotCount = count, tickDuration = tick, slots = replicate (nat count) {},
                keyLookup = (\<lambda>_. None), cursor = 0\<rparr>)"

text \<open>The ticks until a delay has passed, as \<open>schedule\<close> computes them.\<close>

definition scheduleTicks :: "timingWheel \<Rightarrow> i64 \<Rightarrow> i64" where
  "scheduleTicks wh delay =
     (let ticks = quot64 delay (tickDuration wh);
          ticks = (if rem64 delay (tickDuration wh) > 0 then add64 ticks 1 else ticks)
      in min (max ticks 1) (slotCount wh))"

definition schedule :: "key \<Rightarrow> i64 \<Rightarrow> timingWheel \<Rightarrow> bool \<times> timingWheel" where
  "schedule scheduledKey delay wh =
     (let ticks = scheduleTicks wh delay
      in case keyLookup wh scheduledKey of
           Some _ \<Rightarrow> (False, wh)
         | None \<Rightarrow>
             (let slotIndex = rem64 (add64 (cursor wh) ticks) (slotCount wh)
              in (True, wh\<lparr>slots := (slots wh)[nat slotIndex := insert scheduledKey (slots wh ! nat slotIndex)],
                           keyLookup := (keyLookup wh)(scheduledKey \<mapsto> slotIndex)\<rparr>)))"

definition unschedule :: "key \<Rightarrow> timingWheel \<Rightarrow> bool \<times> timingWheel" where
  "unschedule scheduledKey wh =
     (case keyLookup wh scheduledKey of
        None \<Rightarrow> (False, wh)
      | Some slotIndex \<Rightarrow>
          (True, wh\<lparr>slots := (slots wh)[nat slotIndex := slots wh ! nat slotIndex - {scheduledKey}],
                    keyLookup := (keyLookup wh)(scheduledKey := None)\<rparr>))"

definition takeDueKeys :: "(key set \<Rightarrow> key list) \<Rightarrow> timingWheel \<Rightarrow> key list \<times> timingWheel" where
  "takeDueKeys iteration wh =
     (let cur = rem64 (add64 (cursor wh) 1) (slotCount wh);
          dueKeys = iteration (slots wh ! nat cur)
      in (dueKeys, wh\<lparr>cursor := cur, slots := (slots wh)[nat cur := {}],
                      keyLookup := fold (\<lambda>k m. m(k := None)) dueKeys (keyLookup wh)\<rparr>))"

text \<open>\<open>onFire\<close> runs without the wheel's lock, and may use the wheel.\<close>

definition advance ::
    "(key set \<Rightarrow> key list) \<Rightarrow> (key list \<Rightarrow> timingWheel \<times> 's \<Rightarrow> timingWheel \<times> 's) \<Rightarrow> timingWheel \<times> 's \<Rightarrow> timingWheel \<times> 's" where
  "advance iteration onFire s =
     (case takeDueKeys iteration (fst s) of
        (dueKeys, wh) \<Rightarrow> if dueKeys \<noteq> [] then onFire dueKeys (wh, snd s) else (wh, snd s))"

section \<open>Consistency\<close>

text \<open>
  The lookup table and the slots agree, and slot numbers are in range. The bound on the number of
  slots is that of memory: it keeps the sum of two slot numbers an \<open>int\<close>.
\<close>

definition wheel_inv :: "timingWheel \<Rightarrow> bool" where
  "wheel_inv wh \<longleftrightarrow>
     0 < slotCount wh \<and> 2 * slotCount wh \<le> MaxInt64 \<and> 0 < tickDuration wh \<and>
     length (slots wh) = nat (slotCount wh) \<and> 0 \<le> cursor wh \<and> cursor wh < slotCount wh \<and>
     (\<forall>s \<in> set (slots wh). finite s) \<and>
     (\<forall>k i. keyLookup wh k = Some i \<longrightarrow> 0 \<le> i \<and> i < slotCount wh) \<and>
     (\<forall>k j. j < length (slots wh) \<longrightarrow> k \<in> slots wh ! j \<longleftrightarrow> keyLookup wh k = Some (int j))"

definition iterates :: "(key set \<Rightarrow> key list) \<Rightarrow> bool" where
  "iterates iteration \<longleftrightarrow> (\<forall>s. finite s \<longrightarrow> set (iteration s) = s \<and> distinct (iteration s))"

lemma iterates_sorted: "iterates sorted_list_of_set"
  by (simp add: iterates_def)

lemma finite_slot_update: "\<forall>s \<in> set xs. finite s \<Longrightarrow> finite x \<Longrightarrow> \<forall>s \<in> set (xs[i := x]). finite s"
  using set_update_subset_insert [of xs i x] by auto

lemma finite_nth: "\<forall>s \<in> set xs. finite s \<Longrightarrow> i < length xs \<Longrightarrow> finite (xs ! i)"
  by simp

lemma fold_delete: "fold (\<lambda>k m. m(k := None)) ks m = (\<lambda>k. if k \<in> set ks then None else m k)"
  by (induction ks arbitrary: m) auto

lemma newTimingWheel_inv:
  assumes "newTimingWheel count tick onFireNil = Inr wh" and "2 * count \<le> MaxInt64"
  shows "wheel_inv wh"
  using assms by (auto simp: newTimingWheel_def wheel_inv_def split: if_splits)

lemma ceil_div:
  fixes d t :: int
  assumes "0 < t"
  shows "(d + t - 1) div t = d div t + (if 0 < d mod t then 1 else 0)"
proof -
  have d: "d = t * (d div t) + d mod t" by simp
  have m: "0 \<le> d mod t" "d mod t < t" using assms by simp_all
  show ?thesis
  proof (cases "0 < d mod t")
    case True
    have "d + t - 1 = t * (d div t + 1) + (d mod t - 1)" using d by (simp add: algebra_simps)
    with True m show ?thesis using int_div_pos_eq [of "d + t - 1" t "d div t + 1" "d mod t - 1"] by simp
  next
    case False
    then have "d + t - 1 = t * (d div t) + (t - 1)" using d m by linarith
    with False assms show ?thesis using int_div_pos_eq [of "d + t - 1" t "d div t" "t - 1"] by simp
  qed
qed

lemma div_below_max:
  fixes d t :: int
  assumes "0 < d mod t" and "0 < t" and "0 \<le> d" and "d \<le> MaxInt64"
  shows "0 \<le> d div t \<and> d div t < MaxInt64"
proof -
  have "d \<noteq> 0" "t \<noteq> 1" using assms(1) by auto
  then have "d div t < d" using assms(2,3) int_div_less_self [of d t] by linarith
  with assms show ?thesis by (simp add: pos_imp_zdiv_nonneg_iff)
qed

lemma scheduleTicks_eq:
  assumes "wheel_inv wh" and "0 \<le> delay" and "delay \<le> MaxInt64"
  shows "scheduleTicks wh delay = max 1 (min (slotCount wh) ((delay + tickDuration wh - 1) div tickDuration wh))"
proof -
  have t: "0 < tickDuration wh" and s: "0 < slotCount wh" using assms(1) by (simp_all add: wheel_inv_def)
  have "add64 (delay div tickDuration wh) 1 = delay div tickDuration wh + 1" if "0 < delay mod tickDuration wh"
    using div_below_max [OF that t assms(2,3)] by (intro add64_id) (simp add: in_i64_def)
  then show ?thesis
    unfolding scheduleTicks_def Let_def ceil_div [OF t] quot64_nonneg [OF assms(2,3) t] rem64_nonneg [OF assms(2) t]
    using s by auto
qed

lemma scheduleTicks_range: "wheel_inv wh \<Longrightarrow> 1 \<le> scheduleTicks wh delay \<and> scheduleTicks wh delay \<le> slotCount wh"
  by (auto simp: scheduleTicks_def wheel_inv_def Let_def)

text \<open>The slot arithmetic does not overflow.\<close>

lemma slot_ahead:
  assumes "wheel_inv wh" and "0 \<le> n" and "n \<le> slotCount wh"
  shows "rem64 (add64 (cursor wh) n) (slotCount wh) = (cursor wh + n) mod slotCount wh"
proof -
  have "add64 (cursor wh) n = cursor wh + n"
    using assms by (intro add64_id) (auto simp: in_i64_def wheel_inv_def)
  then show ?thesis using assms rem64_nonneg by (simp add: wheel_inv_def)
qed

section \<open>A map of countdowns\<close>

text \<open>
  What the wheel is for: every scheduled key has a number of ticks left, a tick counts all of them
  down, and the keys that have one left come due.
\<close>

type_synonym countdown = "key \<Rightarrow> int option"

definition cd_schedule :: "key \<Rightarrow> int \<Rightarrow> countdown \<Rightarrow> countdown" where
  "cd_schedule k n m = (if m k = None then m(k \<mapsto> n) else m)"

definition cd_due :: "countdown \<Rightarrow> key set" where
  "cd_due m = {k. m k = Some 1}"

definition cd_tick :: "countdown \<Rightarrow> countdown" where
  "cd_tick m k = (case m k of None \<Rightarrow> None | Some n \<Rightarrow> if n = 1 then None else Some (n - 1))"

definition remaining :: "timingWheel \<Rightarrow> countdown" where
  "remaining wh k = map_option (\<lambda>i. (i - cursor wh - 1) mod slotCount wh + 1) (keyLookup wh k)"

lemma remaining_None [simp]: "remaining wh k = None \<longleftrightarrow> keyLookup wh k = None"
  by (simp add: remaining_def)

lemma remaining_range:
  assumes "wheel_inv wh" and "remaining wh k = Some n"
  shows "1 \<le> n \<and> n \<le> slotCount wh"
proof -
  have s: "0 < slotCount wh" using assms(1) by (simp add: wheel_inv_def)
  obtain i where "n = (i - cursor wh - 1) mod slotCount wh + 1" using assms(2) by (auto simp: remaining_def)
  then show ?thesis
    using pos_mod_bound [OF s, of "i - cursor wh - 1"] pos_mod_sign [OF s, of "i - cursor wh - 1"] by linarith
qed

lemma mod_ahead:
  fixes c n s :: int
  assumes "1 \<le> n" and "n \<le> s"
  shows "((c + n) mod s - c - 1) mod s + 1 = n"
proof -
  have "((c + n) mod s - (c + 1)) mod s = (c + n - (c + 1)) mod s" by (rule mod_diff_left_eq)
  then have "((c + n) mod s - c - 1) mod s = (n - 1) mod s" by (simp add: algebra_simps)
  then show ?thesis using assms by simp
qed

lemma schedule_slot:
  assumes "wheel_inv wh"
  shows "rem64 (add64 (cursor wh) (scheduleTicks wh delay)) (slotCount wh) = (cursor wh + scheduleTicks wh delay) mod slotCount wh"
    and "0 \<le> (cursor wh + scheduleTicks wh delay) mod slotCount wh"
    and "(cursor wh + scheduleTicks wh delay) mod slotCount wh < slotCount wh"
  using assms scheduleTicks_range [OF assms, of delay] slot_ahead [OF assms, of "scheduleTicks wh delay"]
  by (auto simp: wheel_inv_def)

lemma schedule_inv:
  assumes "wheel_inv wh"
  shows "wheel_inv (snd (schedule k delay wh))"
proof -
  let ?i = "(cursor wh + scheduleTicks wh delay) mod slotCount wh"
  note s = schedule_slot [OF assms, of delay]
  have j: "nat ?i < length (slots wh)" "int (nat ?i) = ?i" using assms s(2,3) by (auto simp: wheel_inv_def)
  have "\<forall>s \<in> set ((slots wh)[nat ?i := insert k (slots wh ! nat ?i)]). finite s"
    using assms j finite_nth by (intro finite_slot_update) (auto simp: wheel_inv_def)
  with assms s j show ?thesis
    by (auto simp: schedule_def Let_def wheel_inv_def nth_list_update split: option.splits if_splits)
qed

lemma schedule_remaining:
  assumes "wheel_inv wh"
  shows "remaining (snd (schedule k delay wh)) = cd_schedule k (scheduleTicks wh delay) (remaining wh)"
  using schedule_slot(1) [OF assms, of delay] scheduleTicks_range [OF assms, of delay]
    mod_ahead [of "scheduleTicks wh delay" "slotCount wh" "cursor wh"]
  by (auto simp: schedule_def Let_def remaining_def cd_schedule_def fun_eq_iff split: option.splits)

lemma schedule_reports: "fst (schedule k delay wh) \<longleftrightarrow> keyLookup wh k = None"
  by (simp add: schedule_def Let_def split: option.splits)

lemma unschedule_inv:
  assumes "wheel_inv wh"
  shows "wheel_inv (snd (unschedule k wh))"
proof (cases "keyLookup wh k")
  case None
  with assms show ?thesis by (simp add: unschedule_def)
next
  case (Some i)
  then have j: "nat i < length (slots wh)" "int (nat i) = i" using assms by (auto simp: wheel_inv_def)
  have "\<forall>s \<in> set ((slots wh)[nat i := slots wh ! nat i - {k}]). finite s"
    using assms j finite_nth by (intro finite_slot_update) (auto simp: wheel_inv_def)
  with assms Some j show ?thesis
    by (auto simp: unschedule_def wheel_inv_def nth_list_update split: if_splits)
qed

lemma unschedule_remaining: "remaining (snd (unschedule k wh)) = (remaining wh)(k := None)"
  by (auto simp: unschedule_def remaining_def fun_eq_iff split: option.splits)

lemma unschedule_lookup: "keyLookup (snd (unschedule k wh)) = (keyLookup wh)(k := None)"
  by (auto simp: unschedule_def fun_eq_iff split: option.splits)

lemma due_slot:
  assumes "wheel_inv wh" and "iterates iteration"
  shows "set (fst (takeDueKeys iteration wh)) = {k. keyLookup wh k = Some ((cursor wh + 1) mod slotCount wh)}"
    and "distinct (fst (takeDueKeys iteration wh))"
proof -
  let ?c = "(cursor wh + 1) mod slotCount wh"
  have c: "rem64 (add64 (cursor wh) 1) (slotCount wh) = ?c"
    using slot_ahead [OF assms(1), of 1] assms(1) by (auto simp: wheel_inv_def)
  have j: "nat ?c < length (slots wh)" "int (nat ?c) = ?c" using assms(1) by (auto simp: wheel_inv_def)
  then have "slots wh ! nat ?c \<in> set (slots wh)" by simp
  with assms(2) have "set (iteration (slots wh ! nat ?c)) = slots wh ! nat ?c" "distinct (iteration (slots wh ! nat ?c))"
    using assms(1) by (auto simp: iterates_def wheel_inv_def)
  moreover have "slots wh ! nat ?c = {k. keyLookup wh k = Some ?c}" using assms(1) j by (auto simp: wheel_inv_def)
  ultimately show "set (fst (takeDueKeys iteration wh)) = {k. keyLookup wh k = Some ?c}"
    "distinct (fst (takeDueKeys iteration wh))"
    using c by (simp_all add: takeDueKeys_def Let_def)
qed

lemma takeDueKeys_state:
  assumes "wheel_inv wh" and "iterates iteration"
  shows "snd (takeDueKeys iteration wh) =
    wh\<lparr>cursor := (cursor wh + 1) mod slotCount wh, slots := (slots wh)[nat ((cursor wh + 1) mod slotCount wh) := {}],
       keyLookup := (\<lambda>k. if keyLookup wh k = Some ((cursor wh + 1) mod slotCount wh) then None else keyLookup wh k)\<rparr>"
proof -
  have c: "rem64 (add64 (cursor wh) 1) (slotCount wh) = (cursor wh + 1) mod slotCount wh"
    using slot_ahead [OF assms(1), of 1] assms(1) by (auto simp: wheel_inv_def)
  show ?thesis using due_slot(1) [OF assms] c
    by (auto simp: takeDueKeys_def Let_def fold_delete fun_eq_iff)
qed

lemma takeDueKeys_inv:
  assumes "wheel_inv wh" and "iterates iteration"
  shows "wheel_inv (snd (takeDueKeys iteration wh))"
proof -
  let ?c = "(cursor wh + 1) mod slotCount wh"
  have j: "nat ?c < length (slots wh)" "int (nat ?c) = ?c" using assms(1) by (auto simp: wheel_inv_def)
  have "\<forall>s \<in> set ((slots wh)[nat ?c := {}]). finite s"
    using assms(1) by (intro finite_slot_update) (auto simp: wheel_inv_def)
  with assms j show ?thesis
    by (auto simp: takeDueKeys_state wheel_inv_def nth_list_update split: if_splits)
qed

lemma mod_step:
  fixes i c s :: int
  assumes "0 \<le> i" and "i < s"
  shows "(i - c - 1) mod s = 0 \<longleftrightarrow> i = (c + 1) mod s"
    and "i \<noteq> (c + 1) mod s \<Longrightarrow> (i - (c + 1) mod s - 1) mod s + 1 = (i - c - 1) mod s"
proof -
  have "(i - c - 1) mod s = 0 \<longleftrightarrow> i mod s = (c + 1) mod s"
    using mod_eq_dvd_iff [of i s "c + 1"] by (simp add: algebra_simps dvd_eq_mod_eq_0)
  then show z: "(i - c - 1) mod s = 0 \<longleftrightarrow> i = (c + 1) mod s" using assms by simp
  assume "i \<noteq> (c + 1) mod s"
  with z have nz: "(i - c - 1) mod s \<noteq> 0" by simp
  have p: "0 < s" using assms by linarith
  have "(i - (c + 1) mod s - 1) mod s = (i - c - 1 - 1) mod s"
    by (metis (no_types, opaque_lifting) diff_diff_eq mod_diff_eq mod_diff_left_eq mod_mod_trivial add.commute)
  also have "\<dots> = ((i - c - 1) mod s - 1) mod s" by (simp add: mod_diff_left_eq)
  also have "\<dots> = (i - c - 1) mod s - 1"
    using nz p pos_mod_sign [OF p, of "i - c - 1"] pos_mod_bound [OF p, of "i - c - 1"] by (intro mod_pos_pos_trivial) linarith+
  finally show "(i - (c + 1) mod s - 1) mod s + 1 = (i - c - 1) mod s" by simp
qed

lemma takeDueKeys_remaining:
  assumes "wheel_inv wh" and "iterates iteration"
  shows "remaining (snd (takeDueKeys iteration wh)) = cd_tick (remaining wh)"
    and "set (fst (takeDueKeys iteration wh)) = cd_due (remaining wh)"
proof -
  have range: "0 \<le> i \<and> i < slotCount wh" if "keyLookup wh k = Some i" for k i
    using that assms(1) by (auto simp: wheel_inv_def)
  show "remaining (snd (takeDueKeys iteration wh)) = cd_tick (remaining wh)"
  proof
    fix k
    show "remaining (snd (takeDueKeys iteration wh)) k = cd_tick (remaining wh) k"
    proof (cases "keyLookup wh k")
      case None
      then show ?thesis by (simp add: takeDueKeys_state [OF assms] remaining_def cd_tick_def)
    next
      case (Some i)
      with range [OF Some] mod_step [of i "slotCount wh" "cursor wh"] show ?thesis
        by (auto simp: takeDueKeys_state [OF assms] remaining_def cd_tick_def)
    qed
  qed
  show "set (fst (takeDueKeys iteration wh)) = cd_due (remaining wh)"
    using due_slot(1) [OF assms] range mod_step(1) by (fastforce simp: cd_due_def remaining_def)
qed

section \<open>Sequences of operations\<close>

datatype wheel_op = OpSchedule key i64 | OpUnschedule key | OpTick

fun run_op :: "(key set \<Rightarrow> key list) \<Rightarrow> wheel_op \<Rightarrow> timingWheel \<Rightarrow> timingWheel" where
  "run_op iteration (OpSchedule k delay) wh = snd (schedule k delay wh)"
| "run_op iteration (OpUnschedule k) wh = snd (unschedule k wh)"
| "run_op iteration OpTick wh = snd (takeDueKeys iteration wh)"

fun cd_op :: "timingWheel \<Rightarrow> wheel_op \<Rightarrow> countdown \<Rightarrow> countdown" where
  "cd_op wh (OpSchedule k delay) m = cd_schedule k (scheduleTicks wh delay) m"
| "cd_op wh (OpUnschedule k) m = m(k := None)"
| "cd_op wh OpTick m = cd_tick m"

definition ticksIn :: "wheel_op list \<Rightarrow> nat" where
  "ticksIn ops = length (filter (\<lambda>x. x = OpTick) ops)"

lemma run_op_refines:
  assumes "wheel_inv wh" and "iterates iteration"
  shows "wheel_inv (run_op iteration x wh)" and "remaining (run_op iteration x wh) = cd_op wh x (remaining wh)"
  using assms by (cases x; simp add: schedule_inv unschedule_inv takeDueKeys_inv schedule_remaining unschedule_remaining
      takeDueKeys_remaining)+

lemma run_op_sizes:
  "slotCount (run_op iteration x wh) = slotCount wh" "tickDuration (run_op iteration x wh) = tickDuration wh"
  by (cases x; simp add: schedule_def unschedule_def takeDueKeys_def Let_def split: option.splits)+

text \<open>A key that is not unscheduled counts down tick by tick, whatever else happens to the wheel.\<close>

lemma run_counts_down:
  assumes "wheel_inv wh" and "iterates iteration" and "remaining wh k = Some n"
    and "OpUnschedule k \<notin> set ops" and "int (ticksIn ops) < n"
  shows "wheel_inv (fold (run_op iteration) ops wh) \<and>
    remaining (fold (run_op iteration) ops wh) k = Some (n - int (ticksIn ops))"
  using assms(1,3-5)
proof (induction ops arbitrary: wh n)
  case Nil
  then show ?case by (simp add: ticksIn_def)
next
  case (Cons x ops)
  note inv = run_op_refines(1) [OF Cons.prems(1) assms(2)] and rem = run_op_refines(2) [OF Cons.prems(1) assms(2)]
  show ?case
  proof (cases "x = OpTick")
    case True
    with Cons.prems(2,4) have "remaining (run_op iteration x wh) k = Some (n - 1)"
      using rem [of x] by (auto simp: cd_tick_def ticksIn_def)
    from Cons.IH [OF inv this] Cons.prems True show ?thesis by (auto simp: ticksIn_def algebra_simps)
  next
    case False
    with Cons.prems(2,3) have "remaining (run_op iteration x wh) k = Some n"
      using rem [of x] by (cases x) (auto simp: cd_schedule_def simp del: remaining_None)
    from Cons.IH [OF inv this] Cons.prems False show ?thesis by (auto simp: ticksIn_def)
  qed
qed

section \<open>The background goroutine\<close>

text \<open>
  \<open>lifecycleMu\<close> is held by \<open>stop\<close> until the goroutine has ended, which is \<open>lf_stopping\<close>. Closing a channel
  twice panics. The goroutine's select may pick the ticker although the stop signal is closed.
\<close>

datatype goroutine = NotStarted | Looping | Exited

record lifecycle =
  lf_running :: bool
  lf_stopped :: bool
  lf_stopping :: bool
  lf_signalClosed :: nat
  lf_doneClosed :: nat
  lf_go :: goroutine
  lf_ticks :: nat

definition newLifecycle :: lifecycle where
  "newLifecycle = \<lparr>lf_running = False, lf_stopped = False, lf_stopping = False, lf_signalClosed = 0, lf_doneClosed = 0,
     lf_go = NotStarted, lf_ticks = 0\<rparr>"

definition wheel_start :: "lifecycle \<Rightarrow> lifecycle" where
  "wheel_start l = (if lf_running l \<or> lf_stopped l then l else l\<lparr>lf_running := True, lf_go := Looping\<rparr>)"

text \<open>\<open>stop\<close> up to the point where it waits, or returns.\<close>

definition wheel_stop :: "lifecycle \<Rightarrow> lifecycle" where
  "wheel_stop l =
     (if lf_stopped l then l
      else l\<lparr>lf_stopped := True, lf_signalClosed := lf_signalClosed l + 1, lf_stopping := lf_running l\<rparr>)"

inductive lf_step :: "lifecycle \<Rightarrow> lifecycle \<Rightarrow> bool" where
  lf_start: "\<not> lf_stopping l \<Longrightarrow> lf_step l (wheel_start l)"
| lf_stop: "\<not> lf_stopping l \<Longrightarrow> lf_step l (wheel_stop l)"
| lf_tick: "lf_go l = Looping \<Longrightarrow> lf_step l (l\<lparr>lf_ticks := lf_ticks l + 1\<rparr>)"
| lf_exit: "lf_go l = Looping \<Longrightarrow> 0 < lf_signalClosed l \<Longrightarrow>
     lf_step l (l\<lparr>lf_go := Exited, lf_doneClosed := lf_doneClosed l + 1\<rparr>)"
| lf_stop_returns: "lf_stopping l \<Longrightarrow> 0 < lf_doneClosed l \<Longrightarrow> lf_step l (l\<lparr>lf_stopping := False\<rparr>)"

inductive_simps lf_step_simps: "lf_step l l'"

definition lf_inv :: "lifecycle \<Rightarrow> bool" where
  "lf_inv l \<longleftrightarrow>
     lf_signalClosed l = (if lf_stopped l then 1 else 0) \<and>
     lf_doneClosed l = (if lf_go l = Exited then 1 else 0) \<and>
     (lf_running l \<longleftrightarrow> lf_go l \<noteq> NotStarted) \<and>
     (lf_go l = Exited \<longrightarrow> lf_stopped l) \<and>
     (lf_stopping l \<longrightarrow> lf_stopped l \<and> lf_running l) \<and>
     (lf_stopped l \<and> \<not> lf_stopping l \<longrightarrow> lf_go l \<noteq> Looping)"

lemma lf_step_inv: "lf_step l l' \<Longrightarrow> lf_inv l \<Longrightarrow> lf_inv l'"
  by (auto simp: lf_step_simps lf_inv_def wheel_start_def wheel_stop_def split: if_splits)

lemma lf_inv_reach: "lf_step\<^sup>*\<^sup>* newLifecycle l \<Longrightarrow> lf_inv l"
  by (induction rule: rtranclp_induct) (auto simp: lf_step_inv, simp add: lf_inv_def newLifecycle_def)

section \<open>Properties\<close>

text \<open>
  C22. The wheel is a map of countdowns. Every operation on a consistent wheel keeps it consistent and
  acts on the ticks left of each key as the map does: scheduling a key that is not in the wheel gives
  it its ticks and leaves a scheduled one alone, unscheduling removes it, and a tick hands over
  exactly the keys with one tick left, each once, and counts the others down.
\<close>

theorem wheel_refines_countdown:
  assumes "wheel_inv wh" and "iterates iteration"
  shows "wheel_inv (snd (schedule k delay wh)) \<and>
     remaining (snd (schedule k delay wh)) = cd_schedule k (scheduleTicks wh delay) (remaining wh) \<and>
     (fst (schedule k delay wh) \<longleftrightarrow> remaining wh k = None) \<and>
     wheel_inv (snd (unschedule k wh)) \<and> remaining (snd (unschedule k wh)) = (remaining wh)(k := None) \<and>
     wheel_inv (snd (takeDueKeys iteration wh)) \<and> remaining (snd (takeDueKeys iteration wh)) = cd_tick (remaining wh) \<and>
     set (fst (takeDueKeys iteration wh)) = cd_due (remaining wh) \<and> distinct (fst (takeDueKeys iteration wh))"
  using assms by (simp add: schedule_inv schedule_remaining schedule_reports unschedule_inv unschedule_remaining
      takeDueKeys_inv takeDueKeys_remaining due_slot(2))

abbreviation wheelKey :: key where "wheelKey \<equiv> \<lparr>k_namespace = ''ns'', k_context = ''c'', k_eventName = ''e''\<rparr>"

definition demo_wheel :: timingWheel where
  "demo_wheel = \<lparr>slotCount = 2, tickDuration = 10, slots = [{wheelKey}, {}], keyLookup = [wheelKey \<mapsto> 0], cursor = 1\<rparr>"

lemma demo_wheel_ok: "wheel_inv demo_wheel"
  by (auto simp: demo_wheel_def wheel_inv_def less_Suc_eq numeral_2_eq_2)

theorem wheel_refines_countdown_witness: "set (fst (takeDueKeys sorted_list_of_set demo_wheel)) = {wheelKey}"
proof -
  have "cd_due (remaining demo_wheel) = {wheelKey}"
    by (auto simp: cd_due_def remaining_def demo_wheel_def split: if_splits)
  with wheel_refines_countdown [OF demo_wheel_ok iterates_sorted] show ?thesis by simp
qed

text \<open>
  C25. A scheduled key comes due on time. When a key is newly scheduled with a delay of at most a
  rotation and not unscheduled, then, whatever other operations follow, it is in the wheel for
  all but the last of the ticks its delay rounds up to, the last one hands it over, and the ticks
  are the least number that covers the delay.
\<close>

theorem scheduled_key_on_time:
  assumes "wheel_inv wh" and "iterates iteration" and "keyLookup wh k = None"
    and "0 < delay" and "delay \<le> slotCount wh * tickDuration wh" and "delay \<le> MaxInt64"
    and "OpUnschedule k \<notin> set ops" and "n = scheduleTicks wh delay"
    and "wh' = fold (run_op iteration) ops (snd (schedule k delay wh))"
  shows "(int (ticksIn ops) < n \<longrightarrow> keyLookup wh' k \<noteq> None) \<and>
     (int (ticksIn ops) = n - 1 \<longrightarrow> k \<in> set (fst (takeDueKeys iteration wh'))) \<and>
     (int (ticksIn ops) < n - 1 \<longrightarrow> k \<notin> set (fst (takeDueKeys iteration wh'))) \<and>
     delay \<le> n * tickDuration wh \<and> (n - 1) * tickDuration wh < delay"
proof -
  let ?t = "tickDuration wh"
  have t: "0 < ?t" using assms(1) by (simp add: wheel_inv_def)
  have "remaining (snd (schedule k delay wh)) k = Some n"
    using schedule_remaining [OF assms(1)] assms(3,8) by (simp add: cd_schedule_def)
  note count = run_counts_down [OF schedule_inv [OF assms(1)] assms(2) this assms(7)]
  note due = takeDueKeys_remaining(2) [OF _ assms(2)]
  have left: "wheel_inv wh' \<and> remaining wh' k = Some (n - int (ticksIn ops))" if "int (ticksIn ops) < n"
    using count that assms(9) by simp
  have in_wheel: "keyLookup wh' k \<noteq> None" if "int (ticksIn ops) < n"
    using left [OF that] by (metis option.distinct(1) remaining_None)
  have le: "(delay - 1) div ?t * ?t \<le> delay - 1" "delay - 1 < ((delay - 1) div ?t + 1) * ?t"
    using div_mult_mod_eq [of "delay - 1" ?t] pos_mod_bound [OF t, of "delay - 1"] pos_mod_sign [OF t, of "delay - 1"]
    by (linarith, unfold distrib_right, linarith)
  have "(delay - 1) div ?t * ?t < slotCount wh * ?t" using le(1) assms(5) by linarith
  then have "(delay - 1) div ?t < slotCount wh" using t by simp
  moreover have "(delay + ?t - 1) div ?t = (delay - 1) div ?t + 1"
    using t by (metis add.commute add_diff_eq diff_add_eq div_add_self2 less_irrefl)
  moreover have "0 \<le> (delay - 1) div ?t" using assms(4) t by (simp add: pos_imp_zdiv_nonneg_iff)
  ultimately have n: "n = (delay - 1) div ?t + 1"
    using scheduleTicks_eq [OF assms(1), of delay] assms(4,6,8) by simp
  with le have bounds: "delay \<le> n * ?t" "(n - 1) * ?t < delay" by simp_all
  show ?thesis using in_wheel left due bounds by (auto simp: cd_due_def)
qed

theorem scheduled_key_on_time_witness:
  "wheelKey \<in> set (fst (takeDueKeys sorted_list_of_set
     (fold (run_op sorted_list_of_set) [OpTick] (snd (schedule wheelKey 15 (demo_wheel\<lparr>slots := [{}, {}], keyLookup := Map.empty\<rparr>))))))"
proof -
  let ?w = "demo_wheel\<lparr>slots := [{}, {}], keyLookup := Map.empty\<rparr>"
  have i: "wheel_inv ?w" by (auto simp: demo_wheel_def wheel_inv_def less_Suc_eq numeral_2_eq_2)
  have "scheduleTicks ?w 15 = 2" by (simp add: scheduleTicks_eq [OF i]) (simp add: demo_wheel_def)
  with scheduled_key_on_time [OF i iterates_sorted, of wheelKey 15 "[OpTick]", OF _ _ _ _ _ refl refl] show ?thesis
    by (simp add: demo_wheel_def ticksIn_def)
qed

text \<open>
  Stopping is clean. In every state the calls of \<open>start\<close> and \<open>stop\<close> and the goroutine can reach,
  neither channel has been closed twice; a \<open>stop\<close> that waits can return, after at most the exit of
  the goroutine; and once it has returned the wheel does not advance any more.
\<close>

lemma stop_is_clean:
  assumes "lf_step\<^sup>*\<^sup>* newLifecycle l"
  shows "lf_signalClosed l \<le> 1 \<and> lf_doneClosed l \<le> 1 \<and>
     (lf_stopping l \<longrightarrow> (\<exists>l' l''. (l' = l \<or> lf_step l l') \<and> lf_step l' l'' \<and> \<not> lf_stopping l'')) \<and>
     (lf_stopped l \<and> \<not> lf_stopping l \<longrightarrow> (\<forall>l'. lf_step\<^sup>*\<^sup>* l l' \<longrightarrow> lf_ticks l' = lf_ticks l))"
proof -
  have inv: "lf_inv l" by (rule lf_inv_reach [OF assms])
  have returns: "\<exists>l' l''. (l' = l \<or> lf_step l l') \<and> lf_step l' l'' \<and> \<not> lf_stopping l''" if s: "lf_stopping l"
  proof (cases "lf_go l = Exited")
    case True
    with inv s have "lf_step l (l\<lparr>lf_stopping := False\<rparr>)" by (auto simp: lf_inv_def intro: lf_stop_returns)
    then show ?thesis by (intro exI [of _ l] exI [of _ "l\<lparr>lf_stopping := False\<rparr>"]) simp
  next
    case False
    with inv s have e: "lf_step l (l\<lparr>lf_go := Exited, lf_doneClosed := lf_doneClosed l + 1\<rparr>)"
      by (intro lf_exit) (cases "lf_go l"; auto simp: lf_inv_def)+
    have "lf_step (l\<lparr>lf_go := Exited, lf_doneClosed := lf_doneClosed l + 1\<rparr>)
        (l\<lparr>lf_go := Exited, lf_doneClosed := lf_doneClosed l + 1, lf_stopping := False\<rparr>)"
      using lf_stop_returns [of "l\<lparr>lf_go := Exited, lf_doneClosed := lf_doneClosed l + 1\<rparr>"] s by simp
    with e show ?thesis
      by (intro exI [of _ "l\<lparr>lf_go := Exited, lf_doneClosed := lf_doneClosed l + 1\<rparr>"]
          exI [of _ "l\<lparr>lf_go := Exited, lf_doneClosed := lf_doneClosed l + 1, lf_stopping := False\<rparr>"]) simp
  qed
  have quiet: "lf_ticks l' = lf_ticks l \<and> lf_inv l' \<and> lf_stopped l' \<and> \<not> lf_stopping l'"
    if "lf_stopped l \<and> \<not> lf_stopping l" and "lf_step\<^sup>*\<^sup>* l l'" for l'
    using that(2)
  proof (induction rule: rtranclp_induct)
    case base
    with that(1) inv show ?case by simp
  next
    case (step y z)
    then have "lf_inv z" by (blast intro: lf_step_inv)
    moreover from step.IH have "lf_go y \<noteq> Looping" by (simp add: lf_inv_def)
    ultimately show ?case using step.hyps(2) step.IH
      by (auto simp: lf_step_simps wheel_start_def wheel_stop_def)
  qed
  have "lf_signalClosed l \<le> 1" "lf_doneClosed l \<le> 1" using inv by (simp_all add: lf_inv_def)
  with returns quiet show ?thesis by blast
qed

end
