(* ===== verification/WriteCache.thy ===== *)
theory WriteCache
  imports TimingWheel "HOL-Library.AList" "HOL-Library.Multiset"
begin

text \<open>
  The write cache of the event ledger (\<open>internal/cache/cache.go\<close>): it keeps the latest event of each
  key, writes the first one at once and the later ones when their flush is due or their entry is
  evicted.

  The map of entries is an association list, as the eviction loop compares its size. A node of the
  recency list is its identity and the key it holds. The lock \<open>entriesMu\<close> makes the operations on
  the handler atomic; the database writes happen outside it and act on a world \<open>'w\<close>. A panic of the
  code (a nil node or entry) is the result \<open>None\<close>.
\<close>

section \<open>Data\<close>

record EventV3UpsertRecord =
  ev_Namespace :: string
  ev_Context :: string
  ev_EventName :: string
  ev_Source :: string
  ev_Details :: string
  ev_Timestamp :: int
  ev_NcaID :: string
  ev_FunctionID :: string

definition keyOf :: "EventV3UpsertRecord \<Rightarrow> key" where
  "keyOf r = \<lparr>k_namespace = ev_Namespace r, k_context = ev_Context r, k_eventName = ev_EventName r\<rparr>"

text \<open>\<open>lastWritten\<close> is \<open>None\<close> for the zero time.\<close>

record cached =
  c_record :: EventV3UpsertRecord
  c_pending :: bool
  c_lastWritten :: "int option"
  c_lastUpdated :: int
  c_recencyNode :: nat

record Config =
  MaxSize :: int
  FlushInterval :: i64

record CachingDBHandler =
  h_cfg :: Config
  h_entries :: "(key \<times> cached) list"
  h_recency :: "(nat \<times> key) list"
  h_nextNode :: nat
  h_wheel :: timingWheel

datatype outcome = outcomeMiss | outcomeBecamePending | outcomeAlreadyPending | outcomeStale

definition wheelTick :: i64 where "wheelTick = 1000000000"
definition maxFlushInterval :: i64 where "maxFlushInterval = 3600 * 1000000000"
definition inactiveTTLBufferPercent :: i64 where "inactiveTTLBufferPercent = 10"
definition evictionFlushTimeout :: i64 where "evictionFlushTimeout = 10 * 1000000000"
definition evictionFlushAttempts :: nat where "evictionFlushAttempts = 4"
definition evictionRetryBaseDelay :: i64 where "evictionRetryBaseDelay = 100 * 1000000"

definition inactiveTTL :: "Config \<Rightarrow> i64" where
  "inactiveTTL cfg = add64 (FlushInterval cfg) (quot64 (mul64 (FlushInterval cfg) inactiveTTLBufferPercent) 100)"

datatype cache_error =
    errNilInnerHandler | errNilFlush | errNilMeter | errInvalidMaxSize | errInvalidFlushInterval | errFlushIntervalTooLong
  | WheelError wheel_error | MetricsError string

definition NewCachingDBHandler ::
    "bool \<Rightarrow> Config \<Rightarrow> bool \<Rightarrow> bool \<Rightarrow> string option \<Rightarrow> cache_error + CachingDBHandler" where
  "NewCachingDBHandler innerNil cfg flushNil meterNil metricsErr =
     (if innerNil then Inl errNilInnerHandler
      else if flushNil then Inl errNilFlush
      else if meterNil then Inl errNilMeter
      else if MaxSize cfg \<le> 0 then Inl errInvalidMaxSize
      else if FlushInterval cfg \<le> 0 then Inl errInvalidFlushInterval
      else if FlushInterval cfg > maxFlushInterval then Inl errFlushIntervalTooLong
      else
        let count = quot64 (FlushInterval cfg) wheelTick;
            count = (if rem64 (FlushInterval cfg) wheelTick > 0 then add64 count 1 else count)
        in case newTimingWheel count wheelTick False of
             Inl e \<Rightarrow> Inl (WheelError e)
           | Inr wh \<Rightarrow>
               (case metricsErr of
                  Some e \<Rightarrow> Inl (MetricsError e)
                | None \<Rightarrow> Inr \<lparr>h_cfg = cfg, h_entries = [], h_recency = [], h_nextNode = 0, h_wheel = wh\<rparr>))"

definition entryCount :: "CachingDBHandler \<Rightarrow> i64" where
  "entryCount h = int (length (h_entries h))"

definition lookup :: "key \<Rightarrow> CachingDBHandler \<Rightarrow> cached option" where
  "lookup k h = map_of (h_entries h) k"

section \<open>Operations under the lock\<close>

definition scheduleFlush :: "key \<Rightarrow> CachingDBHandler \<Rightarrow> CachingDBHandler" where
  "scheduleFlush k h = h\<lparr>h_wheel := snd (schedule k (FlushInterval (h_cfg h)) (h_wheel h))\<rparr>"

definition addEntry :: "key \<Rightarrow> EventV3UpsertRecord \<Rightarrow> int \<Rightarrow> bool \<Rightarrow> CachingDBHandler \<Rightarrow> CachingDBHandler" where
  "addEntry k r now pending h =
     (let node = h_nextNode h;
          h = h\<lparr>h_recency := (node, k) # h_recency h, h_nextNode := node + 1,
                h_entries := AList.update k \<lparr>c_record = r, c_pending = pending,
                  c_lastWritten = (if pending then None else Some now), c_lastUpdated = now, c_recencyNode = node\<rparr> (h_entries h)\<rparr>
      in if pending then scheduleFlush k h else h)"

definition moveToFront :: "nat \<Rightarrow> (nat \<times> key) list \<Rightarrow> (nat \<times> key) list" where
  "moveToFront node l = filter (\<lambda>e. fst e = node) l @ filter (\<lambda>e. fst e \<noteq> node) l"

definition replaceEntry ::
    "key \<Rightarrow> cached \<Rightarrow> EventV3UpsertRecord \<Rightarrow> int \<Rightarrow> CachingDBHandler \<Rightarrow> bool \<times> CachingDBHandler" where
  "replaceEntry k c r now h =
     (let wasPending = c_pending c;
          h = h\<lparr>h_entries := AList.update k (c\<lparr>c_record := r, c_pending := True, c_lastUpdated := now\<rparr>) (h_entries h),
                h_recency := moveToFront (c_recencyNode c) (h_recency h)\<rparr>
      in (wasPending, if wasPending then h else scheduleFlush k h))"

text \<open>\<open>remove\<close> of a node of the list: the record of the entry if it is pending.\<close>

definition removeNode ::
    "nat \<times> key \<Rightarrow> CachingDBHandler \<Rightarrow> EventV3UpsertRecord option option \<times> CachingDBHandler" where
  "removeNode node h =
     (let k = snd node;
          found = map_of (h_entries h) k;
          h = h\<lparr>h_recency := filter (\<lambda>e. fst e \<noteq> fst node) (h_recency h), h_entries := AList.delete k (h_entries h),
                h_wheel := snd (unschedule k (h_wheel h))\<rparr>
      in (case found of
            None \<Rightarrow> (None, h)
          | Some c \<Rightarrow> (Some (if c_pending c then Some (c_record c) else None), h)))"

lemma removeNode_shorter:
  assumes "h_recency h \<noteq> []" and "removeNode (last (h_recency h)) h = (res, h')"
  shows "length (h_recency h') < length (h_recency h)"
proof -
  have "last (h_recency h) \<in> set (h_recency h)" using assms by simp
  then have "length (filter (\<lambda>e. fst e \<noteq> fst (last (h_recency h))) (h_recency h)) < length (h_recency h)"
    by (intro length_filter_less) auto
  then show ?thesis using assms(2) by (auto simp: removeNode_def Let_def split: option.splits)
qed

function evictOverflow :: "CachingDBHandler \<Rightarrow> EventV3UpsertRecord list option \<times> CachingDBHandler" where
  "evictOverflow h =
     (if int (length (h_entries h)) > MaxSize (h_cfg h) then
        if h_recency h = [] then (None, h)
        else
          (case removeNode (last (h_recency h)) h of
             (None, h1) \<Rightarrow> (None, h1)
           | (Some rec, h1) \<Rightarrow>
               (case evictOverflow h1 of (rest, h2) \<Rightarrow> (map_option ((@) (case rec of None \<Rightarrow> [] | Some r \<Rightarrow> [r])) rest, h2)))
      else (Some [], h))"
  by pat_completeness auto

termination
  by (relation "measure (\<lambda>h. length (h_recency h))") (auto dest: removeNode_shorter [OF _ sym])

declare evictOverflow.simps [simp del]

text \<open>\<open>time.Time.Sub\<close> stops at the limits of a duration.\<close>

definition timeSub :: "int \<Rightarrow> int \<Rightarrow> i64" where
  "timeSub t u = clamp MinInt64 MaxInt64 (t - u)"

function removeInactive :: "int \<Rightarrow> CachingDBHandler \<Rightarrow> (nat \<times> EventV3UpsertRecord list) option \<times> CachingDBHandler" where
  "removeInactive now h =
     (if h_recency h = [] then (Some (0, []), h)
      else
        (case map_of (h_entries h) (snd (last (h_recency h))) of
           None \<Rightarrow> (None, h)
         | Some c \<Rightarrow>
             if timeSub now (c_lastUpdated c) \<le> inactiveTTL (h_cfg h) then (Some (0, []), h)
             else
               (case removeNode (last (h_recency h)) h of
                  (None, h1) \<Rightarrow> (None, h1)
                | (Some rec, h1) \<Rightarrow>
                    (case removeInactive now h1 of
                       (rest, h2) \<Rightarrow>
                         (map_option (\<lambda>(n, rs). (n + 1, (case rec of None \<Rightarrow> [] | Some r \<Rightarrow> [r]) @ rs)) rest, h2)))))"
  by pat_completeness auto

termination
  by (relation "measure (\<lambda>(now, h). length (h_recency h))") (auto dest: removeNode_shorter [OF _ sym])

declare removeInactive.simps [simp del]

definition recordEvent ::
    "EventV3UpsertRecord \<Rightarrow> int \<Rightarrow> CachingDBHandler \<Rightarrow> (outcome \<times> EventV3UpsertRecord list) option \<times> CachingDBHandler" where
  "recordEvent r now h =
     (let k = keyOf r
      in case map_of (h_entries h) k of
           None \<Rightarrow>
             (case evictOverflow (addEntry k r now False h) of
                (evicted, h1) \<Rightarrow> (map_option (Pair outcomeMiss) evicted, h1))
         | Some c \<Rightarrow>
             if \<not> ev_Timestamp r > ev_Timestamp (c_record c) then (Some (outcomeStale, []), h)
             else
               (case replaceEntry k c r now h of
                  (wasPending, h1) \<Rightarrow> (Some (if wasPending then outcomeAlreadyPending else outcomeBecamePending, []), h1)))"

definition keepPending ::
    "EventV3UpsertRecord \<Rightarrow> int \<Rightarrow> CachingDBHandler \<Rightarrow> EventV3UpsertRecord list option \<times> CachingDBHandler" where
  "keepPending r now h =
     (let k = keyOf r
      in case map_of (h_entries h) k of
           None \<Rightarrow> evictOverflow (addEntry k r now True h)
         | Some c \<Rightarrow>
             if \<not> ev_Timestamp r < ev_Timestamp (c_record c) then (Some [], snd (replaceEntry k c r now h))
             else (Some [], h))"

text \<open>A due key leaves the wheel and nothing else happens yet.\<close>

definition flushDue :: "key list \<Rightarrow> timingWheel \<times> CachingDBHandler \<Rightarrow> timingWheel \<times> CachingDBHandler" where
  "flushDue dueKeys s = s"

definition wheelTickOf :: "(key set \<Rightarrow> key list) \<Rightarrow> CachingDBHandler \<Rightarrow> CachingDBHandler" where
  "wheelTickOf iteration h =
     (case advance iteration flushDue (h_wheel h, h) of (wh, h1) \<Rightarrow> h1\<lparr>h_wheel := wh\<rparr>)"

section \<open>Writes to the database\<close>

datatype db_error = ContextDeadline | ContextCanceled | WriteError string

record 'w flush_env =
  fe_flush :: "EventV3UpsertRecord \<Rightarrow> 'w \<Rightarrow> db_error option \<times> 'w"
  fe_now :: "'w \<Rightarrow> int"
  fe_wait :: "('w \<Rightarrow> db_error option) \<Rightarrow> i64 \<Rightarrow> 'w \<Rightarrow> bool \<times> 'w"

definition WithTimeout :: "'w flush_env \<Rightarrow> ('w \<Rightarrow> db_error option) \<Rightarrow> i64 \<Rightarrow> 'w \<Rightarrow> 'w \<Rightarrow> db_error option" where
  "WithTimeout env parent timeout w w' =
     (case parent w' of
        Some e \<Rightarrow> Some e
      | None \<Rightarrow> if fe_now env w + timeout \<le> fe_now env w' then Some ContextDeadline else None)"

text \<open>The loop of \<open>flushWithRetry\<close>; \<open>left\<close> is the attempts left after this one.\<close>

fun flushLoop ::
    "'w flush_env \<Rightarrow> ('w \<Rightarrow> db_error option) \<Rightarrow> EventV3UpsertRecord \<Rightarrow> nat \<Rightarrow> 'w \<Rightarrow> (nat \<times> db_error option) \<times> 'w" where
  "flushLoop env ctx r left w =
     (case fe_flush env r w of
        (err, w1) \<Rightarrow>
          if err = None \<or> left = 0 \<or> ctx w1 \<noteq> None then ((evictionFlushAttempts - left, err), w1)
          else
            (case fe_wait env ctx (evictionRetryBaseDelay * 2 ^ (evictionFlushAttempts - left - 1)) w1 of
               (False, w2) \<Rightarrow> ((evictionFlushAttempts - left, err), w2)
             | (True, w2) \<Rightarrow> (case left of 0 \<Rightarrow> ((0, err), w2) | Suc n \<Rightarrow> flushLoop env ctx r n w2)))"

declare flushLoop.simps [simp del]

definition flushWithRetry ::
    "'w flush_env \<Rightarrow> ('w \<Rightarrow> db_error option) \<Rightarrow> EventV3UpsertRecord \<Rightarrow> 'w \<Rightarrow> (nat \<times> db_error option) \<times> 'w" where
  "flushWithRetry env ctx r w =
     (case ctx w of
        Some e \<Rightarrow> ((0, Some e), w)
      | None \<Rightarrow> flushLoop env ctx r (evictionFlushAttempts - 1) w)"

datatype flush_result = flushSucceeded | flushFailed

fun flushAll ::
    "'w flush_env \<Rightarrow> ('w \<Rightarrow> db_error option) \<Rightarrow> EventV3UpsertRecord list \<Rightarrow> 'w \<Rightarrow> flush_result list \<times> 'w" where
  "flushAll env ctx [] w = ([], w)"
| "flushAll env ctx (r # rs) w =
     (case flushWithRetry env ctx r w of
        ((_, err), w1) \<Rightarrow>
          (case flushAll env ctx rs w1 of
             (results, w2) \<Rightarrow> ((if err = None then flushSucceeded else flushFailed) # results, w2)))"

definition flushEvicted :: "'w flush_env \<Rightarrow> EventV3UpsertRecord list \<Rightarrow> 'w \<Rightarrow> flush_result list \<times> 'w" where
  "flushEvicted env recs w =
     (if recs = [] then ([], w) else flushAll env (WithTimeout env (\<lambda>_. None) evictionFlushTimeout w) recs w)"

definition processEvent ::
    "'w flush_env \<Rightarrow> EventV3UpsertRecord \<Rightarrow> int \<Rightarrow> CachingDBHandler \<times> 'w \<Rightarrow> outcome option \<times> CachingDBHandler \<times> 'w" where
  "processEvent env r now s =
     (case recordEvent r now (fst s) of
        (None, h) \<Rightarrow> (None, h, snd s)
      | (Some (out, evicted), h) \<Rightarrow> (Some out, h, snd (flushEvicted env evicted (snd s))))"

definition evictInactive ::
    "'w flush_env \<Rightarrow> int \<Rightarrow> CachingDBHandler \<times> 'w \<Rightarrow> nat option \<times> CachingDBHandler \<times> 'w" where
  "evictInactive env now s =
     (case removeInactive now (fst s) of
        (None, h) \<Rightarrow> (None, h, snd s)
      | (Some (evicted, pending), h) \<Rightarrow> (Some evicted, h, snd (flushEvicted env pending (snd s))))"

text \<open>\<open>writeMiss\<close> with nothing else running; the outer \<open>None\<close> is a panic.\<close>

definition writeMiss ::
    "'w flush_env \<Rightarrow> ('w \<Rightarrow> db_error option) \<Rightarrow> EventV3UpsertRecord \<Rightarrow> CachingDBHandler \<times> 'w
       \<Rightarrow> db_error option option \<times> CachingDBHandler \<times> 'w" where
  "writeMiss env ctx r s =
     (case flushWithRetry env (WithTimeout env ctx evictionFlushTimeout (snd s)) r (snd s) of
        ((_, None), w1) \<Rightarrow> (Some None, fst s, w1)
      | ((_, Some e), w1) \<Rightarrow>
          (case keepPending r (fe_now env w1) (fst s) of
             (None, h) \<Rightarrow> (None, h, w1)
           | (Some evicted, h) \<Rightarrow> (Some (Some e), h, snd (flushEvicted env evicted w1))))"

section \<open>The invariant of the handler\<close>

text \<open>
  The recency list has exactly one node for each entry, which the entry points to; entries are under
  the key of their record; and only pending entries are in the wheel.
\<close>

definition h_inv :: "CachingDBHandler \<Rightarrow> bool" where
  "h_inv h \<longleftrightarrow>
     distinct (map fst (h_entries h)) \<and> distinct (map fst (h_recency h)) \<and> distinct (map snd (h_recency h)) \<and>
     (\<forall>n k. (n, k) \<in> set (h_recency h) \<longleftrightarrow> map_option c_recencyNode (lookup k h) = Some n) \<and>
     (\<forall>n k. (n, k) \<in> set (h_recency h) \<longrightarrow> n < h_nextNode h) \<and>
     (\<forall>k c. lookup k h = Some c \<longrightarrow> keyOf (c_record c) = k) \<and>
     wheel_inv (h_wheel h) \<and>
     (\<forall>k. keyLookup (h_wheel h) k \<noteq> None \<longrightarrow> map_option c_pending (lookup k h) = Some True) \<and>
     0 < MaxSize (h_cfg h)"

definition fits :: "CachingDBHandler \<Rightarrow> bool" where
  "fits h \<longleftrightarrow> int (length (h_entries h)) \<le> MaxSize (h_cfg h)"

lemma h_invD:
  assumes "h_inv h"
  shows "distinct (map fst (h_entries h))" "distinct (map fst (h_recency h))" "distinct (map snd (h_recency h))"
    "(n, k) \<in> set (h_recency h) \<longleftrightarrow> map_option c_recencyNode (lookup k h) = Some n"
    "(n, k) \<in> set (h_recency h) \<Longrightarrow> n < h_nextNode h"
    "lookup k h = Some c \<Longrightarrow> keyOf (c_record c) = k"
    "wheel_inv (h_wheel h)"
    "keyLookup (h_wheel h) k \<noteq> None \<Longrightarrow> map_option c_pending (lookup k h) = Some True"
    "0 < MaxSize (h_cfg h)"
  using assms unfolding h_inv_def by blast+

lemma h_invI:
  assumes "distinct (map fst (h_entries h))" "distinct (map fst (h_recency h))" "distinct (map snd (h_recency h))"
    "\<And>n k. (n, k) \<in> set (h_recency h) \<longleftrightarrow> map_option c_recencyNode (lookup k h) = Some n"
    "\<And>n k. (n, k) \<in> set (h_recency h) \<Longrightarrow> n < h_nextNode h"
    "\<And>k c. lookup k h = Some c \<Longrightarrow> keyOf (c_record c) = k"
    "wheel_inv (h_wheel h)"
    "\<And>k. keyLookup (h_wheel h) k \<noteq> None \<Longrightarrow> map_option c_pending (lookup k h) = Some True"
    "0 < MaxSize (h_cfg h)"
  shows "h_inv h"
  using assms unfolding h_inv_def by blast

lemma h_inv_sizes:
  assumes "h_inv h"
  shows "length (h_recency h) = length (h_entries h)"
proof -
  have "k \<in> set (map snd (h_recency h)) \<longleftrightarrow> lookup k h \<noteq> None" for k
    using h_invD(4) [OF assms, of _ k] by (cases "lookup k h") (force, force)
  moreover have "k \<in> set (map fst (h_entries h)) \<longleftrightarrow> lookup k h \<noteq> None" for k
    by (simp add: lookup_def map_of_eq_None_iff)
  ultimately have "set (map snd (h_recency h)) = set (map fst (h_entries h))" by blast
  with h_invD(1,3) [OF assms] show ?thesis by (metis distinct_card length_map)
qed

lemma schedule_lookup: "keyLookup (snd (schedule k d wh)) k' \<noteq> None \<longleftrightarrow> k' = k \<or> keyLookup wh k' \<noteq> None"
  by (auto simp: schedule_def Let_def split: option.splits)

lemma set_moveToFront [simp]: "set (moveToFront n l) = set l"
  by (auto simp: moveToFront_def)

lemma distinct_moveToFront [simp]:
  "distinct (map fst (moveToFront n l)) \<longleftrightarrow> distinct (map fst l)" "distinct (map snd (moveToFront n l)) \<longleftrightarrow> distinct (map snd l)"
proof -
  have "mset (moveToFront n l) = mset l" by (simp add: moveToFront_def multiset_partition [of "mset l" "\<lambda>e. fst e = n", symmetric])
  then have "mset (map fst (moveToFront n l)) = mset (map fst l)" "mset (map snd (moveToFront n l)) = mset (map snd l)"
    by simp_all
  then show "distinct (map fst (moveToFront n l)) \<longleftrightarrow> distinct (map fst l)"
    "distinct (map snd (moveToFront n l)) \<longleftrightarrow> distinct (map snd l)"
    by (metis mset_eq_imp_distinct_iff)+
qed

lemma addEntry_fields:
  "lookup k' (addEntry k r now p h) = (if k' = k then Some \<lparr>c_record = r, c_pending = p,
     c_lastWritten = (if p then None else Some now), c_lastUpdated = now, c_recencyNode = h_nextNode h\<rparr> else lookup k' h)"
  "h_cfg (addEntry k r now p h) = h_cfg h"
  "h_recency (addEntry k r now p h) = (h_nextNode h, k) # h_recency h"
  "h_nextNode (addEntry k r now p h) = h_nextNode h + 1"
  "h_wheel (addEntry k r now p h) = (if p then snd (schedule k (FlushInterval (h_cfg h)) (h_wheel h)) else h_wheel h)"
  by (simp_all add: addEntry_def scheduleFlush_def Let_def update_conv' lookup_def)

lemma addEntry_inv:
  assumes inv: "h_inv h" and new: "lookup (keyOf r) h = None"
  shows "h_inv (addEntry (keyOf r) r now p h)"
proof -
  let ?k = "keyOf r" and ?h = "addEntry (keyOf r) r now p h"
  note D = h_invD [OF inv] and F = addEntry_fields [where k = ?k and r = r and now = now and p = p and h = h]
  have fresh: "(n, ?k) \<notin> set (h_recency h)" "(h_nextNode h, k) \<notin> set (h_recency h)" for n k
    using D(4) [of n ?k] D(5) [of "h_nextNode h" k] new by auto
  have out: "keyLookup (h_wheel h) ?k = None" using D(8) [of ?k] new by (metis option.distinct(1) option.map_disc_iff)
  show ?thesis
  proof (rule h_invI)
    show "distinct (map fst (h_entries ?h))" using D(1) by (simp add: addEntry_def scheduleFlush_def Let_def distinct_update)
    show "distinct (map fst (h_recency ?h))" "distinct (map snd (h_recency ?h))" using D(2,3) fresh by (auto simp: F)
    show "(n, k) \<in> set (h_recency ?h) \<longleftrightarrow> map_option c_recencyNode (lookup k ?h) = Some n" for n k
      using D(4) [of n k] fresh(1) [of n] by (auto simp: F)
    show "n < h_nextNode ?h" if "(n, k) \<in> set (h_recency ?h)" for n k
      using that D(5) [of n k] by (auto simp: F)
    show "keyOf (c_record c) = k" if "lookup k ?h = Some c" for k c using that D(6) [of k c] by (auto simp: F split: if_splits)
    show "wheel_inv (h_wheel ?h)" using D(7) by (simp add: F schedule_inv)
    show "map_option c_pending (lookup k ?h) = Some True" if "keyLookup (h_wheel ?h) k \<noteq> None" for k
      using that D(8) [of k] out schedule_lookup [of ?k _ "h_wheel h" k] by (auto simp: F split: if_splits)
    show "0 < MaxSize (h_cfg ?h)" using D(9) by (simp add: F)
  qed
qed

lemma replaceEntry_fields:
  "lookup k' (snd (replaceEntry k c r now h)) =
     (if k' = k then Some (c\<lparr>c_record := r, c_pending := True, c_lastUpdated := now\<rparr>) else lookup k' h)"
  "h_cfg (snd (replaceEntry k c r now h)) = h_cfg h"
  "h_recency (snd (replaceEntry k c r now h)) = moveToFront (c_recencyNode c) (h_recency h)"
  "h_nextNode (snd (replaceEntry k c r now h)) = h_nextNode h"
  "h_wheel (snd (replaceEntry k c r now h)) =
     (if c_pending c then h_wheel h else snd (schedule k (FlushInterval (h_cfg h)) (h_wheel h)))"
  by (simp_all add: replaceEntry_def scheduleFlush_def Let_def update_conv' lookup_def)

lemma replaceEntry_inv:
  assumes inv: "h_inv h" and c: "lookup (keyOf r) h = Some c"
  shows "h_inv (snd (replaceEntry (keyOf r) c r now h))"
    and "length (h_entries (snd (replaceEntry (keyOf r) c r now h))) = length (h_entries h)"
proof -
  let ?k = "keyOf r" and ?h = "snd (replaceEntry (keyOf r) c r now h)"
  note D = h_invD [OF inv] and F = replaceEntry_fields [where k = ?k and c = c and r = r and now = now and h = h]
  show i: "h_inv ?h"
  proof (rule h_invI)
    show "distinct (map fst (h_entries ?h))" using D(1) by (simp add: replaceEntry_def scheduleFlush_def Let_def distinct_update)
    show "distinct (map fst (h_recency ?h))" "distinct (map snd (h_recency ?h))" using D(2,3) by (simp_all add: F)
    show "(n, k) \<in> set (h_recency ?h) \<longleftrightarrow> map_option c_recencyNode (lookup k ?h) = Some n" for n k
      using D(4) [of n k] c by (simp add: F)
    show "n < h_nextNode ?h" if "(n, k) \<in> set (h_recency ?h)" for n k using that D(5) [of n k] by (simp add: F)
    show "keyOf (c_record c') = k" if "lookup k ?h = Some c'" for k c' using that D(6) [of k c'] by (auto simp: F split: if_splits)
    show "wheel_inv (h_wheel ?h)" using D(7) by (simp add: F schedule_inv)
    show "map_option c_pending (lookup k ?h) = Some True" if "keyLookup (h_wheel ?h) k \<noteq> None" for k
      using that D(8) [of k] schedule_lookup [of ?k _ "h_wheel h" k] by (auto simp: F split: if_splits)
    show "0 < MaxSize (h_cfg ?h)" using D(9) by (simp add: F)
  qed
  have "length (h_recency ?h) = length (h_recency h)" by (simp add: F moveToFront_def sum_length_filter_compl)
  with h_inv_sizes [OF inv] h_inv_sizes [OF i] show "length (h_entries ?h) = length (h_entries h)" by simp
qed

section \<open>Eviction\<close>

text \<open>
  What an eviction does: the entries it removes are gone, the others are as before, and exactly the
  records of the pending ones are handed over.
\<close>

definition evicts :: "CachingDBHandler \<Rightarrow> EventV3UpsertRecord list \<Rightarrow> CachingDBHandler \<Rightarrow> bool" where
  "evicts h evicted h' \<longleftrightarrow>
     h_inv h' \<and> h_cfg h' = h_cfg h \<and>
     (\<forall>k. lookup k h' = lookup k h \<or> lookup k h' = None) \<and>
     set evicted = {c_record c |k c. lookup k h = Some c \<and> lookup k h' = None \<and> c_pending c}"

lemma evicts_refl: "h_inv h \<Longrightarrow> evicts h [] h"
  by (auto simp: evicts_def)

lemma evicts_trans:
  assumes "evicts h rs h'" and "evicts h' rs' h''"
  shows "evicts h (rs @ rs') h''"
proof -
  have keep: "lookup k h' = lookup k h \<or> lookup k h' = None" "lookup k h'' = lookup k h' \<or> lookup k h'' = None" for k
    using assms by (simp_all add: evicts_def)
  have "set rs = {c_record c |k c. lookup k h = Some c \<and> lookup k h' = None \<and> c_pending c}"
    "set rs' = {c_record c |k c. lookup k h' = Some c \<and> lookup k h'' = None \<and> c_pending c}"
    using assms by (simp_all add: evicts_def)
  moreover have "lookup k h = Some c \<and> lookup k h'' = None \<longleftrightarrow>
      lookup k h = Some c \<and> lookup k h' = None \<or> lookup k h' = Some c \<and> lookup k h'' = None" for k c
    using keep(1,2) [of k] by auto
  ultimately have "set (rs @ rs') = {c_record c |k c. lookup k h = Some c \<and> lookup k h'' = None \<and> c_pending c}"
    unfolding set_append by blast
  moreover have "lookup k h'' = lookup k h \<or> lookup k h'' = None" for k using keep(1,2) [of k] by auto
  ultimately show ?thesis using assms unfolding evicts_def by simp
qed

definition optList :: "'a option \<Rightarrow> 'a list" where
  "optList x = (case x of None \<Rightarrow> [] | Some a \<Rightarrow> [a])"

lemma removeNode_fields:
  "lookup k' (snd (removeNode (n, k) h)) = (if k' = k then None else lookup k' h)"
  "h_cfg (snd (removeNode (n, k) h)) = h_cfg h"
  "h_recency (snd (removeNode (n, k) h)) = filter (\<lambda>e. fst e \<noteq> n) (h_recency h)"
  "h_nextNode (snd (removeNode (n, k) h)) = h_nextNode h"
  "h_wheel (snd (removeNode (n, k) h)) = snd (unschedule k (h_wheel h))"
  "fst (removeNode (n, k) h) = map_option (\<lambda>c. if c_pending c then Some (c_record c) else None) (lookup k h)"
  by (simp_all add: removeNode_def Let_def lookup_def delete_conv' split: option.splits)

lemma removeNode_evicts:
  assumes inv: "h_inv h" and node: "(n, k) \<in> set (h_recency h)"
  shows "\<exists>rec. fst (removeNode (n, k) h) = Some rec \<and> evicts h (optList rec) (snd (removeNode (n, k) h))"
proof -
  let ?h = "snd (removeNode (n, k) h)"
  note D = h_invD [OF inv] and F = removeNode_fields [where n = n and k = k and h = h]
  obtain c where c: "lookup k h = Some c" "c_recencyNode c = n" using D(4) [of n k] node by auto
  have other: "fst e \<noteq> n \<longleftrightarrow> snd e \<noteq> k" if "e \<in> set (h_recency h)" for e
  proof -
    obtain m k' where e: "e = (m, k')" by force
    with that have m: "(m, k') \<in> set (h_recency h)" by simp
    have "k' = k" if "m = n" using eq_key_imp_eq_value [OF D(2) m [unfolded that] node] .
    moreover have "m = n" if "k' = k" using D(4) [of m k] m that c by simp
    ultimately show ?thesis unfolding e fst_conv snd_conv by blast
  qed
  have "h_inv ?h"
  proof (rule h_invI)
    show "distinct (map fst (h_entries ?h))"
      using D(1) by (simp add: removeNode_def Let_def distinct_delete split: option.splits)
    show "distinct (map fst (h_recency ?h))" "distinct (map snd (h_recency ?h))"
      using D(2,3) by (auto simp: F distinct_map_filter)
    show "(m, k') \<in> set (h_recency ?h) \<longleftrightarrow> map_option c_recencyNode (lookup k' ?h) = Some m" for m k'
      using D(4) [of m k'] other [of "(m, k')"] by (auto simp: F)
    show "m < h_nextNode ?h" if "(m, k') \<in> set (h_recency ?h)" for m k' using that D(5) [of m k'] by (auto simp: F)
    show "keyOf (c_record c') = k'" if "lookup k' ?h = Some c'" for k' c' using that D(6) [of k' c'] by (auto simp: F split: if_splits)
    show "wheel_inv (h_wheel ?h)" using D(7) by (simp add: F unschedule_inv)
    show "map_option c_pending (lookup k' ?h) = Some True" if "keyLookup (h_wheel ?h) k' \<noteq> None" for k'
      using that D(8) [of k'] by (auto simp: F unschedule_lookup split: if_splits)
    show "0 < MaxSize (h_cfg ?h)" using D(9) by (simp add: F)
  qed
  moreover have "set (optList (if c_pending c then Some (c_record c) else None)) =
      {c_record c' |k' c'. lookup k' h = Some c' \<and> lookup k' ?h = None \<and> c_pending c'}"
    using c(1) by (auto simp: F optList_def)
  ultimately show ?thesis using c(1) by (simp add: F evicts_def)
qed

lemma last_node:
  assumes "h_inv h" and "h_recency h \<noteq> []"
  shows "filter (\<lambda>e. fst e \<noteq> fst (last (h_recency h))) (h_recency h) = butlast (h_recency h)"
proof -
  obtain ys e where l: "h_recency h = ys @ [e]" using assms(2) by (metis append_butlast_last_id)
  then have "fst e \<notin> fst ` set ys" using h_invD(2) [OF assms(1)] by simp
  then have "filter (\<lambda>x. fst x \<noteq> fst e) ys = ys" by (intro filter_True ballI) (metis imageI)
  with l show ?thesis by simp
qed

lemma removeLast:
  assumes "h_inv h" and "h_recency h \<noteq> []" and "removeNode (last (h_recency h)) h = (res, h')"
  shows "\<exists>rec. res = Some rec \<and> evicts h (optList rec) h' \<and> h_recency h' = butlast (h_recency h)"
proof -
  obtain n k where l: "last (h_recency h) = (n, k)" by force
  then have "(n, k) \<in> set (h_recency h)" using assms(2) by (metis last_in_set)
  from removeNode_evicts [OF assms(1) this] assms(3) l last_node [OF assms(1,2)] removeNode_fields(3) [of n k h] show ?thesis
    by auto
qed

text \<open>The eviction loop never panics, and keeps the most recently updated entries that fit.\<close>

lemma evictOverflow_spec:
  assumes "h_inv h" and "evictOverflow h = (res, h')"
  shows "\<exists>evicted. res = Some evicted \<and> evicts h evicted h' \<and> fits h' \<and>
    h_recency h' = take (nat (MaxSize (h_cfg h))) (h_recency h)"
  using assms
proof (induction h arbitrary: res h' rule: evictOverflow.induct)
  case (1 h)
  note inv = "1.prems"(1) and size = h_inv_sizes [OF "1.prems"(1)]
  show ?case
  proof (cases "int (length (h_entries h)) > MaxSize (h_cfg h)")
    case False
    then have "h_recency h = take (nat (MaxSize (h_cfg h))) (h_recency h)" using size by simp
    with False "1.prems" evicts_refl [OF inv] show ?thesis by (auto simp: evictOverflow.simps [of h] fits_def)
  next
    case True
    with h_invD(9) [OF inv] size have ne: "h_recency h \<noteq> []" by auto
    obtain res1 h1 where r: "removeNode (last (h_recency h)) h = (res1, h1)" by force
    from removeLast [OF inv ne r] obtain rec where rec: "res1 = Some rec" "evicts h (optList rec) h1" "h_recency h1 = butlast (h_recency h)"
      by blast
    obtain res2 h2 where e: "evictOverflow h1 = (res2, h2)" by force
    have h1: "h_inv h1" "h_cfg h1 = h_cfg h" using rec(2) by (simp_all add: evicts_def)
    from "1.IH" [OF True ne r [symmetric] rec(1) h1(1) e] obtain ev where
      ev: "res2 = Some ev" "evicts h1 ev h2" "fits h2" "h_recency h2 = take (nat (MaxSize (h_cfg h1))) (h_recency h1)" by blast
    have "nat (MaxSize (h_cfg h)) < length (h_recency h)" using True size h_invD(9) [OF inv] by linarith
    then have "take (nat (MaxSize (h_cfg h))) (butlast (h_recency h)) = take (nat (MaxSize (h_cfg h))) (h_recency h)"
      by (simp add: take_butlast)
    with True ne r rec e ev h1 evicts_trans [OF rec(2) ev(2)] "1.prems"(2) show ?thesis
      by (auto simp: evictOverflow.simps [of h] optList_def)
  qed
qed

lemma removeInactive_spec:
  assumes "h_inv h" and "removeInactive now h = (res, h')"
  shows "\<exists>n evicted. res = Some (n, evicted) \<and> evicts h evicted h'"
  using assms
proof (induction now h arbitrary: res h' rule: removeInactive.induct)
  case (1 now h)
  note inv = "1.prems"(1)
  show ?case
  proof (cases "h_recency h = []")
    case True
    with "1.prems" evicts_refl [OF inv] show ?thesis by (auto simp: removeInactive.simps [of now h])
  next
    case ne: False
    obtain n k where l: "last (h_recency h) = (n, k)" by force
    then have "(n, k) \<in> set (h_recency h)" using ne by (metis last_in_set)
    then obtain c where c: "lookup k h = Some c" using h_invD(4) [OF inv, of n k] by auto
    show ?thesis
    proof (cases "timeSub now (c_lastUpdated c) \<le> inactiveTTL (h_cfg h)")
      case True
      with ne l c "1.prems" evicts_refl [OF inv] show ?thesis by (auto simp: removeInactive.simps [of now h] lookup_def)
    next
      case False
      obtain res1 h1 where r: "removeNode (last (h_recency h)) h = (res1, h1)" by force
      from removeLast [OF inv ne r] obtain rec where rec: "res1 = Some rec" "evicts h (optList rec) h1" by blast
      obtain res2 h2 where e: "removeInactive now h1 = (res2, h2)" by force
      have m: "map_of (h_entries h) (snd (last (h_recency h))) = Some c" using c l by (simp add: lookup_def)
      have h1: "h_inv h1" using rec(2) by (simp add: evicts_def)
      from "1.IH" [OF ne m False r [symmetric] rec(1) h1 e] obtain m' ev where
        ev: "res2 = Some (m', ev)" "evicts h1 ev h2" by blast
      with ne m False r rec e evicts_trans [OF rec(2) ev(2)] "1.prems"(2) show ?thesis
        by (auto simp: removeInactive.simps [of now h] optList_def)
    qed
  qed
qed

section \<open>The outcomes of the operations\<close>

lemma replaceEntry_fits:
  assumes "h_inv h" and "lookup (keyOf r) h = Some c" and "fits h"
  shows "fits (snd (replaceEntry (keyOf r) c r now h))"
  using assms replaceEntry_inv(2) [OF assms(1,2)] by (simp add: fits_def replaceEntry_fields)

lemma recordEvent_cases:
  assumes "h_inv h" and "recordEvent r now h = (res, h')"
  obtains (miss) evicted where "res = Some (outcomeMiss, evicted)" "lookup (keyOf r) h = None"
      "evicts (addEntry (keyOf r) r now False h) evicted h'" "fits h'"
  | (stale) c where "res = Some (outcomeStale, [])" "lookup (keyOf r) h = Some c"
      "ev_Timestamp r \<le> ev_Timestamp (c_record c)" "h' = h"
  | (newer) c out where "res = Some (out, [])" "out \<noteq> outcomeMiss" "lookup (keyOf r) h = Some c"
      "ev_Timestamp (c_record c) < ev_Timestamp r" "h' = snd (replaceEntry (keyOf r) c r now h)"
proof (cases "lookup (keyOf r) h")
  case None
  obtain res1 h1 where e: "evictOverflow (addEntry (keyOf r) r now False h) = (res1, h1)" by force
  with None assms(2) have "res = map_option (Pair outcomeMiss) res1" "h' = h1"
    by (auto simp: recordEvent_def Let_def lookup_def)
  with evictOverflow_spec [OF addEntry_inv [OF assms(1) None] e] None show ?thesis by (auto intro: miss)
next
  case (Some c)
  then have m: "map_of (h_entries h) (keyOf r) = Some c" by (simp add: lookup_def)
  show ?thesis
  proof (cases "ev_Timestamp (c_record c) < ev_Timestamp r")
    case True
    with m assms(2) Some show ?thesis
      by (intro newer [of "if c_pending c then outcomeAlreadyPending else outcomeBecamePending" c])
        (auto simp: recordEvent_def Let_def replaceEntry_def)
  next
    case False
    with m assms(2) Some show ?thesis by (intro stale [of c]) (auto simp: recordEvent_def Let_def)
  qed
qed

lemma keepPending_cases:
  assumes "h_inv h" and "keepPending r now h = (res, h')"
  obtains (absent) evicted where "res = Some evicted" "lookup (keyOf r) h = None"
      "evicts (addEntry (keyOf r) r now True h) evicted h'" "fits h'"
  | (older) c where "res = Some []" "lookup (keyOf r) h = Some c" "ev_Timestamp (c_record c) \<le> ev_Timestamp r"
      "h' = snd (replaceEntry (keyOf r) c r now h)"
  | (newer) c where "res = Some []" "lookup (keyOf r) h = Some c" "ev_Timestamp r < ev_Timestamp (c_record c)" "h' = h"
proof (cases "lookup (keyOf r) h")
  case None
  with assms(2) have "evictOverflow (addEntry (keyOf r) r now True h) = (res, h')"
    by (auto simp: keepPending_def Let_def lookup_def)
  from evictOverflow_spec [OF addEntry_inv [OF assms(1) None] this] None show ?thesis by (auto intro: absent)
next
  case (Some c)
  then have m: "map_of (h_entries h) (keyOf r) = Some c" by (simp add: lookup_def)
  show ?thesis
  proof (cases "ev_Timestamp r < ev_Timestamp (c_record c)")
    case True
    with m assms(2) Some show ?thesis by (intro newer [of c]) (auto simp: keepPending_def Let_def)
  next
    case False
    with m assms(2) Some show ?thesis by (intro older [of c]) (auto simp: keepPending_def Let_def)
  qed
qed

lemma removeInactive_fits:
  assumes "h_inv h" and "fits h" and "removeInactive now h = (res, h')"
  shows "fits h'"
proof -
  obtain n ev where "evicts h ev h'" using removeInactive_spec [OF assms(1,3)] by blast
  then have i: "h_inv h'" and cfg: "h_cfg h' = h_cfg h" and keep: "\<And>k. lookup k h' = lookup k h \<or> lookup k h' = None"
    by (auto simp: evicts_def)
  have "fst ` set (h_entries h') \<subseteq> fst ` set (h_entries h)"
    using keep by (metis (no_types, lifting) lookup_def map_of_eq_None_iff subsetI)
  then have "length (map fst (h_entries h')) \<le> length (map fst (h_entries h))"
    using h_invD(1) [OF i] h_invD(1) [OF assms(1)]
    by (metis card_mono distinct_card finite_set list.set_map)
  then show ?thesis using assms(2) cfg by (simp add: fits_def)
qed

lemma wheelTickOf_fields:
  "lookup k (wheelTickOf iteration h) = lookup k h" "h_entries (wheelTickOf iteration h) = h_entries h"
  "h_cfg (wheelTickOf iteration h) = h_cfg h" "h_recency (wheelTickOf iteration h) = h_recency h"
  "h_nextNode (wheelTickOf iteration h) = h_nextNode h"
  "h_wheel (wheelTickOf iteration h) = snd (takeDueKeys iteration (h_wheel h))"
  by (simp_all add: wheelTickOf_def advance_def flushDue_def lookup_def split: prod.splits)

lemma wheelTickOf_inv:
  assumes "h_inv h" and "iterates iteration"
  shows "h_inv (wheelTickOf iteration h)"
proof -
  note D = h_invD [OF assms(1)]
  have "keyLookup (h_wheel h) k \<noteq> None" if "keyLookup (snd (takeDueKeys iteration (h_wheel h))) k \<noteq> None" for k
    using that by (auto simp: takeDueKeys_state [OF D(7) assms(2)] split: if_splits)
  with D takeDueKeys_inv [OF D(7) assms(2)] show ?thesis
    by (intro h_invI) (simp_all add: wheelTickOf_fields)
qed

end
