(* ===== verification/WriteCacheRun.thy ===== *)
theory WriteCacheRun
  imports WriteCache
begin

text \<open>
  The write cache in operation: requests, the writes they leave in flight, eviction passes and the
  wheel, interleaved in any order.

  An event that misses is in flight in \<open>ca_miss\<close> until its write succeeds or \<open>writeMiss\<close> gives up and
  keeps it as a pending entry. A pending entry that is evicted is in flight in \<open>ca_evict\<close> until
  its write succeeds or \<open>flushEvicted\<close> gives up, which drops it. A writer may try any number of times
  and give up at any time, which covers the retries, the timeouts and cancelled contexts.
\<close>

section \<open>The machine\<close>

record 'w cache_sys =
  ca_h :: CachingDBHandler
  ca_w :: 'w
  ca_miss :: "EventV3UpsertRecord multiset"
  ca_evict :: "EventV3UpsertRecord multiset"
  ca_dropped :: "EventV3UpsertRecord multiset"
  ca_received :: "EventV3UpsertRecord set"

definition grows :: "('w \<Rightarrow> key \<Rightarrow> int option) \<Rightarrow> 'w \<Rightarrow> 'w \<Rightarrow> bool" where
  "grows stored w w' \<longleftrightarrow> (\<forall>k t. stored w k = Some t \<longrightarrow> (\<exists>t'. stored w' k = Some t' \<and> t \<le> t'))"

inductive cache_step ::
    "'w flush_env \<Rightarrow> ('w \<Rightarrow> key \<Rightarrow> int option) \<Rightarrow> (key set \<Rightarrow> key list) \<Rightarrow> 'w cache_sys \<Rightarrow> 'w cache_sys \<Rightarrow> bool"
  for env stored iteration where
  e_event: "recordEvent r now (ca_h \<sigma>) = (Some (out, evicted), h') \<Longrightarrow>
     cache_step env stored iteration \<sigma>
       (\<sigma>\<lparr>ca_h := h', ca_received := insert r (ca_received \<sigma>), ca_evict := ca_evict \<sigma> + mset evicted,
          ca_miss := (if out = outcomeMiss then add_mset r (ca_miss \<sigma>) else ca_miss \<sigma>)\<rparr>)"
| e_inactive: "removeInactive now (ca_h \<sigma>) = (Some (n, evicted), h') \<Longrightarrow>
     cache_step env stored iteration \<sigma> (\<sigma>\<lparr>ca_h := h', ca_evict := ca_evict \<sigma> + mset evicted\<rparr>)"
| e_write_miss: "r \<in># ca_miss \<sigma> \<Longrightarrow> fe_flush env r (ca_w \<sigma>) = (err, w') \<Longrightarrow>
     cache_step env stored iteration \<sigma>
       (\<sigma>\<lparr>ca_w := w', ca_miss := (if err = None then ca_miss \<sigma> - {#r#} else ca_miss \<sigma>)\<rparr>)"
| e_write_evicted: "r \<in># ca_evict \<sigma> \<Longrightarrow> fe_flush env r (ca_w \<sigma>) = (err, w') \<Longrightarrow>
     cache_step env stored iteration \<sigma>
       (\<sigma>\<lparr>ca_w := w', ca_evict := (if err = None then ca_evict \<sigma> - {#r#} else ca_evict \<sigma>)\<rparr>)"
| e_drop: "r \<in># ca_evict \<sigma> \<Longrightarrow>
     cache_step env stored iteration \<sigma> (\<sigma>\<lparr>ca_evict := ca_evict \<sigma> - {#r#}, ca_dropped := add_mset r (ca_dropped \<sigma>)\<rparr>)"
| e_keep: "r \<in># ca_miss \<sigma> \<Longrightarrow> keepPending r now (ca_h \<sigma>) = (Some evicted, h') \<Longrightarrow>
     cache_step env stored iteration \<sigma>
       (\<sigma>\<lparr>ca_h := h', ca_miss := ca_miss \<sigma> - {#r#}, ca_evict := ca_evict \<sigma> + mset evicted\<rparr>)"
| e_tick: "cache_step env stored iteration \<sigma> (\<sigma>\<lparr>ca_h := wheelTickOf iteration (ca_h \<sigma>)\<rparr>)"
| e_world: "grows stored (ca_w \<sigma>) w' \<Longrightarrow> cache_step env stored iteration \<sigma> (\<sigma>\<lparr>ca_w := w'\<rparr>)"

inductive cache_reach ::
    "'w flush_env \<Rightarrow> ('w \<Rightarrow> key \<Rightarrow> int option) \<Rightarrow> (key set \<Rightarrow> key list) \<Rightarrow> CachingDBHandler \<Rightarrow> 'w cache_sys \<Rightarrow> bool"
  for env stored iteration h0 where
  r_init: "cache_reach env stored iteration h0
     \<lparr>ca_h = h0, ca_w = w, ca_miss = {#}, ca_evict = {#}, ca_dropped = {#}, ca_received = {}\<rparr>"
| r_step: "cache_reach env stored iteration h0 \<sigma> \<Longrightarrow> cache_step env stored iteration \<sigma> \<sigma>' \<Longrightarrow>
     cache_reach env stored iteration h0 \<sigma>'"

text \<open>
  What the cache asks of the database write: a write that succeeds leaves an event at least as new,
  and no write makes the stored event of a key older; nor does what happens while a writer waits.
\<close>

locale flush_db =
  fixes env :: "'w flush_env" and stored :: "'w \<Rightarrow> key \<Rightarrow> int option"
  assumes flush_stores: "fe_flush env r w = (None, w') \<Longrightarrow> \<exists>t. stored w' (keyOf r) = Some t \<and> ev_Timestamp r \<le> t"
    and flush_grows: "fe_flush env r w = (err, w') \<Longrightarrow> grows stored w w'"
    and wait_grows: "fe_wait env ctx d w = (ok, w') \<Longrightarrow> grows stored w w'"
begin

section \<open>Where an event is\<close>

definition queued :: "'w cache_sys \<Rightarrow> EventV3UpsertRecord multiset" where
  "queued \<sigma> = ca_miss \<sigma> + ca_evict \<sigma> + ca_dropped \<sigma>"

text \<open>An event at least as new as \<open>t\<close> is in the database, pending in the cache, in flight or dropped.\<close>

definition carried :: "'w cache_sys \<Rightarrow> key \<Rightarrow> int \<Rightarrow> bool" where
  "carried \<sigma> k t \<longleftrightarrow>
     (\<exists>t'. stored (ca_w \<sigma>) k = Some t' \<and> t \<le> t') \<or>
     (\<exists>c. lookup k (ca_h \<sigma>) = Some c \<and> c_pending c \<and> t \<le> ev_Timestamp (c_record c)) \<or>
     (\<exists>q. q \<in># queued \<sigma> \<and> keyOf q = k \<and> t \<le> ev_Timestamp q)"

lemma carried_mono: "carried \<sigma> k t \<Longrightarrow> t0 \<le> t \<Longrightarrow> carried \<sigma> k t0"
  unfolding carried_def by (force intro: order_trans)

lemma carried_transfer:
  assumes "carried \<sigma> k t" and "grows stored (ca_w \<sigma>) (ca_w \<sigma>')"
    and "\<And>c. lookup k (ca_h \<sigma>) = Some c \<Longrightarrow> c_pending c \<Longrightarrow> carried \<sigma>' k (ev_Timestamp (c_record c))"
    and "\<And>q. q \<in># queued \<sigma> \<Longrightarrow> keyOf q = k \<Longrightarrow> t \<le> ev_Timestamp q \<Longrightarrow> carried \<sigma>' k (ev_Timestamp q)"
  shows "carried \<sigma>' k t"
  using assms(1) [unfolded carried_def]
proof (elim disjE exE conjE)
  fix t' assume "stored (ca_w \<sigma>) k = Some t'" "t \<le> t'"
  then obtain t'' where "stored (ca_w \<sigma>') k = Some t''" "t \<le> t''" using assms(2) unfolding grows_def by fastforce
  then show ?thesis unfolding carried_def by blast
next
  fix c assume "lookup k (ca_h \<sigma>) = Some c" "c_pending c" "t \<le> ev_Timestamp (c_record c)"
  with assms(3) show ?thesis by (blast intro: carried_mono)
next
  fix q assume "q \<in># queued \<sigma>" "keyOf q = k" "t \<le> ev_Timestamp q"
  with assms(4) show ?thesis by (blast intro: carried_mono)
qed

lemma carried_pending: "lookup k (ca_h \<sigma>) = Some c \<Longrightarrow> c_pending c \<Longrightarrow> t \<le> ev_Timestamp (c_record c) \<Longrightarrow> carried \<sigma> k t"
  unfolding carried_def by blast

lemma carried_queued: "q \<in># queued \<sigma> \<Longrightarrow> keyOf q = k \<Longrightarrow> t \<le> ev_Timestamp q \<Longrightarrow> carried \<sigma> k t"
  unfolding carried_def by blast

lemma carried_stored: "stored (ca_w \<sigma>) k = Some t' \<Longrightarrow> t \<le> t' \<Longrightarrow> carried \<sigma> k t"
  unfolding carried_def by blast

text \<open>A pending entry survives an eviction, in the cache or on its way to the database.\<close>

lemma carried_evicts:
  assumes "h_inv h" and "evicts h evicted (ca_h \<sigma>)" and "mset evicted \<subseteq># queued \<sigma>"
    and "lookup k h = Some c" and "c_pending c"
  shows "carried \<sigma> k (ev_Timestamp (c_record c))"
proof (cases "lookup k (ca_h \<sigma>)")
  case None
  then have "c_record c \<in> set evicted" using assms(2,4,5) unfolding evicts_def by blast
  then have "c_record c \<in># queued \<sigma>" using assms(3) by (meson mset_subset_eqD set_mset_mset in_multiset_in_set)
  then show ?thesis using h_invD(6) [OF assms(1,4)] by (intro carried_queued) auto
next
  case (Some c')
  then have "c' = c" using assms(2,4) unfolding evicts_def by (metis option.distinct(1) option.inject)
  with Some assms(5) show ?thesis by (intro carried_pending) auto
qed

definition sys_inv :: "'w cache_sys \<Rightarrow> bool" where
  "sys_inv \<sigma> \<longleftrightarrow>
     h_inv (ca_h \<sigma>) \<and> fits (ca_h \<sigma>) \<and>
     (\<forall>k c. lookup k (ca_h \<sigma>) = Some c \<longrightarrow> c_record c \<in> ca_received \<sigma>) \<and>
     (\<forall>r \<in> ca_received \<sigma>. carried \<sigma> (keyOf r) (ev_Timestamp r)) \<and>
     set_mset (queued \<sigma>) \<subseteq> ca_received \<sigma>"

lemma sys_invD:
  assumes "sys_inv \<sigma>"
  shows "h_inv (ca_h \<sigma>)" "fits (ca_h \<sigma>)" "lookup k (ca_h \<sigma>) = Some c \<Longrightarrow> c_record c \<in> ca_received \<sigma>"
    "r \<in> ca_received \<sigma> \<Longrightarrow> carried \<sigma> (keyOf r) (ev_Timestamp r)" "set_mset (queued \<sigma>) \<subseteq> ca_received \<sigma>"
  using assms unfolding sys_inv_def by blast+

lemma grows_refl [simp]: "grows stored w w"
  by (auto simp: grows_def)

text \<open>A step that forgets no event keeps the invariant.\<close>

lemma sys_inv_step:
  assumes inv: "sys_inv \<sigma>" and h: "h_inv (ca_h \<sigma>')" "fits (ca_h \<sigma>')"
    and rec: "ca_received \<sigma>' = ca_received \<sigma> \<union> new" and "grows stored (ca_w \<sigma>) (ca_w \<sigma>')"
    and cache: "\<And>k c. lookup k (ca_h \<sigma>') = Some c \<Longrightarrow> c_record c \<in> ca_received \<sigma>'"
    and queue: "set_mset (queued \<sigma>') \<subseteq> ca_received \<sigma>'"
    and pend: "\<And>k c. lookup k (ca_h \<sigma>) = Some c \<Longrightarrow> c_pending c \<Longrightarrow> carried \<sigma>' k (ev_Timestamp (c_record c))"
    and infl: "\<And>q. q \<in># queued \<sigma> \<Longrightarrow> carried \<sigma>' (keyOf q) (ev_Timestamp q)"
    and new: "\<And>r. r \<in> new \<Longrightarrow> carried \<sigma>' (keyOf r) (ev_Timestamp r)"
  shows "sys_inv \<sigma>'"
proof -
  have "carried \<sigma>' (keyOf r) (ev_Timestamp r)" if "r \<in> ca_received \<sigma>" for r
  proof (rule carried_transfer [OF sys_invD(4) [OF inv that] assms(5)])
    fix q assume "q \<in># queued \<sigma>" and "keyOf q = keyOf r"
    with infl show "carried \<sigma>' (keyOf r) (ev_Timestamp q)" by metis
  qed (rule pend)
  with h rec cache queue new show ?thesis unfolding sys_inv_def by blast
qed

lemma evicted_received:
  assumes "evicts h evicted h'" and "\<And>k c. lookup k h = Some c \<Longrightarrow> c_record c \<in> R"
  shows "set evicted \<subseteq> R" and "lookup k h' = Some c \<Longrightarrow> c_record c \<in> R"
proof -
  show "set evicted \<subseteq> R" using assms unfolding evicts_def by auto
  show "c_record c \<in> R" if "lookup k h' = Some c"
  proof -
    have "lookup k h' = lookup k h \<or> lookup k h' = None" using assms(1) by (simp add: evicts_def)
    with that assms(2) show ?thesis by auto
  qed
qed

lemma event_keeps:
  assumes inv: "sys_inv \<sigma>" and ev: "recordEvent r now (ca_h \<sigma>) = (Some (out, evicted), h')"
    and s: "\<sigma>' = \<sigma>\<lparr>ca_h := h', ca_received := insert r (ca_received \<sigma>), ca_evict := ca_evict \<sigma> + mset evicted,
          ca_miss := (if out = outcomeMiss then add_mset r (ca_miss \<sigma>) else ca_miss \<sigma>)\<rparr>"
  shows "sys_inv \<sigma>'"
  using sys_invD(1) [OF inv] ev
proof (cases rule: recordEvent_cases)
  case (miss ev')
  let ?h = "addEntry (keyOf r) r now False (ca_h \<sigma>)"
  note i = addEntry_inv [OF sys_invD(1) [OF inv] miss(2), of now False]
  have known: "c_record c \<in> ca_received \<sigma>'" if "lookup k ?h = Some c" for k c
    using that sys_invD(3) [OF inv] s by (auto simp: addEntry_fields split: if_splits)
  have q: "queued \<sigma>' = add_mset r (queued \<sigma> + mset evicted)" using miss(1) s by (simp add: queued_def)
  show ?thesis
  proof (rule sys_inv_step [OF inv, where new = "{r}"])
    show "h_inv (ca_h \<sigma>')" "fits (ca_h \<sigma>')" using miss s by (auto simp: evicts_def)
    show "c_record c \<in> ca_received \<sigma>'" if "lookup k (ca_h \<sigma>') = Some c" for k c
      using evicted_received(2) [OF miss(3) known] that s by auto
    show "set_mset (queued \<sigma>') \<subseteq> ca_received \<sigma>'"
      using evicted_received(1) [OF miss(3) known] sys_invD(5) [OF inv] miss(1) q s by auto
    show "carried \<sigma>' k (ev_Timestamp (c_record c))" if "lookup k (ca_h \<sigma>) = Some c" "c_pending c" for k c
    proof (rule carried_evicts [OF i _ _ _ that(2)])
      show "evicts ?h evicted (ca_h \<sigma>')" "mset evicted \<subseteq># queued \<sigma>'" using miss(1,3) s q by simp_all
      show "lookup k ?h = Some c" using that(1) miss(2) by (auto simp: addEntry_fields)
    qed
    show "carried \<sigma>' (keyOf q') (ev_Timestamp q')" if "q' \<in># queued \<sigma>" for q'
      using that q by (intro carried_queued) auto
    show "carried \<sigma>' (keyOf r') (ev_Timestamp r')" if "r' \<in> {r}" for r'
      using that q by (intro carried_queued) auto
  qed (simp_all add: s)
next
  case (stale c)
  have q: "queued \<sigma>' = queued \<sigma>" "ca_h \<sigma>' = ca_h \<sigma>" "ca_w \<sigma>' = ca_w \<sigma>" using stale s by (simp_all add: queued_def)
  have same: "carried \<sigma>' k t \<longleftrightarrow> carried \<sigma> k t" for k t by (simp add: carried_def q)
  have "carried \<sigma>' (keyOf r) (ev_Timestamp r)"
    using sys_invD(4) [OF inv sys_invD(3) [OF inv stale(2)]] h_invD(6) [OF sys_invD(1) [OF inv] stale(2)] stale(3)
    by (auto simp: same intro: carried_mono)
  with inv q same s show ?thesis by (auto simp: sys_inv_def)
next
  case (newer c out')
  have q: "queued \<sigma>' = queued \<sigma>" using newer(1,2) s by (simp add: queued_def)
  have h': "ca_h \<sigma>' = snd (replaceEntry (keyOf r) c r now (ca_h \<sigma>))" using newer s by simp
  have mine: "carried \<sigma>' (keyOf r) t" if "t \<le> ev_Timestamp r" for t
    using that by (intro carried_pending [where c = "c\<lparr>c_record := r, c_pending := True, c_lastUpdated := now\<rparr>"])
      (simp_all add: h' replaceEntry_fields)
  show ?thesis
  proof (rule sys_inv_step [OF inv, where new = "{r}"])
    show "h_inv (ca_h \<sigma>')" "fits (ca_h \<sigma>')"
      using replaceEntry_inv(1) replaceEntry_fits sys_invD(1,2) [OF inv] newer(3) by (simp_all add: h')
    show "c_record c' \<in> ca_received \<sigma>'" if "lookup k (ca_h \<sigma>') = Some c'" for k c'
      using that [unfolded h'] sys_invD(3) [OF inv] by (auto simp: s replaceEntry_fields split: if_splits)
    show "set_mset (queued \<sigma>') \<subseteq> ca_received \<sigma>'" using sys_invD(5) [OF inv] q s by auto
    show "carried \<sigma>' k (ev_Timestamp (c_record c'))" if "lookup k (ca_h \<sigma>) = Some c'" "c_pending c'" for k c'
    proof (cases "k = keyOf r")
      case True
      with that newer(3,4) mine show ?thesis by simp
    next
      case False
      with that show ?thesis by (intro carried_pending [where c = c']) (simp_all add: h' replaceEntry_fields)
    qed
    show "carried \<sigma>' (keyOf q') (ev_Timestamp q')" if "q' \<in># queued \<sigma>" for q'
      using that q by (intro carried_queued) auto
    show "carried \<sigma>' (keyOf r') (ev_Timestamp r')" if "r' \<in> {r}" for r' using that mine by simp
  qed (simp_all add: s)
qed

lemma inactive_keeps:
  assumes inv: "sys_inv \<sigma>" and ev: "removeInactive now (ca_h \<sigma>) = (Some (n, evicted), h')"
    and s: "\<sigma>' = \<sigma>\<lparr>ca_h := h', ca_evict := ca_evict \<sigma> + mset evicted\<rparr>"
  shows "sys_inv \<sigma>'"
proof -
  note i = sys_invD(1) [OF inv]
  have e: "evicts (ca_h \<sigma>) evicted h'" using removeInactive_spec [OF i ev] by auto
  have q: "queued \<sigma>' = queued \<sigma> + mset evicted" using s by (simp add: queued_def)
  note known = evicted_received [OF e sys_invD(3) [OF inv]]
  show ?thesis
  proof (rule sys_inv_step [OF inv, where new = "{}"])
    show "h_inv (ca_h \<sigma>')" "fits (ca_h \<sigma>')" using e removeInactive_fits [OF i sys_invD(2) [OF inv] ev] s by (auto simp: evicts_def)
    show "c_record c \<in> ca_received \<sigma>'" if "lookup k (ca_h \<sigma>') = Some c" for k c using known(2) that s by auto
    show "set_mset (queued \<sigma>') \<subseteq> ca_received \<sigma>'" using known(1) sys_invD(5) [OF inv] q s by auto
    show "carried \<sigma>' k (ev_Timestamp (c_record c))" if "lookup k (ca_h \<sigma>) = Some c" "c_pending c" for k c
      using carried_evicts [OF i, of evicted \<sigma>' k c] e that q s by simp
    show "carried \<sigma>' (keyOf q') (ev_Timestamp q')" if "q' \<in># queued \<sigma>" for q'
      using that q by (intro carried_queued) auto
  qed (simp_all add: s)
qed

text \<open>Steps that change only the world and the queues.\<close>

lemma queue_keeps:
  assumes inv: "sys_inv \<sigma>" and same: "ca_h \<sigma>' = ca_h \<sigma>" "ca_received \<sigma>' = ca_received \<sigma>"
    and "grows stored (ca_w \<sigma>) (ca_w \<sigma>')" and "set_mset (queued \<sigma>') \<subseteq> set_mset (queued \<sigma>)"
    and gone: "\<And>q. q \<in># queued \<sigma> \<Longrightarrow> q \<notin># queued \<sigma>' \<Longrightarrow> carried \<sigma>' (keyOf q) (ev_Timestamp q)"
  shows "sys_inv \<sigma>'"
proof (rule sys_inv_step [OF inv, where new = "{}"])
  show "h_inv (ca_h \<sigma>')" "fits (ca_h \<sigma>')" using sys_invD(1,2) [OF inv] same by simp_all
  show "c_record c \<in> ca_received \<sigma>'" if "lookup k (ca_h \<sigma>') = Some c" for k c
    using that sys_invD(3) [OF inv] same by simp
  show "set_mset (queued \<sigma>') \<subseteq> ca_received \<sigma>'" using sys_invD(5) [OF inv] assms(5) same by blast
  show "carried \<sigma>' k (ev_Timestamp (c_record c))" if "lookup k (ca_h \<sigma>) = Some c" "c_pending c" for k c
    using that same by (intro carried_pending [where c = c]) simp_all
  show "carried \<sigma>' (keyOf q) (ev_Timestamp q)" if "q \<in># queued \<sigma>" for q
    using that gone [of q] carried_queued [of q \<sigma>' "keyOf q" "ev_Timestamp q"] by blast
qed (use same assms(4) in auto)

lemma keep_keeps:
  assumes inv: "sys_inv \<sigma>" and r: "r \<in># ca_miss \<sigma>" and ev: "keepPending r now (ca_h \<sigma>) = (Some evicted, h')"
    and s: "\<sigma>' = \<sigma>\<lparr>ca_h := h', ca_miss := ca_miss \<sigma> - {#r#}, ca_evict := ca_evict \<sigma> + mset evicted\<rparr>"
  shows "sys_inv \<sigma>'"
proof -
  note i = sys_invD(1) [OF inv]
  have rec: "r \<in> ca_received \<sigma>" using r sys_invD(5) [OF inv] by (auto simp: queued_def)
  have q: "queued \<sigma>' = queued \<sigma> - {#r#} + mset evicted" using s r by (simp add: queued_def ac_simps)
  have rest: "q' \<in># queued \<sigma>'" if "q' \<in># queued \<sigma>" "q' \<noteq> r" for q'
    using that by (simp add: q in_diff_count)
  have still: "carried \<sigma>' (keyOf q') (ev_Timestamp q')"
    if "q' \<in># queued \<sigma>" "carried \<sigma>' (keyOf r) (ev_Timestamp r)" for q'
    using rest [OF that(1)] that(2) by (cases "q' = r") (auto intro: carried_queued)
  from i ev show ?thesis
  proof (cases rule: keepPending_cases)
    case (absent ev')
    let ?h = "addEntry (keyOf r) r now True (ca_h \<sigma>)"
    note j = addEntry_inv [OF i absent(2), of now True]
    have known: "c_record c \<in> ca_received \<sigma>" if "lookup k ?h = Some c" for k c
      using that sys_invD(3) [OF inv] rec by (auto simp: addEntry_fields split: if_splits)
    have e: "evicts ?h evicted (ca_h \<sigma>')" using absent(1,3) s by simp
    have sub: "mset evicted \<subseteq># queued \<sigma>'" by (simp add: q)
    have mine: "carried \<sigma>' (keyOf r) (ev_Timestamp r)"
      using carried_evicts [OF j e sub, of "keyOf r"] by (simp add: addEntry_fields)
    show ?thesis
    proof (rule sys_inv_step [OF inv, where new = "{}"])
      show "h_inv (ca_h \<sigma>')" "fits (ca_h \<sigma>')" using absent s by (auto simp: evicts_def)
      show "c_record c \<in> ca_received \<sigma>'" if "lookup k (ca_h \<sigma>') = Some c" for k c
        using evicted_received(2) [OF e known] that s by auto
      show "set_mset (queued \<sigma>') \<subseteq> ca_received \<sigma>'"
        using evicted_received(1) [OF e known] sys_invD(5) [OF inv] s unfolding q by (auto dest: in_diffD)
      show "carried \<sigma>' k (ev_Timestamp (c_record c))" if "lookup k (ca_h \<sigma>) = Some c" "c_pending c" for k c
        using that absent(2) by (intro carried_evicts [OF j e sub _ that(2)]) (auto simp: addEntry_fields)
      show "carried \<sigma>' (keyOf q') (ev_Timestamp q')" if "q' \<in># queued \<sigma>" for q' by (rule still [OF that mine])
    qed (simp_all add: s)
  next
    case (older c)
    have h': "ca_h \<sigma>' = snd (replaceEntry (keyOf r) c r now (ca_h \<sigma>))" using older s by simp
    have mine: "carried \<sigma>' (keyOf r) t" if "t \<le> ev_Timestamp r" for t
      using that by (intro carried_pending [where c = "c\<lparr>c_record := r, c_pending := True, c_lastUpdated := now\<rparr>"])
        (simp_all add: h' replaceEntry_fields)
    show ?thesis
    proof (rule sys_inv_step [OF inv, where new = "{}"])
      show "h_inv (ca_h \<sigma>')" "fits (ca_h \<sigma>')"
        using replaceEntry_inv(1) replaceEntry_fits i sys_invD(2) [OF inv] older(2) by (simp_all add: h')
      show "c_record c' \<in> ca_received \<sigma>'" if "lookup k (ca_h \<sigma>') = Some c'" for k c'
        using that [unfolded h'] sys_invD(3) [OF inv] rec by (auto simp: s replaceEntry_fields split: if_splits)
      show "set_mset (queued \<sigma>') \<subseteq> ca_received \<sigma>'" using sys_invD(5) [OF inv] older(1) s unfolding q by (auto dest: in_diffD)
      show "carried \<sigma>' k (ev_Timestamp (c_record c'))" if "lookup k (ca_h \<sigma>) = Some c'" "c_pending c'" for k c'
      proof (cases "k = keyOf r")
        case True
        with that older(2,3) mine show ?thesis by simp
      next
        case False
        with that show ?thesis by (intro carried_pending [where c = c']) (simp_all add: h' replaceEntry_fields)
      qed
      show "carried \<sigma>' (keyOf q') (ev_Timestamp q')" if "q' \<in># queued \<sigma>" for q' using still [OF that mine] by simp
    qed (simp_all add: s)
  next
    case (newer c)
    have h': "ca_h \<sigma>' = ca_h \<sigma>" using newer s by simp
    have "carried \<sigma> (keyOf r) (ev_Timestamp (c_record c))"
      using sys_invD(4) [OF inv sys_invD(3) [OF inv newer(2)]] h_invD(6) [OF i newer(2)] by simp
    then have "carried \<sigma>' (keyOf r) (ev_Timestamp (c_record c))"
    proof (rule carried_transfer)
      show "grows stored (ca_w \<sigma>) (ca_w \<sigma>')" by (simp add: s)
      show "carried \<sigma>' (keyOf r) (ev_Timestamp (c_record c'))" if "lookup (keyOf r) (ca_h \<sigma>) = Some c'" "c_pending c'" for c'
        using that h' by (intro carried_pending [where c = c']) simp_all
      show "carried \<sigma>' (keyOf r) (ev_Timestamp q')"
        if "q' \<in># queued \<sigma>" "keyOf q' = keyOf r" "ev_Timestamp (c_record c) \<le> ev_Timestamp q'" for q'
      proof -
        have "q' \<noteq> r" using that(3) newer(3) by auto
        from rest [OF that(1) this] that(2) show ?thesis by (intro carried_queued [where q = q']) simp_all
      qed
    qed
    then have mine: "carried \<sigma>' (keyOf r) (ev_Timestamp r)" using newer(3) by (auto intro: carried_mono)
    show ?thesis
    proof (rule queue_keeps [OF inv h'])
      show "set_mset (queued \<sigma>') \<subseteq> set_mset (queued \<sigma>)" using newer(1) unfolding q by (auto dest: in_diffD)
      show "carried \<sigma>' (keyOf q') (ev_Timestamp q')" if "q' \<in># queued \<sigma>" for q' by (rule still [OF that mine])
    qed (simp_all add: s)
  qed
qed

lemma write_keeps:
  assumes inv: "sys_inv \<sigma>" and r: "r \<in># queued \<sigma>" and w: "fe_flush env r (ca_w \<sigma>) = (err, ca_w \<sigma>')"
    and same: "ca_h \<sigma>' = ca_h \<sigma>" "ca_received \<sigma>' = ca_received \<sigma>"
    and q: "queued \<sigma>' = (if err = None then queued \<sigma> - {#r#} else queued \<sigma>)"
  shows "sys_inv \<sigma>'"
proof (rule queue_keeps [OF inv same flush_grows [OF w]])
  show "set_mset (queued \<sigma>') \<subseteq> set_mset (queued \<sigma>)" by (auto simp: q dest: in_diffD split: if_splits)
  fix p assume p: "p \<in># queued \<sigma>" "p \<notin># queued \<sigma>'"
  then have "err = None" by (auto simp: q split: if_splits)
  moreover from this p have "p = r" by (auto simp: q in_diff_count split: if_splits)
  ultimately show "carried \<sigma>' (keyOf p) (ev_Timestamp p)"
    using flush_stores w carried_stored by metis
qed

lemma cache_step_inv:
  assumes "cache_step env stored iteration \<sigma> \<sigma>'" and "sys_inv \<sigma>" and "iterates iteration"
  shows "sys_inv \<sigma>'"
  using assms(1)
proof cases
  case (e_event r now out evicted h')
  with assms(2) show ?thesis by (blast intro: event_keeps)
next
  case (e_inactive now n evicted h')
  with assms(2) show ?thesis by (blast intro: inactive_keeps)
next
  case (e_write_miss r err w')
  then show ?thesis by (intro write_keeps [OF assms(2), of r err]) (simp_all add: queued_def)
next
  case (e_write_evicted r err w')
  then show ?thesis by (intro write_keeps [OF assms(2), of r err]) (simp_all add: queued_def)
next
  case (e_drop r)
  then have "queued \<sigma>' = queued \<sigma>" by (simp add: queued_def)
  with e_drop show ?thesis by (intro queue_keeps [OF assms(2)]) simp_all
next
  case (e_keep r now evicted h')
  with assms(2) show ?thesis by (blast intro: keep_keeps)
next
  case e_tick
  have same: "carried \<sigma>' k t \<longleftrightarrow> carried \<sigma> k t" for k t by (simp add: e_tick carried_def queued_def wheelTickOf_fields)
  from e_tick assms(2) wheelTickOf_inv [OF sys_invD(1) [OF assms(2)] assms(3)] show ?thesis
    unfolding sys_inv_def same by (simp add: queued_def wheelTickOf_fields fits_def)
next
  case (e_world w')
  then show ?thesis by (intro queue_keeps [OF assms(2)]) (simp_all add: queued_def)
qed

lemma cache_reach_inv:
  assumes "cache_reach env stored iteration h0 \<sigma>" and "iterates iteration" and "h_inv h0" and "h_entries h0 = []"
  shows "sys_inv \<sigma>"
  using assms(1)
proof induction
  case (r_init w)
  with assms(3,4) h_invD(9) [OF assms(3)] show ?case by (simp add: sys_inv_def queued_def lookup_def fits_def)
next
  case (r_step \<sigma> \<sigma>')
  with assms(2) show ?case by (blast intro: cache_step_inv)
qed

section \<open>Calls as runs\<close>

text \<open>
  The calls of the handler, run without interruption, are runs of the machine. A writer is first
  followed in any relation that has its writes and the waits as steps.
\<close>

lemma flushLoop_runs:
  assumes wr: "\<And>w err w'. fe_flush env r w = (err, w') \<Longrightarrow> R (f w) (if err = None then g w' else f w')"
    and world: "\<And>w w'. grows stored w w' \<Longrightarrow> R (f w) (f w')"
    and "flushLoop env ctx r left w = ((n, err), w')"
  shows "R\<^sup>*\<^sup>* (f w) (if err = None then g w' else f w')"
  using assms(3)
proof (induction left arbitrary: w)
  case 0
  obtain e w1 where f: "fe_flush env r w = (e, w1)" by force
  with 0 have "err = e" "w' = w1" by (auto simp: flushLoop.simps [of env ctx r 0])
  with r_into_rtranclp [of R, OF wr [OF f]] show ?case by (cases e) simp_all
next
  case (Suc left)
  obtain e w1 where f: "fe_flush env r w = (e, w1)" by force
  note s = wr [OF f]
  define d where "d = evictionRetryBaseDelay * 2 ^ (evictionFlushAttempts - Suc left - 1)"
  obtain ok w2 where v: "fe_wait env ctx d w1 = (ok, w2)" by force
  have res: "(if e = None \<or> ctx w1 \<noteq> None then ((evictionFlushAttempts - Suc left, e), w1)
      else if ok then flushLoop env ctx r left w2 else ((evictionFlushAttempts - Suc left, e), w2)) = ((n, err), w')"
    using Suc.prems f v unfolding flushLoop.simps [of env ctx r "Suc left"] d_def [symmetric]
    by (cases ok) (auto split: if_splits)
  show ?case
  proof (cases "e = None \<or> ctx w1 \<noteq> None")
    case True
    with res s show ?thesis by auto
  next
    case False
    then have "R (f w) (f w1)" using s by auto
    moreover have "R (f w1) (f w2)" by (rule world [OF wait_grows [OF v]])
    ultimately have two: "R\<^sup>*\<^sup>* (f w) (f w2)" by simp
    show ?thesis
    proof (cases ok)
      case True
      with res False have "flushLoop env ctx r left w2 = ((n, err), w')" by auto
      from two Suc.IH [OF this] show ?thesis by (rule rtranclp_trans)
    next
      case no: False
      with res False two show ?thesis by auto
    qed
  qed
qed

lemma flushWithRetry_runs:
  assumes "\<And>w err w'. fe_flush env r w = (err, w') \<Longrightarrow> R (f w) (if err = None then g w' else f w')"
    and "\<And>w w'. grows stored w w' \<Longrightarrow> R (f w) (f w')"
    and "flushWithRetry env ctx r w = ((n, err), w')"
  shows "R\<^sup>*\<^sup>* (f w) (if err = None then g w' else f w')"
proof (cases "ctx w")
  case None
  with assms(3) have "flushLoop env ctx r (evictionFlushAttempts - 1) w = ((n, err), w')" by (simp add: flushWithRetry_def)
  from flushLoop_runs [of r R f g ctx, OF _ _ this] assms(1,2) show ?thesis by blast
next
  case (Some e)
  with assms(3) show ?thesis by (auto simp: flushWithRetry_def)
qed

lemma miss_run:
  assumes "r \<in># ca_miss \<sigma>" and "flushWithRetry env ctx r (ca_w \<sigma>) = ((n, err), w')"
  shows "(cache_step env stored iteration)\<^sup>*\<^sup>* \<sigma> (if err = None then \<sigma>\<lparr>ca_w := w', ca_miss := ca_miss \<sigma> - {#r#}\<rparr> else \<sigma>\<lparr>ca_w := w'\<rparr>)"
proof -
  let ?f = "\<lambda>w. \<sigma>\<lparr>ca_w := w\<rparr>" and ?g = "\<lambda>w. \<sigma>\<lparr>ca_w := w, ca_miss := ca_miss \<sigma> - {#r#}\<rparr>"
  have "cache_step env stored iteration (?f w) (if e = None then ?g w2 else ?f w2)" if "fe_flush env r w = (e, w2)" for w e w2
    using e_write_miss [of r "?f w" env e w2 stored iteration] assms(1) that by (auto split: if_splits)
  moreover have "cache_step env stored iteration (?f w) (?f w2)" if "grows stored w w2" for w w2
    using e_world [of stored "?f w" w2 env iteration] that by simp
  ultimately show ?thesis using flushWithRetry_runs [of r "cache_step env stored iteration" ?f ?g, OF _ _ assms(2)] by simp
qed

lemma evicted_run:
  assumes "r \<in># ca_evict \<sigma>" and "flushWithRetry env ctx r (ca_w \<sigma>) = ((n, err), w')"
  shows "\<exists>dropped. (cache_step env stored iteration)\<^sup>*\<^sup>* \<sigma> (\<sigma>\<lparr>ca_w := w', ca_evict := ca_evict \<sigma> - {#r#}, ca_dropped := dropped\<rparr>)"
proof -
  let ?f = "\<lambda>w. \<sigma>\<lparr>ca_w := w\<rparr>" and ?g = "\<lambda>w. \<sigma>\<lparr>ca_w := w, ca_evict := ca_evict \<sigma> - {#r#}\<rparr>"
  have "cache_step env stored iteration (?f w) (if e = None then ?g w2 else ?f w2)" if "fe_flush env r w = (e, w2)" for w e w2
    using e_write_evicted [of r "?f w" env e w2 stored iteration] assms(1) that by (auto split: if_splits)
  moreover have "cache_step env stored iteration (?f w) (?f w2)" if "grows stored w w2" for w w2
    using e_world [of stored "?f w" w2 env iteration] that by simp
  ultimately have run: "(cache_step env stored iteration)\<^sup>*\<^sup>* \<sigma> (if err = None then ?g w' else ?f w')"
    using flushWithRetry_runs [of r "cache_step env stored iteration" ?f ?g, OF _ _ assms(2)] by simp
  show ?thesis
  proof (cases "err = None")
    case True
    with run show ?thesis by (intro exI [of _ "ca_dropped \<sigma>"]) simp
  next
    case False
    have "cache_step env stored iteration (?f w') (\<sigma>\<lparr>ca_w := w', ca_evict := ca_evict \<sigma> - {#r#}, ca_dropped := add_mset r (ca_dropped \<sigma>)\<rparr>)"
      using e_drop [of r "?f w'" env stored iteration] assms(1) by simp
    with run False show ?thesis by (auto intro: rtranclp.rtrancl_into_rtrancl)
  qed
qed

lemma flushAll_run:
  assumes "mset rs \<subseteq># ca_evict \<sigma>" and "flushAll env ctx rs (ca_w \<sigma>) = (results, w')"
  shows "\<exists>dropped. (cache_step env stored iteration)\<^sup>*\<^sup>* \<sigma> (\<sigma>\<lparr>ca_w := w', ca_evict := ca_evict \<sigma> - mset rs, ca_dropped := dropped\<rparr>)"
  using assms
proof (induction rs arbitrary: \<sigma> results)
  case Nil
  then have "\<sigma>\<lparr>ca_w := w', ca_evict := ca_evict \<sigma> - mset [], ca_dropped := ca_dropped \<sigma>\<rparr> = \<sigma>" by auto
  then show ?case by (metis rtranclp.rtrancl_refl)
next
  case (Cons r rs)
  obtain n err w1 where f: "flushWithRetry env ctx r (ca_w \<sigma>) = ((n, err), w1)" by (metis prod.exhaust)
  obtain more where m: "flushAll env ctx rs w1 = (more, w')" using Cons.prems(2) f by (auto split: prod.splits)
  have r: "r \<in># ca_evict \<sigma>" using Cons.prems(1) by (auto simp: insert_subset_eq_iff)
  from evicted_run [OF r f] obtain dr where
    one: "(cache_step env stored iteration)\<^sup>*\<^sup>* \<sigma> (\<sigma>\<lparr>ca_w := w1, ca_evict := ca_evict \<sigma> - {#r#}, ca_dropped := dr\<rparr>)" by blast
  have "mset rs \<subseteq># ca_evict \<sigma> - {#r#}" using Cons.prems(1) by (simp add: insert_subset_eq_iff)
  with Cons.IH [of "\<sigma>\<lparr>ca_w := w1, ca_evict := ca_evict \<sigma> - {#r#}, ca_dropped := dr\<rparr>" more] m obtain dr2 where
    "(cache_step env stored iteration)\<^sup>*\<^sup>* (\<sigma>\<lparr>ca_w := w1, ca_evict := ca_evict \<sigma> - {#r#}, ca_dropped := dr\<rparr>)
      (\<sigma>\<lparr>ca_w := w', ca_evict := ca_evict \<sigma> - {#r#} - mset rs, ca_dropped := dr2\<rparr>)" by auto
  with one show ?case by (auto intro: rtranclp_trans)
qed

lemma flushEvicted_run:
  assumes "flushEvicted env evicted (ca_w \<sigma>) = (results, w')"
  shows "\<exists>dropped. (cache_step env stored iteration)\<^sup>*\<^sup>* (\<sigma>\<lparr>ca_evict := ca_evict \<sigma> + mset evicted\<rparr>) (\<sigma>\<lparr>ca_w := w', ca_dropped := dropped\<rparr>)"
proof (cases "evicted = []")
  case True
  with assms have "\<sigma>\<lparr>ca_w := w', ca_dropped := ca_dropped \<sigma>\<rparr> = \<sigma>\<lparr>ca_evict := ca_evict \<sigma> + mset evicted\<rparr>"
    by (auto simp: flushEvicted_def)
  then show ?thesis by (metis rtranclp.rtrancl_refl)
next
  case False
  with assms have "flushAll env (WithTimeout env (\<lambda>_. None) evictionFlushTimeout (ca_w \<sigma>)) evicted (ca_w \<sigma>) = (results, w')"
    by (simp add: flushEvicted_def)
  with flushAll_run [of evicted "\<sigma>\<lparr>ca_evict := ca_evict \<sigma> + mset evicted\<rparr>"] show ?thesis by simp
qed

lemma processEvent_run:
  assumes "processEvent env r now (ca_h \<sigma>, ca_w \<sigma>) = (Some out, h', w')"
  shows "\<exists>dropped. (cache_step env stored iteration)\<^sup>*\<^sup>* \<sigma>
    (\<sigma>\<lparr>ca_h := h', ca_w := w', ca_dropped := dropped, ca_received := insert r (ca_received \<sigma>),
       ca_miss := (if out = outcomeMiss then add_mset r (ca_miss \<sigma>) else ca_miss \<sigma>)\<rparr>)"
proof -
  obtain evicted where rec: "recordEvent r now (ca_h \<sigma>) = (Some (out, evicted), h')"
    and w: "w' = snd (flushEvicted env evicted (ca_w \<sigma>))"
    using assms by (auto simp: processEvent_def split: prod.splits option.splits)
  let ?\<sigma> = "\<sigma>\<lparr>ca_h := h', ca_received := insert r (ca_received \<sigma>),
      ca_miss := (if out = outcomeMiss then add_mset r (ca_miss \<sigma>) else ca_miss \<sigma>)\<rparr>"
  obtain results where "flushEvicted env evicted (ca_w ?\<sigma>) = (results, w')" using w by (cases "flushEvicted env evicted (ca_w \<sigma>)") auto
  from flushEvicted_run [OF this, of iteration] obtain dr where
    "(cache_step env stored iteration)\<^sup>*\<^sup>* (?\<sigma>\<lparr>ca_evict := ca_evict ?\<sigma> + mset evicted\<rparr>) (?\<sigma>\<lparr>ca_w := w', ca_dropped := dr\<rparr>)" by blast
  moreover have "cache_step env stored iteration \<sigma> (?\<sigma>\<lparr>ca_evict := ca_evict ?\<sigma> + mset evicted\<rparr>)"
    using e_event [OF rec, of env stored iteration] by (cases \<sigma>) simp
  ultimately have "(cache_step env stored iteration)\<^sup>*\<^sup>* \<sigma> (?\<sigma>\<lparr>ca_w := w', ca_dropped := dr\<rparr>)"
    by (rule converse_rtranclp_into_rtranclp [rotated])
  then show ?thesis by (intro exI [of _ dr]) (cases \<sigma>, simp)
qed

lemma writeMiss_run:
  assumes "r \<in># ca_miss \<sigma>" and "writeMiss env ctx r (ca_h \<sigma>, ca_w \<sigma>) = (Some err, h', w')"
  shows "\<exists>dropped. (cache_step env stored iteration)\<^sup>*\<^sup>* \<sigma>
    (\<sigma>\<lparr>ca_h := h', ca_w := w', ca_dropped := dropped, ca_miss := ca_miss \<sigma> - {#r#}\<rparr>)"
proof -
  obtain n e w1 where f: "flushWithRetry env (WithTimeout env ctx evictionFlushTimeout (ca_w \<sigma>)) r (ca_w \<sigma>) = ((n, e), w1)"
    by (metis prod.exhaust)
  note m = miss_run [OF assms(1) f, of iteration]
  show ?thesis
  proof (cases e)
    case None
    with f assms(2) have "h' = ca_h \<sigma>" "w' = w1" by (auto simp: writeMiss_def)
    with m None show ?thesis by (intro exI [of _ "ca_dropped \<sigma>"]) simp
  next
    case (Some x)
    then obtain evicted where k: "keepPending r (fe_now env w1) (ca_h \<sigma>) = (Some evicted, h')"
      and w: "w' = snd (flushEvicted env evicted w1)"
      using f assms(2) by (auto simp: writeMiss_def split: prod.splits option.splits)
    let ?\<sigma> = "\<sigma>\<lparr>ca_h := h', ca_w := w1, ca_miss := ca_miss \<sigma> - {#r#}\<rparr>"
    obtain results where "flushEvicted env evicted (ca_w ?\<sigma>) = (results, w')" using w by (cases "flushEvicted env evicted w1") auto
    from flushEvicted_run [OF this, of iteration] obtain dr where
      fl: "(cache_step env stored iteration)\<^sup>*\<^sup>* (?\<sigma>\<lparr>ca_evict := ca_evict ?\<sigma> + mset evicted\<rparr>) (?\<sigma>\<lparr>ca_w := w', ca_dropped := dr\<rparr>)" by blast
    have "cache_step env stored iteration (\<sigma>\<lparr>ca_w := w1\<rparr>) (?\<sigma>\<lparr>ca_evict := ca_evict ?\<sigma> + mset evicted\<rparr>)"
      using e_keep [of r "\<sigma>\<lparr>ca_w := w1\<rparr>" "fe_now env w1" evicted h' env stored iteration] assms(1) k by (cases \<sigma>) simp
    from converse_rtranclp_into_rtranclp [of "cache_step env stored iteration", OF this fl] m Some
    have "(cache_step env stored iteration)\<^sup>*\<^sup>* \<sigma> (?\<sigma>\<lparr>ca_w := w', ca_dropped := dr\<rparr>)" by (auto intro: rtranclp_trans)
    then show ?thesis by (intro exI [of _ dr]) (cases \<sigma>, simp)
  qed
qed

lemma reach_run: "cache_reach env stored iteration h0 \<sigma> \<Longrightarrow> (cache_step env stored iteration)\<^sup>*\<^sup>* \<sigma> \<sigma>' \<Longrightarrow> cache_reach env stored iteration h0 \<sigma>'"
  by (rotate_tac, induction rule: rtranclp_induct) (auto intro: r_step)

text \<open>A request that runs alone leaves nothing in flight.\<close>

lemma sequential_event_covered:
  assumes "cache_reach env stored iteration h0 \<sigma>" and "iterates iteration" and "h_inv h0" and "h_entries h0 = []"
    and "ca_miss \<sigma> = {#}" and "ca_evict \<sigma> = {#}"
    and "processEvent env r now (ca_h \<sigma>, ca_w \<sigma>) = (Some out, h1, w1)"
    and "if out = outcomeMiss then writeMiss env ctx r (h1, w1) = (Some err, h2, w2) else h2 = h1 \<and> w2 = w1"
  shows "\<exists>\<sigma>'. cache_reach env stored iteration h0 \<sigma>' \<and> ca_h \<sigma>' = h2 \<and> ca_w \<sigma>' = w2 \<and> ca_miss \<sigma>' = {#} \<and> ca_evict \<sigma>' = {#} \<and>
    ca_received \<sigma>' = insert r (ca_received \<sigma>)"
proof -
  obtain dr where p: "(cache_step env stored iteration)\<^sup>*\<^sup>* \<sigma>
    (\<sigma>\<lparr>ca_h := h1, ca_w := w1, ca_dropped := dr, ca_received := insert r (ca_received \<sigma>),
       ca_miss := (if out = outcomeMiss then add_mset r (ca_miss \<sigma>) else ca_miss \<sigma>)\<rparr>)"
    using processEvent_run [OF assms(7)] by blast
  let ?\<sigma>1 = "\<sigma>\<lparr>ca_h := h1, ca_w := w1, ca_dropped := dr, ca_received := insert r (ca_received \<sigma>),
       ca_miss := (if out = outcomeMiss then add_mset r (ca_miss \<sigma>) else ca_miss \<sigma>)\<rparr>"
  show ?thesis
  proof (cases "out = outcomeMiss")
    case False
    with reach_run [OF assms(1) p] assms(5,6,8) show ?thesis by (intro exI [of _ ?\<sigma>1]) simp
  next
    case True
    with assms(8) writeMiss_run [of r ?\<sigma>1 ctx err h2 w2 iteration] obtain dr2 where
      "(cache_step env stored iteration)\<^sup>*\<^sup>* ?\<sigma>1 (?\<sigma>1\<lparr>ca_h := h2, ca_w := w2, ca_dropped := dr2, ca_miss := ca_miss ?\<sigma>1 - {#r#}\<rparr>)"
      by auto
    from reach_run [OF reach_run [OF assms(1) p] this] True assms(5,6) show ?thesis by (intro exI conjI) (assumption, simp_all)
  qed
qed

end

section \<open>Retries\<close>

text \<open>An environment that logs the result of each write and each wait.\<close>

definition logged :: "'w flush_env \<Rightarrow> ('w \<times> db_error option list \<times> i64 list) flush_env" where
  "logged env =
     \<lparr>fe_flush = (\<lambda>r (w, es, ds). case fe_flush env r w of (err, w') \<Rightarrow> (err, w', es @ [err], ds)),
      fe_now = (\<lambda>(w, es, ds). fe_now env w),
      fe_wait = (\<lambda>ctx d (w, es, ds). case fe_wait env (\<lambda>w. ctx (w, es, ds)) d w of (ok, w') \<Rightarrow> (ok, w', es, ds @ [d]))\<rparr>"

lemma logged_fields:
  "fe_flush (logged env) r (w, es, ds) = (case fe_flush env r w of (err, w') \<Rightarrow> (err, w', es @ [err], ds))"
  "fe_wait (logged env) ctx d (w, es, ds) =
     (case fe_wait env (\<lambda>w. ctx (w, es, ds)) d w of (ok, w') \<Rightarrow> (ok, w', es, ds @ [d]))"
  by (simp_all add: logged_def)

definition retryDelays :: "i64 list" where
  "retryDelays = [100 * 1000000, 200 * 1000000, 400 * 1000000]"

lemma retry_delay: "left < 3 \<Longrightarrow> drop (3 - Suc left) retryDelays = evictionRetryBaseDelay * 2 ^ (3 - Suc left) # drop (3 - left) retryDelays"
  by (cases left; cases "left - 1"; cases "left - 2")
    (auto simp: retryDelays_def evictionRetryBaseDelay_def numeral_3_eq_3 numeral_2_eq_2)

lemma flushLoop_log:
  assumes "left \<le> 3" and "flushLoop (logged env) ctx r left (w, es, ds) = ((attempts, err), w', es', ds')"
  shows "\<exists>fails n. es' = es @ fails @ [err] \<and> None \<notin> set fails \<and> attempts + left = 4 + length fails \<and> length fails \<le> left \<and>
    ds' = ds @ take n (drop (3 - left) retryDelays)"
  using assms
proof (induction left arbitrary: w es ds)
  case 0
  then show ?case
    by (intro exI [of _ "[]"] exI [of _ 0])
      (auto simp: flushLoop.simps [of _ _ _ 0] logged_def evictionFlushAttempts_def split: prod.splits if_splits)
next
  case (Suc left)
  obtain e w1 where f: "fe_flush env r w = (e, w1)" by force
  let ?s = "(w1, es @ [e], ds)"
  define d where "d = evictionRetryBaseDelay * 2 ^ (3 - Suc left)"
  have step: "flushLoop (logged env) ctx r (Suc left) (w, es, ds) =
      (if e = None \<or> ctx ?s \<noteq> None then ((3 - left, e), ?s)
       else
         (case fe_wait env (\<lambda>w. ctx (w, es @ [e], ds)) d w1 of
            (ok, w2) \<Rightarrow>
              let s2 = (w2, es @ [e], ds @ [d])
              in if ok then flushLoop (logged env) ctx r left s2 else ((3 - left, e), s2)))"
    using f by (subst flushLoop.simps)
      (simp add: logged_fields evictionFlushAttempts_def Let_def d_def split: prod.splits bool.splits)
  have d: "drop (3 - Suc left) retryDelays = d # drop (3 - left) retryDelays"
    unfolding d_def using Suc.prems(1) by (intro retry_delay) simp
  show ?case
  proof (cases "e = None \<or> ctx ?s \<noteq> None")
    case True
    with Suc.prems step show ?thesis by (intro exI [of _ "[]"] exI [of _ 0]) auto
  next
    case go: False
    obtain ok w2 where v: "fe_wait env (\<lambda>w. ctx (w, es @ [e], ds)) d w1 = (ok, w2)" by force
    have res: "(if ok then flushLoop (logged env) ctx r left (w2, es @ [e], ds @ [d]) else ((3 - left, e), w2, es @ [e], ds @ [d])) =
        ((attempts, err), w', es', ds')"
      using step Suc.prems(2) go unfolding v if_not_P [OF go] by (simp add: Let_def)
    show ?thesis
    proof (cases ok)
      case False
      with res go d Suc.prems(1) show ?thesis by (intro exI [of _ "[]"] exI [of _ 1]) auto
    next
      case True
      with res have "flushLoop (logged env) ctx r left (w2, es @ [e], ds @ [d]) = ((attempts, err), w', es', ds')" by simp
      from Suc.IH [OF _ this] Suc.prems(1) obtain fails n where
        "es' = (es @ [e]) @ fails @ [err]" "None \<notin> set fails" "attempts + left = 4 + length fails" "length fails \<le> left"
        "ds' = (ds @ [d]) @ take n (drop (3 - left) retryDelays)" by auto
      with go d show ?thesis by (intro exI [of _ "e # fails"] exI [of _ "Suc n"]) auto
    qed
  qed
qed

section \<open>A database in memory\<close>

text \<open>It is up or down, and keeps the newest event of each key.\<close>

type_synonym memDb = "bool \<times> (key \<Rightarrow> int option)"

definition memFlush :: "memDb flush_env" where
  "memFlush =
     \<lparr>fe_flush = (\<lambda>r (down, m).
        if down then (Some (WriteError ''down''), down, m)
        else (None, down, m(keyOf r \<mapsto> (case m (keyOf r) of None \<Rightarrow> ev_Timestamp r | Some t \<Rightarrow> max t (ev_Timestamp r))))),
      fe_now = (\<lambda>_. 0), fe_wait = (\<lambda>ctx d w. (True, w))\<rparr>"

interpretation db: flush_db memFlush snd
  by unfold_locales (auto simp: memFlush_def grows_def split: if_splits option.splits)

lemma NewCachingDBHandler_inv:
  assumes "NewCachingDBHandler innerNil cfg flushNil meterNil metricsErr = Inr h"
  shows "h_inv h" and "h_entries h = []" and "fits h"
proof -
  let ?f = "FlushInterval cfg"
  from assms have f: "0 < ?f" "?f \<le> maxFlushInterval" and m: "0 < MaxSize cfg"
    by (auto simp: NewCachingDBHandler_def Let_def split: if_splits sum.splits option.splits)
  obtain count wh where c: "count = (if 0 < rem64 ?f wheelTick then add64 (quot64 ?f wheelTick) 1 else quot64 ?f wheelTick)"
    and w: "newTimingWheel count wheelTick False = Inr wh"
    and h: "h = \<lparr>h_cfg = cfg, h_entries = [], h_recency = [], h_nextNode = 0, h_wheel = wh\<rparr>"
    using assms by (auto simp: NewCachingDBHandler_def Let_def split: if_splits sum.splits option.splits)
  have q: "quot64 ?f wheelTick = ?f div 1000000000" using f by (simp add: wheelTick_def maxFlushInterval_def quot64_nonneg)
  have "?f div 1000000000 \<le> 3600 * 1000000000 div 1000000000"
    using f by (intro zdiv_mono1) (simp_all add: maxFlushInterval_def)
  moreover have "0 \<le> ?f div 1000000000" using f by (simp add: pos_imp_zdiv_nonneg_iff)
  ultimately have "2 * count \<le> MaxInt64" using c q by (auto simp: add64_id in_i64_def)
  from newTimingWheel_inv [OF w this] have "wheel_inv wh" .
  moreover have "keyLookup wh = (\<lambda>_. None)" using w by (auto simp: newTimingWheel_def split: if_splits)
  ultimately show "h_inv h" using h m by (intro h_invI) (auto simp: lookup_def)
  show "h_entries h = []" "fits h" using h m by (simp_all add: fits_def)
qed

section \<open>Properties\<close>

text \<open>
  C9. No event is lost. Whatever the interleaving of requests, database writes, retries that give up,
  evictions and ticks of the wheel, every event received is covered: an event of its key that is at
  least as new is in the database, or is pending in the cache, or a writer is still holding it, or
  it is among those an eviction dropped after its writes failed. So without dropped evictions, once no
  write is in flight, the newest event of every key is stored or pending.
\<close>

theorem no_event_lost:
  assumes "flush_db env stored" and "iterates iteration" and "NewCachingDBHandler False cfg False False None = Inr h0"
    and "cache_reach env stored iteration h0 \<sigma>" and "r \<in> ca_received \<sigma>"
  shows "(\<exists>t. stored (ca_w \<sigma>) (keyOf r) = Some t \<and> ev_Timestamp r \<le> t) \<or>
     (\<exists>c. lookup (keyOf r) (ca_h \<sigma>) = Some c \<and> c_pending c \<and> ev_Timestamp r \<le> ev_Timestamp (c_record c)) \<or>
     (\<exists>q. q \<in># ca_miss \<sigma> + ca_evict \<sigma> + ca_dropped \<sigma> \<and> keyOf q = keyOf r \<and> ev_Timestamp r \<le> ev_Timestamp q)"
  using flush_db.sys_invD(4) [OF assms(1) flush_db.cache_reach_inv [OF assms(1,4,2) NewCachingDBHandler_inv(1,2) [OF assms(3)]] assms(5)]
  by (simp add: flush_db.carried_def [OF assms(1)] flush_db.queued_def [OF assms(1)])

definition demo_event :: "int \<Rightarrow> EventV3UpsertRecord" where
  "demo_event t = \<lparr>ev_Namespace = ''ns'', ev_Context = ''c'', ev_EventName = ''e'', ev_Source = ''s'', ev_Details = ''{}'',
     ev_Timestamp = t, ev_NcaID = [], ev_FunctionID = []\<rparr>"

definition demo_handler :: CachingDBHandler where
  "demo_handler = \<lparr>h_cfg = \<lparr>MaxSize = 1, FlushInterval = 1000000000\<rparr>, h_entries = [], h_recency = [], h_nextNode = 0,
     h_wheel = \<lparr>slotCount = 1, tickDuration = 1000000000, slots = [{}], keyLookup = (\<lambda>_. None), cursor = 0\<rparr>\<rparr>"

lemma demo_handler_new: "NewCachingDBHandler False \<lparr>MaxSize = 1, FlushInterval = 1000000000\<rparr> False False None = Inr demo_handler"
  by (simp add: NewCachingDBHandler_def demo_handler_def maxFlushInterval_def wheelTick_def newTimingWheel_def Let_def
      quot64_nonneg rem64_nonneg)

lemma demo_miss:
  "recordEvent (demo_event 7) 0 demo_handler = (Some (outcomeMiss, []), addEntry (keyOf (demo_event 7)) (demo_event 7) 0 False demo_handler)"
  by (simp add: recordEvent_def demo_handler_def addEntry_def Let_def evictOverflow.simps)

theorem no_event_lost_witness:
  "\<exists>\<sigma>. cache_reach memFlush snd sorted_list_of_set demo_handler \<sigma> \<and> demo_event 7 \<in> ca_received \<sigma> \<and>
     ca_miss \<sigma> = {#} \<and> ca_evict \<sigma> = {#} \<and> ca_dropped \<sigma> = {#} \<and> (\<exists>t. snd (ca_w \<sigma>) (keyOf (demo_event 7)) = Some t \<and> (7::int) \<le> t)"
proof -
  let ?r = "demo_event 7" and ?h = "addEntry (keyOf (demo_event 7)) (demo_event 7) 0 False demo_handler"
  let ?s0 = "\<lparr>ca_h = demo_handler, ca_w = (False, Map.empty), ca_miss = {#}, ca_evict = {#}, ca_dropped = {#}, ca_received = {}\<rparr>"
  let ?s1 = "\<lparr>ca_h = ?h, ca_w = (False, Map.empty), ca_miss = {#?r#}, ca_evict = {#}, ca_dropped = {#}, ca_received = {?r}\<rparr>"
  let ?s2 = "?s1\<lparr>ca_w := (False, [keyOf ?r \<mapsto> 7 :: int]), ca_miss := {#}\<rparr>"
  have "cache_step memFlush snd sorted_list_of_set ?s0 ?s1"
    using e_event [of ?r 0 ?s0 outcomeMiss "[]" ?h memFlush snd sorted_list_of_set] demo_miss by simp
  moreover have "cache_step memFlush snd sorted_list_of_set ?s1 ?s2"
    using e_write_miss [of ?r ?s1 memFlush None "(False, [keyOf ?r \<mapsto> 7 :: int])" snd sorted_list_of_set]
    by (simp add: memFlush_def demo_event_def)
  ultimately have s2: "cache_reach memFlush snd sorted_list_of_set demo_handler ?s2" by (blast intro: r_init r_step)
  have l: "lookup (keyOf ?r) (ca_h ?s2) = Some c \<Longrightarrow> \<not> c_pending c" for c by (auto simp: addEntry_fields)
  from no_event_lost [OF db.flush_db_axioms iterates_sorted demo_handler_new s2, of ?r] l
  have "\<exists>t. snd (ca_w ?s2) (keyOf ?r) = Some t \<and> (7::int) \<le> t" by (auto simp: demo_event_def)
  with s2 show ?thesis by (intro exI [of _ ?s2]) simp
qed

text \<open>
  The calls are runs of the machine: when nothing is in flight, an event handled by \<open>processEvent\<close>
  and, on a miss, by \<open>writeMiss\<close>, with nothing else running, takes the machine from the state before
  the calls to one with the handler and the world they leave, the event received and nothing in flight.
\<close>

theorem calls_are_runs:
  assumes "flush_db env stored" and "iterates iteration" and "NewCachingDBHandler False cfg False False None = Inr h0"
    and "cache_reach env stored iteration h0 \<sigma>" and "ca_miss \<sigma> = {#}" and "ca_evict \<sigma> = {#}"
    and "processEvent env r now (ca_h \<sigma>, ca_w \<sigma>) = (Some out, h1, w1)"
    and "if out = outcomeMiss then writeMiss env ctx r (h1, w1) = (Some err, h2, w2) else h2 = h1 \<and> w2 = w1"
  shows "\<exists>\<sigma>'. cache_reach env stored iteration h0 \<sigma>' \<and> ca_h \<sigma>' = h2 \<and> ca_w \<sigma>' = w2 \<and>
     ca_miss \<sigma>' = {#} \<and> ca_evict \<sigma>' = {#} \<and> ca_received \<sigma>' = insert r (ca_received \<sigma>)"
  by (rule flush_db.sequential_event_covered [OF assms(1,4,2) NewCachingDBHandler_inv(1,2) [OF assms(3)] assms(5-8)])

text \<open>
  C24. The cache stays sound: on a handler whose entries, recency list and wheel agree and fit, every
  operation returns without a panic and keeps them so. Each entry has exactly one node, only pending
  entries are scheduled, and there are at most \<open>MaxSize\<close>; a new handler is sound.
\<close>

theorem cache_stays_sound:
  assumes "h_inv h" and "fits h" and "iterates iteration"
  shows "(\<exists>out h'. recordEvent r now h = (Some out, h') \<and> h_inv h' \<and> fits h') \<and>
     (\<exists>evicted h'. keepPending r now h = (Some evicted, h') \<and> h_inv h' \<and> fits h') \<and>
     (\<exists>out h'. removeInactive now h = (Some out, h') \<and> h_inv h' \<and> fits h') \<and>
     h_inv (wheelTickOf iteration h) \<and> fits (wheelTickOf iteration h)"
proof -
  obtain res h' where e: "recordEvent r now h = (res, h')" by force
  from assms(1) this have 1: "\<exists>out. res = Some out \<and> h_inv h' \<and> fits h'"
    by (cases rule: recordEvent_cases)
      (use assms in \<open>auto simp: evicts_def replaceEntry_inv(1) replaceEntry_fits\<close>)
  obtain res2 h2 where k: "keepPending r now h = (res2, h2)" by force
  from assms(1) this have 2: "\<exists>ev. res2 = Some ev \<and> h_inv h2 \<and> fits h2"
    by (cases rule: keepPending_cases)
      (use assms in \<open>auto simp: evicts_def replaceEntry_inv(1) replaceEntry_fits\<close>)
  obtain res3 h3 where i: "removeInactive now h = (res3, h3)" by force
  from removeInactive_spec [OF assms(1) i] removeInactive_fits [OF assms(1,2) i]
  have 3: "\<exists>out. res3 = Some out \<and> h_inv h3 \<and> fits h3" by (auto simp: evicts_def)
  have "fits (wheelTickOf iteration h)" using assms(2) by (simp add: fits_def wheelTickOf_fields)
  with wheelTickOf_inv [OF assms(1,3)] 1 2 3 e k i show ?thesis by auto
qed

theorem cache_stays_sound_witness: "h_inv (wheelTickOf sorted_list_of_set demo_handler)"
  using cache_stays_sound [OF NewCachingDBHandler_inv(1,3) [OF demo_handler_new] iterates_sorted] by blast

text \<open>
  The least recently updated entries go. The eviction loop always ends without a panic; it keeps
  the most recently updated entries that fit, in their order, and hands over exactly the pending
  records among the others.
\<close>

lemma evictOverflow_lru:
  assumes "h_inv h"
  shows "\<exists>evicted h'. evictOverflow h = (Some evicted, h') \<and> fits h' \<and>
     h_recency h' = take (nat (MaxSize (h_cfg h))) (h_recency h) \<and>
     (\<forall>k. lookup k h' = (if k \<in> snd ` set (take (nat (MaxSize (h_cfg h))) (h_recency h)) then lookup k h else None)) \<and>
     set evicted = {c_record c |k c. lookup k h = Some c \<and> lookup k h' = None \<and> c_pending c}"
proof -
  obtain res h' where e: "evictOverflow h = (res, h')" by force
  from evictOverflow_spec [OF assms e] obtain evicted where
    ev: "res = Some evicted" "evicts h evicted h'" "fits h'" "h_recency h' = take (nat (MaxSize (h_cfg h))) (h_recency h)" by blast
  have i: "h_inv h'" and keep: "\<And>k. lookup k h' = lookup k h \<or> lookup k h' = None"
    and s: "set evicted = {c_record c |k c. lookup k h = Some c \<and> lookup k h' = None \<and> c_pending c}"
    using ev(2) by (auto simp: evicts_def)
  have "lookup k h' \<noteq> None \<longleftrightarrow> k \<in> snd ` set (h_recency h')" for k
    using h_invD(4) [OF i, of _ k] by (cases "lookup k h'") (force, force)
  with ev keep e s show ?thesis by (metis (no_types, lifting))
qed

text \<open>
  C33. Writing with retries ends: \<open>flushWithRetry\<close> makes as many writes as it reports, at most four,
  none after one that succeeded, returns the result of the last one, and waits 100, 200 and 400
  milliseconds between them; with an ended context it makes none.
\<close>

theorem flushWithRetry_ends:
  assumes "flushWithRetry (logged env) ctx r (w, [], []) = ((attempts, err), w', es, ds)"
  shows "attempts = length es \<and> attempts \<le> 4 \<and>
     (attempts = 0 \<longrightarrow> err = ctx (w, [], []) \<and> err \<noteq> None) \<and>
     (attempts > 0 \<longrightarrow> (\<exists>fails. es = fails @ [err] \<and> None \<notin> set fails)) \<and>
     (\<exists>n. ds = take n [100 * 1000000, 200 * 1000000, 400 * 1000000])"
proof (cases "ctx (w, [], [])")
  case (Some e)
  with assms have "attempts = 0" "err = Some e" "es = []" "ds = []" by (auto simp: flushWithRetry_def)
  with Some show ?thesis by simp
next
  case None
  with assms have "flushLoop (logged env) ctx r 3 (w, [], []) = ((attempts, err), w', es, ds)"
    by (simp add: flushWithRetry_def evictionFlushAttempts_def)
  from flushLoop_log [OF _ this] obtain fails n where
    "es = fails @ [err]" "None \<notin> set fails" "attempts = 1 + length fails" "length fails \<le> 3" "ds = take n retryDelays" by auto
  then show ?thesis by (auto simp: retryDelays_def)
qed

lemma demo_retries:
  "fst (flushWithRetry (logged memFlush) (\<lambda>_. None) (demo_event 1) ((True, Map.empty), [], [])) = (4, Some (WriteError ''down''))"
  by code_simp

theorem flushWithRetry_ends_witness:
  "\<exists>es fails. fst (snd (snd (flushWithRetry (logged memFlush) (\<lambda>_. None) (demo_event 1) ((True, Map.empty), [], [])))) = es \<and>
     length es = 4 \<and> es = fails @ [Some (WriteError ''down'')] \<and> None \<notin> set fails"
proof -
  obtain attempts err w' es ds where
    f: "flushWithRetry (logged memFlush) (\<lambda>_. None) (demo_event 1) ((True, Map.empty), [], []) = ((attempts, err), w', es, ds)"
    by (metis prod.exhaust)
  with demo_retries have "attempts = 4" "err = Some (WriteError ''down'')" by simp_all
  with flushWithRetry_ends [OF f] f show ?thesis by auto
qed

end
