(* ===== verification/Spec2Isabelle.thy ===== *)
theory Spec2Isabelle
  imports Throughput GatewayPlan SyncEvents RateLimiterService SessionValues NvSnapFleet IcmsRuns WriteCacheRun
begin

text \<open>
  \<^bold>\<open>A verification of the coordination logic of NVCF.\<close>

  NVCF runs inference functions on GPU clusters. Its Go code is a set of services, most of which
  move bytes between HTTP, gRPC, NATS and Kubernetes. Several of them hold shared state that many
  requests, replicas or pods update at the same time, and the correctness of the platform rests on
  what they do with it. This development models those parts, call by call, and proves what they
  promise.

  \<^bold>\<open>The parts and their theories.\<close> Paths are relative to \<open>src/src\<close>.

  \<^item> The rate limiter of the LLM gateway (\<open>invocation-plane-services/llm-api-gateway/ratelimit\<close>).
    A bucket per key lives in an Olric distributed map; every gateway replica reads it, computes the
    refill and the charge, and publishes the result with a compare-and-swap.
    \<open>OlricStore\<close> has the stored state, the store interface, its implementation over the map, and the
    in-process store of the package's tests. \<open>RateLimit\<close> has \<open>ratelimit.go\<close>: saturating arithmetic,
    the bucket transition \<open>bucketStep\<close>, the retry loop \<open>casRetry\<close>, \<open>leakyBucket\<close>, \<open>CheckLimit\<close>.
    \<open>BucketSpec\<close> gives the transition on mathematical integers and shows that the machine version
    refines it. \<open>CasLoop\<close> shows what the retry loop promises over any store that keeps the interface.
    \<open>Throughput\<close> runs any number of clients interleaved and bounds what they admit together.
    \<open>Defaults\<close> has the limiters without a store.

  \<^item> Limits of a request (\<open>ratelimit/resources.go\<close>, \<open>ratelimit/admission.go\<close>, \<open>api/ratelimit.go\<close>,
    \<open>api/handlers.go\<close>, \<open>api/auth_middleware.go\<close>). \<open>Resources\<close> has the twenty dimensions of a limit
    and their concurrent check; \<open>Admission\<close> the plan that reserves, settles and releases tokens for
    one limit; \<open>TokenLimits\<close> the limit parser and subject keys; \<open>GatewayStats\<close> the binding limit,
    statistics and response headers, with the waiting times as the doubles of \<open>Float64\<close>;
    \<open>GatewayPlan\<close> the plan over all limits of a request and the handler's use of it.

  \<^item> Replication between clusters (\<open>ratelimit/sync_events.go\<close>, \<open>nats_synchronizer.go\<close>,
    \<open>pubsub_consumer.go\<close>, \<open>pubsub_synchronizer.go\<close>): \<open>SyncEvents\<close> has the events, the sending queue
    as a state machine, the application of received events and the set-up of the stream.

  \<^item> Cluster affinity (\<open>lastcluster\<close>, \<open>api/last_cluster_keys.go\<close>). The gateway remembers which
    cluster served a conversation. \<open>PayloadPrefix\<close> has the session values of a message list and the
    store keys, \<open>LastClusterStore\<close> the stores (the linked-list LRU and the Olric one), \<open>LastCluster\<close> the
    tracker with its goroutines and its drain, \<open>SessionValues\<close> the values the endpoints compute.

  \<^item> The rate-limiter service (\<open>invocation-plane-services/ratelimiter\<close>): \<open>CounterStore\<close> has the
    fixed-window counters over the map, \<open>RateLimiterService\<close> the policies, the cached policy client
    and the three tiers of a request.

  \<^item> The requests of the cluster agent (\<open>compute-plane-services/nvca/pkg/nvca\<close>). The control plane sends creation and
    termination messages through queues; the agent records each as an \<open>ICMSRequest\<close> object, acknowledges it, runs its instances
    and reports them until they are gone. \<open>QueueManager\<close> has \<open>queue_manager.go\<close> and the recording of a message in
    \<open>backendk8scache.go\<close>: credentials, the ring of the queues of a GPU, backoff, a pass in every mode and its handlers.
    \<open>QueueBatch\<close> shows what a pass does with the batches it fetched, \<open>QueueManagerSpec\<close> that it never accepts more
    than fits, \<open>QueuePass\<close> that it returns and deletes only what is recorded. \<open>IcmsRequests\<close> has the life of a request afterwards:
    the change of its status under conflicts, its synchronization with finalizers and cleanup (\<open>backendk8scache.go\<close>),
    purging, updates and aggregated status of its instances (\<open>k8scomputebackend.go\<close>), and the passes of \<open>agent.go\<close> that acknowledge,
    report, compare with the control plane and evict. \<open>IcmsRequestsSpec\<close> has their properties and an in-memory cluster,
    \<open>IcmsRuns\<close> the runs on it that go wrong.

  \<^item> The NvSnap integration of the cluster agent (\<open>compute-plane-services/nvca/pkg/nvca/nvsnap\<close>,
    \<open>nvsnap_hook.go\<close>, \<open>nvsnap_coldstart_gate.go\<close>). A function version is captured once per cluster and
    restored from the capture; the state is a Kubernetes object that reconciles of many pods, a
    sweep, an admission hook and a cold-start gate write. \<open>NvSnapState\<close> has the object, the claims and
    every write of it, \<open>CaptureOnce\<close> the interleaving of all writers, \<open>NvSnapReconcile\<close> the
    handlers: the reconcile of a pod, recovery, the sweep and the gate. \<open>NvSnapHook\<close> has the admission hook
    that decides whether a pod restores or is captured, and the capture controller; \<open>WorkQueue\<close> the
    client-go queue under it (vendored); \<open>NvSnapHookSpec\<close> what both promise.

  \<^item> The NvSnap server (\<open>compute-plane-services/nvsnap/internal/db\<close> and \<open>server\<close>), which keeps the catalog
    of captures. \<open>NvSnapCatalog\<close> has the table and its statements, paging, deduplication and the
    expiry query, \<open>NvSnapCatalogSpec\<close> their properties; \<open>NvSnapServer\<close> the handlers, the ingestion of capture
    manifests, deletion across all tiers and retention, \<open>NvSnapServerSpec\<close> their properties.
    \<open>NvSnapFleet\<close> puts agent and server together: the hook and the recovery of the agent
    answered by the server's handlers.

  \<^item> The write cache of the event ledger (\<open>control-plane-services/event-ledger/internal/cache\<close>).
    It keeps the latest event of each key, writes the first at once and later ones when their entry
    is evicted; a timing wheel schedules the flush of a pending key. \<open>TimingWheel\<close> has the wheel and its life cycle,
    \<open>WriteCache\<close> the operations of the cache, \<open>WriteCacheRun\<close> their interleaving with the writes in flight.

  \<open>Prelude\<close>, \<open>GoInt\<close> (the 64-bit integers of Go with their wrap-around), \<open>GoString\<close> (\<open>strings\<close> and
  \<open>strconv\<close>) and \<open>GoTime\<close> (the text formats of times) are shared.

  \<^bold>\<open>How code becomes definitions.\<close> A struct is a record, an interface of the program a record of
  functions on the state they act on, an error a value of a sum type. A method that changes state
  takes the state and returns it. An \<open>int64\<close> is an integer with the operations \<open>add64\<close>, \<open>sub64\<close>,
  \<open>mul64\<close> that wrap; \<open>mulDivInt64\<close> computes through 128-bit words as the code does. Times and durations
  are nanoseconds. Where a goroutine interleaves with others, the code is cut at its calls of shared
  state and becomes a step relation: clients of a bucket in \<open>Throughput\<close>, the queue in
  \<open>SyncEvents\<close>, the tracker in \<open>LastCluster\<close>, the writers of a function's state in \<open>CaptureOnce\<close>, the
  workers of the capture controller in \<open>NvSnapHookSpec\<close>, the requests and writes of the cache in
  \<open>WriteCacheRun\<close>, the jobs of a pass of the queue manager, one message at a time, in \<open>QueueManager\<close>; a SQL statement is one step, and between the statements of an upsert the table
  may be any other. Where the code ranges over a Go map, the
  order is an argument and the theorems hold for every order.

  \<^bold>\<open>Interfaces.\<close> Code outside the repository is an argument of the definitions, and what is relied on
  is the assumption of a locale. The bucket store contract is interpreted for the store over the map
  and for the test store; the contract of the last-cluster stores for the LRU; that of
  the Kubernetes client (reads return the current object, a write succeeds only on the version it
  names and moves it on, a rejected write changes nothing) for an in-memory server; that of
  the environment of a reconcile for one around that server; that of the event database (a
  write that succeeds stores the event or a newer one, no write brings an older one back) for an in-memory one; that of the work queue for the queue as
  client-go has it; that of the API server for requests (a write lands on the version that was read, other writers may act
  at every call) for an in-memory cluster with rival writers; that of a table with ids and hashes for the rows of the catalog; and what
  SQLite promises of \<open>ORDER BY\<close> (the same rows, sorted by the text of their creation time, ties in any
  order) for a stable sort. SHA-256, JSON decoding
  and re-encoding, the Olric map, the policy API, the agents behind the nvsnap server, clocks and random jitter are
  parameters. Where a property needs more of the environment, it says so by a predicate: \<open>passWorld\<close> (a creation
  adds the object it was given, other calls add none), \<open>listsRequests\<close> and \<open>currentLister\<close> (lists show the objects there
  are), \<open>namedRequests\<close> (the decoders agree on the ID of a request), \<open>routedQueues\<close> (a queue carries messages of its GPU only),
  \<open>modestSizes\<close> and \<open>boundedBatches\<close> (sizes do not overflow, a queue returns no more than asked), \<open>settles\<close> (what has been acknowledged stays so).
  Each is shown for the in-memory environment of its witness. To say that a call is made only when
  something holds, a property replaces the call by one that fails otherwise and shows that nothing changes.

  \<^bold>\<open>Loops.\<close> The retry loop of the limiter counts its attempts, at most 16 by default, and its theorems
  say when it answers and when it gives up. The polling loops of a reconcile run until a context with
  a deadline ends; the ticks before that are an argument, and the theorems hold for every number. The
  drain of the tracker is a step per round. A flush retries a fixed number of times, a change of a status five times, an eviction three times. All other loops run over a list.

  \<^bold>\<open>What is shown.\<close> For the limiter: the transition computes the exact refill and charge without
  overflow or division by zero; buckets stay in bounds; a bucket that expired decides like the one
  stored; no update is lost between replicas; over any interleaving the admitted units are at most
  the initial bucket plus the refill earned; the loop answers while it loses fewer swaps than it has
  attempts. For requests: an admitted request is charged its requests and its actual tokens, a
  refused one nothing; the concurrent check answers the same under every schedule; the
  waiting time a client is told is that of the limit it waits for. For replication: replicas that
  apply the same events hold the same bucket, and stopping loses none. For affinity: the next turn
  of a conversation finds the cluster of the previous one; the tracker never holds more goroutines
  than its bound and a drain is never lost; the LRU is an LRU. For the rate-limiter service: rates
  parse to the strictest of each period, tiers all count, and one caller at a time gets
  exactly the limit. For captures: at most one live pod captures a function version, reconciles leave
  no claim behind, the sweep does not disturb a capture, one replica at a time starts cold. A
  registered capture is restored by pods of any function with the same image, model and flags, a pod
  without one is stamped and queued for capture, a restored pod is never captured, and the controller
  loses no ready pod. The catalog has one row per capture, its pages and its deduplicated list are
  complete, and a deletion that reports success has cleaned every tier. For requests of the agent: a pass of the queue manager
  accepts no more than the free GPUs whatever its interleaving, handles each new message once, lets the queues of
  a GPU take turns, returns, and deletes a message only when it is recorded; paused or drained it only terminates. A change of a
  status loses no write of another controller; a message is deleted by the acknowledging pass only after the control plane accepted or the failure is recorded; a
  request is removed only when its recorded instances are gone and reported; the periodic comparison makes the
  control plane agree with the cluster. For the cache: the wheel
  is a map of countdowns and a key is due on the tick it was scheduled for; every
  event is stored, pending, in flight, superseded by a newer one, or dropped by an eviction whose
  retries failed; the cache stays within its bound; a flush ends after at most four writes.

  The proofs also found places where the code does not do what it says: the refund
  branch of \<open>saturatingConsume\<close> leaves its documented range; the counter of the rate-limiter service
  loses concurrent increments and reports its expiry decades late; the policy loader never takes its
  not-found branch; the admission hook can reset a function while it is being captured, so that two
  pods capture it; the gate does not serialize replicas of a function without a state object;
  the server answers "not found" while its database fails, which makes the hook forget warm
  functions, and a deletion at that time drops the bytes and keeps the row; retention and
  deletions during an ingestion pass are undone by it; recovery ignores engine flags; pages skip
  rows of equal times; and times compared as text put an older capture first. In the agent, a message whose request
  the API server has but the cache does not makes a pass panic; queues that share a stream let a message be
  counted against another GPU; a report drops the instances it did not post, which are then reported as terminated and
  outlive their request; a stale copy undoes a newer status; and the eviction before self-destruction is
  never confirmed, because it forgets what was reported.

  \<^bold>\<open>What is not modelled.\<close> HTTP and gRPC transport, JSON wire formats, process start-up, logs, spans
  and metrics; in the agent the creation of instances, the updates of mini services, the limits of tasks, the environment overrides, the choice of
  the cache storage and the decoding of messages, which are parameters, and goroutines of the passes over
  requests, which run one after the other in the model, as does the fetching of the queues; the JavaScript, Java, Python, Rust and Kotlin parts; the command-line client; and the
  controllers of the cluster agent that only translate one Kubernetes object to another. Request
  sampling in the vanity gateway and connection handling in the gRPC proxy are not covered either.
\<close>

end
